(* ===== verification/Prelude.thy ===== *)
theory Prelude
  imports Main "HOL-Library.Word" "HOL-Library.Monad_Syntax" "HOL-Library.Signed_Division"
begin

unbundle bit_operations_syntax

section \<open>Shared types, automation and lemmas\<close>

text \<open>
  What every component of the development shares.

  \<^item> Go's signed integers are HOL integers with the wrap-around written out: \<open>i32\<close> and
    \<open>i64\<close> reduce a mathematical integer to the value an \<open>int32\<close> or \<open>int64\<close> holds, and the
    predicates \<open>is_i32\<close>, \<open>is_i64\<close> are the types' ranges. Each arithmetic operation
    of the source on such a value is followed by the reduction.
  \<^item> Go's division truncates towards zero: \<open>sdiv\<close> and \<open>smod\<close> of the library.
  \<^item> A run-time panic (an index out of range, a nil dereference) and a call that never returns are
    the value \<open>None\<close>; the \<open>do\<close> notation of the option monad threads it.
  \<^item> \<open>slice_get\<close> and \<open>slice_set\<close> are Go's bounds-checked slice accesses.
\<close>

named_theorems wire_simps \<open>equations of the byte encodings\<close>
named_theorems range_simps \<open>the ranges of the fixed-width integers\<close>

subsection \<open>Evaluation\<close>

text \<open>Concrete runs are evaluated by \<open>code_simp\<close>. The monad is read as a case distinction, whose branches are
  not evaluated before one is chosen, and an updated function is evaluated only at the arguments asked for.\<close>

lemma bind_case [code_unfold]: "Option.bind x f = (case x of None \<Rightarrow> None | Some y \<Rightarrow> f y)"
  by (cases x) simp_all

lemma map_option_case [code_unfold]: "map_option f x = (case x of None \<Rightarrow> None | Some y \<Rightarrow> Some (f y))"
  by (cases x) simp_all

declare fun_upd_apply [code]

subsection \<open>Fixed-width signed integers\<close>

type_synonym byte = "8 word"

definition i32 :: "int \<Rightarrow> int" where
  "i32 x = signed_take_bit 31 x"

definition i64 :: "int \<Rightarrow> int" where
  "i64 x = signed_take_bit 63 x"

definition is_i32 :: "int \<Rightarrow> bool" where
  "is_i32 x \<longleftrightarrow> - 2147483648 \<le> x \<and> x < 2147483648"

definition is_i64 :: "int \<Rightarrow> bool" where
  "is_i64 x \<longleftrightarrow> - 9223372036854775808 \<le> x \<and> x < 9223372036854775808"

lemmas [range_simps] = is_i32_def is_i64_def

lemma i32_id [simp]: "is_i32 x \<Longrightarrow> i32 x = x"
  unfolding i32_def by (rule signed_take_bit_int_eq_self) (simp_all add: is_i32_def)

lemma i64_id [simp]: "is_i64 x \<Longrightarrow> i64 x = x"
  unfolding i64_def by (rule signed_take_bit_int_eq_self) (simp_all add: is_i64_def)

lemma is_i32_i32 [simp, intro]: "is_i32 (i32 x)"
  using signed_take_bit_int_greater_eq_minus_exp [of 31 x] signed_take_bit_int_less_exp [of 31 x]
  by (simp add: i32_def is_i32_def)

lemma is_i64_i64 [simp, intro]: "is_i64 (i64 x)"
  using signed_take_bit_int_greater_eq_minus_exp [of 63 x] signed_take_bit_int_less_exp [of 63 x]
  by (simp add: i64_def is_i64_def)

lemma i32_take_bit [simp]: "i32 (take_bit 32 x) = i32 x"
  unfolding i32_def by (rule signed_take_bit_eq_iff_take_bit_eq [THEN iffD2]) simp

lemma i64_take_bit [simp]: "i64 (take_bit 64 x) = i64 x"
  unfolding i64_def by (rule signed_take_bit_eq_iff_take_bit_eq [THEN iffD2]) simp

lemma i32_small: "0 \<le> x \<Longrightarrow> x < 2147483648 \<Longrightarrow> i32 x = x"
  by (simp add: is_i32_def)

lemma i32_add_one: "is_i32 x \<Longrightarrow> x < 2147483647 \<Longrightarrow> i32 (x + 1) = x + 1"
  by (simp add: is_i32_def)

lemma sdiv_nonneg [simp]: "0 \<le> a \<Longrightarrow> 0 < b \<Longrightarrow> a sdiv b = a div (b :: int)"
  by (cases "a = 0") (simp_all add: signed_divide_int_def)

lemma smod_nonneg [simp]: "0 \<le> a \<Longrightarrow> 0 < b \<Longrightarrow> a smod b = a mod (b :: int)"
  by (cases "a = 0") (simp_all add: signed_modulo_int_def)

subsection \<open>Bounds-checked slices\<close>

definition slice_get :: "'a list \<Rightarrow> int \<Rightarrow> 'a option" where
  "slice_get xs i = (if 0 \<le> i \<and> i < int (length xs) then Some (xs ! nat i) else None)"

definition slice_set :: "'a list \<Rightarrow> int \<Rightarrow> 'a \<Rightarrow> 'a list option" where
  "slice_set xs i v = (if 0 \<le> i \<and> i < int (length xs) then Some (xs[nat i := v]) else None)"

lemma slice_get_Some_iff:
  "slice_get xs i = Some v \<longleftrightarrow> 0 \<le> i \<and> i < int (length xs) \<and> xs ! nat i = v"
  by (auto simp: slice_get_def)

lemma slice_set_Some_iff:
  "slice_set xs i v = Some ys \<longleftrightarrow> 0 \<le> i \<and> i < int (length xs) \<and> ys = xs[nat i := v]"
  by (auto simp: slice_set_def)

lemma slice_get_nat [simp]: "n < length xs \<Longrightarrow> slice_get xs (int n) = Some (xs ! n)"
  by (simp add: slice_get_def)

lemma slice_get_None_iff: "slice_get xs i = None \<longleftrightarrow> i < 0 \<or> int (length xs) \<le> i"
  by (auto simp: slice_get_def)

lemma length_slice_set: "slice_set xs i v = Some ys \<Longrightarrow> length ys = length xs"
  by (auto simp: slice_set_Some_iff)

lemma slice_get_set_same: "slice_set xs i v = Some ys \<Longrightarrow> slice_get ys i = Some v"
  by (auto simp: slice_set_Some_iff slice_get_Some_iff)

lemma slice_get_set_other:
  "slice_set xs i v = Some ys \<Longrightarrow> i \<noteq> j \<Longrightarrow> slice_get ys j = slice_get xs j"
  by (auto simp: slice_set_Some_iff slice_get_def)

lemmas slice_simps = slice_get_Some_iff slice_set_Some_iff Option.bind_eq_Some_conv

subsection \<open>Lists\<close>

lemma nth_append_take_eq:
  "take n xs = take n ys \<Longrightarrow> i < n \<Longrightarrow> n \<le> length xs \<Longrightarrow> n \<le> length ys \<Longrightarrow> xs ! i = ys ! i"
  by (metis nth_take)

lemma card_gt_half_Int:
  assumes "A \<subseteq> U" and "B \<subseteq> U" and "finite U"
    and "card U < card A + card B"
  shows "A \<inter> B \<noteq> {}"
proof
  assume "A \<inter> B = {}"
  then have "card A + card B = card (A \<union> B)"
    using assms(1-3) by (metis card_Un_disjoint finite_subset)
  also have "\<dots> \<le> card U"
    using assms(1-3) by (intro card_mono) auto
  finally show False using assms(4) by simp
qed

end
