(* ===== verification/Wire.thy ===== *)
theory Wire
  imports Prelude "HOL-Library.Sublist"
begin

section \<open>The wire: byte streams, little-endian integers, varints, codecs\<close>

text \<open>
  The encodings every message type of the repository is built from, and the contract a
  message codec fulfils.

  \<^item> A stream is a list of bytes. \<open>io_ReadFull\<close> is Go's \<open>io.ReadFull\<close> (and
    \<open>io.ReadAtLeast\<close> on a full buffer): it takes the bytes it needs or, when the stream
    ends first, consumes what is left and reports \<open>EOF\<close> or \<open>UnexpectedEOF\<close>.
  \<^item> An \<open>Unmarshal\<close> method writes into an existing struct, so its model takes the
    struct before the call. Its outcome is \<open>Ok\<close> (the struct and the rest of the stream),
    \<open>Fail\<close> (the error, the struct as far as it was written, the rest of the stream) or
    \<open>Panic\<close> (a run-time panic: \<open>make\<close> with a negative length).
  \<^item> \<open>le_bytes\<close> and \<open>le_val\<close> are the shift-and-mask sequences of the generated code.
  \<^item> \<open>PutVarint\<close> and \<open>ReadVarint\<close> are \<open>encoding/binary\<close>'s zig-zag variable-length
    integers on 64 bits.
  \<^item> The locale \<open>codec\<close> is the contract between \<open>Marshal\<close> and \<open>Unmarshal\<close>; its lemmas
    (no message is a proper prefix of another, lists of messages decode to themselves)
    are proved once, and each message type of the protocols interprets it.
\<close>

subsection \<open>Streams and outcomes\<close>

datatype io_error = EOF | UnexpectedEOF | VarintOverflow

datatype 'a outcome = Ok 'a "byte list" | Fail io_error 'a "byte list" | Panic

definition io_ReadFull :: "nat \<Rightarrow> byte list \<Rightarrow> byte list outcome" where
  "io_ReadFull n s =
     (if n \<le> length s then Ok (take n s) (drop n s)
      else Fail (if s = [] then EOF else UnexpectedEOF) s [])"

text \<open>\<open>with_bytes n t s k\<close>: read \<open>n\<close> bytes, return the error if that fails, else go on
  with \<open>k\<close>; \<open>t\<close> is the struct as written so far.\<close>

definition with_bytes ::
    "nat \<Rightarrow> 'a \<Rightarrow> byte list \<Rightarrow> (byte list \<Rightarrow> byte list \<Rightarrow> 'a outcome) \<Rightarrow> 'a outcome" where
  "with_bytes n t s k =
     (case io_ReadFull n s of
        Ok bs r \<Rightarrow> k bs r
      | Fail e _ r \<Rightarrow> Fail e t r
      | Panic \<Rightarrow> Panic)"

text \<open>\<open>and_then upd m k\<close>: a field was read by \<open>m\<close>; store it with \<open>upd\<close>, return its error
  if it failed, else go on with \<open>k\<close>. \<open>regardless upd m k\<close> is the same where the source
  drops the error the call returns.\<close>

definition and_then ::
    "('f \<Rightarrow> 'a) \<Rightarrow> 'f outcome \<Rightarrow> ('a \<Rightarrow> byte list \<Rightarrow> 'a outcome) \<Rightarrow> 'a outcome" where
  "and_then upd m k =
     (case m of Ok x r \<Rightarrow> k (upd x) r | Fail e x r \<Rightarrow> Fail e (upd x) r | Panic \<Rightarrow> Panic)"

definition regardless ::
    "('f \<Rightarrow> 'a) \<Rightarrow> 'f outcome \<Rightarrow> ('a \<Rightarrow> byte list \<Rightarrow> 'a outcome) \<Rightarrow> 'a outcome" where
  "regardless upd m k =
     (case m of Ok x r \<Rightarrow> k (upd x) r | Fail e x r \<Rightarrow> k (upd x) r | Panic \<Rightarrow> Panic)"

lemma and_then_simps [simp, wire_simps]:
  "and_then upd (Ok x r) k = k (upd x) r"
  "and_then upd (Fail e x r) k = Fail e (upd x) r"
  "and_then upd Panic k = Panic"
  by (simp_all add: and_then_def)

lemma regardless_simps [simp, wire_simps]:
  "regardless upd (Ok x r) k = k (upd x) r"
  "regardless upd (Fail e x r) k = k (upd x) r"
  "regardless upd Panic k = Panic"
  by (simp_all add: regardless_def)

lemma io_ReadFull_append [simp, wire_simps]:
  "length bs = n \<Longrightarrow> io_ReadFull n (bs @ s) = Ok bs s"
  by (simp add: io_ReadFull_def)

lemma with_bytes_append [simp, wire_simps]:
  "length bs = n \<Longrightarrow> with_bytes n t (bs @ s) k = k bs s"
  by (simp add: with_bytes_def)

lemma with_bytes_short:
  "length s < n \<Longrightarrow> with_bytes n t s k = Fail (if s = [] then EOF else UnexpectedEOF) t []"
  by (simp add: with_bytes_def io_ReadFull_def)

subsection \<open>Little-endian integers\<close>

definition byte_of :: "int \<Rightarrow> byte" where
  "byte_of x = word_of_int x"

fun le_bytes :: "nat \<Rightarrow> int \<Rightarrow> byte list" where
  "le_bytes 0 x = []"
| "le_bytes (Suc n) x = byte_of x # le_bytes n (drop_bit 8 x)"

fun le_val :: "byte list \<Rightarrow> int" where
  "le_val [] = 0"
| "le_val (b # bs) = uint b OR push_bit 8 (le_val bs)"

lemma length_le_bytes [simp, wire_simps]: "length (le_bytes n x) = n"
  by (induction n arbitrary: x) simp_all

lemma uint_byte_of: "uint (byte_of x) = take_bit 8 x"
  by (simp add: byte_of_def uint_word_of_int take_bit_eq_mod)

lemma take_bit_split8:
  "take_bit 8 x OR push_bit 8 (take_bit m (drop_bit 8 x)) = take_bit (8 + m) (x :: int)"
  by (rule bit_eqI) (auto simp: bit_simps)

lemma le_val_le_bytes [wire_simps]: "le_val (le_bytes n x) = take_bit (8 * n) x"
proof (induction n arbitrary: x)
  case 0
  then show ?case by simp
next
  case (Suc n)
  have "8 * Suc n = 8 + 8 * n" by simp
  with Suc show ?case
    by (simp only: le_bytes.simps le_val.simps uint_byte_of take_bit_split8)
qed

text \<open>The three widths the messages use: \<open>int32\<close>, \<open>int64\<close> and the unsigned reads.\<close>

definition put32 :: "int \<Rightarrow> byte list" where
  "put32 x = le_bytes 4 x"

definition get32 :: "byte list \<Rightarrow> int" where
  "get32 bs = i32 (le_val (take 4 bs))"

definition put64 :: "int \<Rightarrow> byte list" where
  "put64 x = le_bytes 8 x"

definition get64 :: "byte list \<Rightarrow> int" where
  "get64 bs = i64 (le_val (take 8 bs))"

lemma length_put32 [simp, wire_simps]: "length (put32 x) = 4"
  by (simp add: put32_def)

lemma length_put64 [simp, wire_simps]: "length (put64 x) = 8"
  by (simp add: put64_def)

lemma get32_put32 [simp, wire_simps]: "is_i32 x \<Longrightarrow> get32 (put32 x @ s) = x"
  by (simp add: get32_def put32_def le_val_le_bytes)

lemma get64_put64 [simp, wire_simps]: "is_i64 x \<Longrightarrow> get64 (put64 x @ s) = x"
  by (simp add: get64_def put64_def le_val_le_bytes)

lemma get32_put32_end [simp, wire_simps]: "is_i32 x \<Longrightarrow> get32 (put32 x) = x"
  using get32_put32 [of x "[]"] by simp

lemma get64_put64_end [simp, wire_simps]: "is_i64 x \<Longrightarrow> get64 (put64 x) = x"
  using get64_put64 [of x "[]"] by simp

lemma drop_put32 [simp, wire_simps]:
  "drop 4 (put32 x @ s) = s" "drop 8 (put32 x @ s) = drop 4 s"
  "drop 12 (put32 x @ s) = drop 8 s" "drop 16 (put32 x @ s) = drop 12 s"
  "drop 20 (put32 x @ s) = drop 16 s"
  by (simp_all add: put32_def)

subsection \<open>Variable-length integers\<close>

text \<open>Unsigned 64-bit values are natural numbers below \<open>2 ^ 64\<close>; the bits shifted beyond
  bit 63 are cut off as in the source.\<close>

fun PutUvarint :: "nat \<Rightarrow> byte list" where
  "PutUvarint x =
     (if 128 \<le> x then (of_nat x OR 128) # PutUvarint (x div 128) else [of_nat x])"

declare PutUvarint.simps [simp del]

definition PutVarint :: "int \<Rightarrow> byte list" where
  "PutVarint x =
     (let ux = take_bit 64 (push_bit 1 x)
      in PutUvarint (nat (if x < 0 then take_bit 64 (NOT ux) else ux)))"

fun ReadUvarint :: "nat \<Rightarrow> nat \<Rightarrow> byte list \<Rightarrow> nat outcome" where
  "ReadUvarint i x [] =
     (if 10 \<le> i then Fail VarintOverflow x []
      else Fail (if 0 < i then UnexpectedEOF else EOF) x [])"
| "ReadUvarint i x (b # r) =
     (if 10 \<le> i then Fail VarintOverflow x (b # r)
      else if unat b < 128
        then if i = 9 \<and> 1 < unat b then Fail VarintOverflow x r
             else Ok (x OR take_bit 64 (push_bit (7 * i) (unat b))) r
        else ReadUvarint (Suc i) (x OR take_bit 64 (push_bit (7 * i) (unat (b AND 127)))) r)"

definition unzigzag :: "nat \<Rightarrow> int" where
  "unzigzag ux = (let x = i64 (int (ux div 2)) in if odd ux then NOT x else x)"

definition ReadVarint :: "byte list \<Rightarrow> int outcome" where
  "ReadVarint s =
     (case ReadUvarint 0 0 s of
        Ok ux r \<Rightarrow> Ok (unzigzag ux) r
      | Fail e ux r \<Rightarrow> Fail e (unzigzag ux) r
      | Panic \<Rightarrow> Panic)"

lemma unat_low7: "unat ((of_nat x OR 128 :: byte) AND 127) = x mod 128"
proof -
  have "(of_nat x OR 128 :: byte) AND 127 = take_bit 7 (of_nat x)"
    by (rule bit_word_eqI) (auto simp: bit_simps numeral_eq_Suc less_Suc_eq)
  then have "unat ((of_nat x OR 128 :: byte) AND 127) = take_bit 7 (unat (of_nat x :: byte))"
    by (simp only: unsigned_take_bit_eq)
  then show ?thesis
    by (simp add: unat_of_nat take_bit_eq_mod mod_mod_cancel)
qed

lemma unat_high: "128 \<le> unat (of_nat x OR 128 :: byte)"
proof -
  have "(128 :: byte) \<le> of_nat x OR 128"
    by (subst or.commute) (rule le_word_or2)
  then show ?thesis by (simp add: word_le_nat_alt)
qed

lemma or_push_bit_split:
  "(acc OR push_bit k (x mod 128)) OR push_bit (k + 7) (x div 128) = acc OR push_bit k (x :: nat)"
proof -
  have "push_bit k (x mod 128) OR push_bit (k + 7) (x div 128) = push_bit k x"
  proof (rule bit_eqI)
    fix n
    have "x mod 128 = take_bit 7 x" "x div 128 = drop_bit 7 x"
      by (simp_all add: take_bit_eq_mod drop_bit_eq_div)
    then show "bit (push_bit k (x mod 128) OR push_bit (k + 7) (x div 128)) n = bit (push_bit k x) n"
      by (cases "n < k + 7") (auto simp: bit_simps)
  qed
  then show ?thesis by (simp add: or.assoc)
qed

lemma take_bit_push_bit_id:
  assumes "(x :: nat) < 2 ^ (64 - k)" and "k \<le> 64"
  shows "take_bit 64 (push_bit k x) = push_bit k x"
proof -
  have "x * 2 ^ k < 2 ^ (64 - k) * 2 ^ k" using assms(1) by simp
  also have "\<dots> = 2 ^ 64" using assms(2) by (simp flip: power_add)
  finally show ?thesis by (simp add: push_bit_eq_mult take_bit_nat_eq_self)
qed

lemma ReadUvarint_PutUvarint:
  "i \<le> 9 \<Longrightarrow> x < 2 ^ (64 - 7 * i) \<Longrightarrow>
     ReadUvarint i acc (PutUvarint x @ s) = Ok (acc OR push_bit (7 * i) x) s"
proof (induction x arbitrary: i acc rule: PutUvarint.induct)
  case (1 x)
  show ?case
  proof (cases "128 \<le> x")
    case False
    then have b: "unat (of_nat x :: byte) = x" by (simp add: unat_of_nat)
    have "i = 9 \<Longrightarrow> x \<le> 1" using 1(3) by simp
    with b False 1(2) show ?thesis
      by (subst PutUvarint.simps) (auto simp add: take_bit_push_bit_id [OF 1(3)])
  next
    case True
    have i: "i \<le> 8"
    proof (rule ccontr)
      assume "\<not> i \<le> 8"
      with 1(2) have "i = 9" by simp
      with 1(3) True show False by simp
    qed
    then have e: "64 - 7 * i = 7 + (64 - 7 * Suc i)" by simp
    have "x < 2 ^ 7 * 2 ^ (64 - 7 * Suc i)"
      using 1(3) unfolding e power_add .
    then have x': "x div 128 < 2 ^ (64 - 7 * Suc i)"
      by (simp add: less_mult_imp_div_less mult.commute)
    have lo: "x mod 128 < 2 ^ (64 - 7 * i)"
      using 1(3) by (meson le_less_trans mod_less_eq_dividend)
    from i have i1: "Suc i \<le> 9" by simp
    have k: "7 * i \<le> 64" using i by simp
    have "ReadUvarint i acc (PutUvarint x @ s) =
        ReadUvarint (Suc i) (acc OR push_bit (7 * i) (x mod 128)) (PutUvarint (x div 128) @ s)"
      using True i unat_high [of x]
      by (subst PutUvarint.simps) (simp add: unat_low7 take_bit_push_bit_id [OF lo k] not_less)
    also have "\<dots> = Ok ((acc OR push_bit (7 * i) (x mod 128)) OR push_bit (7 * Suc i) (x div 128)) s"
      by (rule "1.IH" [OF True i1 x'])
    also have "7 * Suc i = 7 * i + 7" by simp
    finally show ?thesis by (simp only: or_push_bit_split)
  qed
qed

lemma zigzag_nonneg:
  "0 \<le> x \<Longrightarrow> is_i64 x \<Longrightarrow> nat (take_bit 64 (push_bit 1 x)) = 2 * nat x"
  by (simp add: is_i64_def push_bit_eq_mult take_bit_int_eq_self nat_mult_distrib)

lemma zigzag_neg:
  "x < 0 \<Longrightarrow> is_i64 x \<Longrightarrow>
     nat (take_bit 64 (NOT (take_bit 64 (push_bit 1 x)))) = 2 * nat (- x - 1) + 1"
proof -
  assume x: "x < 0" "is_i64 x"
  have "take_bit 64 (NOT (take_bit 64 (push_bit 1 x))) = take_bit 64 (NOT (push_bit 1 x))"
    by (simp add: take_bit_not_take_bit)
  also have "NOT (push_bit 1 x) = - 2 * x - 1"
    by (simp add: not_int_def push_bit_eq_mult)
  also have "take_bit 64 (- 2 * x - 1) = - 2 * x - 1"
    using x by (intro take_bit_int_eq_self) (simp_all add: is_i64_def)
  finally show ?thesis using x by simp
qed

lemma ReadVarint_PutVarint [simp, wire_simps]:
  assumes "is_i64 x"
  shows "ReadVarint (PutVarint x @ s) = Ok x s"
proof (cases "x < 0")
  case True
  have b: "2 * nat (- x - 1) + 1 < 2 ^ (64 - 7 * 0)" "is_i64 (- x - 1)"
    using True assms by (simp_all add: is_i64_def)
  show ?thesis
    using True b(2) unfolding ReadVarint_def PutVarint_def Let_def
    by (simp only: if_True zigzag_neg [OF True assms] ReadUvarint_PutUvarint [OF _ b(1)])
      (simp add: unzigzag_def not_int_def)
next
  case False
  then have b: "2 * nat x < 2 ^ (64 - 7 * 0)"
    using assms by (simp add: is_i64_def)
  have z: "nat (take_bit 64 (push_bit 1 x)) = 2 * nat x"
    using False assms by (intro zigzag_nonneg) simp_all
  show ?thesis
    using False assms unfolding ReadVarint_def PutVarint_def Let_def
    by (simp only: if_False z ReadUvarint_PutUvarint [OF _ b]) (simp add: unzigzag_def)
qed

subsection \<open>Slices of messages\<close>

text \<open>
  A slice is sent as its length (a varint) and its elements. The receiver allocates a slice
  of that length, a run-time panic when the length is negative, and unmarshals into each
  element in turn. \<open>read_each\<close> returns the first error an element reports; \<open>read_each_lax\<close>
  drops the errors and goes on, as the code of several packages does.
\<close>

fun read_each :: "('a \<Rightarrow> byte list \<Rightarrow> 'a outcome) \<Rightarrow> 'a \<Rightarrow> nat \<Rightarrow> byte list \<Rightarrow> 'a list outcome" where
  "read_each um z 0 s = Ok [] s"
| "read_each um z (Suc n) s =
     (case um z s of
        Ok x r \<Rightarrow>
          (case read_each um z n r of
             Ok xs r' \<Rightarrow> Ok (x # xs) r' | Fail e xs r' \<Rightarrow> Fail e (x # xs) r' | Panic \<Rightarrow> Panic)
      | Fail e x r \<Rightarrow> Fail e (x # replicate n z) r
      | Panic \<Rightarrow> Panic)"

fun read_each_lax :: "('a \<Rightarrow> byte list \<Rightarrow> 'a outcome) \<Rightarrow> 'a \<Rightarrow> nat \<Rightarrow> byte list \<Rightarrow> 'a list outcome" where
  "read_each_lax um z 0 s = Ok [] s"
| "read_each_lax um z (Suc n) s =
     (let next = (\<lambda>x r. case read_each_lax um z n r of
                     Ok xs r' \<Rightarrow> Ok (x # xs) r' | Fail e xs r' \<Rightarrow> Fail e (x # xs) r' | Panic \<Rightarrow> Panic)
      in case um z s of Ok x r \<Rightarrow> next x r | Fail e x r \<Rightarrow> next x r | Panic \<Rightarrow> Panic)"

definition put_slice :: "('a \<Rightarrow> byte list) \<Rightarrow> 'a list \<Rightarrow> byte list" where
  "put_slice m xs = PutVarint (int (length xs)) @ concat (map m xs)"

definition get_slice ::
    "(nat \<Rightarrow> byte list \<Rightarrow> 'a list outcome) \<Rightarrow> 'a list \<Rightarrow> byte list \<Rightarrow> 'a list outcome" where
  "get_slice each t s =
     (case ReadVarint s of
        Ok n r \<Rightarrow> if n < 0 then Panic else each (nat n) r
      | Fail e _ r \<Rightarrow> Fail e t r
      | Panic \<Rightarrow> Panic)"

text \<open>A byte slice with its length: the receiver allocates it zeroed and fills it, so after a
  short read the bytes that did arrive are followed by zeros.\<close>

definition get_bytes :: "byte list \<Rightarrow> byte list \<Rightarrow> byte list outcome" where
  "get_bytes t s =
     (case ReadVarint s of
        Ok alen r \<Rightarrow>
          if alen < 0 then Panic
          else if 0 < alen then
            (case io_ReadFull (nat alen) r of
               Ok bs r' \<Rightarrow> Ok bs r'
             | Fail e bs r' \<Rightarrow> Fail e (bs @ replicate (nat alen - length bs) 0) r'
             | Panic \<Rightarrow> Panic)
          else Ok [] r
      | Fail e _ r \<Rightarrow> Fail e t r
      | Panic \<Rightarrow> Panic)"

definition short_enough :: "'a list \<Rightarrow> bool" where
  "short_enough xs \<longleftrightarrow> int (length xs) < 9223372036854775808"

fun is_fail :: "'a outcome \<Rightarrow> bool" where
  "is_fail (Fail _ _ _) = True"
| "is_fail _ = False"

lemma is_i64_length: "short_enough xs \<Longrightarrow> is_i64 (int (length xs))"
  by (simp add: short_enough_def is_i64_def)

lemma get_slice_PutVarint [wire_simps]:
  "is_i64 (int n) \<Longrightarrow> get_slice each t (PutVarint (int n) @ s) = each n s"
  by (simp add: get_slice_def)

lemma strict_prefix_appendD:
  assumes "strict_prefix p (a @ b)"
  shows "strict_prefix p a \<or> (\<exists>q. p = a @ q \<and> strict_prefix q b)"
proof -
  from assms have "prefix p a \<or> (\<exists>q. p = a @ q \<and> prefix q b)" and ne: "p \<noteq> a @ b"
    by (auto simp: strict_prefix_def prefix_append)
  with ne show ?thesis
    by (cases "p = a") (auto simp: strict_prefix_def intro: exI [of _ "[]"])
qed

lemma with_bytes_truncated_end:
  "strict_prefix p a \<Longrightarrow> length a = n \<Longrightarrow> is_fail (with_bytes n t p k)"
  using prefix_length_less [of p a] by (simp add: with_bytes_short)

lemma with_bytes_truncated:
  assumes "strict_prefix p (a @ b)" and "length a = n"
    and "\<And>q. strict_prefix q b \<Longrightarrow> is_fail (k a q)"
  shows "is_fail (with_bytes n t p k)"
  using strict_prefix_appendD [OF assms(1)] assms(2,3)
  by (auto intro: with_bytes_truncated_end)

lemma is_fail_and_then: "is_fail m \<Longrightarrow> is_fail (and_then upd m k)"
  by (cases m) simp_all

lemma PutUvarint_continues: "strict_prefix p (PutUvarint x) \<Longrightarrow> b \<in> set p \<Longrightarrow> 128 \<le> unat b"
proof (induction x arbitrary: p rule: PutUvarint.induct)
  case (1 x)
  then show ?case
    using unat_high [of x]
    by (cases p) (auto simp: PutUvarint.simps [of x] strict_prefix_def split: if_splits)
qed

lemma ReadUvarint_continues: "\<forall>b \<in> set p. 128 \<le> unat b \<Longrightarrow> is_fail (ReadUvarint i x p)"
  by (induction i x p rule: ReadUvarint.induct) auto

lemma ReadVarint_truncated: "strict_prefix p (PutVarint x) \<Longrightarrow> is_fail (ReadVarint p)"
proof -
  assume "strict_prefix p (PutVarint x)"
  then have "is_fail (ReadUvarint 0 0 p)"
    unfolding PutVarint_def Let_def by (intro ReadUvarint_continues ballI PutUvarint_continues)
  then show ?thesis by (cases "ReadUvarint 0 0 p") (simp_all add: ReadVarint_def)
qed

lemma get_slice_truncated:
  assumes p: "strict_prefix p (put_slice m xs)" and len: "short_enough xs"
    and each: "\<And>q. strict_prefix q (concat (map m xs)) \<Longrightarrow> is_fail (each (length xs) q)"
  shows "is_fail (get_slice each t p)"
proof -
  from p consider "strict_prefix p (PutVarint (int (length xs)))"
    | q where "p = PutVarint (int (length xs)) @ q" "strict_prefix q (concat (map m xs))"
    unfolding put_slice_def by (blast dest: strict_prefix_appendD)
  then show ?thesis
  proof cases
    case 1
    then have "is_fail (ReadVarint p)" by (rule ReadVarint_truncated)
    then show ?thesis by (cases "ReadVarint p") (simp_all add: get_slice_def)
  next
    case 2
    then show ?thesis by (simp add: get_slice_PutVarint is_i64_length len each)
  qed
qed

lemma get_bytes_roundtrip:
  "short_enough v \<Longrightarrow> get_bytes t (PutVarint (int (length v)) @ v @ s) = Ok v s"
  by (simp add: get_bytes_def is_i64_length)

lemma get_bytes_truncated:
  assumes "short_enough v" and "strict_prefix p (PutVarint (int (length v)) @ v)"
  shows "is_fail (get_bytes t p)"
  using strict_prefix_appendD [OF assms(2)]
proof (elim disjE exE conjE)
  assume "strict_prefix p (PutVarint (int (length v)))"
  then have "is_fail (ReadVarint p)" by (rule ReadVarint_truncated)
  then show ?thesis by (cases "ReadVarint p") (simp_all add: get_bytes_def)
next
  fix b
  assume "p = PutVarint (int (length v)) @ b" "strict_prefix b v"
  with prefix_length_less [of b v] assms(1) show ?thesis
    by (auto simp: get_bytes_def is_i64_length io_ReadFull_def)
qed

text \<open>A slice that may be nil, and a reader of it: \<open>make\<close> returns a slice that is not nil, also when
  it is empty.\<close>

type_synonym 'a slice = "'a list option"

definition elems :: "'a slice \<Rightarrow> 'a list" where
  "elems xs = (case xs of None \<Rightarrow> [] | Some ys \<Rightarrow> ys)"

definition get_nslice ::
    "(nat \<Rightarrow> byte list \<Rightarrow> 'a list outcome) \<Rightarrow> 'a slice \<Rightarrow> byte list \<Rightarrow> 'a slice outcome" where
  "get_nslice each t s =
     (case ReadVarint s of
        Ok n r \<Rightarrow>
          if n < 0 then Panic
          else (case each (nat n) r of
             Ok xs r \<Rightarrow> Ok (Some xs) r | Fail e xs r \<Rightarrow> Fail e (Some xs) r | Panic \<Rightarrow> Panic)
      | Fail e _ r \<Rightarrow> Fail e t r
      | Panic \<Rightarrow> Panic)"

lemma elems_simps [simp]: "elems None = []" "elems (Some xs) = xs"
  by (simp_all add: elems_def)

lemma get_nslice_get_slice:
  "get_slice each u s = Ok xs r \<Longrightarrow> get_nslice each t s = Ok (Some xs) r"
  by (auto simp: get_slice_def get_nslice_def split: outcome.splits if_splits)

lemma is_fail_get_nslice: "is_fail (get_slice each u s) \<Longrightarrow> is_fail (get_nslice each t s)"
  by (auto simp: get_slice_def get_nslice_def split: outcome.splits if_splits)

text \<open>A field of a struct that is read after other fields and before others.\<close>

lemma field_truncated:
  assumes "strict_prefix p (a @ b)" and "\<And>s. um (a @ s) = Ok x s"
    and "\<And>q. strict_prefix q a \<Longrightarrow> is_fail (um q)"
    and "\<And>q. strict_prefix q b \<Longrightarrow> is_fail (k (upd x) q)"
  shows "is_fail (and_then upd (um p) k)"
  using strict_prefix_appendD [OF assms(1)] assms(2-4) by (auto intro: is_fail_and_then)

subsection \<open>The contract of a message codec\<close>

locale codec =
  fixes marshal :: "'a \<Rightarrow> byte list"
    and unmarshal :: "'a \<Rightarrow> byte list \<Rightarrow> 'a outcome"
    and wf :: "'a \<Rightarrow> bool"
  assumes roundtrip: "wf x \<Longrightarrow> unmarshal t (marshal x @ s) = Ok x s"
begin

lemma roundtrip_end: "wf x \<Longrightarrow> unmarshal t (marshal x) = Ok x []"
  using roundtrip [of x t "[]"] by simp

lemma self_delimiting:
  assumes "wf x" and "wf y" and "marshal x @ s = marshal y @ s'"
  shows "x = y \<and> s = s'"
proof -
  have "Ok x s = unmarshal x (marshal y @ s')"
    using roundtrip [OF assms(1), of x s] unfolding assms(3) by (rule sym)
  also have "\<dots> = Ok y s'" by (rule roundtrip [OF assms(2)])
  finally show ?thesis by simp
qed

lemma read_each_marshal:
  "list_all wf xs \<Longrightarrow> read_each unmarshal z (length xs) (concat (map marshal xs) @ s) = Ok xs s"
  by (induction xs) (simp_all add: roundtrip)

lemma read_each_lax_marshal:
  "list_all wf xs \<Longrightarrow> read_each_lax unmarshal z (length xs) (concat (map marshal xs) @ s) = Ok xs s"
  by (induction xs) (simp_all add: roundtrip)

lemma slice_roundtrip:
  "list_all wf xs \<Longrightarrow> short_enough xs \<Longrightarrow>
     get_slice (read_each unmarshal z) t (put_slice marshal xs @ s) = Ok xs s"
  by (simp add: put_slice_def get_slice_PutVarint is_i64_length read_each_marshal)

lemma nslice_roundtrip:
  "list_all wf xs \<Longrightarrow> short_enough xs \<Longrightarrow>
     get_nslice (read_each unmarshal z) t (put_slice marshal xs @ s) = Ok (Some xs) s"
  by (rule get_nslice_get_slice) (rule slice_roundtrip)

lemma slice_lax_roundtrip:
  "list_all wf xs \<Longrightarrow> short_enough xs \<Longrightarrow>
     get_slice (read_each_lax unmarshal z) t (put_slice marshal xs @ s) = Ok xs s"
  by (simp add: put_slice_def get_slice_PutVarint is_i64_length read_each_lax_marshal)

end

text \<open>A codec that also notices every truncation: a stream that ends inside a message is
  reported as an error.\<close>

locale strict_codec = codec +
  assumes truncated: "wf x \<Longrightarrow> strict_prefix p (marshal x) \<Longrightarrow> is_fail (unmarshal t p)"
begin

lemma and_then_truncated:
  assumes "strict_prefix p (marshal x @ b)" and "wf x"
    and "\<And>q. strict_prefix q b \<Longrightarrow> is_fail (k (upd x) q)"
  shows "is_fail (and_then upd (unmarshal t p) k)"
  using strict_prefix_appendD [OF assms(1)] assms(2,3)
  by (auto simp: roundtrip intro: is_fail_and_then truncated)

lemma read_each_truncated:
  "list_all wf xs \<Longrightarrow> strict_prefix p (concat (map marshal xs)) \<Longrightarrow>
     is_fail (read_each unmarshal z (length xs) p)"
proof (induction xs arbitrary: p)
  case Nil
  then show ?case by simp
next
  case (Cons x xs)
  from Cons.prems(2) consider "strict_prefix p (marshal x)"
    | q where "p = marshal x @ q" "strict_prefix q (concat (map marshal xs))"
    by (auto dest: strict_prefix_appendD)
  then show ?case
  proof cases
    case 1
    moreover from Cons.prems(1) have "wf x" by simp
    ultimately have "is_fail (unmarshal z p)" by (intro truncated)
    then show ?thesis by (cases "unmarshal z p") simp_all
  next
    case 2
    with Cons have "is_fail (read_each unmarshal z (length xs) q)" by simp
    with 2 Cons.prems(1) show ?thesis
      by (cases "read_each unmarshal z (length xs) q") (simp_all add: roundtrip)
  qed
qed

lemma slice_truncated:
  "list_all wf xs \<Longrightarrow> short_enough xs \<Longrightarrow> strict_prefix p (put_slice marshal xs) \<Longrightarrow>
     is_fail (get_slice (read_each unmarshal z) t p)"
  by (rule get_slice_truncated) (auto intro: read_each_truncated)

lemma nslice_truncated:
  "list_all wf xs \<Longrightarrow> short_enough xs \<Longrightarrow> strict_prefix p (put_slice marshal xs) \<Longrightarrow>
     is_fail (get_nslice (read_each unmarshal z) t p)"
  by (rule is_fail_get_nslice) (rule slice_truncated)

end

end
