(* ===== verification/State.thy ===== *)
theory State
  imports Wire
begin

section \<open>Commands and the replicated key-value store\<close>

text \<open>
  The package \<open>state\<close> (\<open>src/state/state.go\<close>): commands, the store they are executed
  against, the conflict test the leaderless protocols order commands with, and the
  commands' wire format.

  \<^item> \<open>command\<close> and \<open>kv_state\<close> are the structs \<open>Command\<close> and \<open>State\<close> (the mutex that
    makes \<open>Execute\<close> atomic is not part of the state).
  \<^item> \<open>Execute\<close> and \<open>ComputeResult\<close> return \<open>None\<close> where the Go method does not return:
    a \<open>SCAN\<close> whose payload is shorter than the eight bytes of its count panics, and a
    \<open>SCAN\<close> of \<open>2 ^ 63 - 1\<close> keys loops forever because its counter wraps around.
  \<^item> \<open>Conflict\<close> returns \<open>None\<close> on the same short payload.
\<close>

type_synonym operation = "8 word"
type_synonym key = int
type_synonym val = "byte list"

abbreviation (input) NONE :: operation where "NONE \<equiv> 0"
abbreviation (input) PUT :: operation where "PUT \<equiv> 1"
abbreviation (input) GET :: operation where "GET \<equiv> 2"
abbreviation (input) SCAN :: operation where "SCAN \<equiv> 3"
abbreviation (input) CAUSAL :: operation where "CAUSAL \<equiv> 4"
abbreviation (input) STRONG :: operation where "STRONG \<equiv> 5"

record command =
  Op :: operation
  K :: key
  V :: val
  CL :: operation
  Sid :: int

record kv_state =
  Store :: "key \<rightharpoonup> val"

definition NIL :: val where
  "NIL = []"

definition NOOP :: "command list" where
  "NOOP = [\<lparr>Op = NONE, K = 0, V = NIL, CL = 0, Sid = 0\<rparr>]"

definition InitState :: kv_state where
  "InitState = \<lparr>Store = Map.empty\<rparr>"

subsection \<open>Execution\<close>

text \<open>\<open>concat\<close> allocates the total length and copies each slice behind the previous one.\<close>

fun copy_slices :: "val \<Rightarrow> nat \<Rightarrow> val list \<Rightarrow> val" where
  "copy_slices tmp i [] = tmp"
| "copy_slices tmp i (s # ss) =
     (let n = min (length tmp - i) (length s)
      in copy_slices (take i tmp @ take n s @ drop (i + n) tmp) (i + n) ss)"

definition concat_values :: "val list \<Rightarrow> val" where
  "concat_values slices = copy_slices (replicate (sum_list (map length slices)) 0) 0 slices"

definition LittleEndian_Uint64 :: "val \<Rightarrow> int option" where
  "LittleEndian_Uint64 v = (if 8 \<le> length v then Some (le_val (take 8 v)) else None)"

definition scan_count :: "command \<Rightarrow> int option" where
  "scan_count c = map_option i64 (LittleEndian_Uint64 (V c))"

partial_function (option) scan_loop ::
    "(key \<rightharpoonup> val) \<Rightarrow> key \<Rightarrow> int \<Rightarrow> int \<Rightarrow> val list \<Rightarrow> val list option" where
  "scan_loop st k count i found =
     (if i \<le> count
      then scan_loop st k count (i64 (i + 1))
             (case st (i64 (k + i)) of Some v \<Rightarrow> found @ [v] | None \<Rightarrow> found)
      else Some found)"

declare scan_loop.simps [code]

definition Execute :: "command \<Rightarrow> kv_state \<Rightarrow> (val \<times> kv_state) option" where
  "Execute c st =
     (if Op c = PUT then Some (NIL, st\<lparr>Store := (Store st)(K c \<mapsto> V c)\<rparr>)
      else if Op c = GET then Some (case Store st (K c) of Some v \<Rightarrow> v | None \<Rightarrow> NIL, st)
      else if Op c = SCAN then
        do {
          count \<leftarrow> scan_count c;
          found \<leftarrow> scan_loop (Store st) (K c) count 0 [];
          Some (concat_values found, st)
        }
      else Some (NIL, st))"

definition ComputeResult :: "command \<Rightarrow> kv_state \<Rightarrow> val option" where
  "ComputeResult c st =
     (if Op c = GET then Some (case Store st (K c) of Some v \<Rightarrow> v | None \<Rightarrow> NIL)
      else if Op c = SCAN then
        do {
          count \<leftarrow> scan_count c;
          found \<leftarrow> scan_loop (Store st) (K c) count 0 [];
          Some (concat_values found)
        }
      else if Op c = PUT then Some NIL
      else Some NIL)"

subsection \<open>Conflicts\<close>

definition Conflict :: "command \<Rightarrow> command \<Rightarrow> bool option" where
  "Conflict gamma delta =
     (if Op gamma = SCAN \<and> Op delta = SCAN then Some False
      else do {
        (key, lb, ub) \<leftarrow>
          (if Op gamma = SCAN then
             do { n \<leftarrow> scan_count gamma; Some (K delta, K gamma, i64 (K gamma + n)) }
           else if Op delta = SCAN then
             do { n \<leftarrow> scan_count delta; Some (K gamma, K delta, i64 (K delta + n)) }
           else Some (K gamma, K delta, K delta));
        Some (lb \<le> key \<and> key \<le> ub \<and> (Op gamma = PUT \<or> Op delta = PUT))
      })"

text \<open>The two nested loops stop at the first conflicting pair, and a panic in a pair before it
  is a panic of the whole call.\<close>

fun conflict_row :: "command \<Rightarrow> command list \<Rightarrow> bool option" where
  "conflict_row a [] = Some False"
| "conflict_row a (b # bs) =
     do { c \<leftarrow> Conflict a b; if c then Some True else conflict_row a bs }"

fun ConflictBatch :: "command list \<Rightarrow> command list \<Rightarrow> bool option" where
  "ConflictBatch [] batch2 = Some False"
| "ConflictBatch (a # as) batch2 =
     do { c \<leftarrow> conflict_row a batch2; if c then Some True else ConflictBatch as batch2 }"

definition IsRead :: "command \<Rightarrow> bool" where
  "IsRead c \<longleftrightarrow> Op c = GET"

subsection \<open>Wire format\<close>

definition Operation_Marshal :: "operation \<Rightarrow> byte list" where
  "Operation_Marshal t = [t]"

definition Operation_Unmarshal :: "operation \<Rightarrow> byte list \<Rightarrow> operation outcome" where
  "Operation_Unmarshal t s = with_bytes 1 t s (\<lambda>b r. Ok (b ! 0) r)"

definition Key_Marshal :: "key \<Rightarrow> byte list" where
  "Key_Marshal t = put64 t"

definition Key_Unmarshal :: "key \<Rightarrow> byte list \<Rightarrow> key outcome" where
  "Key_Unmarshal t s = with_bytes 8 t s (\<lambda>b r. Ok (get64 b) r)"

text \<open>The length of a value is written as a \<open>uint16\<close> into the first two of four bytes.\<close>

definition Value_Marshal :: "val \<Rightarrow> byte list" where
  "Value_Marshal t = le_bytes 2 (int (length t)) @ [0, 0] @ t"

definition Value_Unmarshal :: "val \<Rightarrow> byte list \<Rightarrow> val outcome" where
  "Value_Unmarshal t s =
     with_bytes 4 t s (\<lambda>b r. with_bytes (nat (le_val (take 2 b))) t r (\<lambda>bs r'. Ok bs r'))"

definition Command_Marshal :: "command \<Rightarrow> byte list" where
  "Command_Marshal t =
     Operation_Marshal (Op t) @ Key_Marshal (K t) @ Value_Marshal (V t) @
     Operation_Marshal (CL t) @ put32 (Sid t)"

definition Command_Unmarshal :: "command \<Rightarrow> byte list \<Rightarrow> command outcome" where
  "Command_Unmarshal t s =
     and_then (\<lambda>x. t\<lparr>Op := x\<rparr>) (Operation_Unmarshal (Op t) s) (\<lambda>t r.
     and_then (\<lambda>x. t\<lparr>K := x\<rparr>) (Key_Unmarshal (K t) r) (\<lambda>t r.
     and_then (\<lambda>x. t\<lparr>V := x\<rparr>) (Value_Unmarshal (V t) r) (\<lambda>t r.
     and_then (\<lambda>x. t\<lparr>CL := x\<rparr>) (Operation_Unmarshal (CL t) r) (\<lambda>t r.
     with_bytes 4 t r (\<lambda>b r. Ok (t\<lparr>Sid := get32 b\<rparr>) r)))))"

definition wf_value :: "val \<Rightarrow> bool" where
  "wf_value v \<longleftrightarrow> length v < 65536"

definition wf_command :: "command \<Rightarrow> bool" where
  "wf_command c \<longleftrightarrow> is_i64 (K c) \<and> wf_value (V c) \<and> is_i32 (Sid c)"

definition zero_command :: command where
  "zero_command = \<lparr>Op = 0, K = 0, V = [], CL = 0, Sid = 0\<rparr>"

subsection \<open>The codecs\<close>

interpretation op_codec: strict_codec Operation_Marshal Operation_Unmarshal "\<lambda>_. True"
  by unfold_locales
    (auto simp: Operation_Marshal_def Operation_Unmarshal_def with_bytes_def io_ReadFull_def
      strict_prefix_def prefix_Cons)

interpretation key_codec: strict_codec Key_Marshal Key_Unmarshal is_i64
  by unfold_locales
    (simp_all add: Key_Marshal_def Key_Unmarshal_def with_bytes_truncated_end)

lemma Value_header:
  "le_val (take 2 (le_bytes 2 (int (length v)) @ [0, 0])) = take_bit 16 (int (length v))"
  using le_val_le_bytes [of 2 "int (length v)"] by simp

lemma wf_value_header: "wf_value v \<Longrightarrow> nat (take_bit 16 (int (length v))) = length v"
  by (simp add: wf_value_def take_bit_int_eq_self)

interpretation value_codec: strict_codec Value_Marshal Value_Unmarshal wf_value
proof
  let ?h = "\<lambda>x :: val. le_bytes 2 (int (length x)) @ [0, 0]"
  have h: "Value_Marshal x = ?h x @ x" for x by (simp add: Value_Marshal_def)
  fix x t :: val and p s :: "byte list"
  assume wf: "wf_value x"
  have "Value_Unmarshal t (?h x @ (x @ s)) =
      with_bytes (nat (le_val (take 2 (?h x)))) t (x @ s) (\<lambda>bs r'. Ok bs r')"
    unfolding Value_Unmarshal_def by (rule with_bytes_append) simp
  then show "Value_Unmarshal t (Value_Marshal x @ s) = Ok x s"
    unfolding h append_assoc by (simp only: Value_header wf_value_header [OF wf]) simp
  assume p: "strict_prefix p (Value_Marshal x)"
  show "is_fail (Value_Unmarshal t p)"
    using p [unfolded h] unfolding Value_Unmarshal_def
    by (rule with_bytes_truncated)
      (simp, simp only: Value_header wf_value_header [OF wf], simp add: with_bytes_truncated_end)
qed

interpretation command_codec: strict_codec Command_Marshal Command_Unmarshal wf_command
proof
  fix x t :: command and p s :: "byte list"
  assume wf: "wf_command x"
  then show "Command_Unmarshal t (Command_Marshal x @ s) = Ok x s"
    by (simp add: Command_Marshal_def Command_Unmarshal_def wf_command_def op_codec.roundtrip
        key_codec.roundtrip value_codec.roundtrip)
  assume p: "strict_prefix p (Command_Marshal x)"
  show "is_fail (Command_Unmarshal t p)"
    using p wf unfolding Command_Marshal_def Command_Unmarshal_def wf_command_def
    by (intro op_codec.and_then_truncated key_codec.and_then_truncated
        value_codec.and_then_truncated with_bytes_truncated_end) auto
qed

subsection \<open>Scans\<close>

lemma copy_slices_concat:
  "i \<le> length tmp \<Longrightarrow> sum_list (map length ss) = length tmp - i \<Longrightarrow>
     copy_slices tmp i ss = take i tmp @ concat ss"
proof (induction ss arbitrary: tmp i)
  case Nil
  then show ?case by simp
next
  case (Cons s ss)
  then have n: "min (length tmp - i) (length s) = length s" by simp
  show ?case
    using Cons.prems unfolding copy_slices.simps Let_def n by (subst Cons.IH) auto
qed

lemma concat_values_concat: "concat_values ss = concat ss"
  by (simp add: concat_values_def copy_slices_concat)

text \<open>The values a scan collects from the \<open>i\<close>-th key of its range on.\<close>

definition scan_vals :: "(key \<rightharpoonup> val) \<Rightarrow> key \<Rightarrow> int \<Rightarrow> int \<Rightarrow> val list" where
  "scan_vals st k i count =
     concat (map (\<lambda>j. case st (i64 (k + j)) of Some v \<Rightarrow> [v] | None \<Rightarrow> []) [i..count])"

lemma scan_loop_returns:
  assumes "is_i64 i" and "is_i64 count" and "count < 9223372036854775807"
  shows "scan_loop st k count i found = Some (found @ scan_vals st k i count)"
  using assms(1)
proof (induction "nat (count + 1 - i)" arbitrary: i found)
  case 0
  then show ?case by (simp add: scan_loop.simps scan_vals_def)
next
  case (Suc n)
  then have i: "i \<le> count" by simp
  then have i1: "is_i64 (i + 1)" using Suc.prems assms(2,3) by (simp add: is_i64_def)
  have "n = nat (count + 1 - (i + 1))" using Suc.hyps(2) by simp
  note IH = Suc.hyps(1) [OF this i1]
  show ?case
    using i i1
    by (subst scan_loop.simps)
      (auto simp: IH scan_vals_def upto.simps [of i] split: option.splits)
qed

lemma scan_loop_diverges:
  assumes "scan_loop st k count i found = Some r" and "is_i64 i"
  shows "count \<noteq> 9223372036854775807"
proof -
  let ?P = "\<lambda>st k count i found r. is_i64 i \<longrightarrow> count \<noteq> 9223372036854775807"
  have "is_i64 i \<longrightarrow> count \<noteq> 9223372036854775807"
  proof (rule scan_loop.raw_induct [where P = ?P, OF _ assms(1)], intro impI notI)
    fix f :: "(key \<rightharpoonup> val) \<Rightarrow> key \<Rightarrow> int \<Rightarrow> int \<Rightarrow> val list \<Rightarrow> val list option"
      and st k count i found r
    assume IH: "\<And>st k count i found r. f st k count i found = Some r \<Longrightarrow> ?P st k count i found r"
      and eq: "(if i \<le> count then f st k count (i64 (i + 1))
           (case st (i64 (k + i)) of None \<Rightarrow> found | Some v \<Rightarrow> found @ [v])
         else Some found) = Some r"
      and i: "is_i64 i" and count: "count = 9223372036854775807"
    from i count have "i \<le> count" by (simp add: is_i64_def)
    with eq have "f st k count (i64 (i + 1))
        (case st (i64 (k + i)) of None \<Rightarrow> found | Some v \<Rightarrow> found @ [v]) = Some r"
      by simp
    from IH [OF this] count show False by simp
  qed
  with assms(2) show ?thesis by blast
qed

lemma is_i64_0 [simp]: "is_i64 0"
  by (simp add: is_i64_def)

lemma is_i64_scan_count: "scan_count c = Some n \<Longrightarrow> is_i64 n"
  by (auto simp: scan_count_def)

lemma scan_count_None_iff: "scan_count c = None \<longleftrightarrow> length (V c) < 8"
  by (simp add: scan_count_def LittleEndian_Uint64_def)

lemma scan_from_0:
  assumes "scan_count c = Some n"
  shows "scan_loop st k n 0 [] =
    (if n = 9223372036854775807 then None else Some (scan_vals st k 0 n))"
proof (cases "n = 9223372036854775807")
  case True
  then show ?thesis
    using scan_loop_diverges [of st k n 0 "[]"] by (cases "scan_loop st k n 0 []") simp_all
next
  case False
  have "is_i64 n" by (rule is_i64_scan_count [OF assms])
  moreover from this False have "n < 9223372036854775807" by (simp add: is_i64_def)
  ultimately show ?thesis using False by (simp add: scan_loop_returns)
qed

text \<open>Executing a list of commands: the values and the state at the end.\<close>

fun exec_cmds :: "command list \<Rightarrow> kv_state \<Rightarrow> (val list \<times> kv_state) option" where
  "exec_cmds [] st = Some ([], st)"
| "exec_cmds (c # cs) st = do {
     (v, st) \<leftarrow> Execute c st;
     (vs, st) \<leftarrow> exec_cmds cs st;
     Some (v # vs, st)
   }"

lemma exec_cmds_append:
  "exec_cmds (cs @ ds) st =
     do { (vs, st) \<leftarrow> exec_cmds cs st; (ws, st) \<leftarrow> exec_cmds ds st; Some (vs @ ws, st) }"
  by (induction cs arbitrary: st) (auto simp: split_def intro!: Option.bind_cong)

lemma exec_cmds_snoc:
  "exec_cmds cs st = Some (vs, st') \<Longrightarrow> Execute c st' = Some (v, st'') \<Longrightarrow>
     exec_cmds (cs @ [c]) st = Some (vs @ [v], st'')"
  by (simp add: exec_cmds_append)

subsection \<open>Execution, speculation and conflicts\<close>

text \<open>A scan whose key range does not run over the largest key and whose count is given.\<close>

definition scan_in_range :: "command \<Rightarrow> bool" where
  "scan_in_range c \<longleftrightarrow>
     (Op c = SCAN \<longrightarrow>
        (case scan_count c of
           None \<Rightarrow> False
         | Some n \<Rightarrow> n < 9223372036854775807 \<and> K c + n < 9223372036854775808))"

lemma Execute_read_only: "Op c \<noteq> PUT \<Longrightarrow> Execute c st = Some (v, st') \<Longrightarrow> st' = st"
  by (auto simp: Execute_def Option.bind_eq_Some_conv split: if_splits)

lemma Execute_SCAN:
  "Op c = SCAN \<Longrightarrow> scan_count c = Some n \<Longrightarrow>
     Execute c st = (if n = 9223372036854775807 then None
       else Some (concat (scan_vals (Store st) (K c) 0 n), st))"
  by (simp add: Execute_def scan_from_0 concat_values_concat)

lemma scan_vals_update:
  assumes "is_i64 k" and "k + n < 9223372036854775808" and "x < k \<or> k + n < x"
  shows "scan_vals (st(x \<mapsto> v)) k 0 n = scan_vals st k 0 n"
proof -
  have "i64 (k + j) \<noteq> x" if "j \<in> set [0..n]" for j
  proof -
    have "is_i64 (k + j)" using that assms(1,2) by (auto simp: is_i64_def)
    then show ?thesis using that assms(3) by auto
  qed
  then have "map (\<lambda>j. case (st(x \<mapsto> v)) (i64 (k + j)) of Some v \<Rightarrow> [v] | None \<Rightarrow> []) [0..n] =
      map (\<lambda>j. case st (i64 (k + j)) of Some v \<Rightarrow> [v] | None \<Rightarrow> []) [0..n]"
    by (intro map_cong) auto
  then show ?thesis by (simp only: scan_vals_def)
qed

lemma Conflict_commute: "Conflict a b = Conflict b a"
  by (auto simp: Conflict_def)

lemma Conflict_put_scan:
  assumes "Conflict a b = Some False" and "Op a = PUT" and "Op b = SCAN"
    and "scan_count b = Some n" and "is_i64 (K b)" and "K b + n < 9223372036854775808"
  shows "K a < K b \<or> K b + n < K a"
proof -
  have "is_i64 (K b + n)" if "0 \<le> n" using that assms(5,6) by (simp add: is_i64_def)
  with assms show ?thesis
    by (cases "0 \<le> n") (auto simp: Conflict_def)
qed

lemma Execute_after_put:
  assumes "Conflict a b = Some False" and "Op a = PUT" and "Op b \<noteq> PUT"
    and "is_i64 (K b)" and "scan_in_range b" and "Execute b st = Some (v, st)"
  shows "Execute b (st\<lparr>Store := (Store st)(K a \<mapsto> V a)\<rparr>) = Some (v, st\<lparr>Store := (Store st)(K a \<mapsto> V a)\<rparr>)"
proof (cases "Op b = SCAN")
  case True
  with assms(5) obtain n where n: "scan_count b = Some n" "n < 9223372036854775807"
      "K b + n < 9223372036854775808"
    by (auto simp: scan_in_range_def split: option.splits)
  have "K a < K b \<or> K b + n < K a"
    using assms(1,2) True n(1) assms(4) n(3) by (rule Conflict_put_scan)
  with assms(4,6) n True show ?thesis by (simp add: Execute_SCAN scan_vals_update)
next
  case False
  have "Op b = GET \<Longrightarrow> K a \<noteq> K b" using assms(1,2) by (auto simp: Conflict_def)
  with False assms(3,6) show ?thesis by (auto simp: Execute_def)
qed

lemma Execute_returns:
  "scan_in_range c \<Longrightarrow> \<exists>v st'. Execute c st = Some (v, st')"
  by (cases "Op c = SCAN")
    (auto simp: scan_in_range_def Execute_SCAN split: option.splits, simp add: Execute_def)

text \<open>Executing two commands one after the other, with both results.\<close>

definition Execute2 :: "command \<Rightarrow> command \<Rightarrow> kv_state \<Rightarrow> (val \<times> val \<times> kv_state) option" where
  "Execute2 a b st =
     do { (va, st1) \<leftarrow> Execute a st; (vb, st2) \<leftarrow> Execute b st1; Some (va, vb, st2) }"

lemma Execute2_put_read:
  assumes "Conflict a b = Some False" and "Op a = PUT" and "Op b \<noteq> PUT"
    and "is_i64 (K b)" and "scan_in_range b"
  shows "\<exists>va vb st'. Execute2 a b st = Some (va, vb, st') \<and> Execute2 b a st = Some (vb, va, st')"
proof -
  from Execute_returns [OF assms(5)] obtain v st' where v: "Execute b st = Some (v, st')" by blast
  then have v': "Execute b st = Some (v, st)"
    using Execute_read_only [OF assms(3) v] by simp
  show ?thesis
    using assms(2) v' Execute_after_put [OF assms v']
    by (simp add: Execute2_def Execute_def [of a])
qed

text \<open>C33. Commands that do not conflict commute: if \<open>Conflict\<close> answers false for two commands
  (scans staying below the largest key), executing them in either order returns the same
  result to each client and leaves the same store. This is what lets the leaderless protocols
  leave non-conflicting commands unordered.\<close>

theorem nonconflicting_commands_commute:
  assumes "Conflict a b = Some False"
    and "is_i64 (K a)" and "is_i64 (K b)" and "scan_in_range a" and "scan_in_range b"
  shows "\<exists>va vb st'. Execute2 a b st = Some (va, vb, st') \<and> Execute2 b a st = Some (vb, va, st')"
proof -
  consider "Op a = PUT" "Op b = PUT" | "Op a = PUT" "Op b \<noteq> PUT" | "Op a \<noteq> PUT" "Op b = PUT"
    | "Op a \<noteq> PUT" "Op b \<noteq> PUT" by blast
  then show ?thesis
  proof cases
    case 1
    with assms(1) have "K a \<noteq> K b" by (auto simp: Conflict_def)
    with 1 show ?thesis by (simp add: Execute2_def Execute_def fun_upd_twist)
  next
    case 2
    with assms show ?thesis by (intro Execute2_put_read) auto
  next
    case 3
    have "Conflict b a = Some False" using assms(1) by (simp add: Conflict_commute)
    with 3 assms show ?thesis
      using Execute2_put_read [of b a st] by auto
  next
    case 4
    from Execute_returns [OF assms(4), of st] Execute_read_only [OF 4(1)]
    obtain va where va: "Execute a st = Some (va, st)" by metis
    from Execute_returns [OF assms(5), of st] Execute_read_only [OF 4(2)]
    obtain vb where "Execute b st = Some (vb, st)" by metis
    with va show ?thesis by (simp add: Execute2_def)
  qed
qed

theorem nonconflicting_commands_commute_witness:
  "\<exists>va vb st'.
     Execute2 \<lparr>Op = PUT, K = 7, V = [1], CL = 0, Sid = 0\<rparr>
              \<lparr>Op = SCAN, K = 1, V = [2, 0, 0, 0, 0, 0, 0, 0], CL = 0, Sid = 0\<rparr> InitState
       = Some (va, vb, st') \<and>
     Execute2 \<lparr>Op = SCAN, K = 1, V = [2, 0, 0, 0, 0, 0, 0, 0], CL = 0, Sid = 0\<rparr>
              \<lparr>Op = PUT, K = 7, V = [1], CL = 0, Sid = 0\<rparr> InitState
       = Some (vb, va, st')"
proof (rule nonconflicting_commands_commute)
  have n: "scan_count \<lparr>Op = SCAN, K = 1, V = [2, 0, 0, 0, 0, 0, 0, 0], CL = 0, Sid = 0\<rparr> = Some 2"
    by (simp add: scan_count_def LittleEndian_Uint64_def is_i64_def)
  show "Conflict \<lparr>Op = PUT, K = 7, V = [1], CL = 0, Sid = 0\<rparr>
      \<lparr>Op = SCAN, K = 1, V = [2, 0, 0, 0, 0, 0, 0, 0], CL = 0, Sid = 0\<rparr> = Some False"
    by (simp add: Conflict_def n is_i64_def)
  show "scan_in_range \<lparr>Op = SCAN, K = 1, V = [2, 0, 0, 0, 0, 0, 0, 0], CL = 0, Sid = 0\<rparr>"
    by (simp add: scan_in_range_def n)
qed (simp_all add: scan_in_range_def is_i64_def)

text \<open>Speculation is faithful: \<open>ComputeResult\<close> returns the value \<open>Execute\<close> would return on
  the same store, for every command, and fails to return on exactly the same commands.\<close>

theorem ComputeResult_predicts_Execute: "ComputeResult c st = map_option fst (Execute c st)"
  by (cases "scan_count c"; cases "scan_loop (Store st) (K c) (the (scan_count c)) 0 []")
    (auto simp: ComputeResult_def Execute_def)

text \<open>C35. Execution fails to return for exactly two kinds of commands: a scan with a payload of
  fewer than eight bytes (which panics) and a scan of \<open>2 ^ 63 - 1\<close> keys (whose loop never
  ends because its counter wraps around).\<close>

theorem Execute_diverges_iff:
  "Execute c st = None \<longleftrightarrow>
     Op c = SCAN \<and> (length (V c) < 8 \<or> scan_count c = Some 9223372036854775807)"
proof (cases "Op c = SCAN")
  case True
  then show ?thesis
    using scan_count_None_iff [of c]
    by (cases "scan_count c") (auto simp: Execute_SCAN Execute_def [of c] scan_from_0)
next
  case False
  then show ?thesis by (simp add: Execute_def)
qed

text \<open>C36. The wire format of a command is lossless: decoding an encoded command gives it back
  with the rest of the stream untouched, whatever the target struct held before, and a stream
  cut off inside a command is reported as an error.\<close>

theorem command_wire_roundtrip:
  assumes "wf_command c"
  shows "Command_Unmarshal t (Command_Marshal c @ s) = Ok c s \<and>
    (strict_prefix p (Command_Marshal c) \<longrightarrow> is_fail (Command_Unmarshal t p))"
  using assms command_codec.roundtrip command_codec.truncated by blast

theorem command_wire_roundtrip_witness:
  "Command_Unmarshal zero_command
     (Command_Marshal \<lparr>Op = PUT, K = -3, V = [1, 2], CL = STRONG, Sid = 9\<rparr> @ [255]) =
     Ok \<lparr>Op = PUT, K = -3, V = [1, 2], CL = STRONG, Sid = 9\<rparr> [255] \<and>
   is_fail (Command_Unmarshal zero_command [1])"
proof -
  have wf: "wf_command \<lparr>Op = PUT, K = -3, V = [1, 2], CL = STRONG, Sid = 9\<rparr>"
    by (simp add: wf_command_def wf_value_def is_i64_def is_i32_def)
  have p: "strict_prefix [1] (Command_Marshal \<lparr>Op = PUT, K = -3, V = [1, 2], CL = STRONG, Sid = 9\<rparr>)"
    by (simp add: Command_Marshal_def Operation_Marshal_def Key_Marshal_def strict_prefix_def
        prefix_def put64_def numeral_eq_Suc)
  show ?thesis
    using command_wire_roundtrip [OF wf, of zero_command "[255]" "[1]"] p by simp
qed

end
