(* ===== verification/Hook.thy ===== *)
theory Hook
  imports Prelude
begin

section \<open>Deferred calls: CondF and OptCondF\<close>

text \<open>
  The package \<open>hook\<close> (\<open>src/hook/cond.go\<close>): functions that run at once when a condition
  holds and are otherwise kept until it does. \<open>CondF\<close> keeps them as one composed closure,
  \<open>OptCondF\<close> in a slice it reuses between runs; the replicas use the second for the
  work that waits for a command's payload.

  A Go closure acts on the replica's state, so a deferred function is a state transformer
  \<open>'s \<Rightarrow> 's\<close> and the condition a predicate \<open>'s \<Rightarrow> bool\<close>; each operation takes the replica's
  state and returns it changed, with the hook and the boolean the Go method returns. The
  locale \<open>deferred_calls\<close> states what both promise in terms of the list of pending
  functions, and both are shown to provide it.
\<close>

subsection \<open>CondF\<close>

record 's CondF =
  c_cond :: "'s \<Rightarrow> bool"
  c_fun :: "'s \<Rightarrow> 's"
  c_wanna :: bool

definition NewCondF :: "('s \<Rightarrow> bool) \<Rightarrow> 's CondF" where
  "NewCondF cond = \<lparr>c_cond = cond, c_fun = id, c_wanna = False\<rparr>"

definition CondF_ReinitCondF :: "'s CondF option \<Rightarrow> ('s \<Rightarrow> bool) \<Rightarrow> 's CondF" where
  "CondF_ReinitCondF cf cond =
     (case cf of
        None \<Rightarrow> NewCondF cond
      | Some cf \<Rightarrow> cf\<lparr>c_cond := cond, c_fun := id, c_wanna := False\<rparr>)"

definition CondF_Call :: "'s CondF \<Rightarrow> ('s \<Rightarrow> 's) \<Rightarrow> 's \<Rightarrow> bool \<times> 's CondF \<times> 's" where
  "CondF_Call cf f s =
     (if c_cond cf s then
        let s1 = (if c_wanna cf then c_fun cf s else s);
            s2 = f s1
        in (True, cf\<lparr>c_wanna := False, c_fun := id\<rparr>, s2)
      else (False, cf\<lparr>c_fun := f \<circ> c_fun cf, c_wanna := True\<rparr>, s))"

definition CondF_Recall :: "'s CondF \<Rightarrow> 's \<Rightarrow> bool \<times> 's CondF \<times> 's" where
  "CondF_Recall cf s =
     (if c_wanna cf \<and> c_cond cf s
      then (True, cf\<lparr>c_wanna := False, c_fun := id\<rparr>, c_fun cf s)
      else (False, cf, s))"

definition CondF_AndCond :: "'s CondF \<Rightarrow> ('s \<Rightarrow> bool) \<Rightarrow> 's CondF" where
  "CondF_AndCond cf cond = cf\<lparr>c_cond := (\<lambda>s. c_cond cf s \<and> cond s)\<rparr>"

definition CondF_OrCond :: "'s CondF \<Rightarrow> ('s \<Rightarrow> bool) \<Rightarrow> 's CondF" where
  "CondF_OrCond cf cond = cf\<lparr>c_cond := (\<lambda>s. c_cond cf s \<or> cond s)\<rparr>"

subsection \<open>OptCondF\<close>

text \<open>The slice \<open>o_funs\<close> only grows; its first \<open>o_funs_num\<close> entries are the pending
  functions, the rest are left over from earlier runs.\<close>

record 's OptCondF =
  o_cond :: "'s \<Rightarrow> bool"
  o_funs :: "('s \<Rightarrow> 's) list"
  o_funs_num :: nat

definition NewOptCondF :: "('s \<Rightarrow> bool) \<Rightarrow> 's OptCondF" where
  "NewOptCondF cond = \<lparr>o_cond = cond, o_funs = [], o_funs_num = 0\<rparr>"

definition OptCondF_ReinitCondF :: "'s OptCondF option \<Rightarrow> ('s \<Rightarrow> bool) \<Rightarrow> 's OptCondF" where
  "OptCondF_ReinitCondF cf cond =
     (case cf of
        None \<Rightarrow> NewOptCondF cond
      | Some cf \<Rightarrow> cf\<lparr>o_cond := cond, o_funs_num := 0\<rparr>)"

text \<open>The loop \<open>for i := 0; i < cf.funs_num; i++ { cf.funs[i]() }\<close>.\<close>

definition run_funs :: "'s OptCondF \<Rightarrow> 's \<Rightarrow> 's" where
  "run_funs cf s = fold (\<lambda>i. (o_funs cf ! i)) [0..<o_funs_num cf] s"

definition OptCondF_Call :: "'s OptCondF \<Rightarrow> ('s \<Rightarrow> 's) \<Rightarrow> 's \<Rightarrow> bool \<times> 's OptCondF \<times> 's" where
  "OptCondF_Call cf f s =
     (if o_cond cf s then (True, cf\<lparr>o_funs_num := 0\<rparr>, f (run_funs cf s))
      else
        let funs = (if o_funs_num cf \<ge> length (o_funs cf) then o_funs cf @ [f]
                    else (o_funs cf)[o_funs_num cf := f])
        in (False, cf\<lparr>o_funs := funs, o_funs_num := o_funs_num cf + 1\<rparr>, s))"

definition OptCondF_Recall :: "'s OptCondF \<Rightarrow> 's \<Rightarrow> bool \<times> 's OptCondF \<times> 's" where
  "OptCondF_Recall cf s =
     (if 0 < o_funs_num cf \<and> o_cond cf s
      then (True, cf\<lparr>o_funs_num := 0\<rparr>, run_funs cf s)
      else (False, cf, s))"

subsection \<open>Runs\<close>

text \<open>A run of a hook: calls, recalls, and changes of the replica's state by other code in
  between. The observable result is the booleans returned and the final state. \<open>run_pending\<close>
  is the specification, over the list of pending functions.\<close>

datatype 's hook_event = Do_Call "'s \<Rightarrow> 's" | Do_Recall | Env "'s \<Rightarrow> 's"

fun run_hook ::
    "('h \<Rightarrow> ('s \<Rightarrow> 's) \<Rightarrow> 's \<Rightarrow> bool \<times> 'h \<times> 's) \<Rightarrow> ('h \<Rightarrow> 's \<Rightarrow> bool \<times> 'h \<times> 's) \<Rightarrow>
     'h \<Rightarrow> 's \<Rightarrow> 's hook_event list \<Rightarrow> bool list \<times> 's" where
  "run_hook call recall h s [] = ([], s)"
| "run_hook call recall h s (Env g # es) = run_hook call recall h (g s) es"
| "run_hook call recall h s (Do_Call f # es) =
     (case call h f s of (b, h', s') \<Rightarrow> apfst (Cons b) (run_hook call recall h' s' es))"
| "run_hook call recall h s (Do_Recall # es) =
     (case recall h s of (b, h', s') \<Rightarrow> apfst (Cons b) (run_hook call recall h' s' es))"

fun run_pending ::
    "('s \<Rightarrow> bool) \<Rightarrow> ('s \<Rightarrow> 's) list \<Rightarrow> 's \<Rightarrow> 's hook_event list \<Rightarrow> bool list \<times> 's" where
  "run_pending c fs s [] = ([], s)"
| "run_pending c fs s (Env g # es) = run_pending c fs (g s) es"
| "run_pending c fs s (Do_Call f # es) =
     (if c s then apfst (Cons True) (run_pending c [] (fold id (fs @ [f]) s) es)
      else apfst (Cons False) (run_pending c (fs @ [f]) s es))"
| "run_pending c fs s (Do_Recall # es) =
     (if c s then apfst (Cons (fs \<noteq> [])) (run_pending c [] (fold id fs s) es)
      else apfst (Cons False) (run_pending c fs s es))"

subsection \<open>What both promise\<close>

text \<open>
  The contract: \<open>pending h fs\<close> says that the hook \<open>h\<close> holds the functions \<open>fs\<close>, oldest
  first. A call or a recall under a true condition runs them in that order, each once, the
  called function last, and forgets them; under a false condition it only remembers.
\<close>

locale deferred_calls =
  fixes new :: "('s \<Rightarrow> bool) \<Rightarrow> 'h"
    and condition :: "'h \<Rightarrow> 's \<Rightarrow> bool"
    and call :: "'h \<Rightarrow> ('s \<Rightarrow> 's) \<Rightarrow> 's \<Rightarrow> bool \<times> 'h \<times> 's"
    and recall :: "'h \<Rightarrow> 's \<Rightarrow> bool \<times> 'h \<times> 's"
    and pending :: "'h \<Rightarrow> ('s \<Rightarrow> 's) list \<Rightarrow> bool"
  assumes new_pending: "pending (new c) []"
    and new_condition: "condition (new c) = c"
    and call_runs: "pending h fs \<Longrightarrow> condition h s \<Longrightarrow> call h f s = (b, h', s') \<Longrightarrow>
          b \<and> pending h' [] \<and> condition h' = condition h \<and> s' = fold id (fs @ [f]) s"
    and call_waits: "pending h fs \<Longrightarrow> \<not> condition h s \<Longrightarrow> call h f s = (b, h', s') \<Longrightarrow>
          \<not> b \<and> pending h' (fs @ [f]) \<and> condition h' = condition h \<and> s' = s"
    and recall_runs: "pending h fs \<Longrightarrow> condition h s \<Longrightarrow> recall h s = (b, h', s') \<Longrightarrow>
          b = (fs \<noteq> []) \<and> pending h' [] \<and> condition h' = condition h \<and> s' = fold id fs s"
    and recall_waits: "pending h fs \<Longrightarrow> \<not> condition h s \<Longrightarrow> recall h s = (b, h', s') \<Longrightarrow>
          \<not> b \<and> pending h' fs \<and> condition h' = condition h \<and> s' = s"
begin

lemma run_hook_pending:
  "pending h fs \<Longrightarrow> run_hook call recall h s es = run_pending (condition h) fs s es"
proof (induction es arbitrary: h fs s)
  case Nil
  then show ?case by simp
next
  case (Cons e es)
  show ?case
  proof (cases e)
    case (Do_Call f)
    obtain b h' s' where r: "call h f s = (b, h', s')" by (metis prod_cases3)
    from call_runs [OF Cons.prems _ r] call_waits [OF Cons.prems _ r] Do_Call r show ?thesis
      by (cases "condition h s") (use Cons.IH in force)+
  next
    case Do_Recall
    obtain b h' s' where r: "recall h s = (b, h', s')" by (metis prod_cases3)
    from recall_runs [OF Cons.prems _ r] recall_waits [OF Cons.prems _ r] Do_Recall r show ?thesis
      by (cases "condition h s") (use Cons.IH in force)+
  next
    case (Env g)
    with Cons show ?thesis by simp
  qed
qed

lemma run_new: "run_hook call recall (new c) s es = run_pending c [] s es"
  using run_hook_pending [OF new_pending, of c s es] by (simp add: new_condition)

end

definition condf_pending :: "'s CondF \<Rightarrow> ('s \<Rightarrow> 's) list \<Rightarrow> bool" where
  "condf_pending cf fs \<longleftrightarrow> c_fun cf = fold id fs \<and> c_wanna cf = (fs \<noteq> [])"

definition optcondf_pending :: "'s OptCondF \<Rightarrow> ('s \<Rightarrow> 's) list \<Rightarrow> bool" where
  "optcondf_pending cf fs \<longleftrightarrow>
     o_funs_num cf \<le> length (o_funs cf) \<and> take (o_funs_num cf) (o_funs cf) = fs"

lemma run_funs_fold:
  "optcondf_pending cf fs \<Longrightarrow> run_funs cf s = fold id fs s"
proof -
  assume p: "optcondf_pending cf fs"
  then have "map ((!) (o_funs cf)) [0..<o_funs_num cf] = fs"
    unfolding optcondf_pending_def by (auto intro: nth_equalityI)
  moreover have "fold id (map ((!) (o_funs cf)) [0..<o_funs_num cf]) s = run_funs cf s"
    by (simp add: run_funs_def fold_map comp_def)
  ultimately show ?thesis by simp
qed

interpretation condf: deferred_calls NewCondF c_cond CondF_Call CondF_Recall condf_pending
  by unfold_locales
    (auto simp: condf_pending_def NewCondF_def CondF_Call_def CondF_Recall_def fun_eq_iff Let_def
      split: if_splits)

interpretation optcondf:
  deferred_calls NewOptCondF o_cond OptCondF_Call OptCondF_Recall optcondf_pending
proof unfold_locales
  fix h h' :: "'a OptCondF" and fs b s s' f
  assume p: "optcondf_pending h fs"
  note run = run_funs_fold [OF p]
  {
    assume "o_cond h s" "OptCondF_Call h f s = (b, h', s')"
    with run show "b \<and> optcondf_pending h' [] \<and> o_cond h' = o_cond h \<and> s' = fold id (fs @ [f]) s"
      by (auto simp: OptCondF_Call_def optcondf_pending_def)
  next
    assume "\<not> o_cond h s" "OptCondF_Call h f s = (b, h', s')"
    with p show "\<not> b \<and> optcondf_pending h' (fs @ [f]) \<and> o_cond h' = o_cond h \<and> s' = s"
      by (auto simp: OptCondF_Call_def optcondf_pending_def Let_def take_Suc_conv_app_nth nth_append)
  next
    assume "o_cond h s" "OptCondF_Recall h s = (b, h', s')"
    with p run show "b = (fs \<noteq> []) \<and> optcondf_pending h' [] \<and> o_cond h' = o_cond h \<and> s' = fold id fs s"
      by (auto simp: OptCondF_Recall_def optcondf_pending_def split: if_splits)
  next
    assume "\<not> o_cond h s" "OptCondF_Recall h s = (b, h', s')"
    with p show "\<not> b \<and> optcondf_pending h' fs \<and> o_cond h' = o_cond h \<and> s' = s"
      by (auto simp: OptCondF_Recall_def split: if_splits)
  }
qed (simp_all add: NewOptCondF_def optcondf_pending_def)

lemma reinit_pending: "optcondf_pending (OptCondF_ReinitCondF cf c) []"
  by (simp add: OptCondF_ReinitCondF_def NewOptCondF_def optcondf_pending_def split: option.split)

lemma reinit_condition: "o_cond (OptCondF_ReinitCondF cf c) = c"
  by (simp add: OptCondF_ReinitCondF_def NewOptCondF_def split: option.split)

text \<open>The optimised hook is equivalent to the plain one: on every sequence of calls, recalls
  and state changes \<open>OptCondF\<close>, whether fresh or reused with \<open>ReinitCondF\<close> after any earlier
  use, returns what \<open>CondF\<close> returns and leaves the replica's state as \<open>CondF\<close> leaves it, and
  both run every deferred function once, in call order, when the condition first holds.\<close>

theorem OptCondF_equivalent_CondF:
  "run_hook OptCondF_Call OptCondF_Recall (OptCondF_ReinitCondF old c) s es =
     run_hook CondF_Call CondF_Recall (NewCondF c) s es \<and>
   run_hook CondF_Call CondF_Recall (NewCondF c) s es = run_pending c [] s es"
  using optcondf.run_hook_pending [OF reinit_pending, of old c s es]
  by (simp add: condf.run_new reinit_condition)

end
