(* ===== verification/Rpc_Table.thy ===== *)
theory Rpc_Table
  imports Prelude
begin

section \<open>The RPC dispatch table\<close>

text \<open>
  The package \<open>rpc\<close> (\<open>src/rpc/rpc.go\<close>): message types are registered one after the other
  and get consecutive one-byte codes. The codes of the fixed messages
  (\<open>src/replica/defs/defs.go\<close>) come first, so a replica's table starts at \<open>RPC_TABLE\<close>.
  A pair of a message prototype and its channel is an abstract value \<open>'p\<close>.
\<close>

record 'p rpc_table =
  table_id :: byte
  pairs :: "byte \<rightharpoonup> 'p"

definition NewTable :: "'p rpc_table" where
  "NewTable = \<lparr>table_id = 0, pairs = Map.empty\<rparr>"

definition NewTableId :: "byte \<Rightarrow> 'p rpc_table" where
  "NewTableId i = \<lparr>table_id = i, pairs = Map.empty\<rparr>"

definition Register :: "'p rpc_table \<Rightarrow> 'p \<Rightarrow> byte \<times> 'p rpc_table" where
  "Register t p =
     (table_id t, t\<lparr>table_id := table_id t + 1, pairs := (pairs t)(table_id t \<mapsto> p)\<rparr>)"

definition Get :: "'p rpc_table \<Rightarrow> byte \<Rightarrow> 'p option" where
  "Get t i = pairs t i"

text \<open>Registering a list of message types, with the codes they get.\<close>

fun register_all :: "'p rpc_table \<Rightarrow> 'p list \<Rightarrow> byte list \<times> 'p rpc_table" where
  "register_all t [] = ([], t)"
| "register_all t (p # ps) =
     (case Register t p of (i, t') \<Rightarrow> apfst (Cons i) (register_all t' ps))"

lemma register_all_codes:
  "fst (register_all t ps) = map (\<lambda>k. table_id t + of_nat k) [0..<length ps]"
proof (induction ps arbitrary: t)
  case Nil
  then show ?case by simp
next
  case (Cons p ps)
  have "map (\<lambda>k. table_id t + 1 + of_nat k) [0..<length ps] =
      map (\<lambda>k. table_id t + of_nat k) [Suc 0..<Suc (length ps)]"
    by (simp only: map_Suc_upt [symmetric] map_map) (simp add: algebra_simps)
  with Cons show ?case
    by (simp add: Register_def upt_conv_Cons del: upt_Suc)
qed

lemma register_all_keeps:
  assumes "\<And>k. k < length ps \<Longrightarrow> table_id t + of_nat k \<noteq> i"
  shows "Get (snd (register_all t ps)) i = Get t i"
  using assms
proof (induction ps arbitrary: t)
  case Nil
  then show ?case by simp
next
  case (Cons p ps)
  have "table_id t + 1 + of_nat k \<noteq> i" if "k < length ps" for k
    using Cons.prems [of "Suc k"] that by (simp add: algebra_simps)
  moreover have "table_id t \<noteq> i" using Cons.prems [of 0] by simp
  ultimately show ?case
    using Cons.IH [of "snd (Register t p)"] by (simp add: Register_def Get_def)
qed

lemma of_nat_byte_inj: "a < 256 \<Longrightarrow> b < 256 \<Longrightarrow> (of_nat a :: byte) = of_nat b \<Longrightarrow> a = b"
  by (drule arg_cong [of _ _ unat]) (simp add: unat_of_nat)

text \<open>Dispatch is unambiguous: registering up to 256 message types gives them pairwise
  different codes, and looking up the code a type was given finds that type and no other.\<close>

theorem register_all_dispatch:
  assumes "length ps \<le> 256" and "k < length ps"
  shows "distinct (fst (register_all t ps)) \<and>
    Get (snd (register_all t ps)) (fst (register_all t ps) ! k) = Some (ps ! k)"
proof
  show "distinct (fst (register_all t ps))"
    unfolding register_all_codes using assms(1)
    by (auto simp: distinct_map inj_on_def dest!: of_nat_byte_inj [rotated 2])
  show "Get (snd (register_all t ps)) (fst (register_all t ps) ! k) = Some (ps ! k)"
    using assms
  proof (induction ps arbitrary: t k)
    case Nil
    then show ?case by simp
  next
    case (Cons p ps)
    show ?case
    proof (cases k)
      case (Suc k')
      with Cons.IH [of k' "snd (Register t p)"] Cons.prems show ?thesis
        by (simp add: Register_def)
    next
      case 0
      have "table_id t + 1 + of_nat j \<noteq> table_id t" if "j < length ps" for j
      proof
        assume "table_id t + 1 + of_nat j = table_id t"
        then have "(of_nat (Suc j) :: byte) = of_nat 0" by (simp add: algebra_simps)
        with of_nat_byte_inj [of "Suc j" 0] that Cons.prems(1) show False by simp
      qed
      then show ?thesis
        using 0 register_all_keeps [of ps "snd (Register t p)" "table_id t"]
        by (simp add: Register_def Get_def)
    qed
  qed
qed

theorem register_all_dispatch_witness:
  "distinct (fst (register_all (NewTableId 9) [''a'', ''b''])) \<and>
   Get (snd (register_all (NewTableId 9) [''a'', ''b'']))
     (fst (register_all (NewTableId 9) [''a'', ''b'']) ! 1) = Some ([''a'', ''b''] ! 1)"
  by (rule register_all_dispatch) simp_all

end
