(* ===== verification/Pool.thy ===== *)
theory Pool
  imports Prelude
begin

section \<open>Pools of message objects\<close>

text \<open>
  Every message type of the protocols has a generated cache of reusable objects: a stack under a
  mutex. \<open>Get\<close> pops the object pushed last or makes a zero one, \<open>Put\<close> pushes. The
  package-specific caches of the other theories are instances.
\<close>

definition cache_Get :: "'m \<Rightarrow> 'm list \<Rightarrow> 'm \<times> 'm list" where
  "cache_Get zero cache = (if 0 < length cache then (last cache, butlast cache) else (zero, cache))"

definition cache_Put :: "'m list \<Rightarrow> 'm \<Rightarrow> 'm list" where
  "cache_Put cache t = cache @ [t]"

datatype 'm cache_op = Do_Get | Do_Put 'm

fun run_cache :: "'m \<Rightarrow> 'm list \<Rightarrow> 'm cache_op list \<Rightarrow> 'm list \<times> 'm list" where
  "run_cache zero cache [] = ([], cache)"
| "run_cache zero cache (Do_Get # ops) =
     (let (t, c) = cache_Get zero cache; (ts, c') = run_cache zero c ops in (t # ts, c'))"
| "run_cache zero cache (Do_Put t # ops) = run_cache zero (cache_Put cache t) ops"

lemma cache_Get_Put: "cache_Get zero (cache_Put cache t) = (t, cache)"
  by (simp add: cache_Get_def cache_Put_def)

text \<open>A cache nobody puts into hands out fresh zero objects only.\<close>

lemma run_cache_fresh: "run_cache zero [] (replicate n Do_Get) = (replicate n zero, [])"
  by (induction n) (simp_all add: cache_Get_def)

end
