(* ===== verification/Quorum.thy ===== *)
theory Quorum
  imports Prelude
begin

section \<open>Quorums, quorum systems and ballots\<close>

text \<open>
  The quorums of the package \<open>replica\<close> (\<open>src/replica/quorum.go\<close>, the quorum sizes and the
  ballot arithmetic of \<open>src/replica/replica.go\<close>).

  \<^item> \<open>quorum_i\<close> is the interface \<open>QuorumI\<close> with its three implementations.
  \<^item> A \<open>Quorum\<close> is a set of replica ids. The maps \<open>QuorumsOfLeader\<close> and \<open>QuorumSet\<close> are
    filled at the keys 0, 1, 2, \dots in this order, so they are lists.
  \<^item> \<open>subsets\<close> is the recursive enumeration of the quorums. Its callback \<open>treat\<close> is a
    transformer of the state the callback closes over.
  \<^item> \<open>AQ\<close> maps a ballot to its active quorum and \<open>BallotOf\<close> goes back.
\<close>

subsection \<open>The interface and its implementations\<close>

datatype quorum_i = Majority int | ThreeQuarters int | Quorum "int set"

definition NewMajorityOf :: "int \<Rightarrow> quorum_i" where
  "NewMajorityOf N = Majority (N sdiv 2 + 1)"

definition NewThreeQuartersOf :: "int \<Rightarrow> quorum_i" where
  "NewThreeQuartersOf N = ThreeQuarters ((3 * N) sdiv 4 + 1)"

fun Size :: "quorum_i \<Rightarrow> int" where
  "Size (Majority m) = m"
| "Size (ThreeQuarters m) = m"
| "Size (Quorum q) = int (card q)"

fun Contains :: "quorum_i \<Rightarrow> int \<Rightarrow> bool" where
  "Contains (Majority m) r = True"
| "Contains (ThreeQuarters m) r = True"
| "Contains (Quorum q) r = (r \<in> q)"

definition NewQuorumOfAll :: "int \<Rightarrow> int set" where
  "NewQuorumOfAll n = set [0..n - 1]"

text \<open>Two quorums are equal when they have as many members and each member of the first is in
  the second.\<close>

definition Quorum_Equals :: "int set \<Rightarrow> int set \<Rightarrow> bool" where
  "Quorum_Equals q1 q2 \<longleftrightarrow> card q1 = card q2 \<and> (\<forall>r \<in> q1. r \<in> q2)"

subsection \<open>Quorum sizes and ballots of a replica\<close>

definition FastQuorumSize :: "int \<Rightarrow> int" where
  "FastQuorumSize N = (3 * N) sdiv 4 + 1"

definition SlowQuorumSize :: "int \<Rightarrow> int" where
  "SlowQuorumSize N = (N + 1) sdiv 2"

definition WriteQuorumSize :: "int \<Rightarrow> int" where
  "WriteQuorumSize F = F + 1"

definition ReadQuorumSize :: "int \<Rightarrow> int \<Rightarrow> int" where
  "ReadQuorumSize N F = N - F"

definition Leader :: "int \<Rightarrow> int \<Rightarrow> int" where
  "Leader ballot repNum = ballot smod repNum"

definition NextBallotOf :: "int \<Rightarrow> int \<Rightarrow> int \<Rightarrow> int" where
  "NextBallotOf rid oldBallot repNum = i32 (i32 (i32 (oldBallot sdiv repNum + 1) * repNum) + rid)"

subsection \<open>Enumerating the quorums\<close>

type_synonym quorums_of_leader = "int set list"
type_synonym quorum_set = "quorums_of_leader list"

text \<open>The body of the \<open>quorumSize == 0\<close> case: every member of the quorum, in increasing order,
  gets a copy of it as its next quorum.\<close>

definition add_quorum ::
    "(int \<Rightarrow> int \<Rightarrow> int set \<Rightarrow> 's \<Rightarrow> 's) \<Rightarrow> nat \<Rightarrow> int set \<Rightarrow> quorum_set \<times> 's \<Rightarrow> quorum_set \<times> 's" where
  "add_quorum treat repNum q qs =
     fold (\<lambda>repId (qs, s).
             let len = length (qs ! repId)
             in if int repId \<in> q
                then (qs[repId := qs ! repId @ [q]], treat (int repId) (int len) q s)
                else (qs, s))
       [0..<repNum] qs"

function subsets ::
      "(int \<Rightarrow> int \<Rightarrow> int set \<Rightarrow> 's \<Rightarrow> 's) \<Rightarrow> int list \<Rightarrow> nat \<Rightarrow> int \<Rightarrow> nat \<Rightarrow> int set \<Rightarrow>
       quorum_set \<times> 's \<Rightarrow> quorum_set \<times> 's"
  and subsets_loop ::
      "(int \<Rightarrow> int \<Rightarrow> int set \<Rightarrow> 's \<Rightarrow> 's) \<Rightarrow> int list \<Rightarrow> nat \<Rightarrow> int \<Rightarrow> nat \<Rightarrow> int set \<Rightarrow>
       quorum_set \<times> 's \<Rightarrow> quorum_set \<times> 's"
where
  "subsets treat ids repNum quorumSize i q qs =
     subsets_loop treat ids repNum quorumSize i q
       (if quorumSize = 0 then add_quorum treat repNum q qs else qs)"
| "subsets_loop treat ids repNum quorumSize j q qs =
     (if j < repNum
      then subsets_loop treat ids repNum quorumSize (Suc j) (insert (ids ! j) q - {ids ! j})
             (subsets treat ids repNum (quorumSize - 1) (Suc j) (insert (ids ! j) q) qs)
      else qs)"
  by pat_completeness auto
termination
  by (relation "measure (\<lambda>x. case x of
        Inl (_, _, n, _, i, _) \<Rightarrow> 2 * (n - i) + 1
      | Inr (_, _, n, _, j, _) \<Rightarrow> 2 * (n - j))") auto

definition newQuorumSetAdvance ::
    "int \<Rightarrow> nat \<Rightarrow> (int \<Rightarrow> int \<Rightarrow> int set \<Rightarrow> 's \<Rightarrow> 's) \<Rightarrow> 's \<Rightarrow> quorum_set \<times> 's" where
  "newQuorumSetAdvance quorumSize repNum treat s =
     subsets treat (map int [0..<repNum]) repNum quorumSize 0 {} (replicate repNum [], s)"

definition NewQuorumSet :: "int \<Rightarrow> nat \<Rightarrow> quorum_set" where
  "NewQuorumSet quorumSize repNum =
     fst (newQuorumSetAdvance quorumSize repNum (\<lambda>_ _ _. id) ())"

subsection \<open>Active quorums\<close>

text \<open>\<open>AQ\<close> divides by the number of quorums of the leader; with none the call panics.\<close>

definition AQ :: "quorum_set \<Rightarrow> int \<Rightarrow> int set option" where
  "AQ qs ballot =
     (if qs = [] then None
      else do {
        lqs \<leftarrow> slice_get qs (Leader ballot (int (length qs)));
        if lqs = [] then None
        else slice_get lqs ((ballot sdiv int (length qs)) smod int (length lqs))
      })"

text \<open>\<open>BallotOf\<close> ranges over a map and returns the first quorum that is equal; the quorums of a
  leader are pairwise different, so the order does not matter.\<close>

definition BallotOf :: "quorum_set \<Rightarrow> int \<Rightarrow> int set \<Rightarrow> int" where
  "BallotOf qs leader q =
     (case slice_get qs leader of
        None \<Rightarrow> -1
      | Some lqs \<Rightarrow>
          (case find (\<lambda>qid. Quorum_Equals (lqs ! qid) q) [0..<length lqs] of
             None \<Rightarrow> -1
           | Some qid \<Rightarrow> i32 (i32 (int qid * int (length qs)) + leader)))"

definition SameHigher :: "quorum_set \<Rightarrow> int \<Rightarrow> int \<Rightarrow> int option" where
  "SameHigher qs sameAs higherThan =
     (if qs = [] then None
      else do {
        lqs \<leftarrow> slice_get qs (Leader sameAs (int (length qs)));
        if lqs = [] then None
        else Some (i32 (sameAs + i32 (i32 (higherThan sdiv int (length lqs) * int (length lqs))
                     * int (length qs))))
      })"

subsection \<open>The quorum system of a replica\<close>

text \<open>\<open>NewQuorumSystem\<close> after the quorum file has been read: the active quorums it lists and their leaders,
  or no file. The ballots that stand for the listed quorums are sorted by the position in the file; the
  map \<open>ids\<close> is a map.\<close>

type_synonym quorum_file = "(int set \<times> int) list"

record QuorumSystem =
  qs_sets :: quorum_set
  qs_ballots :: "int list"

definition treat_file ::
    "nat \<Rightarrow> quorum_file \<Rightarrow> int \<Rightarrow> int \<Rightarrow> int set \<Rightarrow> (int \<rightharpoonup> nat) \<times> int list \<Rightarrow> (int \<rightharpoonup> nat) \<times> int list" where
  "treat_file repNum file l qid q s =
     fold (\<lambda>i (ids, ballots).
             if snd (file ! i) \<noteq> l \<or> \<not> Quorum_Equals q (fst (file ! i)) then (ids, ballots)
             else let ballot = i32 (i32 (qid * int repNum) + l) in (ids(ballot \<mapsto> i), ballots @ [ballot]))
       [0..<length file] s"

definition NewQuorumSystem :: "int \<Rightarrow> nat \<Rightarrow> quorum_file option \<Rightarrow> QuorumSystem" where
  "NewQuorumSystem quorumSize repNum qfile =
     (case qfile of
        None \<Rightarrow> \<lparr>qs_sets = NewQuorumSet quorumSize repNum, qs_ballots = []\<rparr>
      | Some file \<Rightarrow>
          (case newQuorumSetAdvance quorumSize repNum (treat_file repNum file) (Map.empty, []) of
             (qs, ids, ballots) \<Rightarrow>
               \<lparr>qs_sets = qs, qs_ballots = sort_key (\<lambda>b. case ids b of Some i \<Rightarrow> i | None \<Rightarrow> 0) ballots\<rparr>))"

definition BallotAt :: "QuorumSystem \<Rightarrow> nat \<Rightarrow> int" where
  "BallotAt sys i = (if i < length (qs_ballots sys) then qs_ballots sys ! i else -1)"

subsection \<open>What the enumeration yields\<close>

text \<open>All \<open>k\<close>-element sublists of a list, in the order the recursion visits them.\<close>

fun combos :: "nat \<Rightarrow> 'a list \<Rightarrow> 'a list list" where
  "combos 0 xs = [[]]"
| "combos (Suc k) [] = []"
| "combos (Suc k) (x # xs) = map (Cons x) (combos k xs) @ combos (Suc k) xs"

lemma combos_subset: "c \<in> set (combos k xs) \<Longrightarrow> set c \<subseteq> set xs"
  by (induction k xs arbitrary: c rule: combos.induct) (auto, blast+)

lemma combos_card: "distinct xs \<Longrightarrow> c \<in> set (combos k xs) \<Longrightarrow> card (set c) = k"
proof (induction k xs arbitrary: c rule: combos.induct)
  case (3 k x xs)
  then show ?case by (auto dest: combos_subset [THEN subsetD] simp: card_insert_if)
qed auto

lemma combos_complete:
  "S \<subseteq> set xs \<Longrightarrow> card S = k \<Longrightarrow> S \<in> set ` set (combos k xs)"
proof (induction k xs arbitrary: S rule: combos.induct)
  case (1 xs)
  then have "S = {}" by (metis List.finite_set card_0_eq finite_subset)
  then show ?case by simp
next
  case (3 k x xs)
  have fin: "finite S" using 3(3) by (rule finite_subset) simp
  show ?case
  proof (cases "x \<in> S")
    case True
    have "S - {x} \<in> set ` set (combos k xs)"
      using 3(3,4) True fin by (intro 3(1)) auto
    then obtain c where "c \<in> set (combos k xs)" "S - {x} = set c" by blast
    with True have "x # c \<in> set (combos (Suc k) (x # xs))" "S = set (x # c)" by auto
    then show ?thesis by blast
  next
    case False
    with 3 have "S \<in> set ` set (combos (Suc k) xs)" by (intro 3(2)) auto
    then show ?thesis by auto
  qed
qed auto

lemma combos_distinct: "distinct xs \<Longrightarrow> distinct (map set (combos k xs))"
proof (induction k xs rule: combos.induct)
  case (3 k x xs)
  have "inj_on (insert x) (set ` set (combos k xs))"
    using 3(3) by (auto simp: inj_on_def dest!: combos_subset)
  then have "distinct (map (insert x) (map set (combos k xs)))"
    using 3 by (simp add: distinct_map [of "insert x"] image_image del: map_map)
  moreover have "insert x ` set ` set (combos k xs) \<inter> set ` set (combos (Suc k) xs) = {}"
    using 3(3) by (auto dest!: combos_subset)
  ultimately show ?case using 3 by (auto simp: comp_def image_image)
qed auto

lemma add_quorum_upto:
  assumes "m \<le> length qs"
  shows "let r = fst (fold (\<lambda>repId (qs, s).
             let len = length (qs ! repId)
             in if int repId \<in> q
                then (qs[repId := qs ! repId @ [q]], treat (int repId) (int len) q s)
                else (qs, s)) [0..<m] (qs, s))
    in length r = length qs \<and>
       (\<forall>l < length qs. r ! l = (if l < m \<and> int l \<in> q then qs ! l @ [q] else qs ! l))"
  using assms
  by (induction m) (auto simp: Let_def split_def nth_list_update less_Suc_eq)

lemma add_quorum_fst:
  "length (fst qs) = n \<Longrightarrow> length (fst (add_quorum treat n q qs)) = n \<and>
     (\<forall>l < n. fst (add_quorum treat n q qs) ! l = fst qs ! l @ (if int l \<in> q then [q] else []))"
  using add_quorum_upto [of n "fst qs" q treat "snd qs"]
  by (simp add: add_quorum_def Let_def split_def)

declare subsets.simps [simp del] subsets_loop.simps [simp del]

lemma subsets_negative:
  "k < 0 \<Longrightarrow> subsets treat ids n k i q st = st"
  "k \<le> 0 \<Longrightarrow> subsets_loop treat ids n k j q st = st"
proof (induction treat ids n k i q st and treat ids n k j q st rule: subsets_subsets_loop.induct)
  case (1 treat ids repNum quorumSize i q qs)
  then show ?case by (simp add: subsets.simps)
next
  case (2 treat ids repNum quorumSize j q qs)
  then show ?case by (simp add: subsets_loop.simps [of treat ids repNum quorumSize j])
qed

lemma subsets_fold:
  "n = length ids \<Longrightarrow> distinct ids \<Longrightarrow> 0 \<le> k \<Longrightarrow> q \<inter> set (drop i ids) = {} \<Longrightarrow>
     subsets treat ids n k i q st =
       fold (\<lambda>c. add_quorum treat n (q \<union> set c)) (combos (nat k) (drop i ids)) st"
  "n = length ids \<Longrightarrow> distinct ids \<Longrightarrow> 1 \<le> k \<Longrightarrow> q \<inter> set (drop j ids) = {} \<Longrightarrow>
     subsets_loop treat ids n k j q st =
       fold (\<lambda>c. add_quorum treat n (q \<union> set c)) (combos (nat k) (drop j ids)) st"
proof (induction treat ids n k i q st and treat ids n k j q st rule: subsets_subsets_loop.induct)
  case (1 treat ids n k i q st)
  show ?case
  proof (cases "k = 0")
    case True
    then show ?thesis by (simp add: subsets.simps subsets_negative)
  next
    case False
    with 1 show ?thesis by (simp add: subsets.simps)
  qed
next
  case (2 treat ids n k j q st)
  obtain k' where k: "k = 1 + int k'" using 2(5) by (metis zle_iff_zadd)
  show ?case
  proof (cases "j < n")
    case True
    then have d: "drop j ids = ids ! j # drop (Suc j) ids"
      using 2(3) by (simp add: Cons_nth_drop_Suc)
    have x: "ids ! j \<notin> q" "ids ! j \<notin> set (drop (Suc j) ids)"
      using 2(4,6) d by (auto dest: distinct_drop [of _ j])
    have "subsets treat ids n (k - 1) (Suc j) (insert (ids ! j) q) st =
        fold (\<lambda>c. add_quorum treat n (insert (ids ! j) q \<union> set c))
          (combos (nat (k - 1)) (drop (Suc j) ids)) st"
      using 2(3-6) d x k by (intro 2(1) [OF True]) auto
    moreover have "subsets_loop treat ids n k (Suc j) (insert (ids ! j) q - {ids ! j}) st' =
        fold (\<lambda>c. add_quorum treat n (q \<union> set c)) (combos (nat k) (drop (Suc j) ids)) st'"
      if "st' = subsets treat ids n (k - 1) (Suc j) (insert (ids ! j) q) st" for st'
      using 2(2) [OF True] 2(3-6) d x that by auto
    moreover have "nat k = Suc k'" "nat (k - 1) = k'" using k by simp_all
    ultimately show ?thesis
      using True unfolding d
      by (subst subsets_loop.simps) (simp add: fold_map comp_def)
  next
    case False
    with 2(3) k show ?thesis by (simp add: subsets_loop.simps nat_add_distrib)
  qed
qed

text \<open>The quorums of all leaders, in the order they are numbered.\<close>

definition all_quorums :: "nat \<Rightarrow> nat \<Rightarrow> int set list" where
  "all_quorums k N = map set (combos k (map int [0..<N]))"

lemma fold_add_quorum:
  "length (fst st) = n \<Longrightarrow>
     length (fst (fold (add_quorum treat n) Qs st)) = n \<and>
     (\<forall>l < n. fst (fold (add_quorum treat n) Qs st) ! l = fst st ! l @ filter (\<lambda>Q. int l \<in> Q) Qs)"
proof (induction Qs arbitrary: st)
  case Nil
  then show ?case by simp
next
  case (Cons Q Qs)
  from add_quorum_fst [OF Cons.prems, of treat Q]
  have l: "length (fst (add_quorum treat n Q st)) = n"
    and n: "\<And>l. l < n \<Longrightarrow> fst (add_quorum treat n Q st) ! l = fst st ! l @ (if int l \<in> Q then [Q] else [])"
    by simp_all
  from Cons.IH [OF l] n show ?case by simp
qed

lemma NewQuorumSet_quorums:
  "length (NewQuorumSet (int k) N) = N \<and>
   (\<forall>l < N. NewQuorumSet (int k) N ! l = filter (\<lambda>Q. int l \<in> Q) (all_quorums k N))"
proof -
  let ?t = "\<lambda>_ _ _. id"
  have "subsets ?t (map int [0..<N]) N (int k) 0 {} (replicate N [], ()) =
      fold (add_quorum ?t N) (all_quorums k N) (replicate N [], ())"
    by (subst subsets_fold) (simp_all add: distinct_map fold_map comp_def all_quorums_def)
  then show ?thesis
    using fold_add_quorum [of "(replicate N [], ())" N ?t "all_quorums k N"]
    by (simp add: NewQuorumSet_def newQuorumSetAdvance_def)
qed

lemma all_quorums_iff:
  "Q \<in> set (all_quorums k N) \<longleftrightarrow> Q \<subseteq> {0..<int N} \<and> card Q = k"
proof -
  have s: "set (map int [0..<N]) = {0..<int N}"
    by (simp add: image_int_atLeastLessThan)
  show ?thesis
    using combos_complete [of Q "map int [0..<N]" k] combos_subset [of _ k "map int [0..<N]"]
      combos_card [of "map int [0..<N]" _ k]
    unfolding s by (auto simp: all_quorums_def distinct_map)
qed

lemma all_quorums_distinct: "distinct (all_quorums k N)"
  unfolding all_quorums_def by (rule combos_distinct) (simp add: distinct_map)

subsection \<open>Systems of intersecting quorums\<close>

text \<open>What the protocols rely on: any two quorums have a replica in common, so that if every
  replica votes at most once, two quorums of votes are for the same candidate.\<close>

locale quorum_system =
  fixes U :: "'a set" and quorum :: "'a set \<Rightarrow> bool"
  assumes intersect: "quorum A \<Longrightarrow> quorum B \<Longrightarrow> A \<inter> B \<noteq> {}"
    and members: "quorum A \<Longrightarrow> A \<subseteq> U"
begin

lemma unique_winner:
  assumes "quorum A" and "quorum B"
    and "\<And>v. v \<in> A \<Longrightarrow> vote v a" and "\<And>v. v \<in> B \<Longrightarrow> vote v b"
    and "\<And>v x y. v \<in> U \<Longrightarrow> vote v x \<Longrightarrow> vote v y \<Longrightarrow> x = y"
  shows "a = b"
proof -
  from intersect [OF assms(1,2)] obtain v where "v \<in> A" "v \<in> B" by blast
  with members [OF assms(1)] assms(3-5) show ?thesis by blast
qed

end

definition is_majority :: "int \<Rightarrow> int set \<Rightarrow> bool" where
  "is_majority N A \<longleftrightarrow> 0 < N \<and> A \<subseteq> {0..<N} \<and> N sdiv 2 + 1 \<le> int (card A)"

lemma int_card_Int:
  assumes "A \<subseteq> {0..<N}" and "B \<subseteq> {0..<N}" and "N < int (card A) + int (card B)" and "0 < N"
  shows "A \<inter> B \<noteq> {}"
  by (rule card_gt_half_Int [of _ "{0..<N}"]) (use assms in auto)

interpretation majority: quorum_system "{0..<N}" "is_majority N" for N
proof
  fix A B
  assume "is_majority N A" "is_majority N B"
  then show "A \<inter> B \<noteq> {}"
    by (intro int_card_Int [of _ N]) (auto simp: is_majority_def)
qed (simp add: is_majority_def)

text \<open>The sets a quorum system of \<open>NewQuorumSet\<close> gives out.\<close>

definition is_active_quorum :: "nat \<Rightarrow> nat \<Rightarrow> int set \<Rightarrow> bool" where
  "is_active_quorum k N Q \<longleftrightarrow>
     N < 2 * k \<and> k \<le> N \<and> (\<exists>ballot \<ge> 0. AQ (NewQuorumSet (int k) N) ballot = Some Q)"

lemma all_quorums_of_leader_nonempty:
  assumes "0 < k" and "k \<le> N" and "l < N"
  shows "filter (\<lambda>Q. int l \<in> Q) (all_quorums k N) \<noteq> []"
proof -
  have "k - 1 \<le> card ({0..<int N} - {int l})" using assms by simp
  then obtain S where S: "S \<subseteq> {0..<int N} - {int l}" "card S = k - 1" "finite S"
    by (rule obtain_subset_with_card_n)
  have "card (insert (int l) S) = k"
    using S assms(1) by (subst card_insert_disjoint) auto
  then have "insert (int l) S \<in> set (all_quorums k N)"
    using S assms(3) by (auto simp: all_quorums_iff)
  then show ?thesis by (metis filter_empty_conv insertI1)
qed

lemma slice_get_mod: "xs \<noteq> [] \<Longrightarrow> 0 \<le> i \<Longrightarrow> \<exists>x \<in> set xs. slice_get xs (i smod int (length xs)) = Some x"
  by (auto simp: slice_get_def nat_less_iff)

lemma AQ_member:
  assumes "0 < k" and "k \<le> N" and "0 \<le> ballot"
  shows "\<exists>Q. AQ (NewQuorumSet (int k) N) ballot = Some Q \<and>
    Q \<in> set (all_quorums k N) \<and> Leader ballot (int N) \<in> Q"
proof -
  let ?qs = "NewQuorumSet (int k) N" and ?l = "nat (ballot mod int N)"
  have N: "0 < N" using assms by simp
  have l: "?l < N" using N by (simp add: nat_less_iff)
  have len: "length ?qs = N" and q: "?qs ! ?l = filter (\<lambda>Q. int ?l \<in> Q) (all_quorums k N)"
    using NewQuorumSet_quorums [of k N] l by auto
  have ne: "?qs ! ?l \<noteq> []" unfolding q using assms(1,2) l by (rule all_quorums_of_leader_nonempty)
  have get: "slice_get ?qs (Leader ballot (int N)) = Some (?qs ! ?l)"
    using N len assms(3) by (simp add: Leader_def slice_get_def)
  have "0 \<le> ballot sdiv int N" using N assms(3) by (simp add: pos_imp_zdiv_nonneg_iff)
  from slice_get_mod [OF ne this] obtain Q where Q: "Q \<in> set (?qs ! ?l)"
      "slice_get (?qs ! ?l) ((ballot sdiv int N) smod int (length (?qs ! ?l))) = Some Q" by blast
  have "AQ ?qs ballot = Some Q" using N len get ne Q(2) by (auto simp: AQ_def)
  moreover have "int ?l = Leader ballot (int N)" using N assms(3) by (simp add: Leader_def)
  ultimately show ?thesis using Q(1) unfolding q by auto
qed

lemma active_quorum_member:
  assumes "is_active_quorum k N Q"
  shows "Q \<subseteq> {0..<int N}" and "card Q = k"
proof -
  from assms obtain ballot where b: "N < 2 * k" "k \<le> N" "0 \<le> ballot"
      "AQ (NewQuorumSet (int k) N) ballot = Some Q"
    by (auto simp: is_active_quorum_def)
  then have "0 < k" by simp
  from AQ_member [OF this b(2,3)] b(4) have "Q \<in> set (all_quorums k N)" by simp
  then show "Q \<subseteq> {0..<int N}" and "card Q = k" by (simp_all add: all_quorums_iff)
qed

interpretation active: quorum_system "{0..<int N}" "is_active_quorum k N" for k N
proof
  fix A B
  assume "is_active_quorum k N A" "is_active_quorum k N B"
  moreover from this have "N < 2 * k" "0 < N" by (auto simp: is_active_quorum_def)
  ultimately show "A \<inter> B \<noteq> {}"
    by (intro int_card_Int [of _ "int N"]) (simp_all add: active_quorum_member)
qed (rule active_quorum_member)

text \<open>C37. Every ballot has an active quorum: in the quorum system of \<open>NewQuorumSet\<close> with more than
  half of the replicas per quorum, each non-negative ballot is mapped to a set of exactly that
  many replicas that contains the ballot's leader, and the active quorums of any two ballots
  have a replica in common.\<close>

theorem AQ_leader_size_intersect:
  assumes "N < 2 * k" and "k \<le> N" and "0 \<le> ballot" and "0 \<le> ballot'"
  shows "\<exists>Q Q'. AQ (NewQuorumSet (int k) N) ballot = Some Q \<and>
    AQ (NewQuorumSet (int k) N) ballot' = Some Q' \<and>
    card Q = k \<and> Q \<subseteq> {0..<int N} \<and> Leader ballot (int N) \<in> Q \<and> Q \<inter> Q' \<noteq> {}"
proof -
  have k: "0 < k" using assms(1,2) by simp
  obtain Q where Q: "AQ (NewQuorumSet (int k) N) ballot = Some Q" "Leader ballot (int N) \<in> Q"
    using AQ_member [OF k assms(2,3)] by blast
  obtain Q' where Q': "AQ (NewQuorumSet (int k) N) ballot' = Some Q'"
    using AQ_member [OF k assms(2,4)] by blast
  from Q Q' assms have a: "is_active_quorum k N Q" "is_active_quorum k N Q'"
    by (auto simp: is_active_quorum_def)
  from active.intersect [OF this] active_quorum_member [OF a(1)] Q Q' show ?thesis by blast
qed

theorem AQ_leader_size_intersect_witness:
  "\<exists>Q Q'. AQ (NewQuorumSet (int 2) 3) 4 = Some Q \<and> AQ (NewQuorumSet (int 2) 3) 0 = Some Q' \<and>
    card Q = 2 \<and> Q \<subseteq> {0..<int 3} \<and> Leader 4 (int 3) \<in> Q \<and> Q \<inter> Q' \<noteq> {}"
  by (rule AQ_leader_size_intersect) simp_all

subsection \<open>Ballots of quorums\<close>

lemma Quorum_Equals_iff: "finite q2 \<Longrightarrow> Quorum_Equals q1 q2 \<longleftrightarrow> q1 = q2"
  by (auto simp: Quorum_Equals_def subset_iff [symmetric] card_subset_eq dest: card_subset_eq)

lemma find_upt_Some:
  assumes "find P [0..<n] = Some i"
  shows "i < n" and "P i"
  using assms by (auto simp: find_Some_iff)

text \<open>\<open>BallotOf\<close> and \<open>AQ\<close> are inverse: for a leader and a quorum of the right size that
  contains it, \<open>BallotOf\<close> finds a ballot that this leader leads and whose active quorum is that
  quorum (as long as the ballot numbers fit into an \<open>int32\<close>).\<close>

theorem AQ_BallotOf:
  assumes "0 < k" and "Q \<subseteq> {0..<int N}" and "card Q = k" and "leader \<in> Q"
    and "int (length (all_quorums k N)) * int N + int N < 2147483648"
  shows "AQ (NewQuorumSet (int k) N) (BallotOf (NewQuorumSet (int k) N) leader Q) = Some Q \<and>
    Leader (BallotOf (NewQuorumSet (int k) N) leader Q) (int N) = leader"
proof -
  let ?qs = "NewQuorumSet (int k) N"
  define lqs where "lqs = ?qs ! nat leader"
  have l: "0 \<le> leader" "leader < int N" using assms(2,4) by auto
  then have nl: "nat leader < N" "int (nat leader) = leader" by auto
  have len: "length ?qs = N" and q: "lqs = filter (\<lambda>Q. leader \<in> Q) (all_quorums k N)"
    using NewQuorumSet_quorums [of k N] nl by (auto simp: lqs_def)
  have fin: "finite Q" using assms(2) by (rule finite_subset) simp
  have mem: "Q \<in> set lqs" unfolding q using assms(2-4) by (simp add: all_quorums_iff)
  have get: "slice_get ?qs leader = Some lqs" using l len by (simp add: slice_get_def lqs_def)
  from mem have "find (\<lambda>qid. Quorum_Equals (lqs ! qid) Q) [0..<length lqs] \<noteq> None"
    by (auto simp: find_None_iff Quorum_Equals_iff [OF fin] in_set_conv_nth)
  then obtain qid where f: "find (\<lambda>qid. Quorum_Equals (lqs ! qid) Q) [0..<length lqs] = Some qid"
    by blast
  have qid: "qid < length lqs" "lqs ! qid = Q"
    using find_upt_Some [OF f] by (simp_all add: Quorum_Equals_iff [OF fin])
  have "length lqs \<le> length (all_quorums k N)" unfolding q by (rule length_filter_le)
  with qid(1) have "int qid * int N \<le> int (length (all_quorums k N)) * int N"
    by (intro mult_right_mono) auto
  moreover have "0 \<le> int qid * int N" by simp
  ultimately have r: "is_i32 (int qid * int N)" "is_i32 (int qid * int N + leader)"
    unfolding is_i32_def using assms(5) l by linarith+
  have b: "BallotOf ?qs leader Q = int qid * int N + leader"
    using f r by (simp add: BallotOf_def get len)
  have N: "0 < N" using l by simp
  have ld: "Leader (int qid * int N + leader) (int N) = leader"
    using N l by (simp add: Leader_def)
  have "(int qid * int N + leader) sdiv int N = int qid" using N l by simp
  then have "AQ ?qs (int qid * int N + leader) = Some Q"
    using N len get ld qid by (auto simp: AQ_def slice_get_def)
  with b ld show ?thesis by simp
qed

theorem AQ_BallotOf_witness:
  "AQ (NewQuorumSet (int 2) 3) (BallotOf (NewQuorumSet (int 2) 3) 2 {0, 2}) = Some {0, 2} \<and>
   Leader (BallotOf (NewQuorumSet (int 2) 3) 2 {0, 2}) (int 3) = 2"
  by (rule AQ_BallotOf) (simp_all add: all_quorums_def numeral_eq_Suc)

text \<open>\<open>NextBallotOf\<close> makes progress and keeps ballots apart: the new ballot is higher than the
  old one and is led by the replica that asked for it (before the counter reaches the largest
  \<open>int32\<close>).\<close>

theorem NextBallotOf_higher:
  assumes "0 < N" and "0 \<le> rid" and "rid < N" and "0 \<le> old" and "old + 2 * N < 2147483648"
  shows "old < NextBallotOf rid old N \<and> Leader (NextBallotOf rid old N) N = rid"
proof -
  have "old div N * N + old mod N = old" "0 \<le> old mod N" "old mod N < N" using assms by simp_all
  then have m: "old div N * N \<le> old" "old < (old div N + 1) * N"
    unfolding distrib_right by linarith+
  have d: "0 \<le> old div N" using assms by (simp add: pos_imp_zdiv_nonneg_iff)
  have "old div N * 1 \<le> old div N * N" using d assms(1) by (intro mult_left_mono) simp_all
  with m(1) have "old div N \<le> old" by simp
  then have "is_i32 (old div N + 1)" "is_i32 ((old div N + 1) * N)" "is_i32 ((old div N + 1) * N + rid)"
    using m d assms unfolding is_i32_def distrib_right by linarith+
  then have e: "NextBallotOf rid old N = (old div N + 1) * N + rid"
    using assms by (simp add: NextBallotOf_def)
  have "0 \<le> (old div N + 1) * N + rid" using m assms by linarith
  then show ?thesis unfolding e using m(2) assms by (simp add: Leader_def)
qed

theorem NextBallotOf_higher_witness:
  "4 < NextBallotOf 2 4 3 \<and> Leader (NextBallotOf 2 4 3) 3 = 2"
  by (rule NextBallotOf_higher) simp_all

end
