(* ===== verification/Msg_Set.thy ===== *)
theory Msg_Set
  imports Quorum
begin

section \<open>Collecting a quorum of messages\<close>

text \<open>
  The collector of replies \<open>MsgSet\<close> (\<open>src/replica/mset.go\<close>) that the protocols wait for a
  quorum with.

  \<^item> \<open>MsgSet\<close> is the struct. The map from replicas to messages is an association list with one
    entry per replica; Go visits a map in no fixed order, and the statements below do not depend
    on the order of the list. A nil \<open>leaderMsg\<close> is \<open>None\<close>.
  \<^item> The callbacks \<open>freeMsg\<close> and \<open>handler\<close> act on the protocol that installed them: a call is
    an event of the output. \<open>accept\<close> decides from its two arguments.
  \<^item> \<open>add_all\<close> is a sequence of calls of \<open>Add\<close>. The invariant \<open>msg_set_inv\<close> relates the
    collector to the calls made so far, and the property says what a call of the handler certifies.
\<close>

datatype 'm ms_event = FreeMsg 'm | Handle "'m option" "'m list"

record 'm MsgSet =
  q :: quorum_i
  msgs :: "(int \<times> 'm) list"
  leaderMsg :: "'m option"
  accept :: "'m \<Rightarrow> 'm option \<Rightarrow> bool"

definition NewMsgSet :: "quorum_i \<Rightarrow> ('m \<Rightarrow> 'm option \<Rightarrow> bool) \<Rightarrow> 'm MsgSet" where
  "NewMsgSet qi acc = \<lparr>q = qi, msgs = [], leaderMsg = None, accept = acc\<rparr>"

definition ReinitMsgSet ::
    "'m MsgSet option \<Rightarrow> quorum_i \<Rightarrow> ('m \<Rightarrow> 'm option \<Rightarrow> bool) \<Rightarrow> 'm MsgSet" where
  "ReinitMsgSet ms qi acc =
     (case ms of
        None \<Rightarrow> NewMsgSet qi acc
      | Some ms \<Rightarrow> ms\<lparr>q := qi, leaderMsg := None, accept := acc, msgs := []\<rparr>)"

definition msgs_put :: "int \<Rightarrow> 'm \<Rightarrow> (int \<times> 'm) list \<Rightarrow> (int \<times> 'm) list" where
  "msgs_put r m xs = (r, m) # filter (\<lambda>(r', _). r' \<noteq> r) xs"

text \<open>\<open>Add\<close>: the collector afterwards, the events in the order they happen, and whether the
  message was added.\<close>

definition Add ::
    "'m MsgSet \<Rightarrow> int \<Rightarrow> bool \<Rightarrow> 'm \<Rightarrow> 'm MsgSet \<times> 'm ms_event list \<times> bool" where
  "Add ms repId isLeader msg =
     (if \<not> Contains (q ms) repId then (ms, [], False)
      else if leaderMsg ms \<noteq> None \<and> repId \<in> fst ` set (msgs ms) then (ms, [], False)
      else
        let (ms', frees, added) =
          (if isLeader then
             let ok = (\<lambda>(_, fmsg). accept ms fmsg (Some msg))
             in (ms\<lparr>leaderMsg := Some msg, msgs := filter ok (msgs ms)\<rparr>,
                 map (FreeMsg \<circ> snd) (filter (Not \<circ> ok) (msgs ms)), True)
           else if accept ms msg (leaderMsg ms)
             then (ms\<lparr>msgs := msgs_put repId msg (msgs ms)\<rparr>, [], True)
           else (ms, [FreeMsg msg], False));
          len = int (length (msgs ms'));
          calls = (if Size (q ms') \<le> len \<or> Size (q ms') - 1 \<le> len \<and> leaderMsg ms' \<noteq> None
                   then [Handle (leaderMsg ms') (map snd (msgs ms'))] else [])
        in (ms', frees @ calls, added))"

definition Free :: "'m MsgSet option \<Rightarrow> 'm ms_event list" where
  "Free ms =
     (case ms of
        None \<Rightarrow> []
      | Some ms \<Rightarrow>
          (case leaderMsg ms of None \<Rightarrow> [] | Some m \<Rightarrow> [FreeMsg m]) @ map (FreeMsg \<circ> snd) (msgs ms))"

fun add_all :: "'m MsgSet \<Rightarrow> (int \<times> bool \<times> 'm) list \<Rightarrow> 'm MsgSet \<times> 'm ms_event list" where
  "add_all ms [] = (ms, [])"
| "add_all ms ((r, l, m) # cs) =
     (let (ms', evs, _) = Add ms r l m; (ms'', evs') = add_all ms' cs in (ms'', evs @ evs'))"

subsection \<open>Invariant\<close>

definition msg_set_inv :: "(int \<times> bool \<times> 'm) set \<Rightarrow> 'm MsgSet \<Rightarrow> bool" where
  "msg_set_inv calls ms \<longleftrightarrow>
     distinct (map fst (msgs ms)) \<and>
     (\<forall>(r, m) \<in> set (msgs ms). Contains (q ms) r \<and> (r, False, m) \<in> calls \<and> accept ms m (leaderMsg ms)) \<and>
     (case leaderMsg ms of None \<Rightarrow> True | Some m \<Rightarrow> \<exists>l. Contains (q ms) l \<and> (l, True, m) \<in> calls)"

lemma msg_set_inv_init: "msg_set_inv {} (NewMsgSet qi acc)"
  by (simp add: msg_set_inv_def NewMsgSet_def)

lemma msg_set_inv_mono: "msg_set_inv calls ms \<Longrightarrow> calls \<subseteq> calls' \<Longrightarrow> msg_set_inv calls' ms"
  unfolding msg_set_inv_def by (fastforce split: option.splits)

lemma distinct_map_filter_fst: "distinct (map fst xs) \<Longrightarrow> distinct (map fst (filter P xs))"
  by (induction xs) auto

lemma Add_cases:
  assumes "Add ms r l m = (ms', evs, added)"
  shows "ms' = ms \<or>
    l \<and> Contains (q ms) r \<and>
      ms' = ms\<lparr>leaderMsg := Some m, msgs := filter (\<lambda>(_, fmsg). accept ms fmsg (Some m)) (msgs ms)\<rparr> \<or>
    \<not> l \<and> Contains (q ms) r \<and> accept ms m (leaderMsg ms) \<and> ms' = ms\<lparr>msgs := msgs_put r m (msgs ms)\<rparr>"
proof (cases "Contains (q ms) r \<and> \<not> (leaderMsg ms \<noteq> None \<and> r \<in> fst ` set (msgs ms))")
  case True
  then have e: "(\<not> Contains (q ms) r) = False"
      "(leaderMsg ms \<noteq> None \<and> r \<in> fst ` set (msgs ms)) = False" by simp_all
  from assms True show ?thesis unfolding Add_def e Let_def if_False
    by (cases l; cases "accept ms m (leaderMsg ms)") auto
next
  case False
  with assms show ?thesis by (simp add: Add_def split: if_splits)
qed

lemma Add_parameters:
  "Add ms r l m = (ms', evs, added) \<Longrightarrow> q ms' = q ms \<and> accept ms' = accept ms"
  by (drule Add_cases) auto

lemma Add_inv:
  assumes "msg_set_inv calls ms" and "Add ms r l m = (ms', evs, added)"
  shows "msg_set_inv (insert (r, l, m) calls) ms'"
proof -
  note mono = msg_set_inv_mono [OF assms(1) subset_insertI, of "(r, l, m)"]
  from Add_cases [OF assms(2)] consider "ms' = ms" | "l" "Contains (q ms) r"
      "ms' = ms\<lparr>leaderMsg := Some m, msgs := filter (\<lambda>(_, fmsg). accept ms fmsg (Some m)) (msgs ms)\<rparr>"
    | "\<not> l" "Contains (q ms) r" "accept ms m (leaderMsg ms)"
      "ms' = ms\<lparr>msgs := msgs_put r m (msgs ms)\<rparr>"
    by blast
  then show ?thesis
  proof cases
    case 1
    with mono show ?thesis by simp
  next
    case 2
    with assms(1) show ?thesis
      by (auto simp: msg_set_inv_def distinct_map_filter_fst)
  next
    case 3
    with assms(1) show ?thesis
      by (auto simp: msg_set_inv_def distinct_map_filter_fst msgs_put_def split: option.splits)
  qed
qed

lemma Add_handles:
  assumes "Add ms r l m = (ms', evs, added)" and "Handle lm ms_list \<in> set evs"
  shows "lm = leaderMsg ms' \<and> ms_list = map snd (msgs ms') \<and>
    (Size (q ms') \<le> int (length ms_list) \<or>
     Size (q ms') - 1 \<le> int (length ms_list) \<and> leaderMsg ms' \<noteq> None)"
  using assms by (auto simp: Add_def Let_def split: if_splits)

text \<open>What a call of the handler certifies: the messages it gets were sent by different members of
  the quorum, each is accepted together with the leader's message, and with the leader's message
  they reach the size of the quorum.\<close>

definition certified ::
    "quorum_i \<Rightarrow> ('m \<Rightarrow> 'm option \<Rightarrow> bool) \<Rightarrow> (int \<times> bool \<times> 'm) set \<Rightarrow> 'm option \<Rightarrow> 'm list \<Rightarrow> bool" where
  "certified qi acc calls lm ms \<longleftrightarrow>
     (\<forall>m \<in> set ms. acc m lm) \<and>
     (\<exists>reps. length reps = length ms \<and> distinct reps \<and> (\<forall>r \<in> set reps. Contains qi r) \<and>
        (\<forall>i < length ms. (reps ! i, False, ms ! i) \<in> calls) \<and>
        (case lm of
           None \<Rightarrow> Size qi \<le> int (length reps)
         | Some m \<Rightarrow> Size qi - 1 \<le> int (length reps) \<and>
             (\<exists>l. Contains qi l \<and> (l, True, m) \<in> calls)))"

lemma certified_of_inv:
  assumes "msg_set_inv calls ms"
    and "Size (q ms) \<le> int (length (msgs ms)) \<or>
      Size (q ms) - 1 \<le> int (length (msgs ms)) \<and> leaderMsg ms \<noteq> None"
  shows "certified (q ms) (accept ms) calls (leaderMsg ms) (map snd (msgs ms))"
  unfolding certified_def
proof (intro conjI exI [of _ "map fst (msgs ms)"])
  show "\<forall>m \<in> set (map snd (msgs ms)). accept ms m (leaderMsg ms)"
    "distinct (map fst (msgs ms))" "\<forall>r \<in> set (map fst (msgs ms)). Contains (q ms) r"
    using assms(1) by (auto simp: msg_set_inv_def)
  show "\<forall>i < length (map snd (msgs ms)). (map fst (msgs ms) ! i, False, map snd (msgs ms) ! i) \<in> calls"
    using assms(1) by (simp add: msg_set_inv_def split_beta)
  show "case leaderMsg ms of
      None \<Rightarrow> Size (q ms) \<le> int (length (map fst (msgs ms)))
    | Some m \<Rightarrow> Size (q ms) - 1 \<le> int (length (map fst (msgs ms))) \<and>
        (\<exists>l. Contains (q ms) l \<and> (l, True, m) \<in> calls)"
    using assms by (auto simp: msg_set_inv_def split: option.splits)
qed simp

lemma certified_mono:
  assumes "certified qi acc calls lm ms" and "calls \<subseteq> calls'"
  shows "certified qi acc calls' lm ms"
proof -
  from assms(1) obtain reps where "\<forall>m \<in> set ms. acc m lm" "length reps = length ms" "distinct reps"
      "\<forall>r \<in> set reps. Contains qi r" "\<forall>i < length ms. (reps ! i, False, ms ! i) \<in> calls"
      "case lm of None \<Rightarrow> Size qi \<le> int (length reps)
         | Some m \<Rightarrow> Size qi - 1 \<le> int (length reps) \<and> (\<exists>l. Contains qi l \<and> (l, True, m) \<in> calls)"
    unfolding certified_def by blast
  with assms(2) show ?thesis
    unfolding certified_def by (intro conjI exI [of _ reps]) (auto split: option.splits)
qed

lemma add_all_certified:
  "msg_set_inv calls ms \<Longrightarrow> Handle lm l \<in> set (snd (add_all ms cs)) \<Longrightarrow>
     certified (q ms) (accept ms) (calls \<union> set cs) lm l"
proof (induction cs arbitrary: ms calls)
  case (Cons c cs)
  obtain r b m where c: "c = (r, b, m)" by (cases c)
  obtain ms' evs added where A: "Add ms r b m = (ms', evs, added)" by (cases "Add ms r b m")
  note inv = Add_inv [OF Cons.prems(1) A] and par = Add_parameters [OF A]
  from Cons.prems(2) consider "Handle lm l \<in> set evs" | "Handle lm l \<in> set (snd (add_all ms' cs))"
    by (auto simp: c A Let_def split: prod.splits)
  then show ?case
  proof cases
    case 1
    from Add_handles [OF A 1] certified_of_inv [OF inv] par
    have "certified (q ms) (accept ms) (insert c calls) lm l" by (auto simp: c)
    then show ?thesis by (rule certified_mono) auto
  next
    case 2
    from Cons.IH [OF inv 2] par show ?thesis by (auto simp: c insert_commute)
  qed
qed simp

subsection \<open>Property\<close>

text \<open>The collector calls its handler only with messages of different members of the quorum that were
  handed to \<open>Add\<close> and are accepted together with the leader's message: \<open>Size\<close> of them, or \<open>Size - 1\<close> if a
  member of the quorum has sent a message as the leader. That member may be among the others, since the
  collector keeps the leader's message apart, and is then counted twice.\<close>

theorem handler_called_with_quorum:
  assumes "Handle lm ms \<in> set (snd (add_all (NewMsgSet qi acc) calls))"
  shows "certified qi acc (set calls) lm ms"
  using add_all_certified [OF msg_set_inv_init assms] by (simp add: NewMsgSet_def)

theorem handler_called_with_quorum_witness:
  "certified (NewMajorityOf 3) (\<lambda>m lm. lm = None \<or> lm = Some m)
     (set [(1, False, 7 :: int), (2, False, 8), (0, True, 7)]) (Some 7) [7]"
  by (rule handler_called_with_quorum) (simp add: Add_def NewMsgSet_def NewMajorityOf_def msgs_put_def)

end
