(* ===== verification/Defs.thy ===== *)
theory Defs
  imports State
begin

section \<open>Messages between clients, replicas and the master\<close>

text \<open>
  The message structs of \<open>src/replica/defs/defs.go\<close> and their generated \<open>Marshal\<close> and
  \<open>Unmarshal\<close> methods. The generated code drops the error a nested \<open>Unmarshal\<close> returns
  (\<open>regardless\<close>); the messages that read more bytes after the nested value still notice a
  truncated stream there, the ones that end with it do not.
\<close>

subsection \<open>Message codes and constants\<close>

definition PROPOSE :: byte where "PROPOSE = 0"
definition PROPOSE_REPLY :: byte where "PROPOSE_REPLY = 1"
definition READ :: byte where "READ = 2"
definition READ_REPLY :: byte where "READ_REPLY = 3"
definition PROPOSE_AND_READ :: byte where "PROPOSE_AND_READ = 4"
definition PROPOSE_AND_READ_REPLY :: byte where "PROPOSE_AND_READ_REPLY = 5"
definition GENERIC_SMR_BEACON :: byte where "GENERIC_SMR_BEACON = 6"
definition GENERIC_SMR_BEACON_REPLY :: byte where "GENERIC_SMR_BEACON_REPLY = 7"
definition STATS :: byte where "STATS = 8"
definition RPC_TABLE :: byte where "RPC_TABLE = 9"

definition TRUE :: byte where "TRUE = 1"
definition FALSE :: byte where "FALSE = 0"

subsection \<open>Structs\<close>

record Propose =
  p_CommandId :: int
  p_ClientId :: int
  p_Command :: command
  p_Timestamp :: int

record ProposeReply =
  pr_OK :: byte
  pr_CommandId :: int

record ProposeReplyTS =
  OK :: byte
  CommandId :: int
  Value :: val
  Timestamp :: int
  LeaderId :: int
  LogIndex :: int

record Read =
  rd_CommandId :: int
  rd_Key :: key

record ReadReply =
  rdr_CommandId :: int
  rdr_Value :: val

record ProposeAndRead =
  par_CommandId :: int
  par_Command :: command
  par_Key :: key

record ProposeAndReadReply =
  parr_OK :: byte
  parr_CommandId :: int
  parr_Value :: val

text \<open>\<open>Beacon\<close> and \<open>BeaconReply\<close> are a time stamp, \<open>PingArgs\<close> is a byte; \<open>PingReply\<close> and
  \<open>BeTheLeaderArgs\<close> are empty.\<close>

record BeTheLeaderReply =
  btl_Leader :: int
  btl_NextLeader :: int

text \<open>A proposal as a replica queues it. The connection the reply goes to is named by the client;
  \<open>Proxy\<close> and \<open>Addr\<close> describe the client's host.\<close>

record GPropose =
  Propose :: Propose
  Proxy :: bool
  Addr :: string

definition NewBeTheLeaderReply :: BeTheLeaderReply where
  "NewBeTheLeaderReply = \<lparr>btl_Leader = -1, btl_NextLeader = -1\<rparr>"

definition UpdateBeTheLeaderReply :: "BeTheLeaderReply \<Rightarrow> BeTheLeaderReply" where
  "UpdateBeTheLeaderReply r =
     (let r = (if btl_Leader r = -2 then r\<lparr>btl_Leader := 0\<rparr> else r)
      in if btl_NextLeader r = -2 then r\<lparr>btl_NextLeader := 0\<rparr> else r)"

definition IsDefault :: "BeTheLeaderReply \<Rightarrow> bool" where
  "IsDefault r \<longleftrightarrow> btl_Leader r = -1 \<and> btl_NextLeader r = -1"

subsection \<open>Encoding\<close>

definition PingArgs_Marshal :: "byte \<Rightarrow> byte list" where
  "PingArgs_Marshal t = [t]"

definition PingArgs_Unmarshal :: "byte \<Rightarrow> byte list \<Rightarrow> byte outcome" where
  "PingArgs_Unmarshal t s = with_bytes 1 t s (\<lambda>bs r. Ok (bs ! 0) r)"

definition BeTheLeaderReply_Marshal :: "BeTheLeaderReply \<Rightarrow> byte list" where
  "BeTheLeaderReply_Marshal t = put32 (btl_Leader t) @ put32 (btl_NextLeader t)"

definition BeTheLeaderReply_Unmarshal ::
    "BeTheLeaderReply \<Rightarrow> byte list \<Rightarrow> BeTheLeaderReply outcome" where
  "BeTheLeaderReply_Unmarshal t s =
     with_bytes 8 t s (\<lambda>bs r. Ok (t\<lparr>btl_Leader := get32 bs, btl_NextLeader := get32 (drop 4 bs)\<rparr>) r)"

definition Propose_Marshal :: "Propose \<Rightarrow> byte list" where
  "Propose_Marshal t =
     (put32 (p_CommandId t) @ put32 (p_ClientId t)) @ Command_Marshal (p_Command t) @
     put64 (p_Timestamp t)"

definition Propose_Unmarshal :: "Propose \<Rightarrow> byte list \<Rightarrow> Propose outcome" where
  "Propose_Unmarshal t s =
     with_bytes 8 t s (\<lambda>bs r.
       let t = t\<lparr>p_CommandId := get32 bs, p_ClientId := get32 (drop 4 bs)\<rparr>
       in regardless (\<lambda>x. t\<lparr>p_Command := x\<rparr>) (Command_Unmarshal (p_Command t) r) (\<lambda>t r.
          with_bytes 8 t r (\<lambda>bs r. Ok (t\<lparr>p_Timestamp := get64 bs\<rparr>) r)))"

definition ProposeReplyTS_Marshal :: "ProposeReplyTS \<Rightarrow> byte list" where
  "ProposeReplyTS_Marshal t =
     ([OK t] @ put32 (CommandId t)) @ Value_Marshal (Value t) @ put64 (Timestamp t) @
     (put32 (LeaderId t) @ put32 (LogIndex t))"

definition ProposeReplyTS_Unmarshal :: "ProposeReplyTS \<Rightarrow> byte list \<Rightarrow> ProposeReplyTS outcome" where
  "ProposeReplyTS_Unmarshal t s =
     with_bytes 5 t s (\<lambda>bs r.
       let t = t\<lparr>OK := bs ! 0, CommandId := get32 (drop 1 bs)\<rparr>
       in regardless (\<lambda>x. t\<lparr>Value := x\<rparr>) (Value_Unmarshal (Value t) r) (\<lambda>t r.
          with_bytes 8 t r (\<lambda>bs r.
            let t = t\<lparr>Timestamp := get64 bs\<rparr>
            in with_bytes 8 t r (\<lambda>bs r.
                 Ok (t\<lparr>LeaderId := get32 bs, LogIndex := get32 (drop 4 bs)\<rparr>) r))))"

definition Read_Marshal :: "Read \<Rightarrow> byte list" where
  "Read_Marshal t = put32 (rd_CommandId t) @ Key_Marshal (rd_Key t)"

definition Read_Unmarshal :: "Read \<Rightarrow> byte list \<Rightarrow> Read outcome" where
  "Read_Unmarshal t s =
     with_bytes 4 t s (\<lambda>bs r.
       let t = t\<lparr>rd_CommandId := get32 bs\<rparr>
       in regardless (\<lambda>x. t\<lparr>rd_Key := x\<rparr>) (Key_Unmarshal (rd_Key t) r) Ok)"

definition ProposeAndRead_Marshal :: "ProposeAndRead \<Rightarrow> byte list" where
  "ProposeAndRead_Marshal t =
     put32 (par_CommandId t) @ Command_Marshal (par_Command t) @ Key_Marshal (par_Key t)"

definition ProposeAndRead_Unmarshal :: "ProposeAndRead \<Rightarrow> byte list \<Rightarrow> ProposeAndRead outcome" where
  "ProposeAndRead_Unmarshal t s =
     with_bytes 4 t s (\<lambda>bs r.
       let t = t\<lparr>par_CommandId := get32 bs\<rparr>
       in regardless (\<lambda>x. t\<lparr>par_Command := x\<rparr>) (Command_Unmarshal (par_Command t) r) (\<lambda>t r.
          regardless (\<lambda>x. t\<lparr>par_Key := x\<rparr>) (Key_Unmarshal (par_Key t) r) Ok))"

definition BeaconReply_Marshal :: "int \<Rightarrow> byte list" where
  "BeaconReply_Marshal t = put64 t"

definition BeaconReply_Unmarshal :: "int \<Rightarrow> byte list \<Rightarrow> int outcome" where
  "BeaconReply_Unmarshal t s = with_bytes 8 t s (\<lambda>bs r. Ok (get64 bs) r)"

definition ProposeReply_Marshal :: "ProposeReply \<Rightarrow> byte list" where
  "ProposeReply_Marshal t = [pr_OK t] @ put32 (pr_CommandId t)"

definition ProposeReply_Unmarshal :: "ProposeReply \<Rightarrow> byte list \<Rightarrow> ProposeReply outcome" where
  "ProposeReply_Unmarshal t s =
     with_bytes 5 t s (\<lambda>bs r. Ok (t\<lparr>pr_OK := bs ! 0, pr_CommandId := get32 (drop 1 bs)\<rparr>) r)"

definition ReadReply_Marshal :: "ReadReply \<Rightarrow> byte list" where
  "ReadReply_Marshal t = put32 (rdr_CommandId t) @ Value_Marshal (rdr_Value t)"

definition ReadReply_Unmarshal :: "ReadReply \<Rightarrow> byte list \<Rightarrow> ReadReply outcome" where
  "ReadReply_Unmarshal t s =
     with_bytes 4 t s (\<lambda>bs r.
       let t = t\<lparr>rdr_CommandId := get32 bs\<rparr>
       in regardless (\<lambda>x. t\<lparr>rdr_Value := x\<rparr>) (Value_Unmarshal (rdr_Value t) r) Ok)"

definition ProposeAndReadReply_Marshal :: "ProposeAndReadReply \<Rightarrow> byte list" where
  "ProposeAndReadReply_Marshal t =
     ([parr_OK t] @ put32 (parr_CommandId t)) @ Value_Marshal (parr_Value t)"

definition ProposeAndReadReply_Unmarshal ::
    "ProposeAndReadReply \<Rightarrow> byte list \<Rightarrow> ProposeAndReadReply outcome" where
  "ProposeAndReadReply_Unmarshal t s =
     with_bytes 5 t s (\<lambda>bs r.
       let t = t\<lparr>parr_OK := bs ! 0, parr_CommandId := get32 (drop 1 bs)\<rparr>
       in regardless (\<lambda>x. t\<lparr>parr_Value := x\<rparr>) (Value_Unmarshal (parr_Value t) r) Ok)"

definition Beacon_Marshal :: "int \<Rightarrow> byte list" where
  "Beacon_Marshal t = put64 t"

definition Beacon_Unmarshal :: "int \<Rightarrow> byte list \<Rightarrow> int outcome" where
  "Beacon_Unmarshal t s = with_bytes 8 t s (\<lambda>bs r. Ok (get64 bs) r)"

subsection \<open>The codecs\<close>

definition wf_Propose :: "Propose \<Rightarrow> bool" where
  "wf_Propose t \<longleftrightarrow> is_i32 (p_CommandId t) \<and> is_i32 (p_ClientId t) \<and> wf_command (p_Command t) \<and>
     is_i64 (p_Timestamp t)"

definition wf_ProposeReplyTS :: "ProposeReplyTS \<Rightarrow> bool" where
  "wf_ProposeReplyTS t \<longleftrightarrow> is_i32 (CommandId t) \<and> wf_value (Value t) \<and> is_i64 (Timestamp t) \<and>
     is_i32 (LeaderId t) \<and> is_i32 (LogIndex t)"

definition wf_Read :: "Read \<Rightarrow> bool" where
  "wf_Read t \<longleftrightarrow> is_i32 (rd_CommandId t) \<and> is_i64 (rd_Key t)"

definition wf_ReadReply :: "ReadReply \<Rightarrow> bool" where
  "wf_ReadReply t \<longleftrightarrow> is_i32 (rdr_CommandId t) \<and> wf_value (rdr_Value t)"

definition wf_ProposeAndRead :: "ProposeAndRead \<Rightarrow> bool" where
  "wf_ProposeAndRead t \<longleftrightarrow> is_i32 (par_CommandId t) \<and> wf_command (par_Command t) \<and> is_i64 (par_Key t)"

definition wf_ProposeAndReadReply :: "ProposeAndReadReply \<Rightarrow> bool" where
  "wf_ProposeAndReadReply t \<longleftrightarrow> is_i32 (parr_CommandId t) \<and> wf_value (parr_Value t)"

interpretation ping_codec: strict_codec PingArgs_Marshal PingArgs_Unmarshal "\<lambda>_. True"
  by unfold_locales
    (auto simp: PingArgs_Marshal_def PingArgs_Unmarshal_def with_bytes_def io_ReadFull_def
      strict_prefix_def prefix_Cons)

interpretation beacon_codec: strict_codec Beacon_Marshal Beacon_Unmarshal is_i64
  by unfold_locales (simp_all add: Beacon_Marshal_def Beacon_Unmarshal_def with_bytes_truncated_end)

interpretation beacon_reply_codec: strict_codec BeaconReply_Marshal BeaconReply_Unmarshal is_i64
  by unfold_locales
    (simp_all add: BeaconReply_Marshal_def BeaconReply_Unmarshal_def with_bytes_truncated_end)

interpretation btl_codec: strict_codec BeTheLeaderReply_Marshal BeTheLeaderReply_Unmarshal
  "\<lambda>t. is_i32 (btl_Leader t) \<and> is_i32 (btl_NextLeader t)"
proof
  fix x t :: BeTheLeaderReply and p s :: "byte list"
  assume wf: "is_i32 (btl_Leader x) \<and> is_i32 (btl_NextLeader x)"
  show "BeTheLeaderReply_Unmarshal t (BeTheLeaderReply_Marshal x @ s) = Ok x s"
    using wf unfolding BeTheLeaderReply_Unmarshal_def
    by (subst with_bytes_append) (simp_all add: BeTheLeaderReply_Marshal_def)
  show "strict_prefix p (BeTheLeaderReply_Marshal x) \<Longrightarrow> is_fail (BeTheLeaderReply_Unmarshal t p)"
    unfolding BeTheLeaderReply_Unmarshal_def
    by (erule with_bytes_truncated_end) (simp add: BeTheLeaderReply_Marshal_def)
qed

interpretation propose_reply_codec: strict_codec ProposeReply_Marshal ProposeReply_Unmarshal
  "\<lambda>t. is_i32 (pr_CommandId t)"
proof
  fix x t :: ProposeReply and p s :: "byte list"
  assume wf: "is_i32 (pr_CommandId x)"
  show "ProposeReply_Unmarshal t (ProposeReply_Marshal x @ s) = Ok x s"
    using wf unfolding ProposeReply_Unmarshal_def
    by (subst with_bytes_append) (simp_all add: ProposeReply_Marshal_def)
  show "strict_prefix p (ProposeReply_Marshal x) \<Longrightarrow> is_fail (ProposeReply_Unmarshal t p)"
    unfolding ProposeReply_Unmarshal_def
    by (erule with_bytes_truncated_end) (simp add: ProposeReply_Marshal_def)
qed

text \<open>A nested value whose stream ends early leaves nothing to read, so that a later read fails
  even where the error itself is dropped.\<close>

fun drained :: "'a outcome \<Rightarrow> bool" where
  "drained (Fail _ _ r) = (r = [])"
| "drained _ = True"

lemma drained_with_bytes: "(\<And>b r. drained (k b r)) \<Longrightarrow> drained (with_bytes n t s k)"
  by (simp add: with_bytes_def io_ReadFull_def)

lemma drained_and_then: "drained m \<Longrightarrow> (\<And>x r. drained (k x r)) \<Longrightarrow> drained (and_then upd m k)"
  by (cases m) simp_all

lemma drained_Value: "drained (Value_Unmarshal t s)"
  unfolding Value_Unmarshal_def by (intro drained_with_bytes) simp

lemma drained_Command: "drained (Command_Unmarshal t s)"
  unfolding Command_Unmarshal_def Operation_Unmarshal_def Key_Unmarshal_def
  by (intro drained_and_then drained_with_bytes drained_Value) simp_all

lemma is_fail_regardless:
  assumes "is_fail m" and "drained m" and "\<And>x. is_fail (k x [])"
  shows "is_fail (regardless upd m k)"
  using assms by (cases m) simp_all

context strict_codec
begin

lemma regardless_truncated:
  assumes "strict_prefix p (marshal x @ b)" and "wf x"
    and "drained (unmarshal t p)" and "\<And>y. is_fail (k y [])"
    and "\<And>q. strict_prefix q b \<Longrightarrow> is_fail (k (upd x) q)"
  shows "is_fail (regardless upd (unmarshal t p) k)"
  using strict_prefix_appendD [OF assms(1)]
proof (elim disjE exE conjE)
  assume "strict_prefix p (marshal x)"
  with truncated assms(2-4) show ?thesis by (intro is_fail_regardless)
next
  fix q
  assume "p = marshal x @ q" "strict_prefix q b"
  with assms(2,5) show ?thesis by (simp add: roundtrip)
qed

end

lemma with_bytes_empty: "0 < n \<Longrightarrow> is_fail (with_bytes n t [] k)"
  by (simp add: with_bytes_short)

interpretation propose_codec: strict_codec Propose_Marshal Propose_Unmarshal wf_Propose
proof
  fix x t :: Propose and p s :: "byte list"
  assume wf: "wf_Propose x"
  show "Propose_Unmarshal t (Propose_Marshal x @ s) = Ok x s"
    using wf unfolding Propose_Unmarshal_def Propose_Marshal_def append_assoc [of _ _ s]
    by (subst with_bytes_append) (simp_all add: wf_Propose_def command_codec.roundtrip)
  assume p: "strict_prefix p (Propose_Marshal x)"
  show "is_fail (Propose_Unmarshal t p)"
    using p unfolding Propose_Marshal_def Propose_Unmarshal_def Let_def
    by (rule with_bytes_truncated, simp)
      (erule command_codec.regardless_truncated,
        use wf in \<open>auto simp: wf_Propose_def drained_Command with_bytes_empty
          intro: with_bytes_truncated_end\<close>)
qed

interpretation propose_reply_ts_codec:
  strict_codec ProposeReplyTS_Marshal ProposeReplyTS_Unmarshal wf_ProposeReplyTS
proof
  fix x t :: ProposeReplyTS and p s :: "byte list"
  assume wf: "wf_ProposeReplyTS x"
  have tl: "with_bytes 8 t (put32 a @ put32 b @ s) k = k (put32 a @ put32 b) s"
    for a b and t :: ProposeReplyTS and k
    using with_bytes_append [of "put32 a @ put32 b" 8 t s k] by simp
  show "ProposeReplyTS_Unmarshal t (ProposeReplyTS_Marshal x @ s) = Ok x s"
    using wf unfolding ProposeReplyTS_Unmarshal_def ProposeReplyTS_Marshal_def append_assoc [of _ _ s]
    by (subst with_bytes_append) (simp_all add: wf_ProposeReplyTS_def value_codec.roundtrip tl)
  assume p: "strict_prefix p (ProposeReplyTS_Marshal x)"
  show "is_fail (ProposeReplyTS_Unmarshal t p)"
    using p unfolding ProposeReplyTS_Marshal_def ProposeReplyTS_Unmarshal_def Let_def
    by (rule with_bytes_truncated, simp)
      (erule value_codec.regardless_truncated,
        use wf in \<open>simp add: wf_ProposeReplyTS_def\<close>, rule drained_Value, simp add: with_bytes_empty,
        erule with_bytes_truncated, simp, erule with_bytes_truncated_end, simp)
qed

interpretation read_codec: codec Read_Marshal Read_Unmarshal wf_Read
  by unfold_locales
    (simp add: Read_Unmarshal_def Read_Marshal_def wf_Read_def key_codec.roundtrip)

interpretation read_reply_codec: codec ReadReply_Marshal ReadReply_Unmarshal wf_ReadReply
  by unfold_locales
    (simp add: ReadReply_Unmarshal_def ReadReply_Marshal_def wf_ReadReply_def value_codec.roundtrip)

interpretation propose_and_read_codec:
  codec ProposeAndRead_Marshal ProposeAndRead_Unmarshal wf_ProposeAndRead
  by unfold_locales
    (simp add: ProposeAndRead_Unmarshal_def ProposeAndRead_Marshal_def wf_ProposeAndRead_def
      command_codec.roundtrip key_codec.roundtrip)

interpretation propose_and_read_reply_codec:
  codec ProposeAndReadReply_Marshal ProposeAndReadReply_Unmarshal wf_ProposeAndReadReply
proof
  fix x t :: ProposeAndReadReply and s :: "byte list"
  assume wf: "wf_ProposeAndReadReply x"
  then show "ProposeAndReadReply_Unmarshal t (ProposeAndReadReply_Marshal x @ s) = Ok x s"
    unfolding ProposeAndReadReply_Unmarshal_def ProposeAndReadReply_Marshal_def append_assoc [of _ _ s]
    by (subst with_bytes_append) (simp_all add: wf_ProposeAndReadReply_def value_codec.roundtrip)
qed

subsection \<open>Properties\<close>

text \<open>A client's proposal and a replica's answer survive the wire: decoding gives the message
  back and leaves the rest of the stream, and although the generated code drops the error of the
  nested command or value, a stream cut off anywhere inside the message is reported.\<close>

theorem propose_and_reply_wire:
  assumes "wf_Propose p" and "wf_ProposeReplyTS a"
  shows "Propose_Unmarshal t (Propose_Marshal p @ s) = Ok p s \<and>
    ProposeReplyTS_Unmarshal u (ProposeReplyTS_Marshal a @ s) = Ok a s \<and>
    (strict_prefix b (Propose_Marshal p) \<longrightarrow> is_fail (Propose_Unmarshal t b)) \<and>
    (strict_prefix b (ProposeReplyTS_Marshal a) \<longrightarrow> is_fail (ProposeReplyTS_Unmarshal u b))"
  using assms propose_codec.roundtrip propose_codec.truncated propose_reply_ts_codec.roundtrip
    propose_reply_ts_codec.truncated by blast

theorem propose_and_reply_wire_witness:
  "let p = \<lparr>p_CommandId = 7, p_ClientId = 3, p_Command = zero_command, p_Timestamp = -1\<rparr>;
       a = \<lparr>OK = TRUE, CommandId = 7, Value = [4, 5], Timestamp = -1, LeaderId = -1, LogIndex = 0\<rparr>
   in Propose_Unmarshal p (Propose_Marshal p @ [1]) = Ok p [1] \<and>
      ProposeReplyTS_Unmarshal a (ProposeReplyTS_Marshal a @ [1]) = Ok a [1] \<and>
      is_fail (Propose_Unmarshal p []) \<and> is_fail (ProposeReplyTS_Unmarshal a [])"
proof -
  let ?p = "\<lparr>p_CommandId = 7, p_ClientId = 3, p_Command = zero_command, p_Timestamp = -1\<rparr>"
  let ?a = "\<lparr>OK = TRUE, CommandId = 7, Value = [4, 5], Timestamp = -1, LeaderId = -1, LogIndex = 0\<rparr>"
  have wf: "wf_Propose ?p" "wf_ProposeReplyTS ?a"
    by (simp_all add: wf_Propose_def wf_ProposeReplyTS_def wf_command_def wf_value_def
        zero_command_def is_i32_def is_i64_def)
  have ne: "Propose_Marshal ?p \<noteq> []" "ProposeReplyTS_Marshal ?a \<noteq> []"
    by (simp_all add: Propose_Marshal_def ProposeReplyTS_Marshal_def put32_def numeral_eq_Suc)
  show ?thesis
    using propose_and_reply_wire [OF wf, of ?p "[1]" ?a "[]"] ne by (simp add: strict_prefix_def)
qed

end
