(* ===== verification/Latency.thy ===== *)
theory Latency
  imports Defs
begin

section \<open>Emulated latency\<close>

text \<open>
  \<open>src/replica/defs/latency.go\<close>: the lookups of the latency table and the channel that delays
  proposals.

  \<^item> \<open>DelayProposeChan\<close> keeps the proposals that wait in a binary search tree of mutable nodes,
    \<open>bstNode\<close>, ordered by command id. \<open>inorderReady\<close> changes nodes in place and returns a pointer, so
    its model returns both the node it was called on, as it is left in the tree, and the node it
    returns.
  \<^item> Proposals leave the channel in the order of their ids whatever happens. When they are written in
    that order, as over one connection, all of them leave it once their delay is over. When they are
    not, one can stay in the tree for ever: the new root of a left subtree is not stored.
\<close>

subsection \<open>The latency table\<close>

record LatencyTable =
  ti :: "int \<rightharpoonup> int"
  tn :: "string \<rightharpoonup> int"
  lt_d :: int
  myAddr :: string
  myId :: int

text \<open>\<open>strings.Split(addr, ":")[0]\<close>.\<close>

definition host_of :: "string \<Rightarrow> string" where
  "host_of addr = takeWhile (\<lambda>c. c \<noteq> CHR '':'') addr"

definition WaitDuration :: "LatencyTable option \<Rightarrow> string \<Rightarrow> int" where
  "WaitDuration dt addr =
     (case dt of
        None \<Rightarrow> 0
      | Some dt \<Rightarrow>
          let addr = host_of addr
          in if addr = myAddr dt then 0
             else case tn dt addr of Some d \<Rightarrow> d | None \<Rightarrow> lt_d dt)"

definition WaitDurationID :: "LatencyTable option \<Rightarrow> int \<Rightarrow> int" where
  "WaitDurationID dt i =
     (case dt of
        None \<Rightarrow> 0
      | Some dt \<Rightarrow>
          if i = myId dt then 0
          else case ti dt i of Some d \<Rightarrow> d | None \<Rightarrow> lt_d dt)"

subsection \<open>The tree of waiting proposals\<close>

abbreviation cid :: "GPropose \<Rightarrow> int" where
  "cid p \<equiv> p_CommandId (Propose p)"

datatype bstNode = Nil_Node | Node GPropose (left: bstNode) (right: bstNode) bool

fun insert_node :: "bstNode \<Rightarrow> GPropose \<Rightarrow> bstNode" where
  "insert_node Nil_Node p = Node p Nil_Node Nil_Node False"
| "insert_node (Node q l r b) p =
     (if cid p < cid q then Node q (insert_node l p) r b
      else if cid q < cid p then Node q l (insert_node r p) b
      else Node q l r b)"

fun find_node :: "bstNode \<Rightarrow> int \<Rightarrow> bstNode" where
  "find_node Nil_Node i = Nil_Node"
| "find_node (Node q l r b) i =
     (if cid q = i then Node q l r b
      else if cid q < i then find_node r i else find_node l i)"

text \<open>\<open>n.ready = true\<close> on the node that \<open>find\<close> returns.\<close>

fun set_ready :: "bstNode \<Rightarrow> int \<Rightarrow> bstNode" where
  "set_ready Nil_Node i = Nil_Node"
| "set_ready (Node q l r b) i =
     (if cid q = i then Node q l r True
      else if cid q < i then Node q l (set_ready r i) b else Node q (set_ready l i) r b)"

text \<open>The node the method was called on after the call, the node it returns, the id it returns and
  the proposals it handled.\<close>

fun inorderReady :: "bstNode \<Rightarrow> int \<Rightarrow> bstNode \<times> bstNode \<times> int \<times> GPropose list" where
  "inorderReady Nil_Node m = (Nil_Node, Nil_Node, m, [])"
| "inorderReady (Node p l r b) m =
     (let (l1, lret, i, hs) = inorderReady l m;
          l' = (if lret = Nil_Node then Nil_Node else l1)
      in if \<not> b \<or> i \<noteq> i32 (cid p - 1) then (Node p l' r b, Node p l' r b, i, hs)
         else let (r1, rret, j, hs') = inorderReady r (i32 (i + 1))
              in (Node p l' r1 b, rret, j, hs @ p # hs'))"

datatype logCall = LOG_INSERT GPropose | LOG_HANDLE GPropose

text \<open>One round of the goroutine of \<open>NewDelayProposeChan\<close>, with the proposals it puts into \<open>pChan\<close>.\<close>

fun log_call :: "logCall \<Rightarrow> bstNode \<times> int \<Rightarrow> (bstNode \<times> int) \<times> GPropose list" where
  "log_call (LOG_INSERT p) (lg, m) = ((insert_node lg p, m), [])"
| "log_call (LOG_HANDLE p) (lg, m) =
     (let lg = (if find_node lg (cid p) = Nil_Node then insert_node lg p else lg);
          lg = set_ready lg (cid p);
          (_, lg', m', hs) = inorderReady lg m
      in ((lg', m'), hs))"

fun log_calls :: "logCall list \<Rightarrow> bstNode \<times> int \<Rightarrow> GPropose list" where
  "log_calls [] st = []"
| "log_calls (a # as) st = (let (st', hs) = log_call a st in hs @ log_calls as st')"

definition NewDelayProposeChan :: "bstNode \<times> int" where
  "NewDelayProposeChan = (Nil_Node, -1)"

text \<open>The calls that writing the proposals \<open>ws\<close> one after the other leads to, while the goroutines of
  the proposals \<open>sl\<close> sleep: \<open>Write\<close> sends the insertion, and a goroutine sends the second call later.
  Without a delay \<open>Write\<close> hands the proposal on at once.\<close>

fun writes :: "GPropose list \<Rightarrow> GPropose list \<Rightarrow> logCall list \<Rightarrow> bool" where
  "writes ws sl [] \<longleftrightarrow> ws = [] \<and> sl = []"
| "writes ws sl (LOG_INSERT p # as) \<longleftrightarrow> ws \<noteq> [] \<and> hd ws = p \<and> writes (tl ws) (p # sl) as"
| "writes ws sl (LOG_HANDLE p # as) \<longleftrightarrow> p \<in> set sl \<and> writes ws (remove1 p sl) as"

subsection \<open>Order\<close>

lemma upto_join: "a \<le> b + 1 \<Longrightarrow> b \<le> c \<Longrightarrow> [a..b] @ [b + 1..c] = [a..c]" for a b c :: int
  by (metis add.commute upto_split1 upto_split2 upto_split3 add_le_cancel_right append_self_conv2 linorder_not_less upto_empty zle_add1_eq_le zless_add1_eq)

fun inorder :: "bstNode \<Rightarrow> GPropose list" where
  "inorder Nil_Node = []"
| "inorder (Node p l r b) = inorder l @ p # inorder r"

definition ids_ok :: "GPropose set \<Rightarrow> bool" where
  "ids_ok ps \<longleftrightarrow> (\<forall>p \<in> ps. is_i32 (cid p) \<and> - 2147483648 < cid p)"

lemma inorderReady_ids:
  "inorderReady t m = (t', ret, j, hs) \<Longrightarrow> ids_ok (set (inorder t)) \<Longrightarrow>
     m \<le> j \<and> map cid hs = [m + 1..j] \<and> set (inorder t') \<subseteq> set (inorder t) \<and>
     set (inorder ret) \<subseteq> set (inorder t)"
proof (induction t arbitrary: m t' ret j hs)
  case (Node p l r b)
  obtain l1 lret i hs1 where l: "inorderReady l m = (l1, lret, i, hs1)" by (cases "inorderReady l m")
  have ok: "ids_ok (set (inorder l))" "ids_ok (set (inorder r))" "is_i32 (cid p)" "- 2147483648 < cid p"
    using Node.prems(2) by (auto simp: ids_ok_def)
  note IHl = Node.IH(1) [OF l ok(1)]
  have e: "i32 (cid p - 1) = cid p - 1" using ok(3,4) by (simp add: is_i32_def)
  show ?case
  proof (cases "\<not> b \<or> i \<noteq> cid p - 1")
    case True
    with Node.prems(1) l e IHl show ?thesis by (auto split: if_splits)
  next
    case False
    obtain r1 rret j' hs2 where r: "inorderReady r (cid p) = (r1, rret, j', hs2)" by (cases "inorderReady r (cid p)")
    have i: "i32 (i + 1) = cid p" using False ok(3) by simp
    have out: "t' = Node p (if lret = Nil_Node then Nil_Node else l1) r1 b" "ret = rret" "j = j'" "hs = hs1 @ p # hs2"
      using Node.prems(1) l e False i r by (auto simp: split_def)
    note IHr = Node.IH(2) [OF r ok(2)]
    have "map cid hs = [m + 1..i] @ [i + 1..j]"
      using IHl IHr False upto_rec1 [of "i + 1" j] by (simp add: out(3,4))
    also have "\<dots> = [m + 1..j]" using IHl IHr False out(3) by (intro upto_join) simp_all
    finally show ?thesis using IHl IHr False by (auto simp: out(1-3) split: if_splits)
  qed
qed simp

lemma inorder_insert: "set (inorder (insert_node t p)) \<subseteq> Set.insert p (set (inorder t))"
  by (induction t) auto

lemma inorder_set_ready [simp]: "inorder (set_ready t i) = inorder t"
  by (induction t) auto

fun call_arg :: "logCall \<Rightarrow> GPropose" where
  "call_arg (LOG_INSERT p) = p"
| "call_arg (LOG_HANDLE p) = p"

lemma log_call_ids:
  assumes "log_call a (lg, m) = ((lg', m'), hs)" and "ids_ok (Set.insert (call_arg a) (set (inorder lg)))"
  shows "m \<le> m' \<and> map cid hs = [m + 1..m'] \<and> set (inorder lg') \<subseteq> Set.insert (call_arg a) (set (inorder lg))"
proof (cases a)
  case (LOG_INSERT p)
  with assms inorder_insert [of lg p] show ?thesis by auto
next
  case (LOG_HANDLE p)
  define t where "t = set_ready (if find_node lg (cid p) = Nil_Node then insert_node lg p else lg) (cid p)"
  obtain t' where r: "inorderReady t m = (t', lg', m', hs)"
    using assms(1) LOG_HANDLE by (auto simp: t_def Let_def split: prod.splits)
  have sub: "set (inorder t) \<subseteq> Set.insert p (set (inorder lg))"
    using inorder_insert [of lg p] by (auto simp: t_def)
  then have "ids_ok (set (inorder t))" using assms(2) LOG_HANDLE by (auto simp: ids_ok_def)
  from inorderReady_ids [OF r this] sub LOG_HANDLE show ?thesis by auto
qed

lemma log_calls_ids:
  "ids_ok (set (inorder lg) \<union> call_arg ` set as) \<Longrightarrow>
     \<exists>j \<ge> m. map cid (log_calls as (lg, m)) = [m + 1..j]"
proof (induction as arbitrary: lg m)
  case (Cons a as)
  obtain lg' m' hs where a: "log_call a (lg, m) = ((lg', m'), hs)" by (metis surj_pair)
  have "ids_ok (Set.insert (call_arg a) (set (inorder lg)))" using Cons.prems by (auto simp: ids_ok_def)
  note 1 = log_call_ids [OF a this]
  then have "ids_ok (set (inorder lg') \<union> call_arg ` set as)" using Cons.prems by (auto simp: ids_ok_def)
  from Cons.IH [OF this, of m'] obtain j where "m' \<le> j" "map cid (log_calls as (lg', m')) = [m' + 1..j]" by blast
  with 1 a upto_join [of "m + 1" m' j] show ?case by (intro exI [of _ j]) simp
qed auto

subsection \<open>Delivery\<close>

text \<open>A tree whose nodes have no left child, as insertions in increasing order build it.\<close>

fun spine :: "(GPropose \<times> bool) list \<Rightarrow> bstNode" where
  "spine [] = Nil_Node"
| "spine ((p, b) # xs) = Node p Nil_Node (spine xs) b"

lemma insert_spine: "\<forall>x \<in> set xs. cid (fst x) < cid p \<Longrightarrow> insert_node (spine xs) p = spine (xs @ [(p, False)])"
  by (induction xs rule: spine.induct) auto

lemma find_spine:
  "sorted_wrt (<) (map (cid \<circ> fst) xs) \<Longrightarrow> x \<in> set xs \<Longrightarrow> find_node (spine xs) (cid (fst x)) \<noteq> Nil_Node"
  by (induction xs rule: spine.induct) auto

lemma set_ready_spine:
  "sorted_wrt (<) (map (cid \<circ> fst) xs) \<Longrightarrow> x \<in> set xs \<Longrightarrow>
     set_ready (spine xs) (cid (fst x)) = spine (map (\<lambda>(q, b). (q, b \<or> cid q = cid (fst x))) xs)"
proof (induction xs rule: spine.induct)
  case (2 p b xs)
  show ?case
  proof (cases "cid p = cid (fst x)")
    case True
    then have "map (\<lambda>(q, b). (q, b \<or> cid q = cid (fst x))) xs = xs"
      using 2(2) by (intro map_idI) auto
    with True show ?thesis by simp
  next
    case False
    with 2(3) have "x \<in> set xs" by auto
    with 2 False show ?thesis by auto
  qed
qed simp

lemma inorderReady_spine:
  "map (cid \<circ> fst) xs = [m + 1..m + int (length xs)] \<Longrightarrow> - 1 \<le> m \<Longrightarrow> m + int (length xs) < 2147483648 \<Longrightarrow>
     \<exists>t'. inorderReady (spine xs) m =
       (t', spine (dropWhile snd xs), m + int (length (takeWhile snd xs)), map fst (takeWhile snd xs))"
proof (induction xs arbitrary: m rule: spine.induct)
  case (2 p b xs)
  have "[m + 1..m + int (length ((p, b) # xs))] = (m + 1) # [m + 2..m + int (length ((p, b) # xs))]"
    by (subst upto_rec1) (simp_all add: add.commute)
  with 2(2) have c: "cid p = m + 1" "map (cid \<circ> fst) xs = [(m + 1) + 1..(m + 1) + int (length xs)]"
    by (simp_all add: algebra_simps comp_def)
  have e: "i32 (cid p - 1) = m" "i32 (m + 1) = m + 1" using c(1) 2(3,4) by (simp_all add: is_i32_def)
  have "- 1 \<le> m + 1" "(m + 1) + int (length xs) < 2147483648" using 2(3,4) by simp_all
  from 2(1) [OF c(2) this] obtain t' where "inorderReady (spine xs) (m + 1) =
     (t', spine (dropWhile snd xs), m + 1 + int (length (takeWhile snd xs)), map fst (takeWhile snd xs))" ..
  with e c show ?case by (auto simp: split_def)
qed simp

lemma spine_step:
  assumes ids: "map (cid \<circ> fst) xs = [m + 1..m + int (length xs)]" and b: "- 1 \<le> m" "m + int (length xs) < 2147483648"
    and x: "x \<in> set xs" and e: "ys = map (\<lambda>(q, b). (q, b \<or> cid q = cid (fst x))) xs"
  shows "log_call (LOG_HANDLE (fst x)) (spine xs, m) =
    ((spine (dropWhile snd ys), m + int (length (takeWhile snd ys))), map fst (takeWhile snd ys))"
proof -
  have s: "sorted_wrt (<) (map (cid \<circ> fst) xs)" unfolding ids by simp
  have fst_ys: "map (cid \<circ> fst) ys = map (cid \<circ> fst) xs" "length ys = length xs"
    unfolding e by (simp_all add: comp_def split_def)
  obtain t' where "inorderReady (spine ys) m =
      (t', spine (dropWhile snd ys), m + int (length (takeWhile snd ys)), map fst (takeWhile snd ys))"
    using inorderReady_spine [of ys m] fst_ys ids b by auto
  with find_spine [OF s x] set_ready_spine [OF s x] show ?thesis by (simp add: e)
qed

text \<open>What the goroutine has when proposals are written in the order of their ids: \<open>xs\<close> wait, with
  their ready flags, \<open>ws\<close> are not written yet.\<close>

lemma writes_delivered:
  assumes "writes ws sl as" and "map cid (map fst xs @ ws) = [m + 1..m + int (length xs + length ws)]"
    and "- 1 \<le> m" "m + int (length xs + length ws) < 2147483648"
    and "set sl = {p. (p, False) \<in> set xs}" and "distinct sl" and "xs = [] \<or> \<not> snd (hd xs)"
  shows "log_calls as (spine xs, m) = map fst xs @ ws"
  using assms
proof (induction ws sl as arbitrary: xs m rule: writes.induct)
  case (1 ws sl)
  then have "(p, False) \<notin> set xs" for p by auto
  then have "\<forall>x \<in> set xs. snd x" by (metis (full_types) prod.collapse)
  with 1(7) have "xs = []" by (cases xs) auto
  with 1(1) show ?case by simp
next
  case (2 ws sl p as)
  obtain ws' where ws: "ws = p # ws'" using 2(2) by (cases ws) auto
  let ?xs = "xs @ [(p, False)]"
  have s: "sorted_wrt (<) (map cid (map fst xs @ ws))" unfolding 2(3) by simp
  then have lt: "\<forall>x \<in> set xs. cid (fst x) < cid p" by (simp add: ws sorted_wrt_append)
  have "log_calls as (spine ?xs, m) = map fst ?xs @ ws'"
  proof (rule 2(1) [of ?xs m, unfolded ws list.sel])
    show "writes ws' (p # sl) as" using 2(2) ws by simp
    show "set (p # sl) = {q. (q, False) \<in> set ?xs}" using 2(6) by auto
    show "distinct (p # sl)" using 2(6,7) lt by auto
    show "?xs = [] \<or> \<not> snd (hd ?xs)" using 2(8) by (cases xs) auto
  qed (use 2(3-5) ws in \<open>simp_all add: add.assoc\<close>)
  then show ?case using insert_spine [OF lt] by (simp add: ws)
next
  case (3 ws sl p as)
  have w: "p \<in> set sl" "writes ws (remove1 p sl) as" using 3(2) by simp_all
  have x: "(p, False) \<in> set xs" using 3(6) w(1) by auto
  define ys where "ys = map (\<lambda>(q, b). (q, b \<or> cid q = cid p)) xs"
  define k where "k = length (takeWhile snd ys)"
  have ids: "map (cid \<circ> fst) xs = [m + 1..m + int (length xs)]"
  proof -
    have "map (cid \<circ> fst) xs = take (length xs) [m + 1..m + int (length xs + length ws)]"
      unfolding 3(3) [symmetric] by simp
    also have "\<dots> = [m + 1..m + int (length xs)]"
      by (rule nth_equalityI) simp_all
    finally show ?thesis .
  qed
  have fst_ys: "map fst ys = map fst xs" "length ys = length xs" unfolding ys_def by (simp_all add: comp_def split_def)
  have split: "map fst (takeWhile snd ys) @ map fst (dropWhile snd ys) = map fst xs"
    using fst_ys(1) by (simp flip: map_append)
  have call: "log_call (LOG_HANDLE p) (spine xs, m) =
      ((spine (dropWhile snd ys), m + int k), map fst (takeWhile snd ys))"
    using spine_step [OF ids 3(4) _ x, of ys] 3(5) by (simp add: ys_def k_def)
  have len: "k + length (dropWhile snd ys) = length xs"
    unfolding k_def fst_ys(2) [symmetric] by (simp flip: length_append)
  have "log_calls as (spine (dropWhile snd ys), m + int k) = map fst (dropWhile snd ys) @ ws"
  proof (rule "3.IH" [OF w(2)])
    have "map cid (map fst xs @ ws) = map cid (map fst (takeWhile snd ys)) @ map cid (map fst (dropWhile snd ys) @ ws)"
      unfolding split [symmetric] by simp
    then have "map cid (map fst (dropWhile snd ys) @ ws) = drop k [m + 1..m + int (length xs + length ws)]"
      unfolding 3(3) by (simp add: k_def)
    also have "\<dots> = [m + int k + 1..m + int k + int (length (dropWhile snd ys) + length ws)]"
      by (rule nth_equalityI) (use len in \<open>auto simp: algebra_simps\<close>)
    finally show "map cid (map fst (dropWhile snd ys) @ ws) =
        [m + int k + 1..m + int k + int (length (dropWhile snd ys) + length ws)]" .
    show "m + int k + int (length (dropWhile snd ys) + length ws) < 2147483648" using 3(5) len by simp
    show "- 1 \<le> m + int k" using 3(4) by simp
    show "distinct (remove1 p sl)" using 3(7) by simp
    show "dropWhile snd ys = [] \<or> \<not> snd (hd (dropWhile snd ys))" using hd_dropWhile [of snd ys] by blast
    have "distinct (map (cid \<circ> fst) xs)" unfolding ids by simp
    then have inj: "inj_on (cid \<circ> fst) (set xs)" by (simp add: distinct_map)
    have "(q, False) \<in> set (dropWhile snd ys) \<longleftrightarrow> (q, False) \<in> set xs \<and> q \<noteq> p" for q
    proof -
      have "(q, False) \<in> set (dropWhile snd ys) \<longleftrightarrow> (q, False) \<in> set ys"
        using set_takeWhileD [of "(q, False)" snd ys] set_append [of "takeWhile snd ys" "dropWhile snd ys"] by auto
      also have "\<dots> \<longleftrightarrow> (q, False) \<in> set xs \<and> cid q \<noteq> cid p"
        by (force simp: ys_def image_iff split_def)
      also have "\<dots> \<longleftrightarrow> (q, False) \<in> set xs \<and> q \<noteq> p" 
        using inj_onD [OF inj, of "(q, False)" "(p, False)"] x by auto
      finally show ?thesis .
    qed
    with 3(6,7) show "set (remove1 p sl) = {q. (q, False) \<in> set (dropWhile snd ys)}" by auto
  qed
  then show ?case using call split by simp
qed

subsection \<open>Properties\<close>

definition prop_of :: "int \<Rightarrow> GPropose" where
  "prop_of i = \<lparr>Propose = \<lparr>p_CommandId = i, p_ClientId = 0, p_Command = zero_command, p_Timestamp = 0\<rparr>,
     Proxy = False, Addr = []\<rparr>"

text \<open>Proposals leave the delay channel in the order of their ids and each at most once: whatever
  is inserted and whichever delays end, what it has delivered are the proposals 0, 1, 2 up to some
  id.\<close>

theorem delay_chan_in_order:
  assumes "\<forall>a \<in> set as. is_i32 (cid (call_arg a)) \<and> - 2147483648 < cid (call_arg a)"
  shows "\<exists>j \<ge> - 1. map cid (log_calls as NewDelayProposeChan) = [0..j]"
  using log_calls_ids [of Nil_Node as "- 1"] assms by (auto simp: NewDelayProposeChan_def ids_ok_def)

theorem delay_chan_in_order_witness:
  "\<exists>j \<ge> - 1. map cid (log_calls [LOG_INSERT (prop_of 1), LOG_HANDLE (prop_of 0), LOG_HANDLE (prop_of 1)]
     NewDelayProposeChan) = [0..j]"
  by (rule delay_chan_in_order) (simp add: prop_of_def is_i32_def)

text \<open>Proposals written to the delay channel with the consecutive ids 0, 1, 2 and so on, in this order, are all
  delivered once their delays are over, in whatever order the delays end. If an id is missing, nothing
  after it is delivered: the base replica does not use the channel for that reason
  (\<open>replica/replica.go:767\<close>).\<close>

theorem delay_chan_delivers:
  assumes "map cid ws = [0..int (length ws) - 1]" and "length ws < 2147483648" and "writes ws [] as"
  shows "log_calls as NewDelayProposeChan = ws"
proof -
  from writes_delivered [OF assms(3), of "[]" "- 1"] assms(1,2) show ?thesis
    by (simp add: NewDelayProposeChan_def)
qed

theorem delay_chan_delivers_witness:
  "log_calls [LOG_INSERT (prop_of 0), LOG_INSERT (prop_of 1), LOG_HANDLE (prop_of 1), LOG_HANDLE (prop_of 0)]
     NewDelayProposeChan = [prop_of 0, prop_of 1]"
proof -
  have "map cid [prop_of 0, prop_of 1] = [0..int (length [prop_of 0, prop_of 1]) - 1]"
    by (simp add: prop_of_def upto_rec1)
  moreover have "writes [prop_of 0, prop_of 1] [] [LOG_INSERT (prop_of 0), LOG_INSERT (prop_of 1),
      LOG_HANDLE (prop_of 1), LOG_HANDLE (prop_of 0)]" by (simp add: prop_of_def)
  ultimately show ?thesis by (intro delay_chan_delivers) simp_all
qed

text \<open>A proposal can be lost: with the proposals 2, 0 and 1 inserted in this order, proposal 1 is
  not delivered when its delay ends after that of 0, although 0 was, and nothing that follows is
  delivered either.\<close>

theorem delay_chan_loses_proposal:
  "map cid (log_calls [LOG_INSERT (prop_of 2), LOG_INSERT (prop_of 0), LOG_INSERT (prop_of 1),
     LOG_HANDLE (prop_of 0), LOG_HANDLE (prop_of 1), LOG_HANDLE (prop_of 2)] NewDelayProposeChan) = [0]"
  by (simp add: NewDelayProposeChan_def prop_of_def is_i32_def Let_def)

end
