(* ===== verification/Replica.thy ===== *)
theory Replica
  imports Latency Rpc_Table Quorum
begin

section \<open>The base replica\<close>

text \<open>
  What every protocol's replica embeds (\<open>src/replica/replica.go\<close>, \<open>src/replica/sender.go\<close>): the
  connections to peers and clients, the framing of messages, the peers' order of preference, and the
  goroutine that sends on behalf of the event loop.

  \<^item> \<open>base\<close> holds the slices and maps of the struct. A peer's \<open>bufio.Writer\<close> is the list of bytes
    written to it and not flushed, \<open>None\<close> for a nil writer; \<open>wires\<close> are the bytes that went out on
    each connection. (A buffered writer may pass bytes on before it is flushed; they go out in the
    same order.) Mutexes have no counterpart: an operation is one step.
  \<^item> Whether a flush succeeds is an argument: \<open>Flushed\<close>, or \<open>Broken k\<close> when the connection fails after
    \<open>k\<close> bytes.
  \<^item> A client's writer and mutex are named by a number of the connection. Replies to clients are
    returned as a delay, a writer and the bytes.
  \<^item> \<open>replicaListener\<close> and \<open>clientListener\<close> read a stream message by message until it ends or a
    message cannot be read; the message types of a protocol come in through the RPC table.
\<close>

datatype flush = Flushed | Broken nat

type_synonym conn_id = int

record base =
  bN :: nat
  F :: int
  Id :: int
  Writers :: "byte list option list"
  wires :: "byte list list"
  Alive :: "bool list"
  PreferredPeerOrder :: "int list"
  Latencies :: "int list"
  ClientWriters :: "int \<rightharpoonup> conn_id"
  ClientMu :: "int \<Rightarrow> bool"
  ClientFastChan :: "int \<rightharpoonup> (byte \<times> byte list) list"
  ClientAddrs :: "int \<rightharpoonup> string"
  ClientDelay :: "int \<rightharpoonup> int"
  ClientMsgDrops :: int
  Dt :: "LatencyTable option"
  LRead :: bool
  AppState :: kv_state

definition NewReplica :: "int \<Rightarrow> int \<Rightarrow> nat \<Rightarrow> bool \<Rightarrow> LatencyTable option \<Rightarrow> base" where
  "NewReplica i f n lread dt =
     \<lparr>bN = n, F = f, Id = i, Writers = replicate n None, wires = replicate n [],
      Alive = replicate n False,
      PreferredPeerOrder = map (\<lambda>k. (i + 1 + int k) smod int n) [0..<n],
      Latencies = replicate n 0, ClientWriters = Map.empty, ClientMu = (\<lambda>_. False),
      ClientFastChan = Map.empty, ClientAddrs = Map.empty, ClientDelay = Map.empty,
      ClientMsgDrops = 0, Dt = dt, LRead = lread, AppState = InitState\<rparr>"

subsection \<open>Sending to peers\<close>

text \<open>\<open>w.Flush()\<close> and the error handling after it; \<open>b\<close> is what the writer holds.\<close>

fun flush_peer :: "flush \<Rightarrow> int \<Rightarrow> byte list \<Rightarrow> base \<Rightarrow> base option" where
  "flush_peer Flushed p b r = do {
     old \<leftarrow> slice_get (wires r) p;
     ws \<leftarrow> slice_set (wires r) p (old @ b);
     pw \<leftarrow> slice_set (Writers r) p (Some []);
     Some (r\<lparr>wires := ws, Writers := pw\<rparr>)
   }"
| "flush_peer (Broken k) p b r = do {
     old \<leftarrow> slice_get (wires r) p;
     ws \<leftarrow> slice_set (wires r) p (old @ take k b);
     pw \<leftarrow> slice_set (Writers r) p None;
     al \<leftarrow> slice_set (Alive r) p False;
     Some (r\<lparr>wires := ws, Writers := pw, Alive := al\<rparr>)
   }"

definition SendMsg :: "flush \<Rightarrow> int \<Rightarrow> byte \<Rightarrow> byte list \<Rightarrow> base \<Rightarrow> base option" where
  "SendMsg fl p code bs r = do {
     w \<leftarrow> slice_get (Writers r) p;
     (case w of
        None \<Rightarrow> Some r
      | Some b \<Rightarrow> flush_peer fl p (b @ code # bs) r)
   }"

definition SendMsgNoFlush :: "int \<Rightarrow> byte \<Rightarrow> byte list \<Rightarrow> base \<Rightarrow> base option" where
  "SendMsgNoFlush p code bs r = do {
     w \<leftarrow> slice_get (Writers r) p;
     (case w of
        None \<Rightarrow> Some r
      | Some b \<Rightarrow> do {
          pw \<leftarrow> slice_set (Writers r) p (Some (b @ code # bs));
          Some (r\<lparr>Writers := pw\<rparr>)
        })
   }"

text \<open>One goroutine per peer; each uses only the slots of its peer, so they are run in turn.\<close>

fun flush_all :: "(nat \<Rightarrow> flush) \<Rightarrow> nat list \<Rightarrow> base \<Rightarrow> base option" where
  "flush_all fl [] r = Some r"
| "flush_all fl (p # ps) r = do {
     w \<leftarrow> slice_get (Writers r) (int p);
     r \<leftarrow> (case w of None \<Rightarrow> Some r | Some b \<Rightarrow> flush_peer (fl p) (int p) b r);
     flush_all fl ps r
   }"

definition FlushPeers :: "(nat \<Rightarrow> flush) \<Rightarrow> base \<Rightarrow> base option" where
  "FlushPeers fl r = flush_all fl [0..<bN r] r"

definition SendBeacon :: "flush \<Rightarrow> int \<Rightarrow> int \<Rightarrow> base \<Rightarrow> base option" where
  "SendBeacon fl now p r = SendMsg fl p GENERIC_SMR_BEACON (Beacon_Marshal now) r"

definition ReplyBeacon :: "flush \<Rightarrow> int \<Rightarrow> int \<Rightarrow> base \<Rightarrow> base option" where
  "ReplyBeacon fl rid ts r = SendMsg fl rid GENERIC_SMR_BEACON_REPLY (BeaconReply_Marshal ts) r"

subsection \<open>Sending to clients\<close>

type_synonym client_out = "int \<times> conn_id \<times> byte list"

definition delay_of :: "int \<Rightarrow> base \<Rightarrow> int" where
  "delay_of c r = (let d = (case ClientDelay r c of Some d \<Rightarrow> d | None \<Rightarrow> 0) in if 0 < d then d else 0)"

definition SendClientMsg :: "int \<Rightarrow> byte \<Rightarrow> byte list \<Rightarrow> base \<Rightarrow> client_out list" where
  "SendClientMsg c code bs r =
     (case ClientWriters r c of
        Some w \<Rightarrow> if ClientMu r c then [(delay_of c r, w, code # bs)] else []
      | None \<Rightarrow> [])"

definition fast_chan_size :: nat where
  "fast_chan_size = 131072"

definition SendClientMsgFast :: "int \<Rightarrow> byte \<Rightarrow> byte list \<Rightarrow> base \<Rightarrow> base" where
  "SendClientMsgFast c code bs r =
     (case ClientFastChan r c of
        None \<Rightarrow> r
      | Some ch \<Rightarrow>
          if length ch < fast_chan_size
          then r\<lparr>ClientFastChan := (ClientFastChan r)(c \<mapsto> ch @ [(code, bs)])\<rparr>
          else r\<lparr>ClientMsgDrops := i64 (ClientMsgDrops r + 1)\<rparr>)"

text \<open>One round of the goroutine that \<open>registerClient\<close> starts for a client.\<close>

definition fast_chan_step :: "int \<Rightarrow> base \<Rightarrow> base \<times> client_out list" where
  "fast_chan_step c r =
     (case ClientFastChan r c of
        Some ((code, bs) # ch) \<Rightarrow>
          let r = r\<lparr>ClientFastChan := (ClientFastChan r)(c \<mapsto> ch)\<rparr>
          in (r, SendClientMsg c code bs r)
      | _ \<Rightarrow> (r, []))"

definition ReplyProposeTS :: "ProposeReplyTS \<Rightarrow> conn_id \<Rightarrow> client_out list" where
  "ReplyProposeTS rep w = [(0, w, ProposeReplyTS_Marshal rep)]"

definition ReplyProposeTSDelayed :: "ProposeReplyTS \<Rightarrow> conn_id \<Rightarrow> int \<Rightarrow> base \<Rightarrow> client_out list" where
  "ReplyProposeTSDelayed rep w c r = [(delay_of c r, w, ProposeReplyTS_Marshal rep)]"

definition registerClient :: "int \<Rightarrow> conn_id \<Rightarrow> string \<Rightarrow> int \<Rightarrow> base \<Rightarrow> base" where
  "registerClient c w addr d r =
     r\<lparr>ClientWriters := (ClientWriters r)(c \<mapsto> w), ClientAddrs := (ClientAddrs r)(c \<mapsto> addr),
       ClientDelay := (ClientDelay r)(c \<mapsto> d), ClientMu := (ClientMu r)(c := True),
       ClientFastChan := (case ClientFastChan r c of
          None \<Rightarrow> (ClientFastChan r)(c \<mapsto> []) | Some _ \<Rightarrow> ClientFastChan r)\<rparr>"

subsection \<open>The order of the peers\<close>

text \<open>The array \<open>aux\<close> of \<open>n\<close> zeros is filled from the left; writing beyond its end panics.\<close>

definition aux_put :: "nat \<Rightarrow> int list \<Rightarrow> int \<Rightarrow> int list option" where
  "aux_put n aux p = (if length aux < n then Some (aux @ [p]) else None)"

fun put_quorum :: "nat \<Rightarrow> int \<Rightarrow> int list \<Rightarrow> int list \<Rightarrow> int list option" where
  "put_quorum n self [] aux = Some aux"
| "put_quorum n self (p # ps) aux =
     (if p = self then put_quorum n self ps aux
      else do { aux \<leftarrow> aux_put n aux p; put_quorum n self ps aux })"

fun put_missing :: "nat \<Rightarrow> int list \<Rightarrow> int list \<Rightarrow> int list option" where
  "put_missing n [] aux = Some aux"
| "put_missing n (p # ps) aux =
     (if p \<in> set aux then put_missing n ps aux
      else do { aux \<leftarrow> aux_put n aux p; put_missing n ps aux })"

definition UpdatePreferredPeerOrder :: "int list \<Rightarrow> base \<Rightarrow> base option" where
  "UpdatePreferredPeerOrder quorum r = do {
     aux \<leftarrow> put_quorum (bN r) (Id r) quorum [];
     aux \<leftarrow> put_missing (bN r) (PreferredPeerOrder r) aux;
     Some (r\<lparr>PreferredPeerOrder := aux @ replicate (bN r - length aux) 0\<rparr>)
   }"

text \<open>One round of beacons: \<open>fl\<close> says how each flush ends, \<open>now\<close> is the clock.\<close>

fun beacon_round :: "(nat \<Rightarrow> flush) \<Rightarrow> int \<Rightarrow> nat list \<Rightarrow> base \<Rightarrow> base option" where
  "beacon_round fl now [] r = Some r"
| "beacon_round fl now (i # is) r =
     (if int i = Id r then beacon_round fl now is r
      else do {
        alive \<leftarrow> slice_get (Alive r) (int i);
        r \<leftarrow> (if alive then SendBeacon (fl i) now (int i) r
             else do {
               ls \<leftarrow> slice_set (Latencies r) (int i) 9223372036854775807;
               Some (r\<lparr>Latencies := ls\<rparr>)
             });
        beacon_round fl now is r
      })"

text \<open>The position of a replica in the order by latency and id, and the array of all replicas in
  that order.\<close>

definition peer_pos :: "int list \<Rightarrow> nat \<Rightarrow> nat \<Rightarrow> nat" where
  "peer_pos ls n i =
     length (filter (\<lambda>j. ls ! j < ls ! i \<or> ls ! j = ls ! i \<and> j < i) [0..<n])"

fun rank_loop :: "int list \<Rightarrow> nat \<Rightarrow> nat list \<Rightarrow> int list \<Rightarrow> int list option" where
  "rank_loop ls n [] q = Some q"
| "rank_loop ls n (i # is) q = do {
     q \<leftarrow> slice_set q (int (peer_pos ls n i)) (int i);
     rank_loop ls n is q
   }"

text \<open>\<open>ComputeClosestPeers\<close> after the beacons, on a replica without a latency table.\<close>

definition rank_peers :: "base \<Rightarrow> base option" where
  "rank_peers r = do {
     quorum \<leftarrow> (if length (Latencies r) < bN r then None
                else rank_loop (Latencies r) (bN r) [0..<bN r] (replicate (bN r) 0));
     UpdatePreferredPeerOrder quorum r
   }"

subsection \<open>Listening to a peer\<close>

text \<open>What the listener does with the messages it reads; the times in a beacon's reply are those of
  the message, the sum in \<open>Latencies\<close> is \<open>latency_sample\<close>. \<open>Deliver\<close> starts a goroutine that waits for
  the emulated latency and puts the message into the channel of its type. A listener ends when its connection does,
  or takes the process down with a panic while it reads.\<close>

datatype ('p, 'm) peer_action = Answer_Beacon int | Beacon_Sample int | Deliver 'p 'm

datatype listener_end = Closed | Crashed

definition latency_sample :: "nat \<Rightarrow> int \<Rightarrow> int \<Rightarrow> base \<Rightarrow> base option" where
  "latency_sample rid now ts r = do {
     l \<leftarrow> slice_get (Latencies r) (int rid);
     ls \<leftarrow> slice_set (Latencies r) (int rid) (i64 (l + i64 (now - ts)));
     Some (r\<lparr>Latencies := ls\<rparr>)
   }"

text \<open>What is left of the stream \<open>s\<close> after a reader that reports the rest \<open>r\<close>; a reader only
  consumes, so this is \<open>r\<close>.\<close>

definition rest_of :: "byte list \<Rightarrow> byte list \<Rightarrow> byte list" where
  "rest_of s r = drop (length s - length r) s"

lemma length_rest_of: "length (rest_of s r) \<le> length s"
  by (simp add: rest_of_def)

lemma rest_of_append [simp]: "rest_of (a @ b) b = b"
  by (simp add: rest_of_def)

function replicaListener ::
    "'p rpc_table \<Rightarrow> ('p \<Rightarrow> byte list \<Rightarrow> 'm outcome) \<Rightarrow> byte list \<Rightarrow>
     ('p, 'm) peer_action list \<times> listener_end" where
  "replicaListener t um [] = ([], Closed)"
| "replicaListener t um (c # s) =
     (if c = GENERIC_SMR_BEACON then
        (case Beacon_Unmarshal 0 s of
           Ok ts r \<Rightarrow> apfst (Cons (Answer_Beacon ts)) (replicaListener t um (rest_of s r))
         | Fail _ _ _ \<Rightarrow> ([], Closed)
         | Panic \<Rightarrow> ([], Crashed))
      else if c = GENERIC_SMR_BEACON_REPLY then
        (case BeaconReply_Unmarshal 0 s of
           Ok ts r \<Rightarrow> apfst (Cons (Beacon_Sample ts)) (replicaListener t um (rest_of s r))
         | Fail _ _ _ \<Rightarrow> ([], Closed)
         | Panic \<Rightarrow> ([], Crashed))
      else
        (case Get t c of
           Some p \<Rightarrow>
             (case um p s of
                Ok m r \<Rightarrow> apfst (Cons (Deliver p m)) (replicaListener t um (rest_of s r))
              | Fail _ _ _ \<Rightarrow> ([], Closed)
              | Panic \<Rightarrow> ([], Crashed))
         | None \<Rightarrow> ([], Closed)))"
  by pat_completeness auto
termination
  by (relation "measure (\<lambda>(t, um, s). length s)") (auto simp: length_rest_of less_Suc_eq_le)

text \<open>What the listener leaves when it ends.\<close>

definition peer_down :: "nat \<Rightarrow> base \<Rightarrow> base option" where
  "peer_down rid r = do {
     al \<leftarrow> slice_set (Alive r) (int rid) False;
     pw \<leftarrow> slice_set (Writers r) (int rid) None;
     Some (r\<lparr>Alive := al, Writers := pw\<rparr>)
   }"

subsection \<open>Listening to a client\<close>

definition zero_Propose :: Propose where
  "zero_Propose = \<lparr>p_CommandId = 0, p_ClientId = 0, p_Command = zero_command, p_Timestamp = 0\<rparr>"

definition zero_Read :: Read where
  "zero_Read = \<lparr>rd_CommandId = 0, rd_Key = 0\<rparr>"

definition zero_ProposeAndRead :: ProposeAndRead where
  "zero_ProposeAndRead = \<lparr>par_CommandId = 0, par_Command = zero_command, par_Key = 0\<rparr>"

datatype ('p, 'm) client_action =
    Client_Out client_out
  | Queue_Proposal int GPropose
  | Deliver_After int 'p 'm
  | Write_Stats conn_id

text \<open>A client's connection: its writer, its address without the port and what the configuration says
  of it. \<open>client_of\<close> gives the client id of the message types that have a method \<open>GetClientId\<close>.\<close>

definition client_delay :: "bool \<Rightarrow> string \<Rightarrow> base \<Rightarrow> int" where
  "client_delay isLocal addr r = (if isLocal then 0 else WaitDuration (Dt r) addr)"

text \<open>A proposal. Reading locally executes the command at once; \<open>None\<close> when that does not return.\<close>

definition client_propose ::
    "conn_id \<Rightarrow> string \<Rightarrow> bool \<Rightarrow> int \<Rightarrow> Propose \<Rightarrow> base \<Rightarrow> (base \<times> ('p, 'm) client_action) option" where
  "client_propose w addr isProxy d p r =
     (let r = registerClient (p_ClientId p) w addr d r;
          op = Op (p_Command p)
      in if LRead r \<and> (op = GET \<or> op = SCAN)
         then do {
           (v, st) \<leftarrow> Execute (p_Command p) (AppState r);
           let r = r\<lparr>AppState := st\<rparr>;
           Some (r, Client_Out (hd (ReplyProposeTSDelayed \<lparr>OK = TRUE, CommandId = p_CommandId p, Value = v,
               Timestamp = p_Timestamp p, LeaderId = 0, LogIndex = 0\<rparr> w (p_ClientId p) r)))
         }
         else Some (r, Queue_Proposal (if 0 < d then d else 0)
                \<lparr>Propose = p, Proxy = isProxy, Addr = addr\<rparr>))"

function clientListener ::
    "'p rpc_table \<Rightarrow> ('p \<Rightarrow> byte list \<Rightarrow> 'm outcome) \<Rightarrow> ('m \<Rightarrow> int option) \<Rightarrow> conn_id \<Rightarrow> string \<Rightarrow> bool \<Rightarrow> int \<Rightarrow>
     byte list \<Rightarrow> base \<Rightarrow> (base \<times> ('p, 'm) client_action list) option" where
  "clientListener t um client_of w addr isProxy d [] r = Some (r, [])"
| "clientListener t um client_of w addr isProxy d (c # s) r =
     (let go = (\<lambda>acts rest r. do {
          (r, as) \<leftarrow> clientListener t um client_of w addr isProxy d (rest_of s rest) r;
          Some (r, acts @ as)
        })
      in if c = PROPOSE then
        (case Propose_Unmarshal zero_Propose s of
           Ok p rest \<Rightarrow> do { (r, a) \<leftarrow> client_propose w addr isProxy d p r; go [a] rest r }
         | Fail _ _ _ \<Rightarrow> Some (r, [])
         | Panic \<Rightarrow> None)
      else if c = READ then
        (case Read_Unmarshal zero_Read s of
           Ok _ rest \<Rightarrow> go [] rest r
         | Fail _ _ _ \<Rightarrow> Some (r, [])
         | Panic \<Rightarrow> None)
      else if c = PROPOSE_AND_READ then
        (case ProposeAndRead_Unmarshal zero_ProposeAndRead s of
           Ok _ rest \<Rightarrow> go [] rest r
         | Fail _ _ _ \<Rightarrow> Some (r, [])
         | Panic \<Rightarrow> None)
      else if c = STATS then go [Write_Stats w] s r
      else
        (case Get t c of
           Some p \<Rightarrow>
             (case um p s of
                Ok m rest \<Rightarrow>
                  go [Deliver_After (if 0 < d then d else 0) p m] rest
                    (case client_of m of Some cl \<Rightarrow> registerClient cl w addr d r | None \<Rightarrow> r)
              | Fail _ _ _ \<Rightarrow> Some (r, [])
              | Panic \<Rightarrow> None)
         | None \<Rightarrow> Some (r, [])))"
  by pat_completeness auto
termination
  by (relation "measure (\<lambda>(t, um, cl, w, a, p, d, s, r). length s)") (auto simp: length_rest_of less_Suc_eq_le)

subsection \<open>The sender\<close>

datatype SendType = SEND_ALL | SEND_QUORUM | SEND_EXCEPT | SEND_SINGLE | SEND_CLIENT | SEND_ALL_EXCEPT

record SendArg =
  sa_msg :: "byte list"
  sa_rpc :: byte
  sa_quorum :: "int set"
  sa_sendType :: SendType
  sa_id :: int
  sa_free :: bool

text \<open>The arguments the methods of \<open>Sender\<close> put into its channel; those without a call of \<open>free\<close> pass
  nil for it.\<close>

definition SendToAllAndFree :: "byte list \<Rightarrow> byte \<Rightarrow> bool \<Rightarrow> SendArg" where
  "SendToAllAndFree m rpc fr =
     \<lparr>sa_msg = m, sa_rpc = rpc, sa_quorum = {}, sa_sendType = SEND_ALL, sa_id = 0, sa_free = fr\<rparr>"

definition SendToAllExecptAndFree :: "int \<Rightarrow> byte list \<Rightarrow> byte \<Rightarrow> bool \<Rightarrow> SendArg" where
  "SendToAllExecptAndFree ex m rpc fr =
     \<lparr>sa_msg = m, sa_rpc = rpc, sa_quorum = {}, sa_sendType = SEND_ALL_EXCEPT, sa_id = ex, sa_free = fr\<rparr>"

definition SendToQuorumAndFree :: "int set \<Rightarrow> byte list \<Rightarrow> byte \<Rightarrow> bool \<Rightarrow> SendArg" where
  "SendToQuorumAndFree q m rpc fr =
     \<lparr>sa_msg = m, sa_rpc = rpc, sa_quorum = q, sa_sendType = SEND_QUORUM, sa_id = 0, sa_free = fr\<rparr>"

definition SendExceptAndFree :: "int set \<Rightarrow> byte list \<Rightarrow> byte \<Rightarrow> bool \<Rightarrow> SendArg" where
  "SendExceptAndFree q m rpc fr =
     \<lparr>sa_msg = m, sa_rpc = rpc, sa_quorum = q, sa_sendType = SEND_EXCEPT, sa_id = 0, sa_free = fr\<rparr>"

definition SendToClientAndFree :: "int \<Rightarrow> byte list \<Rightarrow> byte \<Rightarrow> bool \<Rightarrow> SendArg" where
  "SendToClientAndFree c m rpc fr =
     \<lparr>sa_msg = m, sa_rpc = rpc, sa_quorum = {}, sa_sendType = SEND_CLIENT, sa_id = c, sa_free = fr\<rparr>"

definition SendToAndFree :: "int \<Rightarrow> byte list \<Rightarrow> byte \<Rightarrow> bool \<Rightarrow> SendArg" where
  "SendToAndFree i m rpc fr =
     \<lparr>sa_msg = m, sa_rpc = rpc, sa_quorum = {}, sa_sendType = SEND_SINGLE, sa_id = i, sa_free = fr\<rparr>"

text \<open>The peers that a goroutine sends to: those alive that the condition selects.\<close>

fun alive_peers :: "(int \<Rightarrow> bool) \<Rightarrow> nat list \<Rightarrow> base \<Rightarrow> int list option" where
  "alive_peers P [] r = Some []"
| "alive_peers P (p # ps) r =
     (if P (int p) then do {
        alive \<leftarrow> slice_get (Alive r) (int p);
        rest \<leftarrow> alive_peers P ps r;
        Some (if alive then int p # rest else rest)
      }
      else alive_peers P ps r)"

definition sendToAll :: "base \<Rightarrow> int list option" where
  "sendToAll r = alive_peers (\<lambda>_. True) [0..<bN r] r"

definition sendToAllExcept :: "int \<Rightarrow> base \<Rightarrow> int list option" where
  "sendToAllExcept ex r = alive_peers (\<lambda>p. p \<noteq> ex) [0..<bN r] r"

definition sendToQuorum :: "int set \<Rightarrow> base \<Rightarrow> int list option" where
  "sendToQuorum q r = alive_peers (\<lambda>p. Contains (Quorum q) p) [0..<bN r] r"

definition sendExcept :: "int set \<Rightarrow> base \<Rightarrow> int list option" where
  "sendExcept q r = alive_peers (\<lambda>p. \<not> Contains (Quorum q) p) [0..<bN r] r"

text \<open>One round of the sender's goroutine: the state, the peers for which a goroutine that calls
  \<open>SendMsg\<close> is started, and whether \<open>free\<close> is called.\<close>

definition sender_step :: "flush \<Rightarrow> SendArg \<Rightarrow> base \<Rightarrow> (base \<times> int list \<times> bool) option" where
  "sender_step fl arg r = do {
     (r, ps) \<leftarrow> (case sa_sendType arg of
         SEND_ALL \<Rightarrow> map_option (Pair r) (sendToAll r)
       | SEND_QUORUM \<Rightarrow> map_option (Pair r) (sendToQuorum (sa_quorum arg) r)
       | SEND_EXCEPT \<Rightarrow> map_option (Pair r) (sendExcept (sa_quorum arg) r)
       | SEND_CLIENT \<Rightarrow> Some (SendClientMsgFast (sa_id arg) (sa_rpc arg) (sa_msg arg) r, [])
       | SEND_SINGLE \<Rightarrow> map_option (\<lambda>r. (r, [])) (SendMsg fl (sa_id arg) (sa_rpc arg) (sa_msg arg) r)
       | SEND_ALL_EXCEPT \<Rightarrow> map_option (Pair r) (sendToAllExcept (sa_id arg) r));
     Some (r, ps, sa_free arg)
   }"

section \<open>Correctness of the base replica\<close>

subsection \<open>Framing\<close>

text \<open>A message on the wire: its code and its encoding.\<close>

definition frame :: "('p \<Rightarrow> byte) \<Rightarrow> ('p \<Rightarrow> 'm \<Rightarrow> byte list) \<Rightarrow> 'p \<times> 'm \<Rightarrow> byte list" where
  "frame code mar x = code (fst x) # mar (fst x) (snd x)"

text \<open>The contract between a protocol's message types and the listener: a registered type has a code of
  its own that is not a beacon's, and is read back by its own reader.\<close>

locale rpc_messages =
  fixes tab :: "'p rpc_table"
    and um :: "'p \<Rightarrow> byte list \<Rightarrow> 'm outcome"
    and mar :: "'p \<Rightarrow> 'm \<Rightarrow> byte list"
    and wf :: "'p \<Rightarrow> 'm \<Rightarrow> bool"
    and code :: "'p \<Rightarrow> byte"
  assumes registered: "Get tab (code p) = Some p"
    and not_beacon: "code p \<noteq> GENERIC_SMR_BEACON" "code p \<noteq> GENERIC_SMR_BEACON_REPLY"
    and um_mar: "wf p m \<Longrightarrow> um p (mar p m @ s) = Ok m s"
    and um_truncated: "wf p m \<Longrightarrow> strict_prefix q (mar p m) \<Longrightarrow> is_fail (um p q)"
begin

abbreviation framed :: "'p \<times> 'm \<Rightarrow> byte list" where
  "framed \<equiv> frame code mar"

lemma listener_frame:
  "wf p m \<Longrightarrow> replicaListener tab um (framed (p, m) @ s) = apfst (Cons (Deliver p m)) (replicaListener tab um s)"
  using not_beacon [of p] by (simp add: frame_def registered um_mar)

lemma listener_frames:
  "\<forall>x \<in> set ms. wf (fst x) (snd x) \<Longrightarrow>
     replicaListener tab um (concat (map framed ms) @ s) =
       apfst (\<lambda>as. map (\<lambda>(p, m). Deliver p m) ms @ as) (replicaListener tab um s)"
  by (induction ms) (auto simp: listener_frame prod_eq_iff)

lemma listener_truncated:
  assumes "wf p m" and "strict_prefix w (framed (p, m))"
  shows "replicaListener tab um w = ([], Closed)"
proof (cases w)
  case (Cons c q)
  with assms(2) have c: "c = code p" and q: "strict_prefix q (mar p m)" by (simp_all add: frame_def)
  from um_truncated [OF assms(1) q] obtain e x r where "um p q = Fail e x r"
    by (cases "um p q") simp_all
  then show ?thesis using not_beacon [of p] by (simp add: Cons c registered)
qed simp

end

subsection \<open>Sending to a peer\<close>

definition base_ok :: "base \<Rightarrow> bool" where
  "base_ok r \<longleftrightarrow> length (Writers r) = bN r \<and> length (wires r) = bN r \<and> length (Alive r) = bN r \<and>
     length (Latencies r) = bN r \<and> 0 \<le> Id r \<and> Id r < int (bN r)"

lemma NewReplica_ok: "0 \<le> i \<Longrightarrow> i < int n \<Longrightarrow> base_ok (NewReplica i f n lr dt)"
  by (simp add: base_ok_def NewReplica_def)

lemma flush_peer_ok:
  assumes "base_ok r" and "0 \<le> p" and "p < int (bN r)"
  shows "\<exists>r'. flush_peer fl p b r = Some r' \<and> base_ok r' \<and> bN r' = bN r \<and>
    wires r' ! nat p = wires r ! nat p @ (case fl of Flushed \<Rightarrow> b | Broken k \<Rightarrow> take k b) \<and>
    Writers r' ! nat p = (case fl of Flushed \<Rightarrow> Some [] | Broken k \<Rightarrow> None)"
  using assms by (cases fl) (auto simp: base_ok_def slice_get_def slice_set_def)

lemma SendMsg_ok:
  assumes "base_ok r" and "0 \<le> p" and "p < int (bN r)"
  shows "\<exists>r'. SendMsg fl p c bs r = Some r' \<and> base_ok r' \<and> bN r' = bN r \<and>
    (case Writers r ! nat p of
       None \<Rightarrow> r' = r
     | Some b \<Rightarrow> wires r' ! nat p = wires r ! nat p @
           (case fl of Flushed \<Rightarrow> b @ c # bs | Broken k \<Rightarrow> take k (b @ c # bs)) \<and>
         Writers r' ! nat p = (case fl of Flushed \<Rightarrow> Some [] | Broken k \<Rightarrow> None))"
proof -
  have g: "slice_get (Writers r) p = Some (Writers r ! nat p)"
    using assms by (simp add: base_ok_def slice_get_def)
  show ?thesis
  proof (cases "Writers r ! nat p")
    case None
    with g assms show ?thesis by (simp add: SendMsg_def)
  next
    case (Some b)
    with g flush_peer_ok [OF assms, of fl "b @ c # bs"] show ?thesis by (simp add: SendMsg_def)
  qed
qed

text \<open>Messages sent to one peer one after the other, each with the outcome of its flush.\<close>

fun send_seq :: "int \<Rightarrow> (flush \<times> byte \<times> byte list) list \<Rightarrow> base \<Rightarrow> base option" where
  "send_seq p [] r = Some r"
| "send_seq p ((fl, c, bs) # xs) r = do { r \<leftarrow> SendMsg fl p c bs r; send_seq p xs r }"

lemma send_seq_down:
  assumes "base_ok r" and "0 \<le> p" and "p < int (bN r)" and "Writers r ! nat p = None"
  shows "send_seq p xs r = Some r"
  using assms by (induction xs) (auto simp: SendMsg_def slice_get_def base_ok_def)

text \<open>What is on the wire after the flushes: everything up to the one that broke, and of that one the
  bytes that got through.\<close>

fun flushed :: "(flush \<times> byte \<times> byte list) list \<Rightarrow> byte list" where
  "flushed [] = []"
| "flushed ((Flushed, c, bs) # xs) = (c # bs) @ flushed xs"
| "flushed ((Broken k, c, bs) # xs) = take k (c # bs)"

lemma send_seq_wire:
  assumes "base_ok r" and "0 \<le> p" and "p < int (bN r)" and "Writers r ! nat p = Some []"
  shows "\<exists>r'. send_seq p xs r = Some r' \<and> base_ok r' \<and> wires r' ! nat p = wires r ! nat p @ flushed xs"
  using assms
proof (induction xs arbitrary: r)
  case (Cons x xs)
  obtain fl c bs where x: "x = (fl, c, bs)" by (cases x)
  from SendMsg_ok [OF Cons.prems(1-3), of fl c bs] Cons.prems(4) obtain r1 where
    r1: "SendMsg fl p c bs r = Some r1" "base_ok r1" "bN r1 = bN r"
      "wires r1 ! nat p = wires r ! nat p @ (case fl of Flushed \<Rightarrow> c # bs | Broken k \<Rightarrow> take k (c # bs))"
      "Writers r1 ! nat p = (case fl of Flushed \<Rightarrow> Some [] | Broken k \<Rightarrow> None)"
    unfolding Cons.prems(4) option.case append_Nil by blast
  show ?case
  proof (cases fl)
    case (Broken k)
    then have "send_seq p xs r1 = Some r1" using r1 Cons.prems(2,3) by (intro send_seq_down) auto
    then show ?thesis using r1 Broken by (intro exI [of _ r1]) (simp add: x)
  next
    case Flushed
    with Cons.IH [OF r1(2) Cons.prems(2)] Cons.prems(3) r1(3,5) obtain r2 where
      "send_seq p xs r1 = Some r2" "base_ok r2" "wires r2 ! nat p = wires r1 ! nat p @ flushed xs" by auto
    then show ?thesis using r1 Flushed by (intro exI [of _ r2]) (simp add: x)
  qed
qed simp

text \<open>The messages that get through: those whose flush succeeds, up to the first that breaks, and that one too if
  the connection broke behind it.\<close>

fun arrives :: "('m \<Rightarrow> nat) \<Rightarrow> (flush \<times> 'm) list \<Rightarrow> 'm list" where
  "arrives len [] = []"
| "arrives len ((Flushed, m) # xs) = m # arrives len xs"
| "arrives len ((Broken k, m) # xs) = (if len m \<le> k then [m] else [])"

context rpc_messages
begin

text \<open>From \<open>SendMsg\<close> on one side to the channels on the other.\<close>

lemma listener_flushed:
  assumes "\<forall>x \<in> set ms. wf (fst (snd x)) (snd (snd x))"
  shows "replicaListener tab um (flushed (map (\<lambda>(fl, ty, m). (fl, code ty, mar ty m)) ms)) =
    (map (\<lambda>(ty, m). Deliver ty m) (arrives (\<lambda>(ty, m). Suc (length (mar ty m))) ms), Closed)"
  using assms
proof (induction ms)
  case (Cons x ms)
  obtain fl ty m where x: "x = (fl, ty, m)" by (cases x)
  have wf: "wf ty m" using Cons.prems by (simp add: x)
  show ?case
  proof (cases fl)
    case Flushed
    then show ?thesis using Cons listener_frame [OF wf] by (simp add: x frame_def)
  next
    case (Broken k)
    show ?thesis
    proof (cases "Suc (length (mar ty m)) \<le> k")
      case True
      then show ?thesis using Broken listener_frame [OF wf, of "[]"] by (simp add: x frame_def)
    next
      case False
      then have "strict_prefix (take k (code ty # mar ty m)) (framed (ty, m))"
        by (simp add: strict_prefix_def frame_def take_is_prefix)
      from listener_truncated [OF wf this] show ?thesis using Broken False by (simp add: x)
    qed
  qed
qed simp

lemma delivered:
  assumes "base_ok r" and "0 \<le> p" and "p < int (bN r)" and "Writers r ! nat p = Some []" and "wires r ! nat p = []"
    and "\<forall>x \<in> set ms. wf (fst (snd x)) (snd (snd x))"
  shows "\<exists>r'. send_seq p (map (\<lambda>(fl, ty, m). (fl, code ty, mar ty m)) ms) r = Some r' \<and>
    replicaListener tab um (wires r' ! nat p) =
      (map (\<lambda>(ty, m). Deliver ty m) (arrives (\<lambda>(ty, m). Suc (length (mar ty m))) ms), Closed)"
  using send_seq_wire [OF assms(1-4)] listener_flushed [OF assms(6)] assms(5) by fastforce

end

subsection \<open>The order of the peers\<close>

definition closer :: "int list \<Rightarrow> nat \<Rightarrow> nat \<Rightarrow> bool" where
  "closer ls j i \<longleftrightarrow> ls ! j < ls ! i \<or> ls ! j = ls ! i \<and> j < i"

lemma closer_irrefl: "\<not> closer ls i i"
  by (simp add: closer_def)

lemma closer_trans: "closer ls i j \<Longrightarrow> closer ls j k \<Longrightarrow> closer ls i k"
  by (auto simp: closer_def)

lemma closer_total: "i \<noteq> j \<Longrightarrow> closer ls i j \<or> closer ls j i"
  by (auto simp: closer_def)

lemma peer_pos_card: "peer_pos ls n i = card {j. j < n \<and> closer ls j i}"
proof -
  have "peer_pos ls n i = card (set (filter (\<lambda>j. closer ls j i) [0..<n]))"
    unfolding peer_pos_def closer_def by (rule distinct_card [symmetric]) simp
  also have "set (filter (\<lambda>j. closer ls j i) [0..<n]) = {j. j < n \<and> closer ls j i}" by auto
  finally show ?thesis .
qed

lemma peer_pos_less: "i < n \<Longrightarrow> closer ls i j \<Longrightarrow> peer_pos ls n i < peer_pos ls n j"
proof -
  assume i: "i < n" and c: "closer ls i j"
  have "{k. k < n \<and> closer ls k i} \<subseteq> {k. k < n \<and> closer ls k j}" using closer_trans [OF _ c] by blast
  moreover have "i \<in> {k. k < n \<and> closer ls k j}" "i \<notin> {k. k < n \<and> closer ls k i}"
    using i c by (simp_all add: closer_irrefl)
  ultimately have "{k. k < n \<and> closer ls k i} \<subset> {k. k < n \<and> closer ls k j}" by blast
  then show ?thesis unfolding peer_pos_card by (rule psubset_card_mono [rotated]) simp
qed

lemma peer_pos_less_iff: "i < n \<Longrightarrow> j < n \<Longrightarrow> peer_pos ls n i < peer_pos ls n j \<longleftrightarrow> closer ls i j"
  using peer_pos_less [of i n ls j] peer_pos_less [of j n ls i] closer_total [of i j ls]
  by (cases "i = j") auto

lemma peer_pos_bound: "i < n \<Longrightarrow> peer_pos ls n i < n"
proof -
  assume "i < n"
  then have "i \<in> {0..<n}" "i \<notin> {j. j < n \<and> closer ls j i}" by (simp_all add: closer_irrefl)
  then have "{j. j < n \<and> closer ls j i} \<subset> {0..<n}" by fastforce
  from psubset_card_mono [OF _ this] show ?thesis by (simp add: peer_pos_card)
qed

lemma peer_pos_inj: "inj_on (peer_pos ls n) {0..<n}"
proof (rule inj_onI)
  fix i j
  assume "i \<in> {0..<n}" "j \<in> {0..<n}" and e: "peer_pos ls n i = peer_pos ls n j"
  then show "i = j" using peer_pos_less [of i n ls j] peer_pos_less [of j n ls i] closer_total [of i j ls] by force
qed

lemma rank_loop_writes:
  "length q = n \<Longrightarrow> set is \<subseteq> {0..<n} \<Longrightarrow> distinct is \<Longrightarrow>
     \<exists>q'. rank_loop ls n is q = Some q' \<and> length q' = n \<and>
       (\<forall>i \<in> set is. q' ! peer_pos ls n i = int i) \<and>
       (\<forall>k < n. k \<notin> peer_pos ls n ` set is \<longrightarrow> q' ! k = q ! k)"
proof (induction "is" arbitrary: q)
  case (Cons i "is")
  let ?q = "q[peer_pos ls n i := int i]"
  have i: "i < n" using Cons.prems(2) by simp
  have s: "slice_set q (int (peer_pos ls n i)) (int i) = Some ?q"
    using Cons.prems(1) peer_pos_bound [OF i] by (simp add: slice_set_def)
  from Cons.IH [of ?q] Cons.prems obtain q' where q':
    "rank_loop ls n is ?q = Some q'" "length q' = n" "\<forall>i \<in> set is. q' ! peer_pos ls n i = int i"
    "\<forall>k < n. k \<notin> peer_pos ls n ` set is \<longrightarrow> q' ! k = ?q ! k" by auto
  have "peer_pos ls n i \<notin> peer_pos ls n ` set is"
    using Cons.prems(2,3) peer_pos_inj [of ls n] by (force simp: inj_on_def)
  with q' s i Cons.prems(1) peer_pos_bound [OF i] show ?case by (intro exI [of _ q']) (auto simp: nth_list_update)
qed simp

lemma rank_loop_sorted:
  "\<exists>q. rank_loop ls n [0..<n] (replicate n 0) = Some q \<and> distinct q \<and> set q = {0..<int n} \<and>
     sorted_wrt (\<lambda>a b. closer ls (nat a) (nat b)) q"
proof -
  from rank_loop_writes [of "replicate n 0" n "[0..<n]" ls] obtain q where q:
    "rank_loop ls n [0..<n] (replicate n 0) = Some q" "length q = n" "\<forall>i < n. q ! peer_pos ls n i = int i" by auto
  have onto: "\<exists>i < n. k = peer_pos ls n i" if "k < n" for k
  proof -
    have "peer_pos ls n ` {0..<n} = {0..<n}"
      by (rule endo_inj_surj) (auto intro: peer_pos_bound peer_pos_inj)
    with that have "k \<in> peer_pos ls n ` {0..<n}" by simp
    then show ?thesis by auto
  qed
  have s: "sorted_wrt (\<lambda>a b. closer ls (nat a) (nat b)) q"
    unfolding sorted_wrt_iff_nth_less
  proof (intro allI impI)
    fix a b
    assume ab: "a < b" "b < length q"
    with onto [of a] onto [of b] q(2) obtain i j where ij: "i < n" "a = peer_pos ls n i" "j < n" "b = peer_pos ls n j"
      by auto
    with ab q(3) show "closer ls (nat (q ! a)) (nat (q ! b))" using peer_pos_less_iff [of i n j ls] by simp
  qed
  moreover have "set q = {0..<int n}"
  proof
    show "set q \<subseteq> {0..<int n}" using onto q(2,3) by (fastforce simp: in_set_conv_nth)
    show "{0..<int n} \<subseteq> set q"
    proof
      fix x
      assume "x \<in> {0..<int n}"
      then have "q ! peer_pos ls n (nat x) = x" "peer_pos ls n (nat x) < length q"
        using q(2,3) by (auto intro: peer_pos_bound)
      then show "x \<in> set q" by (metis nth_mem)
    qed
  qed
  moreover from this have "distinct q" using q(2) by (intro card_distinct) simp
  ultimately show ?thesis using q(1) by blast
qed

lemma put_quorum_eq:
  "length aux + length (filter (\<lambda>p. p \<noteq> self) ps) \<le> n \<Longrightarrow>
     put_quorum n self ps aux = Some (aux @ filter (\<lambda>p. p \<noteq> self) ps)"
  by (induction ps arbitrary: aux) (auto simp: aux_put_def split: if_splits)

lemma put_missing_one:
  "self \<in> set ps \<Longrightarrow> self \<notin> set aux \<Longrightarrow> set ps \<subseteq> Set.insert self (set aux) \<Longrightarrow> length aux < n \<Longrightarrow>
     put_missing n ps aux = Some (aux @ [self])"
proof (induction ps)
  case (Cons p ps)
  have rest: "set ps \<subseteq> set xs \<Longrightarrow> put_missing n ps xs = Some xs" for xs
    by (induction ps) auto
  show ?case
  proof (cases "p = self")
    case True
    with Cons.prems rest [of "aux @ [self]"] show ?thesis by (auto simp: aux_put_def)
  next
    case False
    with Cons show ?thesis by auto
  qed
qed simp

lemma length_filter_neq: "distinct q \<Longrightarrow> x \<in> set q \<Longrightarrow> Suc (length (filter (\<lambda>p. p \<noteq> x) q)) = length q"
  by (induction q) (auto simp: filter_id_conv intro: arg_cong [where f = length])

lemma UpdatePreferredPeerOrder_eq:
  assumes "distinct q" and "set q = {0..<int (bN r)}" and "set (PreferredPeerOrder r) = {0..<int (bN r)}"
    and "0 \<le> Id r" and "Id r < int (bN r)"
  shows "UpdatePreferredPeerOrder q r = Some (r\<lparr>PreferredPeerOrder := filter (\<lambda>p. p \<noteq> Id r) q @ [Id r]\<rparr>)"
proof -
  let ?f = "filter (\<lambda>p. p \<noteq> Id r) q"
  have "card (set q) = bN r" unfolding assms(2) by simp
  then have len: "Suc (length ?f) = bN r"
    using length_filter_neq [OF assms(1), of "Id r"] distinct_card [OF assms(1)] assms(2,4,5) by simp
  have "put_quorum (bN r) (Id r) q [] = Some ?f" using len by (subst put_quorum_eq) simp_all
  moreover have "put_missing (bN r) (PreferredPeerOrder r) ?f = Some (?f @ [Id r])"
    by (rule put_missing_one) (use assms len in auto)
  ultimately show ?thesis using len by (simp add: UpdatePreferredPeerOrder_def)
qed

subsection \<open>Sending on behalf of the event loop\<close>

lemma alive_peers_eq:
  "\<forall>p \<in> set ps. p < length (Alive r) \<Longrightarrow>
     alive_peers P ps r = Some (map int (filter (\<lambda>p. P (int p) \<and> Alive r ! p) ps))"
  by (induction ps) auto

lemma send_targets:
  assumes "base_ok r"
  shows "sendToAll r = Some (map int (filter (\<lambda>p. Alive r ! p) [0..<bN r]))"
    "sendToAllExcept ex r = Some (map int (filter (\<lambda>p. int p \<noteq> ex \<and> Alive r ! p) [0..<bN r]))"
    "sendToQuorum q r = Some (map int (filter (\<lambda>p. int p \<in> q \<and> Alive r ! p) [0..<bN r]))"
    "sendExcept q r = Some (map int (filter (\<lambda>p. int p \<notin> q \<and> Alive r ! p) [0..<bN r]))"
  using assms
  by (simp_all add: sendToAll_def sendToAllExcept_def sendToQuorum_def sendExcept_def alive_peers_eq base_ok_def)

subsection \<open>Messages to clients\<close>

text \<open>What happens to the channel of one client: messages of the event loop, rounds of the client's
  goroutine, messages from the client.\<close>

datatype fast_op = Fast_Send byte "byte list" | Fast_Round | Fast_Register conn_id string int

fun fast_ops :: "int \<Rightarrow> fast_op list \<Rightarrow> base \<Rightarrow> base \<times> nat" where
  "fast_ops c [] r = (r, 0)"
| "fast_ops c (Fast_Send code bs # ops) r = fast_ops c ops (SendClientMsgFast c code bs r)"
| "fast_ops c (Fast_Round # ops) r =
     (let (r', outs) = fast_chan_step c r in apsnd ((+) (length outs)) (fast_ops c ops r'))"
| "fast_ops c (Fast_Register w a d # ops) r = fast_ops c ops (registerClient c w a d r)"

fun fast_sends :: "fast_op list \<Rightarrow> nat" where
  "fast_sends [] = 0"
| "fast_sends (Fast_Send _ _ # ops) = Suc (fast_sends ops)"
| "fast_sends (_ # ops) = fast_sends ops"

lemma fast_ops_count:
  assumes "ClientFastChan r c = Some ch" and "length ch \<le> fast_chan_size" and "ClientWriters r c \<noteq> None"
    and "ClientMu r c" and "0 \<le> ClientMsgDrops r" and "ClientMsgDrops r + int (fast_sends ops) < 9223372036854775808"
  shows "\<exists>r' n ch'. fast_ops c ops r = (r', n) \<and> ClientFastChan r' c = Some ch' \<and> length ch' \<le> fast_chan_size \<and>
    int (length ch' + n) + ClientMsgDrops r' = int (length ch + fast_sends ops) + ClientMsgDrops r"
  using assms
proof (induction c ops r arbitrary: ch rule: fast_ops.induct)
  case (2 c code bs ops r)
  show ?case
  proof (cases "length ch < fast_chan_size")
    case True
    with 2(1) [of "ch @ [(code, bs)]"] 2(2-7) show ?thesis by (auto simp: SendClientMsgFast_def)
  next
    case False
    have "i64 (ClientMsgDrops r + 1) = ClientMsgDrops r + 1" using 2(6,7) by (simp add: is_i64_def)
    with False 2(1) [of ch] 2(2-7) show ?thesis by (auto simp: SendClientMsgFast_def)
  qed
next
  case (3 c ops r)
  show ?case
  proof (cases ch)
    case Nil
    with 3 show ?thesis by (fastforce simp: fast_chan_step_def)
  next
    case (Cons x ch2)
    obtain code bs where x: "x = (code, bs)" by (cases x)
    obtain w where w: "ClientWriters r c = Some w" using 3(4) by auto
    let ?r = "r\<lparr>ClientFastChan := (ClientFastChan r)(c \<mapsto> ch2)\<rparr>"
    have st: "fast_chan_step c r = (?r, [(delay_of c ?r, w, code # bs)])"
      using 3(2,5) w by (simp add: fast_chan_step_def Cons x SendClientMsg_def Let_def)
    from 3(1) [OF st [symmetric] refl, of ch2] 3(2-7) obtain r' n ch' where
      "fast_ops c ops ?r = (r', n)" "ClientFastChan r' c = Some ch'" "length ch' \<le> fast_chan_size"
      "int (length ch' + n) + ClientMsgDrops r' = int (length ch2 + fast_sends ops) + ClientMsgDrops ?r"
      by (auto simp: Cons)
    then show ?thesis by (simp add: st Cons)
  qed
next
  case (4 c w a d ops r)
  then show ?case by (auto simp: registerClient_def)
qed auto

subsection \<open>Properties\<close>

text \<open>After the beacons \<open>ComputeClosestPeers\<close> leaves every replica in the order of preference
  exactly once, the replica itself last and the others by increasing latency, ties by id.\<close>

theorem peers_by_latency:
  assumes "base_ok r" and "set (PreferredPeerOrder r) = {0..<int (bN r)}"
  shows "\<exists>ord. rank_peers r = Some (r\<lparr>PreferredPeerOrder := ord @ [Id r]\<rparr>) \<and> distinct (ord @ [Id r]) \<and>
    set (ord @ [Id r]) = {0..<int (bN r)} \<and>
    sorted_wrt (\<lambda>a b. Latencies r ! nat a < Latencies r ! nat b \<or>
      Latencies r ! nat a = Latencies r ! nat b \<and> a < b) ord"
proof -
  from rank_loop_sorted [of "Latencies r" "bN r"] obtain q where q:
    "rank_loop (Latencies r) (bN r) [0..<bN r] (replicate (bN r) 0) = Some q" "distinct q"
    "set q = {0..<int (bN r)}" "sorted_wrt (\<lambda>a b. closer (Latencies r) (nat a) (nat b)) q" by blast
  let ?ord = "filter (\<lambda>p. p \<noteq> Id r) q"
  have id: "0 \<le> Id r" "Id r < int (bN r)" "length (Latencies r) = bN r" using assms(1) by (simp_all add: base_ok_def)
  have "rank_peers r = Some (r\<lparr>PreferredPeerOrder := ?ord @ [Id r]\<rparr>)"
    using q(1) id UpdatePreferredPeerOrder_eq [OF q(2,3) assms(2) id(1,2)] by (simp add: rank_peers_def)
  moreover have "sorted_wrt (\<lambda>a b. Latencies r ! nat a < Latencies r ! nat b \<or>
      Latencies r ! nat a = Latencies r ! nat b \<and> a < b) ?ord"
    using sorted_wrt_filter [OF q(4)] by (rule sorted_wrt_mono_rel [rotated]) (use q(3) in \<open>auto simp: closer_def\<close>)
  moreover have "distinct (?ord @ [Id r])" using q(2) by simp
  moreover have "set (?ord @ [Id r]) = Set.insert (Id r) (set q)" by auto
  then have "set (?ord @ [Id r]) = {0..<int (bN r)}" unfolding q(3) using id(1,2) by auto
  ultimately show ?thesis by blast
qed

definition base3 :: base where
  "base3 = (NewReplica 1 1 3 False None)\<lparr>Latencies := [7, 0, 5]\<rparr>"

theorem peers_by_latency_witness:
  "\<exists>ord. rank_peers base3 = Some (base3\<lparr>PreferredPeerOrder := ord @ [1]\<rparr>) \<and> set (ord @ [1]) = {0..<3}"
proof -
  have "base_ok base3" "set (PreferredPeerOrder base3) = {0..<int (bN base3)}" "Id base3 = 1" "bN base3 = 3"
    by (auto simp: base3_def base_ok_def NewReplica_def numeral_3_eq_3)
  with peers_by_latency [of base3] show ?thesis by auto
qed

text \<open>The channel of a client that has sent a message never holds more than its 131072 entries, and
  no message to the client is unaccounted for: each one is in the channel, was written to the client
  or is counted as dropped.\<close>

theorem client_channel_bounded:
  assumes "int (length ops) < 9223372036854775808"
  shows "\<exists>r' n ch. fast_ops c ops (registerClient c w a d (NewReplica i f k lr dt)) = (r', n) \<and>
    ClientFastChan r' c = Some ch \<and> length ch \<le> fast_chan_size \<and>
    int (length ch + n) + ClientMsgDrops r' = int (fast_sends ops)"
proof -
  let ?r = "registerClient c w a d (NewReplica i f k lr dt)"
  have "fast_sends ops \<le> length ops" by (induction ops rule: fast_sends.induct) simp_all
  then have "ClientMsgDrops ?r + int (fast_sends ops) < 9223372036854775808"
    using assms by (simp add: registerClient_def NewReplica_def)
  moreover have "ClientFastChan ?r c = Some []" "ClientWriters ?r c \<noteq> None" "ClientMu ?r c" "ClientMsgDrops ?r = 0"
    by (simp_all add: registerClient_def NewReplica_def)
  ultimately show ?thesis using fast_ops_count [of ?r c "[]" ops] by auto
qed

theorem client_channel_bounded_witness:
  "\<exists>r' n ch. fast_ops 4 [Fast_Send 9 [1], Fast_Round, Fast_Send 9 [2]]
      (registerClient 4 0 [] 0 (NewReplica 0 1 3 False None)) = (r', n) \<and>
    ClientFastChan r' 4 = Some ch \<and> length ch \<le> fast_chan_size \<and> int (length ch + n) + ClientMsgDrops r' = 2"
  using client_channel_bounded [of "[Fast_Send 9 [1], Fast_Round, Fast_Send 9 [2]]" 4 0 "[]" 0 0 1 3 False None]
  by simp

end
