(* ===== verification/Raft_Msgs.thy ===== *)
theory Raft_Msgs
  imports State Rpc_Table Pool
begin

section \<open>Messages of the Raft package\<close>

text \<open>
  The message structs of \<open>src/raft/defs.go\<close>, their \<open>Marshal\<close> and \<open>Unmarshal\<close> methods, their
  object caches and the registration with the RPC table. Every type interprets the locale
  \<open>strict_codec\<close>.
\<close>

record CommandId =
  ClientId :: int
  SeqNum :: int

record RequestVote =
  rv_CandidateId :: int
  rv_Term :: int
  rv_LastLogIndex :: int
  rv_LastLogTerm :: int

record RequestVoteReply =
  rvr_VoterId :: int
  rvr_Term :: int
  rvr_VoteGranted :: int

record AppendEntries =
  ae_LeaderId :: int
  ae_Term :: int
  ae_PrevLogIndex :: int
  ae_PrevLogTerm :: int
  ae_LeaderCommit :: int
  ae_EntryCnt :: int
  ae_Entries :: "command list"
  ae_EntryIds :: "CommandId list"

record AppendEntriesReply =
  aer_FollowerId :: int
  aer_Term :: int
  aer_Success :: int
  aer_MatchIndex :: int

record RaftReply =
  rr_CmdId :: CommandId
  rr_Value :: "byte list"

subsection \<open>Encoding\<close>

definition RequestVote_Marshal :: "RequestVote \<Rightarrow> byte list" where
  "RequestVote_Marshal t =
     put32 (rv_CandidateId t) @ put32 (rv_Term t) @ put32 (rv_LastLogIndex t) @ put32 (rv_LastLogTerm t)"

definition RequestVote_Unmarshal :: "RequestVote \<Rightarrow> byte list \<Rightarrow> RequestVote outcome" where
  "RequestVote_Unmarshal t s =
     with_bytes 16 t s (\<lambda>bs r.
       Ok (t\<lparr>rv_CandidateId := get32 bs, rv_Term := get32 (drop 4 bs),
            rv_LastLogIndex := get32 (drop 8 bs), rv_LastLogTerm := get32 (drop 12 bs)\<rparr>) r)"

definition RequestVoteReply_Marshal :: "RequestVoteReply \<Rightarrow> byte list" where
  "RequestVoteReply_Marshal t =
     put32 (rvr_VoterId t) @ put32 (rvr_Term t) @ put32 (rvr_VoteGranted t)"

definition RequestVoteReply_Unmarshal ::
    "RequestVoteReply \<Rightarrow> byte list \<Rightarrow> RequestVoteReply outcome" where
  "RequestVoteReply_Unmarshal t s =
     with_bytes 12 t s (\<lambda>bs r.
       Ok (t\<lparr>rvr_VoterId := get32 bs, rvr_Term := get32 (drop 4 bs),
            rvr_VoteGranted := get32 (drop 8 bs)\<rparr>) r)"

definition entry_id_bytes :: "CommandId \<Rightarrow> byte list" where
  "entry_id_bytes c = put32 (ClientId c) @ put32 (SeqNum c)"

definition entry_id_read :: "CommandId \<Rightarrow> byte list \<Rightarrow> CommandId outcome" where
  "entry_id_read t s =
     with_bytes 8 t s (\<lambda>ib r. Ok (t\<lparr>ClientId := get32 ib, SeqNum := get32 (drop 4 ib)\<rparr>) r)"

definition zero_CommandId :: CommandId where
  "zero_CommandId = \<lparr>ClientId = 0, SeqNum = 0\<rparr>"

definition AppendEntries_Marshal :: "AppendEntries \<Rightarrow> byte list" where
  "AppendEntries_Marshal t =
     (put32 (ae_LeaderId t) @ put32 (ae_Term t) @ put32 (ae_PrevLogIndex t) @
      put32 (ae_PrevLogTerm t) @ put32 (ae_LeaderCommit t) @ put32 (ae_EntryCnt t)) @
     put_slice Command_Marshal (ae_Entries t) @ put_slice entry_id_bytes (ae_EntryIds t)"

definition AppendEntries_Unmarshal :: "AppendEntries \<Rightarrow> byte list \<Rightarrow> AppendEntries outcome" where
  "AppendEntries_Unmarshal t s =
     with_bytes 24 t s (\<lambda>bs r.
       let t = t\<lparr>ae_LeaderId := get32 bs, ae_Term := get32 (drop 4 bs),
                 ae_PrevLogIndex := get32 (drop 8 bs), ae_PrevLogTerm := get32 (drop 12 bs),
                 ae_LeaderCommit := get32 (drop 16 bs), ae_EntryCnt := get32 (drop 20 bs)\<rparr>
       in and_then (\<lambda>x. t\<lparr>ae_Entries := x\<rparr>)
            (get_slice (read_each Command_Unmarshal zero_command) (ae_Entries t) r) (\<lambda>t r.
          and_then (\<lambda>x. t\<lparr>ae_EntryIds := x\<rparr>)
            (get_slice (read_each entry_id_read zero_CommandId) (ae_EntryIds t) r) Ok))"

definition AppendEntriesReply_Marshal :: "AppendEntriesReply \<Rightarrow> byte list" where
  "AppendEntriesReply_Marshal t =
     put32 (aer_FollowerId t) @ put32 (aer_Term t) @ put32 (aer_Success t) @ put32 (aer_MatchIndex t)"

definition AppendEntriesReply_Unmarshal ::
    "AppendEntriesReply \<Rightarrow> byte list \<Rightarrow> AppendEntriesReply outcome" where
  "AppendEntriesReply_Unmarshal t s =
     with_bytes 16 t s (\<lambda>bs r.
       Ok (t\<lparr>aer_FollowerId := get32 bs, aer_Term := get32 (drop 4 bs),
            aer_Success := get32 (drop 8 bs), aer_MatchIndex := get32 (drop 12 bs)\<rparr>) r)"

definition RaftReply_Marshal :: "RaftReply \<Rightarrow> byte list" where
  "RaftReply_Marshal t =
     (put32 (ClientId (rr_CmdId t)) @ put32 (SeqNum (rr_CmdId t))) @
     PutVarint (int (length (rr_Value t))) @ rr_Value t"

definition RaftReply_Unmarshal :: "RaftReply \<Rightarrow> byte list \<Rightarrow> RaftReply outcome" where
  "RaftReply_Unmarshal t s =
     with_bytes 8 t s (\<lambda>bs r.
       let t = t\<lparr>rr_CmdId := \<lparr>ClientId = get32 bs, SeqNum = get32 (drop 4 bs)\<rparr>\<rparr>
       in and_then (\<lambda>x. t\<lparr>rr_Value := x\<rparr>) (get_bytes (rr_Value t) r) Ok)"

subsection \<open>Object caches\<close>

definition RequestVoteCache_Get :: "RequestVote list \<Rightarrow> RequestVote \<times> RequestVote list" where
  "RequestVoteCache_Get =
     cache_Get \<lparr>rv_CandidateId = 0, rv_Term = 0, rv_LastLogIndex = 0, rv_LastLogTerm = 0\<rparr>"

definition RequestVoteReplyCache_Get ::
    "RequestVoteReply list \<Rightarrow> RequestVoteReply \<times> RequestVoteReply list" where
  "RequestVoteReplyCache_Get = cache_Get \<lparr>rvr_VoterId = 0, rvr_Term = 0, rvr_VoteGranted = 0\<rparr>"

definition AppendEntriesCache_Get :: "AppendEntries list \<Rightarrow> AppendEntries \<times> AppendEntries list" where
  "AppendEntriesCache_Get =
     cache_Get \<lparr>ae_LeaderId = 0, ae_Term = 0, ae_PrevLogIndex = 0, ae_PrevLogTerm = 0,
       ae_LeaderCommit = 0, ae_EntryCnt = 0, ae_Entries = [], ae_EntryIds = []\<rparr>"

definition AppendEntriesReplyCache_Get ::
    "AppendEntriesReply list \<Rightarrow> AppendEntriesReply \<times> AppendEntriesReply list" where
  "AppendEntriesReplyCache_Get =
     cache_Get \<lparr>aer_FollowerId = 0, aer_Term = 0, aer_Success = 0, aer_MatchIndex = 0\<rparr>"

definition RaftReplyCache_Get :: "RaftReply list \<Rightarrow> RaftReply \<times> RaftReply list" where
  "RaftReplyCache_Get = cache_Get \<lparr>rr_CmdId = zero_CommandId, rr_Value = []\<rparr>"

subsection \<open>Registration\<close>

text \<open>The message types a RPC code stands for, in the order \<open>initCs\<close> registers them.\<close>

datatype raft_msg_type = T_AppendEntries | T_AppendEntriesReply | T_RequestVote
  | T_RequestVoteReply | T_RaftReply

record CommunicationSupply =
  appendEntriesRPC :: byte
  appendEntriesReplyRPC :: byte
  requestVoteRPC :: byte
  requestVoteReplyRPC :: byte
  raftReplyRPC :: byte

definition initCs :: "raft_msg_type rpc_table \<Rightarrow> CommunicationSupply \<times> raft_msg_type rpc_table" where
  "initCs t =
     (let (a, t) = Register t T_AppendEntries;
          (b, t) = Register t T_AppendEntriesReply;
          (c, t) = Register t T_RequestVote;
          (d, t) = Register t T_RequestVoteReply;
          (e, t) = Register t T_RaftReply
      in (\<lparr>appendEntriesRPC = a, appendEntriesReplyRPC = b, requestVoteRPC = c,
           requestVoteReplyRPC = d, raftReplyRPC = e\<rparr>, t))"

subsection \<open>The codecs\<close>

definition wf_CommandId :: "CommandId \<Rightarrow> bool" where
  "wf_CommandId c \<longleftrightarrow> is_i32 (ClientId c) \<and> is_i32 (SeqNum c)"

definition wf_RequestVote :: "RequestVote \<Rightarrow> bool" where
  "wf_RequestVote t \<longleftrightarrow> is_i32 (rv_CandidateId t) \<and> is_i32 (rv_Term t) \<and>
     is_i32 (rv_LastLogIndex t) \<and> is_i32 (rv_LastLogTerm t)"

definition wf_RequestVoteReply :: "RequestVoteReply \<Rightarrow> bool" where
  "wf_RequestVoteReply t \<longleftrightarrow> is_i32 (rvr_VoterId t) \<and> is_i32 (rvr_Term t) \<and> is_i32 (rvr_VoteGranted t)"

definition wf_AppendEntries :: "AppendEntries \<Rightarrow> bool" where
  "wf_AppendEntries t \<longleftrightarrow> is_i32 (ae_LeaderId t) \<and> is_i32 (ae_Term t) \<and> is_i32 (ae_PrevLogIndex t) \<and>
     is_i32 (ae_PrevLogTerm t) \<and> is_i32 (ae_LeaderCommit t) \<and> is_i32 (ae_EntryCnt t) \<and>
     list_all wf_command (ae_Entries t) \<and> short_enough (ae_Entries t) \<and>
     list_all wf_CommandId (ae_EntryIds t) \<and> short_enough (ae_EntryIds t)"

definition wf_AppendEntriesReply :: "AppendEntriesReply \<Rightarrow> bool" where
  "wf_AppendEntriesReply t \<longleftrightarrow> is_i32 (aer_FollowerId t) \<and> is_i32 (aer_Term t) \<and>
     is_i32 (aer_Success t) \<and> is_i32 (aer_MatchIndex t)"

definition wf_RaftReply :: "RaftReply \<Rightarrow> bool" where
  "wf_RaftReply t \<longleftrightarrow> wf_CommandId (rr_CmdId t) \<and> short_enough (rr_Value t)"

interpretation entry_id_codec: strict_codec entry_id_bytes entry_id_read wf_CommandId
proof
  fix x t :: CommandId and p s :: "byte list"
  assume wf: "wf_CommandId x"
  then have "entry_id_read t ((put32 (ClientId x) @ put32 (SeqNum x)) @ s) = Ok x s"
    unfolding entry_id_read_def by (subst with_bytes_append) (simp_all add: wf_CommandId_def)
  then show "entry_id_read t (entry_id_bytes x @ s) = Ok x s" by (simp add: entry_id_bytes_def)
  show "strict_prefix p (entry_id_bytes x) \<Longrightarrow> is_fail (entry_id_read t p)"
    unfolding entry_id_read_def by (erule with_bytes_truncated_end) (simp add: entry_id_bytes_def)
qed

interpretation rv_codec: strict_codec RequestVote_Marshal RequestVote_Unmarshal wf_RequestVote
proof
  fix x t :: RequestVote and p s :: "byte list"
  assume wf: "wf_RequestVote x"
  show "RequestVote_Unmarshal t (RequestVote_Marshal x @ s) = Ok x s"
    using wf unfolding RequestVote_Unmarshal_def
    by (subst with_bytes_append) (simp_all add: RequestVote_Marshal_def wf_RequestVote_def)
  show "strict_prefix p (RequestVote_Marshal x) \<Longrightarrow> is_fail (RequestVote_Unmarshal t p)"
    unfolding RequestVote_Unmarshal_def
    by (erule with_bytes_truncated_end) (simp add: RequestVote_Marshal_def)
qed

interpretation rvr_codec:
  strict_codec RequestVoteReply_Marshal RequestVoteReply_Unmarshal wf_RequestVoteReply
proof
  fix x t :: RequestVoteReply and p s :: "byte list"
  assume wf: "wf_RequestVoteReply x"
  show "RequestVoteReply_Unmarshal t (RequestVoteReply_Marshal x @ s) = Ok x s"
    using wf unfolding RequestVoteReply_Unmarshal_def
    by (subst with_bytes_append)
      (simp_all add: RequestVoteReply_Marshal_def wf_RequestVoteReply_def)
  show "strict_prefix p (RequestVoteReply_Marshal x) \<Longrightarrow> is_fail (RequestVoteReply_Unmarshal t p)"
    unfolding RequestVoteReply_Unmarshal_def
    by (erule with_bytes_truncated_end) (simp add: RequestVoteReply_Marshal_def)
qed

interpretation aer_codec:
  strict_codec AppendEntriesReply_Marshal AppendEntriesReply_Unmarshal wf_AppendEntriesReply
proof
  fix x t :: AppendEntriesReply and p s :: "byte list"
  assume wf: "wf_AppendEntriesReply x"
  show "AppendEntriesReply_Unmarshal t (AppendEntriesReply_Marshal x @ s) = Ok x s"
    using wf unfolding AppendEntriesReply_Unmarshal_def
    by (subst with_bytes_append)
      (simp_all add: AppendEntriesReply_Marshal_def wf_AppendEntriesReply_def)
  show "strict_prefix p (AppendEntriesReply_Marshal x) \<Longrightarrow> is_fail (AppendEntriesReply_Unmarshal t p)"
    unfolding AppendEntriesReply_Unmarshal_def
    by (erule with_bytes_truncated_end) (simp add: AppendEntriesReply_Marshal_def)
qed



lemma slice_then_slice_truncated:
  assumes "strict_prefix p (put_slice m xs @ b)" and "\<And>s. get_slice each t (put_slice m xs @ s) = Ok xs s"
    and "\<And>q. strict_prefix q (put_slice m xs) \<Longrightarrow> is_fail (get_slice each t q)"
    and "\<And>q. strict_prefix q b \<Longrightarrow> is_fail (k (upd xs) q)"
  shows "is_fail (and_then upd (get_slice each t p) k)"
  using strict_prefix_appendD [OF assms(1)] assms(2-4) by (auto intro: is_fail_and_then)

interpretation ae_codec: strict_codec AppendEntries_Marshal AppendEntries_Unmarshal wf_AppendEntries
proof
  fix x t :: AppendEntries and p s :: "byte list"
  assume wf: "wf_AppendEntries x"
  note entries = command_codec.slice_roundtrip entry_id_codec.slice_roundtrip
  have *: "AppendEntries_Unmarshal t (AppendEntries_Marshal x @ s) = Ok x s" for s
    using wf unfolding AppendEntries_Unmarshal_def AppendEntries_Marshal_def append_assoc [of _ _ s]
    by (subst with_bytes_append) (simp_all add: wf_AppendEntries_def entries)
  show "AppendEntries_Unmarshal t (AppendEntries_Marshal x @ s) = Ok x s" by (rule *)
  assume p: "strict_prefix p (AppendEntries_Marshal x)"
  show "is_fail (AppendEntries_Unmarshal t p)"
    using p unfolding AppendEntries_Marshal_def AppendEntries_Unmarshal_def Let_def
    by (rule with_bytes_truncated, simp)
      (erule slice_then_slice_truncated,
        use wf in \<open>auto simp: wf_AppendEntries_def entries intro!: is_fail_and_then
          intro: command_codec.slice_truncated entry_id_codec.slice_truncated\<close>)
qed

interpretation raft_reply_codec: strict_codec RaftReply_Marshal RaftReply_Unmarshal wf_RaftReply
proof
  fix x t :: RaftReply and p s :: "byte list"
  assume wf: "wf_RaftReply x"
  show "RaftReply_Unmarshal t (RaftReply_Marshal x @ s) = Ok x s"
    using wf unfolding RaftReply_Unmarshal_def RaftReply_Marshal_def append_assoc [of _ _ s]
    by (subst with_bytes_append)
      (simp_all add: wf_RaftReply_def wf_CommandId_def get_bytes_roundtrip)
  assume p: "strict_prefix p (RaftReply_Marshal x)"
  show "is_fail (RaftReply_Unmarshal t p)"
    using p unfolding RaftReply_Marshal_def RaftReply_Unmarshal_def Let_def
    by (rule with_bytes_truncated, simp)
      (use wf in \<open>auto simp: wf_RaftReply_def intro!: is_fail_and_then intro: get_bytes_truncated\<close>)
qed

end
