(* ===== verification/Raft_Wire.thy ===== *)
theory Raft_Wire
  imports Raft_Msgs Replica
begin

section \<open>Raft messages between two replicas\<close>

text \<open>
  The composition of \<open>src/raft/defs.go\<close> with the base replica and the RPC table: the objects a Raft
  replica sends and the listener of its peer creates. The locale \<open>rpc_messages\<close> is interpreted on
  them, so what holds of framing in general holds of Raft.
\<close>

datatype raft_obj = O_AppendEntries AppendEntries | O_AppendEntriesReply AppendEntriesReply
  | O_RequestVote RequestVote | O_RequestVoteReply RequestVoteReply | O_RaftReply RaftReply

definition raft_table :: "raft_msg_type rpc_table" where
  "raft_table = snd (initCs (NewTableId RPC_TABLE))"

text \<open>\<open>obj := p.Obj.New()\<close> and \<open>obj.Unmarshal(reader)\<close>.\<close>

fun raft_read :: "raft_msg_type \<Rightarrow> byte list \<Rightarrow> raft_obj outcome" where
  "raft_read T_AppendEntries s =
     map_outcome O_AppendEntries (AppendEntries_Unmarshal (fst (AppendEntriesCache_Get [])) s)"
| "raft_read T_AppendEntriesReply s =
     map_outcome O_AppendEntriesReply (AppendEntriesReply_Unmarshal (fst (AppendEntriesReplyCache_Get [])) s)"
| "raft_read T_RequestVote s =
     map_outcome O_RequestVote (RequestVote_Unmarshal (fst (RequestVoteCache_Get [])) s)"
| "raft_read T_RequestVoteReply s =
     map_outcome O_RequestVoteReply (RequestVoteReply_Unmarshal (fst (RequestVoteReplyCache_Get [])) s)"
| "raft_read T_RaftReply s =
     map_outcome O_RaftReply (RaftReply_Unmarshal (fst (RaftReplyCache_Get [])) s)"

fun raft_bytes :: "raft_obj \<Rightarrow> byte list" where
  "raft_bytes (O_AppendEntries m) = AppendEntries_Marshal m"
| "raft_bytes (O_AppendEntriesReply m) = AppendEntriesReply_Marshal m"
| "raft_bytes (O_RequestVote m) = RequestVote_Marshal m"
| "raft_bytes (O_RequestVoteReply m) = RequestVoteReply_Marshal m"
| "raft_bytes (O_RaftReply m) = RaftReply_Marshal m"

fun raft_type :: "raft_obj \<Rightarrow> raft_msg_type" where
  "raft_type (O_AppendEntries m) = T_AppendEntries"
| "raft_type (O_AppendEntriesReply m) = T_AppendEntriesReply"
| "raft_type (O_RequestVote m) = T_RequestVote"
| "raft_type (O_RequestVoteReply m) = T_RequestVoteReply"
| "raft_type (O_RaftReply m) = T_RaftReply"

fun raft_code :: "raft_msg_type \<Rightarrow> byte" where
  "raft_code T_AppendEntries = appendEntriesRPC (fst (initCs (NewTableId RPC_TABLE)))"
| "raft_code T_AppendEntriesReply = appendEntriesReplyRPC (fst (initCs (NewTableId RPC_TABLE)))"
| "raft_code T_RequestVote = requestVoteRPC (fst (initCs (NewTableId RPC_TABLE)))"
| "raft_code T_RequestVoteReply = requestVoteReplyRPC (fst (initCs (NewTableId RPC_TABLE)))"
| "raft_code T_RaftReply = raftReplyRPC (fst (initCs (NewTableId RPC_TABLE)))"

fun wf_raft_obj :: "raft_obj \<Rightarrow> bool" where
  "wf_raft_obj (O_AppendEntries m) = wf_AppendEntries m"
| "wf_raft_obj (O_AppendEntriesReply m) = wf_AppendEntriesReply m"
| "wf_raft_obj (O_RequestVote m) = wf_RequestVote m"
| "wf_raft_obj (O_RequestVoteReply m) = wf_RequestVoteReply m"
| "wf_raft_obj (O_RaftReply m) = wf_RaftReply m"

lemma is_fail_map [simp]: "is_fail (map_outcome f x) = is_fail x"
  by (cases x) simp_all

lemma raft_codes:
  "raft_code T_AppendEntries = 9" "raft_code T_AppendEntriesReply = 10" "raft_code T_RequestVote = 11"
  "raft_code T_RequestVoteReply = 12" "raft_code T_RaftReply = 13"
  by (simp_all add: initCs_def Register_def NewTableId_def RPC_TABLE_def)

interpretation raft_rpc: rpc_messages raft_table raft_read "\<lambda>_. raft_bytes"
    "\<lambda>ty m. wf_raft_obj m \<and> raft_type m = ty" raft_code
proof
  fix p m s q
  show "Get raft_table (raft_code p) = Some p"
    by (cases p) (simp_all add: raft_codes raft_table_def initCs_def Register_def NewTableId_def RPC_TABLE_def Get_def
      del: raft_code.simps)
  show "raft_code p \<noteq> GENERIC_SMR_BEACON" "raft_code p \<noteq> GENERIC_SMR_BEACON_REPLY"
    by (cases p; simp add: raft_codes GENERIC_SMR_BEACON_def GENERIC_SMR_BEACON_REPLY_def del: raft_code.simps)+
  show "raft_read p (raft_bytes m @ s) = Ok m s" if "wf_raft_obj m \<and> raft_type m = p"
    using that by (cases m) (auto simp: ae_codec.roundtrip aer_codec.roundtrip rv_codec.roundtrip
      rvr_codec.roundtrip raft_reply_codec.roundtrip)
  show "is_fail (raft_read p q)" if "wf_raft_obj m \<and> raft_type m = p" "strict_prefix q (raft_bytes m)"
    using that by (cases m) (auto intro: ae_codec.truncated aer_codec.truncated rv_codec.truncated
      rvr_codec.truncated raft_reply_codec.truncated)
qed

lemma arrives_map: "arrives len (map (\<lambda>(fl, m). (fl, f m)) ms) = map f (arrives (\<lambda>m. len (f m)) ms)"
  by (induction "\<lambda>m. len (f m)" ms rule: arrives.induct) simp_all

text \<open>C32. What a Raft replica sends to a peer over a fresh connection is what the peer's listener reads: it reads
  every message up to the first whose flush breaks, in order, and hands each to the channel of its type. Of
  the message at the break it reads nothing unless all its bytes had been written, and nothing that was sent
  later. (One goroutine per message does the handing over, so the event loop may see them in another
  order.)\<close>

theorem raft_messages_delivered:
  assumes "base_ok r" and "0 \<le> p" and "p < int (bN r)" and "Writers r ! nat p = Some []" and "wires r ! nat p = []"
    and "\<forall>x \<in> set ms. wf_raft_obj (snd x)"
  shows "\<exists>r'. send_seq p (map (\<lambda>(fl, m). (fl, raft_code (raft_type m), raft_bytes m)) ms) r = Some r' \<and>
    replicaListener raft_table raft_read (wires r' ! nat p) =
      (map (\<lambda>m. Deliver (raft_type m) m) (arrives (\<lambda>m. Suc (length (raft_bytes m))) ms), Closed)"
proof -
  let ?ms = "map (\<lambda>(fl, m). (fl, raft_type m, m)) ms"
  have "\<forall>x \<in> set ?ms. wf_raft_obj (snd (snd x)) \<and> raft_type (snd (snd x)) = fst (snd x)"
    using assms(6) by auto
  from raft_rpc.delivered [OF assms(1-5) this] show ?thesis
    by (simp add: comp_def split_def arrives_map [where f = "\<lambda>m. (raft_type m, m)", unfolded split_def])
qed

definition base2 :: base where
  "base2 = (NewReplica 0 1 2 False None)\<lparr>Writers := [None, Some []], Alive := [False, True]\<rparr>"

definition vote_msg :: raft_obj where
  "vote_msg = O_RequestVote \<lparr>rv_CandidateId = 0, rv_Term = 1, rv_LastLogIndex = -1, rv_LastLogTerm = 0\<rparr>"

theorem raft_messages_delivered_witness:
  "\<exists>r'. send_seq 1 [(Flushed, raft_code T_RequestVote, raft_bytes vote_msg),
      (Broken 3, raft_code T_RequestVote, raft_bytes vote_msg),
      (Flushed, raft_code T_RequestVote, raft_bytes vote_msg)] base2 = Some r' \<and>
    replicaListener raft_table raft_read (wires r' ! nat 1) = ([Deliver T_RequestVote vote_msg], Closed)"
proof -
  have v: "wf_raft_obj vote_msg" "raft_type vote_msg = T_RequestVote" "3 < length (raft_bytes vote_msg)"
    by (simp_all add: vote_msg_def wf_RequestVote_def is_i32_def RequestVote_Marshal_def)
  have "base_ok base2" "(0 :: int) \<le> 1" "1 < int (bN base2)" "Writers base2 ! nat 1 = Some []" "wires base2 ! nat 1 = []"
    by (simp_all add: base2_def base_ok_def NewReplica_def numeral_2_eq_2)
  from raft_messages_delivered [OF this, of "[(Flushed, vote_msg), (Broken 3, vote_msg), (Flushed, vote_msg)]"] v
  show ?thesis by (simp del: raft_code.simps)
qed

end
