(* ===== verification/Raft.thy ===== *)
theory Raft
  imports Raft_Msgs Defs Quorum
begin

section \<open>The Raft replica\<close>

text \<open>
  The replica of \<open>src/raft/raft.go\<close>: its state, one definition per method, and \<open>run_step\<close>, one
  iteration of the event loop.

  \<^item> A handler maps the state to the new state and the list of its outputs, in the order they are
    issued; \<open>None\<close> is a run-time panic.
  \<^item> The fields \<open>id\<close> and \<open>n\<close> are \<open>rid\<close> and \<open>nrep\<close>. Of the embedded base replica the
    model keeps what the package uses: \<open>PeerWriters\<close> (is the writer non-nil), \<open>ProposeChan\<close> (the
    queued proposals) and \<open>KV\<close> (\<open>State\<close>).
  \<^item> A timer is nil, stopped or running. The buffered channel \<open>commitNotify\<close> of capacity one is
    a flag, and \<open>onOff\<close> says whether the local variable \<open>onOffProposeChan\<close> of \<open>run\<close> is enabled.
  \<^item> The package never puts an object back into its message caches and every method sets all fields
    of the object it gets, so a message is built directly.
  \<^item> \<open>executeCommands\<close> runs in its own goroutine. It copies the committed entries under \<open>logMu\<close>
    and alone touches the key-value state, so that one round is one step.
\<close>

datatype role = FOLLOWER | CANDIDATE | LEADER
datatype timer = Nil_Timer | Stopped | Running

record LogEntry =
  le_Command :: command
  le_Term :: int
  le_CmdId :: CommandId

record raft =
  currentTerm :: int
  votedFor :: int
  log :: "LogEntry list"
  commitIndex :: int
  lastApplied :: int
  role :: role
  nextIndex :: "int list"
  matchIndex :: "int list"
  pendingProposals :: "GPropose option list"
  votesReceived :: int
  votesNeeded :: int
  knownLeader :: int
  electionTimer :: timer
  heartbeatTimer :: timer
  rid :: int
  nrep :: nat
  commitNotify :: bool
  batchWait :: int
  onOff :: bool
  PeerWriters :: "bool list"
  ProposeChan :: "GPropose list"
  KV :: kv_state

datatype raft_msg = M_AppendEntries AppendEntries | M_AppendEntriesReply AppendEntriesReply
  | M_RequestVote RequestVote | M_RequestVoteReply RequestVoteReply

datatype raft_out = SendTo int raft_msg | Reply GPropose ProposeReplyTS

type_synonym raft_result = "(raft \<times> raft_out list) option"

subsection \<open>Start and change of role\<close>

definition lastLogIndex :: "raft \<Rightarrow> int" where
  "lastLogIndex r = i32 (int (length (log r)) - 1)"

definition lastLogTerm :: "raft \<Rightarrow> int" where
  "lastLogTerm r = (if 0 \<le> lastLogIndex r then le_Term (log r ! nat (lastLogIndex r)) else 0)"

text \<open>The loop that (re)initialises the leader's view of its peers.\<close>

definition init_leader_state :: "raft \<Rightarrow> raft option" where
  "init_leader_state r = do {
     mi \<leftarrow> slice_set (replicate (nrep r) (-1)) (rid r) (lastLogIndex r);
     Some (r\<lparr>nextIndex := replicate (nrep r) (i32 (lastLogIndex r + 1)), matchIndex := mi\<rparr>)
   }"

definition BeTheLeader :: "raft \<Rightarrow> (raft \<times> BeTheLeaderReply) option" where
  "BeTheLeader r = do {
     r \<leftarrow> init_leader_state (r\<lparr>role := LEADER, votedFor := rid r\<rparr>);
     Some (r, \<lparr>btl_Leader = rid r, btl_NextLeader = rid r\<rparr>)
   }"

definition New :: "int \<Rightarrow> nat \<Rightarrow> bool \<Rightarrow> int \<Rightarrow> raft option" where
  "New i N isLeader batchDelayUs =
     (let r = \<lparr>currentTerm = 0, votedFor = -1, log = [], commitIndex = -1, lastApplied = -1,
               role = FOLLOWER, nextIndex = replicate N 0, matchIndex = replicate N (-1),
               pendingProposals = [], votesReceived = 0, votesNeeded = int N div 2 + 1,
               knownLeader = -1, electionTimer = Nil_Timer, heartbeatTimer = Nil_Timer,
               rid = i, nrep = N, commitNotify = False,
               batchWait = (if 0 < batchDelayUs then batchDelayUs else 0), onOff = True,
               PeerWriters = replicate N False, ProposeChan = [], KV = InitState\<rparr>
      in if isLeader then map_option fst (BeTheLeader r) else Some r)"

text \<open>\<open>Reset\<close> on a nil timer panics.\<close>

definition resetElectionTimer :: "raft \<Rightarrow> raft option" where
  "resetElectionTimer r =
     (if electionTimer r = Nil_Timer then None else Some (r\<lparr>electionTimer := Running\<rparr>))"

definition becomeFollower :: "int \<Rightarrow> raft \<Rightarrow> raft" where
  "becomeFollower term r =
     r\<lparr>currentTerm := term, role := FOLLOWER, votedFor := -1, votesReceived := 0,
       heartbeatTimer := (if heartbeatTimer r \<noteq> Nil_Timer then Stopped else Nil_Timer),
       electionTimer := (if electionTimer r \<noteq> Nil_Timer then Running else Nil_Timer)\<rparr>"

subsection \<open>Building and sending AppendEntries\<close>

type_synonym cached_entries = "command list \<times> CommandId list \<times> int"

definition entries_from :: "raft \<Rightarrow> int \<Rightarrow> cached_entries" where
  "entries_from r nextIdx =
     (let logLen = i32 (int (length (log r))); prevLogIndex = i32 (nextIdx - 1);
          prevTerm = (if 0 \<le> prevLogIndex \<and> prevLogIndex < logLen
                      then le_Term (log r ! nat prevLogIndex) else 0);
          es = (if nextIdx < logLen then drop (nat nextIdx) (log r) else [])
      in (map le_Command es, map le_CmdId es, prevTerm))"

definition mk_AppendEntries :: "raft \<Rightarrow> int \<Rightarrow> cached_entries \<Rightarrow> AppendEntries" where
  "mk_AppendEntries r prevLogIndex ce =
     (case ce of (entries, entryIds, prevTerm) \<Rightarrow>
       \<lparr>ae_LeaderId = rid r, ae_Term = currentTerm r, ae_PrevLogIndex = prevLogIndex,
        ae_PrevLogTerm = prevTerm, ae_LeaderCommit = commitIndex r,
        ae_EntryCnt = i32 (int (length entries)), ae_Entries = entries, ae_EntryIds = entryIds\<rparr>)"

text \<open>\<open>broadcastAppendEntries\<close> builds the messages with a cache of the entries by \<open>nextIdx\<close>;
  \<open>broadcast_build\<close> is the loop, over the peers still to do.\<close>

fun broadcast_build ::
    "raft \<Rightarrow> nat list \<Rightarrow> (int \<rightharpoonup> cached_entries) \<Rightarrow> (nat \<times> AppendEntries) list option" where
  "broadcast_build r [] cache = Some []"
| "broadcast_build r (i # is) cache =
     (if int i = rid r then broadcast_build r is cache
      else do {
        next0 \<leftarrow> slice_get (nextIndex r) (int i);
        let nextIdx = (if next0 < 0 then 0 else next0);
        let prevLogIndex = i32 (nextIdx - 1);
        let (ce, cache') = (case cache nextIdx of
             Some ce \<Rightarrow> (ce, cache)
           | None \<Rightarrow> (entries_from r nextIdx, cache(nextIdx \<mapsto> entries_from r nextIdx)));
        ms \<leftarrow> broadcast_build r is cache';
        Some ((i, mk_AppendEntries r prevLogIndex ce) # ms)
      })"

fun broadcast_write :: "raft \<Rightarrow> (nat \<times> AppendEntries) list \<Rightarrow> raft_out list option" where
  "broadcast_write r [] = Some []"
| "broadcast_write r ((i, ae) # ms) = do {
     w \<leftarrow> slice_get (PeerWriters r) (int i);
     outs \<leftarrow> broadcast_write r ms;
     Some (if w then SendTo (int i) (M_AppendEntries ae) # outs else outs)
   }"

definition broadcastAppendEntries :: "raft \<Rightarrow> raft_out list option" where
  "broadcastAppendEntries r = do {
     msgs \<leftarrow> broadcast_build r [0..<nrep r] Map.empty;
     broadcast_write r msgs
   }"

definition sendHeartbeats :: "raft \<Rightarrow> raft_out list option" where
  "sendHeartbeats r = broadcastAppendEntries r"

definition buildAppendEntries :: "raft \<Rightarrow> int \<Rightarrow> AppendEntries option" where
  "buildAppendEntries r peerId = do {
     next0 \<leftarrow> slice_get (nextIndex r) peerId;
     let nextIdx = (if next0 < 0 then 0 else next0);
     let logLen = i32 (int (length (log r)));
     let prevLogIndex = i32 (nextIdx - 1);
     let prevLogTerm = (if 0 \<le> prevLogIndex \<and> prevLogIndex < logLen
                        then le_Term (log r ! nat prevLogIndex) else 0);
     let es = (if nextIdx < logLen then drop (nat nextIdx) (log r) else []);
     Some \<lparr>ae_LeaderId = rid r, ae_Term = currentTerm r, ae_PrevLogIndex = prevLogIndex,
           ae_PrevLogTerm = prevLogTerm, ae_LeaderCommit = commitIndex r,
           ae_EntryCnt = i32 (int (length es)), ae_Entries = map le_Command es,
           ae_EntryIds = map le_CmdId es\<rparr>
   }"

definition sendAppendEntries :: "raft \<Rightarrow> int \<Rightarrow> raft_out list option" where
  "sendAppendEntries r peerId = do {
     ae \<leftarrow> buildAppendEntries r peerId;
     Some [SendTo peerId (M_AppendEntries ae)]
   }"

definition becomeLeader :: "raft \<Rightarrow> raft_result" where
  "becomeLeader r = do {
     r \<leftarrow> init_leader_state (r\<lparr>role := LEADER, knownLeader := rid r\<rparr>);
     let r = r\<lparr>electionTimer := (if electionTimer r \<noteq> Nil_Timer then Stopped else Nil_Timer),
               heartbeatTimer := (if heartbeatTimer r \<noteq> Nil_Timer then Running else Nil_Timer)\<rparr>;
     outs \<leftarrow> sendHeartbeats r;
     Some (r, outs)
   }"

subsection \<open>Proposals\<close>

definition maxBatchSize :: nat where
  "maxBatchSize = 256"

definition cmd_id_of :: "GPropose \<Rightarrow> CommandId" where
  "cmd_id_of p = \<lparr>ClientId = p_ClientId (Propose p), SeqNum = p_CommandId (Propose p)\<rparr>"

text \<open>One proposal of the batch: append its entry, extend \<open>pendingProposals\<close> with nil up to the
  entry's index and store it there.\<close>

definition append_proposal :: "GPropose \<Rightarrow> raft \<Rightarrow> raft option" where
  "append_proposal p r =
     (let lg = log r @ [\<lparr>le_Command = p_Command (Propose p), le_Term = currentTerm r,
                         le_CmdId = cmd_id_of p\<rparr>];
          logIdx = i32 (int (length lg) - 1);
          pend = pendingProposals r @ replicate (nat (logIdx + 1) - length (pendingProposals r)) None
      in do {
        pend \<leftarrow> slice_set pend logIdx (Some p);
        Some (r\<lparr>log := lg, pendingProposals := pend\<rparr>)
      })"

fun append_proposals :: "GPropose list \<Rightarrow> raft \<Rightarrow> raft option" where
  "append_proposals [] r = Some r"
| "append_proposals (p # ps) r = do { r \<leftarrow> append_proposal p r; append_proposals ps r }"

definition handlePropose :: "GPropose \<Rightarrow> raft \<Rightarrow> raft_result" where
  "handlePropose p r =
     (if role r \<noteq> LEADER
      then Some (r, [Reply p \<lparr>OK = FALSE, CommandId = p_CommandId (Propose p), Value = NIL,
                       Timestamp = p_Timestamp (Propose p), LeaderId = knownLeader r, LogIndex = 0\<rparr>])
      else
        let available = min (length (ProposeChan r)) (maxBatchSize - 1);
            proposals = p # take available (ProposeChan r)
        in do {
          r \<leftarrow> append_proposals proposals (r\<lparr>ProposeChan := drop available (ProposeChan r)\<rparr>);
          mi \<leftarrow> slice_set (matchIndex r) (rid r) (lastLogIndex r);
          let r = r\<lparr>matchIndex := mi\<rparr>;
          outs \<leftarrow> broadcastAppendEntries r;
          Some (r, outs)
        })"

subsection \<open>AppendEntries at a follower\<close>

definition ae_reply :: "raft \<Rightarrow> int \<Rightarrow> int \<Rightarrow> int \<Rightarrow> raft_out" where
  "ae_reply r dest success matchIdx =
     SendTo dest (M_AppendEntriesReply
       \<lparr>aer_FollowerId = rid r, aer_Term = currentTerm r, aer_Success = success,
        aer_MatchIndex = matchIdx\<rparr>)"

text \<open>The loop that stores the entries that are not in the log yet: \<open>i\<close> is the loop variable and
  the list holds the entries from \<open>i\<close> on.\<close>

fun append_entries_loop ::
    "int \<Rightarrow> int \<Rightarrow> CommandId list \<Rightarrow> nat \<Rightarrow> command list \<Rightarrow> LogEntry list \<Rightarrow> LogEntry list option" where
  "append_entries_loop term insertIdx ids i [] lg = Some lg"
| "append_entries_loop term insertIdx ids i (c # cs) lg =
     (let logIdx = i32 (insertIdx + int i);
          entry = \<lparr>le_Command = c, le_Term = term,
                   le_CmdId = (if i < length ids then ids ! i else zero_CommandId)\<rparr>
      in if logIdx < i32 (int (length lg))
         then do {
           e \<leftarrow> slice_get lg logIdx;
           if le_Term e \<noteq> term
           then append_entries_loop term insertIdx ids (Suc i) cs (take (nat logIdx) lg @ [entry])
           else append_entries_loop term insertIdx ids (Suc i) cs lg
         }
         else append_entries_loop term insertIdx ids (Suc i) cs (lg @ [entry]))"

definition handleAppendEntries :: "AppendEntries \<Rightarrow> raft \<Rightarrow> raft_result" where
  "handleAppendEntries msg r =
     (if ae_Term msg < currentTerm r then Some (r, [ae_reply r (ae_LeaderId msg) 0 (-1)])
      else
        let r = (if currentTerm r < ae_Term msg then becomeFollower (ae_Term msg) r
                 else if role r = CANDIDATE then r\<lparr>role := FOLLOWER, votesReceived := 0\<rparr>
                 else r);
            r = r\<lparr>knownLeader := ae_LeaderId msg\<rparr>
        in if 0 \<le> ae_PrevLogIndex msg \<and> i32 (int (length (log r))) \<le> ae_PrevLogIndex msg
           then Some (r, [ae_reply r (ae_LeaderId msg) 0 (lastLogIndex r)])
           else if 0 \<le> ae_PrevLogIndex msg \<and>
             le_Term (log r ! nat (ae_PrevLogIndex msg)) \<noteq> ae_PrevLogTerm msg
           then
             let r = r\<lparr>log := take (nat (ae_PrevLogIndex msg)) (log r)\<rparr>
             in Some (r, [ae_reply r (ae_LeaderId msg) 0 (lastLogIndex r)])
           else do {
             lg \<leftarrow> append_entries_loop (ae_Term msg) (i32 (ae_PrevLogIndex msg + 1)) (ae_EntryIds msg)
                      0 (ae_Entries msg) (log r);
             let r = r\<lparr>log := lg\<rparr>;
             let oldCommitIndex = commitIndex r;
             let r = r\<lparr>commitIndex :=
                (if commitIndex r < ae_LeaderCommit msg
                 then (if ae_LeaderCommit msg < lastLogIndex r then ae_LeaderCommit msg
                       else lastLogIndex r)
                 else commitIndex r)\<rparr>;
             let r = (if oldCommitIndex < commitIndex r then r\<lparr>commitNotify := True\<rparr> else r);
             Some (r, [ae_reply r (ae_LeaderId msg) 1 (lastLogIndex r)])
           })"

subsection \<open>Replies at the leader\<close>

text \<open>The loop of \<open>advanceCommitIndex\<close> over the candidate indices; it stops at the first entry of
  the current term that is not on a majority.\<close>

definition replica_count :: "raft \<Rightarrow> int \<Rightarrow> int" where
  "replica_count r candidate =
     int (length (filter (\<lambda>m. candidate \<le> m) (take (nrep r) (matchIndex r))))"

fun advance_loop :: "raft \<Rightarrow> int list \<Rightarrow> int \<Rightarrow> int option" where
  "advance_loop r [] ci = Some ci"
| "advance_loop r (candidate # cs) ci = do {
     e \<leftarrow> slice_get (log r) candidate;
     if le_Term e \<noteq> currentTerm r then advance_loop r cs ci
     else if length (matchIndex r) < nrep r then None
     else if votesNeeded r \<le> replica_count r candidate then advance_loop r cs candidate
     else Some ci
   }"

definition advanceCommitIndex :: "raft \<Rightarrow> raft option" where
  "advanceCommitIndex r = do {
     ci \<leftarrow> advance_loop r [i32 (commitIndex r + 1)..i32 (int (length (log r))) - 1] (commitIndex r);
     Some (r\<lparr>commitIndex := ci, commitNotify := (commitNotify r \<or> ci \<noteq> commitIndex r)\<rparr>)
   }"

definition applyReplyUpdate :: "AppendEntriesReply \<Rightarrow> raft \<Rightarrow> raft_result" where
  "applyReplyUpdate msg r =
     (if role r \<noteq> LEADER then Some (r, [])
      else if currentTerm r < aer_Term msg then Some (becomeFollower (aer_Term msg) r, [])
      else if aer_Success msg = 1 then do {
        m \<leftarrow> slice_get (matchIndex r) (aer_FollowerId msg);
        if m \<le> aer_MatchIndex msg then do {
          mi \<leftarrow> slice_set (matchIndex r) (aer_FollowerId msg) (aer_MatchIndex msg);
          ni \<leftarrow> slice_set (nextIndex r) (aer_FollowerId msg) (i32 (aer_MatchIndex msg + 1));
          Some (r\<lparr>matchIndex := mi, nextIndex := ni\<rparr>, [])
        } else Some (r, [])
      }
      else do {
        ni \<leftarrow> slice_set (nextIndex r) (aer_FollowerId msg)
                (if 0 \<le> aer_MatchIndex msg then i32 (aer_MatchIndex msg + 1) else 0);
        let r = r\<lparr>nextIndex := ni\<rparr>;
        outs \<leftarrow> sendAppendEntries r (aer_FollowerId msg);
        Some (r, outs)
      })"

definition handleAppendEntriesReply :: "AppendEntriesReply \<Rightarrow> raft \<Rightarrow> raft_result" where
  "handleAppendEntriesReply msg r =
     (if role r \<noteq> LEADER then Some (r, [])
      else if currentTerm r < aer_Term msg then Some (becomeFollower (aer_Term msg) r, [])
      else if aer_Success msg = 1 then do {
        m \<leftarrow> slice_get (matchIndex r) (aer_FollowerId msg);
        r \<leftarrow> (if m \<le> aer_MatchIndex msg then do {
               mi \<leftarrow> slice_set (matchIndex r) (aer_FollowerId msg) (aer_MatchIndex msg);
               ni \<leftarrow> slice_set (nextIndex r) (aer_FollowerId msg) (i32 (aer_MatchIndex msg + 1));
               Some (r\<lparr>matchIndex := mi, nextIndex := ni\<rparr>)
             } else Some r);
        r \<leftarrow> advanceCommitIndex r;
        Some (r, [])
      }
      else do {
        ni \<leftarrow> slice_set (nextIndex r) (aer_FollowerId msg)
                (if 0 \<le> aer_MatchIndex msg then i32 (aer_MatchIndex msg + 1) else 0);
        let r = r\<lparr>nextIndex := ni\<rparr>;
        outs \<leftarrow> sendAppendEntries r (aer_FollowerId msg);
        Some (r, outs)
      })"

text \<open>The replies of one batch: the one the event loop received and those already waiting in the
  channel.\<close>

fun apply_replies :: "AppendEntriesReply list \<Rightarrow> raft \<Rightarrow> raft_result" where
  "apply_replies [] r = Some (r, [])"
| "apply_replies (m # ms) r = do {
     (r, outs) \<leftarrow> applyReplyUpdate m r;
     (r, outs') \<leftarrow> apply_replies ms r;
     Some (r, outs @ outs')
   }"

definition handleAppendEntriesReplyBatch ::
    "AppendEntriesReply \<Rightarrow> AppendEntriesReply list \<Rightarrow> raft \<Rightarrow> raft_result" where
  "handleAppendEntriesReplyBatch first waiting r = do {
     (r, outs) \<leftarrow> apply_replies (first # waiting) r;
     if role r = LEADER then do { r \<leftarrow> advanceCommitIndex r; Some (r, outs) }
     else Some (r, outs)
   }"

subsection \<open>Elections\<close>

definition isLogUpToDate :: "RequestVote \<Rightarrow> raft \<Rightarrow> bool" where
  "isLogUpToDate msg r =
     (if rv_LastLogTerm msg \<noteq> lastLogTerm r then lastLogTerm r < rv_LastLogTerm msg
      else lastLogIndex r \<le> rv_LastLogIndex msg)"

definition vote_reply :: "raft \<Rightarrow> int \<Rightarrow> int \<Rightarrow> raft_out" where
  "vote_reply r dest granted =
     SendTo dest (M_RequestVoteReply
       \<lparr>rvr_VoterId = rid r, rvr_Term = currentTerm r, rvr_VoteGranted = granted\<rparr>)"

definition handleRequestVote :: "RequestVote \<Rightarrow> raft \<Rightarrow> raft_result" where
  "handleRequestVote msg r =
     (if rv_Term msg < currentTerm r then Some (r, [vote_reply r (rv_CandidateId msg) 0])
      else
        let r = (if currentTerm r < rv_Term msg then becomeFollower (rv_Term msg) r else r);
            grant = ((votedFor r = -1 \<or> votedFor r = rv_CandidateId msg) \<and> isLogUpToDate msg r);
            r = (if grant then r\<lparr>votedFor := rv_CandidateId msg\<rparr> else r)
        in Some (r, [vote_reply r (rv_CandidateId msg) (if grant then 1 else 0)]))"

definition handleRequestVoteReply :: "RequestVoteReply \<Rightarrow> raft \<Rightarrow> raft_result" where
  "handleRequestVoteReply msg r =
     (if role r \<noteq> CANDIDATE then Some (r, [])
      else if currentTerm r < rvr_Term msg then Some (becomeFollower (rvr_Term msg) r, [])
      else if rvr_VoteGranted msg = 1 then
        let r = r\<lparr>votesReceived := i64 (votesReceived r + 1)\<rparr>
        in if votesNeeded r \<le> votesReceived r then becomeLeader r else Some (r, [])
      else Some (r, []))"

definition startElection :: "raft \<Rightarrow> raft \<times> raft_out list" where
  "startElection r =
     (let r = r\<lparr>currentTerm := i32 (currentTerm r + 1), role := CANDIDATE, votedFor := rid r,
                votesReceived := 1\<rparr>;
          rv = \<lparr>rv_CandidateId = rid r, rv_Term = currentTerm r,
                rv_LastLogIndex = lastLogIndex r, rv_LastLogTerm = lastLogTerm r\<rparr>
      in (r, map (\<lambda>i. SendTo (int i) (M_RequestVote rv))
               (filter (\<lambda>i. int i \<noteq> rid r) [0..<nrep r])))"

subsection \<open>Execution\<close>

text \<open>The loop that copies the committed entries, over the indices after \<open>lastApplied\<close>: it leaves
  the index applied last, the proposals still pending and the batch.\<close>

fun snapshot_loop ::
    "LogEntry list \<Rightarrow> int list \<Rightarrow> int \<Rightarrow> GPropose option list \<Rightarrow>
     int \<times> GPropose option list \<times> (LogEntry \<times> GPropose option) list" where
  "snapshot_loop lg [] la pend = (la, pend, [])"
| "snapshot_loop lg (idx # is) la pend =
     (if idx < 0 \<or> i32 (int (length lg)) \<le> idx then (la, pend, [])
      else
        let pe = (lg ! nat idx, if idx < i32 (int (length pend)) then pend ! nat idx else None);
            (la', pend', batch) = snapshot_loop lg is idx
               (if idx < i32 (int (length pend)) then pend[nat idx := None] else pend)
        in (la', pend', pe # batch))"

fun execute_batch ::
    "(LogEntry \<times> GPropose option) list \<Rightarrow> kv_state \<Rightarrow> (kv_state \<times> raft_out list) option" where
  "execute_batch [] st = Some (st, [])"
| "execute_batch ((e, prop) # bs) st = do {
     (v, st) \<leftarrow> Execute (le_Command e) st;
     (st, outs) \<leftarrow> execute_batch bs st;
     Some (st, (case prop of
        None \<Rightarrow> []
      | Some p \<Rightarrow> [Reply p \<lparr>OK = TRUE, CommandId = p_CommandId (Propose p), Value = v,
          Timestamp = p_Timestamp (Propose p), LeaderId = -1, LogIndex = 0\<rparr>]) @ outs)
   }"

text \<open>One round of the loop: it starts when a notification is taken out of \<open>commitNotify\<close>.\<close>

definition executeCommands :: "raft \<Rightarrow> raft_result" where
  "executeCommands r =
     (let (la, pend, batch) = snapshot_loop (log r) [lastApplied r + 1..commitIndex r] (lastApplied r)
            (pendingProposals r)
      in do {
        (st, outs) \<leftarrow> execute_batch batch (KV r);
        Some (r\<lparr>lastApplied := la, pendingProposals := pend, KV := st, commitNotify := False\<rparr>, outs)
      })"

subsection \<open>The event loop\<close>

text \<open>What \<open>run\<close> does before the loop, once the peers in \<open>writers\<close> are connected.\<close>

definition run_start :: "bool list \<Rightarrow> raft \<Rightarrow> raft_result" where
  "run_start writers r =
     (let r = r\<lparr>PeerWriters := writers, electionTimer := Running, heartbeatTimer := Running\<rparr>
      in if role r = LEADER
         then do {
           let r = r\<lparr>electionTimer := Stopped\<rparr>;
           outs \<leftarrow> sendHeartbeats r;
           Some (r, outs)
         }
         else Some (r\<lparr>heartbeatTimer := Stopped\<rparr>, []))"

datatype raft_event =
    Ev_Propose
  | Ev_BatchClock
  | Ev_AppendEntries AppendEntries
  | Ev_AppendEntriesReply AppendEntriesReply "AppendEntriesReply list"
  | Ev_RequestVote RequestVote
  | Ev_RequestVoteReply RequestVoteReply
  | Ev_ElectionTimer
  | Ev_HeartbeatTimer
  | Ev_Execute
  | Ev_Enqueue GPropose
  | Ev_BeTheLeader

text \<open>One event: the cases of the \<open>select\<close> statement, a round of \<open>executeCommands\<close>, a client's
  proposal put into \<open>ProposeChan\<close> and the master's RPC. An event whose channel is not ready leaves
  the state as it is.\<close>

fun run_step :: "raft_event \<Rightarrow> raft \<Rightarrow> raft_result" where
  "run_step Ev_Propose r =
     (if \<not> onOff r then Some (r, [])
      else case ProposeChan r of
        [] \<Rightarrow> Some (r, [])
      | p # ps \<Rightarrow> do {
          (r, outs) \<leftarrow> handlePropose p (r\<lparr>ProposeChan := ps\<rparr>);
          Some (r\<lparr>onOff := \<not> 0 < batchWait r\<rparr>, outs)
        })"
| "run_step Ev_BatchClock r = Some (if 0 < batchWait r then r\<lparr>onOff := True\<rparr> else r, [])"
| "run_step (Ev_AppendEntries ae) r = do {
     (r, outs) \<leftarrow> handleAppendEntries ae r;
     r \<leftarrow> (if currentTerm r \<le> ae_Term ae then resetElectionTimer r else Some r);
     Some (r, outs)
   }"
| "run_step (Ev_AppendEntriesReply m ms) r = handleAppendEntriesReplyBatch m ms r"
| "run_step (Ev_RequestVote m) r = handleRequestVote m r"
| "run_step (Ev_RequestVoteReply m) r = handleRequestVoteReply m r"
| "run_step Ev_ElectionTimer r =
     (if electionTimer r \<noteq> Running then Some (r, [])
      else let r = r\<lparr>electionTimer := Stopped\<rparr>
           in if role r \<noteq> LEADER
              then let (r, outs) = startElection r
                   in do { r \<leftarrow> resetElectionTimer r; Some (r, outs) }
              else Some (r, []))"
| "run_step Ev_HeartbeatTimer r =
     (if heartbeatTimer r \<noteq> Running then Some (r, [])
      else let r = r\<lparr>heartbeatTimer := Stopped\<rparr>
           in if role r = LEADER
              then do { outs \<leftarrow> sendHeartbeats r; Some (r\<lparr>heartbeatTimer := Running\<rparr>, outs) }
              else Some (r, []))"
| "run_step Ev_Execute r = (if commitNotify r then executeCommands r else Some (r, []))"
| "run_step (Ev_Enqueue p) r = Some (r\<lparr>ProposeChan := ProposeChan r @ [p]\<rparr>, [])"
| "run_step Ev_BeTheLeader r = do { (r, _) \<leftarrow> BeTheLeader r; Some (r, []) }"

end
