(* ===== verification/Raft_Props.thy ===== *)
theory Raft_Props
  imports Raft
begin

section \<open>Correctness of the Raft handlers\<close>

text \<open>
  What the methods of one Raft replica guarantee, whatever messages arrive: no handler panics in a
  well-formed state, terms grow and votes are kept, the cached broadcast builds the messages the
  plain routine builds, the commit index is the largest one a majority supports, proposals are
  appended in order, and committed entries are executed in the order of the log.
\<close>

subsection \<open>Well-formed states and events\<close>

definition raft_ok :: "raft \<Rightarrow> bool" where
  "raft_ok r \<longleftrightarrow>
     length (nextIndex r) = nrep r \<and> length (matchIndex r) = nrep r \<and>
     length (PeerWriters r) = nrep r \<and> 0 \<le> rid r \<and> rid r < int (nrep r) \<and>
     electionTimer r \<noteq> Nil_Timer \<and> heartbeatTimer r \<noteq> Nil_Timer \<and>
     - 1 \<le> commitIndex r \<and> commitIndex r < 2147483647 \<and> - 1 \<le> lastApplied r \<and>
     length (log r) < 2147483647 \<and> length (pendingProposals r) < 2147483648"

text \<open>A command whose execution returns: a scan needs a count, and not the largest one.\<close>

definition executable :: "command \<Rightarrow> bool" where
  "executable c \<longleftrightarrow> (\<forall>st. Execute c st \<noteq> None)"

text \<open>A message a replica of the same cluster may have sent, and room for the entries it brings.\<close>

fun event_ok :: "raft \<Rightarrow> raft_event \<Rightarrow> bool" where
  "event_ok r Ev_Propose = (length (log r) + maxBatchSize < 2147483647)"
| "event_ok r (Ev_AppendEntries m) =
     (- 1 \<le> ae_PrevLogIndex m \<and> length (log r) + length (ae_Entries m) < 2147483647)"
| "event_ok r (Ev_AppendEntriesReply m ms) =
     (\<forall>x \<in> set (m # ms). 0 \<le> aer_FollowerId x \<and> aer_FollowerId x < int (nrep r))"
| "event_ok r Ev_Execute = (\<forall>e \<in> set (log r). executable (le_Command e))"
| "event_ok r _ = True"

lemma i32_length: "length xs < 2147483648 \<Longrightarrow> i32 (int (length xs)) = int (length xs)"
  by (simp add: is_i32_def)

lemma lastLogIndex_eq: "length (log r) \<le> 2147483648 \<Longrightarrow> lastLogIndex r = int (length (log r)) - 1"
  by (simp add: lastLogIndex_def is_i32_def)

subsection \<open>The broadcast and the single message\<close>

lemma entries_from_build:
  "slice_get (nextIndex r) i = Some next0 \<Longrightarrow>
     buildAppendEntries r i =
       Some (mk_AppendEntries r (i32 ((if next0 < 0 then 0 else next0) - 1))
         (entries_from r (if next0 < 0 then 0 else next0)))"
  by (simp add: buildAppendEntries_def mk_AppendEntries_def entries_from_def Let_def)

lemma broadcast_build_eq:
  assumes "\<And>k ce. cache k = Some ce \<Longrightarrow> ce = entries_from r k"
    and "\<forall>i \<in> set is. i < length (nextIndex r)"
  shows "broadcast_build r is cache =
    Some (map (\<lambda>i. (i, the (buildAppendEntries r (int i)))) (filter (\<lambda>i. int i \<noteq> rid r) is))"
  using assms
proof (induction "is" arbitrary: cache)
  case (Cons i "is")
  let ?x = "nextIndex r ! i"
  let ?k = "if ?x < 0 then 0 else ?x"
  have i: "slice_get (nextIndex r) (int i) = Some ?x" using Cons.prems(2) by simp
  have ce: "(case cache ?k of Some ce \<Rightarrow> (ce, cache)
      | None \<Rightarrow> (entries_from r ?k, cache(?k \<mapsto> entries_from r ?k))) =
    (entries_from r ?k, cache(?k \<mapsto> entries_from r ?k))"
    using Cons.prems(1) [of ?k] by (auto split: option.splits simp: fun_upd_idem)
  have IH: "broadcast_build r is (cache(?k \<mapsto> entries_from r ?k)) =
    Some (map (\<lambda>i. (i, the (buildAppendEntries r (int i)))) (filter (\<lambda>i. int i \<noteq> rid r) is))"
    using Cons.prems by (intro Cons.IH) (auto split: if_splits)
  have "broadcast_build r is cache =
    Some (map (\<lambda>i. (i, the (buildAppendEntries r (int i)))) (filter (\<lambda>i. int i \<noteq> rid r) is))"
    using Cons.prems by (intro Cons.IH) auto
  then show ?case
    by (simp add: i ce IH entries_from_build [OF i] Let_def del: fun_upd_apply)
qed simp

lemma broadcast_write_eq:
  "\<forall>(i, m) \<in> set ms. i < length (PeerWriters r) \<Longrightarrow>
     broadcast_write r ms =
       Some (map (\<lambda>(i, m). SendTo (int i) (M_AppendEntries m)) (filter (\<lambda>(i, m). PeerWriters r ! i) ms))"
  by (induction ms) auto

lemma broadcast_eq:
  assumes "length (nextIndex r) = nrep r" and "length (PeerWriters r) = nrep r"
  shows "broadcastAppendEntries r =
    Some (map (\<lambda>i. SendTo (int i) (M_AppendEntries (the (buildAppendEntries r (int i)))))
      (filter (\<lambda>i. int i \<noteq> rid r \<and> PeerWriters r ! i) [0..<nrep r]))"
proof -
  have b: "broadcast_build r [0..<nrep r] Map.empty =
    Some (map (\<lambda>i. (i, the (buildAppendEntries r (int i)))) (filter (\<lambda>i. int i \<noteq> rid r) [0..<nrep r]))"
    using assms(1) by (intro broadcast_build_eq) auto
  show ?thesis
    unfolding broadcastAppendEntries_def b using assms(2)
    by (simp add: broadcast_write_eq filter_map comp_def conj_commute)
qed

subsection \<open>No handler panics\<close>

lemma init_leader_state_ok:
  assumes "0 \<le> rid r" and "rid r < int (nrep r)"
  shows "init_leader_state r =
    Some (r\<lparr>nextIndex := replicate (nrep r) (i32 (lastLogIndex r + 1)),
            matchIndex := (replicate (nrep r) (- 1))[nat (rid r) := lastLogIndex r]\<rparr>)"
  using assms by (simp add: init_leader_state_def slice_set_def)

lemma becomeFollower_ok: "raft_ok r \<Longrightarrow> raft_ok (becomeFollower t r)"
  by (simp add: raft_ok_def becomeFollower_def)

lemma becomeLeader_ok:
  assumes "raft_ok r"
  shows "\<exists>r' outs. becomeLeader r = Some (r', outs) \<and> raft_ok r'"
  using assms
  by (simp add: becomeLeader_def raft_ok_def init_leader_state_ok sendHeartbeats_def Let_def
      broadcast_eq)

text \<open>The proposal pending at an index of the log.\<close>

definition pending_at :: "raft \<Rightarrow> int \<Rightarrow> GPropose option" where
  "pending_at r i =
     (if 0 \<le> i \<and> nat i < length (pendingProposals r) then pendingProposals r ! nat i else None)"

text \<open>The log entry of a proposal.\<close>

definition proposal_entry :: "int \<Rightarrow> GPropose \<Rightarrow> LogEntry" where
  "proposal_entry t p =
     \<lparr>le_Command = p_Command (Propose p), le_Term = t, le_CmdId = cmd_id_of p\<rparr>"

lemma append_proposal_eq:
  assumes "length (log r) < 2147483647"
  shows "\<exists>pend. append_proposal p r =
      Some (r\<lparr>log := log r @ [proposal_entry (currentTerm r) p], pendingProposals := pend\<rparr>) \<and>
    length pend = max (length (pendingProposals r)) (Suc (length (log r))) \<and>
    (\<forall>i. pending_at (r\<lparr>pendingProposals := pend\<rparr>) i =
       (if i = int (length (log r)) then Some p else pending_at r i))"
  (is "\<exists>pend. ?A pend \<and> ?B pend \<and> ?C pend")
proof -
  define pend where "pend = (pendingProposals r @
    replicate (Suc (length (log r)) - length (pendingProposals r)) None) [length (log r) := Some p]"
  have "?A pend"
    using assms by (simp add: append_proposal_def Let_def is_i32_def slice_set_def nat_add_distrib
        pend_def proposal_entry_def)
  moreover have "?B pend" by (simp add: pend_def)
  moreover have "?C pend"
    by (auto simp: pend_def pending_at_def nth_append nth_list_update)
  ultimately show ?thesis by blast
qed

lemma append_proposals_eq:
  "length (log r) + length ps \<le> 2147483647 \<Longrightarrow>
   \<exists>pend. append_proposals ps r =
      Some (r\<lparr>log := log r @ map (proposal_entry (currentTerm r)) ps, pendingProposals := pend\<rparr>) \<and>
    length pend \<le> max (length (pendingProposals r)) (length (log r) + length ps) \<and>
    (\<forall>i. pending_at (r\<lparr>pendingProposals := pend\<rparr>) i =
       (if int (length (log r)) \<le> i \<and> i < int (length (log r) + length ps)
        then Some (ps ! nat (i - int (length (log r)))) else pending_at r i))"
proof (induction ps arbitrary: r)
  case (Cons p ps)
  from append_proposal_eq [of r p] Cons.prems obtain pend where p:
      "append_proposal p r = Some (r\<lparr>log := log r @ [proposal_entry (currentTerm r) p],
          pendingProposals := pend\<rparr>)"
      "length pend = max (length (pendingProposals r)) (Suc (length (log r)))"
      "\<And>i. pending_at (r\<lparr>pendingProposals := pend\<rparr>) i =
         (if i = int (length (log r)) then Some p else pending_at r i)"
    by auto
  let ?r = "r\<lparr>log := log r @ [proposal_entry (currentTerm r) p], pendingProposals := pend\<rparr>"
  from Cons.IH [of ?r] Cons.prems obtain pend' where q:
      "append_proposals ps ?r = Some (?r\<lparr>log := log ?r @ map (proposal_entry (currentTerm r)) ps,
          pendingProposals := pend'\<rparr>)"
      "length pend' \<le> max (length pend) (length (log ?r) + length ps)"
      "\<And>i. pending_at (?r\<lparr>pendingProposals := pend'\<rparr>) i =
         (if int (length (log ?r)) \<le> i \<and> i < int (length (log ?r) + length ps)
          then Some (ps ! nat (i - int (length (log ?r)))) else pending_at ?r i)"
    by auto
  have pa: "pending_at (?r\<lparr>pendingProposals := x\<rparr>) i = pending_at (r\<lparr>pendingProposals := x\<rparr>) i"
    "pending_at ?r i = pending_at (r\<lparr>pendingProposals := pend\<rparr>) i" for x i
    by (simp_all add: pending_at_def)
  have nth: "(p # ps) ! nat (i - int (length (log r))) = ps ! nat (i - int (length (log ?r)))"
    if "int (length (log ?r)) \<le> i" for i
  proof -
    have "nat (i - int (length (log r))) = Suc (nat (i - int (length (log ?r))))" using that by simp
    then show ?thesis by simp
  qed
  show ?case
    using p(1,2) q(1,2) q(3) [unfolded pa p(3)] nth
    by (intro exI [of _ pend'] conjI allI) auto
next
  case Nil
  show ?case by (rule exI [of _ "pendingProposals r"]) auto
qed

text \<open>The proposals a leader takes out of its queue together with the first one.\<close>

definition batch_of :: "GPropose \<Rightarrow> raft \<Rightarrow> GPropose list" where
  "batch_of p r = p # take (min (length (ProposeChan r)) (maxBatchSize - 1)) (ProposeChan r)"

lemma length_batch_of: "length (batch_of p r) \<le> maxBatchSize"
  by (simp add: batch_of_def maxBatchSize_def)

lemma handlePropose_leader:
  assumes "raft_ok r" and "length (log r) + maxBatchSize < 2147483647" and "role r = LEADER"
  shows "\<exists>r' pend. r' = r\<lparr>ProposeChan := drop (length (batch_of p r) - 1) (ProposeChan r),
        log := log r @ map (proposal_entry (currentTerm r)) (batch_of p r), pendingProposals := pend,
        matchIndex := (matchIndex r)[nat (rid r) := int (length (log r) + length (batch_of p r)) - 1]\<rparr> \<and>
      handlePropose p r = Some (r', the (broadcastAppendEntries r')) \<and> raft_ok r' \<and>
      (\<forall>i. pending_at r' i =
         (if int (length (log r)) \<le> i \<and> i < int (length (log r) + length (batch_of p r))
          then Some (batch_of p r ! nat (i - int (length (log r)))) else pending_at r i))"
proof -
  let ?ps = "batch_of p r"
  let ?q = "drop (length ?ps - 1) (ProposeChan r)"
  let ?r = "r\<lparr>ProposeChan := ?q\<rparr>"
  have b: "length (log r) + length ?ps < 2147483647" using length_batch_of [of p r] assms(2) by simp
  then have "length (log ?r) + length ?ps \<le> 2147483647" by simp
  from append_proposals_eq [OF this] obtain pend where p: "append_proposals ?ps ?r =
        Some (?r\<lparr>log := log r @ map (proposal_entry (currentTerm r)) ?ps, pendingProposals := pend\<rparr>)"
      "length pend \<le> max (length (pendingProposals r)) (length (log r) + length ?ps)"
      "\<And>i. pending_at (?r\<lparr>pendingProposals := pend\<rparr>) i =
         (if int (length (log r)) \<le> i \<and> i < int (length (log r) + length ?ps)
          then Some (?ps ! nat (i - int (length (log r)))) else pending_at ?r i)"
    by auto
  define r' where "r' = r\<lparr>ProposeChan := ?q,
        log := log r @ map (proposal_entry (currentTerm r)) ?ps, pendingProposals := pend,
        matchIndex := (matchIndex r)[nat (rid r) := int (length (log r) + length ?ps) - 1]\<rparr>"
  have "length pend < 2147483648"
    using p(2) b assms(1) by (auto simp: raft_ok_def max_def split: if_splits)
  then have ok: "raft_ok r'" using assms(1) b by (simp add: raft_ok_def r'_def)
  have li: "lastLogIndex (?r\<lparr>log := log r @ map (proposal_entry (currentTerm r)) ?ps,
      pendingProposals := pend\<rparr>) = int (length (log r) + length ?ps) - 1"
    using b by (subst lastLogIndex_eq) simp_all
  have take: "p # take (min (length (ProposeChan r)) (maxBatchSize - 1)) (ProposeChan r) = ?ps"
    "drop (min (length (ProposeChan r)) (maxBatchSize - 1)) (ProposeChan r) = ?q"
    by (simp_all add: batch_of_def)
  have mi: "slice_set (matchIndex r) (rid r) (int (length (log r) + length ?ps) - 1) =
      Some ((matchIndex r)[nat (rid r) := int (length (log r) + length ?ps) - 1])"
    using assms(1) by (simp add: slice_set_def raft_ok_def)
  obtain outs where out: "broadcastAppendEntries r' = Some outs"
    using ok by (simp add: broadcast_eq raft_ok_def)
  have "handlePropose p r = Some (r', outs)"
    unfolding handlePropose_def Let_def take
    using assms(3) p(1) li mi out unfolding r'_def by simp
  then have "handlePropose p r = Some (r', the (broadcastAppendEntries r'))" by (simp add: out)
  moreover have "pending_at r' i = pending_at (?r\<lparr>pendingProposals := pend\<rparr>) i"
    "pending_at ?r i = pending_at r i" for i by (simp_all add: pending_at_def r'_def)
  ultimately show ?thesis using ok r'_def p(3) by metis
qed

lemma handlePropose_ok:
  assumes "raft_ok r" and "length (log r) + maxBatchSize < 2147483647"
  shows "\<exists>r' outs. handlePropose p r = Some (r', outs) \<and> raft_ok r'"
proof (cases "role r = LEADER")
  case True
  from handlePropose_leader [OF assms True, of p] show ?thesis by blast
qed (use assms in \<open>simp add: handlePropose_def\<close>)

subsection \<open>Storing the leader's entries\<close>

text \<open>The entries of a message, and the reference for the loop that stores them: skip the entries
  the log has with the same term, cut the log at the first one that differs, append the rest.\<close>

definition new_entries :: "int \<Rightarrow> CommandId list \<Rightarrow> nat \<Rightarrow> command list \<Rightarrow> LogEntry list" where
  "new_entries t ids i cs =
     map2 (\<lambda>j c. \<lparr>le_Command = c, le_Term = t,
                 le_CmdId = (if j < length ids then ids ! j else zero_CommandId)\<rparr>)
       [i..<i + length cs] cs"

fun merge_entries :: "LogEntry list \<Rightarrow> nat \<Rightarrow> LogEntry list \<Rightarrow> LogEntry list" where
  "merge_entries lg k [] = lg"
| "merge_entries lg k (e # es) =
     (if k < length lg \<and> le_Term (lg ! k) = le_Term e then merge_entries lg (Suc k) es
      else take k lg @ e # es)"

lemma new_entries_Nil [simp]: "new_entries t ids i [] = []"
  by (simp add: new_entries_def)

lemma length_new_entries [simp]: "length (new_entries t ids i cs) = length cs"
  by (simp add: new_entries_def)

lemma new_entries_Cons [simp]:
  "new_entries t ids i (c # cs) =
     \<lparr>le_Command = c, le_Term = t, le_CmdId = (if i < length ids then ids ! i else zero_CommandId)\<rparr> #
     new_entries t ids (Suc i) cs"
  by (simp add: new_entries_def upt_conv_Cons del: upt_Suc)

lemma le_Term_new_entries: "e \<in> set (new_entries t ids i cs) \<Longrightarrow> le_Term e = t"
  by (induction cs arbitrary: i) auto

lemma merge_entries_end: "merge_entries lg (length lg) es = lg @ es"
  by (cases es) simp_all

lemma length_merge_entries:
  "k \<le> length lg \<Longrightarrow> length (merge_entries lg k es) \<le> max (length lg) (k + length es)"
  by (induction lg k es rule: merge_entries.induct) (auto simp: max_def)

lemma append_entries_loop_eq:
  assumes "p + i \<le> length lg" and "length lg + length cs < 2147483648"
  shows "append_entries_loop t (int p) ids i cs lg = Some (merge_entries lg (p + i) (new_entries t ids i cs))"
  using assms
proof (induction cs arbitrary: i lg)
  case (Cons c cs)
  let ?e = "\<lparr>le_Command = c, le_Term = t, le_CmdId = (if i < length ids then ids ! i else zero_CommandId)\<rparr>"
  have idx: "i32 (int p + int i) = int (p + i)" "i32 (int (length lg)) = int (length lg)"
    using Cons.prems by (simp_all add: is_i32_def)
  consider (app) "p + i = length lg" | (cut) "p + i < length lg" "le_Term (lg ! (p + i)) \<noteq> t"
    | (skip) "p + i < length lg" "le_Term (lg ! (p + i)) = t"
    using Cons.prems(1) by linarith
  then show ?case
  proof cases
    case app
    have "append_entries_loop t (int p) ids (Suc i) cs (lg @ [?e]) =
        Some (merge_entries (lg @ [?e]) (p + Suc i) (new_entries t ids (Suc i) cs))"
      using Cons.prems app by (intro Cons.IH) simp_all
    with app show ?thesis
      using merge_entries_end [of "lg @ [?e]"] by (simp add: idx Let_def)
  next
    case cut
    let ?lg = "take (p + i) lg @ [?e]"
    have "append_entries_loop t (int p) ids (Suc i) cs ?lg =
        Some (merge_entries ?lg (p + Suc i) (new_entries t ids (Suc i) cs))"
      using Cons.prems cut by (intro Cons.IH) simp_all
    moreover have "length ?lg = p + Suc i" using cut by simp
    ultimately show ?thesis
      using cut merge_entries_end [of ?lg] slice_get_nat [of "p + i" lg]
      by (simp add: idx Let_def nat_add_distrib del: slice_get_nat)
  next
    case skip
    have "append_entries_loop t (int p) ids (Suc i) cs lg =
        Some (merge_entries lg (p + Suc i) (new_entries t ids (Suc i) cs))"
      using Cons.prems skip by (intro Cons.IH) simp_all
    with skip show ?thesis
      using slice_get_nat [of "p + i" lg] by (simp add: idx Let_def del: slice_get_nat)
  qed
qed simp

text \<open>The state after the term checks of \<open>handleAppendEntries\<close>.\<close>

definition follow :: "AppendEntries \<Rightarrow> raft \<Rightarrow> raft" where
  "follow msg r =
     (let r = (if currentTerm r < ae_Term msg then becomeFollower (ae_Term msg) r
               else if role r = CANDIDATE then r\<lparr>role := FOLLOWER, votesReceived := 0\<rparr>
               else r)
      in r\<lparr>knownLeader := ae_LeaderId msg\<rparr>)"

lemma follow_simps [simp]:
  "log (follow m r) = log r" "commitIndex (follow m r) = commitIndex r" "rid (follow m r) = rid r"
  "nrep (follow m r) = nrep r" "lastApplied (follow m r) = lastApplied r"
  "pendingProposals (follow m r) = pendingProposals r"
  "matchIndex (follow m r) = matchIndex r" "nextIndex (follow m r) = nextIndex r"
  "votesNeeded (follow m r) = votesNeeded r" "PeerWriters (follow m r) = PeerWriters r"
  "electionTimer (follow m r) = Nil_Timer \<longleftrightarrow> electionTimer r = Nil_Timer"
  "heartbeatTimer (follow m r) = Nil_Timer \<longleftrightarrow> heartbeatTimer r = Nil_Timer"
  "KV (follow m r) = KV r" "commitNotify (follow m r) = commitNotify r"
  by (simp_all add: follow_def becomeFollower_def Let_def)

lemma follow_term: "currentTerm r \<le> ae_Term m \<Longrightarrow> currentTerm (follow m r) = ae_Term m"
  by (simp add: follow_def becomeFollower_def Let_def)

lemma handleAppendEntries_follow:
  "handleAppendEntries m r =
     (if ae_Term m < currentTerm r then Some (r, [ae_reply r (ae_LeaderId m) 0 (- 1)])
      else if 0 \<le> ae_PrevLogIndex m \<and> i32 (int (length (log r))) \<le> ae_PrevLogIndex m
      then Some (follow m r, [ae_reply (follow m r) (ae_LeaderId m) 0 (lastLogIndex r)])
      else if 0 \<le> ae_PrevLogIndex m \<and> le_Term (log r ! nat (ae_PrevLogIndex m)) \<noteq> ae_PrevLogTerm m
      then
        let r' = (follow m r)\<lparr>log := take (nat (ae_PrevLogIndex m)) (log r)\<rparr>
        in Some (r', [ae_reply r' (ae_LeaderId m) 0 (lastLogIndex r')])
      else do {
        lg \<leftarrow> append_entries_loop (ae_Term m) (i32 (ae_PrevLogIndex m + 1)) (ae_EntryIds m)
                 0 (ae_Entries m) (log r);
        let li = i32 (int (length lg) - 1);
        let ci = (if commitIndex r < ae_LeaderCommit m then min (ae_LeaderCommit m) li else commitIndex r);
        Some ((follow m r)\<lparr>log := lg, commitIndex := ci,
                commitNotify := (commitNotify r \<or> commitIndex r < ci)\<rparr>,
              [ae_reply (follow m r) (ae_LeaderId m) 1 li])
      })"
proof (cases "ae_Term m < currentTerm r")
  case False
  have l: "lastLogIndex (follow m r) = lastLogIndex r" by (simp add: lastLogIndex_def)
  have "log (follow m r) = log r" "commitIndex (follow m r) = commitIndex r"
    "commitNotify (follow m r) = commitNotify r" by simp_all
  then show ?thesis
    unfolding handleAppendEntries_def follow_def [symmetric, unfolded Let_def] Let_def
    using False l
    by (intro if_cong refl Option.bind_cong)
      (auto simp: lastLogIndex_def ae_reply_def min_def)
qed (simp add: handleAppendEntries_def)

lemma handleAppendEntries_cases:
  assumes "raft_ok r" and "- 1 \<le> ae_PrevLogIndex m"
    and "length (log r) + length (ae_Entries m) < 2147483647"
  shows "handleAppendEntries m r =
    (let f = follow m r; prev = ae_PrevLogIndex m; len = int (length (log r)) in
     if ae_Term m < currentTerm r then Some (r, [ae_reply r (ae_LeaderId m) 0 (- 1)])
     else if len \<le> prev then Some (f, [ae_reply f (ae_LeaderId m) 0 (len - 1)])
     else if 0 \<le> prev \<and> le_Term (log r ! nat prev) \<noteq> ae_PrevLogTerm m
     then Some (f\<lparr>log := take (nat prev) (log r)\<rparr>, [ae_reply f (ae_LeaderId m) 0 (prev - 1)])
     else
       let lg = merge_entries (log r) (nat (prev + 1)) (new_entries (ae_Term m) (ae_EntryIds m) 0 (ae_Entries m));
           ci = (if commitIndex r < ae_LeaderCommit m then min (ae_LeaderCommit m) (int (length lg) - 1)
                 else commitIndex r)
       in Some (f\<lparr>log := lg, commitIndex := ci, commitNotify := (commitNotify r \<or> commitIndex r < ci)\<rparr>,
            [ae_reply f (ae_LeaderId m) 1 (int (length lg) - 1)]))"
proof -
  let ?f = "follow m r" and ?prev = "ae_PrevLogIndex m"
  have len: "i32 (int (length (log r))) = int (length (log r))" "length (log r) < 2147483647"
    using assms(1) by (simp_all add: raft_ok_def is_i32_def)
  consider (stale) "ae_Term m < currentTerm r"
    | (short) "currentTerm r \<le> ae_Term m" "int (length (log r)) \<le> ?prev"
    | (mismatch) "currentTerm r \<le> ae_Term m" "0 \<le> ?prev" "?prev < int (length (log r))"
        "le_Term (log r ! nat ?prev) \<noteq> ae_PrevLogTerm m"
    | (ok) "currentTerm r \<le> ae_Term m" "?prev < int (length (log r))"
        "0 \<le> ?prev \<longrightarrow> le_Term (log r ! nat ?prev) = ae_PrevLogTerm m"
    by linarith
  then show ?thesis
  proof cases
    case stale
    then show ?thesis by (simp add: handleAppendEntries_def)
  next
    case short
    then have "0 \<le> ?prev" by linarith
    with short len show ?thesis
      by (simp add: handleAppendEntries_follow Let_def lastLogIndex_eq)
  next
    case mismatch
    then have e: "int (length (take (nat ?prev) (log r))) - 1 = ?prev - 1" by simp
    then have "lastLogIndex (follow m r\<lparr>log := take (nat ?prev) (log r)\<rparr>) = ?prev - 1"
      using len by (subst lastLogIndex_eq) simp_all
    with mismatch len show ?thesis
      unfolding handleAppendEntries_follow Let_def by (simp add: ae_reply_def)
  next
    case ok
    have p: "i32 (?prev + 1) = int (nat (?prev + 1))" "nat (?prev + 1) + 0 \<le> length (log r)"
      using ok assms(2) len by (auto simp: is_i32_def)
    let ?lg = "merge_entries (log r) (nat (?prev + 1)) (new_entries (ae_Term m) (ae_EntryIds m) 0 (ae_Entries m))"
    have l: "append_entries_loop (ae_Term m) (i32 (?prev + 1)) (ae_EntryIds m) 0 (ae_Entries m) (log r) = Some ?lg"
      unfolding p(1) using append_entries_loop_eq [OF p(2)] assms(3) by simp
    have "length ?lg \<le> max (length (log r)) (nat (?prev + 1) + length (ae_Entries m))"
      using length_merge_entries [of "nat (?prev + 1)" "log r"] p(2) by (metis length_new_entries add_0_right)
    then have "i32 (int (length ?lg) - 1) = int (length ?lg) - 1"
      using p(2) assms(3) len(2) by (auto simp: is_i32_def)
    with ok len show ?thesis unfolding handleAppendEntries_follow Let_def l by auto
  qed
qed

lemma length_merge_bound:
  assumes "k \<le> length lg" and "length lg + length es < 2147483647"
  shows "length (merge_entries lg k es) < 2147483647"
  using length_merge_entries [OF assms(1), of es] assms by (simp add: max_def split: if_splits)

lemma handleAppendEntries_ok:
  assumes "raft_ok r" and "event_ok r (Ev_AppendEntries m)"
  shows "\<exists>r' outs. handleAppendEntries m r = Some (r', outs) \<and> raft_ok r'"
proof -
  let ?es = "new_entries (ae_Term m) (ae_EntryIds m) 0 (ae_Entries m)"
  have p: "- 1 \<le> ae_PrevLogIndex m" "length (log r) + length (ae_Entries m) < 2147483647"
    using assms(2) by simp_all
  have "length (merge_entries (log r) (nat (ae_PrevLogIndex m + 1)) ?es) < 2147483647"
    if "ae_PrevLogIndex m < int (length (log r))"
    using that p by (intro length_merge_bound) auto
  then show ?thesis
    using assms(1) unfolding handleAppendEntries_cases [OF assms(1) p] Let_def
    by (auto simp: raft_ok_def)
qed

subsection \<open>The commit index\<close>

text \<open>An index a leader may commit: its entry has the current term and a majority has it.\<close>

definition committable :: "raft \<Rightarrow> int \<Rightarrow> bool" where
  "committable r i \<longleftrightarrow> 0 \<le> i \<and> i < int (length (log r)) \<and>
     le_Term (log r ! nat i) = currentTerm r \<and> votesNeeded r \<le> replica_count r i"

lemma length_filter_mono: "(\<And>x. P x \<Longrightarrow> Q x) \<Longrightarrow> length (filter P xs) \<le> length (filter Q xs)"
  by (induction xs) auto

lemma replica_count_antimono: "i \<le> j \<Longrightarrow> replica_count r j \<le> replica_count r i"
  unfolding replica_count_def by (simp add: length_filter_mono)

lemma advance_loop_correct:
  assumes "0 \<le> a" and "ci < a" and "nrep r \<le> length (matchIndex r)"
  shows "\<exists>ci'. advance_loop r [a..int (length (log r)) - 1] ci = Some ci' \<and>
    (ci' = ci \<or> a \<le> ci' \<and> committable r ci') \<and> (\<forall>j \<ge> a. committable r j \<longrightarrow> j \<le> ci')"
  using assms
proof (induction "nat (int (length (log r)) - a)" arbitrary: a ci)
  case 0
  then show ?case by (auto simp: committable_def)
next
  case (Suc n)
  let ?hi = "int (length (log r)) - 1"
  have split: "[a..?hi] = a # [a + 1..?hi]" using Suc.hyps(2) by (intro upto_rec1) simp
  have e: "slice_get (log r) a = Some (log r ! nat a)"
    using Suc.hyps(2) Suc.prems(1) by (simp add: slice_get_def)
  have n: "n = nat (int (length (log r)) - (a + 1))" "0 \<le> a + 1" using Suc.hyps(2) Suc.prems by simp_all
  have le: "j = a \<or> a + 1 \<le> j" if "a \<le> j" for j using that by linarith
  consider (skip) "le_Term (log r ! nat a) \<noteq> currentTerm r"
    | (take) "le_Term (log r ! nat a) = currentTerm r" "votesNeeded r \<le> replica_count r a"
    | (stop) "le_Term (log r ! nat a) = currentTerm r" "\<not> votesNeeded r \<le> replica_count r a" by blast
  then show ?case
  proof cases
    case skip
    from Suc.hyps(1) [OF n, of ci] Suc.prems obtain ci' where
      "advance_loop r [a + 1..?hi] ci = Some ci'" "ci' = ci \<or> a + 1 \<le> ci' \<and> committable r ci'"
      "\<forall>j \<ge> a + 1. committable r j \<longrightarrow> j \<le> ci'" by auto
    moreover have "\<not> committable r a" using skip by (simp add: committable_def)
    ultimately show ?thesis using skip e le unfolding split by auto
  next
    case take
    from Suc.hyps(1) [OF n, of a] Suc.prems obtain ci' where
      c: "advance_loop r [a + 1..?hi] a = Some ci'" "ci' = a \<or> a + 1 \<le> ci' \<and> committable r ci'"
      "\<forall>j \<ge> a + 1. committable r j \<longrightarrow> j \<le> ci'" by auto
    have "committable r a" using take Suc by (simp add: committable_def)
    moreover have "j \<le> ci'" if "a \<le> j" "committable r j" for j using le [OF that(1)] c that by auto
    ultimately show ?thesis using take e c Suc.prems(3) unfolding split by auto
  next
    case stop
    have "\<not> committable r j" if "a \<le> j" for j
      using stop replica_count_antimono [OF that, of r] by (auto simp: committable_def)
    then show ?thesis using stop e Suc.prems(3) unfolding split by auto
  qed
qed

lemma advanceCommitIndex_correct:
  assumes "raft_ok r"
  shows "\<exists>ci. advanceCommitIndex r =
      Some (r\<lparr>commitIndex := ci, commitNotify := (commitNotify r \<or> ci \<noteq> commitIndex r)\<rparr>) \<and>
    commitIndex r \<le> ci \<and> (ci = commitIndex r \<or> committable r ci) \<and>
    (\<forall>j. commitIndex r < j \<longrightarrow> committable r j \<longrightarrow> j \<le> ci)"
proof -
  from assms have i: "i32 (commitIndex r + 1) = commitIndex r + 1"
    "i32 (int (length (log r))) = int (length (log r))"
    by (simp_all add: raft_ok_def is_i32_def)
  from advance_loop_correct [of "commitIndex r + 1" "commitIndex r" r] assms obtain ci where
    "advance_loop r [commitIndex r + 1..int (length (log r)) - 1] (commitIndex r) = Some ci"
    "ci = commitIndex r \<or> commitIndex r + 1 \<le> ci \<and> committable r ci"
    "\<forall>j \<ge> commitIndex r + 1. committable r j \<longrightarrow> j \<le> ci"
    by (auto simp: raft_ok_def)
  then show ?thesis
    by (intro exI [of _ ci]) (auto simp: advanceCommitIndex_def i)
qed

lemma advanceCommitIndex_ok:
  assumes "raft_ok r"
  shows "\<exists>r'. advanceCommitIndex r = Some r' \<and> raft_ok r'"
  using advanceCommitIndex_correct [OF assms] assms
  by (auto simp: raft_ok_def committable_def)

lemma buildAppendEntries_ok:
  "raft_ok r \<Longrightarrow> 0 \<le> i \<Longrightarrow> i < int (nrep r) \<Longrightarrow> \<exists>m. buildAppendEntries r i = Some m"
  by (simp add: buildAppendEntries_def raft_ok_def slice_get_def Let_def)

lemma applyReplyUpdate_ok:
  assumes "raft_ok r" and "0 \<le> aer_FollowerId m" and "aer_FollowerId m < int (nrep r)"
  shows "\<exists>r' outs. applyReplyUpdate m r = Some (r', outs) \<and> raft_ok r' \<and> nrep r' = nrep r"
  using assms
  by (auto simp: applyReplyUpdate_def raft_ok_def slice_get_def slice_set_def becomeFollower_def
      sendAppendEntries_def buildAppendEntries_def Let_def)

lemma apply_replies_ok:
  "raft_ok r \<Longrightarrow> \<forall>m \<in> set ms. 0 \<le> aer_FollowerId m \<and> aer_FollowerId m < int (nrep r) \<Longrightarrow>
     \<exists>r' outs. apply_replies ms r = Some (r', outs) \<and> raft_ok r'"
proof (induction ms arbitrary: r)
  case (Cons m ms)
  with applyReplyUpdate_ok [of r m] obtain r1 o1 where 1:
    "applyReplyUpdate m r = Some (r1, o1)" "raft_ok r1" "nrep r1 = nrep r" by auto
  with Cons.IH [of r1] Cons.prems obtain r2 o2 where "apply_replies ms r1 = Some (r2, o2)" "raft_ok r2"
    by auto
  with 1 show ?case by simp
qed simp

subsection \<open>Execution\<close>

lemma snapshot_loop_eq:
  assumes "0 \<le> a" and "length lg < 2147483648" and "length pend < 2147483648" and "la = a - 1"
  shows "snapshot_loop lg [a..c] la pend =
    (let b = max a (min (c + 1) (int (length lg))) in
     (b - 1, map (\<lambda>i. if a \<le> int i \<and> int i < b then None else pend ! i) [0..<length pend],
      map (\<lambda>i. (lg ! nat i, if nat i < length pend then pend ! nat i else None)) [a..b - 1]))"
  using assms
proof (induction "nat (c + 1 - a)" arbitrary: a la pend)
  case 0
  then show ?case by (auto simp: Let_def intro!: nth_equalityI)
next
  case (Suc n)
  have split: "[a..c] = a # [a + 1..c]" using Suc.hyps(2) by (intro upto_rec1) simp
  have l: "i32 (int (length lg)) = int (length lg)" "i32 (int (length pend)) = int (length pend)"
    using Suc.prems by (simp_all add: is_i32_def)
  show ?case
  proof (cases "a < int (length lg)")
    case False
    then show ?thesis using Suc.prems
      by (auto simp: split l Let_def max_def min_def intro!: nth_equalityI)
  next
    case True
    let ?p = "if a < int (length pend) then pend[nat a := None] else pend"
    let ?b = "max a (min (c + 1) (int (length lg)))"
    have b: "max (a + 1) (min (c + 1) (int (length lg))) = ?b" "a < ?b"
      using True Suc.hyps(2) by auto
    have IH: "snapshot_loop lg [a + 1..c] a ?p =
      (?b - 1, map (\<lambda>i. if a + 1 \<le> int i \<and> int i < ?b then None else ?p ! i) [0..<length ?p],
       map (\<lambda>i. (lg ! nat i, if nat i < length ?p then ?p ! nat i else None)) [a + 1..?b - 1])"
      using Suc.hyps(1) [of "a + 1" ?p a] Suc.hyps(2) Suc.prems by (simp add: Let_def b)
    have lp: "length ?p = length pend" by simp
    have 1: "map (\<lambda>i. if a + 1 \<le> int i \<and> int i < ?b then None else ?p ! i) [0..<length ?p] =
      map (\<lambda>i. if a \<le> int i \<and> int i < ?b then None else pend ! i) [0..<length pend]"
      unfolding lp using Suc.prems(1) b(2) by (intro map_cong) (auto simp: nth_list_update)
    have 2: "map (\<lambda>i. (lg ! nat i, if nat i < length ?p then ?p ! nat i else None)) [a + 1..?b - 1] =
      map (\<lambda>i. (lg ! nat i, if nat i < length pend then pend ! nat i else None)) [a + 1..?b - 1]"
      using Suc.prems(1) by (intro map_cong) (auto simp: nth_list_update)
    have "[a..?b - 1] = a # [a + 1..?b - 1]" using b(2) by (intro upto_rec1) simp
    then show ?thesis
      using True Suc.prems(1) IH by (auto simp: split l Let_def 1 2 not_less)
  qed
qed


lemma exec_cmds_total:
  "\<forall>c \<in> set cs. executable c \<Longrightarrow> \<exists>vs st'. exec_cmds cs st = Some (vs, st') \<and> length vs = length cs"
proof (induction cs arbitrary: st)
  case (Cons c cs)
  from Cons.prems have "Execute c st \<noteq> None" by (simp add: executable_def)
  then obtain v st1 where 1: "Execute c st = Some (v, st1)" by auto
  from Cons.IH [of st1] Cons.prems obtain vs st2 where "exec_cmds cs st1 = Some (vs, st2)"
    "length vs = length cs" by auto
  with 1 show ?case by simp
qed simp

text \<open>The answer to the client that proposed a command, when this replica has its proposal.\<close>

definition client_reply :: "GPropose option \<Rightarrow> val \<Rightarrow> raft_out list" where
  "client_reply q v =
     (case q of
        None \<Rightarrow> []
      | Some p \<Rightarrow> [Reply p \<lparr>OK = TRUE, CommandId = p_CommandId (Propose p), Value = v,
          Timestamp = p_Timestamp (Propose p), LeaderId = -1, LogIndex = 0\<rparr>])"

lemma execute_batch_eq:
  "execute_batch bs st =
     map_option (\<lambda>(vs, st'). (st', concat (map2 (\<lambda>b v. client_reply (snd b) v) bs vs)))
       (exec_cmds (map (le_Command \<circ> fst) bs) st)"
proof (induction bs arbitrary: st)
  case (Cons b bs)
  obtain e q where b: "b = (e, q)" by (cases b)
  show ?case
  proof (cases "Execute (le_Command e) st")
    case (Some x)
    then show ?thesis
      by (cases x, cases "exec_cmds (map (le_Command \<circ> fst) bs) (snd x)")
        (auto simp: b Cons.IH client_reply_def comp_def)
  qed (simp add: b)
qed simp

lemma segment_eq:
  "0 \<le> a \<Longrightarrow> c < int (length xs) \<Longrightarrow> map (\<lambda>i. xs ! nat i) [a..c] = drop (nat a) (take (nat (c + 1)) xs)"
  by (rule nth_equalityI) (auto simp: nat_add_distrib nat_diff_distrib)

lemma executeCommands_eq:
  assumes "raft_ok r" and "\<forall>e \<in> set (log r). executable (le_Command e)"
  shows "let b = max (lastApplied r + 1) (min (commitIndex r + 1) (int (length (log r)))) in
    \<exists>r' vs st. executeCommands r =
      Some (r', concat (map2 (\<lambda>i v. client_reply (pending_at r i) v) [lastApplied r + 1..b - 1] vs)) \<and>
    exec_cmds (map le_Command (drop (nat (lastApplied r + 1)) (take (nat b) (log r)))) (KV r) = Some (vs, st) \<and>
    length vs = nat (b - 1 - lastApplied r) \<and>
    raft_ok r' \<and> (\<exists>pend. r' = r\<lparr>lastApplied := b - 1, pendingProposals := pend, KV := st, commitNotify := False\<rparr> \<and>
      length pend = length (pendingProposals r)) \<and>
    (\<forall>i. pending_at r' i = (if lastApplied r < i \<and> i < b then None else pending_at r i))"
proof -
  define a where "a = lastApplied r + 1"
  define b where "b = max a (min (commitIndex r + 1) (int (length (log r))))"
  let ?bs = "map (\<lambda>i. (log r ! nat i, pending_at r i)) [a..b - 1]"
  let ?pend = "map (\<lambda>i. if a \<le> int i \<and> int i < b then None else pendingProposals r ! i)
     [0..<length (pendingProposals r)]"
  have a: "0 \<le> a" using assms(1) by (simp add: a_def raft_ok_def)
  have snap: "snapshot_loop (log r) [lastApplied r + 1..commitIndex r] (lastApplied r) (pendingProposals r) =
      (b - 1, ?pend, ?bs)"
  proof -
    have "length (log r) < 2147483648" "length (pendingProposals r) < 2147483648"
      "lastApplied r = a - 1" using assms(1) by (simp_all add: raft_ok_def a_def)
    from snapshot_loop_eq [OF a this, of "commitIndex r"]
    have "snapshot_loop (log r) [lastApplied r + 1..commitIndex r] (lastApplied r) (pendingProposals r) =
      (b - 1, ?pend, map (\<lambda>i. (log r ! nat i,
         if nat i < length (pendingProposals r) then pendingProposals r ! nat i else None)) [a..b - 1])"
      unfolding Let_def b_def [symmetric] by (simp add: a_def)
    also have "map (\<lambda>i. (log r ! nat i,
         if nat i < length (pendingProposals r) then pendingProposals r ! nat i else None)) [a..b - 1] = ?bs"
      using a by (intro map_cong) (auto simp: pending_at_def)
    finally show ?thesis .
  qed
  have seg: "map (le_Command \<circ> fst) ?bs = map le_Command (drop (nat a) (take (nat b) (log r)))"
  proof (cases "a \<le> b - 1")
    case True
    then have "b \<le> int (length (log r))" by (auto simp: b_def)
    then have "map le_Command (map (\<lambda>i. log r ! nat i) [a..b - 1]) =
        map le_Command (drop (nat a) (take (nat b) (log r)))"
      using segment_eq [OF a, of "b - 1" "log r"] by simp
    then show ?thesis by (simp add: comp_def)
  next
    case False
    then show ?thesis by simp
  qed
  have "\<forall>c \<in> set (map (le_Command \<circ> fst) ?bs). executable c"
    unfolding seg using assms(2) by (auto dest!: in_set_dropD in_set_takeD)
  from exec_cmds_total [OF this, of "KV r"] obtain vs st where e:
    "exec_cmds (map (le_Command \<circ> fst) ?bs) (KV r) = Some (vs, st)" "length vs = length ?bs" by auto
  define r' where "r' = r\<lparr>lastApplied := b - 1, pendingProposals := ?pend, KV := st, commitNotify := False\<rparr>"
  have outs: "map2 (\<lambda>x v. client_reply (snd x) v) ?bs vs = map2 (\<lambda>i v. client_reply (pending_at r i) v) [a..b - 1] vs"
    by (simp add: zip_map1 case_prod_beta)
  have eb: "execute_batch ?bs (KV r) =
      Some (st, concat (map2 (\<lambda>i v. client_reply (pending_at r i) v) [a..b - 1] vs))"
    unfolding execute_batch_eq e(1) by (simp add: outs)
  have "executeCommands r =
      Some (r', concat (map2 (\<lambda>i v. client_reply (pending_at r i) v) [a..b - 1] vs))"
    unfolding executeCommands_def snap using eb by (simp add: r'_def)
  moreover have "raft_ok r'" using assms(1) a by (simp add: r'_def raft_ok_def b_def)
  moreover have "pending_at r' i = (if lastApplied r < i \<and> i < b then None else pending_at r i)" for i
    by (auto simp: pending_at_def r'_def a_def)
  moreover have "length vs = nat (b - 1 - lastApplied r)" using e(2) by (simp add: a_def)
  ultimately show ?thesis
    using e(1) unfolding seg by (simp add: Let_def a_def [symmetric] b_def [symmetric]) (auto simp: r'_def)
qed

lemma executeCommands_ok:
  assumes "raft_ok r" and "\<forall>e \<in> set (log r). executable (le_Command e)"
  shows "\<exists>r' outs. executeCommands r = Some (r', outs) \<and> raft_ok r'"
  using executeCommands_eq [OF assms] unfolding Let_def by blast

lemma run_step_ok:
  assumes "raft_ok r" and "event_ok r ev"
  shows "\<exists>r' outs. run_step ev r = Some (r', outs) \<and> raft_ok r'"
proof (cases ev)
  case Ev_Propose
  show ?thesis
  proof (cases "onOff r \<and> ProposeChan r \<noteq> []")
    case True
    then obtain p ps where q: "ProposeChan r = p # ps" by (cases "ProposeChan r") auto
    from handlePropose_ok [of "r\<lparr>ProposeChan := ps\<rparr>" p] assms Ev_Propose obtain r' outs where
      "handlePropose p (r\<lparr>ProposeChan := ps\<rparr>) = Some (r', outs)" "raft_ok r'"
      by (auto simp: raft_ok_def)
    with True q Ev_Propose show ?thesis by (simp add: raft_ok_def)
  qed (use assms Ev_Propose in \<open>auto split: list.splits\<close>)
next
  case (Ev_AppendEntries m)
  with handleAppendEntries_ok [of r m] assms obtain r' outs where
    "handleAppendEntries m r = Some (r', outs)" "raft_ok r'" by auto
  with Ev_AppendEntries show ?thesis by (simp add: resetElectionTimer_def raft_ok_def)
next
  case (Ev_AppendEntriesReply m ms)
  with apply_replies_ok [of r "m # ms"] assms obtain r' outs where
    "apply_replies (m # ms) r = Some (r', outs)" "raft_ok r'" by auto
  with Ev_AppendEntriesReply advanceCommitIndex_ok [of r'] show ?thesis
    by (auto simp: handleAppendEntriesReplyBatch_def simp del: apply_replies.simps)
next
  case (Ev_RequestVote m)
  then show ?thesis using assms(1) becomeFollower_ok [OF assms(1), of "rv_Term m"]
    by (auto simp: handleRequestVote_def Let_def raft_ok_def)
next
  case (Ev_RequestVoteReply m)
  then show ?thesis
    using assms(1) becomeFollower_ok becomeLeader_ok [of "r\<lparr>votesReceived := i64 (votesReceived r + 1)\<rparr>"]
    by (auto simp: handleRequestVoteReply_def Let_def raft_ok_def)
next
  case Ev_Execute
  then show ?thesis using assms executeCommands_ok [of r] by auto
qed (use assms(1) in \<open>auto simp: raft_ok_def startElection_def resetElectionTimer_def Let_def
       sendHeartbeats_def broadcast_eq BeTheLeader_def init_leader_state_ok\<close>)

subsection \<open>Terms, votes and roles\<close>

text \<open>What an event may do to the fields an election depends on, apart from counting and casting
  votes: nothing, a step down to a higher term, or the end of a candidacy.\<close>

definition same_identity :: "raft \<Rightarrow> raft \<Rightarrow> bool" where
  "same_identity r r' \<longleftrightarrow> rid r' = rid r \<and> nrep r' = nrep r \<and> votesNeeded r' = votesNeeded r"

definition elect_frame :: "raft \<Rightarrow> raft \<Rightarrow> bool" where
  "elect_frame r r' \<longleftrightarrow> same_identity r r' \<and> currentTerm r' = currentTerm r \<and> votedFor r' = votedFor r \<and>
     role r' = role r \<and> votesReceived r' = votesReceived r"

definition stepped_down :: "raft \<Rightarrow> raft \<Rightarrow> bool" where
  "stepped_down r r' \<longleftrightarrow> same_identity r r' \<and> currentTerm r < currentTerm r' \<and> votedFor r' = -1 \<and>
     role r' = FOLLOWER"

definition gave_up :: "raft \<Rightarrow> raft \<Rightarrow> bool" where
  "gave_up r r' \<longleftrightarrow> same_identity r r' \<and> currentTerm r' = currentTerm r \<and> votedFor r' = votedFor r \<and>
     role r' = FOLLOWER"

fun is_vote_msg :: "raft_out \<Rightarrow> bool" where
  "is_vote_msg (SendTo _ (M_RequestVote _)) = True"
| "is_vote_msg (SendTo _ (M_RequestVoteReply _)) = True"
| "is_vote_msg _ = False"

lemmas elect_simps = same_identity_def elect_frame_def stepped_down_def gave_up_def

lemma elect_update [simp]:
  "elect_frame r (x\<lparr>log := lg, commitIndex := ci, commitNotify := cn\<rparr>) = elect_frame r x"
  "stepped_down r (x\<lparr>log := lg, commitIndex := ci, commitNotify := cn\<rparr>) = stepped_down r x"
  "gave_up r (x\<lparr>log := lg, commitIndex := ci, commitNotify := cn\<rparr>) = gave_up r x"
  "elect_frame r (x\<lparr>electionTimer := t\<rparr>) = elect_frame r x"
  "stepped_down r (x\<lparr>electionTimer := t\<rparr>) = stepped_down r x"
  "gave_up r (x\<lparr>electionTimer := t\<rparr>) = gave_up r x"
  "elect_frame r (x\<lparr>onOff := b\<rparr>) = elect_frame r x"
  "elect_frame (r\<lparr>ProposeChan := ps\<rparr>) x = elect_frame r x"
  by (simp_all add: elect_simps)

lemma append_proposals_frame: "append_proposals ps r = Some r' \<Longrightarrow> elect_frame r r'"
  by (induction ps arbitrary: r) (auto simp: append_proposal_def Let_def slice_simps elect_simps)

lemma broadcast_write_msgs: "broadcast_write r ms = Some outs \<Longrightarrow> x \<in> set outs \<Longrightarrow> \<not> is_vote_msg x"
  by (induction ms arbitrary: outs) (auto simp: slice_simps split: if_splits)

lemma broadcast_msgs: "broadcastAppendEntries r = Some outs \<Longrightarrow> x \<in> set outs \<Longrightarrow> \<not> is_vote_msg x"
  by (auto simp: broadcastAppendEntries_def slice_simps dest: broadcast_write_msgs)

lemma handlePropose_frame:
  "handlePropose p r = Some (r', outs) \<Longrightarrow> elect_frame r r' \<and> (\<forall>x \<in> set outs. \<not> is_vote_msg x)"
  by (auto simp: handlePropose_def Let_def slice_simps elect_simps simp del: append_proposals.simps
      split: if_splits dest!: append_proposals_frame dest: broadcast_msgs)

lemma handleAppendEntries_shape:
  assumes "handleAppendEntries m r = Some (r', outs)"
  shows "(r' = r \<or> (\<exists>lg ci cn. r' = (follow m r)\<lparr>log := lg, commitIndex := ci, commitNotify := cn\<rparr>)) \<and>
    (\<exists>b k x. outs = [ae_reply x (ae_LeaderId m) b k])"
proof -
  let ?upd = "\<lambda>lg ci cn. (follow m r)\<lparr>log := lg, commitIndex := ci, commitNotify := cn\<rparr>"
  have e: "follow m r = ?upd (log r) (commitIndex r) (commitNotify r)"
    and e': "(follow m r)\<lparr>log := lg\<rparr> = ?upd lg (commitIndex r) (commitNotify r)" for lg
    by (simp_all add: follow_def becomeFollower_def Let_def)
  let ?prev = "ae_PrevLogIndex m"
  consider (stale) "ae_Term m < currentTerm r"
    | (short) "\<not> ae_Term m < currentTerm r" "0 \<le> ?prev \<and> i32 (int (length (log r))) \<le> ?prev"
    | (mismatch) "\<not> ae_Term m < currentTerm r" "\<not> (0 \<le> ?prev \<and> i32 (int (length (log r))) \<le> ?prev)"
        "0 \<le> ?prev \<and> le_Term (log r ! nat ?prev) \<noteq> ae_PrevLogTerm m"
    | (ok) "\<not> ae_Term m < currentTerm r" "\<not> (0 \<le> ?prev \<and> i32 (int (length (log r))) \<le> ?prev)"
        "\<not> (0 \<le> ?prev \<and> le_Term (log r ! nat ?prev) \<noteq> ae_PrevLogTerm m)"
    by blast
  then show ?thesis
  proof cases
    case stale
    with assms show ?thesis by (auto simp: handleAppendEntries_follow)
  next
    case short
    with assms have "r' = follow m r" "\<exists>k. outs = [ae_reply (follow m r) (ae_LeaderId m) 0 k]"
      by (auto simp: handleAppendEntries_follow)
    with e show ?thesis by blast
  next
    case mismatch
    with assms have "r' = (follow m r)\<lparr>log := take (nat ?prev) (log r)\<rparr>"
      "\<exists>k. outs = [ae_reply r' (ae_LeaderId m) 0 k]"
      unfolding handleAppendEntries_follow Let_def by auto
    with e' show ?thesis by blast
  next
    case ok
    with assms show ?thesis
      unfolding handleAppendEntries_follow Let_def
      by (simp only: if_False) (auto simp: Option.bind_eq_Some_conv simp del: follow_simps)
  qed
qed

lemma handleAppendEntries_frame:
  assumes "handleAppendEntries m r = Some (r', outs)"
  shows "(elect_frame r r' \<or> stepped_down r r' \<or> gave_up r r') \<and> (\<forall>x \<in> set outs. \<not> is_vote_msg x)"
proof -
  have "elect_frame r (follow m r) \<or> stepped_down r (follow m r) \<or> gave_up r (follow m r)"
    by (auto simp: follow_def becomeFollower_def Let_def elect_simps)
  moreover have "elect_frame r r" by (simp add: elect_simps)
  ultimately show ?thesis
    using handleAppendEntries_shape [OF assms] by (auto simp: ae_reply_def)
qed

lemma applyReplyUpdate_frame:
  "applyReplyUpdate m r = Some (r', outs) \<Longrightarrow>
     (elect_frame r r' \<or> stepped_down r r') \<and> (\<forall>x \<in> set outs. \<not> is_vote_msg x)"
  by (auto simp: applyReplyUpdate_def slice_simps elect_simps becomeFollower_def
      sendAppendEntries_def Let_def split: if_splits)

lemma frame_trans:
  "elect_frame r r1 \<Longrightarrow> elect_frame r1 r2 \<Longrightarrow> elect_frame r r2"
  "elect_frame r r1 \<Longrightarrow> stepped_down r1 r2 \<Longrightarrow> stepped_down r r2"
  "stepped_down r r1 \<Longrightarrow> elect_frame r1 r2 \<Longrightarrow> stepped_down r r2"
  "stepped_down r r1 \<Longrightarrow> stepped_down r1 r2 \<Longrightarrow> stepped_down r r2"
  by (auto simp: elect_simps)

lemma apply_replies_frame:
  "apply_replies ms r = Some (r', outs) \<Longrightarrow>
     (elect_frame r r' \<or> stepped_down r r') \<and> (\<forall>x \<in> set outs. \<not> is_vote_msg x)"
proof (induction ms arbitrary: r outs)
  case (Cons m ms)
  from Cons.prems obtain r1 o1 o2 where 1: "applyReplyUpdate m r = Some (r1, o1)"
    "apply_replies ms r1 = Some (r', o2)" "outs = o1 @ o2"
    by (auto simp: slice_simps)
  from applyReplyUpdate_frame [OF 1(1)] Cons.IH [OF 1(2)] 1(3) show ?case
    by (auto intro: frame_trans)
qed (simp add: elect_simps)

lemma advanceCommitIndex_frame: "advanceCommitIndex r = Some r' \<Longrightarrow> elect_frame r r'"
  by (auto simp: advanceCommitIndex_def slice_simps elect_simps)

lemma reply_batch_frame:
  "handleAppendEntriesReplyBatch m ms r = Some (r', outs) \<Longrightarrow>
     (elect_frame r r' \<or> stepped_down r r') \<and> (\<forall>x \<in> set outs. \<not> is_vote_msg x)"
  unfolding handleAppendEntriesReplyBatch_def
  by (auto simp: slice_simps simp del: apply_replies.simps split: if_splits
      dest!: apply_replies_frame dest: advanceCommitIndex_frame intro: frame_trans)

lemma execute_batch_replies:
  "execute_batch bs st = Some (st', outs) \<Longrightarrow> x \<in> set outs \<Longrightarrow> \<not> is_vote_msg x"
  by (induction bs arbitrary: st st' outs) (auto simp: slice_simps split: option.splits)

lemma executeCommands_frame:
  "executeCommands r = Some (r', outs) \<Longrightarrow> elect_frame r r' \<and> (\<forall>x \<in> set outs. \<not> is_vote_msg x)"
  by (auto simp: executeCommands_def Let_def slice_simps elect_simps split: prod.splits
      dest: execute_batch_replies)

text \<open>The events that are not about elections.\<close>

fun vote_event :: "raft_event \<Rightarrow> bool" where
  "vote_event (Ev_RequestVote _) = True"
| "vote_event (Ev_RequestVoteReply _) = True"
| "vote_event Ev_ElectionTimer = True"
| "vote_event Ev_BeTheLeader = True"
| "vote_event _ = False"

lemma run_step_frame:
  assumes "run_step ev r = Some (r', outs)" and "\<not> vote_event ev"
  shows "(elect_frame r r' \<or> stepped_down r r' \<or> gave_up r r') \<and> (\<forall>x \<in> set outs. \<not> is_vote_msg x)"
proof (cases ev)
  case Ev_Propose
  with assms(1) show ?thesis
    by (auto simp: slice_simps split: if_splits list.splits dest!: handlePropose_frame)
      (simp_all add: elect_simps)
next
  case (Ev_AppendEntries m)
  with assms(1) show ?thesis
    by (auto simp: slice_simps resetElectionTimer_def split: if_splits
        dest!: handleAppendEntries_frame)
next
  case (Ev_AppendEntriesReply m ms)
  with assms(1) show ?thesis by (auto dest: reply_batch_frame)
next
  case Ev_HeartbeatTimer
  with assms(1) show ?thesis
    by (auto simp: slice_simps sendHeartbeats_def Let_def elect_simps split: if_splits
        dest: broadcast_msgs)
next
  case Ev_Execute
  with assms(1) show ?thesis
    by (auto simp: elect_simps split: if_splits dest!: executeCommands_frame)
next
  case Ev_BatchClock
  with assms(1) have "elect_frame r r'" "outs = []" by (auto simp: elect_simps split: if_splits)
  then show ?thesis by simp
next
  case (Ev_Enqueue p)
  with assms(1) have "elect_frame r r'" "outs = []" by (auto simp: elect_simps)
  then show ?thesis by simp
qed (use assms(2) in simp_all)

text \<open>C34. Terms never decrease and a vote is kept for the whole term: whatever event a replica
  handles, except the master's order to lead, its current term grows or stays, and while it stays a
  vote once given is neither withdrawn nor changed (before the term counter reaches the largest
  \<open>int32\<close>).\<close>

theorem terms_grow_votes_kept:
  assumes "run_step ev r = Some (r', outs)" and "ev \<noteq> Ev_BeTheLeader"
    and "is_i32 (currentTerm r)" and "currentTerm r < 2147483647"
  shows "currentTerm r \<le> currentTerm r' \<and>
    (currentTerm r' = currentTerm r \<and> votedFor r \<noteq> - 1 \<longrightarrow> votedFor r' = votedFor r)"
proof (cases "vote_event ev")
  case False
  from run_step_frame [OF assms(1) False] show ?thesis by (auto simp: elect_simps)
next
  case True
  then consider (rv) m where "ev = Ev_RequestVote m" | (rvr) m where "ev = Ev_RequestVoteReply m"
    | (timer) "ev = Ev_ElectionTimer" using assms(2) by (cases ev) auto
  then show ?thesis
  proof cases
    case rv
    with assms(1) show ?thesis
      by (auto simp: handleRequestVote_def Let_def becomeFollower_def split: if_splits)
  next
    case rvr
    with assms(1) show ?thesis
      by (auto simp: handleRequestVoteReply_def Let_def becomeFollower_def becomeLeader_def
          init_leader_state_def slice_simps split: if_splits)
  next
    case timer
    with assms i32_add_one [OF assms(3,4)] show ?thesis
      by (auto simp: startElection_def Let_def resetElectionTimer_def split: if_splits)
  qed
qed

subsection \<open>A cluster of three to try the properties on\<close>

text \<open>The replica the master chose, right after its event loop started.\<close>

definition lead3 :: raft where
  "lead3 = \<lparr>currentTerm = 0, votedFor = 0, log = [], commitIndex = -1, lastApplied = -1,
     role = LEADER, nextIndex = [0, 0, 0], matchIndex = [-1, -1, -1], pendingProposals = [],
     votesReceived = 0, votesNeeded = 2, knownLeader = -1, electionTimer = Stopped,
     heartbeatTimer = Running, rid = 0, nrep = 3, commitNotify = False, batchWait = 0, onOff = True,
     PeerWriters = [False, True, True], ProposeChan = [], KV = InitState\<rparr>"

definition put1 :: GPropose where
  "put1 = \<lparr>Propose = \<lparr>p_CommandId = 1, p_ClientId = 7,
     p_Command = \<lparr>Op = PUT, K = 5, V = [9], CL = 0, Sid = 0\<rparr>, p_Timestamp = 0\<rparr>, Proxy = False, Addr = []\<rparr>"

lemma raft_ok_lead3: "raft_ok lead3"
  by (simp add: raft_ok_def lead3_def)

lemma lead3_start:
  "do { r \<leftarrow> New 0 3 True 0; (r, _) \<leftarrow> run_start [False, True, True] r; Some r } = Some lead3"
  by (simp add: New_def BeTheLeader_def init_leader_state_def slice_set_def lastLogIndex_def is_i32_def
      run_start_def sendHeartbeats_def broadcast_eq lead3_def numeral_3_eq_3 Let_def)

lemma executable_PUT: "Op c = PUT \<Longrightarrow> executable c"
  by (simp add: executable_def Execute_def)


subsection \<open>Properties\<close>

text \<open>The states of a running replica: a start in a cluster of \<open>N\<close> replicas, then any sequence of
  admissible events.\<close>

inductive raft_reach :: "nat \<Rightarrow> raft \<Rightarrow> bool" for N where
  start: "New i N isLeader d = Some r \<Longrightarrow> 0 \<le> i \<Longrightarrow> i < int N \<Longrightarrow> length writers = N \<Longrightarrow>
    run_start writers r = Some (r', outs) \<Longrightarrow> raft_reach N r'"
| step: "raft_reach N r \<Longrightarrow> event_ok r ev \<Longrightarrow> run_step ev r = Some (r', outs) \<Longrightarrow> raft_reach N r'"

lemma New_run_start_ok:
  assumes "0 \<le> i" and "i < int N" and "length writers = N"
  shows "\<exists>r r' outs. New i N l d = Some r \<and> run_start writers r = Some (r', outs) \<and> raft_ok r'"
  using assms
  by (auto simp: New_def BeTheLeader_def init_leader_state_ok run_start_def sendHeartbeats_def
      broadcast_eq raft_ok_def Let_def)

lemma raft_reach_ok: "raft_reach N r \<Longrightarrow> raft_ok r"
proof (induction rule: raft_reach.induct)
  case (start i isLeader d r writers r' outs)
  with New_run_start_ok [of i N writers isLeader d] show ?case by simp
next
  case (step r ev r' outs)
  with run_step_ok [of r ev] show ?case by simp
qed

text \<open>C23. A Raft replica never panics: a replica of the cluster starts, and in every state it can
  reach it handles every admissible event (a message whose indices are in range, proposals, timers,
  the execution of commands that return) and is ready for the next one.\<close>

theorem raft_never_panics:
  assumes "raft_reach N r" and "event_ok r ev"
  shows "\<exists>r' outs. run_step ev r = Some (r', outs) \<and> raft_reach N r'"
proof -
  from run_step_ok [OF raft_reach_ok [OF assms(1)] assms(2)] obtain r' outs where
    "run_step ev r = Some (r', outs)" by blast
  with raft_reach.step [OF assms] show ?thesis by blast
qed

lemma raft_reach_lead3: "raft_reach 3 lead3"
proof -
  from lead3_start obtain r outs where "New 0 3 True 0 = Some r"
      "run_start [False, True, True] r = Some (lead3, outs)"
    by (auto simp: Option.bind_eq_Some_conv)
  then show ?thesis by (intro raft_reach.start [of 0 3 True 0 r "[False, True, True]"]) simp_all
qed

theorem raft_never_panics_witness:
  "\<exists>r' outs. run_step (Ev_Enqueue put1) lead3 = Some (r', outs) \<and> raft_reach 3 r'"
  by (rule raft_never_panics) (simp_all add: raft_reach_lead3)

text \<open>The batched broadcast is an optimisation only: with its cache of entries and its single
  pass over the writers it sends every connected peer but the sender exactly the message
  \<open>buildAppendEntries\<close> builds for that peer.\<close>

theorem broadcast_equals_build:
  assumes "raft_ok r"
  shows "broadcastAppendEntries r =
    Some (map (\<lambda>i. SendTo (int i) (M_AppendEntries (the (buildAppendEntries r (int i)))))
      (filter (\<lambda>i. int i \<noteq> rid r \<and> PeerWriters r ! i) [0..<nrep r])) \<and>
   (0 \<le> i \<and> i < int (nrep r) \<longrightarrow> buildAppendEntries r i \<noteq> None)"
  using assms buildAppendEntries_ok [OF assms, of i] by (auto simp: broadcast_eq raft_ok_def)

theorem broadcast_equals_build_witness:
  "broadcastAppendEntries lead3 =
     Some [SendTo 1 (M_AppendEntries (the (buildAppendEntries lead3 1))),
           SendTo 2 (M_AppendEntries (the (buildAppendEntries lead3 2)))] \<and>
   buildAppendEntries lead3 2 \<noteq> None"
proof -
  have "map (\<lambda>i. SendTo (int i) (M_AppendEntries (the (buildAppendEntries lead3 (int i)))))
      (filter (\<lambda>i. int i \<noteq> rid lead3 \<and> PeerWriters lead3 ! i) [0..<nrep lead3]) =
     [SendTo 1 (M_AppendEntries (the (buildAppendEntries lead3 1))),
      SendTo 2 (M_AppendEntries (the (buildAppendEntries lead3 2)))]"
    by (simp add: lead3_def numeral_3_eq_3)
  with broadcast_equals_build [OF raft_ok_lead3, of 2] show ?thesis by (simp add: lead3_def)
qed

text \<open>C24. \<open>advanceCommitIndex\<close> finds the right index although it counts replicas instead of
  sorting and stops early: the new commit index is the largest index whose entry has the current
  term and is on a majority, or the old one when no later index is, and the executor is woken
  exactly when it moved.\<close>

theorem advanceCommitIndex_largest:
  assumes "raft_ok r"
  shows "\<exists>ci. advanceCommitIndex r =
      Some (r\<lparr>commitIndex := ci, commitNotify := (commitNotify r \<or> ci \<noteq> commitIndex r)\<rparr>) \<and>
    commitIndex r \<le> ci \<and> (ci = commitIndex r \<or> committable r ci) \<and>
    (\<forall>j. commitIndex r < j \<longrightarrow> committable r j \<longrightarrow> j \<le> ci)"
  using assms by (rule advanceCommitIndex_correct)

definition lead3_acked :: raft where
  "lead3_acked = lead3\<lparr>log := [proposal_entry 0 put1, proposal_entry 0 put1], matchIndex := [1, 0, -1]\<rparr>"

theorem advanceCommitIndex_largest_witness:
  "\<exists>ci. advanceCommitIndex lead3_acked =
      Some (lead3_acked\<lparr>commitIndex := ci, commitNotify := (commitNotify lead3_acked \<or> ci \<noteq> -1)\<rparr>) \<and>
    (ci = -1 \<or> committable lead3_acked ci) \<and> (committable lead3_acked 0 \<longrightarrow> 0 \<le> ci) \<and>
    committable lead3_acked 0"
proof -
  have ok: "raft_ok lead3_acked" and ci: "commitIndex lead3_acked = -1"
    by (simp_all add: raft_ok_def lead3_acked_def lead3_def)
  have "committable lead3_acked 0"
    by (simp add: committable_def replica_count_def lead3_acked_def lead3_def proposal_entry_def)
  moreover from advanceCommitIndex_largest [OF ok] obtain c where
    "advanceCommitIndex lead3_acked =
      Some (lead3_acked\<lparr>commitIndex := c, commitNotify := (commitNotify lead3_acked \<or> c \<noteq> -1)\<rparr>)"
    "c = -1 \<or> committable lead3_acked c" "\<forall>j. -1 < j \<longrightarrow> committable lead3_acked j \<longrightarrow> j \<le> c"
    unfolding ci by blast
  ultimately show ?thesis by (intro exI [of _ c]) simp
qed

text \<open>A leader takes the proposals of one batch into its log in the order they were queued, at
  most \<open>maxBatchSize\<close> of them: it keeps its log and the proposals pending on it, appends one entry of
  its term per proposal, and remembers each proposal at the index of its entry so that its client is
  answered later.\<close>

theorem handlePropose_appends_batch:
  assumes "raft_ok r" and "length (log r) + maxBatchSize < 2147483647" and "role r = LEADER"
  shows "\<exists>r' outs. handlePropose p r = Some (r', outs) \<and>
    log r' = log r @ map (proposal_entry (currentTerm r)) (batch_of p r) \<and>
    batch_of p r @ ProposeChan r' = p # ProposeChan r \<and> length (batch_of p r) \<le> maxBatchSize \<and>
    (\<forall>i. pending_at r' i =
       (if int (length (log r)) \<le> i \<and> i < int (length (log r) + length (batch_of p r))
        then Some (batch_of p r ! nat (i - int (length (log r)))) else pending_at r i))"
proof -
  from handlePropose_leader [OF assms, of p] obtain r' pend where r': "r' =
      r\<lparr>ProposeChan := drop (length (batch_of p r) - 1) (ProposeChan r),
        log := log r @ map (proposal_entry (currentTerm r)) (batch_of p r), pendingProposals := pend,
        matchIndex := (matchIndex r)[nat (rid r) := int (length (log r) + length (batch_of p r)) - 1]\<rparr>"
    and h: "handlePropose p r = Some (r', the (broadcastAppendEntries r'))"
      "\<forall>i. pending_at r' i =
         (if int (length (log r)) \<le> i \<and> i < int (length (log r) + length (batch_of p r))
          then Some (batch_of p r ! nat (i - int (length (log r)))) else pending_at r i)"
    by blast
  have "batch_of p r @ ProposeChan r' = p # ProposeChan r"
    "log r' = log r @ map (proposal_entry (currentTerm r)) (batch_of p r)"
    by (simp_all add: r' batch_of_def)
  with h length_batch_of [of p r] show ?thesis by blast
qed

theorem handlePropose_appends_batch_witness:
  "\<exists>r' outs. handlePropose put1 lead3 = Some (r', outs) \<and> log r' = [proposal_entry 0 put1] \<and>
    pending_at r' 0 = Some put1"
proof -
  have "length (log lead3) + maxBatchSize < 2147483647" "role lead3 = LEADER" "batch_of put1 lead3 = [put1]"
      "log lead3 = []" "currentTerm lead3 = 0"
    by (simp_all add: lead3_def maxBatchSize_def batch_of_def)
  with handlePropose_appends_batch [OF raft_ok_lead3, of put1] show ?thesis by auto
qed

text \<open>C25. Committed entries are executed exactly once and in the order of the log: a round of
  \<open>executeCommands\<close> runs the commands after \<open>lastApplied\<close> up to the commit index on the key-value
  state, one after the other, moves \<open>lastApplied\<close> to the commit index, answers every client whose
  proposal is pending on one of these entries with the value its command returned, and removes the
  proposal.\<close>

theorem executeCommands_applies_committed:
  assumes "raft_ok r" and "\<forall>e \<in> set (log r). executable (le_Command e)"
    and "lastApplied r \<le> commitIndex r" and "commitIndex r < int (length (log r))"
  shows "\<exists>r' vs. executeCommands r =
      Some (r', concat (map2 (\<lambda>i v. client_reply (pending_at r i) v) [lastApplied r + 1..commitIndex r] vs)) \<and>
    exec_cmds (map le_Command (drop (nat (lastApplied r + 1)) (take (nat (commitIndex r + 1)) (log r)))) (KV r) =
      Some (vs, KV r') \<and>
    lastApplied r' = commitIndex r \<and> log r' = log r \<and> commitIndex r' = commitIndex r \<and>
    (\<forall>i. pending_at r' i = (if lastApplied r < i \<and> i \<le> commitIndex r then None else pending_at r i))"
proof -
  have b: "max (lastApplied r + 1) (min (commitIndex r + 1) (int (length (log r)))) = commitIndex r + 1"
    using assms(3,4) by simp
  from executeCommands_eq [OF assms(1,2)] obtain r' vs st where
    "executeCommands r =
      Some (r', concat (map2 (\<lambda>i v. client_reply (pending_at r i) v) [lastApplied r + 1..commitIndex r] vs))"
    "exec_cmds (map le_Command (drop (nat (lastApplied r + 1)) (take (nat (commitIndex r + 1)) (log r)))) (KV r) =
      Some (vs, st)"
    "\<exists>pend. r' = r\<lparr>lastApplied := commitIndex r, pendingProposals := pend, KV := st, commitNotify := False\<rparr>"
    "\<forall>i. pending_at r' i = (if lastApplied r < i \<and> i < commitIndex r + 1 then None else pending_at r i)"
    unfolding Let_def b by auto
  then show ?thesis by (intro exI [of _ r'] exI [of _ vs]) auto
qed

definition lead3_committed :: raft where
  "lead3_committed = lead3\<lparr>log := [proposal_entry 0 put1], pendingProposals := [Some put1],
     commitIndex := 0, commitNotify := True\<rparr>"

theorem executeCommands_applies_committed_witness:
  "\<exists>r' vs. executeCommands lead3_committed = Some (r', concat (map2 (\<lambda>i v. client_reply (Some put1) v) [0] vs)) \<and>
     exec_cmds [p_Command (Propose put1)] InitState = Some (vs, KV r') \<and> lastApplied r' = 0"
proof -
  have ok: "raft_ok lead3_committed" "\<forall>e \<in> set (log lead3_committed). executable (le_Command e)"
    "lastApplied lead3_committed \<le> commitIndex lead3_committed"
    "commitIndex lead3_committed < int (length (log lead3_committed))"
    by (simp_all add: raft_ok_def lead3_committed_def lead3_def proposal_entry_def executable_PUT put1_def)
  have e: "lastApplied lead3_committed = - 1" "commitIndex lead3_committed = 0"
    "log lead3_committed = [proposal_entry 0 put1]" "KV lead3_committed = InitState"
    "[0..0::int] = [0]" "pending_at lead3_committed 0 = Some put1"
    "le_Command (proposal_entry 0 put1) = p_Command (Propose put1)"
    by (simp_all add: lead3_committed_def lead3_def pending_at_def proposal_entry_def)
  from executeCommands_applies_committed [OF ok] obtain r' vs where
    "executeCommands lead3_committed =
       Some (r', concat (map2 (\<lambda>i v. client_reply (pending_at lead3_committed i) v) [0] vs))"
    "exec_cmds [p_Command (Propose put1)] InitState = Some (vs, KV r')" "lastApplied r' = 0"
    unfolding e by (auto simp: e)
  then show ?thesis by (intro exI [of _ r'] exI [of _ vs]) (cases vs; simp add: e)
qed

text \<open>What storing entries leaves: \<open>c\<close> entries are skipped because the log has one of the same term at their
  index; if that is all of them the log stays as it is, and otherwise it is cut there and the rest of the
  entries is appended.\<close>

lemma merge_entries_eq:
  assumes "k \<le> length lg"
  shows "\<exists>c \<le> length es. (\<forall>i < c. k + i < length lg \<and> le_Term (lg ! (k + i)) = le_Term (es ! i)) \<and>
     (c < length es \<longrightarrow> k + c = length lg \<or> le_Term (lg ! (k + c)) \<noteq> le_Term (es ! c)) \<and>
     merge_entries lg k es = (if c = length es then lg else take (k + c) lg @ drop c es)"
  using assms
proof (induction lg k es rule: merge_entries.induct)
  case (2 lg k e es)
  show ?case
  proof (cases "k < length lg \<and> le_Term (lg ! k) = le_Term e")
    case True
    with 2 obtain c where c: "c \<le> length es" "\<forall>i < c. Suc k + i < length lg \<and> le_Term (lg ! (Suc k + i)) = le_Term (es ! i)"
      "c < length es \<longrightarrow> Suc k + c = length lg \<or> le_Term (lg ! (Suc k + c)) \<noteq> le_Term (es ! c)"
      "merge_entries lg (Suc k) es = (if c = length es then lg else take (Suc k + c) lg @ drop c es)" by auto
    then show ?thesis using True
      by (intro exI [of _ "Suc c"]) (auto simp: less_Suc_eq_0_disj)
  next
    case False
    with 2(2) show ?thesis by (intro exI [of _ 0]) auto
  qed
qed simp

lemma new_entries_map:
  "new_entries t ids 0 cs =
     map (\<lambda>i. \<lparr>le_Command = cs ! i, le_Term = t, le_CmdId = (if i < length ids then ids ! i else zero_CommandId)\<rparr>)
       [0..<length cs]"
  by (rule nth_equalityI) (simp_all add: new_entries_def)

text \<open>C26. A follower stores what the leader sent: it answers success exactly when the message is not stale
  and its log has an entry of the previous term at the previous index. Then it skips the entries of the
  message for which its log has an entry of the leader's term at the index; if there are others, it cuts its
  log at the first of them and appends them, with the commands and ids of the message and the leader's term;
  and it commits what the leader has committed, as far as its log goes. Otherwise it answers failure, and
  its log is the old one, cut at the previous index if the term there differs.\<close>

theorem handleAppendEntries_stores:
  assumes "raft_ok r" and "- 1 \<le> ae_PrevLogIndex m"
    and "length (log r) + length (ae_Entries m) < 2147483647"
    and "handleAppendEntries m r = Some (r', outs)"
  shows "let prev = ae_PrevLogIndex m; ins = nat (prev + 1); n = length (ae_Entries m);
      good = (currentTerm r \<le> ae_Term m \<and> prev < int (length (log r)) \<and>
              (0 \<le> prev \<longrightarrow> le_Term (log r ! nat prev) = ae_PrevLogTerm m))
    in (good \<longrightarrow> outs = [ae_reply r' (ae_LeaderId m) 1 (int (length (log r')) - 1)] \<and>
          (\<exists>c \<le> n. (\<forall>i < c. ins + i < length (log r) \<and> le_Term (log r ! (ins + i)) = ae_Term m) \<and>
             (c < n \<longrightarrow> ins + c = length (log r) \<or> le_Term (log r ! (ins + c)) \<noteq> ae_Term m) \<and>
             log r' = (if c = n then log r
               else take (ins + c) (log r) @
                 map (\<lambda>i. \<lparr>le_Command = ae_Entries m ! i, le_Term = ae_Term m,
                            le_CmdId = (if i < length (ae_EntryIds m) then ae_EntryIds m ! i else zero_CommandId)\<rparr>)
                   [c..<n])) \<and>
          commitIndex r' = (if commitIndex r < ae_LeaderCommit m
            then min (ae_LeaderCommit m) (int (length (log r')) - 1) else commitIndex r)) \<and>
       (\<not> good \<longrightarrow> (\<exists>k. outs = [ae_reply r' (ae_LeaderId m) 0 k]) \<and> commitIndex r' = commitIndex r \<and>
          log r' = (if currentTerm r \<le> ae_Term m \<and> prev < int (length (log r)) then take (nat prev) (log r) else log r))"
proof -
  let ?es = "new_entries (ae_Term m) (ae_EntryIds m) 0 (ae_Entries m)"
  let ?ins = "nat (ae_PrevLogIndex m + 1)" and ?n = "length (ae_Entries m)"
  let ?e = "\<lambda>i. \<lparr>le_Command = ae_Entries m ! i, le_Term = ae_Term m,
    le_CmdId = (if i < length (ae_EntryIds m) then ae_EntryIds m ! i else zero_CommandId)\<rparr>"
  note cases = assms(4) [unfolded handleAppendEntries_cases [OF assms(1-3)] Let_def]
  show ?thesis
  proof (cases "currentTerm r \<le> ae_Term m \<and> ae_PrevLogIndex m < int (length (log r)) \<and>
      (0 \<le> ae_PrevLogIndex m \<longrightarrow> le_Term (log r ! nat (ae_PrevLogIndex m)) = ae_PrevLogTerm m)")
    case True
    then have k: "?ins \<le> length (log r)" by auto
    from True cases have r': "log r' = merge_entries (log r) ?ins ?es"
      "outs = [ae_reply r' (ae_LeaderId m) 1 (int (length (log r')) - 1)]"
      "commitIndex r' = (if commitIndex r < ae_LeaderCommit m
            then min (ae_LeaderCommit m) (int (length (log r')) - 1) else commitIndex r)"
      by (auto simp: ae_reply_def split: if_splits)
    from merge_entries_eq [OF k, of ?es] obtain c where c: "c \<le> ?n"
      "\<forall>i < c. ?ins + i < length (log r) \<and> le_Term (log r ! (?ins + i)) = le_Term (?es ! i)"
      "c < ?n \<longrightarrow> ?ins + c = length (log r) \<or> le_Term (log r ! (?ins + c)) \<noteq> le_Term (?es ! c)"
      "log r' = (if c = ?n then log r else take (?ins + c) (log r) @ drop c ?es)" by (auto simp: r'(1))
    have "\<forall>i < ?n. le_Term (?es ! i) = ae_Term m" by (simp add: new_entries_map)
    with c have "\<forall>i < c. ?ins + i < length (log r) \<and> le_Term (log r ! (?ins + i)) = ae_Term m"
      "c < ?n \<longrightarrow> ?ins + c = length (log r) \<or> le_Term (log r ! (?ins + c)) \<noteq> ae_Term m" by simp_all
    moreover have "log r' = (if c = ?n then log r else take (?ins + c) (log r) @ map ?e [c..<?n])"
      by (simp add: c(4) new_entries_map drop_map)
    ultimately show ?thesis using True c(1) r'(2,3) unfolding Let_def by blast
  next
    case False
    with cases assms(2) show ?thesis by (auto simp: Let_def ae_reply_def split: if_splits)
  qed
qed

definition hb3 :: AppendEntries where
  "hb3 = \<lparr>ae_LeaderId = 1, ae_Term = 2, ae_PrevLogIndex = -1, ae_PrevLogTerm = 0, ae_LeaderCommit = -1,
     ae_EntryCnt = 1, ae_Entries = [p_Command (Propose put1)], ae_EntryIds = [cmd_id_of put1]\<rparr>"

theorem handleAppendEntries_stores_witness:
  "\<exists>r' outs. handleAppendEntries hb3 lead3 = Some (r', outs) \<and>
     outs = [ae_reply r' 1 1 (int (length (log r')) - 1)] \<and>
     log r' = [\<lparr>le_Command = p_Command (Propose put1), le_Term = 2, le_CmdId = cmd_id_of put1\<rparr>]"
proof -
  have p: "- 1 \<le> ae_PrevLogIndex hb3" "length (log lead3) + length (ae_Entries hb3) < 2147483647"
    by (simp_all add: hb3_def lead3_def)
  from handleAppendEntries_ok [OF raft_ok_lead3, of hb3] p obtain r' outs where
    h: "handleAppendEntries hb3 lead3 = Some (r', outs)" by auto
  from handleAppendEntries_stores [OF raft_ok_lead3 p h]
  have "outs = [ae_reply r' 1 1 (int (length (log r')) - 1)] \<and>
     log r' = [\<lparr>le_Command = p_Command (Propose put1), le_Term = 2, le_CmdId = cmd_id_of put1\<rparr>]"
    by (auto simp: hb3_def lead3_def le_Suc_eq Let_def)
  with h show ?thesis by blast
qed

theorem terms_grow_votes_kept_witness:
  "let m = \<lparr>rv_CandidateId = 2, rv_Term = 3, rv_LastLogIndex = -1, rv_LastLogTerm = 0\<rparr>;
       r' = (becomeFollower 3 lead3)\<lparr>votedFor := 2\<rparr>
   in run_step (Ev_RequestVote m) lead3 = Some (r', [vote_reply r' 2 1]) \<and>
      currentTerm lead3 \<le> currentTerm r'"
proof -
  let ?m = "\<lparr>rv_CandidateId = 2, rv_Term = 3, rv_LastLogIndex = -1, rv_LastLogTerm = 0\<rparr>"
  let ?r = "(becomeFollower 3 lead3)\<lparr>votedFor := 2\<rparr>"
  have h: "run_step (Ev_RequestVote ?m) lead3 = Some (?r, [vote_reply ?r 2 1])"
    by (simp add: handleRequestVote_def lead3_def becomeFollower_def isLogUpToDate_def lastLogTerm_def
        lastLogIndex_def is_i32_def Let_def)
  have "is_i32 (currentTerm lead3)" "currentTerm lead3 < 2147483647" by (simp_all add: lead3_def is_i32_def)
  with terms_grow_votes_kept [OF h] h show ?thesis by simp
qed


end
