(* ===== verification/Raft_Net.thy ===== *)
theory Raft_Net
  imports Raft_Props "HOL-Library.Multiset"
begin

section \<open>A cluster of Raft replicas\<close>

text \<open>
  Replicas that run the event loop of \<open>src/raft/raft.go\<close> and exchange messages.

  \<^item> \<open>wire\<close> holds the messages that were sent and not delivered yet. Each received message is handed
    to the event loop by a goroutine of its own (\<open>src/replica/replica.go\<close>, \<open>replicaListener\<close>), so
    any of them may be next; none is delivered twice, and any may be lost with its connection.
  \<^item> \<open>net_do\<close> is one event at one replica. \<open>reach\<close> are the states of a cluster whose replicas were
    started by the master with the leader \<open>L\<close>; a predicate restricts the events, and the term counter
    is taken to stay below the largest \<open>int32\<close>.
  \<^item> Election safety is proved with two ghost sets, the votes given and the votes counted. The
    code counts a vote without looking at its term, so the proof asks for \<open>timely\<close> votes, and
    \<open>late_vote_two_leaders\<close> shows a run with two leaders in one term without it.
\<close>

subsection \<open>The cluster and its steps\<close>

record net =
  nodes :: "int \<Rightarrow> raft"
  wire :: "(int \<times> raft_msg) list"

fun sends :: "raft_out list \<Rightarrow> (int \<times> raft_msg) list" where
  "sends [] = []"
| "sends (SendTo d m # outs) = (d, m) # sends outs"
| "sends (Reply _ _ # outs) = sends outs"

fun consumes :: "int \<Rightarrow> raft_event \<Rightarrow> (int \<times> raft_msg) list" where
  "consumes i (Ev_AppendEntries m) = [(i, M_AppendEntries m)]"
| "consumes i (Ev_AppendEntriesReply m ms) = map (\<lambda>x. (i, M_AppendEntriesReply x)) (m # ms)"
| "consumes i (Ev_RequestVote m) = [(i, M_RequestVote m)]"
| "consumes i (Ev_RequestVoteReply m) = [(i, M_RequestVoteReply m)]"
| "consumes i _ = []"

fun take_msgs :: "'a list \<Rightarrow> 'a list \<Rightarrow> 'a list option" where
  "take_msgs w [] = Some w"
| "take_msgs w (x # xs) = (if x \<in> set w then take_msgs (remove1 x w) xs else None)"

definition net_do :: "int \<Rightarrow> raft_event \<Rightarrow> net \<Rightarrow> net option" where
  "net_do i ev s = do {
     w \<leftarrow> take_msgs (wire s) (consumes i ev);
     (r, outs) \<leftarrow> run_step ev (nodes s i);
     Some (s\<lparr>nodes := (nodes s)(i := r), wire := w @ sends outs\<rparr>)
   }"

definition start_node :: "nat \<Rightarrow> int \<Rightarrow> int \<Rightarrow> raft_result" where
  "start_node N L i = do {
     r \<leftarrow> New i N (i = L) 0;
     run_start (map (\<lambda>j. int j \<noteq> i) [0..<N]) r
   }"

definition init_net :: "nat \<Rightarrow> int \<Rightarrow> net" where
  "init_net N L =
     \<lparr>nodes = (\<lambda>i. fst (the (start_node N L i))),
      wire = concat (map (\<lambda>i. sends (snd (the (start_node N L (int i))))) [0..<N])\<rparr>"

text \<open>A vote is counted in time when it was given for the candidacy the replica is in.\<close>

fun timely :: "raft_event \<Rightarrow> raft \<Rightarrow> bool" where
  "timely (Ev_RequestVoteReply m) r =
     (role r = CANDIDATE \<and> rvr_VoteGranted m = 1 \<longrightarrow> currentTerm r \<le> rvr_Term m)"
| "timely _ r = True"

inductive reach :: "(raft_event \<Rightarrow> raft \<Rightarrow> bool) \<Rightarrow> nat \<Rightarrow> int \<Rightarrow> net \<Rightarrow> bool" for ok N L where
  init: "reach ok N L (init_net N L)"
| step: "reach ok N L s \<Longrightarrow> 0 \<le> i \<Longrightarrow> i < int N \<Longrightarrow> ev \<noteq> Ev_BeTheLeader \<Longrightarrow> ok ev (nodes s i) \<Longrightarrow>
    currentTerm (nodes s i) < 2147483647 \<Longrightarrow> net_do i ev s = Some s' \<Longrightarrow> reach ok N L s'"
| lose: "reach ok N L s \<Longrightarrow> wire s = a @ x # b \<Longrightarrow> reach ok N L (s\<lparr>wire := a @ b\<rparr>)"

lemma take_msgs_mset: "take_msgs w xs = Some w' \<Longrightarrow> mset w = mset w' + mset xs"
proof (induction w xs rule: take_msgs.induct)
  case (2 w x xs)
  then have "x \<in># mset w" "mset w - {#x#} = mset w' + mset xs" by (auto split: if_splits)
  then show ?case using insert_DiffM [of x "mset w"] by simp
qed simp

subsection \<open>Counting votes\<close>

fun is_rv :: "int \<Rightarrow> int \<Rightarrow> int \<Rightarrow> int \<times> raft_msg \<Rightarrow> bool" where
  "is_rv c t v (d, M_RequestVote m) = (d = v \<and> rv_CandidateId m = c \<and> rv_Term m = t)"
| "is_rv c t v _ = False"

fun is_grant :: "int \<Rightarrow> int \<Rightarrow> int \<Rightarrow> int \<times> raft_msg \<Rightarrow> bool" where
  "is_grant c t v (d, M_RequestVoteReply m) =
     (d = c \<and> rvr_VoterId m = v \<and> rvr_Term m = t \<and> rvr_VoteGranted m = 1)"
| "is_grant c t v _ = False"

definition ballots :: "int \<Rightarrow> int \<Rightarrow> int \<Rightarrow> (int \<times> raft_msg) list \<Rightarrow> nat" where
  "ballots c t v w = length (filter (\<lambda>x. is_rv c t v x \<or> is_grant c t v x) w)"

fun is_vote :: "int \<times> raft_msg \<Rightarrow> bool" where
  "is_vote (d, M_RequestVote m) = True"
| "is_vote (d, M_RequestVoteReply m) = (rvr_VoteGranted m = 1)"
| "is_vote _ = False"

lemma ballots_append [simp]: "ballots c t v (a @ b) = ballots c t v a + ballots c t v b"
  by (simp add: ballots_def)

lemma ballots_mset: "mset w = mset w' + mset xs \<Longrightarrow> ballots c t v w = ballots c t v w' + ballots c t v xs"
proof -
  assume "mset w = mset w' + mset xs"
  then have "size (filter_mset (\<lambda>x. is_rv c t v x \<or> is_grant c t v x) (mset w)) =
    size (filter_mset (\<lambda>x. is_rv c t v x \<or> is_grant c t v x) (mset w' + mset xs))" by simp
  then show ?thesis by (simp add: ballots_def flip: mset_filter)
qed

lemma ballots_no_votes: "\<forall>x \<in> set w. \<not> is_vote x \<Longrightarrow> ballots c t v w = 0"
proof -
  have "is_rv c t v x \<or> is_grant c t v x \<Longrightarrow> is_vote x" for x
    by (cases x rule: is_vote.cases) auto
  then show "\<forall>x \<in> set w. \<not> is_vote x \<Longrightarrow> ballots c t v w = 0"
    unfolding ballots_def by (metis (no_types, lifting) filter_False list.size(3))
qed

lemma sends_no_votes: "\<forall>x \<in> set outs. \<not> is_vote_msg x \<Longrightarrow> \<forall>x \<in> set (sends outs). \<not> is_vote x"
proof (induction outs rule: sends.induct)
  case (2 d m outs)
  then show ?case by (cases m) auto
qed auto

text \<open>The state of the elections: \<open>H\<close> holds every vote ever given (voter, term, candidate) and
  \<open>C\<close> every vote counted (candidate, term, voter).\<close>

definition node_inv :: "nat \<Rightarrow> int \<Rightarrow> (int \<times> int \<times> int) set \<Rightarrow> (int \<times> int \<times> int) set \<Rightarrow> int \<Rightarrow> raft \<Rightarrow> bool" where
  "node_inv N L H C i r \<longleftrightarrow>
     rid r = i \<and> nrep r = N \<and> votesNeeded r = int N div 2 + 1 \<and> 0 \<le> currentTerm r \<and>
     (\<forall>t c. (i, t, c) \<in> H \<longrightarrow> 0 \<le> c \<and> (t < currentTerm r \<or> t = currentTerm r \<and> votedFor r = c)) \<and>
     (role r = CANDIDATE \<longrightarrow> 1 \<le> currentTerm r \<and> votedFor r = i \<and> (i, currentTerm r, i) \<in> H \<and>
        votesReceived r = 1 + int (card {v. (i, currentTerm r, v) \<in> C})) \<and>
     (role r = LEADER \<longrightarrow> currentTerm r = 0 \<and> i = L \<or>
        1 \<le> currentTerm r \<and> is_majority (int N) {v. (v, currentTerm r, i) \<in> H})"

definition vote_inv :: "nat \<Rightarrow> (int \<Rightarrow> int) \<Rightarrow> (int \<times> int \<times> int) set \<Rightarrow> (int \<times> int \<times> int) set \<Rightarrow>
    (int \<times> raft_msg) list \<Rightarrow> bool" where
  "vote_inv N term H C w \<longleftrightarrow>
     (\<forall>v t c. (v, t, c) \<in> H \<longrightarrow> 0 \<le> v \<and> v < int N) \<and>
     (\<forall>v t c c'. (v, t, c) \<in> H \<longrightarrow> (v, t, c') \<in> H \<longrightarrow> c = c') \<and>
     (\<forall>c t v. (c, t, v) \<in> C \<longrightarrow> (v, t, c) \<in> H \<and> v \<noteq> c \<and> t \<le> term c) \<and>
     (\<forall>v m. (v, M_RequestVote m) \<in> set w \<longrightarrow> 0 \<le> rv_CandidateId m \<and> rv_CandidateId m < int N \<and>
        rv_CandidateId m \<noteq> v \<and> 1 \<le> rv_Term m \<and> rv_Term m \<le> term (rv_CandidateId m)) \<and>
     (\<forall>c m. (c, M_RequestVoteReply m) \<in> set w \<longrightarrow> rvr_VoteGranted m = 1 \<longrightarrow>
        (rvr_VoterId m, rvr_Term m, c) \<in> H \<and> rvr_VoterId m \<noteq> c \<and> rvr_Term m \<le> term c) \<and>
     (\<forall>c t v. ballots c t v w + (if (c, t, v) \<in> C then 1 else 0) \<le> 1)"

definition elect_inv :: "nat \<Rightarrow> int \<Rightarrow> net \<Rightarrow> (int \<times> int \<times> int) set \<Rightarrow> (int \<times> int \<times> int) set \<Rightarrow> bool" where
  "elect_inv N L s H C \<longleftrightarrow>
     (\<forall>i. 0 \<le> i \<and> i < int N \<longrightarrow> node_inv N L H C i (nodes s i)) \<and>
     vote_inv N (\<lambda>i. currentTerm (nodes s i)) H C (wire s)"

lemma vote_inv_once: "vote_inv N term H C w \<Longrightarrow> (v, t, c) \<in> H \<Longrightarrow> (v, t, c') \<in> H \<Longrightarrow> c = c'"
  unfolding vote_inv_def by blast

lemma vote_inv_range: "vote_inv N term H C w \<Longrightarrow> (v, t, c) \<in> H \<Longrightarrow> 0 \<le> v \<and> v < int N"
  unfolding vote_inv_def by blast

lemma vote_inv_counted:
  "vote_inv N term H C w \<Longrightarrow> (c, t, v) \<in> C \<Longrightarrow> (v, t, c) \<in> H \<and> v \<noteq> c \<and> t \<le> term c"
  unfolding vote_inv_def by blast

lemma vote_inv_request:
  "vote_inv N term H C w \<Longrightarrow> (v, M_RequestVote m) \<in> set w \<Longrightarrow> 0 \<le> rv_CandidateId m \<and>
     rv_CandidateId m < int N \<and> rv_CandidateId m \<noteq> v \<and> 1 \<le> rv_Term m \<and> rv_Term m \<le> term (rv_CandidateId m)"
  unfolding vote_inv_def by blast

lemma vote_inv_reply:
  "vote_inv N term H C w \<Longrightarrow> (c, M_RequestVoteReply m) \<in> set w \<Longrightarrow> rvr_VoteGranted m = 1 \<Longrightarrow>
     (rvr_VoterId m, rvr_Term m, c) \<in> H \<and> rvr_VoterId m \<noteq> c \<and> rvr_Term m \<le> term c"
  unfolding vote_inv_def by blast

lemma vote_inv_token:
  "vote_inv N term H C w \<Longrightarrow> ballots c t v w + (if (c, t, v) \<in> C then 1 else 0) \<le> 1"
  unfolding vote_inv_def by blast

lemma vote_inv_change:
  assumes V: "vote_inv N term H C w" and w: "mset w = mset w' + mset xs"
    and t: "\<And>i. term i \<le> term' i" and H: "H \<subseteq> H'"
    and R: "\<And>v t c. (v, t, c) \<in> H' \<Longrightarrow> 0 \<le> v \<and> v < int N"
    and F: "\<And>v t c c'. (v, t, c) \<in> H' \<Longrightarrow> (v, t, c') \<in> H' \<Longrightarrow> c = c'"
    and C: "\<And>c t v. (c, t, v) \<in> C' \<Longrightarrow> (c, t, v) \<notin> C \<Longrightarrow> (v, t, c) \<in> H' \<and> v \<noteq> c \<and> t \<le> term' c"
    and rv: "\<And>v m. (v, M_RequestVote m) \<in> set new \<Longrightarrow> 0 \<le> rv_CandidateId m \<and> rv_CandidateId m < int N \<and>
        rv_CandidateId m \<noteq> v \<and> 1 \<le> rv_Term m \<and> rv_Term m \<le> term' (rv_CandidateId m)"
    and gr: "\<And>c m. (c, M_RequestVoteReply m) \<in> set new \<Longrightarrow> rvr_VoteGranted m = 1 \<Longrightarrow>
        (rvr_VoterId m, rvr_Term m, c) \<in> H' \<and> rvr_VoterId m \<noteq> c \<and> rvr_Term m \<le> term' c"
    and b: "\<And>c t v. ballots c t v w' + ballots c t v new + (if (c, t, v) \<in> C' then 1 else 0) \<le> 1"
  shows "vote_inv N term' H' C' (w' @ new)"
proof -
  have sub: "set w' \<subseteq> set w" using w by (metis set_mset_mset set_mset_union sup_ge1)
  have C': "(v, t, c) \<in> H' \<and> v \<noteq> c \<and> t \<le> term' c" if "(c, t, v) \<in> C'" for c t v
  proof (cases "(c, t, v) \<in> C")
    case True
    then have "(v, t, c) \<in> H \<and> v \<noteq> c \<and> t \<le> term c" by (rule vote_inv_counted [OF V])
    with H t [of c] show ?thesis by auto
  qed (use C that in blast)
  have rv': "0 \<le> rv_CandidateId m \<and> rv_CandidateId m < int N \<and> rv_CandidateId m \<noteq> v \<and> 1 \<le> rv_Term m \<and>
      rv_Term m \<le> term' (rv_CandidateId m)"
    if "(v, M_RequestVote m) \<in> set w'" for v m
    using vote_inv_request [OF V, of v m] that sub t [of "rv_CandidateId m"] by auto
  have gr': "(rvr_VoterId m, rvr_Term m, c) \<in> H' \<and> rvr_VoterId m \<noteq> c \<and> rvr_Term m \<le> term' c"
    if "(c, M_RequestVoteReply m) \<in> set w'" "rvr_VoteGranted m = 1" for c m
    using vote_inv_reply [OF V, of c m] that sub H t [of c] by auto
  have 1: "\<forall>v t c. (v, t, c) \<in> H' \<longrightarrow> 0 \<le> v \<and> v < int N" using R by blast
  have 2: "\<forall>v t c c'. (v, t, c) \<in> H' \<longrightarrow> (v, t, c') \<in> H' \<longrightarrow> c = c'" using F by blast
  have 3: "\<forall>c t v. (c, t, v) \<in> C' \<longrightarrow> (v, t, c) \<in> H' \<and> v \<noteq> c \<and> t \<le> term' c" using C' by blast
  have 4: "\<forall>v m. (v, M_RequestVote m) \<in> set (w' @ new) \<longrightarrow> 0 \<le> rv_CandidateId m \<and>
      rv_CandidateId m < int N \<and> rv_CandidateId m \<noteq> v \<and> 1 \<le> rv_Term m \<and>
      rv_Term m \<le> term' (rv_CandidateId m)"
  proof (intro allI impI)
    fix v m
    assume "(v, M_RequestVote m) \<in> set (w' @ new)"
    then show "0 \<le> rv_CandidateId m \<and> rv_CandidateId m < int N \<and> rv_CandidateId m \<noteq> v \<and>
        1 \<le> rv_Term m \<and> rv_Term m \<le> term' (rv_CandidateId m)"
      using rv [of v m] rv' [of v m] by (cases "(v, M_RequestVote m) \<in> set w'") simp_all
  qed
  have 5: "\<forall>c m. (c, M_RequestVoteReply m) \<in> set (w' @ new) \<longrightarrow> rvr_VoteGranted m = 1 \<longrightarrow>
      (rvr_VoterId m, rvr_Term m, c) \<in> H' \<and> rvr_VoterId m \<noteq> c \<and> rvr_Term m \<le> term' c"
  proof (intro allI impI)
    fix c m
    assume "(c, M_RequestVoteReply m) \<in> set (w' @ new)" "rvr_VoteGranted m = 1"
    then show "(rvr_VoterId m, rvr_Term m, c) \<in> H' \<and> rvr_VoterId m \<noteq> c \<and> rvr_Term m \<le> term' c"
      using gr [of c m] gr' [of c m] by (cases "(c, M_RequestVoteReply m) \<in> set w'") simp_all
  qed
  have 6: "\<forall>c t v. ballots c t v (w' @ new) + (if (c, t, v) \<in> C' then 1 else 0) \<le> 1"
    using b by simp
  from 1 2 3 4 5 6 show ?thesis unfolding vote_inv_def by (intro conjI)
qed

lemma vote_inv_smaller:
  assumes V: "vote_inv N term H C w" and w: "mset w = mset w' + mset xs"
    and new: "\<forall>x \<in> set new. \<not> is_vote x" and t: "\<And>i. term i \<le> term' i"
  shows "vote_inv N term' H C (w' @ new)"
proof (rule vote_inv_change [OF V w t order_refl])
  fix c t v
  have "ballots c t v w + (if (c, t, v) \<in> C then 1 else 0) \<le> 1" using V unfolding vote_inv_def by blast
  then show "ballots c t v w' + ballots c t v new + (if (c, t, v) \<in> C then 1 else 0) \<le> 1"
    using ballots_no_votes [OF new, of c t v] ballots_mset [OF w, of c t v] by linarith
qed (use V new in \<open>auto simp: vote_inv_def dest!: bspec\<close>)

lemma node_invI:
  assumes "rid r = i" and "nrep r = N" and "votesNeeded r = int N div 2 + 1" and "0 \<le> currentTerm r"
    and "\<And>t c. (i, t, c) \<in> H \<Longrightarrow> 0 \<le> c \<and> (t < currentTerm r \<or> t = currentTerm r \<and> votedFor r = c)"
    and "role r = CANDIDATE \<Longrightarrow> 1 \<le> currentTerm r \<and> votedFor r = i \<and> (i, currentTerm r, i) \<in> H \<and>
        votesReceived r = 1 + int (card {v. (i, currentTerm r, v) \<in> C})"
    and "role r = LEADER \<Longrightarrow> currentTerm r = 0 \<and> i = L \<or>
        1 \<le> currentTerm r \<and> is_majority (int N) {v. (v, currentTerm r, i) \<in> H}"
  shows "node_inv N L H C i r"
  using assms unfolding node_inv_def by blast

lemma node_inv_voted:
  "node_inv N L H C i r \<Longrightarrow> (i, t, c) \<in> H \<Longrightarrow>
     0 \<le> c \<and> (t < currentTerm r \<or> t = currentTerm r \<and> votedFor r = c)"
  unfolding node_inv_def by blast

lemma node_inv_ids:
  "node_inv N L H C i r \<Longrightarrow>
     rid r = i \<and> nrep r = N \<and> votesNeeded r = int N div 2 + 1 \<and> 0 \<le> currentTerm r"
  by (simp add: node_inv_def)

lemma node_inv_frame:
  assumes "node_inv N L H C i r" and "elect_frame r r' \<or> stepped_down r r' \<or> gave_up r r'"
  shows "node_inv N L H C i r'"
  using assms unfolding node_inv_def elect_simps by fastforce

lemma is_majority_mono: "is_majority N A \<Longrightarrow> A \<subseteq> B \<Longrightarrow> B \<subseteq> {0..<N} \<Longrightarrow> is_majority N B"
  unfolding is_majority_def using card_mono [of B A] finite_subset [of B "{0..<N}"] by fastforce

lemma node_inv_mono:
  assumes "node_inv N L H C j r" and "H \<subseteq> H'" and "\<And>t c. (j, t, c) \<in> H' \<Longrightarrow> (j, t, c) \<in> H"
    and "\<And>v t c. (v, t, c) \<in> H' \<Longrightarrow> 0 \<le> v \<and> v < int N" and "\<And>t v. (j, t, v) \<in> C' \<longleftrightarrow> (j, t, v) \<in> C"
  shows "node_inv N L H' C' j r"
proof -
  have m: "is_majority (int N) {v. (v, currentTerm r, j) \<in> H'}"
    if "is_majority (int N) {v. (v, currentTerm r, j) \<in> H}"
    using that by (rule is_majority_mono) (use assms(2,4) in auto)
  have "{v. (j, currentTerm r, v) \<in> C'} = {v. (j, currentTerm r, v) \<in> C}" by (simp add: assms(5))
  moreover have "\<forall>t c. (j, t, c) \<in> H' \<longrightarrow> 0 \<le> c \<and> (t < currentTerm r \<or> t = currentTerm r \<and> votedFor r = c)"
    using assms(1,3) unfolding node_inv_def by blast
  ultimately show ?thesis using assms(1,2) m unfolding node_inv_def by auto
qed

text \<open>A step at replica \<open>i\<close> that takes the messages \<open>xs\<close> and sends \<open>new\<close>.\<close>

lemma elect_inv_frame:
  assumes "elect_inv N L s H C" and "0 \<le> i" and "i < int N" and "mset (wire s) = mset w + mset xs"
    and "\<forall>x \<in> set new. \<not> is_vote x"
    and "elect_frame (nodes s i) r' \<or> stepped_down (nodes s i) r' \<or> gave_up (nodes s i) r'"
  shows "elect_inv N L (s\<lparr>nodes := (nodes s)(i := r'), wire := w @ new\<rparr>) H C"
proof -
  have t: "currentTerm (nodes s j) \<le> currentTerm (((nodes s)(i := r')) j)" for j
    using assms(6) by (auto simp: elect_simps)
  have "vote_inv N (\<lambda>j. currentTerm (((nodes s)(i := r')) j)) H C (w @ new)"
    using assms(1) unfolding elect_inv_def
    by (elim conjE) (erule vote_inv_smaller [OF _ assms(4,5)], rule t)
  moreover have "node_inv N L H C i r'"
    using assms(1-3) unfolding elect_inv_def by (blast intro: node_inv_frame [OF _ assms(6)])
  ultimately show ?thesis using assms(1) by (simp add: elect_inv_def)
qed

lemma elect_inv_D:
  assumes "elect_inv N L s H C" and "0 \<le> i" and "i < int N"
  shows "node_inv N L H C i (nodes s i)"
  using assms by (simp add: elect_inv_def)

text \<open>A vote given by replica \<open>i\<close>: the request is traded for a reply that grants it.\<close>

lemma elect_inv_grant:
  assumes inv: "elect_inv N L s H C" and i: "0 \<le> i" "i < int N"
    and w: "mset (wire s) = mset w + {#(i, M_RequestVote m)#}"
    and grant: "handleRequestVote m (nodes s i) = Some (r', outs)"
  shows "\<exists>H'. elect_inv N L (s\<lparr>nodes := (nodes s)(i := r'), wire := w @ sends outs\<rparr>) H' C"
proof -
  let ?r = "nodes s i" and ?c = "rv_CandidateId m" and ?t = "rv_Term m"
  have "(i, M_RequestVote m) \<in># mset (wire s)" unfolding w by simp
  then have mem: "(i, M_RequestVote m) \<in> set (wire s)" by simp
  have V: "vote_inv N (\<lambda>j. currentTerm (nodes s j)) H C (wire s)" using inv by (simp add: elect_inv_def)
  have m: "0 \<le> ?c" "?c < int N" "?c \<noteq> i" "1 \<le> ?t" "?t \<le> currentTerm (nodes s ?c)"
    using V mem unfolding vote_inv_def by blast+
  note n = elect_inv_D [OF inv i]
  have w': "mset (wire s) = mset w + mset [(i, M_RequestVote m)]" by (simp add: w)
  define r1 where "r1 = (if currentTerm ?r < ?t then becomeFollower ?t ?r else ?r)"
  have r1: "elect_frame ?r r1 \<and> r1 = ?r \<or> stepped_down ?r r1"
    by (auto simp: r1_def becomeFollower_def elect_simps)
  consider (denied) "elect_frame ?r r' \<or> stepped_down ?r r'" "\<forall>x \<in> set (sends outs). \<not> is_vote x"
    | (granted) "r' = r1\<lparr>votedFor := ?c\<rparr>" "currentTerm r' = ?t" "votedFor r1 = -1 \<or> votedFor r1 = ?c"
        "sends outs = [(?c, M_RequestVoteReply \<lparr>rvr_VoterId = rid ?r, rvr_Term = ?t, rvr_VoteGranted = 1\<rparr>)]"
  proof (cases "?t < currentTerm ?r")
    case True
    then have "elect_frame ?r r'" "\<forall>x \<in> set (sends outs). \<not> is_vote x"
      using grant by (auto simp: handleRequestVote_def vote_reply_def elect_simps)
    then show thesis using that(1) by blast
  next
    case False
    let ?g = "(votedFor r1 = - 1 \<or> votedFor r1 = ?c) \<and> isLogUpToDate m r1"
    have e: "r' = (if ?g then r1\<lparr>votedFor := ?c\<rparr> else r1)" "outs = [vote_reply r' ?c (if ?g then 1 else 0)]"
      using grant False unfolding handleRequestVote_def Let_def r1_def [symmetric] by auto
    have t: "currentTerm r1 = ?t" "rid r1 = rid ?r" using False by (auto simp: r1_def becomeFollower_def)
    show thesis
    proof (cases ?g)
      case True
      with e t that(2) show thesis by (simp add: vote_reply_def)
    next
      case False
      with e r1 that(1) show thesis by (auto simp: vote_reply_def)
    qed
  qed
  then show ?thesis
  proof cases
    case denied
    with elect_inv_frame [OF inv i w' denied(2)] show ?thesis by blast
  next
    case granted
    let ?H = "insert (i, ?t, ?c) H"
    have rid: "rid ?r = i" using n by (simp add: node_inv_def)
    have tm: "currentTerm (nodes s j) \<le> currentTerm (((nodes s)(i := r')) j)" for j
      using r1 granted(1) by (auto simp: elect_simps)
    have R: "0 \<le> v \<and> v < int N" if "(v, t, c) \<in> ?H" for v t c
      using that i vote_inv_range [OF V] by auto
    have same: "c = ?c" if "(i, ?t, c) \<in> H" for c
      using node_inv_voted [OF n that] granted(1-3) by (auto simp: r1_def becomeFollower_def split: if_splits)
    have F: "c = c'" if "(v, t, c) \<in> ?H" "(v, t, c') \<in> ?H" for v t c c'
      using that same vote_inv_once [OF V] by auto
    have "node_inv N L ?H C i r'"
    proof (cases "currentTerm ?r < ?t")
      case True
      have "0 \<le> c \<and> (t < ?t \<or> t = ?t \<and> ?c = c)" if "(i, t, c) \<in> ?H" for t c
        using that node_inv_voted [OF n, of t c] True m(1) by auto
      moreover have "role r' = FOLLOWER" "votedFor r' = ?c" "rid r' = i" "nrep r' = N"
          "votesNeeded r' = int N div 2 + 1"
        using True granted(1) node_inv_ids [OF n] by (auto simp: r1_def becomeFollower_def)
      ultimately show ?thesis using m granted(2) by (intro node_invI) auto
    next
      case False
      then have r: "r' = ?r\<lparr>votedFor := ?c\<rparr>" "currentTerm ?r = ?t" "votedFor ?r = -1 \<or> votedFor ?r = ?c"
        using granted by (auto simp: r1_def)
      then have "role ?r \<noteq> CANDIDATE" using n m i by (auto simp: node_inv_def)
      moreover have "is_majority (int N) {v. (v, ?t, i) \<in> ?H}" if "role ?r = LEADER"
      proof -
        have "is_majority (int N) {v. (v, ?t, i) \<in> H}"
          using n that r(2) m(4) unfolding node_inv_def by auto
        then show ?thesis by (rule is_majority_mono) (use i in \<open>auto dest: vote_inv_range [OF V]\<close>)
      qed
      moreover have "0 \<le> c \<and> (t < ?t \<or> t = ?t \<and> ?c = c)" if "(i, t, c) \<in> ?H" for t c
        using that node_inv_voted [OF n, of t c] r(2,3) m(1) by auto
      ultimately show ?thesis
        using node_inv_ids [OF n] r(1,2) m(4) by (intro node_invI) auto
    qed
    moreover have "node_inv N L ?H C j (nodes s j)" if "0 \<le> j" "j < int N" "j \<noteq> i" for j
      using elect_inv_D [OF inv that(1,2)] by (rule node_inv_mono) (use that R in auto)
    moreover have "vote_inv N (\<lambda>j. currentTerm (((nodes s)(i := r')) j)) ?H C (w @ sends outs)"
    proof (rule vote_inv_change [OF V w' tm _ R F])
      fix c t v
      have "ballots c t v (sends outs) = ballots c t v [(i, M_RequestVote m)]"
        by (simp add: granted(4) ballots_def rid)
      moreover have "ballots c t v (wire s) + (if (c, t, v) \<in> C then 1 else 0) \<le> 1"
        using V unfolding vote_inv_def by blast
      ultimately show "ballots c t v w + ballots c t v (sends outs) + (if (c, t, v) \<in> C then 1 else 0) \<le> 1"
        using ballots_mset [OF w', of c t v] by linarith
    qed (use m rid in \<open>auto simp: granted(4)\<close>)
    ultimately have "elect_inv N L (s\<lparr>nodes := (nodes s)(i := r'), wire := w @ sends outs\<rparr>) ?H C"
      by (simp add: elect_inv_def)
    then show ?thesis by blast
  qed
qed


lemma becomeLeader_shape:
  assumes "becomeLeader r = Some (r', outs)"
  shows "same_identity r r' \<and> currentTerm r' = currentTerm r \<and> votedFor r' = votedFor r \<and>
    role r' = LEADER \<and> (\<forall>x \<in> set outs. \<not> is_vote_msg x)"
  using assms
  by (auto simp: becomeLeader_def init_leader_state_def slice_simps Let_def sendHeartbeats_def
      same_identity_def dest: broadcast_msgs)

text \<open>A vote counted by a candidate.\<close>

lemma elect_inv_count:
  assumes inv: "elect_inv N L s H C" and i: "0 \<le> i" "i < int N" and N: "N < 2147483648"
    and w: "mset (wire s) = mset w + {#(i, M_RequestVoteReply m)#}"
    and step: "handleRequestVoteReply m (nodes s i) = Some (r', outs)"
    and timely: "timely (Ev_RequestVoteReply m) (nodes s i)"
  shows "\<exists>C'. elect_inv N L (s\<lparr>nodes := (nodes s)(i := r'), wire := w @ sends outs\<rparr>) H C'"
proof -
  let ?r = "nodes s i" and ?v = "rvr_VoterId m"
  have w': "mset (wire s) = mset w + mset [(i, M_RequestVoteReply m)]" by (simp add: w)
  have "(i, M_RequestVoteReply m) \<in># mset (wire s)" unfolding w by simp
  then have mem: "(i, M_RequestVoteReply m) \<in> set (wire s)" by simp
  have V: "vote_inv N (\<lambda>j. currentTerm (nodes s j)) H C (wire s)" using inv by (simp add: elect_inv_def)
  note n = elect_inv_D [OF inv i]
  show ?thesis
  proof (cases "role ?r = CANDIDATE \<and> \<not> currentTerm ?r < rvr_Term m \<and> rvr_VoteGranted m = 1")
    case False
    have "elect_frame ?r r' \<or> stepped_down ?r r'" "outs = []"
      using step False
      by (auto simp: handleRequestVoteReply_def becomeFollower_def elect_simps split: if_splits)
    then show ?thesis using elect_inv_frame [OF inv i w', of "[]" r'] by auto
  next
    case True
    let ?t = "currentTerm ?r" and ?C = "insert (i, currentTerm ?r, ?v) C"
    have t: "rvr_Term m = ?t" using True timely by simp
    have vote: "(?v, ?t, i) \<in> H" "?v \<noteq> i" using V mem True t unfolding vote_inv_def by metis+
    have cand: "1 \<le> ?t" "votedFor ?r = i" "(i, ?t, i) \<in> H" "rid ?r = i" "nrep ?r = N"
        "votesReceived ?r = 1 + int (card {v. (i, ?t, v) \<in> C})" "votesNeeded ?r = int N div 2 + 1"
      using n True by (simp_all add: node_inv_def)
    have grant: "ballots i ?t ?v [(i, M_RequestVoteReply m)] = 1" using True t by (simp add: ballots_def)
    have one: "ballots c t v (wire s) + (if (c, t, v) \<in> C then 1 else 0) \<le> 1" for c t v
      using V unfolding vote_inv_def by blast
    have b: "ballots c t v (wire s) = ballots c t v w + ballots c t v [(i, M_RequestVoteReply m)]" for c t v
      by (rule ballots_mset [OF w'])
    have fresh: "(i, ?t, ?v) \<notin> C" using one [of i ?t ?v] b [of i ?t ?v] grant by (auto split: if_splits)
    have inR: "{v. (i, ?t, v) \<in> ?C} \<subseteq> {0..<int N} - {i}"
    proof
      fix v
      assume "v \<in> {v. (i, ?t, v) \<in> ?C}"
      then have "(v, ?t, i) \<in> H \<and> v \<noteq> i" using V vote unfolding vote_inv_def by blast
      then show "v \<in> {0..<int N} - {i}" using V unfolding vote_inv_def by auto
    qed
    have fin: "finite {v. (i, ?t, v) \<in> ?C}" using inR by (rule finite_subset) simp
    have set: "{v. (i, ?t, v) \<in> ?C} = insert ?v {v. (i, ?t, v) \<in> C}" by auto
    have card: "card {v. (i, ?t, v) \<in> ?C} = Suc (card {v. (i, ?t, v) \<in> C})"
      unfolding set using fin fresh by (intro card_insert_disjoint) (simp_all add: set)
    have le: "card {v. (i, ?t, v) \<in> ?C} \<le> N"
      using card_mono [OF _ inR] i by simp
    have rec: "i64 (votesReceived ?r + 1) = 1 + int (card {v. (i, ?t, v) \<in> ?C})"
      using cand(6) card le N by (simp add: is_i64_def)
    define r1 where "r1 = ?r\<lparr>votesReceived := i64 (votesReceived ?r + 1)\<rparr>"
    have r1: "same_identity ?r r1" "currentTerm r1 = ?t" "votedFor r1 = i" "role r1 = CANDIDATE"
        "votesReceived r1 = 1 + int (card {v. (i, ?t, v) \<in> ?C})"
      using True cand rec by (simp_all add: r1_def same_identity_def)
    have e: "(if votesNeeded r1 \<le> votesReceived r1 then becomeLeader r1 else Some (r1, [])) = Some (r', outs)"
      using step True unfolding handleRequestVoteReply_def Let_def r1_def by simp
    have maj: "is_majority (int N) {v. (v, ?t, i) \<in> H}" if "votesNeeded r1 \<le> votesReceived r1"
    proof -
      have "insert i {v. (i, ?t, v) \<in> ?C} \<subseteq> {v. (v, ?t, i) \<in> H}"
        using cand(3) vote vote_inv_counted [OF V] by auto
      moreover have "{v. (v, ?t, i) \<in> H} \<subseteq> {0..<int N}" using vote_inv_range [OF V] by auto
      moreover have "card (insert i {v. (i, ?t, v) \<in> ?C}) = Suc (card {v. (i, ?t, v) \<in> ?C})"
        using fin inR by (intro card_insert_disjoint) auto
      ultimately show ?thesis
        using that r1(1,5) cand(7) i card_mono [of "{v. (v, ?t, i) \<in> H}" "insert i {v. (i, ?t, v) \<in> ?C}"]
          finite_subset [of "{v. (v, ?t, i) \<in> H}" "{0..<int N}"]
        unfolding is_majority_def same_identity_def by auto
    qed
    have new: "\<forall>x \<in> set (sends outs). \<not> is_vote x"
      using e becomeLeader_shape [of r1 r' outs] by (intro sends_no_votes) (auto split: if_splits)
    have r': "same_identity ?r r'" "currentTerm r' = ?t" "votedFor r' = i"
        "role r' = CANDIDATE \<and> votesReceived r' = 1 + int (card {v. (i, ?t, v) \<in> ?C}) \<or>
         role r' = LEADER \<and> votesNeeded r1 \<le> votesReceived r1"
      using e r1 becomeLeader_shape [of r1 r' outs] by (auto simp: same_identity_def split: if_splits)
    have "node_inv N L H ?C i r'"
    proof (rule node_invI)
      fix t c
      assume "(i, t, c) \<in> H"
      from node_inv_voted [OF n this] show "0 \<le> c \<and> (t < currentTerm r' \<or> t = currentTerm r' \<and> votedFor r' = c)"
        using r'(2,3) cand(2) by auto
    qed (use node_inv_ids [OF n] r' maj cand(1,3) in \<open>auto simp: same_identity_def\<close>)
    moreover have "node_inv N L H ?C j (nodes s j)" if "0 \<le> j" "j < int N" "j \<noteq> i" for j
      using elect_inv_D [OF inv that(1,2)] by (rule node_inv_mono) (use that V in \<open>auto simp: vote_inv_def\<close>)
    moreover have "vote_inv N (\<lambda>j. currentTerm (((nodes s)(i := r')) j)) H ?C (w @ sends outs)"
    proof (rule vote_inv_change [OF V w'])
      fix c t v
      show "ballots c t v w + ballots c t v (sends outs) + (if (c, t, v) \<in> ?C then 1 else 0) \<le> 1"
        using one [of c t v] b [of c t v] grant ballots_no_votes [OF new, of c t v]
        by (cases "(c, t, v) = (i, ?t, ?v)") (auto split: if_splits)
    qed (use V vote new r'(2) in \<open>auto simp: vote_inv_def dest!: bspec\<close>)
    ultimately have "elect_inv N L (s\<lparr>nodes := (nodes s)(i := r'), wire := w @ sends outs\<rparr>) H ?C"
      by (simp add: elect_inv_def)
    then show ?thesis by blast
  qed
qed


text \<open>A new candidacy.\<close>

lemma ballots_requests:
  "ballots c t v (sends (map (\<lambda>j. SendTo (int j) (M_RequestVote rv)) (filter P [0..<n]))) \<le>
     (if rv_CandidateId rv = c \<and> rv_Term rv = t then 1 else 0)"
proof -
  have s: "sends (map (\<lambda>j. SendTo (int j) (M_RequestVote rv)) xs) = map (\<lambda>j. (int j, M_RequestVote rv)) xs" for xs
    by (induction xs) simp_all
  have "length (filter (\<lambda>j. int j = v) (filter P [0..<n])) \<le> length (filter (\<lambda>j. int j = v) [0..<n])"
    unfolding filter_filter by (rule length_filter_mono) simp
  also have "\<dots> = card ({j. int j = v} \<inter> set [0..<n])" by (rule distinct_length_filter) simp
  also have "\<dots> \<le> card {nat v}" by (rule card_mono) auto
  also have "\<dots> = 1" by simp
  finally have "length (filter (\<lambda>j. int j = v) (filter P [0..<n])) \<le> 1" .
  then show ?thesis by (simp add: ballots_def s filter_map comp_def)
qed

lemma elect_inv_start:
  assumes inv: "elect_inv N L s H C" and i: "0 \<le> i" "i < int N"
    and bound: "currentTerm (nodes s i) < 2147483647"
    and start: "startElection ((nodes s i)\<lparr>electionTimer := x\<rparr>) = (r1, outs)"
    and r': "r' = r1\<lparr>electionTimer := y\<rparr>"
  shows "\<exists>H'. elect_inv N L (s\<lparr>nodes := (nodes s)(i := r'), wire := wire s @ sends outs\<rparr>) H' C"
proof -
  let ?r = "nodes s i" and ?t = "currentTerm (nodes s i) + 1"
  let ?H = "insert (i, ?t, i) H"
  note n = elect_inv_D [OF inv i]
  have V: "vote_inv N (\<lambda>j. currentTerm (nodes s j)) H C (wire s)" using inv by (simp add: elect_inv_def)
  have t: "i32 ?t = ?t" using n bound by (intro i32_small) (simp_all add: node_inv_def)
  define rv where "rv = \<lparr>rv_CandidateId = i, rv_Term = ?t, rv_LastLogIndex = lastLogIndex ?r,
    rv_LastLogTerm = lastLogTerm ?r\<rparr>"
  have rid: "rid ?r = i" "nrep ?r = N" "0 \<le> currentTerm ?r" using n by (simp_all add: node_inv_def)
  have outs: "outs = map (\<lambda>j. SendTo (int j) (M_RequestVote rv)) (filter (\<lambda>j. int j \<noteq> i) [0..<N])"
    using start rid t
    by (auto simp: startElection_def Let_def rv_def lastLogIndex_def lastLogTerm_def)
  have post: "same_identity ?r r'" "currentTerm r' = ?t" "votedFor r' = i" "role r' = CANDIDATE" "votesReceived r' = 1"
    using start rid t unfolding r' by (auto simp: startElection_def Let_def same_identity_def)
  have sends: "x \<in> set (sends outs) \<Longrightarrow> \<exists>j. x = (j, M_RequestVote rv) \<and> j \<noteq> i" for x
  proof -
    have s: "sends (map (\<lambda>j. SendTo (int j) (M_RequestVote rv)) xs) = map (\<lambda>j. (int j, M_RequestVote rv)) xs" for xs
      by (induction xs) simp_all
    show "x \<in> set (sends outs) \<Longrightarrow> \<exists>j. x = (j, M_RequestVote rv) \<and> j \<noteq> i" by (auto simp: outs s)
  qed
  have noC: "(i, ?t, v) \<notin> C" for v
  proof
    assume "(i, ?t, v) \<in> C"
    then have "?t \<le> currentTerm ?r" using V unfolding vote_inv_def by blast
    then show False by simp
  qed
  have noB: "ballots i ?t v (wire s) = 0" for v
  proof -
    have "\<not> (is_rv i ?t v x \<or> is_grant i ?t v x)" if "x \<in> set (wire s)" for x
    proof -
      have "rv_Term m \<le> currentTerm (nodes s (rv_CandidateId m))" if "(d, M_RequestVote m) \<in> set (wire s)" for d m
        using V that unfolding vote_inv_def by blast
      moreover have "rvr_Term m \<le> currentTerm (nodes s d)"
        if "(d, M_RequestVoteReply m) \<in> set (wire s)" "rvr_VoteGranted m = 1" for d m
        using V that unfolding vote_inv_def by blast
      ultimately show ?thesis using that by (cases x rule: is_vote.cases) fastforce+
    qed
    then show ?thesis unfolding ballots_def by (simp add: filter_empty_conv)
  qed
  have "node_inv N L ?H C i r'"
  proof (rule node_invI)
    fix t c
    assume "(i, t, c) \<in> ?H"
    then show "0 \<le> c \<and> (t < currentTerm r' \<or> t = currentTerm r' \<and> votedFor r' = c)"
      using node_inv_voted [OF n, of t c] post(2,3) i by auto
  qed (use node_inv_ids [OF n] post noC in \<open>auto simp: same_identity_def\<close>)
  moreover have "node_inv N L ?H C j (nodes s j)" if "0 \<le> j" "j < int N" "j \<noteq> i" for j
    using elect_inv_D [OF inv that(1,2)]
    by (rule node_inv_mono) (use that i V in \<open>auto simp: vote_inv_def\<close>)
  moreover have "vote_inv N (\<lambda>j. currentTerm (((nodes s)(i := r')) j)) ?H C (wire s @ sends outs)"
  proof (rule vote_inv_change [OF V, of _ "[]"])
    fix v t c c'
    assume "(v, t, c) \<in> ?H" "(v, t, c') \<in> ?H"
    moreover have "(i, ?t, c) \<notin> H" for c using node_inv_voted [OF n, of ?t c] by auto
    ultimately show "c = c'" using vote_inv_once [OF V] by auto
  next
    fix c t v
    have "ballots c t v (wire s) + (if (c, t, v) \<in> C then 1 else 0) \<le> 1"
      using V unfolding vote_inv_def by blast
    moreover have "ballots c t v (sends outs) \<le> (if i = c \<and> ?t = t then 1 else 0)"
      using ballots_requests [of c t v rv "\<lambda>j. int j \<noteq> i" N] unfolding outs by (simp add: rv_def)
    ultimately show "ballots c t v (wire s) + ballots c t v (sends outs) + (if (c, t, v) \<in> C then 1 else 0) \<le> 1"
      using noC [of v] noB [of v] by (auto split: if_splits)
  next
    fix v m
    assume "(v, M_RequestVote m) \<in> set (sends outs)"
    from sends [OF this] show "0 \<le> rv_CandidateId m \<and> rv_CandidateId m < int N \<and> rv_CandidateId m \<noteq> v \<and>
        1 \<le> rv_Term m \<and> rv_Term m \<le> currentTerm (((nodes s)(i := r')) (rv_CandidateId m))"
      using i post(2) rid(3) by (auto simp: rv_def)
  next
    fix c m
    assume "(c, M_RequestVoteReply m) \<in> set (sends outs)"
    from sends [OF this] show "(rvr_VoterId m, rvr_Term m, c) \<in> ?H \<and> rvr_VoterId m \<noteq> c \<and>
        rvr_Term m \<le> currentTerm (((nodes s)(i := r')) c)" by simp
  qed (use V i post(2) in \<open>auto simp: vote_inv_def\<close>)
  ultimately have "elect_inv N L (s\<lparr>nodes := (nodes s)(i := r'), wire := wire s @ sends outs\<rparr>) ?H C"
    by (simp add: elect_inv_def)
  then show ?thesis by blast
qed


subsection \<open>Election safety\<close>

lemma start_node_inv:
  assumes "0 \<le> i" and "i < int N"
  shows "\<exists>r outs. start_node N L i = Some (r, outs) \<and> node_inv N L {} {} i r \<and>
    (\<forall>x \<in> set (sends outs). \<not> is_vote x)"
proof -
  let ?w = "map (\<lambda>j. int j \<noteq> i) [0..<N]"
  obtain r0 where r0: "New i N (i = L) 0 = Some r0" "rid r0 = i" "nrep r0 = N"
      "votesNeeded r0 = int N div 2 + 1" "currentTerm r0 = 0" "role r0 \<noteq> CANDIDATE"
      "role r0 = LEADER \<longrightarrow> i = L" "length (nextIndex r0) = N"
    using assms that by (cases "i = L") (simp_all add: New_def BeTheLeader_def init_leader_state_ok Let_def)
  have "\<exists>r outs. run_start ?w r0 = Some (r, outs) \<and> elect_frame r0 r \<and> (\<forall>x \<in> set outs. \<not> is_vote_msg x)"
    using r0 by (auto simp: run_start_def Let_def sendHeartbeats_def broadcast_eq elect_simps)
  then obtain r outs where r: "run_start ?w r0 = Some (r, outs)" "elect_frame r0 r"
      "\<forall>x \<in> set outs. \<not> is_vote_msg x" by blast
  have "node_inv N L {} {} i r"
    using r0 r(2) by (auto simp: node_inv_def elect_simps)
  with r r0(1) sends_no_votes [OF r(3)] show ?thesis by (auto simp: start_node_def)
qed

lemma elect_inv_init: "elect_inv N L (init_net N L) {} {}"
proof -
  have "node_inv N L {} {} i (nodes (init_net N L) i)" if "0 \<le> i" "i < int N" for i
    using start_node_inv [OF that, of L] by (auto simp: init_net_def)
  moreover have nv: "\<forall>x \<in> set (wire (init_net N L)). \<not> is_vote x"
  proof
    fix x
    assume "x \<in> set (wire (init_net N L))"
    then obtain k where k: "k < N" "x \<in> set (sends (snd (the (start_node N L (int k)))))"
      by (auto simp: init_net_def)
    then show "\<not> is_vote x" using start_node_inv [of "int k" N L] by auto
  qed
  moreover have "vote_inv N term {} {} (wire (init_net N L))" for "term"
  proof -
    have "(v, M_RequestVote m) \<notin> set (wire (init_net N L))"
      "(v, M_RequestVoteReply m') \<in> set (wire (init_net N L)) \<Longrightarrow> rvr_VoteGranted m' \<noteq> 1" for v m m'
      using nv by (metis is_vote.simps(1), metis is_vote.simps(2))
    then show ?thesis using ballots_no_votes [OF nv] by (auto simp: vote_inv_def)
  qed
  ultimately show ?thesis by (simp add: elect_inv_def)
qed

lemma elect_inv_step:
  assumes inv: "elect_inv N L s H C" and i: "0 \<le> i" "i < int N" and N: "N < 2147483648"
    and ev: "ev \<noteq> Ev_BeTheLeader" and timely: "timely ev (nodes s i)"
    and bound: "currentTerm (nodes s i) < 2147483647" and step: "net_do i ev s = Some s'"
  shows "\<exists>H' C'. elect_inv N L s' H' C'"
proof -
  from step obtain w r' outs where t: "take_msgs (wire s) (consumes i ev) = Some w"
      and run: "run_step ev (nodes s i) = Some (r', outs)"
      and s': "s' = s\<lparr>nodes := (nodes s)(i := r'), wire := w @ sends outs\<rparr>"
    by (auto simp: net_do_def Option.bind_eq_Some_conv)
  note w = take_msgs_mset [OF t]
  show ?thesis
  proof (cases "vote_event ev")
    case False
    from run_step_frame [OF run False] have
      "elect_frame (nodes s i) r' \<or> stepped_down (nodes s i) r' \<or> gave_up (nodes s i) r'"
      "\<forall>x \<in> set (sends outs). \<not> is_vote x" using sends_no_votes by auto
    from elect_inv_frame [OF inv i w this(2,1)] show ?thesis unfolding s' by blast
  next
    case True
    then consider (rv) m where "ev = Ev_RequestVote m" | (rvr) m where "ev = Ev_RequestVoteReply m"
      | (timer) "ev = Ev_ElectionTimer" using ev by (cases ev) auto
    then show ?thesis
    proof cases
      case rv
      with elect_inv_grant [OF inv i, of w m r' outs] w run show ?thesis unfolding s' by auto
    next
      case rvr
      with elect_inv_count [OF inv i N, of w m r' outs] w run timely show ?thesis unfolding s' by auto
    next
      case timer
      then have w': "w = wire s" using t by simp
      show ?thesis
      proof (cases "electionTimer (nodes s i) = Running \<and> role (nodes s i) \<noteq> LEADER")
        case True
        obtain r1 o1 where e: "startElection ((nodes s i)\<lparr>electionTimer := Stopped\<rparr>) = (r1, o1)" by force
        have "r' = r1\<lparr>electionTimer := Running\<rparr>" "outs = o1"
          using run timer True e by (auto simp: Let_def resetElectionTimer_def split: if_splits)
        with elect_inv_start [OF inv i bound e this(1)] show ?thesis unfolding s' w' by blast
      next
        case False
        have "elect_frame (nodes s i) r'" "outs = []"
          using run timer False by (auto simp: Let_def elect_simps split: if_splits)
        then show ?thesis
          using elect_inv_frame [OF inv i w, of "[]" r'] unfolding s' by auto
      qed
    qed
  qed
qed

lemma reach_elect_inv:
  assumes "reach timely N L s" and "N < 2147483648"
  shows "\<exists>H C. elect_inv N L s H C"
  using assms(1)
proof induction
  case init
  then show ?case using elect_inv_init by blast
next
  case (step s i ev s')
  then show ?case using elect_inv_step [of N L s _ _ i ev s'] assms(2) by blast
next
  case (lose s a x b)
  then obtain H C where inv: "elect_inv N L s H C" by blast
  have "mset (wire s) = mset (a @ b) + mset [x]" using lose(2) by simp
  then have "vote_inv N (\<lambda>i. currentTerm (nodes s i)) H C ((a @ b) @ [])"
    using inv unfolding elect_inv_def by (elim conjE) (erule vote_inv_smaller, simp_all)
  with inv have "elect_inv N L (s\<lparr>wire := a @ b\<rparr>) H C" by (simp add: elect_inv_def)
  then show ?case by blast
qed

text \<open>C1. Election safety: in a cluster that starts with the leader the master chose and in which no
  vote arrives after the candidacy it was given for has ended, two replicas that lead in the same
  term are the same replica, whatever messages are lost, delayed or reordered and whatever timers
  fire.\<close>

theorem election_safety:
  assumes "reach timely N L s" and "N < 2147483648"
    and "0 \<le> i" and "i < int N" and "0 \<le> j" and "j < int N"
    and "role (nodes s i) = LEADER" and "role (nodes s j) = LEADER"
    and "currentTerm (nodes s i) = currentTerm (nodes s j)"
  shows "i = j"
proof -
  from reach_elect_inv [OF assms(1,2)] obtain H C where inv: "elect_inv N L s H C" by blast
  note ni = elect_inv_D [OF inv assms(3,4)] and nj = elect_inv_D [OF inv assms(5,6)]
  let ?t = "currentTerm (nodes s i)"
  show ?thesis
  proof (cases "?t = 0")
    case True
    with ni nj assms(7-9) show ?thesis unfolding node_inv_def by force
  next
    case False
    then have m: "is_majority (int N) {v. (v, ?t, i) \<in> H}" "is_majority (int N) {v. (v, ?t, j) \<in> H}"
      using ni nj assms(7-9) unfolding node_inv_def by auto
    show ?thesis
    proof (rule majority.unique_winner [OF m, where vote = "\<lambda>v c. (v, ?t, c) \<in> H"])
      fix v x y
      assume "(v, ?t, x) \<in> H" "(v, ?t, y) \<in> H"
      then show "x = y" using inv vote_inv_once unfolding elect_inv_def by blast
    qed simp_all
  qed
qed

subsection \<open>Runs\<close>

text \<open>A schedule of events; \<open>None\<close> when one of them is not possible.\<close>

fun net_run :: "(raft_event \<Rightarrow> raft \<Rightarrow> bool) \<Rightarrow> nat \<Rightarrow> (int \<times> raft_event) list \<Rightarrow> net \<Rightarrow> net option" where
  "net_run ok N [] s = Some s"
| "net_run ok N ((i, ev) # evs) s =
     (if 0 \<le> i \<and> i < int N \<and> ev \<noteq> Ev_BeTheLeader \<and> ok ev (nodes s i) \<and>
        currentTerm (nodes s i) < 2147483647
      then do { s \<leftarrow> net_do i ev s; net_run ok N evs s } else None)"

lemma net_run_reach: "reach ok N L s \<Longrightarrow> net_run ok N evs s = Some s' \<Longrightarrow> reach ok N L s'"
proof (induction evs arbitrary: s)
  case (Cons x evs)
  obtain i ev where x: "x = (i, ev)" by (cases x)
  from Cons.prems(2) obtain s1 where "net_do i ev s = Some s1" "net_run ok N evs s1 = Some s'"
      "0 \<le> i" "i < int N" "ev \<noteq> Ev_BeTheLeader" "ok ev (nodes s i)" "currentTerm (nodes s i) < 2147483647"
    by (auto simp: x Option.bind_eq_Some_conv split: if_splits)
  with Cons.IH [of s1] reach.step [OF Cons.prems(1)] show ?case by blast
qed simp

definition ask :: "int \<Rightarrow> int \<Rightarrow> raft_event" where
  "ask c t = Ev_RequestVote \<lparr>rv_CandidateId = c, rv_Term = t, rv_LastLogIndex = -1, rv_LastLogTerm = 0\<rparr>"

definition granted :: "int \<Rightarrow> int \<Rightarrow> raft_event" where
  "granted v t = Ev_RequestVoteReply \<lparr>rvr_VoterId = v, rvr_Term = t, rvr_VoteGranted = 1\<rparr>"

definition elected :: "net option" where
  "elected = net_run timely 3 [(1, Ev_ElectionTimer), (2, ask 1 1), (1, granted 2 1)] (init_net 3 0)"

lemma elected_leader:
  "case elected of None \<Rightarrow> False | Some s \<Rightarrow> role (nodes s 1) = LEADER \<and> currentTerm (nodes s 1) = 1"
  by code_simp

theorem election_safety_witness:
  "\<exists>s. elected = Some s \<and> role (nodes s 1) = LEADER \<and>
     (\<forall>j. (0 \<le> j \<and> j < 3 \<and> role (nodes s j) = LEADER \<and> currentTerm (nodes s j) = 1) \<longrightarrow> 1 = j)"
proof -
  obtain s where s: "elected = Some s" "role (nodes s 1) = LEADER" "currentTerm (nodes s 1) = 1"
    using elected_leader by (auto split: option.splits)
  have "reach timely 3 0 s"
    using net_run_reach [OF reach.init] s(1) unfolding elected_def by blast
  from election_safety [OF this, of 1] s show ?thesis by auto
qed

text \<open>Votes that arrive late: replica 1 asks for votes in term 1 and, before the vote of replica 0
  arrives, in term 2. The late vote makes it the leader of term 2, while replica 0 votes for replica
  2 in term 2, which becomes the leader of term 2 as well.\<close>

definition late_vote :: "net option" where
  "late_vote = net_run (\<lambda>_ _. True) 3
     [(1, Ev_ElectionTimer), (0, ask 1 1), (1, Ev_ElectionTimer), (1, granted 0 1),
      (2, Ev_ElectionTimer), (2, Ev_ElectionTimer), (0, ask 2 2), (2, granted 0 2)] (init_net 3 0)"

lemma late_vote_leaders:
  "case late_vote of None \<Rightarrow> False
   | Some s \<Rightarrow> role (nodes s 1) = LEADER \<and> currentTerm (nodes s 1) = 2 \<and>
       role (nodes s 2) = LEADER \<and> currentTerm (nodes s 2) = 2"
  by code_simp

text \<open>C38. A vote that arrives after the candidacy it was given for is counted in the present one:
  there is an execution of three replicas that ends with two leaders in the same term.\<close>

theorem late_vote_two_leaders:
  "\<exists>s. reach (\<lambda>_ _. True) 3 0 s \<and> role (nodes s 1) = LEADER \<and> role (nodes s 2) = LEADER \<and>
     currentTerm (nodes s 1) = currentTerm (nodes s 2)"
proof -
  obtain s where "late_vote = Some s" "role (nodes s 1) = LEADER" "currentTerm (nodes s 1) = 2"
      "role (nodes s 2) = LEADER" "currentTerm (nodes s 2) = 2"
    using late_vote_leaders by (auto split: option.splits)
  moreover have "reach (\<lambda>_ _. True) 3 0 s"
    using net_run_reach [OF reach.init] calculation(1) unfolding late_vote_def by blast
  ultimately show ?thesis by auto
qed

end
