(* ===== verification/Raft_Stable.thy ===== *)
theory Raft_Stable
  imports Raft_Net "HOL-Library.Sublist"
begin

section \<open>Replication under a stable leader\<close>

text \<open>
  The cluster of \<open>Raft_Net\<close> while no election timer fires: the replica the master chose leads in term 0,
  and clients, the batching clock, heartbeats, replication, its acknowledgements and execution
  interleave in any order, with any messages lost.

  \<^item> \<open>stable_inv\<close> relates every replica and every message in flight to the leader's log: logs are
    prefixes of it, messages carry segments of it, the leader's \<open>matchIndex\<close> entries are lengths the
    followers have reached, and a store is the result of executing a prefix. It is preserved by every
    event (\<open>stable_step_leader\<close>, \<open>stable_step_follower\<close>).
  \<^item> The two properties follow: logs agree and what is committed is on a majority, and the cluster
    refines one state machine.
\<close>

text \<open>Events of a cluster in which no election timer fires and every log has room.\<close>

definition quiet :: "raft_event \<Rightarrow> raft \<Rightarrow> bool" where
  "quiet ev r \<longleftrightarrow> ev \<noteq> Ev_ElectionTimer \<and> event_ok r ev"

subsection \<open>The invariant\<close>

text \<open>The messages in flight: \<open>lg\<close> and \<open>ci\<close> are the leader's log and commit index, \<open>len f\<close> is the length
  of the log of replica \<open>f\<close>.\<close>

fun good_msg :: "nat \<Rightarrow> int \<Rightarrow> LogEntry list \<Rightarrow> int \<Rightarrow> (int \<Rightarrow> int) \<Rightarrow> int \<times> raft_msg \<Rightarrow> bool" where
  "good_msg N L lg ci len (d, M_AppendEntries m) =
     (d \<noteq> L \<and> 0 \<le> d \<and> d < int N \<and> ae_LeaderId m = L \<and> ae_Term m = 0 \<and> -1 \<le> ae_PrevLogIndex m \<and>
      ae_PrevLogTerm m = 0 \<and> nat (ae_PrevLogIndex m + 1) + length (ae_Entries m) \<le> length lg \<and>
      new_entries 0 (ae_EntryIds m) 0 (ae_Entries m) =
        take (length (ae_Entries m)) (drop (nat (ae_PrevLogIndex m + 1)) lg) \<and>
      ae_LeaderCommit m \<le> ci)"
| "good_msg N L lg ci len (d, M_AppendEntriesReply m) =
     (d = L \<and> aer_FollowerId m \<noteq> L \<and> 0 \<le> aer_FollowerId m \<and> aer_FollowerId m < int N \<and> aer_Term m = 0 \<and>
      -1 \<le> aer_MatchIndex m \<and> aer_MatchIndex m < len (aer_FollowerId m))"
| "good_msg N L lg ci len _ = False"

definition stable_node :: "nat \<Rightarrow> int \<Rightarrow> raft \<Rightarrow> int \<Rightarrow> raft \<Rightarrow> bool" where
  "stable_node N L lead i r \<longleftrightarrow>
     raft_ok r \<and> rid r = i \<and> nrep r = N \<and> votesNeeded r = int N div 2 + 1 \<and> currentTerm r = 0 \<and>
     role r = (if i = L then LEADER else FOLLOWER) \<and>
     prefix (log r) (log lead) \<and> commitIndex r \<le> commitIndex lead \<and> commitIndex r < int (length (log r)) \<and>
     lastApplied r \<le> commitIndex r \<and>
     (\<exists>vs. exec_cmds (map le_Command (take (nat (lastApplied r + 1)) (log r))) InitState = Some (vs, KV r))"

definition stable_leader :: "nat \<Rightarrow> (int \<Rightarrow> int) \<Rightarrow> raft \<Rightarrow> bool" where
  "stable_leader N len r \<longleftrightarrow>
     (\<forall>e \<in> set (log r). le_Term e = 0) \<and>
     (\<forall>f < N. 0 \<le> nextIndex r ! f \<and> nextIndex r ! f \<le> int (length (log r)) \<and>
        -1 \<le> matchIndex r ! f \<and> matchIndex r ! f < len (int f)) \<and>
     (commitIndex r = -1 \<or> is_majority (int N) {v. 0 \<le> v \<and> v < int N \<and> commitIndex r < len v})"

definition stable_inv :: "nat \<Rightarrow> int \<Rightarrow> net \<Rightarrow> bool" where
  "stable_inv N L s \<longleftrightarrow>
     (let lead = nodes s L; len = (\<lambda>f. int (length (log (nodes s f)))) in
      (\<forall>i. 0 \<le> i \<and> i < int N \<longrightarrow> stable_node N L lead i (nodes s i)) \<and>
      stable_leader N len lead \<and>
      (\<forall>x \<in> set (wire s). good_msg N L (log lead) (commitIndex lead) len x))"

lemma good_msg_mono:
  assumes "good_msg N L lg ci len x" and "prefix lg lg'" and "ci \<le> ci'" and "\<And>f. len f \<le> len' f"
  shows "good_msg N L lg' ci' len' x"
proof -
  obtain zs where lg': "lg' = lg @ zs" using assms(2) by (auto simp: prefix_def)
  have t: "take n (drop k lg') = take n (drop k lg)" if "k + n \<le> length lg" for k n
    using that by (simp add: lg')
  obtain d m where x: "x = (d, m)" by (cases x)
  show ?thesis
  proof (cases m)
    case (M_AppendEntries a)
    then show ?thesis using assms(1,3) t lg' by (auto simp: x)
  next
    case (M_AppendEntriesReply a)
    then show ?thesis using assms(1) assms(4) [of "aer_FollowerId a"] by (auto simp: x)
  qed (use assms(1) in \<open>auto simp: x\<close>)
qed

lemma stable_leader_mono:
  assumes "stable_leader N len r" and "\<And>f. len f \<le> len' f"
  shows "stable_leader N len' r"
proof -
  have "is_majority (int N) {v. 0 \<le> v \<and> v < int N \<and> commitIndex r < len' v}"
    if "is_majority (int N) {v. 0 \<le> v \<and> v < int N \<and> commitIndex r < len v}"
    using that by (rule is_majority_mono) (use assms(2) in \<open>auto intro: less_le_trans\<close>)
  then show ?thesis using assms unfolding stable_leader_def by (meson less_le_trans)
qed

text \<open>A step of a follower, and a step of the leader.\<close>

lemma stable_inv_follower:
  assumes inv: "stable_inv N L s" and L: "0 \<le> L" "L < int N" and i: "i \<noteq> L" "0 \<le> i" "i < int N"
    and node: "stable_node N L (nodes s L) i r'" and grow: "prefix (log (nodes s i)) (log r')"
    and w: "set w \<subseteq> set (wire s)"
    and new: "\<And>x. x \<in> set new \<Longrightarrow>
      good_msg N L (log (nodes s L)) (commitIndex (nodes s L))
        (\<lambda>f. int (length (log (((nodes s)(i := r')) f)))) x"
  shows "stable_inv N L (s\<lparr>nodes := (nodes s)(i := r'), wire := w @ new\<rparr>)"
proof -
  let ?len = "\<lambda>f. int (length (log (nodes s f)))"
  let ?len' = "\<lambda>f. int (length (log (((nodes s)(i := r')) f)))"
  have len: "?len f \<le> ?len' f" for f using prefix_length_le [OF grow] by simp
  have "stable_leader N ?len (nodes s L)" using inv by (simp add: stable_inv_def Let_def)
  then have "stable_leader N ?len' (nodes s L)" using len by (rule stable_leader_mono)
  moreover have "good_msg N L (log (nodes s L)) (commitIndex (nodes s L)) ?len' x" if "x \<in> set (w @ new)" for x
  proof (cases "x \<in> set new")
    case False
    with that w have "x \<in> set (wire s)" by auto
    with inv have "good_msg N L (log (nodes s L)) (commitIndex (nodes s L)) ?len x"
      by (simp add: stable_inv_def Let_def)
    then show ?thesis by (rule good_msg_mono) (use len in auto)
  qed (rule new)
  ultimately show ?thesis
    using inv node i L by (auto simp: stable_inv_def Let_def)
qed

lemma stable_inv_leader:
  assumes inv: "stable_inv N L s" and L: "0 \<le> L" "L < int N"
    and node: "stable_node N L r' L r'" and grow: "prefix (log (nodes s L)) (log r')"
    and ci: "commitIndex (nodes s L) \<le> commitIndex r'"
    and lead: "stable_leader N (\<lambda>f. int (length (log (((nodes s)(L := r')) f)))) r'"
    and w: "set w \<subseteq> set (wire s)"
    and new: "\<And>x. x \<in> set new \<Longrightarrow>
      good_msg N L (log r') (commitIndex r') (\<lambda>f. int (length (log (((nodes s)(L := r')) f)))) x"
  shows "stable_inv N L (s\<lparr>nodes := (nodes s)(L := r'), wire := w @ new\<rparr>)"
proof -
  let ?len = "\<lambda>f. int (length (log (nodes s f)))"
  let ?len' = "\<lambda>f. int (length (log (((nodes s)(L := r')) f)))"
  have len: "?len f \<le> ?len' f" for f using prefix_length_le [OF grow] by simp
  have "good_msg N L (log r') (commitIndex r') ?len' x" if "x \<in> set (w @ new)" for x
  proof (cases "x \<in> set new")
    case False
    with that w have "x \<in> set (wire s)" by auto
    with inv have "good_msg N L (log (nodes s L)) (commitIndex (nodes s L)) ?len x"
      by (simp add: stable_inv_def Let_def)
    then show ?thesis by (rule good_msg_mono) (use len grow ci in auto)
  qed (rule new)
  moreover have "stable_node N L r' i (nodes s i)" if "0 \<le> i" "i < int N" "i \<noteq> L" for i
  proof -
    have "stable_node N L (nodes s L) i (nodes s i)" using inv that by (simp add: stable_inv_def Let_def)
    then show ?thesis
      using grow ci unfolding stable_node_def by (auto intro: prefix_order.trans)
  qed
  ultimately show ?thesis
    using inv node lead L by (auto simp: stable_inv_def Let_def)
qed

subsection \<open>What the leader sends\<close>

lemma new_entries_log:
  "\<forall>e \<in> set es. le_Term e = t \<Longrightarrow> i + length es \<le> length ids \<Longrightarrow>
     (\<And>k. k < length es \<Longrightarrow> ids ! (i + k) = le_CmdId (es ! k)) \<Longrightarrow>
     new_entries t ids i (map le_Command es) = es"
proof (induction es arbitrary: i)
  case (Cons e es)
  have "new_entries t ids (Suc i) (map le_Command es) = es"
    using Cons.prems(1,2) Cons.prems(3) [of "Suc _"] by (intro Cons.IH) auto
  with Cons.prems(1,2) Cons.prems(3) [of 0] show ?case by simp
qed simp

lemma build_good:
  assumes "stable_node N L r L r" and "stable_leader N len r" and "j \<noteq> L" and "0 \<le> j" and "j < int N"
  shows "\<exists>m. buildAppendEntries r j = Some m \<and>
    good_msg N L (log r) (commitIndex r) len' (j, M_AppendEntries m)"
proof -
  let ?x = "nextIndex r ! nat j"
  have ok: "raft_ok r" "rid r = L" "nrep r = N" "currentTerm r = 0" using assms(1) by (simp_all add: stable_node_def)
  have x: "0 \<le> ?x" "?x \<le> int (length (log r))" using assms(2,4,5) by (auto simp: stable_leader_def nat_less_iff)
  have g: "slice_get (nextIndex r) j = Some ?x" using ok assms(4,5) by (simp add: slice_get_def raft_ok_def)
  have n: "length (log r) < 2147483648" using ok(1) by (simp add: raft_ok_def)
  have i: "i32 (int (length (log r))) = int (length (log r))" "i32 (?x - 1) = ?x - 1"
    using x n by (simp_all add: is_i32_def)
  have t: "le_Term e = 0" if "e \<in> set (log r)" for e using assms(2) that by (simp add: stable_leader_def)
  have ids: "new_entries 0 (map le_CmdId es) 0 (map le_Command es) = es" if "\<forall>e \<in> set es. le_Term e = 0" for es
    using that by (intro new_entries_log) simp_all
  have es: "(if ?x < int (length (log r)) then drop (nat ?x) (log r) else []) = drop (nat ?x) (log r)"
    using x by auto
  have d: "new_entries 0 (map le_CmdId (drop (nat ?x) (log r))) 0 (map le_Command (drop (nat ?x) (log r))) =
      drop (nat ?x) (log r)"
    using t by (intro ids) (auto dest: in_set_dropD)
  have pt: "(if 0 \<le> ?x - 1 \<and> ?x - 1 < int (length (log r)) then le_Term (log r ! nat (?x - 1)) else 0) = 0"
    using t by (simp add: nat_less_iff)
  have nx: "(if ?x < 0 then 0 else ?x) = ?x" using x by simp
  have "buildAppendEntries r j = Some \<lparr>ae_LeaderId = L, ae_Term = 0, ae_PrevLogIndex = ?x - 1,
      ae_PrevLogTerm = 0, ae_LeaderCommit = commitIndex r,
      ae_EntryCnt = i32 (int (length (drop (nat ?x) (log r)))),
      ae_Entries = map le_Command (drop (nat ?x) (log r)),
      ae_EntryIds = map le_CmdId (drop (nat ?x) (log r))\<rparr>"
    by (simp only: buildAppendEntries_def g Option.bind.simps Let_def nx i pt es ok)
  with x d assms(3-5) show ?thesis by (simp add: drop_map)
qed

lemma broadcast_good:
  assumes "stable_node N L r L r" and "stable_leader N len r" and "broadcastAppendEntries r = Some outs"
    and "x \<in> set (sends outs)"
  shows "good_msg N L (log r) (commitIndex r) len' x"
proof -
  have ok: "raft_ok r" "rid r = L" "nrep r = N" using assms(1) by (simp_all add: stable_node_def)
  have s: "sends (map (\<lambda>i. SendTo (int i) (f i)) xs) = map (\<lambda>i. (int i, f i)) xs" for f xs
    by (induction xs) simp_all
  have outs: "sends outs = map (\<lambda>i. (int i, M_AppendEntries (the (buildAppendEntries r (int i)))))
      (filter (\<lambda>i. int i \<noteq> L \<and> PeerWriters r ! i) [0..<N])"
  proof -
    have "outs = map (\<lambda>i. SendTo (int i) (M_AppendEntries (the (buildAppendEntries r (int i)))))
        (filter (\<lambda>i. int i \<noteq> rid r \<and> PeerWriters r ! i) [0..<nrep r])"
      using assms(3) ok(1) by (simp add: broadcast_eq raft_ok_def)
    then show ?thesis by (simp only: s ok)
  qed
  with assms(4) obtain k where k: "k < N" "int k \<noteq> L"
      "x = (int k, M_AppendEntries (the (buildAppendEntries r (int k))))"
    by auto
  from build_good [OF assms(1,2) k(2), of len'] k show ?thesis by auto
qed

subsection \<open>What the replicas do\<close>

definition same_core :: "raft \<Rightarrow> raft \<Rightarrow> bool" where
  "same_core r r' \<longleftrightarrow> raft_ok r' \<and> rid r' = rid r \<and> nrep r' = nrep r \<and> votesNeeded r' = votesNeeded r \<and>
     currentTerm r' = currentTerm r \<and> role r' = role r \<and> log r' = log r \<and> commitIndex r' = commitIndex r \<and>
     lastApplied r' = lastApplied r \<and> KV r' = KV r \<and> nextIndex r' = nextIndex r \<and> matchIndex r' = matchIndex r"

lemma stable_node_core: "stable_node N L lead i r \<Longrightarrow> same_core r r' \<Longrightarrow> stable_node N L lead i r'"
  by (simp add: stable_node_def same_core_def)

lemma stable_node_self_core: "stable_node N L r i r \<Longrightarrow> same_core r r' \<Longrightarrow> stable_node N L r' i r'"
  by (simp add: stable_node_def same_core_def)

lemma stable_leader_core: "stable_leader N len r \<Longrightarrow> same_core r r' \<Longrightarrow> stable_leader N len r'"
  by (simp add: stable_leader_def same_core_def)

lemma stable_invD:
  assumes "stable_inv N L s"
  shows "0 \<le> i \<Longrightarrow> i < int N \<Longrightarrow> stable_node N L (nodes s L) i (nodes s i)"
    and "stable_leader N (\<lambda>f. int (length (log (nodes s f)))) (nodes s L)"
    and "x \<in> set (wire s) \<Longrightarrow> good_msg N L (log (nodes s L)) (commitIndex (nodes s L))
      (\<lambda>f. int (length (log (nodes s f)))) x"
  using assms by (simp_all add: stable_inv_def Let_def)

lemma merge_prefix:
  assumes "prefix lg big" and "\<forall>e \<in> set big. le_Term e = 0" and "k \<le> length lg"
    and "k + length es \<le> length big" and "es = take (length es) (drop k big)"
  shows "merge_entries lg k es = take (max (length lg) (k + length es)) big"
  using assms
proof (induction lg k es rule: merge_entries.induct)
  case (1 lg k)
  then show ?case by (auto simp: prefix_def)
next
  case (2 lg k e es)
  have k: "k < length big" using 2(5) by simp
  have d: "drop k big = big ! k # drop (Suc k) big" using k by (simp add: Cons_nth_drop_Suc)
  then have e: "e = big ! k" "es = take (length es) (drop (Suc k) big)" using 2(6) by simp_all
  show ?case
  proof (cases "k < length lg")
    case True
    then have "lg ! k = big ! k" using 2(2) by (auto simp: prefix_def nth_append)
    with True e(1) 2(1) [OF _ 2(2,3)] 2(3,5) e(2) k show ?thesis by simp
  next
    case False
    with 2(4) have len: "k = length lg" by simp
    then have "lg = take k big" using 2(2) by (auto simp: prefix_def)
    from arg_cong2 [OF this 2(6), of "(@)"]
    have "lg @ e # es = take k big @ take (length (e # es)) (drop k big)" .
    also have "\<dots> = take (k + length (e # es)) big" by (simp only: take_add)
    finally show ?thesis using False len by (simp add: max_def)
  qed
qed

lemma exec_prefix:
  "prefix lg lg' \<Longrightarrow> n \<le> length lg \<Longrightarrow> take n lg' = take n lg"
  by (auto simp: prefix_def)

lemma stable_node_extend:
  assumes "stable_node N L lead i r" and "raft_ok r'"
    and "rid r' = rid r" "nrep r' = nrep r" "votesNeeded r' = votesNeeded r"
      "currentTerm r' = currentTerm r" "role r' = role r" "lastApplied r' = lastApplied r" "KV r' = KV r"
    and "prefix (log r) (log r')" "prefix (log r') (log lead)"
      "commitIndex r \<le> commitIndex r'" "commitIndex r' \<le> commitIndex lead" "commitIndex r' < int (length (log r'))"
  shows "stable_node N L lead i r'"
proof -
  have "take (nat (lastApplied r + 1)) (log r') = take (nat (lastApplied r + 1)) (log r)"
    using assms(1,10) by (intro exec_prefix) (auto simp: stable_node_def)
  with assms show ?thesis unfolding stable_node_def by simp
qed

lemma follower_append:
  assumes inv: "stable_inv N L s" and i: "i \<noteq> L" "0 \<le> i" "i < int N" and L: "0 \<le> L" "L < int N"
    and m: "(i, M_AppendEntries m) \<in> set (wire s)" and ok: "event_ok (nodes s i) (Ev_AppendEntries m)"
    and run: "run_step (Ev_AppendEntries m) (nodes s i) = Some (r', outs)"
  shows "stable_node N L (nodes s L) i r' \<and> prefix (log (nodes s i)) (log r') \<and>
    (\<exists>b k. sends outs = [(L, M_AppendEntriesReply \<lparr>aer_FollowerId = i, aer_Term = 0, aer_Success = b,
       aer_MatchIndex = k\<rparr>)] \<and> -1 \<le> k \<and> k < int (length (log r')))"
proof -
  let ?r = "nodes s i" and ?lead = "nodes s L"
  note n = stable_invD(1) [OF inv i(2,3)] and g = stable_invD(3) [OF inv m] and sl = stable_invD(2) [OF inv]
  have rok: "raft_ok ?r" using n by (simp add: stable_node_def)
  have p: "- 1 \<le> ae_PrevLogIndex m" "length (log ?r) + length (ae_Entries m) < 2147483647" using ok by simp_all
  have pre: "prefix (log ?r) (log ?lead)" using n by (simp add: stable_node_def)
  have f: "follow m ?r = ?r\<lparr>knownLeader := L\<rparr>"
    using n g i(1) by (auto simp: follow_def stable_node_def)
  have terms: "\<forall>e \<in> set (log ?lead). le_Term e = 0" using sl by (simp add: stable_leader_def)
  let ?prev = "ae_PrevLogIndex m" and ?len = "int (length (log ?r))"
  obtain r1 where r1: "handleAppendEntries m ?r = Some (r1, outs)"
      "r' = r1 \<or> r' = r1\<lparr>electionTimer := Running\<rparr>"
    using run by (auto simp: Option.bind_eq_Some_conv resetElectionTimer_def split: if_splits)
  then have keep: "rid r' = rid r1" "nrep r' = nrep r1" "votesNeeded r' = votesNeeded r1"
      "currentTerm r' = currentTerm r1" "role r' = role r1" "log r' = log r1" "commitIndex r' = commitIndex r1"
      "lastApplied r' = lastApplied r1" "KV r' = KV r1" "nextIndex r' = nextIndex r1" "matchIndex r' = matchIndex r1"
    by auto
  have rok': "raft_ok r'" using run_step_ok [OF rok ok] run by simp
  have t0: "\<not> ae_Term m < currentTerm ?r" using n g by (simp add: stable_node_def)
  have nomis: "\<not> (0 \<le> ?prev \<and> le_Term (log ?r ! nat ?prev) \<noteq> ae_PrevLogTerm m)" if "?prev < ?len"
  proof
    assume a: "0 \<le> ?prev \<and> le_Term (log ?r ! nat ?prev) \<noteq> ae_PrevLogTerm m"
    with that have "log ?r ! nat ?prev \<in> set (log ?r)" by (intro nth_mem) auto
    then have "log ?r ! nat ?prev \<in> set (log ?lead)" using pre by (auto simp: prefix_def)
    with terms a g show False by simp
  qed
  show ?thesis
  proof (cases "?len \<le> ?prev")
    case True
    then have "(?r\<lparr>knownLeader := L\<rparr>, [ae_reply (?r\<lparr>knownLeader := L\<rparr>) (ae_LeaderId m) 0 (?len - 1)]) = (r1, outs)"
      using r1(1) t0 unfolding handleAppendEntries_cases [OF rok p] Let_def f by auto
    then have e: "r1 = ?r\<lparr>knownLeader := L\<rparr>" "outs = [ae_reply ?r (ae_LeaderId m) 0 (?len - 1)]"
      by (auto simp: ae_reply_def)
    then have "same_core ?r r'" using keep rok' by (simp add: same_core_def)
    from stable_node_core [OF n this] have "stable_node N L ?lead i r'" .
    moreover have "log r' = log ?r" using keep e(1) by simp
    moreover have "sends outs = [(L, M_AppendEntriesReply \<lparr>aer_FollowerId = i, aer_Term = 0, aer_Success = 0,
       aer_MatchIndex = ?len - 1\<rparr>)]"
      using e(2) n g by (simp add: ae_reply_def stable_node_def)
    ultimately show ?thesis by (intro conjI exI [of _ 0] exI [of _ "?len - 1"]) simp_all
  next
    case False
    let ?k = "nat (?prev + 1)" and ?es = "new_entries 0 (ae_EntryIds m) 0 (ae_Entries m)"
    let ?lg = "take (max (length (log ?r)) (?k + length (ae_Entries m))) (log ?lead)"
    have k: "?k \<le> length (log ?r)" using False by simp
    have merge: "merge_entries (log ?r) ?k ?es = ?lg"
      using merge_prefix [OF pre terms k, of ?es] g by simp
    let ?ci = "if commitIndex ?r < ae_LeaderCommit m then min (ae_LeaderCommit m) (int (length ?lg) - 1)
      else commitIndex ?r"
    have c: "(0 < currentTerm ?r) = False" "(?len \<le> ?prev) = False"
        "(0 \<le> ?prev \<and> le_Term (log ?r ! nat ?prev) \<noteq> ae_PrevLogTerm m) = False" "ae_Term m = 0"
      using t0 False nomis g by auto
    have "handleAppendEntries m ?r = Some (?r\<lparr>knownLeader := L, log := ?lg, commitIndex := ?ci,
        commitNotify := (commitNotify ?r \<or> commitIndex ?r < ?ci)\<rparr>,
       [ae_reply (?r\<lparr>knownLeader := L\<rparr>) (ae_LeaderId m) 1 (int (length ?lg) - 1)])"
      by (simp only: handleAppendEntries_cases [OF rok p] Let_def f c if_False merge)
    with r1(1) have "(?r\<lparr>knownLeader := L, log := ?lg, commitIndex := ?ci,
        commitNotify := (commitNotify ?r \<or> commitIndex ?r < ?ci)\<rparr>,
       [ae_reply (?r\<lparr>knownLeader := L\<rparr>) (ae_LeaderId m) 1 (int (length ?lg) - 1)]) = (r1, outs)"
      by (simp only: option.inject)
    then have e: "r1 = ?r\<lparr>knownLeader := L, log := ?lg, commitIndex := ?ci,
        commitNotify := (commitNotify ?r \<or> commitIndex ?r < ?ci)\<rparr>"
      "outs = [ae_reply ?r (ae_LeaderId m) 1 (int (length ?lg) - 1)]"
      by (auto simp: ae_reply_def)
    obtain zs where zs: "log ?lead = log ?r @ zs" using pre by (auto simp: prefix_def)
    then have "?lg = log ?r @ take (max (length (log ?r)) (?k + length (ae_Entries m)) - length (log ?r)) zs"
      by simp
    then have grow: "prefix (log ?r) ?lg" "length (log ?r) \<le> length ?lg" by (simp_all only: prefixI length_append le_add1)
    have grow': "prefix ?lg (log ?lead)" by (rule take_is_prefix)
    have ci: "commitIndex ?r \<le> ?ci" "?ci \<le> commitIndex ?lead" "?ci < int (length ?lg)"
      using n g grow(2) by (auto simp: stable_node_def)
    have log': "log r' = ?lg" and ci': "commitIndex r' = ?ci" unfolding keep(6,7) e(1) by simp_all
    have same: "rid r' = rid ?r" "nrep r' = nrep ?r" "votesNeeded r' = votesNeeded ?r"
        "currentTerm r' = currentTerm ?r" "role r' = role ?r" "lastApplied r' = lastApplied ?r" "KV r' = KV ?r"
      unfolding keep e(1) by simp_all
    have "stable_node N L ?lead i r'"
      by (rule stable_node_extend [OF n rok' same])
        (simp_all only: log' ci' grow(1) grow' ci)
    moreover have "sends outs = [(L, M_AppendEntriesReply \<lparr>aer_FollowerId = i, aer_Term = 0, aer_Success = 1,
       aer_MatchIndex = int (length ?lg) - 1\<rparr>)]" 
      unfolding e(2) using n g by (simp add: ae_reply_def stable_node_def)
    moreover have "- 1 \<le> int (length ?lg) - 1" "int (length ?lg) - 1 < int (length (log r'))"
      unfolding log' by simp_all
    moreover have "prefix (log ?r) (log r')" unfolding log' by (rule grow(1))
    ultimately show ?thesis by blast
  qed
qed

lemma stable_node_lead_cong:
  "log lead' = log lead \<Longrightarrow> commitIndex lead' = commitIndex lead \<Longrightarrow>
     stable_node N L lead i r \<Longrightarrow> stable_node N L lead' i r"
  by (simp add: stable_node_def)

lemma stable_leader_cong:
  "log r' = log r \<Longrightarrow> commitIndex r' = commitIndex r \<Longrightarrow> nextIndex r' = nextIndex r \<Longrightarrow>
     matchIndex r' = matchIndex r \<Longrightarrow> stable_leader N len r \<Longrightarrow> stable_leader N len r'"
  by (simp add: stable_leader_def)

text \<open>A step that leaves the log, the commit index and the leader's tables alone.\<close>

lemma stable_inv_same:
  assumes inv: "stable_inv N L s" and L: "0 \<le> L" "L < int N" and i: "0 \<le> i" "i < int N"
    and node: "stable_node N L (nodes s L) i r'"
    and same: "log r' = log (nodes s i)" "commitIndex r' = commitIndex (nodes s i)"
      "nextIndex r' = nextIndex (nodes s i)" "matchIndex r' = matchIndex (nodes s i)"
    and w: "set w \<subseteq> set (wire s)"
    and new: "\<And>x. x \<in> set new \<Longrightarrow>
      good_msg N L (log (nodes s L)) (commitIndex (nodes s L)) (\<lambda>f. int (length (log (nodes s f)))) x"
  shows "stable_inv N L (s\<lparr>nodes := (nodes s)(i := r'), wire := w @ new\<rparr>)"
proof -
  have len: "(\<lambda>f. int (length (log (((nodes s)(i := r')) f)))) = (\<lambda>f. int (length (log (nodes s f))))"
    using same(1) by auto
  show ?thesis
  proof (cases "i = L")
    case True
    have "stable_node N L r' L r'" "stable_leader N (\<lambda>f. int (length (log (nodes s f)))) r'"
      using stable_node_lead_cong [of r' "nodes s L"] stable_leader_cong [of r' "nodes s L"] node same True
        stable_invD(2) [OF inv] by auto
    with True show ?thesis
      using stable_inv_leader [OF inv L, of r' w new] w new same(1,2) len by (simp add: True)
  next
    case False
    show ?thesis
      using stable_inv_follower [OF inv L False i node _ w, of new] new same len by simp
  qed
qed

text \<open>The leader grows its log or its commit index.\<close>

lemma stable_node_self:
  assumes "stable_node N L r L r" and "raft_ok r'"
    and "rid r' = rid r" "nrep r' = nrep r" "votesNeeded r' = votesNeeded r"
      "currentTerm r' = currentTerm r" "role r' = role r" "lastApplied r' = lastApplied r" "KV r' = KV r"
    and "prefix (log r) (log r')" "commitIndex r \<le> commitIndex r'" "commitIndex r' < int (length (log r'))"
  shows "stable_node N L r' L r'"
proof -
  have "stable_node N L r' L r"
    using assms(1,10,11) by (auto simp: stable_node_def)
  then show ?thesis by (rule stable_node_extend) (use assms in auto)
qed

lemma propose_leader:
  assumes n: "stable_node N L r L r" and l: "stable_leader N len r" and ok: "event_ok r Ev_Propose"
    and len: "len L = int (length (log r))" and L: "0 \<le> L" "L < int N"
    and run: "run_step Ev_Propose r = Some (r', outs)"
  shows "stable_node N L r' L r' \<and> stable_leader N (len(L := int (length (log r')))) r' \<and>
    prefix (log r) (log r') \<and> commitIndex r' = commitIndex r \<and>
    (\<forall>x \<in> set (sends outs). good_msg N L (log r') (commitIndex r') len' x)"
proof (cases "onOff r \<and> ProposeChan r \<noteq> []")
  case False
  then have "r' = r" "outs = []" using run by (auto split: if_splits list.splits)
  moreover have "len(L := int (length (log r))) = len" using len by (rule fun_upd_idem)
  ultimately show ?thesis using n l by simp
next
  case True
  then obtain p ps where q: "ProposeChan r = p # ps" by (cases "ProposeChan r") auto
  let ?r = "r\<lparr>ProposeChan := ps\<rparr>"
  let ?b = "batch_of p ?r"
  have rok: "raft_ok ?r" "role ?r = LEADER" "length (log ?r) + maxBatchSize < 2147483647"
    using n ok by (simp_all add: stable_node_def raft_ok_def)
  from handlePropose_leader [OF rok(1,3,2), of p] obtain r1 pend where r1:
      "r1 = ?r\<lparr>ProposeChan := drop (length ?b - 1) ps,
        log := log r @ map (proposal_entry (currentTerm r)) ?b, pendingProposals := pend,
        matchIndex := (matchIndex r)[nat (rid r) := int (length (log r) + length ?b) - 1]\<rparr>"
      "handlePropose p ?r = Some (r1, the (broadcastAppendEntries r1))" "raft_ok r1" by auto
  obtain o1 where o1: "broadcastAppendEntries r1 = Some o1"
    using r1(3) by (simp add: broadcast_eq raft_ok_def)
  have r': "r' = r1\<lparr>onOff := \<not> 0 < batchWait r1\<rparr>" "outs = o1"
    using run True q r1(2) o1 by auto
  have ids: "rid r = L" "nrep r = N" "currentTerm r = 0" "length (nextIndex r) = N" "length (matchIndex r) = N"
    using n by (auto simp: stable_node_def raft_ok_def)
  have bpos: "0 < length ?b" by (simp add: batch_of_def)
  have log1: "log r1 = log r @ map (proposal_entry 0) ?b" using r1(1) ids by simp
  have n1: "stable_node N L r1 L r1"
    by (rule stable_node_self [OF n r1(3)])
      (use n r1(1) in \<open>auto simp: stable_node_def\<close>)
  let ?len1 = "len(L := int (length (log r1)))"
  have l1: "stable_leader N ?len1 r" by (rule stable_leader_mono [OF l]) (simp add: log1 len)
  have "0 \<le> nextIndex r1 ! f \<and> nextIndex r1 ! f \<le> int (length (log r1)) \<and>
      - 1 \<le> matchIndex r1 ! f \<and> matchIndex r1 ! f < ?len1 (int f)" if "f < N" for f
  proof -
    have old: "0 \<le> nextIndex r ! f" "nextIndex r ! f \<le> int (length (log r))"
        "- 1 \<le> matchIndex r ! f" "matchIndex r ! f < ?len1 (int f)"
      using l l1 that by (auto simp: stable_leader_def)
    then have "nextIndex r1 ! f \<le> int (length (log r1))" using r1(1) by simp
    with old show ?thesis using r1(1) ids L that by (auto simp: nth_list_update)
  qed
  moreover have "\<forall>e \<in> set (log r1). le_Term e = 0"
    using l log1 by (auto simp: stable_leader_def proposal_entry_def)
  ultimately have "stable_leader N ?len1 r1"
    using l1 r1(1) unfolding stable_leader_def by simp
  moreover have "good_msg N L (log r1) (commitIndex r1) len' x" if "x \<in> set (sends outs)" for x
    using broadcast_good [OF n1 \<open>stable_leader N (len(L := int (length (log r1)))) r1\<close> o1, of x] that r'(2) by simp
  moreover have "stable_node N L r' L r'" using n1 by (simp add: r'(1) stable_node_def raft_ok_def)
  moreover have "log r' = log r1" "commitIndex r' = commitIndex r" "commitIndex r1 = commitIndex r"
    using r1(1) r'(1) by simp_all
  moreover have "stable_leader N m r' = stable_leader N m r1" for m by (simp add: stable_leader_def r'(1))
  ultimately show ?thesis using log1 by simp
qed

text \<open>The replies of a batch.\<close>

lemma stable_leader_tables:
  assumes "stable_leader N len r" and "length (nextIndex r) = N" and "length (matchIndex r) = N"
    and "0 \<le> n" "n \<le> int (length (log r))" and "- 1 \<le> m" "m < len (int f)" and "f < N"
  shows "stable_leader N len (r\<lparr>nextIndex := (nextIndex r)[f := n]\<rparr>)"
    and "stable_leader N len (r\<lparr>matchIndex := (matchIndex r)[f := m], nextIndex := (nextIndex r)[f := n]\<rparr>)"
  using assms unfolding stable_leader_def by (auto simp: nth_list_update)

lemma same_tables: "\<exists>mi ni. r = r\<lparr>matchIndex := mi, nextIndex := ni\<rparr>"
  by (rule exI [of _ "matchIndex r"], rule exI [of _ "nextIndex r"]) simp

lemma sends_append: "sends (a @ b) = sends a @ sends b"
  by (induction a rule: sends.induct) simp_all

lemma apply_reply_leader:
  assumes n: "stable_node N L r L r" and l: "stable_leader N len r"
    and g: "good_msg N L lg ci len (L, M_AppendEntriesReply m)"
    and len: "len (aer_FollowerId m) \<le> int (length (log r))"
    and run: "applyReplyUpdate m r = Some (r', outs)"
  shows "(\<exists>mi ni. r' = r\<lparr>matchIndex := mi, nextIndex := ni\<rparr>) \<and> stable_leader N len r' \<and>
    stable_node N L r' L r' \<and> (\<forall>x \<in> set (sends outs). good_msg N L (log r) (commitIndex r) len' x)"
proof -
  let ?f = "aer_FollowerId m"
  have ok: "raft_ok r" "nrep r = N" "role r = LEADER" "currentTerm r = 0" "length (nextIndex r) = N"
      "length (matchIndex r) = N" "length (log r) < 2147483647"
    using n by (auto simp: stable_node_def raft_ok_def)
  have f: "?f \<noteq> L" "0 \<le> ?f" "?f < int N" "aer_Term m = 0" "- 1 \<le> aer_MatchIndex m"
      "aer_MatchIndex m < len ?f" using g by simp_all
  have i: "i32 (aer_MatchIndex m + 1) = aer_MatchIndex m + 1" using f len ok(7) by (simp add: is_i32_def)
  have b: "0 \<le> aer_MatchIndex m + 1" "aer_MatchIndex m + 1 \<le> int (length (log r))" using f len by auto
  have s: "slice_get (matchIndex r) ?f = Some (matchIndex r ! nat ?f)"
      "slice_set (matchIndex r) ?f x = Some ((matchIndex r)[nat ?f := x])"
      "slice_set (nextIndex r) ?f x = Some ((nextIndex r)[nat ?f := x])" for x
    using f ok by (simp_all add: slice_get_def slice_set_def)
  have node: "stable_node N L r' L r'" if "r' = r\<lparr>matchIndex := mi, nextIndex := ni\<rparr>" "length mi = N" "length ni = N" for mi ni
    using n that by (simp add: stable_node_def raft_ok_def)
  note tab = stable_leader_tables [OF l ok(5,6), where f = "nat ?f"]
  show ?thesis
  proof (cases "aer_Success m = 1")
    case True
    show ?thesis
    proof (cases "matchIndex r ! nat ?f \<le> aer_MatchIndex m")
      case le: True
      then have r': "r' = r\<lparr>matchIndex := (matchIndex r)[nat ?f := aer_MatchIndex m],
          nextIndex := (nextIndex r)[nat ?f := aer_MatchIndex m + 1]\<rparr>" "outs = []"
        using run True ok f by (simp_all add: applyReplyUpdate_def s i)
      have "stable_leader N len r'" unfolding r'(1) by (rule tab(2)) (use f b in simp_all)
      with r' node [OF r'(1)] ok show ?thesis by auto
    next
      case False
      then have "r' = r" "outs = []" using run True ok f by (simp_all add: applyReplyUpdate_def s)
      then show ?thesis using n l same_tables by auto
    qed
  next
    case False
    let ?ni = "(nextIndex r)[nat ?f := (if 0 \<le> aer_MatchIndex m then i32 (aer_MatchIndex m + 1) else 0)]"
    let ?r = "r\<lparr>nextIndex := ?ni\<rparr>"
    obtain ae where ae: "buildAppendEntries ?r ?f = Some ae" "r' = ?r" "outs = [SendTo ?f (M_AppendEntries ae)]"
      using run False ok f by (auto simp: applyReplyUpdate_def s sendAppendEntries_def Let_def Option.bind_eq_Some_conv)
    have l': "stable_leader N len r'"
      unfolding ae(2) by (rule tab(1) [where m = "aer_MatchIndex m"]) (use f b i in auto)
    have r': "r' = r\<lparr>matchIndex := matchIndex r, nextIndex := ?ni\<rparr>" using ae(2) by simp
    have n': "stable_node N L r' L r'" by (rule node [OF r']) (use ok in simp_all)
    from build_good [OF n' l' f(1-3), of len'] ae(1,2) have "good_msg N L (log r) (commitIndex r) len' (?f, M_AppendEntries ae)"
      by auto
    moreover have "\<exists>mi ni. r' = r\<lparr>matchIndex := mi, nextIndex := ni\<rparr>" using r' by blast
    ultimately show ?thesis using l' n' ae(3) by auto
  qed
qed

lemma apply_replies_leader:
  assumes "stable_node N L r L r" and "stable_leader N len r"
    and "\<And>m. m \<in> set ms \<Longrightarrow> good_msg N L lg ci len (L, M_AppendEntriesReply m)"
    and "\<And>f. 0 \<le> f \<Longrightarrow> f < int N \<Longrightarrow> len f \<le> int (length (log r))"
    and "apply_replies ms r = Some (r', outs)"
  shows "(\<exists>mi ni. r' = r\<lparr>matchIndex := mi, nextIndex := ni\<rparr>) \<and> stable_leader N len r' \<and>
    stable_node N L r' L r' \<and> (\<forall>x \<in> set (sends outs). good_msg N L (log r) (commitIndex r) len' x)"
  using assms
proof (induction ms arbitrary: r outs)
  case Nil
  then show ?case using same_tables by auto
next
  case (Cons m ms)
  from Cons.prems(5) obtain r1 o1 o2 where 1: "applyReplyUpdate m r = Some (r1, o1)"
      "apply_replies ms r1 = Some (r', o2)" "outs = o1 @ o2"
    by (auto simp: Option.bind_eq_Some_conv)
  have g: "good_msg N L lg ci len (L, M_AppendEntriesReply m)" using Cons.prems(3) by simp
  then have "len (aer_FollowerId m) \<le> int (length (log r))" using Cons.prems(4) by simp
  from apply_reply_leader [OF Cons.prems(1,2) g this 1(1), of len'] obtain mi ni where
    r1: "r1 = r\<lparr>matchIndex := mi, nextIndex := ni\<rparr>" and s1: "stable_leader N len r1" "stable_node N L r1 L r1"
      "\<forall>x \<in> set (sends o1). good_msg N L (log r) (commitIndex r) len' x" by blast
  from Cons.IH [OF s1(2,1) _ _ 1(2)] Cons.prems(3,4) r1 show ?case
    using s1(3) unfolding 1(3) by (auto simp: sends_append)
qed

lemma replica_count_majority:
  assumes "stable_leader N len r" and "nrep r = N" and "length (matchIndex r) = N" and "0 < N"
    and "int N div 2 + 1 \<le> replica_count r c"
  shows "is_majority (int N) {v. 0 \<le> v \<and> v < int N \<and> c < len v}"
proof -
  let ?A = "{f. f < N \<and> c \<le> matchIndex r ! f}"
  have "replica_count r c = int (card ?A)"
    using assms(2,3) by (simp add: replica_count_def length_filter_conv_card)
  moreover have sub: "int ` ?A \<subseteq> {v. 0 \<le> v \<and> v < int N \<and> c < len v}"
    using assms(1) by (fastforce simp: stable_leader_def)
  moreover have "{v. 0 \<le> v \<and> v < int N \<and> c < len v} \<subseteq> {0..<int N}" by auto
  moreover have "card (int ` ?A) = card ?A" by (rule card_image) simp
  ultimately have "is_majority (int N) (int ` ?A)"
    using assms(4,5) by (auto simp: is_majority_def)
  then show ?thesis by (rule is_majority_mono [OF _ sub]) auto
qed

lemma reply_batch_leader:
  assumes n: "stable_node N L r L r" and l: "stable_leader N len r" and N: "0 < N"
    and g: "\<And>x. x \<in> set (m # ms) \<Longrightarrow> good_msg N L lg ci len (L, M_AppendEntriesReply x)"
    and len: "\<And>f. 0 \<le> f \<Longrightarrow> f < int N \<Longrightarrow> len f \<le> int (length (log r))"
    and run: "run_step (Ev_AppendEntriesReply m ms) r = Some (r', outs)"
  shows "stable_node N L r' L r' \<and> stable_leader N len r' \<and> log r' = log r \<and> commitIndex r \<le> commitIndex r' \<and>
    (\<forall>x \<in> set (sends outs). good_msg N L (log r') (commitIndex r') len' x)"
proof -
  obtain r1 where r1: "apply_replies (m # ms) r = Some (r1, outs)"
      "(if role r1 = LEADER then advanceCommitIndex r1 \<bind> (\<lambda>r. Some (r, outs)) else Some (r1, outs)) = Some (r', outs)"
    using run by (auto simp: handleAppendEntriesReplyBatch_def Option.bind_eq_Some_conv simp del: apply_replies.simps
      split: if_splits)
  from apply_replies_leader [OF n l g len r1(1), of len'] obtain mi ni where
    a: "r1 = r\<lparr>matchIndex := mi, nextIndex := ni\<rparr>" "stable_leader N len r1" "stable_node N L r1 L r1"
      "\<And>x. x \<in> set (sends outs) \<Longrightarrow> good_msg N L (log r) (commitIndex r) len' x" by blast
  then have ok: "raft_ok r1" "role r1 = LEADER" "nrep r1 = N" "length (matchIndex r1) = N"
      "votesNeeded r1 = int N div 2 + 1"
    by (auto simp: stable_node_def raft_ok_def)
  have adv: "advanceCommitIndex r1 = Some r'" using r1(2) ok(2) by (auto simp: Option.bind_eq_Some_conv)
  from advanceCommitIndex_correct [OF ok(1)] obtain c where
    c0: "advanceCommitIndex r1 = Some (r1\<lparr>commitIndex := c, commitNotify := (commitNotify r1 \<or> c \<noteq> commitIndex r1)\<rparr>)"
    and c1: "commitIndex r1 \<le> c" "c = commitIndex r1 \<or> committable r1 c" by blast
  then have c: "r' = r1\<lparr>commitIndex := c, commitNotify := (commitNotify r1 \<or> c \<noteq> commitIndex r1)\<rparr>"
      "commitIndex r1 \<le> c" "c = commitIndex r1 \<or> committable r1 c"
    using adv by simp_all
  have "raft_ok r'" using advanceCommitIndex_ok [OF ok(1)] adv by simp
  then have n': "stable_node N L r' L r'"
    by (rule stable_node_self [OF a(3)]) (use c a(3) in \<open>auto simp: stable_node_def committable_def\<close>)
  have "c = -1 \<or> is_majority (int N) {v. 0 \<le> v \<and> v < int N \<and> c < len v}"
    using c(3) a(2) replica_count_majority [OF a(2) ok(3,4) N, of c] ok(5)
    by (auto simp: committable_def stable_leader_def)
  then have "stable_leader N len r'" using a(2) c(1) by (simp add: stable_leader_def)
  moreover have "log r' = log r" "commitIndex r \<le> commitIndex r'" using c a(1) by auto
  moreover have "good_msg N L (log r') (commitIndex r') len' x" if "x \<in> set (sends outs)" for x
    using good_msg_mono [OF a(4) [OF that], of "log r'" "commitIndex r'" len'] calculation by simp
  ultimately show ?thesis using n' by blast
qed

lemma execute_node:
  assumes n: "stable_node N L lead i r" and ok: "event_ok r Ev_Execute"
    and run: "run_step Ev_Execute r = Some (r', outs)"
  shows "stable_node N L lead i r' \<and> log r' = log r \<and> commitIndex r' = commitIndex r \<and>
    nextIndex r' = nextIndex r \<and> matchIndex r' = matchIndex r \<and> sends outs = []"
proof (cases "commitNotify r")
  case True
  have rok: "raft_ok r" "lastApplied r \<le> commitIndex r" "commitIndex r < int (length (log r))"
    using n by (simp_all add: stable_node_def)
  let ?b = "commitIndex r + 1" and ?a = "nat (lastApplied r + 1)"
  have b: "max (lastApplied r + 1) (min (commitIndex r + 1) (int (length (log r)))) = ?b" using rok by simp
  have ex: "\<forall>e \<in> set (log r). executable (le_Command e)" using ok by simp
  have run': "executeCommands r = Some (r', outs)" using run True by simp
  from executeCommands_eq [OF rok(1) ex] run' obtain vs st pend where
    e: "exec_cmds (map le_Command (drop ?a (take (nat ?b) (log r)))) (KV r) = Some (vs, st)" "raft_ok r'"
      "r' = r\<lparr>lastApplied := ?b - 1, pendingProposals := pend, KV := st, commitNotify := False\<rparr>"
      "outs = concat (map2 (\<lambda>i v. client_reply (pending_at r i) v) [lastApplied r + 1..?b - 1] vs)"
    unfolding Let_def b by auto
  obtain ws where ws: "exec_cmds (map le_Command (take ?a (log r))) InitState = Some (ws, KV r)"
    using n by (auto simp: stable_node_def)
  have "take (nat ?b) (log r) = take ?a (log r) @ drop ?a (take (nat ?b) (log r))"
    using rok(2) append_take_drop_id [of ?a "take (nat ?b) (log r)"] by (simp add: min_def split: if_splits)
  from arg_cong [OF this, of "map le_Command"]
  have "exec_cmds (map le_Command (take (nat ?b) (log r))) InitState =
      exec_cmds (map le_Command (take ?a (log r)) @ map le_Command (drop ?a (take (nat ?b) (log r)))) InitState"
    unfolding map_append by (rule arg_cong)
  also have "\<dots> = Some (ws @ vs, st)" unfolding exec_cmds_append ws using e(1) by simp
  finally have "exec_cmds (map le_Command (take (nat ?b) (log r))) InitState = Some (ws @ vs, st)" .
  then have "stable_node N L lead i r'" using n e(2,3) unfolding stable_node_def by auto
  moreover have "sends (client_reply q v) = []" for q v by (cases q) (simp_all add: client_reply_def)
  then have "sends (concat (map (\<lambda>(i, v). client_reply (pending_at r i) v) xs)) = []" for xs
    by (induction xs) (auto simp: sends_append)
  then have "sends outs = []" unfolding e(4) by simp
  ultimately show ?thesis using e(3) by simp
qed (use n run in auto)

lemma stable_log_le:
  "stable_inv N L s \<Longrightarrow> 0 \<le> f \<Longrightarrow> f < int N \<Longrightarrow> length (log (nodes s f)) \<le> length (log (nodes s L))"
  using stable_invD(1) [of N L s f] by (auto simp: stable_node_def dest: prefix_length_le)

lemma stable_step_leader:
  assumes inv: "stable_inv N L s" and L: "0 \<le> L" "L < int N"
    and w: "set w \<subseteq> set (wire s)" and c: "set (consumes L ev) \<subseteq> set (wire s)"
    and q: "quiet ev (nodes s L)" "ev \<noteq> Ev_BeTheLeader"
    and run: "run_step ev (nodes s L) = Some (r', outs)"
  shows "stable_inv N L (s\<lparr>nodes := (nodes s)(L := r'), wire := w @ sends outs\<rparr>)"
proof -
  let ?r = "nodes s L" and ?len = "\<lambda>f. int (length (log (nodes s f)))"
  have len': "(\<lambda>f. int (length (log (((nodes s)(L := r')) f)))) = ?len(L := int (length (log r')))" by auto
  note n = stable_invD(1) [OF inv L] and l = stable_invD(2) [OF inv] and g = stable_invD(3) [OF inv]
  have ok: "event_ok ?r ev" using q(1) by (simp add: quiet_def)
  have lead: "role ?r = LEADER" "raft_ok ?r" using n by (simp_all add: stable_node_def)
  have same: ?thesis if "stable_node N L ?r L r'" "log r' = log ?r" "commitIndex r' = commitIndex ?r"
      "nextIndex r' = nextIndex ?r" "matchIndex r' = matchIndex ?r"
      "\<And>x. x \<in> set (sends outs) \<Longrightarrow> good_msg N L (log ?r) (commitIndex ?r) ?len x"
    using stable_inv_same [OF inv L L that(1-5) w] that(6) by simp
  have rok': "raft_ok r'" using run_step_ok [OF lead(2) ok] run by simp
  have core: "stable_node N L ?r L x" if "same_core ?r x" for x using stable_node_core [OF n that] .
  show ?thesis
  proof (cases ev)
    case Ev_Propose
    note p = propose_leader [OF n l _ refl L run [unfolded Ev_Propose], of "?len(L := int (length (log r')))"]
    with ok Ev_Propose have p: "stable_node N L r' L r'" "stable_leader N (?len(L := int (length (log r')))) r'"
        "prefix (log ?r) (log r')" "commitIndex r' = commitIndex ?r"
        "\<And>x. x \<in> set (sends outs) \<Longrightarrow> good_msg N L (log r') (commitIndex r') (?len(L := int (length (log r')))) x"
      by auto
    show ?thesis
      by (rule stable_inv_leader [OF inv L p(1,3) _ _ w]) (use p len' in simp_all)
  next
    case (Ev_AppendEntries m)
    then show ?thesis using c g [of "(L, M_AppendEntries m)"] by auto
  next
    case (Ev_AppendEntriesReply m ms)
    have gm: "good_msg N L (log ?r) (commitIndex ?r) ?len (L, M_AppendEntriesReply x)" if "x \<in> set (m # ms)" for x
      using c that Ev_AppendEntriesReply by (intro g) auto
    have N: "0 < N" using L by simp
    from reply_batch_leader [OF n l N gm _ run [unfolded Ev_AppendEntriesReply], of ?len] stable_log_le [OF inv]
    have b: "stable_node N L r' L r'" "stable_leader N ?len r'" "log r' = log ?r" "commitIndex ?r \<le> commitIndex r'"
        "\<And>x. x \<in> set (sends outs) \<Longrightarrow> good_msg N L (log r') (commitIndex r') ?len x"
      by auto
    have len: "(\<lambda>f. int (length (log (((nodes s)(L := r')) f)))) = ?len" using b(3) by auto
    show ?thesis
    proof (rule stable_inv_leader [OF inv L b(1) _ b(4) _ w])
      show "prefix (log ?r) (log r')" using b(3) by simp
    qed (unfold len, rule b(2), rule b(5))
  next
    case (Ev_RequestVote m)
    then show ?thesis using c g [of "(L, M_RequestVote m)"] by auto
  next
    case (Ev_RequestVoteReply m)
    then show ?thesis using c g [of "(L, M_RequestVoteReply m)"] by auto
  next
    case Ev_ElectionTimer
    then show ?thesis using q by (simp add: quiet_def)
  next
    case Ev_Execute
    from execute_node [OF n _ run [unfolded Ev_Execute]] ok Ev_Execute show ?thesis by (intro same) auto
  next
    case Ev_HeartbeatTimer
    show ?thesis
    proof (cases "heartbeatTimer ?r = Running")
      case True
      let ?q = "?r\<lparr>heartbeatTimer := Stopped\<rparr>"
      have b: "broadcastAppendEntries ?q = Some outs" "r' = ?q\<lparr>heartbeatTimer := Running\<rparr>"
        using run True lead Ev_HeartbeatTimer by (auto simp: sendHeartbeats_def Option.bind_eq_Some_conv)
      have core': "same_core ?r ?q" "same_core ?r r'" using lead(2) b(2) by (simp_all add: same_core_def raft_ok_def)
      have "good_msg N L (log ?q) (commitIndex ?q) ?len x" if "x \<in> set (sends outs)" for x
        using broadcast_good [OF stable_node_self_core [OF n core'(1)] stable_leader_core [OF l core'(1)] b(1) that] .
      then show ?thesis using core [OF core'(2)] b(2) by (intro same) simp_all
    next
      case False
      then show ?thesis using run n Ev_HeartbeatTimer by (intro same) auto
    qed
  next
    case Ev_BatchClock
    then have "same_core ?r r'" "outs = []" using run rok' by (auto simp: same_core_def)
    then show ?thesis using core by (intro same) (simp_all add: same_core_def)
  next
    case (Ev_Enqueue p)
    then have "same_core ?r r'" "outs = []" using run rok' by (auto simp: same_core_def)
    then show ?thesis using core by (intro same) (simp_all add: same_core_def)
  qed (use q in simp)
qed

lemma stable_step_follower:
  assumes inv: "stable_inv N L s" and L: "0 \<le> L" "L < int N" and i: "i \<noteq> L" "0 \<le> i" "i < int N"
    and w: "set w \<subseteq> set (wire s)" and c: "set (consumes i ev) \<subseteq> set (wire s)"
    and q: "quiet ev (nodes s i)" "ev \<noteq> Ev_BeTheLeader"
    and run: "run_step ev (nodes s i) = Some (r', outs)"
  shows "stable_inv N L (s\<lparr>nodes := (nodes s)(i := r'), wire := w @ sends outs\<rparr>)"
proof -
  let ?r = "nodes s i"
  note n = stable_invD(1) [OF inv i(2,3)] and g = stable_invD(3) [OF inv]
  have ok: "event_ok ?r ev" using q(1) by (simp add: quiet_def)
  have f: "role ?r = FOLLOWER" "raft_ok ?r" using n i(1) by (simp_all add: stable_node_def)
  have rok': "raft_ok r'" using run_step_ok [OF f(2) ok] run by simp
  have same: ?thesis if "stable_node N L (nodes s L) i r'" "log r' = log ?r" "commitIndex r' = commitIndex ?r"
      "nextIndex r' = nextIndex ?r" "matchIndex r' = matchIndex ?r" "sends outs = []"
    using stable_inv_same [OF inv L i(2,3) that(1-5) w, of "[]"] that(6) by simp
  have core: ?thesis if "same_core ?r r'" "sends outs = []"
    using stable_node_core [OF n that(1)] that by (intro same) (auto simp: same_core_def)
  show ?thesis
  proof (cases ev)
    case (Ev_AppendEntries m)
    from follower_append [OF inv i L _ _ run [unfolded Ev_AppendEntries]] c ok Ev_AppendEntries
    obtain b k where a: "stable_node N L (nodes s L) i r'" "prefix (log ?r) (log r')"
      "sends outs = [(L, M_AppendEntriesReply \<lparr>aer_FollowerId = i, aer_Term = 0, aer_Success = b, aer_MatchIndex = k\<rparr>)]"
      "- 1 \<le> k" "k < int (length (log r'))" by auto
    show ?thesis
      by (rule stable_inv_follower [OF inv L i a(1,2) w]) (use a i in auto)
  next
    case (Ev_AppendEntriesReply m ms)
    then show ?thesis using c g [of "(i, M_AppendEntriesReply m)"] i(1) by auto
  next
    case (Ev_RequestVote m)
    then show ?thesis using c g [of "(i, M_RequestVote m)"] by auto
  next
    case (Ev_RequestVoteReply m)
    then show ?thesis using c g [of "(i, M_RequestVoteReply m)"] by auto
  next
    case Ev_ElectionTimer
    then show ?thesis using q by (simp add: quiet_def)
  next
    case Ev_Execute
    from execute_node [OF n _ run [unfolded Ev_Execute]] ok Ev_Execute show ?thesis by (intro same) auto
  next
    case Ev_Propose
    then have "same_core ?r r'" "sends outs = []" using run f rok'
      by (auto simp: same_core_def handlePropose_def split: if_splits list.splits)
    then show ?thesis by (rule core)
  next
    case Ev_HeartbeatTimer
    then have "same_core ?r r'" "outs = []" using run f rok' by (auto simp: same_core_def split: if_splits)
    then show ?thesis by (intro core) simp_all
  next
    case Ev_BatchClock
    then have "same_core ?r r'" "outs = []" using run rok' by (auto simp: same_core_def)
    then show ?thesis by (intro core) simp_all
  next
    case (Ev_Enqueue p)
    then have "same_core ?r r'" "outs = []" using run rok' by (auto simp: same_core_def)
    then show ?thesis by (intro core) simp_all
  qed (use q in simp)
qed

subsection \<open>Every reachable state\<close>

lemma start_follower:
  assumes "0 \<le> i" and "i < int N" and "i \<noteq> L" and "-1 \<le> commitIndex lead"
  shows "\<exists>r. start_node N L i = Some (r, []) \<and> stable_node N L lead i r \<and> log r = [] \<and> commitIndex r = -1"
  using assms
  by (simp add: start_node_def New_def run_start_def Let_def stable_node_def raft_ok_def)

lemma start_leader:
  assumes "0 \<le> L" and "L < int N"
  shows "\<exists>r outs. start_node N L L = Some (r, outs) \<and> stable_node N L r L r \<and> log r = [] \<and> commitIndex r = -1 \<and>
    stable_leader N (\<lambda>_. 0) r \<and> broadcastAppendEntries r = Some outs"
proof -
  let ?w = "map (\<lambda>j. int j \<noteq> L) [0..<N]"
  have l: "lastLogIndex r = - 1" if "log r = []" for r using that by (simp add: lastLogIndex_eq)
  have mi: "(replicate N (- 1 :: int))[nat L := - 1] = replicate N (- 1)"
    using assms by (intro nth_equalityI) (auto simp: nth_list_update nat_less_iff)
  obtain r0 where r0: "New L N True 0 = Some r0" "rid r0 = L" "nrep r0 = N" "votesNeeded r0 = int N div 2 + 1"
      "currentTerm r0 = 0" "role r0 = LEADER" "log r0 = []" "commitIndex r0 = - 1" "lastApplied r0 = -1"
      "KV r0 = InitState" "nextIndex r0 = replicate N 0" "matchIndex r0 = replicate N (- 1)"
      "pendingProposals r0 = []"
    using assms that by (simp add: New_def BeTheLeader_def init_leader_state_def slice_set_def l mi Let_def is_i32_def)
  let ?r = "r0\<lparr>PeerWriters := ?w, heartbeatTimer := Running, electionTimer := Stopped\<rparr>"
  have ok: "raft_ok ?r" using r0 assms by (simp add: raft_ok_def)
  then obtain outs where outs: "broadcastAppendEntries ?r = Some outs" by (simp add: broadcast_eq raft_ok_def)
  have "start_node N L L = Some (?r, outs)"
    using r0(1,6) outs by (simp add: start_node_def run_start_def Let_def sendHeartbeats_def)
  moreover have "stable_node N L ?r L ?r" using r0 ok by (simp add: stable_node_def)
  moreover have "stable_leader N (\<lambda>_. 0) ?r" using r0 by (simp add: stable_leader_def)
  ultimately show ?thesis using outs r0(7,8) by (intro exI [of _ ?r] exI [of _ outs]) simp
qed

lemma stable_inv_init:
  assumes L: "0 \<le> L" "L < int N"
  shows "stable_inv N L (init_net N L)"
proof -
  from start_leader [OF L] obtain r outs where l: "start_node N L L = Some (r, outs)" "stable_node N L r L r" "log r = []"
    "commitIndex r = - 1" "stable_leader N (\<lambda>_. 0) r" "broadcastAppendEntries r = Some outs" by blast
  have lead: "nodes (init_net N L) L = r" using l(1) by (simp add: init_net_def)
  have f: "\<exists>r'. start_node N L i = Some (r', []) \<and> stable_node N L r i r' \<and> log r' = []"
    if "0 \<le> i" "i < int N" "i \<noteq> L" for i
    using start_follower [OF that, of r] l(4) by auto
  have node: "stable_node N L r i (nodes (init_net N L) i)" "log (nodes (init_net N L) i) = []"
    if "0 \<le> i" "i < int N" for i
    using f [OF that] l that by (cases "i = L"; force simp: init_net_def)+
  have sl: "stable_leader N (\<lambda>f. int (length (log (nodes (init_net N L) f)))) r"
    using l(5) node(2) l(4) by (simp add: stable_leader_def)
  have "good_msg N L (log r) (commitIndex r) len x" if "x \<in> set (wire (init_net N L))" for x len
  proof -
    from that obtain k where k: "k < N" "x \<in> set (sends (snd (the (start_node N L (int k)))))"
      by (auto simp: init_net_def)
    then have "int k = L" using f [of "int k"] by fastforce
    then have "x \<in> set (sends outs)" using k l(1) by simp
    from broadcast_good [OF l(2,5,6) this] show ?thesis .
  qed
  with node(1) sl show ?thesis unfolding stable_inv_def Let_def lead by simp
qed

lemma reach_stable:
  assumes "reach quiet N L s" and L: "0 \<le> L" "L < int N"
  shows "stable_inv N L s"
  using assms(1)
proof induction
  case init
  then show ?case by (rule stable_inv_init [OF L])
next
  case (step s i ev s')
  from step(7) obtain w r' outs where t: "take_msgs (wire s) (consumes i ev) = Some w"
      "run_step ev (nodes s i) = Some (r', outs)" and s': "s' = s\<lparr>nodes := (nodes s)(i := r'), wire := w @ sends outs\<rparr>"
    by (auto simp: net_do_def Option.bind_eq_Some_conv)
  have "mset (wire s) = mset w + mset (consumes i ev)" by (rule take_msgs_mset [OF t(1)])
  from arg_cong [OF this, of set_mset] have w: "set w \<subseteq> set (wire s)" "set (consumes i ev) \<subseteq> set (wire s)"
    by simp_all
  show ?case
  proof (cases "i = L")
    case True
    show ?thesis unfolding s' True
      using stable_step_leader [OF step(8) L w(1)] w(2) step(4,5) t(2) True by simp
  next
    case False
    show ?thesis unfolding s'
      using stable_step_follower [OF step(8) L False step(2,3) w] step(4,5) t(2) by simp
  qed
next
  case (lose s a x b)
  then show ?case by (simp add: stable_inv_def Let_def)
qed

lemma stable_committed:
  assumes inv: "stable_inv N L s" and i: "0 \<le> i" "i < int N" and c: "0 \<le> commitIndex (nodes s i)"
  shows "is_majority (int N) {v. 0 \<le> v \<and> v < int N \<and> commitIndex (nodes s i) < int (length (log (nodes s v))) \<and>
    take (nat (commitIndex (nodes s i) + 1)) (log (nodes s v)) = take (nat (commitIndex (nodes s i) + 1)) (log (nodes s i))}"
proof -
  let ?c = "commitIndex (nodes s i)" and ?lead = "nodes s L"
  have n: "stable_node N L ?lead v (nodes s v)" if "0 \<le> v" "v < int N" for v using stable_invD(1) [OF inv that] .
  have "?c \<le> commitIndex ?lead" using n [OF i] by (simp add: stable_node_def)
  with c stable_invD(2) [OF inv]
  have "is_majority (int N) {v. 0 \<le> v \<and> v < int N \<and> commitIndex ?lead < int (length (log (nodes s v)))}"
    by (auto simp: stable_leader_def)
  moreover have "take (nat (?c + 1)) (log (nodes s v)) = take (nat (?c + 1)) (log ?lead)"
    if "0 \<le> v" "v < int N" "?c < int (length (log (nodes s v)))" for v
    using n [OF that(1,2)] that(3) by (intro exec_prefix [symmetric]) (auto simp: stable_node_def)
  moreover have "?c < int (length (log (nodes s i)))" using n [OF i] by (simp add: stable_node_def)
  ultimately show ?thesis
    using \<open>?c \<le> commitIndex ?lead\<close> i by (elim is_majority_mono) auto
qed

subsection \<open>A run of three replicas\<close>

text \<open>An executable condition on events that implies \<open>quiet\<close>, and a run in which a command is proposed,
  stored by a follower, committed and executed.\<close>

fun calm :: "raft_event \<Rightarrow> raft \<Rightarrow> bool" where
  "calm Ev_Propose r = (length (log r) < 9)"
| "calm (Ev_AppendEntries m) r = (- 1 \<le> ae_PrevLogIndex m \<and> length (log r) + length (ae_Entries m) < 9)"
| "calm (Ev_AppendEntriesReply m ms) r =
     list_all (\<lambda>x. 0 \<le> aer_FollowerId x \<and> aer_FollowerId x < int (nrep r)) (m # ms)"
| "calm Ev_Execute r = list_all (\<lambda>e. Op (le_Command e) = PUT) (log r)"
| "calm (Ev_Enqueue p) r = True"
| "calm _ r = False"

lemma calm_quiet: "calm ev r \<Longrightarrow> quiet ev r"
  by (cases ev) (auto simp: quiet_def list_all_iff maxBatchSize_def executable_PUT)

lemma reach_mono: "reach ok N L s \<Longrightarrow> (\<And>ev r. ok ev r \<Longrightarrow> ok' ev r) \<Longrightarrow> reach ok' N L s"
  by (induction rule: reach.induct) (auto intro: reach.intros)

definition entry1 :: AppendEntries where
  "entry1 = \<lparr>ae_LeaderId = 0, ae_Term = 0, ae_PrevLogIndex = -1, ae_PrevLogTerm = 0, ae_LeaderCommit = -1,
     ae_EntryCnt = 1, ae_Entries = [p_Command (Propose put1)],
     ae_EntryIds = [\<lparr>ClientId = p_ClientId (Propose put1), SeqNum = p_CommandId (Propose put1)\<rparr>]\<rparr>"

definition stored :: "net option" where
  "stored = net_run calm 3
     [(0, Ev_Enqueue put1), (0, Ev_Propose), (1, Ev_AppendEntries entry1),
      (0, Ev_AppendEntriesReply \<lparr>aer_FollowerId = 1, aer_Term = 0, aer_Success = 1, aer_MatchIndex = 0\<rparr> []),
      (0, Ev_Execute)] (init_net 3 0)"

lemma stored_run:
  "case stored of None \<Rightarrow> False | Some s \<Rightarrow> commitIndex (nodes s 0) = 0 \<and> lastApplied (nodes s 0) = 0 \<and>
     length (log (nodes s 0)) = 1 \<and> length (log (nodes s 1)) = 1 \<and>
     lastApplied (nodes s 1) = -1 \<and> lastApplied (nodes s 2) = -1 \<and> Store (KV (nodes s 0)) 5 = Some [9]"
  by code_simp

lemma stored_reach: "stored = Some s \<Longrightarrow> reach quiet 3 0 s"
  unfolding stored_def by (drule net_run_reach [OF reach.init]) (erule reach_mono, rule calm_quiet)

subsection \<open>Properties\<close>

text \<open>C2. Log matching and durability under a stable leader: in every execution of a cluster in which
  no election timer fires, whatever messages are lost, delayed or reordered, two replicas hold the
  same entry at every index both have, and the entries a replica regards as committed are stored by
  a majority of the replicas.\<close>

theorem stable_replication:
  assumes "reach quiet N L s" and "0 \<le> L" "L < int N" and "0 \<le> i" "i < int N" and "0 \<le> j" "j < int N"
  shows "(\<forall>k. k < length (log (nodes s i)) \<and> k < length (log (nodes s j)) \<longrightarrow>
      log (nodes s i) ! k = log (nodes s j) ! k) \<and>
    (0 \<le> commitIndex (nodes s i) \<longrightarrow>
      is_majority (int N) {v. 0 \<le> v \<and> v < int N \<and> commitIndex (nodes s i) < int (length (log (nodes s v))) \<and>
        take (nat (commitIndex (nodes s i) + 1)) (log (nodes s v)) =
        take (nat (commitIndex (nodes s i) + 1)) (log (nodes s i))})"
proof -
  have inv: "stable_inv N L s" by (rule reach_stable [OF assms(1-3)])
  have "prefix (log (nodes s i)) (log (nodes s L))" "prefix (log (nodes s j)) (log (nodes s L))"
    using stable_invD(1) [OF inv] assms(4-7) by (auto simp: stable_node_def)
  then have "log (nodes s i) ! k = log (nodes s j) ! k"
    if "k < length (log (nodes s i))" "k < length (log (nodes s j))" for k
    using that by (metis nth_append prefix_def)
  then show ?thesis using stable_committed [OF inv assms(4,5)] by blast
qed

theorem stable_replication_witness:
  "\<exists>s. stored = Some s \<and> commitIndex (nodes s 0) = 0 \<and> log (nodes s 0) ! 0 = log (nodes s 1) ! 0 \<and>
     is_majority 3 {v. 0 \<le> v \<and> v < 3 \<and> 0 < int (length (log (nodes s v))) \<and>
       take 1 (log (nodes s v)) = take 1 (log (nodes s 0))}"
proof -
  obtain s where s: "stored = Some s" "commitIndex (nodes s 0) = 0" "length (log (nodes s 0)) = 1"
      "length (log (nodes s 1)) = 1"
    using stored_run by (auto split: option.splits)
  from stable_replication [OF stored_reach [OF s(1)], of 0 1] s show ?thesis by (intro exI [of _ s]) simp
qed

text \<open>C3. The cluster refines a single state machine: under a stable leader the store of every
  replica is the result of executing a prefix of the leader's log, the committed one up to
  \<open>lastApplied\<close>, from the empty store; so two replicas that have applied equally many commands
  have the same store.\<close>

theorem stable_refines_state_machine:
  assumes "reach quiet N L s" and "0 \<le> L" "L < int N" and "0 \<le> i" "i < int N" and "0 \<le> j" "j < int N"
  shows "lastApplied (nodes s i) \<le> commitIndex (nodes s L) \<and>
    commitIndex (nodes s L) < int (length (log (nodes s L))) \<and>
    (\<exists>vs. exec_cmds (map le_Command (take (nat (lastApplied (nodes s i) + 1)) (log (nodes s L)))) InitState =
       Some (vs, KV (nodes s i))) \<and>
    (lastApplied (nodes s i) = lastApplied (nodes s j) \<longrightarrow> KV (nodes s i) = KV (nodes s j))"
proof -
  have inv: "stable_inv N L s" by (rule reach_stable [OF assms(1-3)])
  have x: "lastApplied (nodes s v) \<le> commitIndex (nodes s L)"
      "\<exists>vs. exec_cmds (map le_Command (take (nat (lastApplied (nodes s v) + 1)) (log (nodes s L)))) InitState =
       Some (vs, KV (nodes s v))" if "0 \<le> v" "v < int N" for v
  proof -
    note n = stable_invD(1) [OF inv that, unfolded stable_node_def]
    show "lastApplied (nodes s v) \<le> commitIndex (nodes s L)" using n by simp
    have "take (nat (lastApplied (nodes s v) + 1)) (log (nodes s L)) =
        take (nat (lastApplied (nodes s v) + 1)) (log (nodes s v))"
      using n by (intro exec_prefix) auto
    with n show "\<exists>vs. exec_cmds (map le_Command (take (nat (lastApplied (nodes s v) + 1)) (log (nodes s L)))) InitState =
       Some (vs, KV (nodes s v))" by simp
  qed
  moreover have "commitIndex (nodes s L) < int (length (log (nodes s L)))"
    using stable_invD(1) [OF inv assms(2,3)] by (simp add: stable_node_def)
  moreover have "KV (nodes s i) = KV (nodes s j)" if "lastApplied (nodes s i) = lastApplied (nodes s j)"
    using x(2) [OF assms(4,5)] x(2) [OF assms(6,7)] that by auto
  ultimately show ?thesis using assms(4,5) by blast
qed

theorem stable_refines_state_machine_witness:
  "\<exists>s vs. stored = Some s \<and> lastApplied (nodes s 0) = 0 \<and> lastApplied (nodes s 1) = -1 \<and>
     exec_cmds (map le_Command (take 1 (log (nodes s 0)))) InitState = Some (vs, KV (nodes s 0)) \<and>
     KV (nodes s 1) = KV (nodes s 2)"
proof -
  obtain s where s: "stored = Some s" "lastApplied (nodes s 0) = 0" "lastApplied (nodes s 1) = -1"
      "lastApplied (nodes s 2) = -1"
    using stored_run by (auto split: option.splits)
  from stable_refines_state_machine [OF stored_reach [OF s(1)], of 0 0]
    stable_refines_state_machine [OF stored_reach [OF s(1)], of 1 2] s show ?thesis by auto
qed

end
