(* ===== verification/Paxos_Msgs.thy ===== *)
theory Paxos_Msgs
  imports Replica Pool
begin

section \<open>Messages of the Paxos package\<close>

text \<open>
  The message structs of \<open>src/paxos/defs.go\<close>, their \<open>Marshal\<close> and \<open>Unmarshal\<close> methods, object caches
  and registration. The readers drop the errors of the commands they contain (\<open>read_each_lax\<close>), so
  only the types without commands notice every truncation.
\<close>

record Prepare =
  pr_LeaderId :: int
  pr_Instance :: int
  pr_Ballot :: int

record PrepareReply =
  prr_Instance :: int
  prr_Ballot :: int
  prr_VBallot :: int
  prr_DefaultBallot :: int
  prr_AcceptorId :: int
  prr_Command :: "command list"

record Accept =
  ac_LeaderId :: int
  ac_Instance :: int
  ac_Ballot :: int
  ac_Command :: "command list"

record AcceptReply =
  acr_Instance :: int
  acr_Ballot :: int

record Commit =
  co_LeaderId :: int
  co_Instance :: int
  co_Ballot :: int
  co_Command :: "command list"

record CommitShort =
  cs_LeaderId :: int
  cs_Instance :: int
  cs_Count :: int
  cs_Ballot :: int

subsection \<open>Encoding\<close>

definition Prepare_Marshal :: "Prepare \<Rightarrow> byte list" where
  "Prepare_Marshal t = put32 (pr_LeaderId t) @ put32 (pr_Instance t) @ put32 (pr_Ballot t)"

definition Prepare_Unmarshal :: "Prepare \<Rightarrow> byte list \<Rightarrow> Prepare outcome" where
  "Prepare_Unmarshal t s =
     with_bytes 12 t s (\<lambda>bs r.
       Ok (t\<lparr>pr_LeaderId := get32 bs, pr_Instance := get32 (drop 4 bs), pr_Ballot := get32 (drop 8 bs)\<rparr>) r)"

definition PrepareReply_Marshal :: "PrepareReply \<Rightarrow> byte list" where
  "PrepareReply_Marshal t =
     (put32 (prr_Instance t) @ put32 (prr_Ballot t) @ put32 (prr_VBallot t) @
      put32 (prr_DefaultBallot t) @ put32 (prr_AcceptorId t)) @
     put_slice Command_Marshal (prr_Command t)"

definition PrepareReply_Unmarshal :: "PrepareReply \<Rightarrow> byte list \<Rightarrow> PrepareReply outcome" where
  "PrepareReply_Unmarshal t s =
     with_bytes 20 t s (\<lambda>bs r.
       let t = t\<lparr>prr_Instance := get32 bs, prr_Ballot := get32 (drop 4 bs), prr_VBallot := get32 (drop 8 bs),
                 prr_DefaultBallot := get32 (drop 12 bs), prr_AcceptorId := get32 (drop 16 bs)\<rparr>
       in and_then (\<lambda>x. t\<lparr>prr_Command := x\<rparr>)
            (get_slice (read_each_lax Command_Unmarshal zero_command) (prr_Command t) r) Ok)"

definition Accept_Marshal :: "Accept \<Rightarrow> byte list" where
  "Accept_Marshal t =
     (put32 (ac_LeaderId t) @ put32 (ac_Instance t) @ put32 (ac_Ballot t)) @
     put_slice Command_Marshal (ac_Command t)"

definition Accept_Unmarshal :: "Accept \<Rightarrow> byte list \<Rightarrow> Accept outcome" where
  "Accept_Unmarshal t s =
     with_bytes 12 t s (\<lambda>bs r.
       let t = t\<lparr>ac_LeaderId := get32 bs, ac_Instance := get32 (drop 4 bs), ac_Ballot := get32 (drop 8 bs)\<rparr>
       in and_then (\<lambda>x. t\<lparr>ac_Command := x\<rparr>)
            (get_slice (read_each_lax Command_Unmarshal zero_command) (ac_Command t) r) Ok)"

definition AcceptReply_Marshal :: "AcceptReply \<Rightarrow> byte list" where
  "AcceptReply_Marshal t = put32 (acr_Instance t) @ put32 (acr_Ballot t)"

definition AcceptReply_Unmarshal :: "AcceptReply \<Rightarrow> byte list \<Rightarrow> AcceptReply outcome" where
  "AcceptReply_Unmarshal t s =
     with_bytes 8 t s (\<lambda>bs r. Ok (t\<lparr>acr_Instance := get32 bs, acr_Ballot := get32 (drop 4 bs)\<rparr>) r)"

definition Commit_Marshal :: "Commit \<Rightarrow> byte list" where
  "Commit_Marshal t =
     (put32 (co_LeaderId t) @ put32 (co_Instance t) @ put32 (co_Ballot t)) @
     put_slice Command_Marshal (co_Command t)"

definition Commit_Unmarshal :: "Commit \<Rightarrow> byte list \<Rightarrow> Commit outcome" where
  "Commit_Unmarshal t s =
     with_bytes 12 t s (\<lambda>bs r.
       let t = t\<lparr>co_LeaderId := get32 bs, co_Instance := get32 (drop 4 bs), co_Ballot := get32 (drop 8 bs)\<rparr>
       in and_then (\<lambda>x. t\<lparr>co_Command := x\<rparr>)
            (get_slice (read_each_lax Command_Unmarshal zero_command) (co_Command t) r) Ok)"

definition CommitShort_Marshal :: "CommitShort \<Rightarrow> byte list" where
  "CommitShort_Marshal t =
     put32 (cs_LeaderId t) @ put32 (cs_Instance t) @ put32 (cs_Count t) @ put32 (cs_Ballot t)"

definition CommitShort_Unmarshal :: "CommitShort \<Rightarrow> byte list \<Rightarrow> CommitShort outcome" where
  "CommitShort_Unmarshal t s =
     with_bytes 16 t s (\<lambda>bs r.
       Ok (t\<lparr>cs_LeaderId := get32 bs, cs_Instance := get32 (drop 4 bs), cs_Count := get32 (drop 8 bs),
            cs_Ballot := get32 (drop 12 bs)\<rparr>) r)"

subsection \<open>Object caches and the sizes the messages claim to have\<close>

definition PrepareCache_Get :: "Prepare list \<Rightarrow> Prepare \<times> Prepare list" where
  "PrepareCache_Get = cache_Get \<lparr>pr_LeaderId = 0, pr_Instance = 0, pr_Ballot = 0\<rparr>"

definition PrepareReplyCache_Get :: "PrepareReply list \<Rightarrow> PrepareReply \<times> PrepareReply list" where
  "PrepareReplyCache_Get =
     cache_Get \<lparr>prr_Instance = 0, prr_Ballot = 0, prr_VBallot = 0, prr_DefaultBallot = 0, prr_AcceptorId = 0,
       prr_Command = []\<rparr>"

definition AcceptCache_Get :: "Accept list \<Rightarrow> Accept \<times> Accept list" where
  "AcceptCache_Get = cache_Get \<lparr>ac_LeaderId = 0, ac_Instance = 0, ac_Ballot = 0, ac_Command = []\<rparr>"

definition AcceptReplyCache_Get :: "AcceptReply list \<Rightarrow> AcceptReply \<times> AcceptReply list" where
  "AcceptReplyCache_Get = cache_Get \<lparr>acr_Instance = 0, acr_Ballot = 0\<rparr>"

definition CommitCache_Get :: "Commit list \<Rightarrow> Commit \<times> Commit list" where
  "CommitCache_Get = cache_Get \<lparr>co_LeaderId = 0, co_Instance = 0, co_Ballot = 0, co_Command = []\<rparr>"

definition CommitShortCache_Get :: "CommitShort list \<Rightarrow> CommitShort \<times> CommitShort list" where
  "CommitShortCache_Get = cache_Get \<lparr>cs_LeaderId = 0, cs_Instance = 0, cs_Count = 0, cs_Ballot = 0\<rparr>"

text \<open>The number of bytes \<open>BinarySize\<close> returns, when it claims to know it.\<close>

datatype paxos_msg_type = T_Prepare | T_Accept | T_Commit | T_CommitShort | T_PrepareReply | T_AcceptReply

fun BinarySize :: "paxos_msg_type \<Rightarrow> nat option" where
  "BinarySize T_Prepare = Some 13"
| "BinarySize T_PrepareReply = None"
| "BinarySize T_Accept = None"
| "BinarySize T_AcceptReply = Some 9"
| "BinarySize T_Commit = None"
| "BinarySize T_CommitShort = Some 16"

subsection \<open>The codecs\<close>

definition wf_Prepare :: "Prepare \<Rightarrow> bool" where
  "wf_Prepare t \<longleftrightarrow> is_i32 (pr_LeaderId t) \<and> is_i32 (pr_Instance t) \<and> is_i32 (pr_Ballot t)"

definition wf_cmds :: "command list \<Rightarrow> bool" where
  "wf_cmds cs \<longleftrightarrow> list_all wf_command cs \<and> short_enough cs"

definition wf_PrepareReply :: "PrepareReply \<Rightarrow> bool" where
  "wf_PrepareReply t \<longleftrightarrow> is_i32 (prr_Instance t) \<and> is_i32 (prr_Ballot t) \<and> is_i32 (prr_VBallot t) \<and>
     is_i32 (prr_DefaultBallot t) \<and> is_i32 (prr_AcceptorId t) \<and> wf_cmds (prr_Command t)"

definition wf_Accept :: "Accept \<Rightarrow> bool" where
  "wf_Accept t \<longleftrightarrow> is_i32 (ac_LeaderId t) \<and> is_i32 (ac_Instance t) \<and> is_i32 (ac_Ballot t) \<and> wf_cmds (ac_Command t)"

definition wf_AcceptReply :: "AcceptReply \<Rightarrow> bool" where
  "wf_AcceptReply t \<longleftrightarrow> is_i32 (acr_Instance t) \<and> is_i32 (acr_Ballot t)"

definition wf_Commit :: "Commit \<Rightarrow> bool" where
  "wf_Commit t \<longleftrightarrow> is_i32 (co_LeaderId t) \<and> is_i32 (co_Instance t) \<and> is_i32 (co_Ballot t) \<and> wf_cmds (co_Command t)"

definition wf_CommitShort :: "CommitShort \<Rightarrow> bool" where
  "wf_CommitShort t \<longleftrightarrow> is_i32 (cs_LeaderId t) \<and> is_i32 (cs_Instance t) \<and> is_i32 (cs_Count t) \<and> is_i32 (cs_Ballot t)"

lemmas paxos_wire_defs = Prepare_Marshal_def Prepare_Unmarshal_def AcceptReply_Marshal_def AcceptReply_Unmarshal_def
  CommitShort_Marshal_def CommitShort_Unmarshal_def wf_Prepare_def wf_AcceptReply_def wf_CommitShort_def

interpretation prepare_codec: strict_codec Prepare_Marshal Prepare_Unmarshal wf_Prepare
proof
  fix x t :: Prepare and p s :: "byte list"
  show "wf_Prepare x \<Longrightarrow> Prepare_Unmarshal t (Prepare_Marshal x @ s) = Ok x s"
    unfolding Prepare_Unmarshal_def by (subst with_bytes_append) (simp_all add: paxos_wire_defs)
  show "strict_prefix p (Prepare_Marshal x) \<Longrightarrow> is_fail (Prepare_Unmarshal t p)"
    unfolding Prepare_Unmarshal_def by (erule with_bytes_truncated_end) (simp add: paxos_wire_defs)
qed

interpretation accept_reply_codec: strict_codec AcceptReply_Marshal AcceptReply_Unmarshal wf_AcceptReply
proof
  fix x t :: AcceptReply and p s :: "byte list"
  show "wf_AcceptReply x \<Longrightarrow> AcceptReply_Unmarshal t (AcceptReply_Marshal x @ s) = Ok x s"
    unfolding AcceptReply_Unmarshal_def by (subst with_bytes_append) (simp_all add: paxos_wire_defs)
  show "strict_prefix p (AcceptReply_Marshal x) \<Longrightarrow> is_fail (AcceptReply_Unmarshal t p)"
    unfolding AcceptReply_Unmarshal_def by (erule with_bytes_truncated_end) (simp add: paxos_wire_defs)
qed

interpretation commit_short_codec: strict_codec CommitShort_Marshal CommitShort_Unmarshal wf_CommitShort
proof
  fix x t :: CommitShort and p s :: "byte list"
  show "wf_CommitShort x \<Longrightarrow> CommitShort_Unmarshal t (CommitShort_Marshal x @ s) = Ok x s"
    unfolding CommitShort_Unmarshal_def by (subst with_bytes_append) (simp_all add: paxos_wire_defs)
  show "strict_prefix p (CommitShort_Marshal x) \<Longrightarrow> is_fail (CommitShort_Unmarshal t p)"
    unfolding CommitShort_Unmarshal_def by (erule with_bytes_truncated_end) (simp add: paxos_wire_defs)
qed

interpretation prepare_reply_codec: codec PrepareReply_Marshal PrepareReply_Unmarshal wf_PrepareReply
proof
  fix x t :: PrepareReply and s :: "byte list"
  show "wf_PrepareReply x \<Longrightarrow> PrepareReply_Unmarshal t (PrepareReply_Marshal x @ s) = Ok x s"
    unfolding PrepareReply_Unmarshal_def PrepareReply_Marshal_def append_assoc [of _ _ s]
    by (subst with_bytes_append) (simp_all add: wf_PrepareReply_def wf_cmds_def command_codec.slice_lax_roundtrip)
qed

interpretation accept_codec: codec Accept_Marshal Accept_Unmarshal wf_Accept
proof
  fix x t :: Accept and s :: "byte list"
  show "wf_Accept x \<Longrightarrow> Accept_Unmarshal t (Accept_Marshal x @ s) = Ok x s"
    unfolding Accept_Unmarshal_def Accept_Marshal_def append_assoc [of _ _ s]
    by (subst with_bytes_append) (simp_all add: wf_Accept_def wf_cmds_def command_codec.slice_lax_roundtrip)
qed

interpretation commit_codec: codec Commit_Marshal Commit_Unmarshal wf_Commit
proof
  fix x t :: Commit and s :: "byte list"
  show "wf_Commit x \<Longrightarrow> Commit_Unmarshal t (Commit_Marshal x @ s) = Ok x s"
    unfolding Commit_Unmarshal_def Commit_Marshal_def append_assoc [of _ _ s]
    by (subst with_bytes_append) (simp_all add: wf_Commit_def wf_cmds_def command_codec.slice_lax_roundtrip)
qed

subsection \<open>Errors\<close>

lemma read_each_lax_never_fails: "\<not> is_fail (read_each_lax um z n s)"
proof (induction n arbitrary: s)
  case (Suc n)
  have "\<not> is_fail (case read_each_lax um z n r of
      Ok xs r' \<Rightarrow> Ok (x # xs) r' | Fail e xs r' \<Rightarrow> Fail e (x # xs) r' | Panic \<Rightarrow> Panic)" for x r
    using Suc [of r] by (cases "read_each_lax um z n r") simp_all
  then show ?case by (cases "um z s") (simp_all add: Let_def)
qed simp

lemma get_slice_lax_fails: "is_fail (get_slice (read_each_lax um z) t s) = is_fail (ReadVarint s)"
  by (cases "ReadVarint s") (simp_all add: get_slice_def read_each_lax_never_fails)

lemma is_fail_and_then_Ok: "is_fail (and_then upd m Ok) = is_fail m"
  by (cases m) simp_all

lemma is_fail_with_bytes:
  "is_fail (with_bytes n t s k) \<longleftrightarrow> length s < n \<or> is_fail (k (take n s) (drop n s))"
  by (simp add: with_bytes_def io_ReadFull_def)

text \<open>The reader of an Accept message reports an error exactly when the stream ends inside the
  fixed part or the number of commands; a stream that ends inside the commands is accepted, with the
  missing commands empty.\<close>

theorem Accept_Unmarshal_errors:
  "is_fail (Accept_Unmarshal t s) \<longleftrightarrow> length s < 12 \<or> is_fail (ReadVarint (drop 12 s))"
  unfolding Accept_Unmarshal_def by (simp add: is_fail_with_bytes Let_def is_fail_and_then_Ok get_slice_lax_fails)

text \<open>The messages of Paxos survive the wire, one after the other on the same stream.\<close>

theorem paxos_wire_roundtrip:
  assumes "wf_Prepare a" and "wf_PrepareReply b" and "wf_Accept c" and "wf_AcceptReply d" and "wf_Commit e"
    and "wf_CommitShort f"
  shows "Prepare_Unmarshal ta (Prepare_Marshal a @ s) = Ok a s \<and>
    PrepareReply_Unmarshal tb (PrepareReply_Marshal b @ s) = Ok b s \<and>
    Accept_Unmarshal tc (Accept_Marshal c @ s) = Ok c s \<and>
    AcceptReply_Unmarshal td (AcceptReply_Marshal d @ s) = Ok d s \<and>
    Commit_Unmarshal te (Commit_Marshal e @ s) = Ok e s \<and>
    CommitShort_Unmarshal tf (CommitShort_Marshal f @ s) = Ok f s"
  using assms by (simp add: prepare_codec.roundtrip prepare_reply_codec.roundtrip accept_codec.roundtrip
      accept_reply_codec.roundtrip commit_codec.roundtrip commit_short_codec.roundtrip)

definition accept1 :: Accept where
  "accept1 = \<lparr>ac_LeaderId = 0, ac_Instance = 3, ac_Ballot = 7,
     ac_Command = [\<lparr>Op = PUT, K = 5, V = [9], CL = 0, Sid = 0\<rparr>]\<rparr>"

theorem paxos_wire_roundtrip_witness:
  "Accept_Unmarshal accept1 (Accept_Marshal accept1 @ [1]) = Ok accept1 [1]"
proof -
  have a: "wf_Accept accept1"
    by (simp add: accept1_def wf_Accept_def wf_cmds_def short_enough_def wf_command_def wf_value_def
      is_i32_def is_i64_def)
  show ?thesis
    using paxos_wire_roundtrip [of "\<lparr>pr_LeaderId = 0, pr_Instance = 0, pr_Ballot = 0\<rparr>"
      "\<lparr>prr_Instance = 0, prr_Ballot = 0, prr_VBallot = 0, prr_DefaultBallot = 0, prr_AcceptorId = 0, prr_Command = []\<rparr>"
      accept1 "\<lparr>acr_Instance = 0, acr_Ballot = 0\<rparr>"
      "\<lparr>co_LeaderId = 0, co_Instance = 0, co_Ballot = 0, co_Command = []\<rparr>"
      "\<lparr>cs_LeaderId = 0, cs_Instance = 0, cs_Count = 0, cs_Ballot = 0\<rparr>" _ "[1]" _ accept1] a
    by (simp add: wf_Prepare_def wf_PrepareReply_def wf_AcceptReply_def wf_Commit_def wf_CommitShort_def wf_cmds_def
      short_enough_def is_i32_def)
qed

end
