(* ===== verification/Paxos.thy ===== *)
theory Paxos
  imports Paxos_Msgs
begin

section \<open>The Paxos replica\<close>

text \<open>
  The Multi-Paxos replica of \<open>src/paxos/paxos.go\<close>.

  \<^item> \<open>paxos\<close> is the struct \<open>Replica\<close>. \<open>instanceSpace\<close> is the array of instance pointers; its bounds are
    checked by \<open>inst_at\<close> and \<open>inst_put\<close>. Every instance and its bookkeeping belong to one slot, so the
    code's pointers into them are updates of the slot.
  \<^item> A slice whose \<open>nil\<close> value matters (\<open>cmds\<close>, \<open>clientProposals\<close>) is an option.
  \<^item> A handler returns the new state and what it sends, or \<open>None\<close> for a panic. The broadcasts recover
    from panics: they send to the peers before the one that panics.
  \<^item> \<open>run_paxos\<close> is one case of the event loop, one pass of \<open>executeCommands\<close>, or an action of the
    environment. Channels are unbounded queues.
\<close>

datatype InstanceStatus = PREPARING | PREPARED | ACCEPTED | COMMITTED

record LeaderBookkeeping =
  clientProposals :: "GPropose list option"
  prepareOKs :: int
  acceptOKs :: int
  nacks :: int
  lb_ballot :: int
  lb_cmds :: "command list option"
  lastTriedBallot :: int

record Instance =
  cmds :: "command list option"
  bal :: int
  vbal :: int
  status :: InstanceStatus
  lb :: "LeaderBookkeeping option"

record paxos =
  pId :: int
  pN :: nat
  pF :: int
  IsLeader :: bool
  instanceSpace :: "int \<Rightarrow> Instance option"
  crtInstance :: int
  maxRecvBallot :: int
  defaultBallot :: "int list"
  smallestDefaultBallot :: int
  executedUpTo :: int
  pbatchWait :: int
  ponOff :: bool
  pProposeChan :: "GPropose list"
  instancesToRecover :: "int list"
  pAlive :: "bool list"
  pPeerOrder :: "int list"
  Dreply :: bool
  Durable :: bool
  StableStore :: "byte list"
  pState :: kv_state
  totalRecNum :: int
  totalSendNum :: int
  timeout :: int
  problemInstance :: int

datatype paxos_msg = P_Prepare Prepare | P_Accept Accept | P_Commit Commit | P_CommitShort CommitShort
  | P_PrepareReply PrepareReply | P_AcceptReply AcceptReply

datatype paxos_out = P_SendTo int paxos_msg | P_Reply GPropose ProposeReplyTS

type_synonym paxos_result = "(paxos \<times> paxos_out list) option"

definition space_size :: int where
  "space_size = 15 * 1024 * 1024"

definition cmds_list :: "command list option \<Rightarrow> command list" where
  "cmds_list c = (case c of None \<Rightarrow> [] | Some cs \<Rightarrow> cs)"

definition inst_at :: "paxos \<Rightarrow> int \<Rightarrow> Instance option option" where
  "inst_at r i = (if 0 \<le> i \<and> i < space_size then Some (instanceSpace r i) else None)"

definition inst_put :: "int \<Rightarrow> Instance \<Rightarrow> paxos \<Rightarrow> paxos option" where
  "inst_put i x r =
     (if 0 \<le> i \<and> i < space_size then Some (r\<lparr>instanceSpace := (instanceSpace r)(i \<mapsto> x)\<rparr>) else None)"

text \<open>\<open>r.instanceSpace[i]\<close> dereferenced, and its bookkeeping dereferenced.\<close>

definition inst_ptr :: "paxos \<Rightarrow> int \<Rightarrow> Instance option" where
  "inst_ptr r i = do { x \<leftarrow> inst_at r i; x }"

definition lb_ptr :: "paxos \<Rightarrow> int \<Rightarrow> LeaderBookkeeping option" where
  "lb_ptr r i = do { x \<leftarrow> inst_ptr r i; lb x }"

subsection \<open>Stable storage\<close>

fun status_byte :: "InstanceStatus \<Rightarrow> byte" where
  "status_byte PREPARING = 0"
| "status_byte PREPARED = 1"
| "status_byte ACCEPTED = 2"
| "status_byte COMMITTED = 3"

definition recordInstanceMetadata :: "Instance \<Rightarrow> paxos \<Rightarrow> paxos" where
  "recordInstanceMetadata x r =
     (if Durable r then r\<lparr>StableStore := StableStore r @ put32 (bal x) @ [status_byte (status x)]\<rparr> else r)"

definition recordCommands :: "command list option \<Rightarrow> paxos \<Rightarrow> paxos" where
  "recordCommands cs r =
     (if Durable r \<and> cs \<noteq> None
      then r\<lparr>StableStore := StableStore r @ concat (map Command_Marshal (cmds_list cs))\<rparr> else r)"

subsection \<open>Ballots\<close>

text \<open>The loop of \<open>makeBallot\<close>; it may run for ever.\<close>

partial_function (option) ballot_loop :: "int \<Rightarrow> int \<Rightarrow> int \<Rightarrow> int \<Rightarrow> int option" where
  "ballot_loop n d m b = (if b < d \<or> b < m then ballot_loop n d m (i32 (b + n)) else Some b)"

declare ballot_loop.simps [code]

definition makeBallot :: "int \<Rightarrow> paxos \<Rightarrow> paxos option" where
  "makeBallot i r = do {
     x \<leftarrow> inst_ptr r i;
     n \<leftarrow> (if IsLeader r
          then do { d \<leftarrow> slice_get (defaultBallot r) (pId r); ballot_loop (int (pN r)) d (maxRecvBallot r) (pId r) }
          else Some (pId r));
     b \<leftarrow> lb x;
     inst_put i (x\<lparr>lb := Some (b\<lparr>lastTriedBallot := n\<rparr>)\<rparr>) r
   }"

subsection \<open>Broadcasts\<close>

text \<open>The peers a broadcast reaches: the first \<open>pN - 1\<close> of the order of preference that are alive, at
  most \<open>limit\<close> of them.\<close>

fun bcast_loop :: "bool list \<Rightarrow> nat \<Rightarrow> int list \<Rightarrow> int list" where
  "bcast_loop alive limit [] = []"
| "bcast_loop alive limit (p # ps) =
     (case slice_get alive p of
        None \<Rightarrow> []
      | Some a \<Rightarrow>
          if a then p # (if limit \<le> 1 then [] else bcast_loop alive (limit - 1) ps)
          else bcast_loop alive limit ps)"

definition bcast :: "paxos_msg \<Rightarrow> paxos \<Rightarrow> paxos_out list" where
  "bcast m r =
     map (\<lambda>p. P_SendTo p m) (bcast_loop (pAlive r) (pN r - 1) (take (pN r - 1) (pPeerOrder r)))"

definition bcastPrepare :: "int \<Rightarrow> paxos \<Rightarrow> paxos_out list" where
  "bcastPrepare i r =
     (case lb_ptr r i of
        None \<Rightarrow> []
      | Some b \<Rightarrow>
          bcast (P_Prepare \<lparr>pr_LeaderId = pId r, pr_Instance = i, pr_Ballot = lastTriedBallot b\<rparr>) r)"

definition bcastAccept :: "int \<Rightarrow> paxos \<Rightarrow> paxos_out list" where
  "bcastAccept i r =
     (case lb_ptr r i of
        None \<Rightarrow> []
      | Some b \<Rightarrow>
          bcast (P_Accept \<lparr>ac_LeaderId = pId r, ac_Instance = i, ac_Ballot = lastTriedBallot b,
            ac_Command = cmds_list (lb_cmds b)\<rparr>) r)"

definition bcastCommit :: "int \<Rightarrow> int \<Rightarrow> command list option \<Rightarrow> paxos \<Rightarrow> paxos_out list" where
  "bcastCommit i ballot command r =
     bcast (P_CommitShort \<lparr>cs_LeaderId = pId r, cs_Instance = i,
       cs_Count = i32 (int (length (cmds_list command))), cs_Ballot = ballot\<rparr>) r"

text \<open>\<open>SendMsg\<close> to one replica: the mutex of a replica that does not exist is out of range.\<close>

definition send_to :: "int \<Rightarrow> paxos_msg \<Rightarrow> paxos \<Rightarrow> paxos_out list option" where
  "send_to p m r = (if 0 \<le> p \<and> p < int (pN r) then Some [P_SendTo p m] else None)"

subsection \<open>Starting\<close>

definition BeTheLeader_paxos :: "paxos \<Rightarrow> paxos" where
  "BeTheLeader_paxos r = r\<lparr>IsLeader := True, totalRecNum := 0, totalSendNum := 0\<rparr>"

definition New_paxos :: "int \<Rightarrow> nat \<Rightarrow> bool \<Rightarrow> int \<Rightarrow> paxos" where
  "New_paxos i n isLeader f =
     (let r = \<lparr>pId = i, pN = n, pF = f, IsLeader = isLeader, instanceSpace = (\<lambda>_. None), crtInstance = -1,
               maxRecvBallot = -1, defaultBallot = replicate n (-1), smallestDefaultBallot = -1,
               executedUpTo = -1, pbatchWait = 0, ponOff = True, pProposeChan = [], instancesToRecover = [],
               pAlive = replicate n False, pPeerOrder = map (\<lambda>k. (i + 1 + int k) smod int n) [0..<n],
               Dreply = True, Durable = False, StableStore = [], pState = InitState, totalRecNum = 0,
               totalSendNum = 0, timeout = 0, problemInstance = 0\<rparr>
      in if isLeader then BeTheLeader_paxos r else r)"

subsection \<open>Proposing\<close>

definition new_instance :: "command list option \<Rightarrow> int \<Rightarrow> InstanceStatus \<Rightarrow> LeaderBookkeeping option \<Rightarrow> Instance" where
  "new_instance cs b st l = \<lparr>cmds = cs, bal = b, vbal = b, status = st, lb = l\<rparr>"

definition handlePropose_paxos :: "GPropose \<Rightarrow> paxos \<Rightarrow> paxos_result" where
  "handlePropose_paxos p r =
     (if \<not> IsLeader r
      then Some (r, [P_Reply p \<lparr>OK = FALSE, CommandId = -1, Value = NIL, Timestamp = 0, LeaderId = 0, LogIndex = 0\<rparr>])
      else
        let proposals = p # pProposeChan r;
            cs = map (\<lambda>q. p_Command (Propose q)) proposals;
            i = i32 (crtInstance r + 1);
            r = r\<lparr>pProposeChan := [], crtInstance := i\<rparr>
        in do {
          d \<leftarrow> slice_get (defaultBallot r) (pId r);
          r \<leftarrow> inst_put i (new_instance None d PREPARING
            (Some \<lparr>clientProposals = Some proposals, prepareOKs = 0, acceptOKs = 0, nacks = 0, lb_ballot = pId r,
                   lb_cmds = None, lastTriedBallot = -1\<rparr>)) r;
          r \<leftarrow> makeBallot i r;
          x \<leftarrow> inst_ptr r i;
          b \<leftarrow> lb x;
          db \<leftarrow> slice_set (defaultBallot r) (pId r) (lastTriedBallot b);
          let r = r\<lparr>defaultBallot := db\<rparr>;
          if lastTriedBallot b \<noteq> smallestDefaultBallot r then Some (r, bcastPrepare i r)
          else do {
            r \<leftarrow> inst_put i (x\<lparr>cmds := Some cs, lb := Some (b\<lparr>lb_cmds := Some cs\<rparr>), bal := lastTriedBallot b,
                   vbal := lastTriedBallot b, status := ACCEPTED\<rparr>) r;
            Some (r, bcastAccept i r)
          }
        })"

subsection \<open>Acceptors\<close>

definition see_ballot :: "int \<Rightarrow> paxos \<Rightarrow> paxos" where
  "see_ballot b r = (if maxRecvBallot r < b then r\<lparr>maxRecvBallot := b\<rparr> else r)"

definition see_instance :: "int \<Rightarrow> paxos \<Rightarrow> paxos" where
  "see_instance i r = (if crtInstance r < i then r\<lparr>crtInstance := i\<rparr> else r)"

text \<open>The instance a message is about, created when the slot is empty.\<close>

definition touch_instance :: "int \<Rightarrow> paxos \<Rightarrow> (Instance \<times> paxos) option" where
  "touch_instance i r = do {
     slot \<leftarrow> inst_at r i;
     (case slot of
        Some x \<Rightarrow> Some (x, r)
      | None \<Rightarrow> do {
          d \<leftarrow> slice_get (defaultBallot r) (pId r);
          let x = new_instance None d PREPARING None;
          r \<leftarrow> inst_put i x (see_instance i r);
          Some (x, r)
        })
   }"

definition handlePrepare :: "Prepare \<Rightarrow> paxos \<Rightarrow> paxos_result" where
  "handlePrepare m r = do {
     (x, r) \<leftarrow> touch_instance (pr_Instance m) (see_ballot (pr_Ballot m) r);
     if status x = COMMITTED
     then do {
       outs \<leftarrow> send_to (pr_LeaderId m) (P_Commit \<lparr>co_LeaderId = pr_LeaderId m, co_Instance = pr_Instance m,
                 co_Ballot = vbal x, co_Command = cmds_list (cmds x)\<rparr>) r;
       Some (r, outs)
     }
     else do {
       (x, r) \<leftarrow> (if bal x < pr_Ballot m
         then do {
           let x = x\<lparr>bal := pr_Ballot m, status := PREPARED\<rparr>;
           r \<leftarrow> inst_put (pr_Instance m) x r;
           db \<leftarrow> (if crtInstance r = pr_Instance m then slice_set (defaultBallot r) (pId r) (pr_Ballot m)
                 else Some (defaultBallot r));
           Some (x, r\<lparr>defaultBallot := db\<rparr>)
         }
         else Some (x, r));
       d \<leftarrow> slice_get (defaultBallot r) (pId r);
       outs \<leftarrow> send_to (pr_LeaderId m) (P_PrepareReply \<lparr>prr_Instance = pr_Instance m, prr_Ballot = bal x,
                 prr_VBallot = vbal x, prr_DefaultBallot = d, prr_AcceptorId = pId r,
                 prr_Command = cmds_list (cmds x)\<rparr>) r;
       Some (r, outs)
     }
   }"

definition handleAccept :: "Accept \<Rightarrow> paxos \<Rightarrow> paxos_result" where
  "handleAccept m r = do {
     slot \<leftarrow> inst_at r (ac_Instance m);
     let r = see_ballot (ac_Ballot m) r;
     (x, r) \<leftarrow> (case slot of
         None \<Rightarrow> do {
           let x = new_instance (Some (ac_Command m)) (ac_Ballot m) ACCEPTED None;
           r \<leftarrow> inst_put (ac_Instance m) x (see_instance (ac_Instance m) r);
           Some (x, recordCommands (Some (ac_Command m)) (recordInstanceMetadata x r))
         }
       | Some x \<Rightarrow>
           if ac_Ballot m < bal x then Some (x, r)
           else if status x = COMMITTED then Some (x, r)
           else do {
             let x = x\<lparr>cmds := Some (ac_Command m), bal := ac_Ballot m, vbal := ac_Ballot m, status := ACCEPTED\<rparr>;
             r \<leftarrow> inst_put (ac_Instance m) x r;
             Some (x, recordCommands (Some (ac_Command m)) (recordInstanceMetadata x r))
           });
     outs \<leftarrow> send_to (ac_LeaderId m) (P_AcceptReply \<lparr>acr_Instance = ac_Instance m, acr_Ballot = bal x\<rparr>) r;
     Some (r, outs)
   }"

definition handleCommit :: "Commit \<Rightarrow> paxos \<Rightarrow> paxos_result" where
  "handleCommit m r = do {
     (x, r) \<leftarrow> touch_instance (co_Instance m) r;
     if status x = COMMITTED then Some (r, [])
     else if co_Ballot m < bal x then Some (r, [])
     else do {
       let (x, r) = (case lb x of
           None \<Rightarrow> (x, r)
         | Some b \<Rightarrow>
             (case clientProposals b of
                None \<Rightarrow> (x, r)
              | Some ps \<Rightarrow> (x\<lparr>lb := Some (b\<lparr>clientProposals := None\<rparr>)\<rparr>, r\<lparr>pProposeChan := pProposeChan r @ ps\<rparr>)));
       let x = x\<lparr>cmds := Some (co_Command m), bal := co_Ballot m, vbal := co_Ballot m, status := COMMITTED\<rparr>;
       r \<leftarrow> inst_put (co_Instance m) x r;
       Some (recordCommands (Some (co_Command m)) (recordInstanceMetadata x r), [])
     }
   }"

definition handleCommitShort :: "CommitShort \<Rightarrow> paxos \<Rightarrow> paxos_result" where
  "handleCommitShort m r = do {
     slot \<leftarrow> inst_at r (cs_Instance m);
     (case slot of
        None \<Rightarrow> Some (r, [])
      | Some x \<Rightarrow>
          if status x = COMMITTED then Some (r, [])
          else if cs_Ballot m < bal x then Some (r, [])
          else do {
            let x = x\<lparr>status := COMMITTED, bal := cs_Ballot m\<rparr>;
            r \<leftarrow> inst_put (cs_Instance m) x r;
            Some (recordCommands (cmds x) (recordInstanceMetadata x r), [])
          })
   }"

subsection \<open>Replies at the proposer\<close>

text \<open>The smallest default ballot known, and how many are known.\<close>

fun default_ballots :: "int list \<Rightarrow> int \<Rightarrow> int \<Rightarrow> int \<times> int" where
  "default_ballots [] m count = (m, count)"
| "default_ballots (e # es) m count =
     (if e \<noteq> -1 then default_ballots es (if e < m then e else m) (count + 1) else default_ballots es m count)"

definition read_quorum :: "paxos \<Rightarrow> int" where
  "read_quorum r = int (pN r) - pF r"

definition write_quorum :: "paxos \<Rightarrow> int" where
  "write_quorum r = pF r + 1"

text \<open>What happens once enough acceptors have answered; \<open>b\<close> is the bookkeeping so far.\<close>

definition start_accept :: "int \<Rightarrow> Instance \<Rightarrow> LeaderBookkeeping \<Rightarrow> paxos \<Rightarrow> paxos_result" where
  "start_accept i x b r =
     (let cs = (case clientProposals b of
                  Some ps \<Rightarrow> map (\<lambda>q. p_Command (Propose q)) ps
                | None \<Rightarrow> NOOP);
          b = b\<lparr>lb_cmds := Some cs\<rparr>;
          x = x\<lparr>lb := Some b, cmds := Some cs, bal := lastTriedBallot b, status := ACCEPTED\<rparr>
      in do {
        r \<leftarrow> inst_put i x r;
        let (m, count) = default_ballots (defaultBallot r) 2147483647 0;
        let r = (if read_quorum r - 1 \<le> count \<and> smallestDefaultBallot r < m
                 then r\<lparr>smallestDefaultBallot := m\<rparr> else r);
        let r = recordInstanceMetadata x r;
        let outs = bcastAccept i r;
        Some (if cs \<noteq> [] then r\<lparr>totalSendNum := i64 (totalSendNum r + int (length cs))\<rparr> else r, outs)
      })"

text \<open>A promise for the ballot that was tried last.\<close>

definition note_promise :: "PrepareReply \<Rightarrow> LeaderBookkeeping \<Rightarrow> LeaderBookkeeping" where
  "note_promise m b =
     (let b = (if lb_ballot b < prr_VBallot m
               then b\<lparr>lb_ballot := prr_VBallot m, lb_cmds := Some (prr_Command m)\<rparr> else b)
      in b\<lparr>prepareOKs := i64 (prepareOKs b + 1)\<rparr>)"

definition handle_promise :: "PrepareReply \<Rightarrow> Instance \<Rightarrow> LeaderBookkeeping \<Rightarrow> paxos \<Rightarrow> paxos_result" where
  "handle_promise m x b r =
     (let b = note_promise m b; x = x\<lparr>lb := Some b\<rparr>
      in do {
        r \<leftarrow> inst_put (prr_Instance m) x r;
        d \<leftarrow> slice_get (defaultBallot r) (prr_AcceptorId m);
        db \<leftarrow> (if d < prr_DefaultBallot m
              then slice_set (defaultBallot r) (prr_AcceptorId m) (prr_DefaultBallot m)
              else Some (defaultBallot r));
        let r = r\<lparr>defaultBallot := db,
          totalRecNum := (if prepareOKs b < read_quorum r \<and> prr_Command m \<noteq> []
             then i64 (totalRecNum r + int (length (prr_Command m))) else totalRecNum r)\<rparr>;
        if read_quorum r \<le> i64 (prepareOKs b + 1) then start_accept (prr_Instance m) x b r
        else Some (r, [])
      })"

definition handlePrepareReply :: "PrepareReply \<Rightarrow> paxos \<Rightarrow> paxos_result" where
  "handlePrepareReply m r = do {
     x \<leftarrow> inst_ptr r (prr_Instance m);
     let r = see_ballot (prr_Ballot m) r;
     b \<leftarrow> lb x;
     if prr_Ballot m < lastTriedBallot b then Some (r, [])
     else if lastTriedBallot b < prr_Ballot m then do {
       let b = b\<lparr>nacks := i64 (nacks b + 1)\<rparr>;
       r \<leftarrow> inst_put (prr_Instance m) (x\<lparr>lb := Some b\<rparr>) r;
       if int (pN r) div 2 < i64 (nacks b + 1) \<and> IsLeader r
       then do {
         r \<leftarrow> makeBallot (prr_Instance m) r;
         Some (r, bcastPrepare (prr_Instance m) r)
       }
       else Some (r, [])
     }
     else handle_promise m x b r
   }"

text \<open>The answers to the clients when commands are not executed first.\<close>

fun commit_replies :: "GPropose list \<Rightarrow> command list \<Rightarrow> nat \<Rightarrow> paxos_out list option" where
  "commit_replies ps [] i = Some []"
| "commit_replies ps (c # cs) i = do {
     p \<leftarrow> slice_get ps (int i);
     outs \<leftarrow> commit_replies ps cs (Suc i);
     Some (P_Reply p \<lparr>OK = TRUE, CommandId = p_CommandId (Propose p), Value = NIL,
       Timestamp = p_Timestamp (Propose p), LeaderId = 0, LogIndex = 0\<rparr> # outs)
   }"

definition handleAcceptReply :: "AcceptReply \<Rightarrow> paxos \<Rightarrow> paxos_result" where
  "handleAcceptReply m r = do {
     x \<leftarrow> inst_ptr r (acr_Instance m);
     let r = see_ballot (acr_Ballot m) r;
     if status x = COMMITTED then Some (r, [])
     else do {
       b \<leftarrow> lb x;
       if acr_Ballot m < lastTriedBallot b then Some (r, [])
       else if lastTriedBallot b < acr_Ballot m then do {
         let b = b\<lparr>nacks := i64 (nacks b + 1)\<rparr>;
         r \<leftarrow> inst_put (acr_Instance m) (x\<lparr>lb := Some b\<rparr>) r;
         if write_quorum r \<le> i64 (nacks b + 1) \<and> IsLeader r
         then do {
           r \<leftarrow> makeBallot (acr_Ballot m) r;
           Some (r, bcastPrepare (acr_Instance m) r)
         }
         else Some (r, [])
       }
       else do {
         let b = b\<lparr>acceptOKs := i64 (acceptOKs b + 1)\<rparr>;
         let x = x\<lparr>lb := Some b\<rparr>;
         r \<leftarrow> inst_put (acr_Instance m) x r;
         if write_quorum r \<le> i64 (acceptOKs b + 1)
         then do {
           let x = x\<lparr>status := COMMITTED\<rparr>;
           r \<leftarrow> inst_put (acr_Instance m) x r;
           let r = recordInstanceMetadata x r;
           let outs = bcastCommit (acr_Instance m) (bal x) (cmds x) r;
           reps \<leftarrow> (case clientProposals b of
               Some ps \<Rightarrow> if Dreply r then Some [] else commit_replies ps (cmds_list (cmds x)) 0
             | None \<Rightarrow> Some []);
           Some (r, outs @ reps)
         }
         else Some (r, [])
       }
     }
   }"

definition recover_paxos :: "int \<Rightarrow> paxos \<Rightarrow> paxos_result" where
  "recover_paxos i r = do {
     slot \<leftarrow> inst_at r i;
     r \<leftarrow> (case slot of
         Some _ \<Rightarrow> Some r
       | None \<Rightarrow> do {
           d \<leftarrow> slice_get (defaultBallot r) (pId r);
           inst_put i (new_instance None d PREPARING None) r
         });
     x \<leftarrow> inst_ptr r i;
     r \<leftarrow> (case lb x of
         Some _ \<Rightarrow> Some r
       | None \<Rightarrow> inst_put i (x\<lparr>lb := Some \<lparr>clientProposals = None, prepareOKs = 0, acceptOKs = 0, nacks = 0,
             lb_ballot = -1, lb_cmds = None, lastTriedBallot = -1\<rparr>\<rparr>) r);
     r \<leftarrow> makeBallot i r;
     Some (r, bcastPrepare i r)
   }"

subsection \<open>Execution\<close>

text \<open>The commands of one instance. A replica that has the proposals executes every command and
  answers; otherwise only the writes are executed.\<close>

fun exec_instance :: "bool \<Rightarrow> GPropose list option \<Rightarrow> command list \<Rightarrow> nat \<Rightarrow> kv_state \<Rightarrow>
    (kv_state \<times> paxos_out list) option" where
  "exec_instance dreply props [] j st = Some (st, [])"
| "exec_instance dreply props (c # cs) j st =
     (case (dreply, props) of
        (True, Some ps) \<Rightarrow> do {
          (v, st) \<leftarrow> Execute c st;
          p \<leftarrow> slice_get ps (int j);
          (st, outs) \<leftarrow> exec_instance dreply props cs (Suc j) st;
          Some (st, P_Reply p \<lparr>OK = TRUE, CommandId = p_CommandId (Propose p), Value = v,
            Timestamp = p_Timestamp (Propose p), LeaderId = 0, LogIndex = 0\<rparr> # outs)
        }
      | _ \<Rightarrow>
        if Op c = PUT then do {
          (v, st) \<leftarrow> Execute c st;
          exec_instance dreply props cs (Suc j) st
        }
        else exec_instance dreply props cs (Suc j) st)"

definition COMMIT_GRACE_PERIOD :: int where
  "COMMIT_GRACE_PERIOD = 3 * 1000000000"

definition SLEEP_TIME_NS :: int where
  "SLEEP_TIME_NS = 1000000"

text \<open>An instance that holds up the execution: after the grace period every instance from it on is
  put up for recovery.\<close>

definition stuck_at :: "int \<Rightarrow> paxos \<Rightarrow> paxos" where
  "stuck_at i r =
     (if i = problemInstance r
      then
        let r = r\<lparr>timeout := i64 (timeout r + SLEEP_TIME_NS)\<rparr>
        in if COMMIT_GRACE_PERIOD \<le> timeout r
           then r\<lparr>instancesToRecover := instancesToRecover r @ [problemInstance r..crtInstance r],
                  problemInstance := 0, timeout := 0\<rparr>
           else r
      else r\<lparr>problemInstance := i, timeout := 0\<rparr>)"

fun exec_loop :: "int list \<Rightarrow> paxos \<Rightarrow> paxos_result" where
  "exec_loop [] r = Some (r, [])"
| "exec_loop (i # is) r = do {
     slot \<leftarrow> inst_at r i;
     (case slot of
        Some x \<Rightarrow>
          (case (cmds x, status x) of
             (Some cs, COMMITTED) \<Rightarrow> do {
               (st, outs) \<leftarrow> exec_instance (Dreply r) (do { b \<leftarrow> lb x; clientProposals b }) cs 0 (pState r);
               (r, outs') \<leftarrow> exec_loop is (r\<lparr>pState := st, executedUpTo := i32 (executedUpTo r + 1)\<rparr>);
               Some (r, outs @ outs')
             }
           | _ \<Rightarrow> Some (stuck_at i r, []))
      | None \<Rightarrow> Some (stuck_at i r, []))
   }"

text \<open>One pass of the loop of \<open>executeCommands\<close>.\<close>

definition executeCommands_paxos :: "paxos \<Rightarrow> paxos_result" where
  "executeCommands_paxos r = exec_loop [executedUpTo r + 1..crtInstance r] r"

subsection \<open>The event loop\<close>

datatype paxos_event = PE_Propose | PE_FastClock | PE_Msg paxos_msg | PE_Recover | PE_Execute
  | PE_Enqueue GPropose | PE_BeTheLeader | PE_Peers "bool list" "int list"

fun handle_msg :: "paxos_msg \<Rightarrow> paxos \<Rightarrow> paxos_result" where
  "handle_msg (P_Prepare m) r = handlePrepare m r"
| "handle_msg (P_Accept m) r = handleAccept m r"
| "handle_msg (P_Commit m) r = handleCommit m r"
| "handle_msg (P_CommitShort m) r = handleCommitShort m r"
| "handle_msg (P_PrepareReply m) r = handlePrepareReply m r"
| "handle_msg (P_AcceptReply m) r = handleAcceptReply m r"

fun run_paxos :: "paxos_event \<Rightarrow> paxos \<Rightarrow> paxos_result" where
  "run_paxos PE_Propose r =
     (if \<not> ponOff r then Some (r, [])
      else case pProposeChan r of
        [] \<Rightarrow> Some (r, [])
      | p # ps \<Rightarrow> do {
          (r, outs) \<leftarrow> handlePropose_paxos p (r\<lparr>pProposeChan := ps\<rparr>);
          Some (if 0 < pbatchWait r then r\<lparr>ponOff := False\<rparr> else r, outs)
        })"
| "run_paxos PE_FastClock r = Some (if 0 < pbatchWait r then r\<lparr>ponOff := True\<rparr> else r, [])"
| "run_paxos (PE_Msg m) r = handle_msg m r"
| "run_paxos PE_Recover r =
     (case instancesToRecover r of
        [] \<Rightarrow> Some (r, [])
      | i # is \<Rightarrow> recover_paxos i (r\<lparr>instancesToRecover := is\<rparr>))"
| "run_paxos PE_Execute r = executeCommands_paxos r"
| "run_paxos (PE_Enqueue p) r = Some (r\<lparr>pProposeChan := pProposeChan r @ [p]\<rparr>, [])"
| "run_paxos PE_BeTheLeader r = Some (BeTheLeader_paxos r, [])"
| "run_paxos (PE_Peers alive order) r = Some (r\<lparr>pAlive := alive, pPeerOrder := order\<rparr>, [])"

end
