(* ===== verification/Paxos_Props.thy ===== *)
theory Paxos_Props
  imports Paxos
begin

section \<open>Correctness of the Paxos replica\<close>

text \<open>
  Ballots, acceptors and execution of one replica, and two behaviours of the proposer that break
  agreement: it crashes when an acceptor refuses its ballot, and it does not propose the value an
  acceptor has accepted, so that two replicas can commit different commands for one instance.
\<close>

subsection \<open>Ballots\<close>

lemma ballot_loop_next:
  assumes "0 < n" and "is_i32 b" and "d + n < 2147483648" and "m + n < 2147483648" and "b + n < 2147483648"
  shows "\<exists>k. ballot_loop n d m b = Some (b + int k * n) \<and> d \<le> b + int k * n \<and> m \<le> b + int k * n \<and>
    (k = 0 \<or> b + int k * n < max d m + n)"
  using assms
proof (induction "nat (max d m - b)" arbitrary: b rule: less_induct)
  case less
  show ?case
  proof (cases "b < d \<or> b < m")
    case False
    then show ?thesis by (intro exI [of _ 0]) (subst ballot_loop.simps, simp)
  next
    case True
    have i: "i32 (b + n) = b + n" using less.prems by (simp add: is_i32_def)
    show ?thesis
    proof (cases "b + n < d \<or> b + n < m")
      case more: True
      have "nat (max d m - (b + n)) < nat (max d m - b)" using True less.prems(1) by auto
      moreover have "is_i32 (b + n)" "b + n + n < 2147483648" using more less.prems by (auto simp: is_i32_def)
      ultimately obtain k where k: "ballot_loop n d m (b + n) = Some (b + n + int k * n)" "d \<le> b + n + int k * n"
          "m \<le> b + n + int k * n" "k = 0 \<or> b + n + int k * n < max d m + n"
        using less.hyps [of "b + n"] less.prems by blast
      have "ballot_loop n d m b = ballot_loop n d m (b + n)" using True i by (subst ballot_loop.simps) simp
      with k more show ?thesis by (intro exI [of _ "Suc k"]) (auto simp: algebra_simps)
    next
      case False
      have "ballot_loop n d m b = ballot_loop n d m (b + n)" using True i by (subst ballot_loop.simps) simp
      also have "\<dots> = Some (b + n)" using False by (subst ballot_loop.simps) simp
      finally show ?thesis using True False by (intro exI [of _ 1]) auto
    qed
  qed
qed

lemma inst_simps:
  "inst_at r i = Some s \<longleftrightarrow> 0 \<le> i \<and> i < space_size \<and> s = instanceSpace r i"
  "inst_put i x r = Some r' \<longleftrightarrow> 0 \<le> i \<and> i < space_size \<and> r' = r\<lparr>instanceSpace := (instanceSpace r)(i \<mapsto> x)\<rparr>"
  "inst_ptr r i = Some x \<longleftrightarrow> 0 \<le> i \<and> i < space_size \<and> instanceSpace r i = Some x"
  by (auto simp: inst_at_def inst_put_def inst_ptr_def)

lemma makeBallot_next:
  assumes x: "inst_ptr r i = Some x" "lb x = Some b" and lead: "IsLeader r"
    and id: "0 \<le> pId r" "pId r < int (pN r)" and db: "length (defaultBallot r) = pN r"
    and room: "defaultBallot r ! nat (pId r) + int (pN r) < 2147483648" "maxRecvBallot r + int (pN r) < 2147483648"
      "2 * int (pN r) < 2147483648"
  shows "\<exists>t. makeBallot i r =
      Some (r\<lparr>instanceSpace := (instanceSpace r)(i \<mapsto> x\<lparr>lb := Some (b\<lparr>lastTriedBallot := t\<rparr>)\<rparr>)\<rparr>) \<and>
    t mod int (pN r) = pId r \<and> defaultBallot r ! nat (pId r) \<le> t \<and> maxRecvBallot r \<le> t \<and>
    (t = pId r \<or> t < max (defaultBallot r ! nat (pId r)) (maxRecvBallot r) + int (pN r))"
proof -
  have g: "slice_get (defaultBallot r) (pId r) = Some (defaultBallot r ! nat (pId r))"
    using id db by (simp add: slice_get_def)
  have "is_i32 (pId r)" using id room(3) by (simp add: is_i32_def)
  with ballot_loop_next [of "int (pN r)" "pId r" "defaultBallot r ! nat (pId r)" "maxRecvBallot r"] id room
  obtain k where k: "ballot_loop (int (pN r)) (defaultBallot r ! nat (pId r)) (maxRecvBallot r) (pId r) =
        Some (pId r + int k * int (pN r))"
      "defaultBallot r ! nat (pId r) \<le> pId r + int k * int (pN r)" "maxRecvBallot r \<le> pId r + int k * int (pN r)"
      "k = 0 \<or> pId r + int k * int (pN r) < max (defaultBallot r ! nat (pId r)) (maxRecvBallot r) + int (pN r)"
    by auto
  have "inst_put i y r = Some (r\<lparr>instanceSpace := (instanceSpace r)(i \<mapsto> y)\<rparr>)" for y
    using x(1) by (simp add: inst_simps)
  with x k g lead show ?thesis
    using id by (intro exI [of _ "pId r + int k * int (pN r)"]) (auto simp: makeBallot_def)
qed

subsection \<open>Acceptors\<close>

text \<open>How an instance may change: its ballot does not decrease, and once committed it is final.\<close>

definition keeps :: "Instance \<Rightarrow> Instance \<Rightarrow> bool" where
  "keeps x y \<longleftrightarrow> bal x \<le> bal y \<and>
     (status x = COMMITTED \<longrightarrow> status y = COMMITTED \<and> cmds y = cmds x \<and> bal y = bal x \<and> vbal y = vbal x)"

definition kept :: "paxos \<Rightarrow> paxos \<Rightarrow> bool" where
  "kept r r' \<longleftrightarrow> (\<forall>i x. instanceSpace r i = Some x \<longrightarrow> (\<exists>y. instanceSpace r' i = Some y \<and> keeps x y))"

text \<open>What every event does to the set of instances and the instances put up for recovery.\<close>

definition grow :: "paxos \<Rightarrow> paxos \<Rightarrow> bool" where
  "grow r r' \<longleftrightarrow> crtInstance r \<le> crtInstance r' \<and> (crtInstance r' = crtInstance r \<or> crtInstance r' < space_size) \<and>
     (\<forall>i. instanceSpace r' i \<noteq> None \<longrightarrow> instanceSpace r i \<noteq> None \<or> i \<le> crtInstance r') \<and>
     set (instancesToRecover r') \<subseteq> set (instancesToRecover r) \<union> {i. i \<le> crtInstance r'}"

lemma keeps_refl [simp]: "keeps x x"
  by (simp add: keeps_def)

lemma kept_refl [simp]: "kept r r"
  by (simp add: kept_def)

lemma keeps_trans: "keeps x y \<Longrightarrow> keeps y z \<Longrightarrow> keeps x z"
  by (auto simp: keeps_def)

lemma kept_trans: "kept a b \<Longrightarrow> kept b c \<Longrightarrow> kept a c"
  unfolding kept_def by (metis keeps_trans)

lemma grow_refl [simp]: "grow r r"
  by (auto simp: grow_def)

lemma grow_trans: "grow a b \<Longrightarrow> grow b c \<Longrightarrow> grow a c"
proof -
  assume g: "grow a b" "grow b c"
  have le: "crtInstance b \<le> crtInstance c" using g(2) by (simp add: grow_def)
  have "instanceSpace a i \<noteq> None \<or> i \<le> crtInstance c" if "instanceSpace c i \<noteq> None" for i
  proof -
    have "instanceSpace b i \<noteq> None \<or> i \<le> crtInstance c" using g(2) that unfolding grow_def by blast
    then have "instanceSpace a i \<noteq> None \<or> i \<le> crtInstance b \<or> i \<le> crtInstance c"
      using g(1) unfolding grow_def by blast
    with le show ?thesis by linarith
  qed
  moreover have "set (instancesToRecover c) \<subseteq> set (instancesToRecover a) \<union> {i. i \<le> crtInstance c}"
    using g le unfolding grow_def by auto
  ultimately show ?thesis using g unfolding grow_def by auto
qed

lemma kept_same: "instanceSpace r' = instanceSpace r \<Longrightarrow> kept r r'"
  by (simp add: kept_def)

lemma grow_same:
  "instanceSpace r' = instanceSpace r \<Longrightarrow> crtInstance r' = crtInstance r \<Longrightarrow>
     instancesToRecover r' = instancesToRecover r \<Longrightarrow> grow r r'"
  by (auto simp: grow_def)

lemma kept_put:
  "(\<And>x. instanceSpace r i = Some x \<Longrightarrow> keeps x y) \<Longrightarrow> instanceSpace r' = (instanceSpace r)(i \<mapsto> y) \<Longrightarrow> kept r r'"
  by (auto simp: kept_def)

lemma grow_put:
  "instanceSpace r i \<noteq> None \<or> i \<le> crtInstance r \<Longrightarrow> instanceSpace r' = (instanceSpace r)(i \<mapsto> y) \<Longrightarrow>
     crtInstance r' = crtInstance r \<Longrightarrow> instancesToRecover r' = instancesToRecover r \<Longrightarrow> grow r r'"
  by (auto simp: grow_def)

lemma record_fields [simp]:
  "instanceSpace (recordInstanceMetadata x r) = instanceSpace r" "crtInstance (recordInstanceMetadata x r) = crtInstance r"
  "instancesToRecover (recordInstanceMetadata x r) = instancesToRecover r"
  "instanceSpace (recordCommands c r) = instanceSpace r" "crtInstance (recordCommands c r) = crtInstance r"
  "instancesToRecover (recordCommands c r) = instancesToRecover r"
  by (simp_all add: recordInstanceMetadata_def recordCommands_def)

lemma see_fields [simp]:
  "instanceSpace (see_ballot b r) = instanceSpace r" "crtInstance (see_ballot b r) = crtInstance r"
  "instancesToRecover (see_ballot b r) = instancesToRecover r"
  "instanceSpace (see_instance i r) = instanceSpace r" "crtInstance (see_instance i r) = max (crtInstance r) i"
  "instancesToRecover (see_instance i r) = instancesToRecover r"
  by (simp_all add: see_ballot_def see_instance_def)

lemma makeBallot_kept:
  assumes "makeBallot i r = Some r'"
  shows "kept r r' \<and> grow r r'"
proof -
  from assms obtain x b n where x: "inst_ptr r i = Some x" "lb x = Some b"
      "r' = r\<lparr>instanceSpace := (instanceSpace r)(i \<mapsto> x\<lparr>lb := Some (b\<lparr>lastTriedBallot := n\<rparr>)\<rparr>)\<rparr>"
    by (auto simp: makeBallot_def inst_simps Option.bind_eq_Some_conv split: if_splits)
  then have "instanceSpace r i = Some x" by (simp add: inst_simps)
  with x(3) show ?thesis
    by (intro conjI kept_put [of r i "x\<lparr>lb := Some (b\<lparr>lastTriedBallot := n\<rparr>)\<rparr>"]
        grow_put [of r i _ "x\<lparr>lb := Some (b\<lparr>lastTriedBallot := n\<rparr>)\<rparr>"])
      (auto simp: keeps_def)
qed

lemma touch_instance_kept:
  assumes "touch_instance i r = Some (x, r')"
  shows "kept r r' \<and> grow r r' \<and> instanceSpace r' i = Some x \<and> 0 \<le> i \<and> i < space_size"
proof (cases "instanceSpace r i")
  case None
  with assms obtain d where x: "x = new_instance None d PREPARING None"
      "r' = (see_instance i r)\<lparr>instanceSpace := (instanceSpace r)(i \<mapsto> x)\<rparr>" "0 \<le> i" "i < space_size"
    by (auto simp: touch_instance_def inst_simps Option.bind_eq_Some_conv Let_def)
  have "kept r r'" by (rule kept_put [of _ i x]) (use None x(2) in auto)
  moreover have "grow r r'" unfolding grow_def x(2) using x(3,4) by (auto simp: space_size_def max_def)
  ultimately show ?thesis using x by simp
qed (use assms in \<open>auto simp: touch_instance_def inst_simps Option.bind_eq_Some_conv\<close>)

lemma handlePrepare_kept:
  assumes "handlePrepare m r = Some (r', outs)"
  shows "kept r r' \<and> grow r r'"
proof -
  let ?r = "see_ballot (pr_Ballot m) r" and ?i = "pr_Instance m"
  from assms obtain x r1 where t: "touch_instance ?i ?r = Some (x, r1)"
    by (auto simp: handlePrepare_def Option.bind_eq_Some_conv)
  note t' = touch_instance_kept [OF t]
  have "kept r ?r" "grow r ?r" by (auto intro: kept_same grow_same)
  with t' have k1: "kept r r1" "grow r r1" by (auto intro: kept_trans grow_trans)
  have "kept r1 r' \<and> grow r1 r'"
  proof (cases "status x \<noteq> COMMITTED \<and> bal x < pr_Ballot m")
    case True
    with assms t obtain db where r': "r' = r1\<lparr>instanceSpace := (instanceSpace r1)(?i \<mapsto>
        x\<lparr>bal := pr_Ballot m, status := PREPARED\<rparr>), defaultBallot := db\<rparr>"
      by (auto simp: handlePrepare_def Option.bind_eq_Some_conv inst_simps Let_def)
    have "kept r1 r'" by (rule kept_put [of _ ?i "x\<lparr>bal := pr_Ballot m, status := PREPARED\<rparr>"])
        (use True t' r' in \<open>auto simp: keeps_def\<close>)
    moreover have "grow r1 r'" by (rule grow_put [of _ ?i _ "x\<lparr>bal := pr_Ballot m, status := PREPARED\<rparr>"])
        (use t' r' in auto)
    ultimately show ?thesis ..
  next
    case False
    with assms t have "r' = r1"
      by (auto simp: handlePrepare_def Option.bind_eq_Some_conv split: if_splits)
    then show ?thesis by simp
  qed
  with k1 show ?thesis by (auto intro: kept_trans grow_trans)
qed

lemma handleAccept_kept:
  assumes "handleAccept m r = Some (r', outs)"
  shows "kept r r' \<and> grow r r'"
proof (cases "instanceSpace r (ac_Instance m)")
  case None
  let ?x = "new_instance (Some (ac_Command m)) (ac_Ballot m) ACCEPTED None" and ?i = "ac_Instance m"
  have r': "instanceSpace r' = (instanceSpace r)(?i \<mapsto> ?x)" "crtInstance r' = max (crtInstance r) ?i"
      "instancesToRecover r' = instancesToRecover r" "?i < space_size"
    using assms None by (auto simp: handleAccept_def Option.bind_eq_Some_conv inst_simps Let_def)
  have "kept r r'" by (rule kept_put [of _ ?i ?x]) (use None r' in auto)
  moreover have "grow r r'" unfolding grow_def using r' by (auto simp: max_def)
  ultimately show ?thesis ..
next
  case (Some x)
  let ?i = "ac_Instance m"
  let ?y = "x\<lparr>cmds := Some (ac_Command m), bal := ac_Ballot m, vbal := ac_Ballot m, status := ACCEPTED\<rparr>"
  show ?thesis
  proof (cases "ac_Ballot m < bal x \<or> status x = COMMITTED")
    case True
    with assms Some have "r' = see_ballot (ac_Ballot m) r"
      by (auto simp: handleAccept_def Option.bind_eq_Some_conv inst_simps Let_def split: if_splits)
    then show ?thesis by (auto intro: kept_same grow_same)
  next
    case False
    with assms Some have r': "instanceSpace r' = (instanceSpace r)(?i \<mapsto> ?y)" "crtInstance r' = crtInstance r"
        "instancesToRecover r' = instancesToRecover r"
      by (auto simp: handleAccept_def Option.bind_eq_Some_conv inst_simps Let_def split: if_splits)
    then show ?thesis using False Some
      by (intro conjI kept_put [of r ?i ?y] grow_put [of r ?i _ ?y]) (auto simp: keeps_def)
  qed
qed

lemma handleCommit_kept:
  assumes "handleCommit m r = Some (r', outs)"
  shows "kept r r' \<and> grow r r'"
proof -
  let ?i = "co_Instance m"
  from assms obtain x r1 where t: "touch_instance ?i r = Some (x, r1)"
    by (auto simp: handleCommit_def Option.bind_eq_Some_conv)
  note t' = touch_instance_kept [OF t]
  have "kept r1 r' \<and> grow r1 r'"
  proof (cases "status x = COMMITTED \<or> co_Ballot m < bal x")
    case True
    with assms t have "r' = r1"
      by (auto simp: handleCommit_def Option.bind_eq_Some_conv split: if_splits)
    then show ?thesis by simp
  next
    case False
    define l where "l = (case lb x of None \<Rightarrow> None | Some b \<Rightarrow> Some (b\<lparr>clientProposals := None\<rparr>))"
    let ?y = "x\<lparr>lb := l, cmds := Some (co_Command m), bal := co_Ballot m, vbal := co_Ballot m, status := COMMITTED\<rparr>"
    have r': "instanceSpace r' = (instanceSpace r1)(?i \<mapsto> ?y)" "crtInstance r' = crtInstance r1"
        "instancesToRecover r' = instancesToRecover r1"
      using assms t False
      by (auto simp: handleCommit_def Option.bind_eq_Some_conv inst_simps Let_def l_def split: option.splits)
    then show ?thesis using False t'
      by (intro conjI kept_put [of r1 ?i ?y] grow_put [of r1 ?i _ ?y]) (auto simp: keeps_def)
  qed
  with t' show ?thesis by (auto intro: kept_trans grow_trans)
qed

lemma handleCommitShort_kept:
  assumes "handleCommitShort m r = Some (r', outs)"
  shows "kept r r' \<and> grow r r'"
proof (cases "instanceSpace r (cs_Instance m)")
  case None
  with assms show ?thesis by (auto simp: handleCommitShort_def Option.bind_eq_Some_conv inst_simps)
next
  case (Some x)
  let ?i = "cs_Instance m" and ?y = "x\<lparr>status := COMMITTED, bal := cs_Ballot m\<rparr>"
  show ?thesis
  proof (cases "status x = COMMITTED \<or> cs_Ballot m < bal x")
    case True
    with assms Some show ?thesis
      by (auto simp: handleCommitShort_def Option.bind_eq_Some_conv inst_simps split: if_splits)
  next
    case False
    with assms Some have r': "instanceSpace r' = (instanceSpace r)(?i \<mapsto> ?y)" "crtInstance r' = crtInstance r"
        "instancesToRecover r' = instancesToRecover r"
      by (auto simp: handleCommitShort_def Option.bind_eq_Some_conv inst_simps Let_def split: if_splits)
    then show ?thesis using False Some
      by (intro conjI kept_put [of r ?i ?y] grow_put [of r ?i _ ?y]) (auto simp: keeps_def)
  qed
qed

lemma put_lb_kept:
  assumes "inst_ptr r i = Some x" and "inst_put i (x\<lparr>lb := l\<rparr>) r = Some r'"
  shows "kept r r' \<and> grow r r'"
  using assms
  by (intro conjI kept_put [of r i "x\<lparr>lb := l\<rparr>"] grow_put [of r i _ "x\<lparr>lb := l\<rparr>"]) (auto simp: inst_simps keeps_def)

lemma kept_grow_trans: "kept a b \<and> grow a b \<Longrightarrow> kept b c \<and> grow b c \<Longrightarrow> kept a c \<and> grow a c"
  by (blast intro: kept_trans grow_trans)

lemma see_ballot_kept: "kept r (see_ballot b r) \<and> grow r (see_ballot b r)"
  by (auto intro: kept_same grow_same)

lemma inst_ptr_see [simp]: "inst_ptr (see_ballot b r) i = inst_ptr r i"
  by (simp add: inst_ptr_def inst_at_def)

lemma handleAcceptReply_kept:
  assumes "handleAcceptReply m r = Some (r', outs)"
  shows "kept r r' \<and> grow r r'"
proof -
  let ?i = "acr_Instance m" and ?r = "see_ballot (acr_Ballot m) r"
  from assms obtain x where x: "inst_ptr r ?i = Some x"
    by (auto simp: handleAcceptReply_def Option.bind_eq_Some_conv)
  then have x': "inst_ptr ?r ?i = Some x" by simp
  have "kept ?r r' \<and> grow ?r r'"
  proof (cases "status x = COMMITTED")
    case True
    with assms x have "r' = ?r" by (auto simp: handleAcceptReply_def)
    then show ?thesis by simp
  next
    case opn: False
    with assms x obtain b where b: "lb x = Some b"
      by (auto simp: handleAcceptReply_def Option.bind_eq_Some_conv Let_def)
    consider (old) "acr_Ballot m < lastTriedBallot b" | (nack) "lastTriedBallot b < acr_Ballot m"
      | (ok) "acr_Ballot m = lastTriedBallot b" by linarith
    then show ?thesis
    proof cases
      case old
      with assms x b opn have "r' = ?r" by (auto simp: handleAcceptReply_def Let_def)
      then show ?thesis by simp
    next
      case nack
      with assms x b opn obtain r1 where r1: "inst_put ?i (x\<lparr>lb := Some (b\<lparr>nacks := i64 (nacks b + 1)\<rparr>)\<rparr>) ?r = Some r1"
          "r' = r1 \<or> makeBallot (acr_Ballot m) r1 = Some r'"
        by (auto simp: handleAcceptReply_def Option.bind_eq_Some_conv Let_def split: if_splits)
      from kept_grow_trans [OF put_lb_kept [OF x' r1(1)]] r1(2) show ?thesis
        using put_lb_kept [OF x' r1(1)] makeBallot_kept by blast
    next
      case ok
      let ?b = "b\<lparr>acceptOKs := i64 (acceptOKs b + 1)\<rparr>"
      let ?y = "x\<lparr>lb := Some ?b, status := COMMITTED\<rparr>"
      from ok assms x b opn obtain r1 where r1: "inst_put ?i (x\<lparr>lb := Some ?b\<rparr>) ?r = Some r1"
          "r' = r1 \<or> (\<exists>r2. inst_put ?i ?y r1 = Some r2 \<and> r' = recordInstanceMetadata ?y r2)"
        by (auto simp: handleAcceptReply_def Option.bind_eq_Some_conv Let_def split: if_splits)
      have "kept r1 r' \<and> grow r1 r'" if "inst_put ?i ?y r1 = Some r2" "r' = recordInstanceMetadata ?y r2" for r2
        using that r1(1) opn
        by (intro conjI kept_put [of r1 ?i ?y] grow_put [of r1 ?i _ ?y]) (auto simp: inst_simps keeps_def)
      with r1(2) put_lb_kept [OF x' r1(1)] show ?thesis using kept_grow_trans by blast
    qed
  qed
  with see_ballot_kept show ?thesis using kept_grow_trans by blast
qed

lemma handlePropose_kept:
  assumes run: "handlePropose_paxos p r = Some (r', outs)" and dom: "\<And>i. instanceSpace r i \<noteq> None \<Longrightarrow> i \<le> crtInstance r"
    and crt: "is_i32 (crtInstance r)" "- 1 \<le> crtInstance r"
  shows "kept r r' \<and> grow r r'"
proof (cases "IsLeader r")
  case True
  let ?i = "i32 (crtInstance r + 1)"
  let ?r = "r\<lparr>pProposeChan := [], crtInstance := ?i\<rparr>"
  from run True obtain y r1 r2 b x db where 0: "inst_put ?i y ?r = Some r1" "makeBallot ?i r1 = Some r2"
      "inst_ptr r2 ?i = Some x" "lb x = Some b"
      "r' = r2\<lparr>defaultBallot := db\<rparr> \<or> (\<exists>z. inst_put ?i z (r2\<lparr>defaultBallot := db\<rparr>) = Some r')"
    unfolding handlePropose_paxos_def Let_def
    by (simp only: Option.bind_eq_Some_conv if_True if_False not_True_eq_False simp_thms prod.inject option.inject
        split: if_splits) blast+
  have 1: "inst_put ?i y ?r = Some r1" "makeBallot ?i r1 = Some r2" "inst_ptr r2 ?i = Some x" "lb x = Some b"
      "instanceSpace r' = instanceSpace r2 \<or> (\<exists>z. instanceSpace r' = (instanceSpace r2)(?i \<mapsto> z))"
      "crtInstance r' = crtInstance r2" "instancesToRecover r' = instancesToRecover r2"
    using 0 by (auto simp: inst_simps)
  have i: "?i = crtInstance r + 1"
  proof (cases "crtInstance r < 2147483647")
    case False
    then have "crtInstance r = 2147483647" using crt(1) by (simp add: is_i32_def)
    then have "?i = - 2147483648" by (simp add: i32_def)
    then show ?thesis using 1(1) by (simp add: inst_simps)
  qed (use crt in \<open>simp add: i32_add_one\<close>)
  then have fresh: "instanceSpace r ?i = None" using dom [of ?i] by fastforce
  have r1: "r1 = ?r\<lparr>instanceSpace := (instanceSpace r)(?i \<mapsto> y)\<rparr>" "?i < space_size" using 1(1) by (auto simp: inst_simps)
  have g1: "grow r r1" unfolding grow_def r1(1) using r1(2) i by auto
  have g2: "grow r1 r2" using makeBallot_kept [OF 1(2)] by blast
  have g3: "grow r2 r'" using 1(5)
  proof (elim disjE exE)
    fix z
    assume "instanceSpace r' = (instanceSpace r2)(?i \<mapsto> z)"
    with 1(3,6,7) show ?thesis by (intro grow_put [of r2 ?i r' z]) (simp_all add: inst_simps)
  qed (use 1(6,7) in \<open>auto intro: grow_same\<close>)
  have same: "instanceSpace r2 j = instanceSpace r j" if "j \<noteq> ?i" for j
    using 1(2) that r1(1) by (auto simp: makeBallot_def Option.bind_eq_Some_conv inst_simps split: if_splits)
  have "instanceSpace r' j = instanceSpace r j" if "j \<noteq> ?i" for j
    using 1(5) same [OF that] that by auto
  then have "kept r r'" using fresh unfolding kept_def by (metis keeps_refl option.distinct(1))
  with g1 g2 g3 show ?thesis using grow_trans by blast
qed (use run in \<open>auto simp: handlePropose_paxos_def\<close>)

lemma recover_kept:
  assumes run: "recover_paxos i r = Some (r', outs)" and i: "i \<le> crtInstance r"
  shows "kept r r' \<and> grow r r'"
proof -
  let ?new = "\<lambda>d. new_instance None d PREPARING None"
  let ?lb = "\<lparr>clientProposals = None, prepareOKs = 0, acceptOKs = 0, nacks = 0, lb_ballot = -1,
     lb_cmds = None, lastTriedBallot = -1\<rparr>"
  from run obtain r1 x r2 where
    1: "(case instanceSpace r i of Some _ \<Rightarrow> Some r
        | None \<Rightarrow> slice_get (defaultBallot r) (pId r) \<bind> (\<lambda>d. inst_put i (?new d) r)) = Some r1"
    and 2: "inst_ptr r1 i = Some x"
      "(case lb x of Some _ \<Rightarrow> Some r1 | None \<Rightarrow> inst_put i (x\<lparr>lb := Some ?lb\<rparr>) r1) = Some r2"
    and 3: "makeBallot i r2 = Some r'"
    unfolding recover_paxos_def by (auto simp: Option.bind_eq_Some_conv inst_simps(1))
  have "kept r r1 \<and> grow r r1"
  proof (cases "instanceSpace r i")
    case None
    with 1 obtain d where "r1 = r\<lparr>instanceSpace := (instanceSpace r)(i \<mapsto> ?new d)\<rparr>"
      by (auto simp: Option.bind_eq_Some_conv inst_simps)
    with None i show ?thesis
      by (intro conjI kept_put [of r i "?new d"] grow_put [of r i _ "?new d"]) auto
  qed (use 1 in simp)
  moreover have "kept r1 r2 \<and> grow r1 r2"
    using 2 put_lb_kept [OF 2(1)] by (cases "lb x") auto
  ultimately show ?thesis using makeBallot_kept [OF 3] kept_grow_trans by blast
qed

lemma exec_loop_kept:
  "exec_loop is r = Some (r', outs) \<Longrightarrow> instanceSpace r' = instanceSpace r \<and> crtInstance r' = crtInstance r \<and>
     set (instancesToRecover r') \<subseteq> set (instancesToRecover r) \<union> {i. i \<le> crtInstance r}"
proof (induction "is" arbitrary: r r' outs)
  case (Cons i "is")
  have stuck: "instanceSpace (stuck_at i r) = instanceSpace r \<and> crtInstance (stuck_at i r) = crtInstance r \<and>
     set (instancesToRecover (stuck_at i r)) \<subseteq> set (instancesToRecover r) \<union> {i. i \<le> crtInstance r}"
    by (auto simp: stuck_at_def Let_def)
  show ?case
  proof (cases "\<exists>x cs. instanceSpace r i = Some x \<and> cmds x = Some cs \<and> status x = COMMITTED")
    case True
    then obtain x cs where x: "instanceSpace r i = Some x" "cmds x = Some cs" "status x = COMMITTED" by blast
    with Cons.prems obtain st o1 o2 where e: "0 \<le> i" "i < space_size"
      "exec_instance (Dreply r) (do { b \<leftarrow> lb x; clientProposals b }) cs 0 (pState r) = Some (st, o1)"
      "exec_loop is (r\<lparr>pState := st, executedUpTo := i32 (executedUpTo r + 1)\<rparr>) = Some (r', o2)"
      by (auto simp: Option.bind_eq_Some_conv inst_simps)
    from Cons.IH [OF e(4)] show ?thesis by simp
  next
    case False
    with Cons.prems have "r' = stuck_at i r"
      by (auto simp: Option.bind_eq_Some_conv inst_simps split: option.splits InstanceStatus.splits)
    with stuck show ?thesis by simp
  qed
qed simp

lemma start_accept_grow:
  assumes "instanceSpace r i \<noteq> None" and "start_accept i x b r = Some (r', outs)"
  shows "grow r r'"
proof -
  let ?P = "\<lambda>r'. (\<exists>y. instanceSpace r' = (instanceSpace r)(i \<mapsto> y)) \<and> crtInstance r' = crtInstance r \<and>
    instancesToRecover r' = instancesToRecover r"
  have "?P r'"
    using assms(2) by (auto simp: start_accept_def Let_def Option.bind_eq_Some_conv inst_simps split: if_splits prod.splits)
  then show ?thesis using assms(1) by (auto intro: grow_put)
qed

lemma handlePrepareReply_grow:
  assumes "handlePrepareReply m r = Some (r', outs)"
  shows "grow r r'"
proof -
  let ?i = "prr_Instance m" and ?r = "see_ballot (prr_Ballot m) r"
  from assms obtain x b where x: "inst_ptr r ?i = Some x" "lb x = Some b"
    by (auto simp: handlePrepareReply_def Option.bind_eq_Some_conv Let_def)
  have dom: "instanceSpace r ?i = Some x" using x(1) by (simp add: inst_simps)
  consider (old) "prr_Ballot m < lastTriedBallot b" | (nack) "lastTriedBallot b < prr_Ballot m"
    | (ok) "prr_Ballot m = lastTriedBallot b" by linarith
  then have "grow ?r r'"
  proof cases
    case old
    with assms x show ?thesis by (auto simp: handlePrepareReply_def Let_def)
  next
    case nack
    with assms x obtain r1 where r1: "inst_put ?i (x\<lparr>lb := Some (b\<lparr>nacks := i64 (nacks b + 1)\<rparr>)\<rparr>) ?r = Some r1"
        "r' = r1 \<or> makeBallot ?i r1 = Some r'"
      by (auto simp: handlePrepareReply_def Option.bind_eq_Some_conv Let_def split: if_splits)
    have "inst_ptr ?r ?i = Some x" using x(1) by simp
    from put_lb_kept [OF this r1(1)] r1(2) show ?thesis using makeBallot_kept grow_trans by blast
  next
    case ok
    let ?c = "note_promise m b"
    from ok assms x have "handle_promise m x b ?r = Some (r', outs)" by (simp add: handlePrepareReply_def Let_def)
    then obtain r1 db n where r1: "inst_put ?i (x\<lparr>lb := Some ?c\<rparr>) ?r = Some r1"
        "r' = r1\<lparr>defaultBallot := db, totalRecNum := n\<rparr> \<or>
         start_accept ?i (x\<lparr>lb := Some ?c\<rparr>) ?c (r1\<lparr>defaultBallot := db, totalRecNum := n\<rparr>) = Some (r', outs)"
      unfolding handle_promise_def Let_def by (auto simp only: Option.bind_eq_Some_conv prod.inject option.inject split: if_splits)
    have "inst_ptr ?r ?i = Some x" using x(1) by simp
    then have g: "grow ?r r1" using put_lb_kept [OF _ r1(1)] by blast
    let ?r1 = "r1\<lparr>defaultBallot := db, totalRecNum := n\<rparr>"
    have g1: "grow r1 ?r1" by (rule grow_same) simp_all
    have "instanceSpace ?r1 ?i \<noteq> None" using r1(1) by (simp add: inst_simps)
    from r1(2) start_accept_grow [OF this] have "grow ?r1 r'" by (elim disjE) (simp, blast)
    with g g1 show ?thesis using grow_trans by blast
  qed
  then show ?thesis using see_ballot_kept grow_trans by blast
qed

text \<open>The states a replica can be in.\<close>

inductive paxos_reach :: "nat \<Rightarrow> paxos \<Rightarrow> bool" for n where
  new: "0 \<le> i \<Longrightarrow> i < int n \<Longrightarrow> paxos_reach n (New_paxos i n isLeader f)"
| step: "paxos_reach n r \<Longrightarrow> run_paxos ev r = Some (r', outs) \<Longrightarrow> paxos_reach n r'"

definition paxos_inv :: "paxos \<Rightarrow> bool" where
  "paxos_inv r \<longleftrightarrow> - 1 \<le> crtInstance r \<and> crtInstance r < space_size \<and>
     (\<forall>i. instanceSpace r i \<noteq> None \<longrightarrow> i \<le> crtInstance r) \<and> (\<forall>i \<in> set (instancesToRecover r). i \<le> crtInstance r)"

fun is_prepare_reply :: "paxos_event \<Rightarrow> bool" where
  "is_prepare_reply (PE_Msg (P_PrepareReply m)) = True"
| "is_prepare_reply _ = False"

lemma paxos_inv_grow: "paxos_inv r \<Longrightarrow> grow r r' \<Longrightarrow> paxos_inv r'"
proof -
  assume i: "paxos_inv r" and g: "grow r r'"
  have "i \<le> crtInstance r'" if "instanceSpace r' i \<noteq> None" for i
  proof -
    have "instanceSpace r i \<noteq> None \<or> i \<le> crtInstance r'" using g that unfolding grow_def by blast
    moreover have "i \<le> crtInstance r" if "instanceSpace r i \<noteq> None" using i that unfolding paxos_inv_def by blast
    ultimately show ?thesis using g unfolding grow_def by linarith
  qed
  moreover have "i \<le> crtInstance r'" if "i \<in> set (instancesToRecover r')" for i
    using i g that unfolding paxos_inv_def grow_def by fastforce
  ultimately show ?thesis using i g unfolding paxos_inv_def grow_def by auto
qed

lemma run_paxos_kept:
  assumes run: "run_paxos ev r = Some (r', outs)" and inv: "paxos_inv r"
  shows "grow r r' \<and> (\<not> is_prepare_reply ev \<longrightarrow> kept r r')"
proof (cases ev)
  case PE_Propose
  show ?thesis
  proof (cases "ponOff r \<and> pProposeChan r \<noteq> []")
    case True
    then obtain p ps where q: "pProposeChan r = p # ps" by (cases "pProposeChan r") auto
    with run True PE_Propose obtain r1 where h: "handlePropose_paxos p (r\<lparr>pProposeChan := ps\<rparr>) = Some (r1, outs)"
        "r' = (if 0 < pbatchWait r1 then r1\<lparr>ponOff := False\<rparr> else r1)"
      by (auto simp: Option.bind_eq_Some_conv)
    have "is_i32 (crtInstance r)" using inv by (simp add: paxos_inv_def is_i32_def space_size_def)
    with handlePropose_kept [OF h(1)] inv have "kept (r\<lparr>pProposeChan := ps\<rparr>) r1 \<and> grow (r\<lparr>pProposeChan := ps\<rparr>) r1"
      by (simp add: paxos_inv_def)
    moreover have "kept r (r\<lparr>pProposeChan := ps\<rparr>) \<and> grow r (r\<lparr>pProposeChan := ps\<rparr>)" by (auto intro: kept_same grow_same)
    moreover have "kept r1 r' \<and> grow r1 r'" using h(2) by (auto intro: kept_same grow_same)
    ultimately show ?thesis using kept_grow_trans by blast
  qed (use run PE_Propose in \<open>auto split: if_splits list.splits\<close>)
next
  case (PE_Msg m)
  with run show ?thesis
    by (cases m) (auto dest: handlePrepare_kept handleAccept_kept handleCommit_kept handleCommitShort_kept
      handleAcceptReply_kept handlePrepareReply_grow)
next
  case PE_Recover
  show ?thesis
  proof (cases "instancesToRecover r")
    case (Cons i "is")
    let ?r = "r\<lparr>instancesToRecover := is\<rparr>"
    have "recover_paxos i ?r = Some (r', outs)" "i \<le> crtInstance ?r"
      using run PE_Recover Cons inv by (simp_all add: paxos_inv_def)
    from recover_kept [OF this] have "kept ?r r' \<and> grow ?r r'" .
    moreover have "kept r ?r \<and> grow r ?r" using Cons by (auto simp: kept_def grow_def)
    ultimately show ?thesis using kept_grow_trans by blast
  qed (use run PE_Recover in simp)
next
  case PE_Execute
  with run have "exec_loop [executedUpTo r + 1..crtInstance r] r = Some (r', outs)" by (simp add: executeCommands_paxos_def)
  from exec_loop_kept [OF this] show ?thesis by (auto simp: kept_def grow_def)
qed (use run in \<open>auto simp: BeTheLeader_paxos_def intro: kept_same grow_same\<close>)

lemma paxos_reach_inv: "paxos_reach n r \<Longrightarrow> paxos_inv r"
proof (induction rule: paxos_reach.induct)
  case (new i isLeader f)
  then show ?case by (simp add: paxos_inv_def New_paxos_def BeTheLeader_paxos_def space_size_def Let_def)
next
  case (step r ev r' outs)
  then show ?case using run_paxos_kept paxos_inv_grow by blast
qed

subsection \<open>Execution\<close>

definition apply_cmd :: "command \<Rightarrow> kv_state \<Rightarrow> kv_state" where
  "apply_cmd c st = (if Op c = PUT then st\<lparr>Store := (Store st)(K c \<mapsto> V c)\<rparr> else st)"

lemma Execute_state: "Execute c st = Some (v, st') \<Longrightarrow> st' = apply_cmd c st"
  by (auto simp: Execute_def apply_cmd_def Option.bind_eq_Some_conv split: if_splits)

lemma exec_instance_state:
  "exec_instance dreply props cs j st = Some (st', outs) \<Longrightarrow> st' = fold apply_cmd cs st"
proof (induction cs arbitrary: j st outs)
  case (Cons c cs)
  show ?case
  proof (cases "dreply \<and> props \<noteq> None")
    case True
    then obtain ps where ps: "dreply" "props = Some ps" by auto
    with Cons.prems obtain v st1 o1 where "Execute c st = Some (v, st1)"
        "exec_instance dreply props cs (Suc j) st1 = Some (st', o1)"
      by (auto simp: Option.bind_eq_Some_conv)
    with Cons.IH show ?thesis by (auto dest!: Execute_state)
  next
    case False
    with Cons.prems have "exec_instance dreply props cs (Suc j) (apply_cmd c st) = Some (st', outs)"
      by (cases dreply; cases props)
        (auto simp: Option.bind_eq_Some_conv apply_cmd_def Execute_def split: if_splits)
    with Cons.IH show ?thesis by simp
  qed
qed simp

text \<open>The commands of the instances with these numbers, as far as they can be executed.\<close>

definition ready :: "paxos \<Rightarrow> int \<Rightarrow> bool" where
  "ready r i \<longleftrightarrow> (\<exists>x. instanceSpace r i = Some x \<and> status x = COMMITTED \<and> cmds x \<noteq> None)"

definition cmds_at :: "paxos \<Rightarrow> int \<Rightarrow> command list" where
  "cmds_at r i = (case instanceSpace r i of None \<Rightarrow> [] | Some x \<Rightarrow> cmds_list (cmds x))"

lemma exec_loop_prefix:
  assumes "exec_loop [a..c] r = Some (r', outs)" and "executedUpTo r = a - 1" and "- 1 \<le> a" and "c < space_size"
  shows "\<exists>b \<le> max c (a - 1). a - 1 \<le> b \<and> executedUpTo r' = b \<and> (\<forall>i. a \<le> i \<and> i \<le> b \<longrightarrow> ready r i) \<and>
    (b < c \<longrightarrow> \<not> ready r (b + 1)) \<and> pState r' = fold apply_cmd (concat (map (cmds_at r) [a..b])) (pState r)"
  using assms
proof (induction "nat (c - a + 1)" arbitrary: a r outs)
  case 0
  then have "[a..c] = []" by simp
  with 0 show ?case by (intro exI [of _ "a - 1"]) auto
next
  case (Suc n)
  then have ac: "a \<le> c" by simp
  then have split: "[a..c] = a # [a + 1..c]" by (rule upto_rec1)
  show ?case
  proof (cases "ready r a")
    case True
    then obtain x cs where x: "instanceSpace r a = Some x" "cmds x = Some cs" "status x = COMMITTED"
      by (auto simp: ready_def)
    from Suc.prems(1) x obtain st o1 o2 where e: "0 \<le> a"
      "exec_instance (Dreply r) (do { b \<leftarrow> lb x; clientProposals b }) cs 0 (pState r) = Some (st, o1)"
      "exec_loop [a + 1..c] (r\<lparr>pState := st, executedUpTo := i32 (executedUpTo r + 1)\<rparr>) = Some (r', o2)"
      unfolding split by (auto simp: Option.bind_eq_Some_conv inst_simps)
    have st: "st = fold apply_cmd (cmds_at r a) (pState r)"
      using exec_instance_state [OF e(2)] x by (simp add: cmds_at_def cmds_list_def)
    have up: "i32 (executedUpTo r + 1) = a"
      using Suc.prems(2,4) ac e(1) by (simp add: is_i32_def space_size_def)
    let ?r = "r\<lparr>pState := st, executedUpTo := a\<rparr>"
    have run: "exec_loop [a + 1..c] ?r = Some (r', o2)" using e(3) up by simp
    have "n = nat (c - (a + 1) + 1)" using Suc.hyps(2) by simp
    from Suc.hyps(1) [OF this run] Suc.prems(4) e(1) ac obtain b where b: "b \<le> max c a" "a \<le> b" "executedUpTo r' = b"
      "\<forall>i. a + 1 \<le> i \<and> i \<le> b \<longrightarrow> ready ?r i" "b < c \<longrightarrow> \<not> ready ?r (b + 1)"
      "pState r' = fold apply_cmd (concat (map (cmds_at ?r) [a + 1..b])) st" by auto
    have same: "ready ?r = ready r" "cmds_at ?r = cmds_at r" by (auto simp: ready_def cmds_at_def fun_eq_iff)
    have "[a..b] = a # [a + 1..b]" using b(2) by (rule upto_rec1)
    then have "pState r' = fold apply_cmd (concat (map (cmds_at r) [a..b])) (pState r)"
      using b(6) st same by simp
    moreover have "ready r i" if "a \<le> i \<and> i \<le> b" for i
      using b(4) True that unfolding same by (cases "i = a") auto
    ultimately show ?thesis using b ac unfolding same by (intro exI [of _ b]) auto
  next
    case False
    then have "r' = stuck_at a r"
      using Suc.prems(1) unfolding split ready_def
      by (auto simp: Option.bind_eq_Some_conv inst_simps split: option.splits InstanceStatus.splits)
    then have "executedUpTo r' = a - 1" "pState r' = pState r" using Suc.prems(2) by (simp_all add: stuck_at_def Let_def)
    with False show ?thesis by (intro exI [of _ "a - 1"]) auto
  qed
qed

subsection \<open>Properties\<close>

text \<open>C30. Ballots: the loop that chooses a leader's next ballot ends, and the ballot it chooses belongs to
  the replica (it is the replica's id modulo the number of replicas), is at least as high as every
  ballot the replica has seen, and is the lowest such ballot.\<close>

theorem makeBallot_lowest:
  assumes "inst_ptr r i = Some x" and "lb x = Some b" and "IsLeader r" and "0 \<le> pId r" and "pId r < int (pN r)"
    and "length (defaultBallot r) = pN r" and "defaultBallot r ! nat (pId r) + int (pN r) < 2147483648"
    and "maxRecvBallot r + int (pN r) < 2147483648" and "2 * int (pN r) < 2147483648"
  shows "\<exists>t. makeBallot i r =
      Some (r\<lparr>instanceSpace := (instanceSpace r)(i \<mapsto> x\<lparr>lb := Some (b\<lparr>lastTriedBallot := t\<rparr>)\<rparr>)\<rparr>) \<and>
    t mod int (pN r) = pId r \<and> defaultBallot r ! nat (pId r) \<le> t \<and> maxRecvBallot r \<le> t \<and>
    (t = pId r \<or> t < max (defaultBallot r ! nat (pId r)) (maxRecvBallot r) + int (pN r))"
  using assms by (rule makeBallot_next)

definition lb0 :: LeaderBookkeeping where
  "lb0 = \<lparr>clientProposals = None, prepareOKs = 0, acceptOKs = 0, nacks = 0, lb_ballot = -1, lb_cmds = None,
     lastTriedBallot = -1\<rparr>"

definition pax3 :: paxos where
  "pax3 = (New_paxos 1 3 True 1)\<lparr>instanceSpace := (\<lambda>_. None)(0 \<mapsto> new_instance None (-1) PREPARING (Some lb0)),
     crtInstance := 0, maxRecvBallot := 5\<rparr>"

theorem makeBallot_lowest_witness:
  "\<exists>t. (\<exists>r'. makeBallot 0 pax3 = Some r') \<and> t mod 3 = 1 \<and> 5 \<le> t \<and> t < 8 \<and>
     (\<exists>b. makeBallot 0 pax3 \<bind> (\<lambda>r. lb_ptr r 0) = Some b \<and> lastTriedBallot b = t)"
proof -
  have "inst_ptr pax3 0 = Some (new_instance None (-1) PREPARING (Some lb0))"
    "lb (new_instance None (-1) PREPARING (Some lb0)) = Some lb0" "IsLeader pax3" "0 \<le> pId pax3" "pId pax3 < int (pN pax3)"
    "length (defaultBallot pax3) = pN pax3" "defaultBallot pax3 ! nat (pId pax3) + int (pN pax3) < 2147483648"
    "maxRecvBallot pax3 + int (pN pax3) < 2147483648" "2 * int (pN pax3) < 2147483648"
    by (simp_all add: pax3_def New_paxos_def BeTheLeader_paxos_def Let_def inst_simps space_size_def new_instance_def)
  from makeBallot_lowest [OF this] obtain t where t: "makeBallot 0 pax3 =
      Some (pax3\<lparr>instanceSpace := (instanceSpace pax3)(0 \<mapsto>
        (new_instance None (-1) PREPARING (Some lb0))\<lparr>lb := Some (lb0\<lparr>lastTriedBallot := t\<rparr>)\<rparr>)\<rparr>)"
    "t mod int (pN pax3) = pId pax3" "defaultBallot pax3 ! nat (pId pax3) \<le> t" "maxRecvBallot pax3 \<le> t"
    "t = pId pax3 \<or> t < max (defaultBallot pax3 ! nat (pId pax3)) (maxRecvBallot pax3) + int (pN pax3)" by blast
  have e: "pN pax3 = 3" "pId pax3 = 1" "maxRecvBallot pax3 = 5" "defaultBallot pax3 ! Suc 0 = -1"
    by (simp_all add: pax3_def New_paxos_def BeTheLeader_paxos_def Let_def)
  show ?thesis
    using t by (intro exI [of _ t]) (auto simp: e lb_ptr_def inst_simps space_size_def inst_ptr_def inst_at_def)
qed

text \<open>C27. Acceptors keep their word: in a reachable replica no event other than a promise for an own
  proposal lowers the ballot of an instance, and none changes the commands or the ballots of an
  instance that is committed.\<close>

theorem acceptor_keeps_promises:
  assumes "paxos_reach n r" and "run_paxos ev r = Some (r', outs)" and "\<not> is_prepare_reply ev"
    and "instanceSpace r i = Some x"
  shows "\<exists>y. instanceSpace r' i = Some y \<and> bal x \<le> bal y \<and>
    (status x = COMMITTED \<longrightarrow> status y = COMMITTED \<and> cmds y = cmds x \<and> bal y = bal x \<and> vbal y = vbal x)"
  using run_paxos_kept [OF assms(2) paxos_reach_inv [OF assms(1)]] assms(3,4) unfolding kept_def keeps_def by blast

definition accept7 :: Accept where
  "accept7 = \<lparr>ac_LeaderId = 0, ac_Instance = 4, ac_Ballot = 7, ac_Command = NOOP\<rparr>"

definition prepare9 :: Prepare where
  "prepare9 = \<lparr>pr_LeaderId = 0, pr_Instance = 4, pr_Ballot = 9\<rparr>"

lemma accept_prepare_run:
  "case run_paxos (PE_Msg (P_Accept accept7)) (New_paxos 1 3 False 1) of
     Some (r, _) \<Rightarrow> map_option bal (instanceSpace r 4) = Some 7 \<and>
       (case run_paxos (PE_Msg (P_Prepare prepare9)) r of Some _ \<Rightarrow> True | None \<Rightarrow> False)
   | None \<Rightarrow> False"
  by code_simp

theorem acceptor_keeps_promises_witness:
  "\<exists>r o1 r' o2 y. run_paxos (PE_Msg (P_Accept accept7)) (New_paxos 1 3 False 1) = Some (r, o1) \<and>
     run_paxos (PE_Msg (P_Prepare prepare9)) r = Some (r', o2) \<and> instanceSpace r' 4 = Some y \<and> 7 \<le> bal y"
proof -
  obtain r o1 x r' o2 where 1: "run_paxos (PE_Msg (P_Accept accept7)) (New_paxos 1 3 False 1) = Some (r, o1)"
      "instanceSpace r 4 = Some x" "bal x = 7" "run_paxos (PE_Msg (P_Prepare prepare9)) r = Some (r', o2)"
    using accept_prepare_run by (auto split: option.splits prod.splits)
  have "paxos_reach 3 r" using paxos_reach.step [OF paxos_reach.new 1(1)] by simp
  from acceptor_keeps_promises [OF this 1(4) _ 1(2)] obtain y where "instanceSpace r' 4 = Some y" "7 \<le> bal y"
    using 1(3) by auto
  with 1(1,4) show ?thesis by blast
qed

text \<open>C21. Shape of the replica: in a reachable replica the current instance is within the instance array,
  and no instance, and no instance put up for recovery, lies beyond it.\<close>

theorem paxos_instances_in_bounds:
  assumes "paxos_reach n r"
  shows "- 1 \<le> crtInstance r \<and> crtInstance r < space_size \<and> (\<forall>i. instanceSpace r i \<noteq> None \<longrightarrow> i \<le> crtInstance r) \<and>
    (\<forall>i \<in> set (instancesToRecover r). i \<le> crtInstance r)"
  using paxos_reach_inv [OF assms] unfolding paxos_inv_def .

theorem paxos_instances_in_bounds_witness:
  "\<exists>r o1. run_paxos (PE_Msg (P_Accept accept7)) (New_paxos 1 3 False 1) = Some (r, o1) \<and> 4 \<le> crtInstance r"
proof -
  obtain r o1 x where 1: "run_paxos (PE_Msg (P_Accept accept7)) (New_paxos 1 3 False 1) = Some (r, o1)"
      "instanceSpace r 4 = Some x"
    using accept_prepare_run by (auto split: option.splits prod.splits)
  have "paxos_reach 3 r" using paxos_reach.step [OF paxos_reach.new 1(1)] by simp
  then have "\<forall>i. instanceSpace r i \<noteq> None \<longrightarrow> i \<le> crtInstance r" by (blast dest: paxos_instances_in_bounds)
  then have "4 \<le> crtInstance r" using 1(2) by auto
  with 1(1) show ?thesis by blast
qed

text \<open>Execution: a pass of the execution loop executes the committed instances that follow the last
  executed one up to the first that is not committed, each once and in the order of the instances, and
  the store it leaves is the one that the writes among their commands lead to, whether or not the
  replica answers clients.\<close>

theorem executeCommands_in_order:
  assumes "executeCommands_paxos r = Some (r', outs)" and "- 2 \<le> executedUpTo r" and "crtInstance r < space_size"
    and "executedUpTo r \<le> crtInstance r"
  shows "executedUpTo r \<le> executedUpTo r' \<and> executedUpTo r' \<le> crtInstance r \<and>
    (\<forall>i. executedUpTo r < i \<and> i \<le> executedUpTo r' \<longrightarrow> ready r i) \<and>
    (executedUpTo r' < crtInstance r \<longrightarrow> \<not> ready r (executedUpTo r' + 1)) \<and>
    pState r' = fold apply_cmd (concat (map (cmds_at r) [executedUpTo r + 1..executedUpTo r'])) (pState r)"
proof -
  have "- 1 \<le> executedUpTo r + 1" using assms(2) by simp
  from exec_loop_prefix [OF assms(1) [unfolded executeCommands_paxos_def] _ this assms(3)] assms(4) show ?thesis
    by (auto simp: max_def)
qed

definition pax_exec :: paxos where
  "pax_exec = (New_paxos 1 3 False 1)\<lparr>instanceSpace := (\<lambda>_. None)(0 \<mapsto>
     new_instance (Some [\<lparr>Op = PUT, K = 5, V = [9], CL = 0, Sid = 0\<rparr>]) 0 COMMITTED None), crtInstance := 1\<rparr>"

lemma pax_exec_run: "case executeCommands_paxos pax_exec of Some (r, _) \<Rightarrow> executedUpTo r = 0 | None \<Rightarrow> False"
  by code_simp

theorem executeCommands_in_order_witness:
  "\<exists>r' outs. executeCommands_paxos pax_exec = Some (r', outs) \<and> executedUpTo r' = 0 \<and>
     pState r' = fold apply_cmd (cmds_at pax_exec 0) InitState"
proof -
  obtain r' outs where 1: "executeCommands_paxos pax_exec = Some (r', outs)" "executedUpTo r' = 0"
    using pax_exec_run by (auto split: option.splits prod.splits)
  have 2: "executedUpTo pax_exec = -1" "crtInstance pax_exec = 1" "pState pax_exec = InitState"
    by (simp_all add: pax_exec_def New_paxos_def Let_def)
  have "[0..0::int] = [0]" by simp
  with executeCommands_in_order [OF 1(1)] 1 show ?thesis by (simp add: 2 space_size_def)
qed

text \<open>C31. A leader does not survive a refusal: when the number of refusals of an instance reaches the
  write quorum, \<open>handleAcceptReply\<close> looks up the ballot of the refusal as if it were an instance, and
  panics unless that instance exists.\<close>

theorem nack_panics:
  assumes "inst_ptr r (acr_Instance m) = Some x" and "status x \<noteq> COMMITTED" and "lb x = Some b" and "IsLeader r"
    and "lastTriedBallot b < acr_Ballot m" and "pF r + 1 \<le> i64 (i64 (nacks b + 1) + 1)"
    and "instanceSpace r (acr_Ballot m) = None"
  shows "handleAcceptReply m r = None"
proof -
  let ?i = "acr_Instance m"
  have i: "0 \<le> ?i" "?i < space_size" "instanceSpace r ?i = Some x" using assms(1) by (simp_all add: inst_simps)
  have ne: "acr_Ballot m \<noteq> ?i" using i(3) assms(7) by auto
  let ?r = "(see_ballot (acr_Ballot m) r)\<lparr>instanceSpace := (instanceSpace r)(?i \<mapsto>
    x\<lparr>lb := Some (b\<lparr>nacks := i64 (nacks b + 1)\<rparr>)\<rparr>)\<rparr>"
  have "inst_ptr ?r (acr_Ballot m) = None" using ne assms(7) by (simp add: inst_ptr_def inst_at_def)
  then have "makeBallot (acr_Ballot m) ?r = None" by (simp add: makeBallot_def)
  moreover have "inst_put ?i y (see_ballot (acr_Ballot m) r) =
      Some ((see_ballot (acr_Ballot m) r)\<lparr>instanceSpace := (instanceSpace r)(?i \<mapsto> y)\<rparr>)" for y
    using i by (simp add: inst_put_def)
  moreover have "write_quorum ?r = pF r + 1" "IsLeader ?r" using assms(4) by (simp_all add: write_quorum_def see_ballot_def)
  ultimately show ?thesis using assms by (simp add: handleAcceptReply_def Let_def)
qed

theorem nack_panics_witness:
  "handleAcceptReply \<lparr>acr_Instance = 0, acr_Ballot = 7\<rparr> pax3 = None"
  by (rule nack_panics [where x = "new_instance None (-1) PREPARING (Some lb0)" and b = lb0])
    (simp_all add: pax3_def New_paxos_def BeTheLeader_paxos_def Let_def inst_simps space_size_def new_instance_def lb0_def
      is_i64_def)

end
