(* ===== verification/Paxos_Net.thy ===== *)
theory Paxos_Net
  imports Paxos_Props
begin

section \<open>A cluster of Paxos replicas\<close>

text \<open>
  Replicas that run the event loop of \<open>src/paxos/paxos.go\<close> over a network that may lose, delay and
  reorder messages. The proposer collects the value that an acceptor reports and then proposes its own,
  so agreement fails: \<open>paxos_disagreement\<close> is an execution in which two replicas commit and execute
  different commands for one instance.
\<close>

record pnet =
  pnodes :: "int \<Rightarrow> paxos"
  pwire :: "(int \<times> paxos_msg) list"

fun psends :: "paxos_out list \<Rightarrow> (int \<times> paxos_msg) list" where
  "psends [] = []"
| "psends (P_SendTo d m # outs) = (d, m) # psends outs"
| "psends (P_Reply _ _ # outs) = psends outs"

text \<open>One event at one replica; a message is delivered when it is on the wire, and taken off it.\<close>

definition pnet_do :: "int \<Rightarrow> paxos_event \<Rightarrow> pnet \<Rightarrow> pnet option" where
  "pnet_do i ev s =
     (if (case ev of PE_Msg m \<Rightarrow> (i, m) \<in> set (pwire s) | _ \<Rightarrow> True)
      then do {
        (r, outs) \<leftarrow> run_paxos ev (pnodes s i);
        let w = (case ev of PE_Msg m \<Rightarrow> remove1 (i, m) (pwire s) | _ \<Rightarrow> pwire s);
        Some (s\<lparr>pnodes := (pnodes s)(i := r), pwire := w @ psends outs\<rparr>)
      }
      else None)"

text \<open>A cluster of \<open>n\<close> replicas that tolerates \<open>f\<close> failures, connected, with replica \<open>l\<close> as leader.\<close>

definition pnet_init :: "nat \<Rightarrow> int \<Rightarrow> int \<Rightarrow> pnet" where
  "pnet_init n f l =
     \<lparr>pnodes = (\<lambda>i. (New_paxos i n (i = l) f)\<lparr>pAlive := map (\<lambda>j. int j \<noteq> i) [0..<n]\<rparr>), pwire = []\<rparr>"

inductive pnet_reach :: "nat \<Rightarrow> int \<Rightarrow> int \<Rightarrow> pnet \<Rightarrow> bool" for n f l where
  init: "pnet_reach n f l (pnet_init n f l)"
| step: "pnet_reach n f l s \<Longrightarrow> 0 \<le> i \<Longrightarrow> i < int n \<Longrightarrow> pnet_do i ev s = Some s' \<Longrightarrow> pnet_reach n f l s'"

fun pnet_run :: "nat \<Rightarrow> (int \<times> paxos_event) list \<Rightarrow> pnet \<Rightarrow> pnet option" where
  "pnet_run n [] s = Some s"
| "pnet_run n ((i, ev) # evs) s =
     (if 0 \<le> i \<and> i < int n then do { s \<leftarrow> pnet_do i ev s; pnet_run n evs s } else None)"

lemma pnet_run_reach: "pnet_reach n f l s \<Longrightarrow> pnet_run n evs s = Some s' \<Longrightarrow> pnet_reach n f l s'"
proof (induction evs arbitrary: s)
  case (Cons x evs)
  obtain i ev where x: "x = (i, ev)" by (cases x)
  from Cons.prems(2) obtain s1 where "pnet_do i ev s = Some s1" "pnet_run n evs s1 = Some s'" "0 \<le> i" "i < int n"
    by (auto simp: x Option.bind_eq_Some_conv split: if_splits)
  with Cons.IH [of s1] pnet_reach.step [OF Cons.prems(1)] show ?case by blast
qed simp

definition write_cmd :: "val \<Rightarrow> command" where
  "write_cmd v = \<lparr>Op = PUT, K = 5, V = v, CL = 0, Sid = 0\<rparr>"

definition write_prop :: "val \<Rightarrow> GPropose" where
  "write_prop v = \<lparr>Propose = \<lparr>p_CommandId = 0, p_ClientId = 0, p_Command = write_cmd v, p_Timestamp = 0\<rparr>,
     Proxy = False, Addr = []\<rparr>"

text \<open>The messages by which replica \<open>l\<close> has its value accepted by replica 1 with ballot \<open>l\<close>.\<close>

definition by_one :: "int \<Rightarrow> int \<Rightarrow> val \<Rightarrow> command list \<Rightarrow> (int \<times> paxos_event) list" where
  "by_one l vb v cs =
     [(l, PE_Enqueue (write_prop v)), (l, PE_Propose),
      (1, PE_Msg (P_Prepare \<lparr>pr_LeaderId = l, pr_Instance = 0, pr_Ballot = l\<rparr>)),
      (l, PE_Msg (P_PrepareReply \<lparr>prr_Instance = 0, prr_Ballot = l, prr_VBallot = vb, prr_DefaultBallot = l,
           prr_AcceptorId = 1, prr_Command = cs\<rparr>)),
      (1, PE_Msg (P_Accept \<lparr>ac_LeaderId = l, ac_Instance = 0, ac_Ballot = l, ac_Command = [write_cmd v]\<rparr>)),
      (l, PE_Msg (P_AcceptReply \<lparr>acr_Instance = 0, acr_Ballot = l\<rparr>)),
      (l, PE_Execute)]"

definition disagreement :: "pnet option" where
  "disagreement = pnet_run 3 (by_one 0 (-1) [7] [] @ (2, PE_BeTheLeader) # by_one 2 0 [8] [write_cmd [7]]) (pnet_init 3 1 0)"

lemma disagreement_run:
  "case disagreement of None \<Rightarrow> False
   | Some s \<Rightarrow> map_option status (instanceSpace (pnodes s 0) 0) = Some COMMITTED \<and>
       map_option status (instanceSpace (pnodes s 2) 0) = Some COMMITTED \<and>
       map_option cmds (instanceSpace (pnodes s 0) 0) = Some (Some [write_cmd [7]]) \<and>
       map_option cmds (instanceSpace (pnodes s 2) 0) = Some (Some [write_cmd [8]]) \<and>
       Store (pState (pnodes s 0)) 5 = Some [7] \<and> Store (pState (pnodes s 2)) 5 = Some [8]"
  by code_simp

text \<open>C28. Agreement fails when the leader changes: there is an execution of three replicas in which
  replica 0 commits one command for instance 0 and executes it, and replica 2, made leader by the
  master, commits and executes another, although the acceptor it asked had reported the first.\<close>

theorem paxos_disagreement:
  "\<exists>s x y. pnet_reach 3 1 0 s \<and> instanceSpace (pnodes s 0) 0 = Some x \<and> instanceSpace (pnodes s 2) 0 = Some y \<and>
     status x = COMMITTED \<and> status y = COMMITTED \<and> cmds x \<noteq> cmds y \<and>
     Store (pState (pnodes s 0)) 5 \<noteq> Store (pState (pnodes s 2)) 5"
proof -
  obtain s x y where s: "disagreement = Some s" "instanceSpace (pnodes s 0) 0 = Some x"
      "instanceSpace (pnodes s 2) 0 = Some y" "status x = COMMITTED" "status y = COMMITTED"
      "cmds x = Some [write_cmd [7]]" "cmds y = Some [write_cmd [8]]"
      "Store (pState (pnodes s 0)) 5 = Some [7]" "Store (pState (pnodes s 2)) 5 = Some [8]"
    using disagreement_run by (auto split: option.splits)
  moreover have "pnet_reach 3 1 0 s"
    using pnet_run_reach [OF pnet_reach.init] s(1) unfolding disagreement_def by blast
  moreover have "cmds x \<noteq> cmds y" using s(6,7) by (simp add: write_cmd_def)
  ultimately show ?thesis by (intro exI [of _ s] exI [of _ x] exI [of _ y]) simp
qed

end
