(* ===== verification/N2_Msgs.thy ===== *)
theory N2_Msgs
  imports Replica Pool
begin

section \<open>Messages of the N2Paxos package\<close>

text \<open>
  The message structs of \<open>src/n2paxos/defs.go\<close>, their encodings, object caches and registration. The
  readers drop the errors of the commands and of the 2A messages they contain; the 2B messages of a
  batch are written and read field by field.
\<close>

datatype n2_status = NORMAL | RECOVERING

datatype n2_phase = START | COMMIT

definition HISTORY_SIZE :: int where
  "HISTORY_SIZE = 10010001"

definition MaxDescRoutines :: int where
  "MaxDescRoutines = 100"

record n2_CommandId =
  n_ClientId :: int
  n_SeqNum :: int

record M2A =
  a2_Replica :: int
  a2_Ballot :: int
  a2_Cmd :: command
  a2_CmdId :: n2_CommandId
  a2_CmdSlot :: int

record M2B =
  b2_Replica :: int
  b2_Ballot :: int
  b2_CmdSlot :: int

record M2s =
  TwoAs :: "M2A list"
  TwoBs :: "M2B list"

record M1A =
  a1_Replica :: int
  a1_Ballot :: int

record M1B =
  b1_Replica :: int
  b1_Ballot :: int
  b1_CBallot :: int
  b1_Cmds :: "command list"

record MPaxosSync =
  sy_Replica :: int
  sy_Ballot :: int
  sy_Cmds :: "command list"

definition zero_n2_CommandId :: n2_CommandId where
  "zero_n2_CommandId = \<lparr>n_ClientId = 0, n_SeqNum = 0\<rparr>"

definition zero_M2A :: M2A where
  "zero_M2A = \<lparr>a2_Replica = 0, a2_Ballot = 0, a2_Cmd = zero_command, a2_CmdId = zero_n2_CommandId, a2_CmdSlot = 0\<rparr>"

definition zero_M2B :: M2B where
  "zero_M2B = \<lparr>b2_Replica = 0, b2_Ballot = 0, b2_CmdSlot = 0\<rparr>"

subsection \<open>Encoding\<close>

definition M1A_Marshal :: "M1A \<Rightarrow> byte list" where
  "M1A_Marshal t = put32 (a1_Replica t) @ put32 (a1_Ballot t)"

definition M1A_Unmarshal :: "M1A \<Rightarrow> byte list \<Rightarrow> M1A outcome" where
  "M1A_Unmarshal t s =
     with_bytes 8 t s (\<lambda>bs r. Ok (t\<lparr>a1_Replica := get32 bs, a1_Ballot := get32 (drop 4 bs)\<rparr>) r)"

definition M1B_Marshal :: "M1B \<Rightarrow> byte list" where
  "M1B_Marshal t =
     (put32 (b1_Replica t) @ put32 (b1_Ballot t) @ put32 (b1_CBallot t)) @ put_slice Command_Marshal (b1_Cmds t)"

definition M1B_Unmarshal :: "M1B \<Rightarrow> byte list \<Rightarrow> M1B outcome" where
  "M1B_Unmarshal t s =
     with_bytes 12 t s (\<lambda>bs r.
       let t = t\<lparr>b1_Replica := get32 bs, b1_Ballot := get32 (drop 4 bs), b1_CBallot := get32 (drop 8 bs)\<rparr>
       in and_then (\<lambda>x. t\<lparr>b1_Cmds := x\<rparr>)
            (get_slice (read_each_lax Command_Unmarshal zero_command) (b1_Cmds t) r) Ok)"

definition MPaxosSync_Marshal :: "MPaxosSync \<Rightarrow> byte list" where
  "MPaxosSync_Marshal t =
     (put32 (sy_Replica t) @ put32 (sy_Ballot t)) @ put_slice Command_Marshal (sy_Cmds t)"

definition MPaxosSync_Unmarshal :: "MPaxosSync \<Rightarrow> byte list \<Rightarrow> MPaxosSync outcome" where
  "MPaxosSync_Unmarshal t s =
     with_bytes 8 t s (\<lambda>bs r.
       let t = t\<lparr>sy_Replica := get32 bs, sy_Ballot := get32 (drop 4 bs)\<rparr>
       in and_then (\<lambda>x. t\<lparr>sy_Cmds := x\<rparr>)
            (get_slice (read_each_lax Command_Unmarshal zero_command) (sy_Cmds t) r) Ok)"

definition n2_CommandId_Marshal :: "n2_CommandId \<Rightarrow> byte list" where
  "n2_CommandId_Marshal t = put32 (n_ClientId t) @ put32 (n_SeqNum t)"

definition n2_CommandId_Unmarshal :: "n2_CommandId \<Rightarrow> byte list \<Rightarrow> n2_CommandId outcome" where
  "n2_CommandId_Unmarshal t s =
     with_bytes 8 t s (\<lambda>bs r. Ok (t\<lparr>n_ClientId := get32 bs, n_SeqNum := get32 (drop 4 bs)\<rparr>) r)"

definition M2A_Marshal :: "M2A \<Rightarrow> byte list" where
  "M2A_Marshal t =
     (put32 (a2_Replica t) @ put32 (a2_Ballot t)) @ Command_Marshal (a2_Cmd t) @
     (put32 (n_ClientId (a2_CmdId t)) @ put32 (n_SeqNum (a2_CmdId t)) @ put64 (a2_CmdSlot t))"

definition M2A_Unmarshal :: "M2A \<Rightarrow> byte list \<Rightarrow> M2A outcome" where
  "M2A_Unmarshal t s =
     with_bytes 8 t s (\<lambda>bs r.
       let t = t\<lparr>a2_Replica := get32 bs, a2_Ballot := get32 (drop 4 bs)\<rparr>
       in regardless (\<lambda>x. t\<lparr>a2_Cmd := x\<rparr>) (Command_Unmarshal (a2_Cmd t) r) (\<lambda>t r.
            with_bytes 16 t r (\<lambda>bs r.
              Ok (t\<lparr>a2_CmdId := \<lparr>n_ClientId = get32 bs, n_SeqNum = get32 (drop 4 bs)\<rparr>,
                    a2_CmdSlot := get64 (drop 8 bs)\<rparr>) r)))"

definition M2B_Marshal :: "M2B \<Rightarrow> byte list" where
  "M2B_Marshal t = put32 (b2_Replica t) @ put32 (b2_Ballot t) @ put64 (b2_CmdSlot t)"

definition M2B_Unmarshal :: "M2B \<Rightarrow> byte list \<Rightarrow> M2B outcome" where
  "M2B_Unmarshal t s =
     with_bytes 16 t s (\<lambda>bs r.
       Ok (t\<lparr>b2_Replica := get32 bs, b2_Ballot := get32 (drop 4 bs), b2_CmdSlot := get64 (drop 8 bs)\<rparr>) r)"

text \<open>A 2B message inside a batch.\<close>

definition twoB_read :: "M2B \<Rightarrow> byte list \<Rightarrow> M2B outcome" where
  "twoB_read t s =
     with_bytes 4 t s (\<lambda>bs r.
       let t = t\<lparr>b2_Replica := get32 bs\<rparr>
       in with_bytes 4 t r (\<lambda>bs r.
            let t = t\<lparr>b2_Ballot := get32 bs\<rparr>
            in with_bytes 8 t r (\<lambda>bs r. Ok (t\<lparr>b2_CmdSlot := get64 bs\<rparr>) r)))"

definition M2s_Marshal :: "M2s \<Rightarrow> byte list" where
  "M2s_Marshal t = put_slice M2A_Marshal (TwoAs t) @ put_slice M2B_Marshal (TwoBs t)"

definition M2s_Unmarshal :: "M2s \<Rightarrow> byte list \<Rightarrow> M2s outcome" where
  "M2s_Unmarshal t s =
     and_then (\<lambda>x. t\<lparr>TwoAs := x\<rparr>) (get_slice (read_each_lax M2A_Unmarshal zero_M2A) (TwoAs t) s) (\<lambda>t r.
       and_then (\<lambda>x. t\<lparr>TwoBs := x\<rparr>) (get_slice (read_each twoB_read zero_M2B) (TwoBs t) r) Ok)"

subsection \<open>Object caches and registration\<close>

definition M1ACache_Get :: "M1A list \<Rightarrow> M1A \<times> M1A list" where
  "M1ACache_Get = cache_Get \<lparr>a1_Replica = 0, a1_Ballot = 0\<rparr>"

definition M1BCache_Get :: "M1B list \<Rightarrow> M1B \<times> M1B list" where
  "M1BCache_Get = cache_Get \<lparr>b1_Replica = 0, b1_Ballot = 0, b1_CBallot = 0, b1_Cmds = []\<rparr>"

definition MPaxosSyncCache_Get :: "MPaxosSync list \<Rightarrow> MPaxosSync \<times> MPaxosSync list" where
  "MPaxosSyncCache_Get = cache_Get \<lparr>sy_Replica = 0, sy_Ballot = 0, sy_Cmds = []\<rparr>"

definition n2_CommandIdCache_Get :: "n2_CommandId list \<Rightarrow> n2_CommandId \<times> n2_CommandId list" where
  "n2_CommandIdCache_Get = cache_Get zero_n2_CommandId"

definition M2ACache_Get :: "M2A list \<Rightarrow> M2A \<times> M2A list" where
  "M2ACache_Get = cache_Get zero_M2A"

definition M2BCache_Get :: "M2B list \<Rightarrow> M2B \<times> M2B list" where
  "M2BCache_Get = cache_Get zero_M2B"

definition M2sCache_Get :: "M2s list \<Rightarrow> M2s \<times> M2s list" where
  "M2sCache_Get = cache_Get \<lparr>TwoAs = [], TwoBs = []\<rparr>"

datatype n2_type = T_M1A | T_M1B | T_M2A | T_M2B | T_M2s | T_MPaxosSync

record n2_cs =
  oneARPC :: byte
  oneBRPC :: byte
  twoARPC :: byte
  twoBRPC :: byte
  twosRPC :: byte
  syncRPC :: byte

definition n2_initCs :: "n2_type rpc_table \<Rightarrow> n2_cs \<times> n2_type rpc_table" where
  "n2_initCs t =
     (let (a, t) = Register t T_M1A;
          (b, t) = Register t T_M1B;
          (c, t) = Register t T_M2A;
          (d, t) = Register t T_M2B;
          (e, t) = Register t T_M2s;
          (f, t) = Register t T_MPaxosSync
      in (\<lparr>oneARPC = a, oneBRPC = b, twoARPC = c, twoBRPC = d, twosRPC = e, syncRPC = f\<rparr>, t))"

subsection \<open>The codecs\<close>

definition wf_M1A :: "M1A \<Rightarrow> bool" where
  "wf_M1A t \<longleftrightarrow> is_i32 (a1_Replica t) \<and> is_i32 (a1_Ballot t)"

definition wf_M1B :: "M1B \<Rightarrow> bool" where
  "wf_M1B t \<longleftrightarrow> is_i32 (b1_Replica t) \<and> is_i32 (b1_Ballot t) \<and> is_i32 (b1_CBallot t) \<and>
     list_all wf_command (b1_Cmds t) \<and> short_enough (b1_Cmds t)"

definition wf_MPaxosSync :: "MPaxosSync \<Rightarrow> bool" where
  "wf_MPaxosSync t \<longleftrightarrow> is_i32 (sy_Replica t) \<and> is_i32 (sy_Ballot t) \<and>
     list_all wf_command (sy_Cmds t) \<and> short_enough (sy_Cmds t)"

definition wf_n2_CommandId :: "n2_CommandId \<Rightarrow> bool" where
  "wf_n2_CommandId t \<longleftrightarrow> is_i32 (n_ClientId t) \<and> is_i32 (n_SeqNum t)"

definition wf_M2A :: "M2A \<Rightarrow> bool" where
  "wf_M2A t \<longleftrightarrow> is_i32 (a2_Replica t) \<and> is_i32 (a2_Ballot t) \<and> wf_command (a2_Cmd t) \<and>
     wf_n2_CommandId (a2_CmdId t) \<and> is_i64 (a2_CmdSlot t)"

definition wf_M2B :: "M2B \<Rightarrow> bool" where
  "wf_M2B t \<longleftrightarrow> is_i32 (b2_Replica t) \<and> is_i32 (b2_Ballot t) \<and> is_i64 (b2_CmdSlot t)"

definition wf_M2s :: "M2s \<Rightarrow> bool" where
  "wf_M2s t \<longleftrightarrow> list_all wf_M2A (TwoAs t) \<and> short_enough (TwoAs t) \<and>
     list_all wf_M2B (TwoBs t) \<and> short_enough (TwoBs t)"

lemmas n2_wire_defs = M1A_Marshal_def M1A_Unmarshal_def M2B_Marshal_def M2B_Unmarshal_def
  n2_CommandId_Marshal_def n2_CommandId_Unmarshal_def wf_M1A_def wf_M2B_def wf_n2_CommandId_def

interpretation m1a_codec: strict_codec M1A_Marshal M1A_Unmarshal wf_M1A
proof
  fix x t :: M1A and p s :: "byte list"
  show "wf_M1A x \<Longrightarrow> M1A_Unmarshal t (M1A_Marshal x @ s) = Ok x s"
    unfolding M1A_Unmarshal_def by (subst with_bytes_append) (simp_all add: n2_wire_defs)
  show "strict_prefix p (M1A_Marshal x) \<Longrightarrow> is_fail (M1A_Unmarshal t p)"
    unfolding M1A_Unmarshal_def by (erule with_bytes_truncated_end) (simp add: n2_wire_defs)
qed

interpretation n2_id_codec: strict_codec n2_CommandId_Marshal n2_CommandId_Unmarshal wf_n2_CommandId
proof
  fix x t :: n2_CommandId and p s :: "byte list"
  show "wf_n2_CommandId x \<Longrightarrow> n2_CommandId_Unmarshal t (n2_CommandId_Marshal x @ s) = Ok x s"
    unfolding n2_CommandId_Unmarshal_def by (subst with_bytes_append) (simp_all add: n2_wire_defs)
  show "strict_prefix p (n2_CommandId_Marshal x) \<Longrightarrow> is_fail (n2_CommandId_Unmarshal t p)"
    unfolding n2_CommandId_Unmarshal_def by (erule with_bytes_truncated_end) (simp add: n2_wire_defs)
qed

interpretation m2b_codec: strict_codec M2B_Marshal M2B_Unmarshal wf_M2B
proof
  fix x t :: M2B and p s :: "byte list"
  show "wf_M2B x \<Longrightarrow> M2B_Unmarshal t (M2B_Marshal x @ s) = Ok x s"
    unfolding M2B_Unmarshal_def by (subst with_bytes_append) (simp_all add: n2_wire_defs)
  show "strict_prefix p (M2B_Marshal x) \<Longrightarrow> is_fail (M2B_Unmarshal t p)"
    unfolding M2B_Unmarshal_def by (erule with_bytes_truncated_end) (simp add: n2_wire_defs)
qed

interpretation twob_codec: strict_codec M2B_Marshal twoB_read wf_M2B
proof
  fix x t :: M2B and p s :: "byte list"
  show "wf_M2B x \<Longrightarrow> twoB_read t (M2B_Marshal x @ s) = Ok x s"
    by (simp add: twoB_read_def n2_wire_defs)
  show "strict_prefix p (M2B_Marshal x) \<Longrightarrow> is_fail (twoB_read t p)"
    unfolding twoB_read_def M2B_Marshal_def Let_def
    by (erule with_bytes_truncated, simp, erule with_bytes_truncated, simp, erule with_bytes_truncated_end) simp
qed

interpretation m1b_codec: codec M1B_Marshal M1B_Unmarshal wf_M1B
proof
  fix x t :: M1B and s :: "byte list"
  show "wf_M1B x \<Longrightarrow> M1B_Unmarshal t (M1B_Marshal x @ s) = Ok x s"
    unfolding M1B_Unmarshal_def M1B_Marshal_def append_assoc [of _ _ s]
    by (subst with_bytes_append) (simp_all add: wf_M1B_def command_codec.slice_lax_roundtrip)
qed

interpretation sync_codec: codec MPaxosSync_Marshal MPaxosSync_Unmarshal wf_MPaxosSync
proof
  fix x t :: MPaxosSync and s :: "byte list"
  show "wf_MPaxosSync x \<Longrightarrow> MPaxosSync_Unmarshal t (MPaxosSync_Marshal x @ s) = Ok x s"
    unfolding MPaxosSync_Unmarshal_def MPaxosSync_Marshal_def append_assoc [of _ _ s]
    by (subst with_bytes_append) (simp_all add: wf_MPaxosSync_def command_codec.slice_lax_roundtrip)
qed

interpretation m2a_codec: codec M2A_Marshal M2A_Unmarshal wf_M2A
proof
  fix x t :: M2A and s :: "byte list"
  have e: "M2A_Marshal x @ s = (put32 (a2_Replica x) @ put32 (a2_Ballot x)) @ Command_Marshal (a2_Cmd x) @
      (put32 (n_ClientId (a2_CmdId x)) @ put32 (n_SeqNum (a2_CmdId x)) @ put64 (a2_CmdSlot x)) @ s"
    by (simp add: M2A_Marshal_def)
  let ?w = "put32 (n_ClientId (a2_CmdId x)) @ put32 (n_SeqNum (a2_CmdId x)) @ put64 (a2_CmdSlot x)"
  assume x: "wf_M2A x"
  have w: "with_bytes 16 u (?w @ s) (\<lambda>bs r.
      Ok (u\<lparr>a2_CmdId := \<lparr>n_ClientId = get32 bs, n_SeqNum = get32 (drop 4 bs)\<rparr>, a2_CmdSlot := get64 (drop 8 bs)\<rparr>) r) =
    Ok (u\<lparr>a2_CmdId := a2_CmdId x, a2_CmdSlot := a2_CmdSlot x\<rparr>) s" for u
    using x by (subst with_bytes_append) (simp_all add: wf_M2A_def wf_n2_CommandId_def)
  show "M2A_Unmarshal t (M2A_Marshal x @ s) = Ok x s"
    using x unfolding M2A_Unmarshal_def e wf_M2A_def Let_def
    by (subst with_bytes_append, simp)
      (simp only: command_codec.roundtrip regardless_simps w, simp)
qed

interpretation m2s_codec: codec M2s_Marshal M2s_Unmarshal wf_M2s
proof
  fix x t :: M2s and s :: "byte list"
  show "wf_M2s x \<Longrightarrow> M2s_Unmarshal t (M2s_Marshal x @ s) = Ok x s"
    by (simp add: M2s_Unmarshal_def M2s_Marshal_def wf_M2s_def m2a_codec.slice_lax_roundtrip
        twob_codec.slice_roundtrip)
qed

end
