(* ===== verification/N2Paxos.thy ===== *)
theory N2Paxos
  imports N2_Msgs Msg_Set Hook
begin

section \<open>The N2Paxos replica\<close>

text \<open>
  The replica of \<open>src/n2paxos/n2paxos.go\<close> and its batcher (\<open>src/n2paxos/batcher.go\<close>): a fixed leader
  gives every command a slot, and all replicas exchange their acceptances.

  \<^item> \<open>n2\<close> is the struct \<open>Replica\<close>. The concurrent maps are maps; their keys are the slots and command
    ids the code prints as strings.
  \<^item> A descriptor belongs to the slot that holds it in \<open>cmdDescs\<close>. Its message channel \<open>d_msgs\<close> is a
    queue; a descriptor taken from the pool keeps the messages left in its channel. The pool may return
    any object it holds or a fresh one: the choice is an argument.
  \<^item> The deferred calls of \<open>afterPayload\<close> are all calls of \<open>deliver\<close>, so the hook is the list of the
    slots they were made with (the pending functions of theory Hook).
  \<^item> Descriptors below the limit of goroutines have their own goroutine (\<open>N2_Desc\<close> is one round of it);
    the others (\<open>seq\<close>) are handled by the event loop. \<open>deliver\<close> marks the slot as delivered and then
    executes the command; goroutines interleave between the two, so the second half is an event of its
    own (\<open>N2_Finish\<close>) and \<open>executing\<close> says that it is due. The event loop waits for it when the
    descriptor is one of its own (\<open>blocked\<close>).
  \<^item> The calls the event loop has still to make for a batch of messages are in \<open>todo\<close>.
\<close>

datatype n2_msg = N_Propose GPropose | N_2A M2A | N_2B M2B | N_Deliver | N_Slot int

record commandDesc =
  cmdId :: n2_CommandId
  d_cmd :: command
  d_phase :: n2_phase
  cmdSlot :: int
  d_propose :: "GPropose option"
  twoBs :: "M2B MsgSet"
  afterPayload :: "int list"
  d_msgs :: "n2_msg list"
  active :: bool
  seq :: bool
  executing :: bool

record commandStaticDesc =
  h_cmdSlot :: int
  h_phase :: n2_phase
  h_cmd :: command

record n2 =
  nId :: int
  nN :: nat
  nF :: int
  nExec :: bool
  nDreply :: bool
  ballot :: int
  cballot :: int
  n_status :: n2_status
  isLeader :: bool
  lastCmdSlot :: int
  slots :: "n2_CommandId \<Rightarrow> int option"
  proposes :: "n2_CommandId \<Rightarrow> GPropose option"
  cmdDescs :: "int \<Rightarrow> commandDesc option"
  delivered :: "int set"
  history :: "int \<Rightarrow> commandStaticDesc"
  n_AQ :: quorum_i
  bat_As :: "(M2A \<times> int option) list"
  bat_Bs :: "(M2B \<times> int option) list"
  deliverChan :: "int list"
  descPool :: "commandDesc list"
  poolLevel :: int
  routineCount :: int
  todo :: "(int \<times> n2_msg) list"
  blocked :: "int option"
  nState :: kv_state

datatype n2_out = N_SendAll M2s | N_SendClient int M2s | N_Reply GPropose ProposeReplyTS

definition zero_history :: commandStaticDesc where
  "zero_history = \<lparr>h_cmdSlot = 0, h_phase = START, h_cmd = zero_command\<rparr>"

text \<open>\<open>leader\<close> is the first leader named by the quorum file, if there is a file.\<close>

definition New_n2 :: "int \<Rightarrow> nat \<Rightarrow> int \<Rightarrow> bool \<Rightarrow> int \<Rightarrow> int option \<Rightarrow> n2" where
  "New_n2 i n f exec pl leader =
     (let b = (case leader of None \<Rightarrow> 0 | Some l \<Rightarrow> l)
      in \<lparr>nId = i, nN = n, nF = f, nExec = exec, nDreply = True, ballot = b, cballot = b, n_status = NORMAL,
          isLeader = (b = i), lastCmdSlot = 0, slots = Map.empty, proposes = Map.empty, cmdDescs = Map.empty,
          delivered = {}, history = (\<lambda>_. zero_history), n_AQ = NewMajorityOf (int n), bat_As = [], bat_Bs = [],
          deliverChan = [], descPool = [], poolLevel = pl, routineCount = 0, todo = [], blocked = None,
          nState = InitState\<rparr>)"

subsection \<open>The batcher\<close>

definition Send2A :: "M2A \<Rightarrow> n2 \<Rightarrow> n2" where
  "Send2A a r = r\<lparr>bat_As := bat_As r @ [(a, None)]\<rparr>"

definition Send2B :: "M2B \<Rightarrow> n2 \<Rightarrow> n2" where
  "Send2B b r = r\<lparr>bat_Bs := bat_Bs r @ [(b, None)]\<rparr>"

definition Send2AClient :: "M2A \<Rightarrow> int \<Rightarrow> n2 \<Rightarrow> n2" where
  "Send2AClient a c r = r\<lparr>bat_As := bat_As r @ [(a, Some c)]\<rparr>"

definition Send2BClient :: "M2B \<Rightarrow> int \<Rightarrow> n2 \<Rightarrow> n2" where
  "Send2BClient b c r = r\<lparr>bat_Bs := bat_Bs r @ [(b, Some c)]\<rparr>"

text \<open>One round of the batcher's goroutine: everything that waits goes into one message; the first
  operation says whether a client gets it too.\<close>

definition send_twos :: "int option \<Rightarrow> n2 \<Rightarrow> n2 \<times> n2_out list" where
  "send_twos client r =
     (let twos = \<lparr>TwoAs = map fst (bat_As r), TwoBs = map fst (bat_Bs r)\<rparr>
      in (r\<lparr>bat_As := [], bat_Bs := []\<rparr>,
          N_SendAll twos # (case client of None \<Rightarrow> [] | Some c \<Rightarrow> [N_SendClient c twos])))"

definition batch_As :: "n2 \<Rightarrow> n2 \<times> n2_out list" where
  "batch_As r = (case bat_As r of [] \<Rightarrow> (r, []) | (_, client) # _ \<Rightarrow> send_twos client r)"

definition batch_Bs :: "n2 \<Rightarrow> n2 \<times> n2_out list" where
  "batch_Bs r = (case bat_Bs r of [] \<Rightarrow> (r, []) | (_, client) # _ \<Rightarrow> send_twos client r)"

subsection \<open>Delivery\<close>

text \<open>The condition of \<open>afterPayload\<close>.\<close>

definition payload :: "commandDesc \<Rightarrow> bool" where
  "payload d \<longleftrightarrow> n_SeqNum (cmdId d) \<noteq> -42"

text \<open>The function \<open>deliver\<close> defers, up to the mark.\<close>

definition deliver_body :: "int \<Rightarrow> commandDesc \<times> n2 \<Rightarrow> commandDesc \<times> n2" where
  "deliver_body slot dr =
     (case dr of (d, r) \<Rightarrow>
       if slot \<in> delivered r \<or> \<not> nExec r then (d, r)
       else if d_phase d \<noteq> COMMIT \<and> \<not> isLeader r then (d, r)
       else if 0 < slot \<and> slot - 1 \<notin> delivered r then (d, r)
       else
         let d = (case proposes r (cmdId d) of Some p \<Rightarrow> d\<lparr>d_propose := Some p\<rparr> | None \<Rightarrow> d)
         in if d_propose d = None then (d, r)
            else (d\<lparr>executing := True\<rparr>, r\<lparr>delivered := Set.insert slot (delivered r)\<rparr>))"

definition deliver :: "int \<Rightarrow> commandDesc \<Rightarrow> n2 \<Rightarrow> commandDesc \<times> n2" where
  "deliver slot d r =
     (if payload d then
        let (d, r) = fold deliver_body (afterPayload d @ [slot]) (d, r)
        in (d\<lparr>afterPayload := []\<rparr>, r)
      else (d\<lparr>afterPayload := afterPayload d @ [slot]\<rparr>, r))"

text \<open>\<open>afterPayload.Recall()\<close>.\<close>

definition recall :: "commandDesc \<Rightarrow> n2 \<Rightarrow> commandDesc \<times> n2" where
  "recall d r =
     (if afterPayload d \<noteq> [] \<and> payload d then
        let (d, r) = fold deliver_body (afterPayload d) (d, r)
        in (d\<lparr>afterPayload := []\<rparr>, r)
      else (d, r))"

subsection \<open>The handlers\<close>

definition get2BsHandler :: "commandDesc \<Rightarrow> n2 \<Rightarrow> commandDesc \<times> n2" where
  "get2BsHandler d r = deliver (cmdSlot d) (d\<lparr>d_phase := COMMIT\<rparr>) r"

text \<open>The callbacks of the collector of 2B messages; \<open>freeMsg\<close> does nothing.\<close>

fun twoBs_events :: "M2B ms_event list \<Rightarrow> commandDesc \<Rightarrow> n2 \<Rightarrow> commandDesc \<times> n2" where
  "twoBs_events [] d r = (d, r)"
| "twoBs_events (FreeMsg _ # es) d r = twoBs_events es d r"
| "twoBs_events (Handle _ _ # es) d r = (case get2BsHandler d r of (d, r) \<Rightarrow> twoBs_events es d r)"

definition handle2B :: "M2B \<Rightarrow> commandDesc \<Rightarrow> n2 \<Rightarrow> commandDesc \<times> n2" where
  "handle2B msg d r =
     (if n_status r \<noteq> NORMAL \<or> ballot r \<noteq> b2_Ballot msg then (d, r)
      else
        let (ms, evs, _) = Add (twoBs d) (b2_Replica msg) False msg
        in twoBs_events evs (d\<lparr>twoBs := ms\<rparr>) r)"

definition handle2A :: "M2A \<Rightarrow> commandDesc \<Rightarrow> n2 \<Rightarrow> commandDesc \<times> n2" where
  "handle2A msg d r =
     (if n_status r \<noteq> NORMAL \<or> ballot r \<noteq> a2_Ballot msg then (d, r)
      else
        let d = d\<lparr>d_cmd := a2_Cmd msg, cmdId := a2_CmdId msg, cmdSlot := a2_CmdSlot msg\<rparr>;
            r = r\<lparr>slots := (slots r)(cmdId d \<mapsto> cmdSlot d)\<rparr>
        in if \<not> Contains (n_AQ r) (nId r) then recall d r
           else
             let twoB = \<lparr>b2_Replica = nId r, b2_Ballot = a2_Ballot msg, b2_CmdSlot = a2_CmdSlot msg\<rparr>
             in handle2B twoB d (Send2B twoB r))"

definition handlePropose_n2 :: "GPropose \<Rightarrow> int \<Rightarrow> commandDesc \<Rightarrow> n2 \<Rightarrow> commandDesc \<times> n2" where
  "handlePropose_n2 p slot d r =
     (if n_status r \<noteq> NORMAL \<or> d_propose d \<noteq> None then (d, r)
      else
        let d = d\<lparr>d_propose := Some p\<rparr>;
            twoA = \<lparr>a2_Replica = nId r, a2_Ballot = ballot r, a2_Cmd = p_Command (Propose p),
                    a2_CmdId = \<lparr>n_ClientId = p_ClientId (Propose p), n_SeqNum = p_CommandId (Propose p)\<rparr>,
                    a2_CmdSlot = slot\<rparr>
        in handle2A twoA d (Send2A twoA r))"

definition freeDesc :: "commandDesc \<Rightarrow> n2 \<Rightarrow> n2" where
  "freeDesc d r = (if 0 < poolLevel r then r\<lparr>descPool := d # descPool r\<rparr> else r)"

text \<open>\<open>handleMsg\<close> returns the descriptor, or no descriptor when it has been removed.\<close>

fun handleMsg :: "n2_msg \<Rightarrow> int \<Rightarrow> commandDesc \<Rightarrow> n2 \<Rightarrow> (commandDesc option \<times> n2) option" where
  "handleMsg (N_Propose p) slot d r = Some (apfst Some (handlePropose_n2 p slot d r))"
| "handleMsg (N_2A m) slot d r =
     Some (if a2_CmdSlot m = slot then apfst Some (handle2A m d r) else (Some d, r))"
| "handleMsg (N_2B m) slot d r =
     Some (if b2_CmdSlot m = slot then apfst Some (handle2B m d r) else (Some d, r))"
| "handleMsg N_Deliver slot d r = Some (apfst Some (deliver slot d r))"
| "handleMsg (N_Slot k) slot d r =
     (if 0 \<le> k \<and> k < HISTORY_SIZE
      then
        let d = d\<lparr>active := False\<rparr>;
            r = r\<lparr>history := (history r)(k := \<lparr>h_cmdSlot = slot, h_phase = d_phase d, h_cmd = d_cmd d\<rparr>)\<rparr>
        in Some (None, freeDesc d r)
      else None)"

subsection \<open>Descriptors\<close>

text \<open>\<open>pick\<close> is the object of the pool that is reused.\<close>

definition allocDesc :: "nat option \<Rightarrow> n2 \<Rightarrow> commandDesc option \<times> n2" where
  "allocDesc pick r =
     (case pick of
        Some k \<Rightarrow>
          if 0 < poolLevel r \<and> k < length (descPool r)
          then (Some (descPool r ! k), r\<lparr>descPool := take k (descPool r) @ drop (Suc k) (descPool r)\<rparr>)
          else (None, r)
      | None \<Rightarrow> (None, r))"

definition newDesc :: "nat option \<Rightarrow> n2 \<Rightarrow> commandDesc \<times> n2" where
  "newDesc pick r =
     (let (old, r) = allocDesc pick r
      in (\<lparr>cmdId = \<lparr>n_ClientId = (case old of None \<Rightarrow> 0 | Some d \<Rightarrow> n_ClientId (cmdId d)), n_SeqNum = -42\<rparr>,
           d_cmd = (case old of None \<Rightarrow> zero_command | Some d \<Rightarrow> d_cmd d),
           d_phase = START, cmdSlot = -1, d_propose = None,
           twoBs = ReinitMsgSet (map_option twoBs old) (n_AQ r) (\<lambda>_ _. True),
           afterPayload = [], d_msgs = (case old of None \<Rightarrow> [] | Some d \<Rightarrow> d_msgs d),
           active = True, seq = (MaxDescRoutines \<le> routineCount r), executing = False\<rparr>, r))"

definition put_desc :: "int \<Rightarrow> commandDesc option \<Rightarrow> n2 \<Rightarrow> n2" where
  "put_desc slot d r = r\<lparr>cmdDescs := (cmdDescs r)(slot := d)\<rparr>"

text \<open>The descriptor of a slot, created when there is none.\<close>

definition upsert :: "nat option \<Rightarrow> int \<Rightarrow> n2 \<Rightarrow> commandDesc \<times> n2" where
  "upsert pick slot r =
     (case cmdDescs r slot of
        Some d \<Rightarrow> (d, r)
      | None \<Rightarrow>
          let (d, r) = newDesc pick r; d = d\<lparr>cmdSlot := slot\<rparr>
          in (d, if seq d then r else r\<lparr>routineCount := i64 (routineCount r + 1)\<rparr>))"

text \<open>\<open>getCmdDesc\<close> and whether it returns a descriptor.\<close>

definition getCmdDesc :: "nat option \<Rightarrow> int \<Rightarrow> n2_msg \<Rightarrow> n2 \<Rightarrow> (bool \<times> n2) option" where
  "getCmdDesc pick slot msg r =
     (if slot \<in> delivered r then Some (False, r)
      else
        let (d, r) = upsert pick slot r
        in if seq d then do {
             (d, r) \<leftarrow> handleMsg msg slot d r;
             let r = (case d of Some d \<Rightarrow> if executing d then r\<lparr>blocked := Some slot\<rparr> else r | None \<Rightarrow> r);
             Some (True, put_desc slot d r)
           }
           else Some (True, put_desc slot (Some (d\<lparr>d_msgs := d_msgs d @ [msg]\<rparr>)) r))"

text \<open>One round of the goroutine of a descriptor.\<close>

definition handleDesc :: "int \<Rightarrow> n2 \<Rightarrow> n2 option" where
  "handleDesc slot r =
     (case cmdDescs r slot of
        None \<Rightarrow> Some r
      | Some d \<Rightarrow>
          if seq d \<or> executing d \<or> \<not> active d then Some r
          else case d_msgs d of
            [] \<Rightarrow> Some r
          | m # ms \<Rightarrow> do {
              (d, r) \<leftarrow> handleMsg m slot (d\<lparr>d_msgs := ms\<rparr>) r;
              let r = (if d = None then r\<lparr>routineCount := i64 (routineCount r - 1)\<rparr> else r);
              Some (put_desc slot d r)
            })"

fun is_slot :: "n2_msg \<Rightarrow> bool" where
  "is_slot (N_Slot _) = True"
| "is_slot _ = False"

text \<open>The rest of \<open>deliver\<close>, after the mark. A descriptor of the event loop then reads its channel up
  to the slot it has just put there.\<close>

definition finish_deliver :: "int \<Rightarrow> n2 \<Rightarrow> (n2 \<times> n2_out list) option" where
  "finish_deliver slot r =
     (case cmdDescs r slot of
        None \<Rightarrow> Some (r, [])
      | Some d \<Rightarrow>
          if \<not> executing d then Some (r, [])
          else do {
            (v, st) \<leftarrow> Execute (d_cmd d) (nState r);
            p \<leftarrow> d_propose d;
            let outs = (if Proxy p \<and> nDreply r
              then [N_Reply p \<lparr>OK = TRUE, CommandId = p_CommandId (Propose p), Value = v,
                      Timestamp = p_Timestamp (Propose p), LeaderId = 0, LogIndex = 0\<rparr>]
              else []);
            let r = r\<lparr>nState := st, deliverChan := deliverChan r @ [i64 (slot + 1)]\<rparr>;
            let d = d\<lparr>executing := False, d_msgs := d_msgs d @ [N_Slot slot]\<rparr>;
            if seq d then do {
              (d, r) \<leftarrow> (case dropWhile (Not \<circ> is_slot) (d_msgs d) of
                  [] \<Rightarrow> None
                | m # ms \<Rightarrow> handleMsg m slot (d\<lparr>d_msgs := ms\<rparr>) r);
              Some (put_desc slot d (r\<lparr>blocked := None\<rparr>), outs)
            }
            else Some (put_desc slot (Some d) r, outs)
          })"

subsection \<open>The event loop\<close>

datatype n2_event = N2_Deliver int "nat option" | N2_Propose GPropose "nat option" | N2_2A M2A "nat option"
  | N2_2B M2B "nat option" | N2_2s M2s | N2_Next "nat option" | N2_Desc int | N2_Finish int | N2_BatchA | N2_BatchB

definition main_ready :: "n2 \<Rightarrow> bool" where
  "main_ready r \<longleftrightarrow> todo r = [] \<and> blocked r = None"

definition main_call :: "nat option \<Rightarrow> int \<Rightarrow> n2_msg \<Rightarrow> n2 \<Rightarrow> (n2 \<times> n2_out list) option" where
  "main_call pick slot m r = do { (_, r) \<leftarrow> getCmdDesc pick slot m r; Some (r, []) }"

definition on_propose :: "nat option \<Rightarrow> GPropose \<Rightarrow> n2 \<Rightarrow> (n2 \<times> n2_out list) option" where
  "on_propose pick p r =
     (if isLeader r then do {
        (found, r) \<leftarrow> getCmdDesc pick (lastCmdSlot r) (N_Propose p) r;
        if found then Some (r\<lparr>lastCmdSlot := i64 (lastCmdSlot r + 1)\<rparr>, []) else None
      }
      else
        let c = \<lparr>n_ClientId = p_ClientId (Propose p), n_SeqNum = p_CommandId (Propose p)\<rparr>;
            r = r\<lparr>proposes := (proposes r)(c \<mapsto> p)\<rparr>
        in case slots r c of Some slot \<Rightarrow> main_call pick slot N_Deliver r | None \<Rightarrow> Some (r, []))"

fun run_n2 :: "n2_event \<Rightarrow> n2 \<Rightarrow> (n2 \<times> n2_out list) option" where
  "run_n2 (N2_Deliver slot pick) r =
     (if main_ready r \<and> slot \<in> set (deliverChan r)
      then main_call pick slot N_Deliver (r\<lparr>deliverChan := remove1 slot (deliverChan r)\<rparr>) else Some (r, []))"
| "run_n2 (N2_Propose p pick) r = (if main_ready r then on_propose pick p r else Some (r, []))"
| "run_n2 (N2_2A m pick) r = (if main_ready r then main_call pick (a2_CmdSlot m) (N_2A m) r else Some (r, []))"
| "run_n2 (N2_2B m pick) r = (if main_ready r then main_call pick (b2_CmdSlot m) (N_2B m) r else Some (r, []))"
| "run_n2 (N2_2s m) r =
     Some (if main_ready r
       then r\<lparr>todo := map (\<lambda>a. (a2_CmdSlot a, N_2A a)) (TwoAs m) @ map (\<lambda>b. (b2_CmdSlot b, N_2B b)) (TwoBs m)\<rparr>
       else r, [])"
| "run_n2 (N2_Next pick) r =
     (case (blocked r, todo r) of
        (None, (slot, m) # ms) \<Rightarrow> main_call pick slot m (r\<lparr>todo := ms\<rparr>)
      | _ \<Rightarrow> Some (r, []))"
| "run_n2 (N2_Desc slot) r = map_option (\<lambda>r. (r, [])) (handleDesc slot r)"
| "run_n2 (N2_Finish slot) r = finish_deliver slot r"
| "run_n2 N2_BatchA r = Some (batch_As r)"
| "run_n2 N2_BatchB r = Some (batch_Bs r)"

end
