(* ===== verification/N2_Props.thy ===== *)
theory N2_Props
  imports N2Paxos
begin

section \<open>Invariants of an N2Paxos replica\<close>

text \<open>
  The invariant \<open>node_ok\<close> of a replica of N2Paxos and its proof for every event. It is relative to two
  histories: \<open>A\<close>, the 2A messages of the leader in the order of the slots, and \<open>S\<close>, the 2B messages
  that have been sent. It says that whatever a replica holds for a slot agrees with \<open>A\<close>, that the
  acceptances it has counted are its own or in \<open>S\<close>, and which messages can be in the channel of a
  descriptor, so that an object reused from the pool brings no message that belongs to another slot.
  \<open>estep\<close> and \<open>fstep\<close> describe what an event does to the delivered slots and the store, and \<open>exec_ok\<close>
  relates both to \<open>A\<close> when deliveries do not overlap.
\<close>

definition twoA_of :: "int \<Rightarrow> GPropose \<Rightarrow> int \<Rightarrow> M2A" where
  "twoA_of L p slot =
     \<lparr>a2_Replica = L, a2_Ballot = L, a2_Cmd = p_Command (Propose p),
      a2_CmdId = \<lparr>n_ClientId = p_ClientId (Propose p), n_SeqNum = p_CommandId (Propose p)\<rparr>, a2_CmdSlot = slot\<rparr>"

definition twoA_ok :: "M2A list \<Rightarrow> M2A \<Rightarrow> bool" where
  "twoA_ok A m \<longleftrightarrow> 0 \<le> a2_CmdSlot m \<and> a2_CmdSlot m < int (length A) \<and> A ! nat (a2_CmdSlot m) = m"

definition twoB_ok :: "nat \<Rightarrow> int \<Rightarrow> M2B set \<Rightarrow> M2B \<Rightarrow> bool" where
  "twoB_ok N i S b \<longleftrightarrow> 0 \<le> b2_Replica b \<and> b2_Replica b < int N \<and> (b \<in> S \<or> b2_Replica b = i)"

definition accepted_by :: "nat \<Rightarrow> int \<Rightarrow> M2B set \<Rightarrow> int \<Rightarrow> int set" where
  "accepted_by N i S slot =
     {v. 0 \<le> v \<and> v < int N \<and> (v = i \<or> (\<exists>b \<in> S. b2_Replica b = v \<and> b2_CmdSlot b = slot))}"

definition twos_ok :: "nat \<Rightarrow> int \<Rightarrow> M2B set \<Rightarrow> int \<Rightarrow> M2B MsgSet \<Rightarrow> bool" where
  "twos_ok N i S slot ms \<longleftrightarrow>
     q ms = NewMajorityOf (int N) \<and> leaderMsg ms = None \<and> accept ms = (\<lambda>_ _. True) \<and> distinct (map fst (msgs ms)) \<and>
     (\<forall>(v, b) \<in> set (msgs ms). b2_Replica b = v \<and> b2_CmdSlot b = slot \<and> twoB_ok N i S b)"

fun is_propose :: "n2_msg \<Rightarrow> bool" where
  "is_propose (N_Propose _) = True"
| "is_propose _ = False"

fun msg_ok :: "nat \<Rightarrow> int \<Rightarrow> int \<Rightarrow> M2A list \<Rightarrow> M2B set \<Rightarrow> int \<Rightarrow> n2_msg \<Rightarrow> bool" where
  "msg_ok N L i A S slot (N_Propose p) =
     (i = L \<and> 0 \<le> slot \<and> slot < int (length A) \<and> A ! nat slot = twoA_of L p slot)"
| "msg_ok N L i A S slot (N_2A m) = (i \<noteq> L \<and> twoA_ok A m)"
| "msg_ok N L i A S slot (N_2B b) = twoB_ok N i S b"
| "msg_ok N L i A S slot N_Deliver = True"
| "msg_ok N L i A S slot (N_Slot k) = True"

definition prop_count :: "commandDesc \<Rightarrow> nat" where
  "prop_count d = length (filter is_propose (d_msgs d)) + (if d_propose d = None then 0 else 1)"

definition desc_ok :: "nat \<Rightarrow> int \<Rightarrow> int \<Rightarrow> M2A list \<Rightarrow> M2B set \<Rightarrow> int \<Rightarrow> commandDesc \<Rightarrow> bool" where
  "desc_ok N L i A S slot d \<longleftrightarrow>
     cmdSlot d = slot \<and> set (afterPayload d) \<subseteq> {slot} \<and>
     (payload d \<longrightarrow> 0 \<le> slot \<and> slot < int (length A) \<and> d_cmd d = a2_Cmd (A ! nat slot) \<and>
        cmdId d = a2_CmdId (A ! nat slot)) \<and>
     twos_ok N i S slot (twoBs d) \<and>
     (d_phase d = COMMIT \<longrightarrow> is_majority (int N) (accepted_by N i S slot)) \<and>
     (\<forall>m \<in> set (d_msgs d). msg_ok N L i A S slot m) \<and>
     (i = L \<longrightarrow> prop_count d \<le> 1 \<and> (payload d \<longrightarrow> d_propose d \<noteq> None) \<and>
        (d_propose d \<noteq> None \<longrightarrow> slot < int (length A))) \<and>
     (executing d \<longrightarrow> payload d \<and> d_propose d \<noteq> None)"

definition static_ok :: "nat \<Rightarrow> int \<Rightarrow> int \<Rightarrow> n2 \<Rightarrow> bool" where
  "static_ok N L i r \<longleftrightarrow>
     nId r = i \<and> 0 \<le> i \<and> i < int N \<and> ballot r = L \<and> n_status r = NORMAL \<and> isLeader r = (L = i) \<and>
     n_AQ r = NewMajorityOf (int N) \<and> nExec r \<and> (i = L \<longrightarrow> proposes r = Map.empty)"

definition bats_ok :: "int \<Rightarrow> int \<Rightarrow> M2A list \<Rightarrow> n2 \<Rightarrow> bool" where
  "bats_ok L i A r \<longleftrightarrow>
     (\<forall>x \<in> set (bat_As r). i = L \<and> twoA_ok A (fst x)) \<and> (\<forall>x \<in> set (bat_Bs r). b2_Replica (fst x) = i)"

definition ok2 :: "nat \<Rightarrow> int \<Rightarrow> int \<Rightarrow> M2A list \<Rightarrow> M2B set \<Rightarrow> int \<Rightarrow> commandDesc \<times> n2 \<Rightarrow> bool" where
  "ok2 N L i A S slot x \<longleftrightarrow> desc_ok N L i A S slot (fst x) \<and> static_ok N L i (snd x) \<and> bats_ok L i A (snd x)"

text \<open>What a handler may do to its descriptor and to the replica: mark the slot as delivered at most
  once, and otherwise only touch the index of slots and the batcher.\<close>

definition marks :: "int \<Rightarrow> commandDesc \<times> n2 \<Rightarrow> commandDesc \<times> n2 \<Rightarrow> bool" where
  "marks slot x y \<longleftrightarrow>
     slot \<notin> delivered (snd x) \<and> (0 < slot \<longrightarrow> slot - 1 \<in> delivered (snd x)) \<and> payload (fst y) \<and>
     (d_phase (fst y) = COMMIT \<or> isLeader (snd x)) \<and> delivered (snd y) = Set.insert slot (delivered (snd x)) \<and>
     executing (fst y)"

definition n2_frame :: "n2 \<Rightarrow> n2 \<Rightarrow> bool" where
  "n2_frame r r' \<longleftrightarrow> (\<exists>sl de as bs. r' = r\<lparr>slots := sl, delivered := de, bat_As := as, bat_Bs := bs\<rparr>)"

lemma n2_frame_refl [simp]: "n2_frame r r"
  unfolding n2_frame_def
  by (intro exI [of _ "slots r"] exI [of _ "delivered r"] exI [of _ "bat_As r"] exI [of _ "bat_Bs r"]) simp

lemma n2_frame_trans: "n2_frame r r' \<Longrightarrow> n2_frame r' r'' \<Longrightarrow> n2_frame r r''"
  unfolding n2_frame_def by (elim exE, simp) (intro exI, rule refl)

lemma n2_frame_updates [simp]:
  "n2_frame r (r\<lparr>delivered := de\<rparr>)" "n2_frame r (r\<lparr>slots := sl\<rparr>)" "n2_frame r (Send2A a r)" "n2_frame r (Send2B b r)"
  unfolding n2_frame_def Send2A_def Send2B_def
  by (rule exI [of _ "slots r"], rule exI [of _ "de"], rule exI [of _ "bat_As r"], rule exI [of _ "bat_Bs r"], simp)
    (rule exI [of _ "sl"], rule exI [of _ "delivered r"], rule exI [of _ "bat_As r"], rule exI [of _ "bat_Bs r"], simp,
     rule exI [of _ "slots r"], rule exI [of _ "delivered r"], rule exI [of _ "bat_As r @ [(a, None)]"],
       rule exI [of _ "bat_Bs r"], simp,
     rule exI [of _ "slots r"], rule exI [of _ "delivered r"], rule exI [of _ "bat_As r"],
       rule exI [of _ "bat_Bs r @ [(b, None)]"], simp)

lemma n2_frame_fields:
  assumes "n2_frame r r'"
  shows "nId r' = nId r" "ballot r' = ballot r" "n_status r' = n_status r" "isLeader r' = isLeader r"
    "n_AQ r' = n_AQ r" "nExec r' = nExec r" "proposes r' = proposes r" "lastCmdSlot r' = lastCmdSlot r"
    "cmdDescs r' = cmdDescs r" "descPool r' = descPool r" "poolLevel r' = poolLevel r"
    "routineCount r' = routineCount r" "todo r' = todo r" "blocked r' = blocked r" "nState r' = nState r"
    "deliverChan r' = deliverChan r"
  using assms unfolding n2_frame_def by (elim exE, simp)+

definition hstep :: "int \<Rightarrow> commandDesc \<times> n2 \<Rightarrow> commandDesc \<times> n2 \<Rightarrow> bool" where
  "hstep slot x y \<longleftrightarrow>
     n2_frame (snd x) (snd y) \<and>
     d_msgs (fst y) = d_msgs (fst x) \<and> seq (fst y) = seq (fst x) \<and> active (fst y) = active (fst x) \<and>
     (payload (fst x) \<longrightarrow> payload (fst y)) \<and> (d_phase (fst x) = COMMIT \<longrightarrow> d_phase (fst y) = COMMIT) \<and>
     (delivered (snd y) = delivered (snd x) \<and> executing (fst y) = executing (fst x) \<or> marks slot x y)"

lemma hstep_refl [simp]: "hstep slot x x"
  by (simp add: hstep_def)

lemma hstep_trans:
  assumes xy: "hstep slot x y" and yz: "hstep slot y z"
  shows "hstep slot x z"
proof -
  have f: "n2_frame (snd x) (snd y)" "n2_frame (snd y) (snd z)" using xy yz by (simp_all add: hstep_def)
  have l: "isLeader (snd y) = isLeader (snd x)" by (rule n2_frame_fields [OF f(1)])
  have "delivered (snd z) = delivered (snd x) \<and> executing (fst z) = executing (fst x) \<or> marks slot x z"
  proof (cases "marks slot x y")
    case True
    then have "\<not> marks slot y z" by (simp add: marks_def)
    with yz have "delivered (snd z) = delivered (snd y)" "executing (fst z) = executing (fst y)"
      unfolding hstep_def by simp_all
    with True yz show ?thesis unfolding hstep_def marks_def by (simp, blast)
  next
    case False
    with xy have "delivered (snd y) = delivered (snd x)" "executing (fst y) = executing (fst x)"
      unfolding hstep_def by simp_all
    with yz l show ?thesis unfolding hstep_def marks_def by simp
  qed
  with xy yz n2_frame_trans [OF f] show ?thesis unfolding hstep_def by simp
qed

lemma hstep_static: "hstep slot x y \<Longrightarrow> static_ok N L i (snd x) \<Longrightarrow> static_ok N L i (snd y)"
  unfolding hstep_def static_ok_def by (simp add: n2_frame_fields [of "snd x" "snd y"])

subsection \<open>Delivery\<close>

lemma ok2_mark:
  "ok2 N L i A S slot (d, r) \<Longrightarrow> payload d \<Longrightarrow> d_propose d \<noteq> None \<Longrightarrow>
     ok2 N L i A S slot (d\<lparr>executing := True\<rparr>, r\<lparr>delivered := Set.insert slot (delivered r)\<rparr>)"
  by (simp add: ok2_def desc_ok_def static_ok_def payload_def prop_count_def bats_ok_def)

lemma ok2_found:
  assumes "ok2 N L i A S slot (d, r)" and "proposes r (cmdId d) = Some p"
  shows "ok2 N L i A S slot (d\<lparr>d_propose := Some p\<rparr>, r)"
proof -
  have "i \<noteq> L"
  proof
    assume "i = L"
    then have "proposes r = Map.empty" using assms(1) unfolding ok2_def static_ok_def by simp
    with assms(2) show False by simp
  qed
  with assms(1) show ?thesis by (simp add: ok2_def desc_ok_def payload_def prop_count_def)
qed

lemma deliver_body_ok:
  assumes "ok2 N L i A S slot x" and "payload (fst x)"
  shows "ok2 N L i A S slot (deliver_body slot x) \<and> hstep slot x (deliver_body slot x) \<and>
    payload (fst (deliver_body slot x))"
proof -
  obtain d r where x: "x = (d, r)" by (cases x)
  obtain e where e: "e = (case proposes r (cmdId d) of Some p \<Rightarrow> d\<lparr>d_propose := Some p\<rparr> | None \<Rightarrow> d)" by simp
  have ok: "ok2 N L i A S slot (e, r)"
    using assms(1) ok2_found unfolding x e by (auto split: option.split)
  have f: "payload e" "d_phase e = d_phase d" "d_msgs e = d_msgs d" "seq e = seq d" "active e = active d"
      "executing e = executing d"
    using assms(2) unfolding x e by (simp_all add: payload_def split: option.split)
  show ?thesis
  proof (cases "slot \<in> delivered r \<or> \<not> nExec r \<or> d_phase d \<noteq> COMMIT \<and> \<not> isLeader r \<or>
      0 < slot \<and> slot - 1 \<notin> delivered r")
    case True
    then have "deliver_body slot x = (d, r)" unfolding x deliver_body_def prod.case by (elim disjE) simp_all
    with assms show ?thesis by (simp add: x)
  next
    case False
    then have b: "deliver_body slot x = (if d_propose e = None then (e, r)
        else (e\<lparr>executing := True\<rparr>, r\<lparr>delivered := Set.insert slot (delivered r)\<rparr>))"
      unfolding x deliver_body_def prod.case Let_def e [symmetric] by (simp only: de_Morgan_disj not_not if_False simp_thms)
    show ?thesis
    proof (cases "d_propose e = None")
      case True
      with b ok f show ?thesis by (simp add: x hstep_def)
    next
      case 3: False
      have "hstep slot x (e\<lparr>executing := True\<rparr>, r\<lparr>delivered := Set.insert slot (delivered r)\<rparr>)"
        using False f by (simp add: x hstep_def marks_def payload_def)
      with b ok2_mark [OF ok f(1) 3] 3 f(1) show ?thesis by (simp add: payload_def)
    qed
  qed
qed

lemma deliver_bodies_ok:
  "ok2 N L i A S slot x \<Longrightarrow> payload (fst x) \<Longrightarrow> set ss \<subseteq> {slot} \<Longrightarrow>
     ok2 N L i A S slot (fold deliver_body ss x) \<and> hstep slot x (fold deliver_body ss x)"
proof (induction ss arbitrary: x)
  case (Cons s ss)
  then have s: "s = slot" by simp
  note b = deliver_body_ok [OF Cons.prems(1,2)]
  then have "ok2 N L i A S slot (fold deliver_body ss (deliver_body slot x)) \<and>
      hstep slot (deliver_body slot x) (fold deliver_body ss (deliver_body slot x))"
    using Cons by simp
  with b hstep_trans show ?case unfolding s fold_simps by blast
qed simp

lemma ok2_clear: "ok2 N L i A S slot (d, r) \<Longrightarrow> set ss \<subseteq> {slot} \<Longrightarrow> ok2 N L i A S slot (d\<lparr>afterPayload := ss\<rparr>, r)"
  by (simp add: ok2_def desc_ok_def payload_def prop_count_def)

lemma hstep_clear: "hstep slot x (d, r) \<Longrightarrow> hstep slot x (d\<lparr>afterPayload := ss\<rparr>, r)"
  by (simp add: hstep_def marks_def payload_def)

lemma deliver_ok:
  assumes "ok2 N L i A S slot (d, r)"
  shows "ok2 N L i A S slot (deliver slot d r) \<and> hstep slot (d, r) (deliver slot d r)"
proof (cases "payload d")
  case True
  have "set (afterPayload d @ [slot]) \<subseteq> {slot}" using assms by (simp add: ok2_def desc_ok_def)
  from deliver_bodies_ok [OF assms _ this] True show ?thesis
    by (auto simp: deliver_def ok2_clear hstep_clear split: prod.splits)
next
  case False
  have "set (afterPayload d @ [slot]) \<subseteq> {slot}" using assms by (simp add: ok2_def desc_ok_def)
  with False assms show ?thesis by (simp add: deliver_def ok2_clear hstep_clear)
qed

lemma recall_ok:
  assumes "ok2 N L i A S slot (d, r)"
  shows "ok2 N L i A S slot (recall d r) \<and> hstep slot (d, r) (recall d r)"
proof -
  have "set (afterPayload d) \<subseteq> {slot}" using assms by (simp add: ok2_def desc_ok_def)
  from deliver_bodies_ok [OF assms _ this] assms show ?thesis
    by (auto simp: recall_def ok2_clear hstep_clear split: prod.splits)
qed

subsection \<open>Messages\<close>

lemma Add_twoB:
  assumes "twos_ok N i S slot ms" and "twoB_ok N i S b" and "b2_CmdSlot b = slot"
    and "Add ms (b2_Replica b) False b = (ms', evs, added)"
  shows "twos_ok N i S slot ms' \<and> (evs = [] \<or> (\<exists>l. evs = [Handle None l]) \<and> int N sdiv 2 + 1 \<le> int (length (msgs ms')))"
proof -
  have f: "Contains (q ms) (b2_Replica b)" "leaderMsg ms = None" "accept ms b (leaderMsg ms)" "Size (q ms) = int N sdiv 2 + 1"
    using assms(1) by (simp_all add: twos_ok_def NewMajorityOf_def)
  let ?ms = "ms\<lparr>msgs := msgs_put (b2_Replica b) b (msgs ms)\<rparr>"
  have "Add ms (b2_Replica b) False b =
      (?ms, if int N sdiv 2 + 1 \<le> int (length (msgs ?ms)) then [Handle None (map snd (msgs ?ms))] else [], True)"
    using f by (simp add: Add_def Let_def)
  then have e: "ms' = ?ms" "evs = (if int N sdiv 2 + 1 \<le> int (length (msgs ?ms)) then [Handle None (map snd (msgs ?ms))] else [])"
    using assms(4) by simp_all
  have "twos_ok N i S slot ?ms"
    using assms(1-3) by (auto simp: twos_ok_def msgs_put_def distinct_map_filter_fst)
  with e show ?thesis by simp
qed

lemma twos_majority:
  assumes "twos_ok N i S slot ms" and "int N sdiv 2 + 1 \<le> int (length (msgs ms))" and "0 < N"
  shows "is_majority (int N) (accepted_by N i S slot)"
proof -
  have "fst ` set (msgs ms) \<subseteq> accepted_by N i S slot"
    using assms(1) unfolding twos_ok_def accepted_by_def twoB_ok_def by fastforce
  moreover have fin: "finite (accepted_by N i S slot)"
    by (rule finite_subset [of _ "{0..<int N}"]) (auto simp: accepted_by_def)
  moreover have "card (fst ` set (msgs ms)) = length (msgs ms)"
    using assms(1) distinct_card [of "map fst (msgs ms)"] by (simp add: twos_ok_def)
  ultimately have "length (msgs ms) \<le> card (accepted_by N i S slot)" by (metis card_mono)
  then show ?thesis using assms(2,3) by (auto simp: is_majority_def accepted_by_def)
qed

lemma ok2_twoBs:
  "ok2 N L i A S slot (d, r) \<Longrightarrow> twos_ok N i S slot ms \<Longrightarrow> ok2 N L i A S slot (d\<lparr>twoBs := ms\<rparr>, r)"
  by (simp add: ok2_def desc_ok_def payload_def prop_count_def)

lemma ok2_commit:
  "ok2 N L i A S slot (d, r) \<Longrightarrow> is_majority (int N) (accepted_by N i S slot) \<Longrightarrow>
     ok2 N L i A S slot (d\<lparr>d_phase := COMMIT\<rparr>, r)"
  by (simp add: ok2_def desc_ok_def payload_def prop_count_def)

lemma handle2B_ok:
  assumes "ok2 N L i A S slot (d, r)" and "twoB_ok N i S b" and "b2_CmdSlot b = slot"
  shows "ok2 N L i A S slot (handle2B b d r) \<and> hstep slot (d, r) (handle2B b d r)"
proof (cases "n_status r \<noteq> NORMAL \<or> ballot r \<noteq> b2_Ballot b")
  case True
  then have "handle2B b d r = (d, r)" unfolding handle2B_def by (rule if_P)
  with assms(1) show ?thesis by simp
next
  case False
  obtain ms evs added where A: "Add (twoBs d) (b2_Replica b) False b = (ms, evs, added)"
    by (cases "Add (twoBs d) (b2_Replica b) False b")
  have e: "handle2B b d r = twoBs_events evs (d\<lparr>twoBs := ms\<rparr>) r"
    unfolding handle2B_def if_not_P [OF False] by (simp add: A)
  have "twos_ok N i S slot (twoBs d)" using assms(1) by (simp add: ok2_def desc_ok_def)
  note ms = Add_twoB [OF this assms(2,3) A]
  have ok: "ok2 N L i A S slot (d\<lparr>twoBs := ms\<rparr>, r)" using ok2_twoBs [OF assms(1)] ms by blast
  have h: "hstep slot (d, r) (d\<lparr>twoBs := ms\<rparr>, r)" by (simp add: hstep_def payload_def)
  show ?thesis
  proof (cases "evs = []")
    case True
    with e ok h show ?thesis by simp
  next
    case False
    with ms obtain l where l: "evs = [Handle None l]" "int N sdiv 2 + 1 \<le> int (length (msgs ms))" by blast
    have "0 < N" using assms(1) by (auto simp: ok2_def static_ok_def)
    with twos_majority ms l(2) have m: "is_majority (int N) (accepted_by N i S slot)" by blast
    let ?d = "d\<lparr>twoBs := ms, d_phase := COMMIT\<rparr>"
    have s: "cmdSlot d = slot" using assms(1) by (simp add: ok2_def desc_ok_def)
    have e2: "handle2B b d r = deliver slot ?d r"
      by (simp add: e l(1) get2BsHandler_def s split: prod.splits)
    have "hstep slot (d, r) (?d, r)" by (simp add: hstep_def payload_def)
    with deliver_ok [OF ok2_commit [OF ok m]] show ?thesis unfolding e2 by (blast intro: hstep_trans)
  qed
qed

lemma ok2_send2B:
  "ok2 N L i A S slot (d, r) \<Longrightarrow> b2_Replica b = i \<Longrightarrow> ok2 N L i A S slot (d, Send2B b r)"
  by (simp add: ok2_def static_ok_def bats_ok_def Send2B_def)

lemma ok2_send2A:
  "ok2 N L i A S slot (d, r) \<Longrightarrow> i = L \<Longrightarrow> twoA_ok A a \<Longrightarrow> ok2 N L i A S slot (d, Send2A a r)"
  by (simp add: ok2_def static_ok_def bats_ok_def Send2A_def)

lemma ok2_slots: "ok2 N L i A S slot (d, r) \<Longrightarrow> ok2 N L i A S slot (d, r\<lparr>slots := sl\<rparr>)"
  by (simp add: ok2_def static_ok_def bats_ok_def)

lemma ok2_payload:
  assumes "ok2 N L i A S slot (d, r)" and "twoA_ok A m" and "a2_CmdSlot m = slot" and "i = L \<longrightarrow> d_propose d \<noteq> None"
  shows "ok2 N L i A S slot (d\<lparr>d_cmd := a2_Cmd m, cmdId := a2_CmdId m, cmdSlot := a2_CmdSlot m\<rparr>, r)"
    "payload d \<longrightarrow> payload (d\<lparr>d_cmd := a2_Cmd m, cmdId := a2_CmdId m, cmdSlot := a2_CmdSlot m\<rparr>)"
  using assms by (simp_all add: ok2_def desc_ok_def payload_def prop_count_def twoA_ok_def)

lemma handle2A_ok:
  assumes "ok2 N L i A S slot (d, r)" and "twoA_ok A m" and "a2_CmdSlot m = slot" and "i = L \<longrightarrow> d_propose d \<noteq> None"
  shows "ok2 N L i A S slot (handle2A m d r) \<and> hstep slot (d, r) (handle2A m d r)"
proof (cases "n_status r \<noteq> NORMAL \<or> ballot r \<noteq> a2_Ballot m")
  case True
  then have "handle2A m d r = (d, r)" unfolding handle2A_def by (rule if_P)
  with assms(1) show ?thesis by simp
next
  case False
  let ?d = "d\<lparr>d_cmd := a2_Cmd m, cmdId := a2_CmdId m, cmdSlot := a2_CmdSlot m\<rparr>"
  let ?r = "r\<lparr>slots := (slots r)(a2_CmdId m \<mapsto> a2_CmdSlot m)\<rparr>"
  let ?b = "\<lparr>b2_Replica = i, b2_Ballot = a2_Ballot m, b2_CmdSlot = slot\<rparr>"
  have st: "nId r = i" "n_AQ r = NewMajorityOf (int N)" "0 \<le> i" "i < int N"
    using assms(1) by (simp_all add: ok2_def static_ok_def)
  have e: "handle2A m d r = handle2B ?b ?d (Send2B ?b ?r)"
    unfolding handle2A_def if_not_P [OF False] using assms(3) by (simp add: st NewMajorityOf_def Let_def)
  note p = ok2_payload [OF assms]
  have ok: "ok2 N L i A S slot (?d, Send2B ?b ?r)"
    by (rule ok2_send2B [OF ok2_slots [OF p(1)]]) simp
  have f: "n2_frame r (Send2B ?b ?r)" by (rule n2_frame_trans [of r ?r]) simp_all
  have h: "hstep slot (d, r) (?d, Send2B ?b ?r)"
    using p(2) f by (simp add: hstep_def) (simp add: Send2B_def)
  have b: "twoB_ok N i S ?b" using st by (simp add: twoB_ok_def)
  have "b2_CmdSlot ?b = slot" by simp
  from handle2B_ok [OF ok b this] h show ?thesis unfolding e by (blast intro: hstep_trans)
qed

lemma n2_handlePropose_ok:
  assumes "ok2 N L i A S slot (d, r)" and "i = L" and "0 \<le> slot" and "slot < int (length A)"
    and "A ! nat slot = twoA_of L p slot" and "filter is_propose (d_msgs d) = []"
  shows "ok2 N L i A S slot (handlePropose_n2 p slot d r) \<and> hstep slot (d, r) (handlePropose_n2 p slot d r)"
proof (cases "n_status r \<noteq> NORMAL \<or> d_propose d \<noteq> None")
  case True
  then have "handlePropose_n2 p slot d r = (d, r)" unfolding handlePropose_n2_def by (rule if_P)
  with assms(1) show ?thesis by simp
next
  case False
  let ?d = "d\<lparr>d_propose := Some p\<rparr>" and ?a = "twoA_of L p slot"
  have st: "nId r = L" "ballot r = L" using assms(1,2) by (simp_all add: ok2_def static_ok_def)
  have e: "handlePropose_n2 p slot d r = handle2A ?a ?d (Send2A ?a r)"
    unfolding handlePropose_n2_def if_not_P [OF False] by (simp add: st twoA_of_def Let_def)
  have a: "twoA_ok A ?a" "a2_CmdSlot ?a = slot"
    unfolding twoA_ok_def using assms(3-5) by (simp_all add: twoA_of_def)
  have "ok2 N L i A S slot (?d, r)"
    using assms(1,2,4,6) False by (simp add: ok2_def desc_ok_def payload_def prop_count_def)
  from ok2_send2A [OF this assms(2) a(1)] have ok: "ok2 N L i A S slot (?d, Send2A ?a r)" .
  have h: "hstep slot (d, r) (?d, Send2A ?a r)" by (simp add: hstep_def payload_def) (simp add: Send2A_def)
  from handle2A_ok [OF ok a] h show ?thesis unfolding e by (auto intro: hstep_trans)
qed

subsection \<open>The invariant\<close>

definition chan_ok :: "nat \<Rightarrow> int \<Rightarrow> int \<Rightarrow> M2A list \<Rightarrow> M2B set \<Rightarrow> n2_msg \<Rightarrow> bool" where
  "chan_ok N L i A S m \<longleftrightarrow> \<not> is_propose m \<and> \<not> is_slot m \<and> msg_ok N L i A S 0 m"

definition entry_ok :: "nat \<Rightarrow> int \<Rightarrow> int \<Rightarrow> M2A list \<Rightarrow> M2B set \<Rightarrow> n2 \<Rightarrow> int \<Rightarrow> commandDesc \<Rightarrow> bool" where
  "entry_ok N L i A S r slot d \<longleftrightarrow>
     desc_ok N L i A S slot d \<and> (executing d \<longrightarrow> slot \<in> delivered r) \<and> (slot \<in> delivered r \<longrightarrow> payload d) \<and>
     filter is_slot (d_msgs d) = (if slot \<in> delivered r \<and> \<not> executing d then [N_Slot slot] else [])"

definition node_ok :: "nat \<Rightarrow> int \<Rightarrow> int \<Rightarrow> M2A list \<Rightarrow> M2B set \<Rightarrow> n2 \<Rightarrow> bool" where
  "node_ok N L i A S r \<longleftrightarrow>
     static_ok N L i r \<and> bats_ok L i A r \<and>
     (\<forall>slot d. cmdDescs r slot = Some d \<longrightarrow> entry_ok N L i A S r slot d) \<and>
     (\<forall>d \<in> set (descPool r). \<forall>m \<in> set (d_msgs d). chan_ok N L i A S m) \<and>
     (\<forall>x \<in> set (todo r). chan_ok N L i A S (snd x)) \<and>
     (\<forall>slot \<in> delivered r. i = L \<or> is_majority (int N) (accepted_by N i S slot))"

definition exset :: "n2 \<Rightarrow> int set" where
  "exset r = {slot. \<exists>d. cmdDescs r slot = Some d \<and> executing d}"

text \<open>What a step does to the delivered slots and the store: nothing, or one slot is marked.\<close>

definition estep :: "M2A list \<Rightarrow> n2 \<Rightarrow> n2 \<Rightarrow> bool" where
  "estep A r r' \<longleftrightarrow> nState r' = nState r \<and>
     (delivered r' = delivered r \<and> exset r' = exset r \<or>
      (\<exists>slot. 0 \<le> slot \<and> slot < int (length A) \<and> slot \<notin> delivered r \<and> (0 < slot \<longrightarrow> slot - 1 \<in> delivered r) \<and>
         delivered r' = Set.insert slot (delivered r) \<and> exset r' = Set.insert slot (exset r)))"

lemma estep_refl: "nState r' = nState r \<Longrightarrow> delivered r' = delivered r \<Longrightarrow> exset r' = exset r \<Longrightarrow> estep A r r'"
  by (simp add: estep_def)

lemma msg_ok_chan: "chan_ok N L i A S m \<Longrightarrow> msg_ok N L i A S slot m"
  by (cases m) (simp_all add: chan_ok_def)

lemma exset_put: "exset (put_desc slot (Some d) r) = (if executing d then Set.insert slot (exset r) else exset r - {slot})"
  by (auto simp: exset_def put_desc_def)

lemma exset_remove: "exset (put_desc slot None r) = exset r - {slot}"
  by (auto simp: exset_def put_desc_def)

lemma put_back:
  assumes "node_ok N L i A S r" and d: "entry_ok N L i A S r slot d"
    and h: "hstep slot (d, r) (d', r')" and ok: "ok2 N L i A S slot (d', r')"
    and ex: "slot \<in> exset r \<longleftrightarrow> executing d"
  shows "node_ok N L i A S (put_desc slot (Some d') r') \<and> estep A r (put_desc slot (Some d') r') \<and>
    lastCmdSlot (put_desc slot (Some d') r') = lastCmdSlot r"
proof -
  have f: "n2_frame r r'" and m: "d_msgs d' = d_msgs d" "payload d \<longrightarrow> payload d'"
    and c: "delivered r' = delivered r \<and> executing d' = executing d \<or> marks slot (d, r) (d', r')"
    using h by (simp_all add: hstep_def)
  note ff = n2_frame_fields [OF f]
  have dok: "desc_ok N L i A S slot d'" "static_ok N L i r'" "bats_ok L i A r'" using ok by (simp_all add: ok2_def)
  have del: "slot' \<in> delivered r' \<longleftrightarrow> slot' \<in> delivered r" if "slot' \<noteq> slot" for slot'
    using c that by (auto simp: marks_def)
  have entry: "entry_ok N L i A S (put_desc slot (Some d') r') slot d'"
    using c d dok(1) m by (auto simp: entry_ok_def marks_def put_desc_def split: if_splits)
  have others: "entry_ok N L i A S (put_desc slot (Some d') r') t e" if "cmdDescs r t = Some e" "t \<noteq> slot" for t e
    using assms(1) that del [OF that(2)] by (simp add: node_ok_def entry_ok_def put_desc_def)
  have maj: "i = L \<or> is_majority (int N) (accepted_by N i S t)" if "t \<in> delivered r'" for t
  proof (cases "t \<in> delivered r")
    case True
    with assms(1) show ?thesis unfolding node_ok_def by blast
  next
    case False
    with that del c have "t = slot" "marks slot (d, r) (d', r')" by auto
    then have "d_phase d' = COMMIT \<or> isLeader r" by (simp add: marks_def)
    with dok(1) assms(1) \<open>t = slot\<close> show ?thesis by (auto simp: desc_ok_def node_ok_def static_ok_def)
  qed
  have "node_ok N L i A S (put_desc slot (Some d') r')"
    unfolding node_ok_def
  proof (intro conjI allI ballI impI)
    show "static_ok N L i (put_desc slot (Some d') r')" "bats_ok L i A (put_desc slot (Some d') r')"
      using dok by (simp_all add: static_ok_def bats_ok_def put_desc_def)
    fix t e assume "cmdDescs (put_desc slot (Some d') r') t = Some e"
    then show "entry_ok N L i A S (put_desc slot (Some d') r') t e"
      using entry others by (cases "t = slot") (simp_all add: put_desc_def ff)
  qed (use assms(1) maj ff in \<open>simp_all add: node_ok_def put_desc_def\<close>)
  moreover have "estep A r (put_desc slot (Some d') r')"
  proof -
    have e: "exset r' = exset r" by (simp add: exset_def ff)
    have n: "nState (put_desc slot (Some d') r') = nState r" "delivered (put_desc slot (Some d') r') = delivered r'"
      by (simp_all add: put_desc_def ff)
    from c show ?thesis
    proof
      assume "delivered r' = delivered r \<and> executing d' = executing d"
      with ex e n show ?thesis by (intro estep_refl) (auto simp: exset_put)
    next
      assume k: "marks slot (d, r) (d', r')"
      then have "payload d'" by (simp add: marks_def)
      with dok(1) have "0 \<le> slot" "slot < int (length A)" by (simp_all add: desc_ok_def)
      with k n e show ?thesis unfolding estep_def exset_put by (auto simp: marks_def)
    qed
  qed
  moreover have "lastCmdSlot (put_desc slot (Some d') r') = lastCmdSlot r" by (simp add: put_desc_def ff)
  ultimately show ?thesis by blast
qed

subsection \<open>Steps of the event loop and of the descriptors\<close>

lemma handleMsg_ok:
  assumes ok: "ok2 N L i A S slot (d, r)" and m: "msg_ok N L i A S slot m" "\<not> is_slot m"
    and p: "is_propose m \<longrightarrow> filter is_propose (d_msgs d) = []" and h: "handleMsg m slot d r = Some (e, r')"
  shows "\<exists>d'. e = Some d' \<and> ok2 N L i A S slot (d', r') \<and> hstep slot (d, r) (d', r')"
proof (cases m)
  case (N_Propose q)
  with m p have "i = L" "0 \<le> slot" "slot < int (length A)" "A ! nat slot = twoA_of L q slot"
      "filter is_propose (d_msgs d) = []" by simp_all
  from n2_handlePropose_ok [OF ok this] h N_Propose show ?thesis by (cases "handlePropose_n2 q slot d r") auto
next
  case (N_2A a)
  with m have a: "i = L \<longrightarrow> d_propose d \<noteq> None" "twoA_ok A a" by simp_all
  show ?thesis
  proof (cases "a2_CmdSlot a = slot")
    case True
    from handle2A_ok [OF ok a(2) True a(1)] h True show ?thesis unfolding N_2A by (cases "handle2A a d r") auto
  next
    case False
    with h ok show ?thesis unfolding N_2A by auto
  qed
next
  case (N_2B b)
  with m have b: "twoB_ok N i S b" by simp
  show ?thesis
  proof (cases "b2_CmdSlot b = slot")
    case True
    from handle2B_ok [OF ok b True] h True show ?thesis unfolding N_2B by (cases "handle2B b d r") auto
  next
    case False
    with h ok show ?thesis unfolding N_2B by auto
  qed
next
  case N_Deliver
  from deliver_ok [OF ok] h show ?thesis unfolding N_Deliver by (cases "deliver slot d r") auto
qed (use m in simp)

lemma allocDesc_ok:
  assumes "allocDesc pick r = (old, r1)"
  obtains ps where "r1 = r\<lparr>descPool := ps\<rparr>" "set ps \<subseteq> set (descPool r)" "\<forall>d \<in> set_option old. d \<in> set (descPool r)"
proof (cases "\<exists>k. pick = Some k \<and> 0 < poolLevel r \<and> k < length (descPool r)")
  case True
  then obtain k where k: "pick = Some k" "0 < poolLevel r" "k < length (descPool r)" by blast
  let ?ps = "take k (descPool r) @ drop (Suc k) (descPool r)"
  have "r1 = r\<lparr>descPool := ?ps\<rparr>" "old = Some (descPool r ! k)" using assms k by (simp_all add: allocDesc_def)
  moreover have "set ?ps \<subseteq> set (descPool r)" by (auto dest: in_set_takeD in_set_dropD)
  ultimately show ?thesis using that [of ?ps] k(3) by simp
next
  case False
  then have "allocDesc pick r = (None, r)" by (auto simp: allocDesc_def split: option.split)
  with assms have "r1 = r" "old = None" by simp_all
  then show ?thesis using that [of "descPool r"] by simp
qed

lemma newDesc_ok:
  assumes "node_ok N L i A S r" and "newDesc pick r = (d, r')"
  obtains ps where "r' = r\<lparr>descPool := ps\<rparr>" "set ps \<subseteq> set (descPool r)"
    "\<forall>m \<in> set (d_msgs d). chan_ok N L i A S m" "n_SeqNum (cmdId d) = -42" "d_phase d = START" "d_propose d = None"
    "afterPayload d = []" "\<not> executing d" "twos_ok N i S slot (twoBs d)"
proof -
  obtain old r1 where a: "allocDesc pick r = (old, r1)" by (cases "allocDesc pick r")
  from allocDesc_ok [OF a] obtain ps where ps: "r1 = r\<lparr>descPool := ps\<rparr>" "set ps \<subseteq> set (descPool r)"
    "\<forall>d \<in> set_option old. d \<in> set (descPool r)" .
  have AQ: "n_AQ r1 = NewMajorityOf (int N)" using ps(1) assms(1) by (simp add: node_ok_def static_ok_def)
  have ch: "\<forall>m \<in> set (case old of None \<Rightarrow> [] | Some d \<Rightarrow> d_msgs d). chan_ok N L i A S m"
    using ps(3) assms(1) unfolding node_ok_def by (cases old) simp_all
  have tw: "twos_ok N i S slot (ReinitMsgSet (map_option twoBs old) (n_AQ r1) (\<lambda>_ _. True))"
    by (cases old) (simp_all add: AQ twos_ok_def ReinitMsgSet_def NewMsgSet_def)
  show ?thesis
  proof (rule that)
    show "r' = r\<lparr>descPool := ps\<rparr>" using assms(2) ps(1) by (simp add: newDesc_def a)
  qed (use assms(2) ps ch tw in \<open>auto simp: newDesc_def a\<close>)
qed

lemma entry_ok_cong: "delivered r' = delivered r \<Longrightarrow> entry_ok N L i A S r' slot d = entry_ok N L i A S r slot d"
  by (simp add: entry_ok_def)

lemma node_ok_pool:
  assumes "node_ok N L i A S r" and "set ps \<subseteq> set (descPool r)"
  shows "node_ok N L i A S (r\<lparr>descPool := ps, routineCount := c\<rparr>)" "node_ok N L i A S (r\<lparr>descPool := ps\<rparr>)"
proof -
  have "\<forall>d \<in> set ps. \<forall>m \<in> set (d_msgs d). chan_ok N L i A S m" using assms unfolding node_ok_def by blast
  then show "node_ok N L i A S (r\<lparr>descPool := ps, routineCount := c\<rparr>)" "node_ok N L i A S (r\<lparr>descPool := ps\<rparr>)"
    using assms(1) unfolding node_ok_def static_ok_def bats_ok_def
    by (simp_all add: entry_ok_cong [of "r\<lparr>descPool := ps, routineCount := c\<rparr>" r] entry_ok_cong [of "r\<lparr>descPool := ps\<rparr>" r])
qed

lemma upsert_ok:
  assumes ok: "node_ok N L i A S r" and new: "slot \<notin> delivered r" and u: "upsert pick slot r = (d, r')"
  shows "node_ok N L i A S r' \<and> entry_ok N L i A S r' slot d \<and> cmdDescs r' = cmdDescs r \<and> delivered r' = delivered r \<and>
    nState r' = nState r \<and> lastCmdSlot r' = lastCmdSlot r \<and> \<not> executing d \<and> slot \<notin> exset r \<and>
    (cmdDescs r slot = Some d \<or> prop_count d = 0)"
proof (cases "cmdDescs r slot")
  case (Some e)
  with u have e: "d = e" "r' = r" by (simp_all add: upsert_def)
  have "entry_ok N L i A S r slot e" using ok Some by (simp add: node_ok_def)
  with new Some ok e show ?thesis by (simp add: entry_ok_def exset_def)
next
  case None
  obtain d1 r1 where n: "newDesc pick r = (d1, r1)" by (cases "newDesc pick r")
  from newDesc_ok [OF ok n, of slot] obtain ps where ps: "r1 = r\<lparr>descPool := ps\<rparr>" "set ps \<subseteq> set (descPool r)"
    and d1: "\<forall>m \<in> set (d_msgs d1). chan_ok N L i A S m" "n_SeqNum (cmdId d1) = -42" "d_phase d1 = START"
      "d_propose d1 = None" "afterPayload d1 = []" "\<not> executing d1" "twos_ok N i S slot (twoBs d1)" .
  have e: "d = d1\<lparr>cmdSlot := slot\<rparr>" "r' = (if seq d1 then r1 else r1\<lparr>routineCount := i64 (routineCount r1 + 1)\<rparr>)"
    using u None by (simp_all add: upsert_def n Let_def)
  have "filter is_slot (d_msgs d1) = []" "filter is_propose (d_msgs d1) = []"
    using d1(1) by (auto simp: chan_ok_def filter_empty_conv)
  then have "entry_ok N L i A S r slot d" "prop_count d = 0"
    using d1 new by (simp_all add: e entry_ok_def desc_ok_def prop_count_def payload_def msg_ok_chan)
  moreover have "node_ok N L i A S r'"
    unfolding e(2) ps(1) using node_ok_pool [OF ok ps(2)] by simp
  ultimately show ?thesis
    using None d1(6) by (simp add: e ps exset_def entry_ok_def)
qed

lemma node_ok_blocked: "node_ok N L i A S r \<Longrightarrow> node_ok N L i A S (r\<lparr>blocked := b\<rparr>)"
  unfolding node_ok_def static_ok_def bats_ok_def by (simp add: entry_ok_cong [of "r\<lparr>blocked := b\<rparr>" r])

lemma put_desc_blocked: "put_desc slot d (r\<lparr>blocked := b\<rparr>) = (put_desc slot d r)\<lparr>blocked := b\<rparr>"
  by (simp add: put_desc_def)

lemma estep_blocked: "estep A r r' \<Longrightarrow> estep A r (r'\<lparr>blocked := b\<rparr>)"
  by (simp add: estep_def exset_def)

lemma entry_ok_send:
  assumes "entry_ok N L i A S r slot d" and "msg_ok N L i A S slot m" "\<not> is_slot m"
    and "is_propose m \<longrightarrow> prop_count d = 0"
  shows "entry_ok N L i A S r slot (d\<lparr>d_msgs := d_msgs d @ [m]\<rparr>)"
  using assms by (auto simp: entry_ok_def desc_ok_def prop_count_def payload_def)

lemma getCmdDesc_ok:
  assumes ok: "node_ok N L i A S r" and g: "getCmdDesc pick slot m r = Some (b, r')"
    and m: "msg_ok N L i A S slot m" "\<not> is_slot m"
    and p: "is_propose m \<longrightarrow> (\<forall>d. cmdDescs r slot = Some d \<longrightarrow> prop_count d = 0)"
  shows "node_ok N L i A S r' \<and> estep A r r' \<and> lastCmdSlot r' = lastCmdSlot r"
proof (cases "slot \<in> delivered r")
  case True
  with g have "r' = r" by (simp add: getCmdDesc_def)
  with ok show ?thesis by (simp add: estep_refl)
next
  case False
  obtain d r1 where u: "upsert pick slot r = (d, r1)" by (cases "upsert pick slot r")
  note uo = upsert_ok [OF ok False u]
  then have n1: "node_ok N L i A S r1" and e1: "entry_ok N L i A S r1 slot d" by blast+
  have ex: "exset r1 = exset r" "slot \<in> exset r1 \<longleftrightarrow> executing d" using uo by (auto simp: exset_def)
  have p0: "is_propose m \<longrightarrow> prop_count d = 0" using p uo by auto
  have tr: "estep A r x" if "estep A r1 x" for x using that uo ex unfolding estep_def by auto
  show ?thesis
  proof (cases "seq d")
    case True
    have ok2: "ok2 N L i A S slot (d, r1)" using n1 e1 by (simp add: ok2_def node_ok_def entry_ok_def)
    from g False u True obtain e r2 where h: "handleMsg m slot d r1 = Some (e, r2)"
      and r': "r' = put_desc slot e (case e of Some d \<Rightarrow> if executing d then r2\<lparr>blocked := Some slot\<rparr> else r2 | None \<Rightarrow> r2)"
      by (auto simp: getCmdDesc_def split: Option.bind_splits)
    have "is_propose m \<longrightarrow> filter is_propose (d_msgs d) = []" using p0 by (simp add: prop_count_def)
    from handleMsg_ok [OF ok2 m this h] obtain d' where d': "e = Some d'" "ok2 N L i A S slot (d', r2)"
      "hstep slot (d, r1) (d', r2)" by blast
    note pb = put_back [OF n1 e1 d'(3,2) ex(2)]
    then have "node_ok N L i A S r' \<and> estep A r1 r' \<and> lastCmdSlot r' = lastCmdSlot r1"
      unfolding r' d'(1) by (simp add: put_desc_blocked node_ok_blocked estep_blocked)
    with tr uo show ?thesis by simp
  next
    case 2: False
    let ?d = "d\<lparr>d_msgs := d_msgs d @ [m]\<rparr>"
    have r': "r' = put_desc slot (Some ?d) r1" using g False u 2 by (simp add: getCmdDesc_def)
    note e2 = entry_ok_send [OF e1 m p0]
    have ok2: "ok2 N L i A S slot (?d, r1)" using n1 e2 by (simp add: ok2_def node_ok_def entry_ok_def)
    have "slot \<in> exset r1 \<longleftrightarrow> executing ?d" using ex by simp
    from put_back [OF n1 e2 hstep_refl ok2 this] tr uo show ?thesis unfolding r' by simp
  qed
qed

lemma entry_ok_pop:
  assumes "entry_ok N L i A S r slot d" and "d_msgs d = m # ms" and "\<not> is_slot m"
  shows "entry_ok N L i A S r slot (d\<lparr>d_msgs := ms\<rparr>)" "msg_ok N L i A S slot m"
    "is_propose m \<longrightarrow> filter is_propose ms = []"
proof -
  have d: "desc_ok N L i A S slot d" using assms(1) by (simp add: entry_ok_def)
  then have m: "msg_ok N L i A S slot m" by (simp add: desc_ok_def assms(2))
  then show "msg_ok N L i A S slot m" .
  have c: "i = L \<longrightarrow> prop_count d \<le> 1" using d by (simp add: desc_ok_def)
  show "is_propose m \<longrightarrow> filter is_propose ms = []"
  proof
    assume p: "is_propose m"
    with m have "i = L" by (cases m) simp_all
    with c p show "filter is_propose ms = []" by (simp add: prop_count_def assms(2) split: if_splits)
  qed
  have "prop_count (d\<lparr>d_msgs := ms\<rparr>) \<le> prop_count d" by (simp add: prop_count_def assms(2))
  with c have "i = L \<longrightarrow> prop_count (d\<lparr>d_msgs := ms\<rparr>) \<le> 1" by linarith
  with d have "desc_ok N L i A S slot (d\<lparr>d_msgs := ms\<rparr>)"
    by (simp add: desc_ok_def payload_def assms(2))
  with assms show "entry_ok N L i A S r slot (d\<lparr>d_msgs := ms\<rparr>)" by (simp add: entry_ok_def payload_def)
qed

text \<open>The end of a descriptor: its channel holds nothing that another slot could mistake for its own.\<close>

lemma node_ok_remove:
  assumes "node_ok N L i A S r" and "\<forall>m \<in> set (d_msgs d). chan_ok N L i A S m"
  shows "node_ok N L i A S (put_desc slot None (freeDesc d (r\<lparr>history := hi, routineCount := c\<rparr>)))"
    "node_ok N L i A S (put_desc slot None (freeDesc d (r\<lparr>history := hi\<rparr>)))"
proof -
  let ?r = "put_desc slot None (freeDesc d (r\<lparr>history := hi, routineCount := c\<rparr>))"
    and ?q = "put_desc slot None (freeDesc d (r\<lparr>history := hi\<rparr>))"
  have "delivered ?r = delivered r" "delivered ?q = delivered r" by (simp_all add: put_desc_def freeDesc_def)
  note ec = entry_ok_cong [OF this(1)] entry_ok_cong [OF this(2)]
  have d: "cmdDescs ?r = (cmdDescs r)(slot := None)" "cmdDescs ?q = (cmdDescs r)(slot := None)"
    by (simp_all add: put_desc_def freeDesc_def)
  have p: "set (descPool ?r) \<subseteq> Set.insert d (set (descPool r))" "set (descPool ?q) \<subseteq> Set.insert d (set (descPool r))"
    by (auto simp: put_desc_def freeDesc_def)
  have o: "static_ok N L i ?r = static_ok N L i r" "bats_ok L i A ?r = bats_ok L i A r" "todo ?r = todo r"
    "delivered ?r = delivered r" "static_ok N L i ?q = static_ok N L i r" "bats_ok L i A ?q = bats_ok L i A r"
    "todo ?q = todo r" "delivered ?q = delivered r"
    by (simp_all add: put_desc_def freeDesc_def static_ok_def bats_ok_def)
  have e: "\<forall>slot' e. ((cmdDescs r)(slot := None)) slot' = Some e \<longrightarrow> entry_ok N L i A S r slot' e"
    using assms(1) by (simp add: node_ok_def)
  have q: "\<forall>e \<in> Set.insert d (set (descPool r)). \<forall>m \<in> set (d_msgs e). chan_ok N L i A S m"
    using assms unfolding node_ok_def by simp
  show "node_ok N L i A S ?r" "node_ok N L i A S ?q"
    unfolding node_ok_def ec d o using assms(1) e q p unfolding node_ok_def by blast+
qed

lemma slot_last:
  assumes e: "entry_ok N L i A S r slot d" and "d_msgs d = N_Slot k # ms"
  shows "k = slot \<and> slot \<in> delivered r \<and> \<not> executing d \<and> (\<forall>m \<in> set ms. chan_ok N L i A S m)"
proof -
  have f: "N_Slot k # filter is_slot ms = (if slot \<in> delivered r \<and> \<not> executing d then [N_Slot slot] else [])"
    using e assms(2) by (simp add: entry_ok_def)
  then have k: "k = slot" "slot \<in> delivered r" "\<not> executing d" "filter is_slot ms = []" by (simp_all split: if_splits)
  have d: "desc_ok N L i A S slot d" and p: "payload d" using e k(2) by (simp_all add: entry_ok_def)
  have "\<not> is_propose m \<and> msg_ok N L i A S 0 m" if "m \<in> set ms" for m
  proof -
    have m: "msg_ok N L i A S slot m" using d that assms(2) by (simp add: desc_ok_def)
    have "i = L \<longrightarrow> filter is_propose ms = []"
      using d p assms(2) by (simp add: desc_ok_def prop_count_def split: if_splits)
    with m that have "\<not> is_propose m" by (cases m) (auto simp: filter_empty_conv)
    with m show ?thesis by (cases m) simp_all
  qed
  with k show ?thesis by (auto simp: chan_ok_def filter_empty_conv)
qed

lemma handleDesc_ok:
  assumes ok: "node_ok N L i A S r" and h: "handleDesc slot r = Some r'"
  shows "node_ok N L i A S r' \<and> estep A r r' \<and> lastCmdSlot r' = lastCmdSlot r"
proof (cases "r' = r")
  case True
  with ok show ?thesis by (simp add: estep_refl)
next
  case False
  with h obtain d where d: "cmdDescs r slot = Some d" by (cases "cmdDescs r slot") (auto simp: handleDesc_def)
  have c: "\<not> (seq d \<or> executing d \<or> \<not> active d)"
  proof
    assume "seq d \<or> executing d \<or> \<not> active d"
    then have "handleDesc slot r = Some r" unfolding handleDesc_def d option.case by (rule if_P)
    with h False show False by simp
  qed
  with h d False obtain m ms where ms: "d_msgs d = m # ms" by (cases "d_msgs d") (auto simp: handleDesc_def)
  have e: "entry_ok N L i A S r slot d" using ok d by (simp add: node_ok_def)
  let ?d = "d\<lparr>d_msgs := ms\<rparr>"
  from h d c ms obtain e1 r1 where hm: "handleMsg m slot ?d r = Some (e1, r1)"
    and r': "r' = put_desc slot e1 (if e1 = None then r1\<lparr>routineCount := i64 (routineCount r1 - 1)\<rparr> else r1)"
    by (auto simp: handleDesc_def split: Option.bind_splits)
  show ?thesis
  proof (cases "is_slot m")
    case True
    then obtain k where m: "m = N_Slot k" by (cases m) simp_all
    note l = slot_last [OF e ms [unfolded m]]
    have s: "slot \<notin> exset r" using d l by (simp add: exset_def)
    let ?e = "?d\<lparr>active := False\<rparr>"
    let ?hi = "(history r)(slot := \<lparr>h_cmdSlot = slot, h_phase = d_phase d, h_cmd = d_cmd d\<rparr>)"
    from hm m l have r1: "e1 = None" "r1 = freeDesc ?e (r\<lparr>history := ?hi\<rparr>)"
      by (auto simp: Let_def split: if_splits)
    have r'': "r' = put_desc slot None (freeDesc ?e (r\<lparr>history := ?hi, routineCount := i64 (routineCount r1 - 1)\<rparr>))"
      unfolding r' r1 by (simp add: put_desc_def freeDesc_def)
    have "node_ok N L i A S r'"
      unfolding r'' by (rule node_ok_remove [OF ok]) (use l in simp)
    moreover have "estep A r r'"
      by (rule estep_refl) (use s in \<open>auto simp: r'' exset_def put_desc_def freeDesc_def\<close>)
    moreover have "lastCmdSlot r' = lastCmdSlot r" by (simp add: r'' put_desc_def freeDesc_def)
    ultimately show ?thesis by blast
  next
    case False
    note p = entry_ok_pop [OF e ms False]
    have "ok2 N L i A S slot (?d, r)" using ok p(1) by (simp add: ok2_def node_ok_def entry_ok_def)
    moreover have "is_propose m \<longrightarrow> filter is_propose (d_msgs ?d) = []" using p(3) by simp
    ultimately obtain d' where d': "e1 = Some d'" "ok2 N L i A S slot (d', r1)" "hstep slot (?d, r) (d', r1)"
      using handleMsg_ok [OF _ p(2) False _ hm] by blast
    have "slot \<in> exset r \<longleftrightarrow> executing ?d" using d by (simp add: exset_def)
    from put_back [OF ok p(1) d'(3,2) this] show ?thesis unfolding r' d'(1) by simp
  qed
qed

subsection \<open>Execution\<close>

definition fstep :: "M2A list \<Rightarrow> n2 \<Rightarrow> n2 \<Rightarrow> bool" where
  "fstep A r r' \<longleftrightarrow>
     (\<exists>slot v. slot \<in> exset r \<and> 0 \<le> slot \<and> slot < int (length A) \<and>
        Execute (a2_Cmd (A ! nat slot)) (nState r) = Some (v, nState r') \<and>
        delivered r' = delivered r \<and> exset r' = exset r - {slot})"

lemma node_ok_finish:
  "node_ok N L i A S r \<Longrightarrow> node_ok N L i A S (r\<lparr>nState := st, deliverChan := dc\<rparr>)"
  unfolding node_ok_def static_ok_def bats_ok_def
  by (simp add: entry_ok_cong [of "r\<lparr>nState := st, deliverChan := dc\<rparr>" r])

lemma dropWhile_slot: "filter is_slot xs = [] \<Longrightarrow> dropWhile (Not \<circ> is_slot) (xs @ [N_Slot k]) = [N_Slot k]"
  by (induction xs) (auto split: if_splits)

lemma finish_ok:
  assumes ok: "node_ok N L i A S r" and h: "finish_deliver slot r = Some (r', outs)"
  shows "node_ok N L i A S r' \<and> (r' = r \<or> fstep A r r') \<and> lastCmdSlot r' = lastCmdSlot r \<and>
    (\<forall>x \<in> set outs. \<exists>p v. x = N_Reply p v)"
proof (cases "\<exists>d. cmdDescs r slot = Some d \<and> executing d")
  case False
  then have "finish_deliver slot r = Some (r, [])" by (auto simp: finish_deliver_def split: option.split)
  with h ok show ?thesis by simp
next
  case True
  then obtain d where d: "cmdDescs r slot = Some d" "executing d" by blast
  have e: "entry_ok N L i A S r slot d" using ok d by (simp add: node_ok_def)
  then have del: "slot \<in> delivered r" and nf: "filter is_slot (d_msgs d) = []" and dk: "desc_ok N L i A S slot d"
    using d by (simp_all add: entry_ok_def)
  have pay: "payload d" using dk d(2) by (simp add: desc_ok_def)
  then have sl: "0 \<le> slot" "slot < int (length A)" "d_cmd d = a2_Cmd (A ! nat slot)" using dk by (simp_all add: desc_ok_def)
  from h d obtain v st p where x: "Execute (d_cmd d) (nState r) = Some (v, st)" "d_propose d = Some p"
    by (auto simp: finish_deliver_def split: Option.bind_splits)
  let ?r = "r\<lparr>nState := st, deliverChan := deliverChan r @ [i64 (slot + 1)]\<rparr>"
  let ?d = "d\<lparr>executing := False, d_msgs := d_msgs d @ [N_Slot slot]\<rparr>"
  have nk: "node_ok N L i A S ?r" by (rule node_ok_finish [OF ok])
  have ex: "exset ?r = exset r" "slot \<in> exset r" using d by (auto simp: exset_def)
  have fin: "fstep A r r'" if "exset r' = exset r - {slot}" "delivered r' = delivered r" "nState r' = st"
    unfolding fstep_def using that ex sl x by (intro exI [of _ slot] exI [of _ v]) simp
  have outs: "\<forall>x \<in> set outs. \<exists>p v. x = N_Reply p v"
    using h d x by (auto simp: finish_deliver_def Let_def split: Option.bind_splits if_splits option.splits)
  show ?thesis
  proof (cases "seq d")
    case True
    let ?e = "?d\<lparr>d_msgs := [], active := False\<rparr>"
    let ?hi = "(history r)(slot := \<lparr>h_cmdSlot = slot, h_phase = d_phase d, h_cmd = d_cmd d\<rparr>)"
    have r': "r' = (put_desc slot None (freeDesc ?e (?r\<lparr>history := ?hi\<rparr>)))\<lparr>blocked := None\<rparr>"
      using h d x True
      by (simp add: finish_deliver_def Let_def dropWhile_slot [OF nf] put_desc_blocked split: if_splits)
    have "node_ok N L i A S r'"
      unfolding r' by (rule node_ok_blocked, rule node_ok_remove [OF nk]) simp
    moreover have "fstep A r r'"
      by (rule fin) (auto simp: r' exset_def put_desc_def freeDesc_def)
    moreover have "lastCmdSlot r' = lastCmdSlot r" by (simp add: r' put_desc_def freeDesc_def)
    ultimately show ?thesis using outs by blast
  next
    case False
    have r': "r' = put_desc slot (Some ?d) ?r"
      using h d x False by (simp add: finish_deliver_def Let_def split: if_splits)
    have "prop_count ?d = prop_count d" by (simp add: prop_count_def)
    then have "desc_ok N L i A S slot ?d" using dk by (simp add: desc_ok_def payload_def)
    then have e2: "entry_ok N L i A S ?r slot ?d" using pay del nf by (simp add: entry_ok_def payload_def)
    have "node_ok N L i A S r'"
      unfolding r' node_ok_def
    proof (intro conjI allI ballI impI)
      show "static_ok N L i (put_desc slot (Some ?d) ?r)" "bats_ok L i A (put_desc slot (Some ?d) ?r)"
        using nk by (simp_all add: node_ok_def static_ok_def bats_ok_def put_desc_def)
      fix t e assume "cmdDescs (put_desc slot (Some ?d) ?r) t = Some e"
      then have "entry_ok N L i A S ?r t e"
        using e2 nk by (cases "t = slot") (simp_all add: put_desc_def node_ok_def)
      then show "entry_ok N L i A S (put_desc slot (Some ?d) ?r) t e" by (simp add: entry_ok_def put_desc_def)
    qed (use nk in \<open>auto simp: node_ok_def put_desc_def\<close>)
    moreover have "fstep A r r'"
      by (rule fin) (auto simp: r' exset_def put_desc_def)
    moreover have "lastCmdSlot r' = lastCmdSlot r" by (simp add: r' put_desc_def)
    ultimately show ?thesis using outs by blast
  qed
qed

subsection \<open>The store\<close>

definition exec_ok :: "M2A list \<Rightarrow> n2 \<Rightarrow> bool" where
  "exec_ok A r \<longleftrightarrow>
     (\<exists>k e vs. 0 \<le> k \<and> k \<le> int (length A) \<and> delivered r = {0..<k} \<and>
        (exset r = {} \<and> e = k \<or> 0 < k \<and> exset r = {k - 1} \<and> e = k - 1) \<and>
        exec_cmds (map a2_Cmd (take (nat e) A)) InitState = Some (vs, nState r))"

definition one_executing :: "n2 \<Rightarrow> bool" where
  "one_executing r \<longleftrightarrow> (\<forall>s \<in> exset r. \<forall>t \<in> exset r. s = t)"

lemma estep_exec:
  assumes "exec_ok A r" and "estep A r r'" and "one_executing r'"
  shows "exec_ok A r'"
proof -
  from assms(1) obtain k e vs where k: "0 \<le> k" "k \<le> int (length A)" "delivered r = {0..<k}"
      "exset r = {} \<and> e = k \<or> 0 < k \<and> exset r = {k - 1} \<and> e = k - 1"
      "exec_cmds (map a2_Cmd (take (nat e) A)) InitState = Some (vs, nState r)" unfolding exec_ok_def by blast
  have st: "nState r' = nState r" using assms(2) by (simp add: estep_def)
  from assms(2) consider "delivered r' = delivered r" "exset r' = exset r"
    | slot where "0 \<le> slot" "slot < int (length A)" "slot \<notin> delivered r" "0 < slot \<longrightarrow> slot - 1 \<in> delivered r"
        "delivered r' = Set.insert slot (delivered r)" "exset r' = Set.insert slot (exset r)"
    unfolding estep_def by blast
  then show ?thesis
  proof cases
    case 1
    show ?thesis unfolding exec_ok_def by (rule exI [of _ k], rule exI [of _ e], rule exI [of _ vs]) (intro conjI k [folded 1 st])
  next
    case 2
    have s: "slot = k" using 2(1,3,4) k(1,3) by (cases "slot = 0") auto
    have "exset r \<noteq> {k - 1}"
    proof
      assume "exset r = {k - 1}"
      then have "k - 1 \<in> exset r'" "k \<in> exset r'" using 2(6) s by simp_all
      then have "k - 1 = k" using assms(3) unfolding one_executing_def by blast
      then show False by simp
    qed
    with k(4) have ex: "exset r = {}" by blast
    have e: "e = k" using k(4) ex by auto
    have "delivered r' = {0..<k + 1}" using 2(5) k(1,3) s by auto
    moreover have "exset r' = {k + 1 - 1}" using 2(6) ex s by simp
    moreover have "k + 1 \<le> int (length A)" using 2(2) s by simp
    moreover have "exec_cmds (map a2_Cmd (take (nat (k + 1 - 1)) A)) InitState = Some (vs, nState r')"
      using k(5) e st by simp
    ultimately show ?thesis
      unfolding exec_ok_def using k(1) by (intro exI [of _ "k + 1"] exI [of _ k] exI [of _ vs]) simp
  qed
qed

lemma fstep_exec:
  assumes "exec_ok A r" and "fstep A r r'"
  shows "exec_ok A r'"
proof -
  from assms(1) obtain k e vs where k: "0 \<le> k" "k \<le> int (length A)" "delivered r = {0..<k}"
      "exset r = {} \<and> e = k \<or> 0 < k \<and> exset r = {k - 1} \<and> e = k - 1"
      "exec_cmds (map a2_Cmd (take (nat e) A)) InitState = Some (vs, nState r)" unfolding exec_ok_def by blast
  from assms(2) obtain slot v where f: "slot \<in> exset r" "0 \<le> slot" "slot < int (length A)"
      "Execute (a2_Cmd (A ! nat slot)) (nState r) = Some (v, nState r')" "delivered r' = delivered r"
      "exset r' = exset r - {slot}" unfolding fstep_def by blast
  with k(4) have s: "0 < k" "exset r = {k - 1}" "e = k - 1" "slot = k - 1" by auto
  have t: "take (nat k) A = take (nat (k - 1)) A @ [A ! nat (k - 1)]"
    using s(1) k(2) take_Suc_conv_app_nth [of "nat (k - 1)" A] by (simp add: Suc_nat_eq_nat_zadd1)
  have "exec_cmds (map a2_Cmd (take (nat k) A)) InitState = Some (vs @ [v], nState r')"
    unfolding t map_append using exec_cmds_snoc [OF k(5)] f(4) s by simp
  then show ?thesis
    unfolding exec_ok_def using k(1-3) f(5,6) s by (intro exI [of _ k] exI [of _ k] exI [of _ "vs @ [v]"]) auto
qed

subsection \<open>Growth of the log and of the acceptances\<close>

lemma twoA_ok_mono: "twoA_ok A m \<Longrightarrow> prefix A A' \<Longrightarrow> twoA_ok A' m"
  by (auto simp: twoA_ok_def prefix_def nth_append)

lemma twoB_ok_mono: "twoB_ok N i S b \<Longrightarrow> S \<subseteq> S' \<Longrightarrow> twoB_ok N i S' b"
  by (auto simp: twoB_ok_def)

lemma accepted_mono: "is_majority (int N) (accepted_by N i S slot) \<Longrightarrow> S \<subseteq> S' \<Longrightarrow> is_majority (int N) (accepted_by N i S' slot)"
proof -
  assume m: "is_majority (int N) (accepted_by N i S slot)" and s: "S \<subseteq> S'"
  have sub: "accepted_by N i S slot \<subseteq> accepted_by N i S' slot" using s by (auto simp: accepted_by_def)
  have "finite (accepted_by N i S' slot)"
    by (rule finite_subset [of _ "{0..<int N}"]) (auto simp: accepted_by_def)
  from card_mono [OF this sub] m show ?thesis by (auto simp: is_majority_def accepted_by_def)
qed

lemma msg_ok_mono: "msg_ok N L i A S slot m \<Longrightarrow> prefix A A' \<Longrightarrow> S \<subseteq> S' \<Longrightarrow> msg_ok N L i A' S' slot m"
  by (cases m) (auto simp: twoA_ok_mono twoB_ok_mono prefix_def nth_append)

lemma desc_ok_mono:
  assumes "desc_ok N L i A S slot d" and A: "prefix A A'" and S: "S \<subseteq> S'"
  shows "desc_ok N L i A' S' slot d"
proof -
  have len: "length A \<le> length A'" "\<And>n. n < length A \<Longrightarrow> A' ! n = A ! n"
    using A by (auto simp: prefix_def nth_append)
  have "twos_ok N i S' slot (twoBs d)"
    using assms(1) twoB_ok_mono [OF _ S] unfolding desc_ok_def twos_ok_def by fastforce
  moreover have "\<forall>m \<in> set (d_msgs d). msg_ok N L i A' S' slot m"
    using assms(1) msg_ok_mono [OF _ A S] unfolding desc_ok_def by blast
  moreover have "d_phase d = COMMIT \<longrightarrow> is_majority (int N) (accepted_by N i S' slot)"
    using assms(1) accepted_mono [OF _ S] unfolding desc_ok_def by blast
  ultimately show ?thesis using assms(1) len unfolding desc_ok_def by auto
qed

lemma node_ok_mono:
  assumes "node_ok N L i A S r" and A: "prefix A A'" and S: "S \<subseteq> S'"
  shows "node_ok N L i A' S' r"
proof -
  have "entry_ok N L i A' S' r slot d" if "entry_ok N L i A S r slot d" for slot d
    using that desc_ok_mono [OF _ A S] by (simp add: entry_ok_def)
  moreover have "chan_ok N L i A' S' m" if "chan_ok N L i A S m" for m
    using that msg_ok_mono [OF _ A S] by (simp add: chan_ok_def)
  moreover have "bats_ok L i A' r" using assms(1) twoA_ok_mono [OF _ A] unfolding node_ok_def bats_ok_def by blast
  ultimately show ?thesis using assms(1) accepted_mono [OF _ S] unfolding node_ok_def by blast
qed

lemma exec_ok_mono:
  assumes "exec_ok A r" and "prefix A A'"
  shows "exec_ok A' r"
proof -
  from assms(1) obtain k e vs where k: "0 \<le> k" "k \<le> int (length A)" "delivered r = {0..<k}"
      "exset r = {} \<and> e = k \<or> 0 < k \<and> exset r = {k - 1} \<and> e = k - 1"
      "exec_cmds (map a2_Cmd (take (nat e) A)) InitState = Some (vs, nState r)" unfolding exec_ok_def by blast
  have "take (nat e) A' = take (nat e) A" "length A \<le> length A'"
    using assms(2) k(2,4) by (auto simp: prefix_def)
  with k show ?thesis unfolding exec_ok_def by (intro exI [of _ k] exI [of _ e] exI [of _ vs]) simp
qed

subsection \<open>One event\<close>

fun n2_event_ok :: "nat \<Rightarrow> int \<Rightarrow> int \<Rightarrow> M2A list \<Rightarrow> M2B set \<Rightarrow> n2_event \<Rightarrow> bool" where
  "n2_event_ok N L i A S (N2_2A m k) = False"
| "n2_event_ok N L i A S (N2_2B m k) = False"
| "n2_event_ok N L i A S (N2_2s m) =
     ((\<forall>a \<in> set (TwoAs m). i \<noteq> L \<and> twoA_ok A a) \<and> (\<forall>b \<in> set (TwoBs m). twoB_ok N i S b))"
| "n2_event_ok N L i A S ev = True"

fun out_ok :: "int \<Rightarrow> int \<Rightarrow> M2A list \<Rightarrow> n2_out \<Rightarrow> bool" where
  "out_ok L i A (N_SendAll m) =
     ((\<forall>a \<in> set (TwoAs m). i = L \<and> twoA_ok A a) \<and> (\<forall>b \<in> set (TwoBs m). b2_Replica b = i))"
| "out_ok L i A x = True"

definition step_ok :: "nat \<Rightarrow> int \<Rightarrow> int \<Rightarrow> M2A list \<Rightarrow> M2B set \<Rightarrow> n2 \<Rightarrow> n2 \<Rightarrow> n2_out list \<Rightarrow> bool" where
  "step_ok N L i A S r r' outs \<longleftrightarrow>
     node_ok N L i A S r' \<and> (i = L \<longrightarrow> lastCmdSlot r' = int (length A)) \<and> (\<forall>x \<in> set outs. out_ok L i A x) \<and>
     (estep A r r' \<or> fstep A r r')"

lemma step_ok_same:
  "node_ok N L i A S r \<Longrightarrow> i = L \<longrightarrow> lastCmdSlot r = int (length A) \<Longrightarrow> step_ok N L i A S r r []"
  by (simp add: step_ok_def estep_refl)

lemma node_ok_updates:
  assumes "node_ok N L i A S r"
  shows "\<forall>x \<in> set xs. chan_ok N L i A S (snd x) \<Longrightarrow> node_ok N L i A S (r\<lparr>todo := xs\<rparr>)"
    "node_ok N L i A S (r\<lparr>deliverChan := dc\<rparr>)" "node_ok N L i A S (r\<lparr>lastCmdSlot := l\<rparr>)"
    "i \<noteq> L \<Longrightarrow> node_ok N L i A S (r\<lparr>proposes := ps\<rparr>)" "node_ok N L i A S (r\<lparr>bat_As := [], bat_Bs := []\<rparr>)"
  using assms unfolding node_ok_def static_ok_def bats_ok_def
  by (simp_all add: entry_ok_cong [of "r\<lparr>todo := xs\<rparr>" r] entry_ok_cong [of "r\<lparr>deliverChan := dc\<rparr>" r]
      entry_ok_cong [of "r\<lparr>lastCmdSlot := l\<rparr>" r] entry_ok_cong [of "r\<lparr>proposes := ps\<rparr>" r]
      entry_ok_cong [of "r\<lparr>bat_As := [], bat_Bs := []\<rparr>" r])

lemma estep_eq:
  "estep A r r' \<Longrightarrow> nState r = nState r0 \<Longrightarrow> delivered r = delivered r0 \<Longrightarrow> cmdDescs r = cmdDescs r0 \<Longrightarrow> estep A r0 r'"
  by (simp add: estep_def exset_def)

lemma main_call_ok:
  assumes "node_ok N L i A S r" and "main_call pick slot m r = Some (r', outs)" and "msg_ok N L i A S slot m"
    and "\<not> is_slot m" "\<not> is_propose m"
  shows "node_ok N L i A S r' \<and> estep A r r' \<and> lastCmdSlot r' = lastCmdSlot r \<and> outs = []"
proof -
  from assms(2) obtain b where "getCmdDesc pick slot m r = Some (b, r')" "outs = []"
    by (auto simp: main_call_def split: Option.bind_splits)
  with getCmdDesc_ok [OF assms(1) _ assms(3,4)] assms(5) show ?thesis by blast
qed

lemma main_call_step:
  assumes "node_ok N L i A S r" and "main_call pick slot m r = Some (r', outs)" and "msg_ok N L i A S slot m"
    and "\<not> is_slot m" "\<not> is_propose m" and "i = L \<longrightarrow> lastCmdSlot r = int (length A)"
    and "nState r = nState r0" "delivered r = delivered r0" "cmdDescs r = cmdDescs r0"
  shows "step_ok N L i A S r0 r' outs"
  using main_call_ok [OF assms(1-5)] assms(6) estep_eq [OF _ assms(7-9)] unfolding step_ok_def by auto

lemma batch_ok:
  assumes "node_ok N L i A S r" and "i = L \<longrightarrow> lastCmdSlot r = int (length A)"
  shows "step_ok N L i A S r (fst (send_twos c r)) (snd (send_twos c r))"
proof -
  have "bats_ok L i A r" using assms(1) by (simp add: node_ok_def)
  then have "\<forall>x \<in> set (snd (send_twos c r)). out_ok L i A x"
    by (auto simp: send_twos_def bats_ok_def Let_def split: option.splits)
  moreover have e: "fst (send_twos c r) = r\<lparr>bat_As := [], bat_Bs := []\<rparr>" by (simp add: send_twos_def Let_def)
  moreover have "estep A r (r\<lparr>bat_As := [], bat_Bs := []\<rparr>)" by (rule estep_refl) (simp_all add: exset_def)
  ultimately show ?thesis
    unfolding step_ok_def e using node_ok_updates(5) [OF assms(1)] assms(2) by simp
qed

lemma propose_leader_ok:
  assumes ok: "node_ok N L i A S r" and l: "i = L" "lastCmdSlot r = int (length A)"
    "lastCmdSlot r < 9223372036854775807"
    and h: "on_propose pick p r = Some (r', outs)"
  shows "step_ok N L i (A @ [twoA_of L p (lastCmdSlot r)]) S r r' outs"
proof -
  let ?slot = "lastCmdSlot r" and ?A = "A @ [twoA_of L p (lastCmdSlot r)]"
  have lead: "isLeader r" using ok l(1) by (simp add: node_ok_def static_ok_def)
  from h lead obtain r1 where g: "getCmdDesc pick ?slot (N_Propose p) r = Some (True, r1)"
    and r': "r' = r1\<lparr>lastCmdSlot := i64 (lastCmdSlot r1 + 1)\<rparr>" "outs = []"
    by (auto simp: on_propose_def split: Option.bind_splits if_splits)
  have ok': "node_ok N L i ?A S r" by (rule node_ok_mono [OF ok]) simp_all
  have m: "msg_ok N L i ?A S ?slot (N_Propose p)" using l by simp
  have none: "prop_count d = 0" if "cmdDescs r ?slot = Some d" for d
  proof -
    have "entry_ok N L i A S r ?slot d" using ok that by (simp add: node_ok_def)
    then have d: "desc_ok N L i A S ?slot d" by (simp add: entry_ok_def)
    have "\<not> is_propose x" if "x \<in> set (d_msgs d)" for x
    proof
      assume "is_propose x"
      then obtain y where "x = N_Propose y" by (cases x) simp_all
      then have "?slot < int (length A)" using d that unfolding desc_ok_def by fastforce
      with l(2) show False by simp
    qed
    moreover have "d_propose d = None" using d l by (auto simp: desc_ok_def)
    ultimately show ?thesis by (simp add: prop_count_def filter_empty_conv)
  qed
  have "node_ok N L i ?A S r1 \<and> estep ?A r r1 \<and> lastCmdSlot r1 = lastCmdSlot r"
    by (rule getCmdDesc_ok [OF ok' g m]) (simp_all add: none)
  moreover have "i64 (int (length A) + 1) = int (length A) + 1" using l(2,3) by (simp add: i64_id is_i64_def)
  moreover have "estep ?A r r'" if "estep ?A r r1" using that by (simp add: r' estep_def exset_def)
  ultimately show ?thesis
    unfolding step_ok_def r' using node_ok_updates(3) l(2) by simp
qed

lemma propose_follower_ok:
  assumes ok: "node_ok N L i A S r" and "i \<noteq> L" and h: "on_propose pick p r = Some (r', outs)"
  shows "step_ok N L i A S r r' outs"
proof -
  let ?c = "\<lparr>n_ClientId = p_ClientId (Propose p), n_SeqNum = p_CommandId (Propose p)\<rparr>"
  let ?r = "r\<lparr>proposes := (proposes r)(?c \<mapsto> p)\<rparr>"
  have lead: "\<not> isLeader r" using ok assms(2) by (simp add: node_ok_def static_ok_def)
  have ok': "node_ok N L i A S ?r" by (rule node_ok_updates(4) [OF ok assms(2)])
  have e: "on_propose pick p r =
      (case slots r ?c of Some slot \<Rightarrow> main_call pick slot N_Deliver ?r | None \<Rightarrow> Some (?r, []))"
    unfolding on_propose_def Let_def using lead by simp
  show ?thesis
  proof (cases "slots r ?c")
    case None
    with h e have "r' = ?r" "outs = []" by simp_all
    moreover have "estep A r ?r" by (rule estep_refl) (simp_all add: exset_def)
    ultimately show ?thesis using ok' assms(2) by (simp add: step_ok_def)
  next
    case (Some slot)
    with h e have "main_call pick slot N_Deliver ?r = Some (r', outs)" by simp
    then show ?thesis by (rule main_call_step [OF ok']) (use assms(2) in simp_all)
  qed
qed

lemma run_n2_ok:
  assumes ok: "node_ok N L i A S r" and l: "i = L \<longrightarrow> lastCmdSlot r = int (length A)"
    and b: "lastCmdSlot r < 9223372036854775807" and ev: "n2_event_ok N L i A S ev"
    and h: "run_n2 ev r = Some (r', outs)"
  shows "\<exists>A'. prefix A A' \<and> (i \<noteq> L \<longrightarrow> A' = A) \<and> step_ok N L i A' S r r' outs"
proof -
  have stay: ?thesis if "step_ok N L i A S r r' outs" using that by blast
  show ?thesis
  proof (cases "r' = r \<and> outs = []")
    case True
    with step_ok_same [OF ok l] show ?thesis by (intro stay) simp
  next
    case False
    show ?thesis
    proof (cases ev)
      case (N2_Deliver slot pick)
      with h False have c: "main_call pick slot N_Deliver (r\<lparr>deliverChan := remove1 slot (deliverChan r)\<rparr>) = Some (r', outs)"
        by (auto split: if_splits)
      have "step_ok N L i A S r r' outs"
        by (rule main_call_step [OF node_ok_updates(2) [OF ok] c]) (use l in simp_all)
      then show ?thesis by (rule stay)
    next
      case (N2_Propose p pick)
      with h False have c: "on_propose pick p r = Some (r', outs)" by (auto split: if_splits)
      show ?thesis
      proof (cases "i = L")
        case True
        from propose_leader_ok [OF ok True _ b c] l True have
          "step_ok N L i (A @ [twoA_of L p (lastCmdSlot r)]) S r r' outs" by blast
        moreover have "prefix A (A @ [twoA_of L p (lastCmdSlot r)])" by simp
        ultimately show ?thesis using True by blast
      next
        case 2: False
        from propose_follower_ok [OF ok 2 c] show ?thesis by (rule stay)
      qed
    next
      case (N2_2s m)
      with h False have r': "r' = r\<lparr>todo := map (\<lambda>a. (a2_CmdSlot a, N_2A a)) (TwoAs m) @ map (\<lambda>b. (b2_CmdSlot b, N_2B b)) (TwoBs m)\<rparr>"
          "outs = []" by (auto split: if_splits)
      have "node_ok N L i A S r'"
        unfolding r' by (rule node_ok_updates(1) [OF ok]) (use ev N2_2s in \<open>auto simp: chan_ok_def\<close>)
      moreover have "estep A r r'" by (rule estep_refl) (simp_all add: r' exset_def)
      ultimately show ?thesis using l r' by (intro stay) (simp add: step_ok_def)
    next
      case (N2_Next pick)
      with h False obtain slot m ms where t: "todo r = (slot, m) # ms" "main_call pick slot m (r\<lparr>todo := ms\<rparr>) = Some (r', outs)"
        by (auto split: option.splits list.splits)
      have m: "chan_ok N L i A S m" "\<forall>x \<in> set ms. chan_ok N L i A S (snd x)" using ok t(1) by (simp_all add: node_ok_def)
      have "step_ok N L i A S r r' outs"
        by (rule main_call_step [OF node_ok_updates(1) [OF ok m(2)] t(2) msg_ok_chan [OF m(1)]])
          (use l m(1) in \<open>simp_all add: chan_ok_def\<close>)
      then show ?thesis by (rule stay)
    next
      case (N2_Desc slot)
      with h have "handleDesc slot r = Some r'" "outs = []" by auto
      with handleDesc_ok [OF ok] l show ?thesis by (intro stay) (auto simp: step_ok_def)
    next
      case (N2_Finish slot)
      with h have c: "finish_deliver slot r = Some (r', outs)" by simp
      have "out_ok L i A x" if "x \<in> set outs" for x
      proof -
        from finish_ok [OF ok c] that obtain p v where "x = N_Reply p v" by blast
        then show ?thesis by simp
      qed
      with finish_ok [OF ok c] l show ?thesis by (intro stay) (auto simp: step_ok_def estep_refl)
    next
      case N2_BatchA
      with h False obtain c where "send_twos c r = (r', outs)" by (auto simp: batch_As_def split: list.splits)
      with batch_ok [OF ok l, of c] show ?thesis by (intro stay) simp
    next
      case N2_BatchB
      with h False obtain c where "send_twos c r = (r', outs)" by (auto simp: batch_Bs_def split: list.splits)
      with batch_ok [OF ok l, of c] show ?thesis by (intro stay) simp
    qed (use ev in simp_all)
  qed
qed

end
