(* ===== verification/N2_Net.thy ===== *)
theory N2_Net
  imports N2_Props
begin

section \<open>A cluster of N2Paxos replicas\<close>

text \<open>
  Replicas of N2Paxos and the network between them. The network may lose, delay and reorder messages;
  \<open>nsent\<close> and \<open>nanswers\<close> record what has been sent and which clients have been answered. The predicate
  \<open>ok\<close> of \<open>n2_reach\<close> restricts the events of an execution. The invariant of theory N2_Props is carried
  over to the cluster; the properties are at the end.
\<close>

record n2net =
  nnodes :: "int \<Rightarrow> n2"
  nwire :: "(int \<times> M2s) list"
  nsent :: "M2s list"
  nanswers :: "(int \<times> GPropose \<times> ProposeReplyTS) list"

definition init_n2 :: "nat \<Rightarrow> int \<Rightarrow> int \<Rightarrow> int \<Rightarrow> n2net" where
  "init_n2 N L f pl =
     \<lparr>nnodes = (\<lambda>i. New_n2 i N f True pl (Some L)), nwire = [], nsent = [], nanswers = []\<rparr>"

fun n2_emit :: "nat \<Rightarrow> int \<Rightarrow> n2_out list \<Rightarrow> n2net \<Rightarrow> n2net" where
  "n2_emit N i [] s = s"
| "n2_emit N i (N_SendAll m # outs) s =
     n2_emit N i outs (s\<lparr>nwire := nwire s @ map (\<lambda>j. (j, m)) (filter (\<lambda>j. j \<noteq> i) [0..int N - 1]), nsent := nsent s @ [m]\<rparr>)"
| "n2_emit N i (N_SendClient c m # outs) s = n2_emit N i outs s"
| "n2_emit N i (N_Reply p v # outs) s = n2_emit N i outs (s\<lparr>nanswers := nanswers s @ [(i, p, v)]\<rparr>)"

text \<open>A message is taken from the network when the event loop takes it; single 2A and 2B messages
  are never sent.\<close>

fun n2_receive :: "int \<Rightarrow> n2_event \<Rightarrow> n2net \<Rightarrow> n2net option" where
  "n2_receive i (N2_2s m) s =
     (if (i, m) \<in> set (nwire s) \<and> main_ready (nnodes s i) then Some (s\<lparr>nwire := remove1 (i, m) (nwire s)\<rparr>) else None)"
| "n2_receive i (N2_2A m k) s = None"
| "n2_receive i (N2_2B m k) s = None"
| "n2_receive i ev s = Some s"

definition n2_do :: "nat \<Rightarrow> int \<Rightarrow> n2_event \<Rightarrow> n2net \<Rightarrow> n2net option" where
  "n2_do N i ev s = do {
     s \<leftarrow> n2_receive i ev s;
     (r, outs) \<leftarrow> run_n2 ev (nnodes s i);
     Some (n2_emit N i outs (s\<lparr>nnodes := (nnodes s)(i := r)\<rparr>))
   }"

inductive n2_reach :: "(n2_event \<Rightarrow> n2 \<Rightarrow> bool) \<Rightarrow> nat \<Rightarrow> int \<Rightarrow> n2net \<Rightarrow> bool" for ok N L where
  init: "n2_reach ok N L (init_n2 N L f pl)"
| step: "n2_reach ok N L s \<Longrightarrow> 0 \<le> i \<Longrightarrow> i < int N \<Longrightarrow> ok ev (nnodes s i) \<Longrightarrow>
    lastCmdSlot (nnodes s i) < 9223372036854775807 \<Longrightarrow> n2_do N i ev s = Some s' \<Longrightarrow> n2_reach ok N L s'"
| lose: "n2_reach ok N L s \<Longrightarrow> nwire s = a @ x # b \<Longrightarrow> n2_reach ok N L (s\<lparr>nwire := a @ b\<rparr>)"

text \<open>A sequence of steps; a message is named by its position among those to the replica.\<close>

datatype n2_move = At int n2_event | Take int nat

fun n2_event_of :: "n2_move \<Rightarrow> n2net \<Rightarrow> (int \<times> n2_event) option" where
  "n2_event_of (At i ev) s = Some (i, ev)"
| "n2_event_of (Take i k) s =
     (let ms = filter (\<lambda>x. fst x = i) (nwire s) in if k < length ms then Some (i, N2_2s (snd (ms ! k))) else None)"

fun n2_moves :: "nat \<Rightarrow> n2_move list \<Rightarrow> n2net \<Rightarrow> n2net option" where
  "n2_moves N [] s = Some s"
| "n2_moves N (m # ms) s = do {
     (i, ev) \<leftarrow> n2_event_of m s;
     if 0 \<le> i \<and> i < int N \<and> lastCmdSlot (nnodes s i) < 9223372036854775807 then do {
       s \<leftarrow> n2_do N i ev s;
       n2_moves N ms s
     }
     else None
   }"

lemma n2_moves_reach:
  "n2_reach (\<lambda>_ _. True) N L s \<Longrightarrow> n2_moves N ms s = Some s' \<Longrightarrow> n2_reach (\<lambda>_ _. True) N L s'"
proof (induction ms arbitrary: s)
  case (Cons m ms)
  from Cons.prems(2) obtain i ev s1 where "n2_do N i ev s = Some s1" "n2_moves N ms s1 = Some s'"
      "0 \<le> i" "i < int N" "lastCmdSlot (nnodes s i) < 9223372036854775807"
    by (auto split: Option.bind_splits if_splits)
  with Cons n2_reach.step [OF Cons.prems(1)] show ?case by blast
qed simp

definition write_to :: "int \<Rightarrow> byte list \<Rightarrow> GPropose" where
  "write_to i v =
     \<lparr>Propose = \<lparr>p_CommandId = i, p_ClientId = 9, p_Command = \<lparr>Op = PUT, K = 5, V = v, CL = 0, Sid = 0\<rparr>,
        p_Timestamp = 0\<rparr>, Proxy = True, Addr = []\<rparr>"

definition first_slot :: "n2_move list" where
  "first_slot =
     [At 0 (N2_Propose (write_to 1 [7]) None), At 0 (N2_Desc 0), At 0 N2_BatchA,
      Take 1 0, At 1 (N2_Next None), At 1 (N2_Next None), At 1 (N2_Desc 0), At 1 N2_BatchB,
      Take 0 0, At 0 (N2_Next None), At 0 (N2_Desc 0), At 0 (N2_Finish 0)]"

definition early_answer :: "n2net option" where
  "early_answer = n2_moves 3 (first_slot @ [At 0 (N2_Propose (write_to 2 [8]) None), At 0 (N2_Desc 1),
     At 0 (N2_Deliver 1 None), At 0 (N2_Desc 1), At 0 (N2_Finish 1)]) (init_n2 3 0 1 1)"

lemma early_answer_run:
  "case early_answer of
     Some s \<Rightarrow> map (n_SeqNum \<circ> a2_CmdId) (concat (map TwoAs (nsent s))) = [1] \<and>
       map (\<lambda>(i, p, v). (i, p_CommandId (Propose p), OK v)) (nanswers s) = [(0, 1, TRUE), (0, 2, TRUE)]
   | None \<Rightarrow> False"
  by code_simp

definition reordered :: "n2net option" where
  "reordered = n2_moves 3
     [At 0 (N2_Propose (write_to 1 [7]) None), At 0 (N2_Propose (write_to 2 [8]) None), At 0 (N2_Desc 0), At 0 (N2_Desc 1),
      At 0 N2_BatchA, At 1 (N2_Propose (write_to 1 [7]) None), At 1 (N2_Propose (write_to 2 [8]) None),
      Take 1 0, At 1 (N2_Next None), At 1 (N2_Next None), At 1 (N2_Next None), At 1 (N2_Next None),
      At 1 (N2_Desc 0), At 1 (N2_Desc 1), At 1 (N2_Desc 0), At 1 (N2_Desc 1), At 1 (N2_Finish 1), At 1 (N2_Finish 0),
      At 1 N2_BatchB, Take 0 0, At 0 (N2_Next None), At 0 (N2_Next None), At 0 (N2_Desc 0), At 0 (N2_Finish 0),
      At 0 (N2_Desc 1), At 0 (N2_Finish 1)]
     (init_n2 3 0 1 1)"

lemma reordered_run:
  "case reordered of
     Some s \<Rightarrow> delivered (nnodes s 0) = {0, 1} \<and> delivered (nnodes s 1) = {0, 1} \<and>
       Store (nState (nnodes s 0)) 5 = Some [8] \<and> Store (nState (nnodes s 1)) 5 = Some [7]
   | None \<Rightarrow> False"
  by code_simp

subsection \<open>The cluster\<close>

definition sent2B :: "n2net \<Rightarrow> M2B set" where
  "sent2B s = (\<Union>m \<in> set (nsent s). set (TwoBs m))"

definition wire_ok :: "nat \<Rightarrow> int \<Rightarrow> M2A list \<Rightarrow> M2B set \<Rightarrow> int \<Rightarrow> M2s \<Rightarrow> bool" where
  "wire_ok N L A S j m \<longleftrightarrow>
     (\<forall>a \<in> set (TwoAs m). j \<noteq> L \<and> twoA_ok A a) \<and>
     (\<forall>b \<in> set (TwoBs m). 0 \<le> b2_Replica b \<and> b2_Replica b < int N \<and> b \<in> S)"

definition net_ok :: "nat \<Rightarrow> int \<Rightarrow> M2A list \<Rightarrow> n2net \<Rightarrow> bool" where
  "net_ok N L A s \<longleftrightarrow>
     (\<forall>i. 0 \<le> i \<and> i < int N \<longrightarrow> node_ok N L i A (sent2B s) (nnodes s i)) \<and>
     (0 \<le> L \<and> L < int N \<longrightarrow> lastCmdSlot (nnodes s L) = int (length A)) \<and>
     (\<forall>x \<in> set (nwire s). wire_ok N L A (sent2B s) (fst x) (snd x))"

fun n2_sends :: "n2_out list \<Rightarrow> M2s list" where
  "n2_sends [] = []"
| "n2_sends (N_SendAll m # outs) = m # n2_sends outs"
| "n2_sends (_ # outs) = n2_sends outs"

lemma n2_emit_fields:
  "nnodes (n2_emit N i outs s) = nnodes s" "nsent (n2_emit N i outs s) = nsent s @ n2_sends outs"
  "set (nwire (n2_emit N i outs s)) \<subseteq> set (nwire s) \<union> {(j, m). j \<noteq> i \<and> m \<in> set (n2_sends outs)}"
  by (induction N i outs s rule: n2_emit.induct) auto

lemma n2_sends_out: "m \<in> set (n2_sends outs) \<Longrightarrow> N_SendAll m \<in> set outs"
  by (induction outs rule: n2_sends.induct) auto

lemma init_net_ok: "net_ok N L [] (init_n2 N L f pl)"
  by (simp add: net_ok_def init_n2_def New_n2_def node_ok_def static_ok_def bats_ok_def)

lemma n2_receive_ok:
  assumes "net_ok N L A s" and "n2_receive i ev s = Some s1" and "0 \<le> i" "i < int N"
  shows "nnodes s1 = nnodes s \<and> nsent s1 = nsent s \<and> set (nwire s1) \<subseteq> set (nwire s) \<and>
    n2_event_ok N L i A (sent2B s) ev"
proof (cases "\<exists>m. ev = N2_2s m")
  case True
  then obtain m where ev: "ev = N2_2s m" by blast
  with assms(2) have m: "(i, m) \<in> set (nwire s)" "s1 = s\<lparr>nwire := remove1 (i, m) (nwire s)\<rparr>" by (auto split: if_splits)
  then have "wire_ok N L A (sent2B s) i m" using assms(1) unfolding net_ok_def by fastforce
  then show ?thesis using m(2) set_remove1_subset [of "(i, m)" "nwire s"] by (auto simp: ev wire_ok_def twoB_ok_def)
next
  case False
  with assms(2) show ?thesis by (cases ev) simp_all
qed

lemma n2_do_ok:
  assumes ok: "net_ok N L A s" and i: "0 \<le> i" "i < int N" and b: "lastCmdSlot (nnodes s i) < 9223372036854775807"
    and h: "n2_do N i ev s = Some s'"
  shows "\<exists>A' outs r'. prefix A A' \<and> net_ok N L A' s' \<and> run_n2 ev (nnodes s i) = Some (r', outs) \<and>
    nnodes s' = (nnodes s)(i := r') \<and> (estep A' (nnodes s i) r' \<or> fstep A' (nnodes s i) r')"
proof -
  from h obtain s1 r' outs where x: "n2_receive i ev s = Some s1" "run_n2 ev (nnodes s1 i) = Some (r', outs)"
      "s' = n2_emit N i outs (s1\<lparr>nnodes := (nnodes s1)(i := r')\<rparr>)"
    by (auto simp: n2_do_def split: Option.bind_splits)
  note rc = n2_receive_ok [OF ok x(1) i]
  have node: "node_ok N L i A (sent2B s) (nnodes s i)" using ok i by (simp add: net_ok_def)
  have last: "i = L \<longrightarrow> lastCmdSlot (nnodes s i) = int (length A)" using ok i by (auto simp: net_ok_def)
  have run: "run_n2 ev (nnodes s i) = Some (r', outs)" using x(2) rc by simp
  from run_n2_ok [OF node last b _ run] rc obtain A' where
    A': "prefix A A'" "i \<noteq> L \<longrightarrow> A' = A" "step_ok N L i A' (sent2B s) (nnodes s i) r' outs" by blast
  have nodes: "nnodes s' = (nnodes s)(i := r')" using rc by (simp add: x(3) n2_emit_fields)
  have S: "sent2B s' = sent2B s \<union> (\<Union>m \<in> set (n2_sends outs). set (TwoBs m))"
    using rc by (simp add: x(3) n2_emit_fields sent2B_def)
  then have sub: "sent2B s \<subseteq> sent2B s'" by blast
  have "net_ok N L A' s'"
    unfolding net_ok_def
  proof (intro conjI allI impI ballI)
    fix j assume j: "0 \<le> j \<and> j < int N"
    show "node_ok N L j A' (sent2B s') (nnodes s' j)"
    proof (cases "j = i")
      case True
      have "node_ok N L i A' (sent2B s) r'" using A'(3) by (simp add: step_ok_def)
      from node_ok_mono [OF this _ sub] True show ?thesis by (simp add: nodes)
    next
      case False
      have "node_ok N L j A (sent2B s) (nnodes s j)" using ok j by (simp add: net_ok_def)
      from node_ok_mono [OF this A'(1) sub] False show ?thesis by (simp add: nodes)
    qed
  next
    assume "0 \<le> L \<and> L < int N"
    then show "lastCmdSlot (nnodes s' L) = int (length A')"
      using ok A'(2,3) by (cases "i = L") (simp_all add: nodes net_ok_def step_ok_def)
  next
    fix x assume "x \<in> set (nwire s')"
    with n2_emit_fields(3) [of N i outs "s1\<lparr>nnodes := (nnodes s1)(i := r')\<rparr>"] rc x(3)
    consider "x \<in> set (nwire s)" | "fst x \<noteq> i" "snd x \<in> set (n2_sends outs)" by fastforce
    then show "wire_ok N L A' (sent2B s') (fst x) (snd x)"
    proof cases
      case 1
      then have "wire_ok N L A (sent2B s) (fst x) (snd x)" using ok by (simp add: net_ok_def)
      then show ?thesis using twoA_ok_mono [OF _ A'(1)] sub unfolding wire_ok_def by blast
    next
      case 2
      have "out_ok L i A' (N_SendAll (snd x))" using A'(3) n2_sends_out [OF 2(2)] unfolding step_ok_def by blast
      moreover have "set (TwoBs (snd x)) \<subseteq> sent2B s'" using S 2(2) by blast
      ultimately show ?thesis using 2(1) i unfolding wire_ok_def by auto
    qed
  qed
  moreover have "estep A' (nnodes s i) r' \<or> fstep A' (nnodes s i) r'" using A'(3) by (simp add: step_ok_def)
  ultimately show ?thesis using A'(1) run nodes by blast
qed

text \<open>No two commands are between their mark and their execution.\<close>

definition serial :: "n2_event \<Rightarrow> n2 \<Rightarrow> bool" where
  "serial ev r \<longleftrightarrow> (case run_n2 ev r of Some (r', _) \<Rightarrow> one_executing r' | None \<Rightarrow> True)"

lemma n2_reach_ok: "n2_reach ok N L s \<Longrightarrow> \<exists>A. net_ok N L A s"
proof (induction rule: n2_reach.induct)
  case (init f pl)
  then show ?case using init_net_ok by blast
next
  case (step s i ev s')
  then show ?case using n2_do_ok by blast
next
  case (lose s a x b)
  then obtain A where "net_ok N L A s" by blast
  with lose(2) show ?case by (auto simp: net_ok_def sent2B_def intro!: exI [of _ A])
qed

lemma n2_reach_serial:
  "n2_reach serial N L s \<Longrightarrow> \<exists>A. net_ok N L A s \<and> (\<forall>i. 0 \<le> i \<and> i < int N \<longrightarrow> exec_ok A (nnodes s i))"
proof (induction rule: n2_reach.induct)
  case (init f pl)
  have "exec_ok [] (nnodes (init_n2 N L f pl) i)" for i
    unfolding exec_ok_def by (intro exI [of _ 0]) (simp add: init_n2_def New_n2_def exset_def)
  then show ?case using init_net_ok by blast
next
  case (step s i ev s')
  then obtain A where A: "net_ok N L A s" "\<forall>i. 0 \<le> i \<and> i < int N \<longrightarrow> exec_ok A (nnodes s i)" by blast
  from n2_do_ok [OF A(1) step(2,3,5,6)] obtain A' outs r' where
    x: "prefix A A'" "net_ok N L A' s'" "run_n2 ev (nnodes s i) = Some (r', outs)" "nnodes s' = (nnodes s)(i := r')"
      "estep A' (nnodes s i) r' \<or> fstep A' (nnodes s i) r'" by blast
  have e: "exec_ok A' (nnodes s j)" if "0 \<le> j \<and> j < int N" for j using A(2) that exec_ok_mono [OF _ x(1)] by blast
  have "one_executing r'" using step(4) x(3) by (simp add: serial_def)
  with e [of i] step(2,3) x(5) have "exec_ok A' r'" using estep_exec fstep_exec by blast
  with e have "exec_ok A' (nnodes s' j)" if "0 \<le> j \<and> j < int N" for j using that by (cases "j = i") (simp_all add: x(4))
  with x(2) show ?case by blast
next
  case (lose s a x b)
  then obtain A where "net_ok N L A s" "\<forall>i. 0 \<le> i \<and> i < int N \<longrightarrow> exec_ok A (nnodes s i)" by blast
  with lose(2) show ?case by (auto simp: net_ok_def sent2B_def intro!: exI [of _ A])
qed

text \<open>As long as there is one slot, every execution is serial.\<close>

lemma exset_slots: "node_ok N L i A S r \<Longrightarrow> slot \<in> exset r \<Longrightarrow> 0 \<le> slot \<and> slot < int (length A)"
  by (auto simp: exset_def node_ok_def entry_ok_def desc_ok_def)

lemma n2_moves_grow:
  "net_ok N L A s \<Longrightarrow> n2_moves N ms s = Some s' \<Longrightarrow> \<exists>A'. prefix A A' \<and> net_ok N L A' s'"
proof (induction ms arbitrary: s A)
  case (Cons m ms)
  from Cons.prems(2) obtain i ev s1 where 1: "n2_do N i ev s = Some s1" "n2_moves N ms s1 = Some s'"
      "0 \<le> i" "i < int N" "lastCmdSlot (nnodes s i) < 9223372036854775807"
    by (auto split: Option.bind_splits if_splits)
  from n2_do_ok [OF Cons.prems(1) 1(3,4,5,1)] obtain A1 where "prefix A A1" "net_ok N L A1 s1" by blast
  with Cons.IH [OF _ 1(2)] show ?case using prefix_order.trans by blast
qed auto

lemma n2_moves_serial:
  assumes "0 \<le> L" "L < int N"
  shows "n2_reach serial N L s \<Longrightarrow> n2_moves N ms s = Some s' \<Longrightarrow> lastCmdSlot (nnodes s' L) \<le> 1 \<Longrightarrow>
    n2_reach serial N L s'"
proof (induction ms arbitrary: s)
  case (Cons m ms)
  from Cons.prems(2) obtain i ev s1 where 1: "n2_do N i ev s = Some s1" "n2_moves N ms s1 = Some s'"
      "0 \<le> i" "i < int N" "lastCmdSlot (nnodes s i) < 9223372036854775807"
    by (auto split: Option.bind_splits if_splits)
  from n2_reach_ok [OF Cons.prems(1)] obtain A where A: "net_ok N L A s" by blast
  from n2_do_ok [OF A 1(3,4,5,1)] obtain A1 outs r1 where A1: "net_ok N L A1 s1"
    "run_n2 ev (nnodes s i) = Some (r1, outs)" "nnodes s1 = (nnodes s)(i := r1)" by blast
  from n2_moves_grow [OF A1(1) 1(2)] obtain A2 where A2: "prefix A1 A2" "net_ok N L A2 s'" by blast
  have "length A1 \<le> 1"
    using Cons.prems(3) assms A2 prefix_length_le [of A1 A2] by (simp add: net_ok_def)
  moreover have "node_ok N L i A1 (sent2B s1) r1" using A1(1,3) 1(3,4) by (auto simp: net_ok_def)
  ultimately have "t = 0" if "t \<in> exset r1" for t using exset_slots that by fastforce
  then have "one_executing r1" unfolding one_executing_def by blast
  then have "serial ev (nnodes s i)" using A1(2) by (simp add: serial_def)
  from n2_reach.step [OF Cons.prems(1) 1(3,4) this 1(5,1)] Cons.IH 1(2) Cons.prems(3) show ?case by blast
qed simp

subsection \<open>Properties\<close>

text \<open>C4. In every execution in which each delivery executes its command before the next one begins,
  the store of every replica is the result of executing, from the empty store, a prefix of one sequence
  of commands, the one in which the leader numbered them; the prefix has as many commands as the
  replica has delivered slots, less the one being executed. Messages may be lost, delayed and reordered.\<close>

theorem n2_refines_state_machine:
  assumes "n2_reach serial N L s" and "0 \<le> L" "L < int N"
  shows "\<exists>cs. int (length cs) = lastCmdSlot (nnodes s L) \<and>
    (\<forall>i. 0 \<le> i \<and> i < int N \<longrightarrow>
      (\<exists>k vs. delivered (nnodes s i) = {0..<k} \<and> 0 \<le> k \<and> k \<le> int (length cs) \<and>
        exec_cmds (take (nat k - card (exset (nnodes s i))) cs) InitState = Some (vs, nState (nnodes s i))))"
proof -
  from n2_reach_serial [OF assms(1)] obtain A where A: "net_ok N L A s"
    "\<forall>i. 0 \<le> i \<and> i < int N \<longrightarrow> exec_ok A (nnodes s i)" by blast
  have "\<exists>k vs. delivered (nnodes s i) = {0..<k} \<and> 0 \<le> k \<and> k \<le> int (length A) \<and>
      exec_cmds (take (nat k - card (exset (nnodes s i))) (map a2_Cmd A)) InitState = Some (vs, nState (nnodes s i))"
    if i: "0 \<le> i \<and> i < int N" for i
  proof -
    from A(2) i obtain k e vs where k: "0 \<le> k" "k \<le> int (length A)" "delivered (nnodes s i) = {0..<k}"
      "exset (nnodes s i) = {} \<and> e = k \<or> 0 < k \<and> exset (nnodes s i) = {k - 1} \<and> e = k - 1"
      "exec_cmds (map a2_Cmd (take (nat e) A)) InitState = Some (vs, nState (nnodes s i))"
      unfolding exec_ok_def by blast
    have "nat e = nat k - card (exset (nnodes s i))" using k(4)
    proof
      assume "0 < k \<and> exset (nnodes s i) = {k - 1} \<and> e = k - 1"
      then show ?thesis by simp
    qed simp
    with k show ?thesis by (intro exI [of _ k] exI [of _ vs]) (simp add: take_map)
  qed
  moreover have "lastCmdSlot (nnodes s L) = int (length A)" using A(1) assms(2,3) by (simp add: net_ok_def)
  ultimately show ?thesis by (intro exI [of _ "map a2_Cmd A"]) simp
qed

lemma first_slot_run:
  "case n2_moves 3 first_slot (init_n2 3 0 1 1) of
     Some s \<Rightarrow> lastCmdSlot (nnodes s 0) = 1 \<and> 0 \<in> delivered (nnodes s 0) \<and> Store (nState (nnodes s 0)) 5 = Some [7]
   | None \<Rightarrow> False"
  by code_simp

theorem n2_refines_state_machine_witness:
  "\<exists>(s :: n2net) cs. int (length cs) = 1 \<and> 0 \<in> delivered (nnodes s 0) \<and>
    (\<exists>k vs. delivered (nnodes s 0) = {0..<k} \<and> 0 \<le> k \<and> k \<le> int (length cs) \<and>
        exec_cmds (take (nat k - card (exset (nnodes s 0))) cs) InitState = Some (vs, nState (nnodes s 0)))"
proof -
  obtain s where s: "n2_moves 3 first_slot (init_n2 3 0 1 1) = Some s" "lastCmdSlot (nnodes s 0) = 1"
    "0 \<in> delivered (nnodes s 0)" using first_slot_run by (auto split: option.splits)
  have "n2_reach serial 3 0 s" by (rule n2_moves_serial [OF _ _ n2_reach.init s(1)]) (simp_all add: s(2))
  then have "\<exists>cs. int (length cs) = lastCmdSlot (nnodes s 0) \<and>
    (\<forall>i. 0 \<le> i \<and> i < int 3 \<longrightarrow>
      (\<exists>k vs. delivered (nnodes s i) = {0..<k} \<and> 0 \<le> k \<and> k \<le> int (length cs) \<and>
        exec_cmds (take (nat k - card (exset (nnodes s i))) cs) InitState = Some (vs, nState (nnodes s i))))"
    by (rule n2_refines_state_machine) simp_all
  then obtain cs where cs: "int (length cs) = lastCmdSlot (nnodes s 0)" "\<forall>i. 0 \<le> i \<and> i < int 3 \<longrightarrow>
      (\<exists>k vs. delivered (nnodes s i) = {0..<k} \<and> 0 \<le> k \<and> k \<le> int (length cs) \<and>
        exec_cmds (take (nat k - card (exset (nnodes s i))) cs) InitState = Some (vs, nState (nnodes s i)))" by blast
  have "\<exists>k vs. delivered (nnodes s 0) = {0..<k} \<and> 0 \<le> k \<and> k \<le> int (length cs) \<and>
        exec_cmds (take (nat k - card (exset (nnodes s 0))) cs) InitState = Some (vs, nState (nnodes s 0))"
    using cs(2) [rule_format, of 0] by simp
  with cs(1) s(2,3) show ?thesis by (intro exI [of _ s] exI [of _ cs] conjI) simp_all
qed

text \<open>C22. A replica that is not the leader delivers a slot only once a majority has accepted it: for each
  member of the majority other than itself a 2B message for the slot has been sent.\<close>

theorem n2_follower_needs_majority:
  assumes "n2_reach ok N L s" and "0 \<le> i" "i < int N" and "i \<noteq> L" and "slot \<in> delivered (nnodes s i)"
  shows "is_majority (int N) {v. 0 \<le> v \<and> v < int N \<and>
    (v = i \<or> (\<exists>m \<in> set (nsent s). \<exists>b \<in> set (TwoBs m). b2_Replica b = v \<and> b2_CmdSlot b = slot))}"
proof -
  from n2_reach_ok [OF assms(1)] obtain A where "net_ok N L A s" by blast
  then have "node_ok N L i A (sent2B s) (nnodes s i)" using assms(2,3) by (simp add: net_ok_def)
  then have "is_majority (int N) (accepted_by N i (sent2B s) slot)" using assms(4,5) unfolding node_ok_def by blast
  then show ?thesis by (simp add: accepted_by_def sent2B_def)
qed

theorem n2_follower_needs_majority_witness:
  "\<exists>s :: n2net. 1 \<in> delivered (nnodes s 1) \<and> is_majority (int 3) {v. 0 \<le> v \<and> v < int 3 \<and>
    (v = 1 \<or> (\<exists>m \<in> set (nsent s). \<exists>b \<in> set (TwoBs m). b2_Replica b = v \<and> b2_CmdSlot b = 1))}"
proof -
  obtain s where s: "reordered = Some s" "delivered (nnodes s 1) = {0, 1}"
    using reordered_run by (auto split: option.splits)
  have "n2_reach (\<lambda>_ _. True) 3 0 s"
    using n2_moves_reach [OF n2_reach.init] s(1) unfolding reordered_def by blast
  from n2_follower_needs_majority [OF this, of 1 1] s(2) show ?thesis by (intro exI [of _ s]) simp
qed

text \<open>The leader does not wait for a majority: there is an execution in which it has answered the
  clients of two commands although the second has not been sent to any other replica.\<close>

theorem n2_leader_answers_early:
  "\<exists>s. n2_reach (\<lambda>_ _. True) 3 0 s \<and>
     map (\<lambda>(i, p, v). (i, p_CommandId (Propose p), OK v)) (nanswers s) = [(0, 1, TRUE), (0, 2, TRUE)] \<and>
     map (n_SeqNum \<circ> a2_CmdId) (concat (map TwoAs (nsent s))) = [1]"
proof -
  obtain s where e: "early_answer = Some s" using early_answer_run by (cases early_answer) (simp only: option.case, blast)
  note s = early_answer_run [unfolded e option.case]
  have "n2_reach (\<lambda>_ _. True) 3 0 s"
    using n2_moves_reach [OF n2_reach.init] e unfolding early_answer_def by blast
  with s show ?thesis by (intro exI [of _ s] conjI) (elim conjE, assumption)+
qed

text \<open>C29. Commands can be executed out of order: there is an execution after which two replicas have
  delivered the same two slots and executed both commands, and their stores differ.\<close>

theorem n2_execution_race:
  "\<exists>s. n2_reach (\<lambda>_ _. True) 3 0 s \<and> delivered (nnodes s 0) = {0, 1} \<and> delivered (nnodes s 1) = {0, 1} \<and>
     Store (nState (nnodes s 0)) 5 = Some [8] \<and> Store (nState (nnodes s 1)) 5 = Some [7]"
proof -
  obtain s where s: "reordered = Some s" "delivered (nnodes s 0) = {0, 1}" "delivered (nnodes s 1) = {0, 1}"
    "Store (nState (nnodes s 0)) 5 = Some [8]" "Store (nState (nnodes s 1)) 5 = Some [7]"
    using reordered_run by (auto split: option.splits)
  have "n2_reach (\<lambda>_ _. True) 3 0 s"
    using n2_moves_reach [OF n2_reach.init] s(1) unfolding reordered_def by blast
  with s show ?thesis by blast
qed

end
