(* ===== verification/Swift_Msgs.thy ===== *)
theory Swift_Msgs
  imports Replica Pool
begin

section \<open>Messages of the SwiftPaxos package\<close>

text \<open>
  The message structs of \<open>src/swift/defs.go\<close>, dependency lists, the encodings, object caches and the
  registration of the message types.

  \<^item> The handlers tell a nil slice of dependencies or hashes from an empty one, so those fields are
    slices that may be nil. A phase is a plain \<open>int\<close> of the source, as it comes from the wire.
  \<^item> A hash is an array of 32 bytes. Inside other messages it is written and read byte by byte
    (\<open>hash_read\<close>), and a command id field by field (\<open>id_read\<close>).
  \<^item> The readers of batches of acknowledgements and of a recovering replica's log drop the errors
    of the structs they contain; the other readers return every error.
  \<^item> \<open>MSync\<close> travels in the encoding of \<open>encoding/gob\<close>, which is not modelled.
\<close>

subsection \<open>Status and phases\<close>

datatype sw_status = SW_NORMAL | SW_RECOVERING

definition SW_START :: int where "SW_START = 0"
definition PRE_ACCEPT :: int where "PRE_ACCEPT = 1"
definition ACCEPT :: int where "ACCEPT = 2"
definition SW_COMMIT :: int where "SW_COMMIT = 3"

lemmas sw_phases = SW_START_def PRE_ACCEPT_def ACCEPT_def SW_COMMIT_def

definition sw_HISTORY_SIZE :: int where
  "sw_HISTORY_SIZE = 10010001"

definition sw_MaxDescRoutines :: int where
  "sw_MaxDescRoutines = 100"

subsection \<open>Structs\<close>

record sw_CommandId =
  sw_ClientId :: int
  sw_SeqNum :: int

type_synonym Dep = "sw_CommandId slice"

type_synonym SHash = "byte list"

record MFastAck =
  fa_Replica :: int
  fa_Ballot :: int
  fa_CmdId :: sw_CommandId
  fa_Dep :: Dep
  fa_Checksum :: "SHash slice"
  fa_Seqnum :: int

record MFastAckClient =
  fc_Replica :: int
  fc_Ballot :: int
  fc_CmdId :: sw_CommandId
  fc_Checksum :: "SHash slice"

record MSlowAck =
  sa_Replica :: int
  sa_Ballot :: int
  sa_CmdId :: sw_CommandId
  sa_Dep :: Dep
  sa_Checksum :: "SHash slice"

record MLightSlowAck =
  ls_Replica :: int
  ls_Ballot :: int
  ls_CmdId :: sw_CommandId

record MAcks =
  FastAcks :: "MFastAck list"
  LightSlowAcks :: "MLightSlowAck list"

record Ack =
  ak_CmdId :: sw_CommandId
  ak_Dep :: Dep
  ak_Checksum :: "SHash slice"
  ak_Seqnum :: int

record MOptAcks =
  oa_Replica :: int
  oa_Ballot :: int
  Acks :: "Ack list"

record MReply =
  mr_Replica :: int
  mr_Ballot :: int
  mr_CmdId :: sw_CommandId
  mr_Checksum :: "SHash slice"
  mr_Rep :: "byte list"

record MAccept =
  mc_Replica :: int
  mc_Ballot :: int
  mc_CmdId :: sw_CommandId
  mc_Rep :: "byte list"

record MNewLeader =
  nl_Replica :: int
  nl_Ballot :: int

record MNewLeaderAck =
  na_Replica :: int
  na_Ballot :: int
  na_Cballot :: int

record SDep =
  sd_Dep :: Dep

record MNewLeaderAckN =
  nn_Replica :: int
  nn_Ballot :: int
  nn_Cballot :: int
  nn_CmdIds :: "sw_CommandId list"
  nn_Phases :: "int list"
  nn_Cmds :: "command list"
  nn_Deps :: "SDep list"

record MShareState =
  ss_Replica :: int
  ss_Ballot :: int

record MSync =
  ms_Replica :: int
  ms_Ballot :: int
  ms_Phases :: "sw_CommandId \<rightharpoonup> int"
  ms_Cmds :: "sw_CommandId \<rightharpoonup> command"
  ms_Deps :: "sw_CommandId \<rightharpoonup> Dep"

record MLightSync =
  lt_Replica :: int
  lt_Ballot :: int

record MCollect =
  co_Replica :: int
  co_Ballot :: int
  co_Ids :: "sw_CommandId list"

record MPing =
  pi_Replica :: int
  pi_Ballot :: int

record MPingRep =
  pr_Replica :: int
  pr_Ballot :: int

definition zero_id :: sw_CommandId where
  "zero_id = \<lparr>sw_ClientId = 0, sw_SeqNum = 0\<rparr>"

definition zero_hash :: SHash where
  "zero_hash = replicate 32 0"

definition zero_Ack :: Ack where
  "zero_Ack = \<lparr>ak_CmdId = zero_id, ak_Dep = None, ak_Checksum = None, ak_Seqnum = 0\<rparr>"

definition zero_FastAck :: MFastAck where
  "zero_FastAck = \<lparr>fa_Replica = 0, fa_Ballot = 0, fa_CmdId = zero_id, fa_Dep = None, fa_Checksum = None, fa_Seqnum = 0\<rparr>"

definition zero_LightSlowAck :: MLightSlowAck where
  "zero_LightSlowAck = \<lparr>ls_Replica = 0, ls_Ballot = 0, ls_CmdId = zero_id\<rparr>"

definition copyFastAck :: "MFastAck \<Rightarrow> MFastAck" where
  "copyFastAck fa =
     zero_FastAck\<lparr>fa_Replica := fa_Replica fa, fa_Ballot := fa_Ballot fa, fa_CmdId := fa_CmdId fa,
       fa_Dep := fa_Dep fa, fa_Checksum := fa_Checksum fa, fa_Seqnum := fa_Seqnum fa\<rparr>"

lemma copyFastAck_id [simp]: "copyFastAck fa = fa"
  by (simp add: copyFastAck_def zero_FastAck_def)

subsection \<open>Dependency lists\<close>

fun Dep_Contains :: "sw_CommandId list \<Rightarrow> sw_CommandId \<Rightarrow> bool" where
  "Dep_Contains [] c = False"
| "Dep_Contains (d # ds) c = (if d = c then True else Dep_Contains ds c)"

definition NilDepOfCmdId :: "sw_CommandId \<Rightarrow> Dep" where
  "NilDepOfCmdId c = Some [c]"

definition IsNilDepOfCmdId :: "sw_CommandId \<Rightarrow> Dep \<Rightarrow> bool" where
  "IsNilDepOfCmdId c d \<longleftrightarrow> length (elems d) = 1 \<and> elems d ! 0 = c"

text \<open>One element of one list: it cancels the same element seen in the other list, or is
  remembered. The two maps with empty values are sets.\<close>

definition dep_see :: "sw_CommandId \<Rightarrow> sw_CommandId set \<times> sw_CommandId set \<Rightarrow> sw_CommandId set \<times> sw_CommandId set" where
  "dep_see c s = (case s of (mine, others) \<Rightarrow>
     if c \<in> others then (mine, others - {c}) else (Set.insert c mine, others))"

definition dep_step ::
    "sw_CommandId \<Rightarrow> sw_CommandId \<Rightarrow> sw_CommandId set \<times> sw_CommandId set \<Rightarrow> sw_CommandId set \<times> sw_CommandId set" where
  "dep_step c d s = (if c = d then s else prod.swap (dep_see d (prod.swap (dep_see c s))))"

fun dep_loop ::
    "sw_CommandId list \<Rightarrow> sw_CommandId list \<Rightarrow> sw_CommandId set \<times> sw_CommandId set \<Rightarrow> sw_CommandId set \<times> sw_CommandId set" where
  "dep_loop (c # cs) (d # ds) s = dep_loop cs ds (dep_step c d s)"
| "dep_loop (c # cs) [] s = dep_loop cs [] (dep_see c s)"
| "dep_loop [] (d # ds) s = dep_loop [] ds (prod.swap (dep_see d (prod.swap s)))"
| "dep_loop [] [] s = s"

definition Dep_Equals :: "sw_CommandId list \<Rightarrow> sw_CommandId list \<Rightarrow> bool" where
  "Dep_Equals dep1 dep2 =
     (if length dep1 \<noteq> length dep2 then False
      else case dep_loop dep1 dep2 ({}, {}) of
        (seen1, seen2) \<Rightarrow> card seen1 = card seen2 \<and> card seen1 = 0)"

definition EqualsAndDiff :: "sw_CommandId list \<Rightarrow> sw_CommandId list \<Rightarrow> bool \<times> sw_CommandId set" where
  "EqualsAndDiff dep1 dep2 =
     (case dep_loop dep1 dep2 ({}, {}) of
        (seen1, seen2) \<Rightarrow>
          (length dep1 = length dep2 \<and> card seen1 = card seen2 \<and> card seen1 = 0, seen1))"

definition inConflict :: "command \<Rightarrow> command \<Rightarrow> bool option" where
  "inConflict c1 c2 = Conflict c1 c2"

definition isNoop :: "command \<Rightarrow> bool" where
  "isNoop c \<longleftrightarrow> Op c = NONE"

subsection \<open>Encoding\<close>

text \<open>A command id and a hash on their own, and as elements of a slice.\<close>

definition sw_CommandId_Marshal :: "sw_CommandId \<Rightarrow> byte list" where
  "sw_CommandId_Marshal t = put32 (sw_ClientId t) @ put32 (sw_SeqNum t)"

definition sw_CommandId_Unmarshal :: "sw_CommandId \<Rightarrow> byte list \<Rightarrow> sw_CommandId outcome" where
  "sw_CommandId_Unmarshal t s =
     with_bytes 8 t s (\<lambda>bs r. Ok (t\<lparr>sw_ClientId := get32 bs, sw_SeqNum := get32 (drop 4 bs)\<rparr>) r)"

definition id_read :: "sw_CommandId \<Rightarrow> byte list \<Rightarrow> sw_CommandId outcome" where
  "id_read t s =
     with_bytes 4 t s (\<lambda>bs r.
       let t = t\<lparr>sw_ClientId := get32 bs\<rparr>
       in with_bytes 4 t r (\<lambda>bs r. Ok (t\<lparr>sw_SeqNum := get32 bs\<rparr>) r))"

definition SHash_Marshal :: "SHash \<Rightarrow> byte list" where
  "SHash_Marshal h = map (nth h) [0..<32]"

definition SHash_Unmarshal :: "SHash \<Rightarrow> byte list \<Rightarrow> SHash outcome" where
  "SHash_Unmarshal h s = with_bytes 32 h s (\<lambda>bs r. Ok bs r)"

fun hash_bytes_read :: "nat \<Rightarrow> nat \<Rightarrow> SHash \<Rightarrow> byte list \<Rightarrow> SHash outcome" where
  "hash_bytes_read 0 i h s = Ok h s"
| "hash_bytes_read (Suc n) i h s =
     with_bytes 1 h s (\<lambda>bs r. hash_bytes_read n (Suc i) (h[i := hd bs]) r)"

definition hash_read :: "SHash \<Rightarrow> byte list \<Rightarrow> SHash outcome" where
  "hash_read h s = hash_bytes_read 32 0 h s"

abbreviation get_ids :: "Dep \<Rightarrow> byte list \<Rightarrow> Dep outcome" where
  "get_ids \<equiv> get_nslice (read_each id_read zero_id)"

abbreviation get_hashes :: "SHash slice \<Rightarrow> byte list \<Rightarrow> SHash slice outcome" where
  "get_hashes \<equiv> get_nslice (read_each hash_read zero_hash)"

definition MNewLeader_Marshal :: "MNewLeader \<Rightarrow> byte list" where
  "MNewLeader_Marshal t = put32 (nl_Replica t) @ put32 (nl_Ballot t)"

definition MNewLeader_Unmarshal :: "MNewLeader \<Rightarrow> byte list \<Rightarrow> MNewLeader outcome" where
  "MNewLeader_Unmarshal t s =
     with_bytes 8 t s (\<lambda>bs r. Ok (t\<lparr>nl_Replica := get32 bs, nl_Ballot := get32 (drop 4 bs)\<rparr>) r)"

definition MShareState_Marshal :: "MShareState \<Rightarrow> byte list" where
  "MShareState_Marshal t = put32 (ss_Replica t) @ put32 (ss_Ballot t)"

definition MShareState_Unmarshal :: "MShareState \<Rightarrow> byte list \<Rightarrow> MShareState outcome" where
  "MShareState_Unmarshal t s =
     with_bytes 8 t s (\<lambda>bs r. Ok (t\<lparr>ss_Replica := get32 bs, ss_Ballot := get32 (drop 4 bs)\<rparr>) r)"

definition MLightSync_Marshal :: "MLightSync \<Rightarrow> byte list" where
  "MLightSync_Marshal t = put32 (lt_Replica t) @ put32 (lt_Ballot t)"

definition MLightSync_Unmarshal :: "MLightSync \<Rightarrow> byte list \<Rightarrow> MLightSync outcome" where
  "MLightSync_Unmarshal t s =
     with_bytes 8 t s (\<lambda>bs r. Ok (t\<lparr>lt_Replica := get32 bs, lt_Ballot := get32 (drop 4 bs)\<rparr>) r)"

definition MPing_Marshal :: "MPing \<Rightarrow> byte list" where
  "MPing_Marshal t = put32 (pi_Replica t) @ put32 (pi_Ballot t)"

definition MPing_Unmarshal :: "MPing \<Rightarrow> byte list \<Rightarrow> MPing outcome" where
  "MPing_Unmarshal t s =
     with_bytes 8 t s (\<lambda>bs r. Ok (t\<lparr>pi_Replica := get32 bs, pi_Ballot := get32 (drop 4 bs)\<rparr>) r)"

definition MPingRep_Marshal :: "MPingRep \<Rightarrow> byte list" where
  "MPingRep_Marshal t = put32 (pr_Replica t) @ put32 (pr_Ballot t)"

definition MPingRep_Unmarshal :: "MPingRep \<Rightarrow> byte list \<Rightarrow> MPingRep outcome" where
  "MPingRep_Unmarshal t s =
     with_bytes 8 t s (\<lambda>bs r. Ok (t\<lparr>pr_Replica := get32 bs, pr_Ballot := get32 (drop 4 bs)\<rparr>) r)"

definition MNewLeaderAck_Marshal :: "MNewLeaderAck \<Rightarrow> byte list" where
  "MNewLeaderAck_Marshal t = put32 (na_Replica t) @ put32 (na_Ballot t) @ put32 (na_Cballot t)"

definition MNewLeaderAck_Unmarshal :: "MNewLeaderAck \<Rightarrow> byte list \<Rightarrow> MNewLeaderAck outcome" where
  "MNewLeaderAck_Unmarshal t s =
     with_bytes 12 t s (\<lambda>bs r.
       Ok (t\<lparr>na_Replica := get32 bs, na_Ballot := get32 (drop 4 bs), na_Cballot := get32 (drop 8 bs)\<rparr>) r)"

text \<open>The header that most acknowledgements start with.\<close>

definition put_head :: "int \<Rightarrow> int \<Rightarrow> sw_CommandId \<Rightarrow> byte list" where
  "put_head rep bal c = put32 rep @ put32 bal @ put32 (sw_ClientId c) @ put32 (sw_SeqNum c)"

definition get_head :: "byte list \<Rightarrow> sw_CommandId" where
  "get_head bs = \<lparr>sw_ClientId = get32 (drop 8 bs), sw_SeqNum = get32 (drop 12 bs)\<rparr>"

definition MLightSlowAck_Marshal :: "MLightSlowAck \<Rightarrow> byte list" where
  "MLightSlowAck_Marshal t = put_head (ls_Replica t) (ls_Ballot t) (ls_CmdId t)"

definition MLightSlowAck_Unmarshal :: "MLightSlowAck \<Rightarrow> byte list \<Rightarrow> MLightSlowAck outcome" where
  "MLightSlowAck_Unmarshal t s =
     with_bytes 16 t s (\<lambda>bs r.
       Ok (t\<lparr>ls_Replica := get32 bs, ls_Ballot := get32 (drop 4 bs), ls_CmdId := get_head bs\<rparr>) r)"

definition Ack_Marshal :: "Ack \<Rightarrow> byte list" where
  "Ack_Marshal t =
     (put32 (sw_ClientId (ak_CmdId t)) @ put32 (sw_SeqNum (ak_CmdId t))) @
     put_slice sw_CommandId_Marshal (elems (ak_Dep t)) @
     put_slice SHash_Marshal (elems (ak_Checksum t)) @ put64 (ak_Seqnum t)"

definition Ack_Unmarshal :: "Ack \<Rightarrow> byte list \<Rightarrow> Ack outcome" where
  "Ack_Unmarshal t s =
     with_bytes 8 t s (\<lambda>bs r.
       let t = t\<lparr>ak_CmdId := \<lparr>sw_ClientId = get32 bs, sw_SeqNum = get32 (drop 4 bs)\<rparr>\<rparr>
       in and_then (\<lambda>x. t\<lparr>ak_Dep := x\<rparr>) (get_ids (ak_Dep t) r) (\<lambda>t r.
          and_then (\<lambda>x. t\<lparr>ak_Checksum := x\<rparr>) (get_hashes (ak_Checksum t) r) (\<lambda>t r.
          with_bytes 8 t r (\<lambda>bs r. Ok (t\<lparr>ak_Seqnum := get64 bs\<rparr>) r))))"

definition MFastAck_Marshal :: "MFastAck \<Rightarrow> byte list" where
  "MFastAck_Marshal t =
     put_head (fa_Replica t) (fa_Ballot t) (fa_CmdId t) @
     put_slice sw_CommandId_Marshal (elems (fa_Dep t)) @
     put_slice SHash_Marshal (elems (fa_Checksum t)) @ put64 (fa_Seqnum t)"

definition MFastAck_Unmarshal :: "MFastAck \<Rightarrow> byte list \<Rightarrow> MFastAck outcome" where
  "MFastAck_Unmarshal t s =
     with_bytes 16 t s (\<lambda>bs r.
       let t = t\<lparr>fa_Replica := get32 bs, fa_Ballot := get32 (drop 4 bs), fa_CmdId := get_head bs\<rparr>
       in and_then (\<lambda>x. t\<lparr>fa_Dep := x\<rparr>) (get_ids (fa_Dep t) r) (\<lambda>t r.
          and_then (\<lambda>x. t\<lparr>fa_Checksum := x\<rparr>) (get_hashes (fa_Checksum t) r) (\<lambda>t r.
          with_bytes 8 t r (\<lambda>bs r. Ok (t\<lparr>fa_Seqnum := get64 bs\<rparr>) r))))"

definition MFastAckClient_Marshal :: "MFastAckClient \<Rightarrow> byte list" where
  "MFastAckClient_Marshal t =
     put_head (fc_Replica t) (fc_Ballot t) (fc_CmdId t) @ put_slice SHash_Marshal (elems (fc_Checksum t))"

definition MFastAckClient_Unmarshal :: "MFastAckClient \<Rightarrow> byte list \<Rightarrow> MFastAckClient outcome" where
  "MFastAckClient_Unmarshal t s =
     with_bytes 16 t s (\<lambda>bs r.
       let t = t\<lparr>fc_Replica := get32 bs, fc_Ballot := get32 (drop 4 bs), fc_CmdId := get_head bs\<rparr>
       in and_then (\<lambda>x. t\<lparr>fc_Checksum := x\<rparr>) (get_hashes (fc_Checksum t) r) Ok)"

definition MSlowAck_Marshal :: "MSlowAck \<Rightarrow> byte list" where
  "MSlowAck_Marshal t =
     put_head (sa_Replica t) (sa_Ballot t) (sa_CmdId t) @
     put_slice sw_CommandId_Marshal (elems (sa_Dep t)) @ put_slice SHash_Marshal (elems (sa_Checksum t))"

definition MSlowAck_Unmarshal :: "MSlowAck \<Rightarrow> byte list \<Rightarrow> MSlowAck outcome" where
  "MSlowAck_Unmarshal t s =
     with_bytes 16 t s (\<lambda>bs r.
       let t = t\<lparr>sa_Replica := get32 bs, sa_Ballot := get32 (drop 4 bs), sa_CmdId := get_head bs\<rparr>
       in and_then (\<lambda>x. t\<lparr>sa_Dep := x\<rparr>) (get_ids (sa_Dep t) r) (\<lambda>t r.
          and_then (\<lambda>x. t\<lparr>sa_Checksum := x\<rparr>) (get_hashes (sa_Checksum t) r) Ok))"

definition MReply_Marshal :: "MReply \<Rightarrow> byte list" where
  "MReply_Marshal t =
     put_head (mr_Replica t) (mr_Ballot t) (mr_CmdId t) @
     put_slice SHash_Marshal (elems (mr_Checksum t)) @ PutVarint (int (length (mr_Rep t))) @ mr_Rep t"

definition MReply_Unmarshal :: "MReply \<Rightarrow> byte list \<Rightarrow> MReply outcome" where
  "MReply_Unmarshal t s =
     with_bytes 16 t s (\<lambda>bs r.
       let t = t\<lparr>mr_Replica := get32 bs, mr_Ballot := get32 (drop 4 bs), mr_CmdId := get_head bs\<rparr>
       in and_then (\<lambda>x. t\<lparr>mr_Checksum := x\<rparr>) (get_hashes (mr_Checksum t) r) (\<lambda>t r.
          and_then (\<lambda>x. t\<lparr>mr_Rep := x\<rparr>) (get_bytes (mr_Rep t) r) Ok))"

definition MAccept_Marshal :: "MAccept \<Rightarrow> byte list" where
  "MAccept_Marshal t =
     put_head (mc_Replica t) (mc_Ballot t) (mc_CmdId t) @ PutVarint (int (length (mc_Rep t))) @ mc_Rep t"

definition MAccept_Unmarshal :: "MAccept \<Rightarrow> byte list \<Rightarrow> MAccept outcome" where
  "MAccept_Unmarshal t s =
     with_bytes 16 t s (\<lambda>bs r.
       let t = t\<lparr>mc_Replica := get32 bs, mc_Ballot := get32 (drop 4 bs), mc_CmdId := get_head bs\<rparr>
       in and_then (\<lambda>x. t\<lparr>mc_Rep := x\<rparr>) (get_bytes (mc_Rep t) r) Ok)"

definition SDep_Marshal :: "SDep \<Rightarrow> byte list" where
  "SDep_Marshal t = put_slice sw_CommandId_Marshal (elems (sd_Dep t))"

definition SDep_Unmarshal :: "SDep \<Rightarrow> byte list \<Rightarrow> SDep outcome" where
  "SDep_Unmarshal t s = and_then (\<lambda>x. t\<lparr>sd_Dep := x\<rparr>) (get_ids (sd_Dep t) s) Ok"

definition MCollect_Marshal :: "MCollect \<Rightarrow> byte list" where
  "MCollect_Marshal t =
     (put32 (co_Replica t) @ put32 (co_Ballot t)) @ put_slice sw_CommandId_Marshal (co_Ids t)"

definition MCollect_Unmarshal :: "MCollect \<Rightarrow> byte list \<Rightarrow> MCollect outcome" where
  "MCollect_Unmarshal t s =
     with_bytes 8 t s (\<lambda>bs r.
       let t = t\<lparr>co_Replica := get32 bs, co_Ballot := get32 (drop 4 bs)\<rparr>
       in and_then (\<lambda>x. t\<lparr>co_Ids := x\<rparr>) (get_slice (read_each id_read zero_id) (co_Ids t) r) Ok)"

definition MOptAcks_Marshal :: "MOptAcks \<Rightarrow> byte list" where
  "MOptAcks_Marshal t =
     (put32 (oa_Replica t) @ put32 (oa_Ballot t)) @ put_slice Ack_Marshal (Acks t)"

definition MOptAcks_Unmarshal :: "MOptAcks \<Rightarrow> byte list \<Rightarrow> MOptAcks outcome" where
  "MOptAcks_Unmarshal t s =
     with_bytes 8 t s (\<lambda>bs r.
       let t = t\<lparr>oa_Replica := get32 bs, oa_Ballot := get32 (drop 4 bs)\<rparr>
       in and_then (\<lambda>x. t\<lparr>Acks := x\<rparr>) (get_slice (read_each_lax Ack_Unmarshal zero_Ack) (Acks t) r) Ok)"

text \<open>A light acknowledgement inside a batch.\<close>

definition light_read :: "MLightSlowAck \<Rightarrow> byte list \<Rightarrow> MLightSlowAck outcome" where
  "light_read t s =
     with_bytes 4 t s (\<lambda>bs r.
       let t = t\<lparr>ls_Replica := get32 bs\<rparr>
       in with_bytes 4 t r (\<lambda>bs r.
            let t = t\<lparr>ls_Ballot := get32 bs\<rparr>
            in and_then (\<lambda>x. t\<lparr>ls_CmdId := x\<rparr>) (id_read (ls_CmdId t) r) Ok))"

definition MAcks_Marshal :: "MAcks \<Rightarrow> byte list" where
  "MAcks_Marshal t = put_slice MFastAck_Marshal (FastAcks t) @ put_slice MLightSlowAck_Marshal (LightSlowAcks t)"

definition MAcks_Unmarshal :: "MAcks \<Rightarrow> byte list \<Rightarrow> MAcks outcome" where
  "MAcks_Unmarshal t s =
     and_then (\<lambda>x. t\<lparr>FastAcks := x\<rparr>) (get_slice (read_each_lax MFastAck_Unmarshal zero_FastAck) (FastAcks t) s) (\<lambda>t r.
     and_then (\<lambda>x. t\<lparr>LightSlowAcks := x\<rparr>) (get_slice (read_each light_read zero_LightSlowAck) (LightSlowAcks t) r) Ok)"

definition phase_read :: "int \<Rightarrow> byte list \<Rightarrow> int outcome" where
  "phase_read t s = with_bytes 8 t s (\<lambda>bs r. Ok (get64 bs) r)"

definition MNewLeaderAckN_Marshal :: "MNewLeaderAckN \<Rightarrow> byte list" where
  "MNewLeaderAckN_Marshal t =
     (put32 (nn_Replica t) @ put32 (nn_Ballot t) @ put32 (nn_Cballot t)) @
     put_slice sw_CommandId_Marshal (nn_CmdIds t) @ put_slice put64 (nn_Phases t) @
     put_slice Command_Marshal (nn_Cmds t) @ put_slice SDep_Marshal (nn_Deps t)"

definition MNewLeaderAckN_Unmarshal :: "MNewLeaderAckN \<Rightarrow> byte list \<Rightarrow> MNewLeaderAckN outcome" where
  "MNewLeaderAckN_Unmarshal t s =
     with_bytes 12 t s (\<lambda>bs r.
       let t = t\<lparr>nn_Replica := get32 bs, nn_Ballot := get32 (drop 4 bs), nn_Cballot := get32 (drop 8 bs)\<rparr>
       in and_then (\<lambda>x. t\<lparr>nn_CmdIds := x\<rparr>) (get_slice (read_each id_read zero_id) (nn_CmdIds t) r) (\<lambda>t r.
          and_then (\<lambda>x. t\<lparr>nn_Phases := x\<rparr>) (get_slice (read_each phase_read 0) (nn_Phases t) r) (\<lambda>t r.
          and_then (\<lambda>x. t\<lparr>nn_Cmds := x\<rparr>) (get_slice (read_each_lax Command_Unmarshal zero_command) (nn_Cmds t) r) (\<lambda>t r.
          and_then (\<lambda>x. t\<lparr>nn_Deps := x\<rparr>) (get_slice (read_each_lax SDep_Unmarshal \<lparr>sd_Dep = None\<rparr>) (nn_Deps t) r) Ok))))"

subsection \<open>Object caches and registration\<close>

definition sw_CommandIdCache_Get :: "sw_CommandId list \<Rightarrow> sw_CommandId \<times> sw_CommandId list" where
  "sw_CommandIdCache_Get = cache_Get zero_id"

definition SHashCache_Get :: "SHash list \<Rightarrow> SHash \<times> SHash list" where
  "SHashCache_Get = cache_Get zero_hash"

definition AckCache_Get :: "Ack list \<Rightarrow> Ack \<times> Ack list" where
  "AckCache_Get = cache_Get zero_Ack"

definition MNewLeaderAckCache_Get :: "MNewLeaderAck list \<Rightarrow> MNewLeaderAck \<times> MNewLeaderAck list" where
  "MNewLeaderAckCache_Get = cache_Get \<lparr>na_Replica = 0, na_Ballot = 0, na_Cballot = 0\<rparr>"

definition MLightSyncCache_Get :: "MLightSync list \<Rightarrow> MLightSync \<times> MLightSync list" where
  "MLightSyncCache_Get = cache_Get \<lparr>lt_Replica = 0, lt_Ballot = 0\<rparr>"

definition MFastAckCache_Get :: "MFastAck list \<Rightarrow> MFastAck \<times> MFastAck list" where
  "MFastAckCache_Get = cache_Get zero_FastAck"

definition MFastAckClientCache_Get :: "MFastAckClient list \<Rightarrow> MFastAckClient \<times> MFastAckClient list" where
  "MFastAckClientCache_Get = cache_Get \<lparr>fc_Replica = 0, fc_Ballot = 0, fc_CmdId = zero_id, fc_Checksum = None\<rparr>"

definition MLightSlowAckCache_Get :: "MLightSlowAck list \<Rightarrow> MLightSlowAck \<times> MLightSlowAck list" where
  "MLightSlowAckCache_Get = cache_Get zero_LightSlowAck"

definition MAcceptCache_Get :: "MAccept list \<Rightarrow> MAccept \<times> MAccept list" where
  "MAcceptCache_Get = cache_Get \<lparr>mc_Replica = 0, mc_Ballot = 0, mc_CmdId = zero_id, mc_Rep = []\<rparr>"

definition MNewLeaderCache_Get :: "MNewLeader list \<Rightarrow> MNewLeader \<times> MNewLeader list" where
  "MNewLeaderCache_Get = cache_Get \<lparr>nl_Replica = 0, nl_Ballot = 0\<rparr>"

definition SDepCache_Get :: "SDep list \<Rightarrow> SDep \<times> SDep list" where
  "SDepCache_Get = cache_Get \<lparr>sd_Dep = None\<rparr>"

definition MShareStateCache_Get :: "MShareState list \<Rightarrow> MShareState \<times> MShareState list" where
  "MShareStateCache_Get = cache_Get \<lparr>ss_Replica = 0, ss_Ballot = 0\<rparr>"

definition MOptAcksCache_Get :: "MOptAcks list \<Rightarrow> MOptAcks \<times> MOptAcks list" where
  "MOptAcksCache_Get = cache_Get \<lparr>oa_Replica = 0, oa_Ballot = 0, Acks = []\<rparr>"

definition MPingCache_Get :: "MPing list \<Rightarrow> MPing \<times> MPing list" where
  "MPingCache_Get = cache_Get \<lparr>pi_Replica = 0, pi_Ballot = 0\<rparr>"

definition MSlowAckCache_Get :: "MSlowAck list \<Rightarrow> MSlowAck \<times> MSlowAck list" where
  "MSlowAckCache_Get = cache_Get \<lparr>sa_Replica = 0, sa_Ballot = 0, sa_CmdId = zero_id, sa_Dep = None, sa_Checksum = None\<rparr>"

definition MAcksCache_Get :: "MAcks list \<Rightarrow> MAcks \<times> MAcks list" where
  "MAcksCache_Get = cache_Get \<lparr>FastAcks = [], LightSlowAcks = []\<rparr>"

definition MReplyCache_Get :: "MReply list \<Rightarrow> MReply \<times> MReply list" where
  "MReplyCache_Get = cache_Get \<lparr>mr_Replica = 0, mr_Ballot = 0, mr_CmdId = zero_id, mr_Checksum = None, mr_Rep = []\<rparr>"

definition MNewLeaderAckNCache_Get :: "MNewLeaderAckN list \<Rightarrow> MNewLeaderAckN \<times> MNewLeaderAckN list" where
  "MNewLeaderAckNCache_Get = cache_Get \<lparr>nn_Replica = 0, nn_Ballot = 0, nn_Cballot = 0, nn_CmdIds = [], nn_Phases = [], nn_Cmds = [], nn_Deps = []\<rparr>"

definition MCollectCache_Get :: "MCollect list \<Rightarrow> MCollect \<times> MCollect list" where
  "MCollectCache_Get = cache_Get \<lparr>co_Replica = 0, co_Ballot = 0, co_Ids = []\<rparr>"

definition MPingRepCache_Get :: "MPingRep list \<Rightarrow> MPingRep \<times> MPingRep list" where
  "MPingRepCache_Get = cache_Get \<lparr>pr_Replica = 0, pr_Ballot = 0\<rparr>"

text \<open>The message types registered with the RPC table, in order; \<open>shareStateRPC\<close> and its channel are
  declared and never set.\<close>

datatype sw_type = T_MFastAck | T_MFastAckClient | T_MSlowAck | T_MLightSlowAck | T_MAcks | T_MOptAcks
  | T_MReply | T_MNewLeader | T_MNewLeaderAckN | T_MSync | T_MPing | T_MPingRep | T_MCollect | T_MAccept

record sw_cs =
  fastAckRPC :: byte
  fastAckClientRPC :: byte
  slowAckRPC :: byte
  lightSlowAckRPC :: byte
  acksRPC :: byte
  optAcksRPC :: byte
  replyRPC :: byte
  newLeaderRPC :: byte
  newLeaderAckNRPC :: byte
  sw_syncRPC :: byte
  pingRPC :: byte
  pingRepRPC :: byte
  collectRPC :: byte
  acceptRPC :: byte
  shareStateRPC :: byte

definition sw_initCs :: "sw_cs \<Rightarrow> sw_type rpc_table \<Rightarrow> sw_cs \<times> sw_type rpc_table" where
  "sw_initCs cs t =
     (let (c0, t) = Register t T_MFastAck;
          (c1, t) = Register t T_MFastAckClient;
          (c2, t) = Register t T_MSlowAck;
          (c3, t) = Register t T_MLightSlowAck;
          (c4, t) = Register t T_MAcks;
          (c5, t) = Register t T_MOptAcks;
          (c6, t) = Register t T_MReply;
          (c7, t) = Register t T_MNewLeader;
          (c8, t) = Register t T_MNewLeaderAckN;
          (c9, t) = Register t T_MSync;
          (c10, t) = Register t T_MPing;
          (c11, t) = Register t T_MPingRep;
          (c12, t) = Register t T_MCollect;
          (c13, t) = Register t T_MAccept
      in (cs\<lparr>fastAckRPC := c0, fastAckClientRPC := c1, slowAckRPC := c2, lightSlowAckRPC := c3,
             acksRPC := c4, optAcksRPC := c5, replyRPC := c6, newLeaderRPC := c7,
             newLeaderAckNRPC := c8, sw_syncRPC := c9, pingRPC := c10, pingRepRPC := c11,
             collectRPC := c12, acceptRPC := c13\<rparr>, t))"

text \<open>The number of bytes \<open>BinarySize\<close> returns, when it claims to know it.\<close>

datatype sw_sized = Z_CommandId | Z_SHash | Z_Ack | Z_MNewLeaderAck | Z_MLightSync | Z_MFastAck | Z_MFastAckClient | Z_MLightSlowAck | Z_MAccept | Z_MNewLeader | Z_SDep | Z_MShareState | Z_MOptAcks | Z_MPing | Z_MSlowAck | Z_MAcks | Z_MReply | Z_MNewLeaderAckN | Z_MCollect | Z_MPingRep

fun sw_BinarySize :: "sw_sized \<Rightarrow> nat option" where
  "sw_BinarySize Z_CommandId = Some 8"
| "sw_BinarySize Z_SHash = Some 32"
| "sw_BinarySize Z_Ack = None"
| "sw_BinarySize Z_MNewLeaderAck = Some 12"
| "sw_BinarySize Z_MLightSync = Some 8"
| "sw_BinarySize Z_MFastAck = None"
| "sw_BinarySize Z_MFastAckClient = None"
| "sw_BinarySize Z_MLightSlowAck = Some 16"
| "sw_BinarySize Z_MAccept = None"
| "sw_BinarySize Z_MNewLeader = Some 8"
| "sw_BinarySize Z_SDep = None"
| "sw_BinarySize Z_MShareState = Some 8"
| "sw_BinarySize Z_MOptAcks = None"
| "sw_BinarySize Z_MPing = Some 8"
| "sw_BinarySize Z_MSlowAck = None"
| "sw_BinarySize Z_MAcks = None"
| "sw_BinarySize Z_MReply = None"
| "sw_BinarySize Z_MNewLeaderAckN = None"
| "sw_BinarySize Z_MCollect = None"
| "sw_BinarySize Z_MPingRep = Some 8"

subsection \<open>The codecs\<close>

definition wf_id :: "sw_CommandId \<Rightarrow> bool" where
  "wf_id t \<longleftrightarrow> is_i32 (sw_ClientId t) \<and> is_i32 (sw_SeqNum t)"

definition wf_hash :: "SHash \<Rightarrow> bool" where
  "wf_hash h \<longleftrightarrow> length h = 32"

text \<open>A slice the readers reproduce: not nil, with well-formed elements.\<close>

definition wf_slice :: "('a \<Rightarrow> bool) \<Rightarrow> 'a slice \<Rightarrow> bool" where
  "wf_slice ok xs \<longleftrightarrow> xs \<noteq> None \<and> list_all ok (elems xs) \<and> short_enough (elems xs)"

definition wf_MNewLeader :: "MNewLeader \<Rightarrow> bool" where
  "wf_MNewLeader t \<longleftrightarrow> is_i32 (nl_Replica t) \<and> is_i32 (nl_Ballot t)"

definition wf_MShareState :: "MShareState \<Rightarrow> bool" where
  "wf_MShareState t \<longleftrightarrow> is_i32 (ss_Replica t) \<and> is_i32 (ss_Ballot t)"

definition wf_MLightSync :: "MLightSync \<Rightarrow> bool" where
  "wf_MLightSync t \<longleftrightarrow> is_i32 (lt_Replica t) \<and> is_i32 (lt_Ballot t)"

definition wf_MPing :: "MPing \<Rightarrow> bool" where
  "wf_MPing t \<longleftrightarrow> is_i32 (pi_Replica t) \<and> is_i32 (pi_Ballot t)"

definition wf_MPingRep :: "MPingRep \<Rightarrow> bool" where
  "wf_MPingRep t \<longleftrightarrow> is_i32 (pr_Replica t) \<and> is_i32 (pr_Ballot t)"

definition wf_MNewLeaderAck :: "MNewLeaderAck \<Rightarrow> bool" where
  "wf_MNewLeaderAck t \<longleftrightarrow> is_i32 (na_Replica t) \<and> is_i32 (na_Ballot t) \<and> is_i32 (na_Cballot t)"

definition wf_MLightSlowAck :: "MLightSlowAck \<Rightarrow> bool" where
  "wf_MLightSlowAck t \<longleftrightarrow> is_i32 (ls_Replica t) \<and> is_i32 (ls_Ballot t) \<and> wf_id (ls_CmdId t)"

definition wf_Ack :: "Ack \<Rightarrow> bool" where
  "wf_Ack t \<longleftrightarrow> wf_id (ak_CmdId t) \<and> wf_slice wf_id (ak_Dep t) \<and> wf_slice wf_hash (ak_Checksum t) \<and>
     is_i64 (ak_Seqnum t)"

definition wf_MFastAck :: "MFastAck \<Rightarrow> bool" where
  "wf_MFastAck t \<longleftrightarrow> is_i32 (fa_Replica t) \<and> is_i32 (fa_Ballot t) \<and> wf_id (fa_CmdId t) \<and>
     wf_slice wf_id (fa_Dep t) \<and> wf_slice wf_hash (fa_Checksum t) \<and> is_i64 (fa_Seqnum t)"

definition wf_MFastAckClient :: "MFastAckClient \<Rightarrow> bool" where
  "wf_MFastAckClient t \<longleftrightarrow> is_i32 (fc_Replica t) \<and> is_i32 (fc_Ballot t) \<and> wf_id (fc_CmdId t) \<and>
     wf_slice wf_hash (fc_Checksum t)"

definition wf_MSlowAck :: "MSlowAck \<Rightarrow> bool" where
  "wf_MSlowAck t \<longleftrightarrow> is_i32 (sa_Replica t) \<and> is_i32 (sa_Ballot t) \<and> wf_id (sa_CmdId t) \<and>
     wf_slice wf_id (sa_Dep t) \<and> wf_slice wf_hash (sa_Checksum t)"

definition wf_MReply :: "MReply \<Rightarrow> bool" where
  "wf_MReply t \<longleftrightarrow> is_i32 (mr_Replica t) \<and> is_i32 (mr_Ballot t) \<and> wf_id (mr_CmdId t) \<and>
     wf_slice wf_hash (mr_Checksum t) \<and> short_enough (mr_Rep t)"

definition wf_MAccept :: "MAccept \<Rightarrow> bool" where
  "wf_MAccept t \<longleftrightarrow> is_i32 (mc_Replica t) \<and> is_i32 (mc_Ballot t) \<and> wf_id (mc_CmdId t) \<and> short_enough (mc_Rep t)"

definition wf_SDep :: "SDep \<Rightarrow> bool" where
  "wf_SDep t \<longleftrightarrow> wf_slice wf_id (sd_Dep t)"

definition wf_MCollect :: "MCollect \<Rightarrow> bool" where
  "wf_MCollect t \<longleftrightarrow> is_i32 (co_Replica t) \<and> is_i32 (co_Ballot t) \<and>
     list_all wf_id (co_Ids t) \<and> short_enough (co_Ids t)"

definition wf_MOptAcks :: "MOptAcks \<Rightarrow> bool" where
  "wf_MOptAcks t \<longleftrightarrow> is_i32 (oa_Replica t) \<and> is_i32 (oa_Ballot t) \<and>
     list_all wf_Ack (Acks t) \<and> short_enough (Acks t)"

definition wf_MAcks :: "MAcks \<Rightarrow> bool" where
  "wf_MAcks t \<longleftrightarrow> list_all wf_MFastAck (FastAcks t) \<and> short_enough (FastAcks t) \<and>
     list_all wf_MLightSlowAck (LightSlowAcks t) \<and> short_enough (LightSlowAcks t)"

definition wf_MNewLeaderAckN :: "MNewLeaderAckN \<Rightarrow> bool" where
  "wf_MNewLeaderAckN t \<longleftrightarrow> is_i32 (nn_Replica t) \<and> is_i32 (nn_Ballot t) \<and> is_i32 (nn_Cballot t) \<and>
     list_all wf_id (nn_CmdIds t) \<and> short_enough (nn_CmdIds t) \<and>
     list_all is_i64 (nn_Phases t) \<and> short_enough (nn_Phases t) \<and>
     list_all wf_command (nn_Cmds t) \<and> short_enough (nn_Cmds t) \<and>
     list_all wf_SDep (nn_Deps t) \<and> short_enough (nn_Deps t)"

lemmas sw_fixed_defs = sw_CommandId_Marshal_def sw_CommandId_Unmarshal_def wf_id_def
  MNewLeader_Marshal_def MNewLeader_Unmarshal_def wf_MNewLeader_def
  MShareState_Marshal_def MShareState_Unmarshal_def wf_MShareState_def
  MLightSync_Marshal_def MLightSync_Unmarshal_def wf_MLightSync_def
  MPing_Marshal_def MPing_Unmarshal_def wf_MPing_def
  MPingRep_Marshal_def MPingRep_Unmarshal_def wf_MPingRep_def
  MNewLeaderAck_Marshal_def MNewLeaderAck_Unmarshal_def wf_MNewLeaderAck_def
  MLightSlowAck_Marshal_def MLightSlowAck_Unmarshal_def wf_MLightSlowAck_def put_head_def get_head_def

text \<open>Messages of a fixed size.\<close>

interpretation sw_id_codec: strict_codec sw_CommandId_Marshal sw_CommandId_Unmarshal wf_id
proof
  fix x t :: sw_CommandId and p s :: "byte list"
  show "wf_id x \<Longrightarrow> sw_CommandId_Unmarshal t (sw_CommandId_Marshal x @ s) = Ok x s"
    unfolding sw_CommandId_Unmarshal_def by (subst with_bytes_append) (simp_all add: sw_fixed_defs)
  show "strict_prefix p (sw_CommandId_Marshal x) \<Longrightarrow> is_fail (sw_CommandId_Unmarshal t p)"
    unfolding sw_CommandId_Unmarshal_def by (erule with_bytes_truncated_end) (simp add: sw_fixed_defs)
qed

interpretation id_elem_codec: strict_codec sw_CommandId_Marshal id_read wf_id
proof
  fix x t :: sw_CommandId and p s :: "byte list"
  show "wf_id x \<Longrightarrow> id_read t (sw_CommandId_Marshal x @ s) = Ok x s"
    by (simp add: id_read_def sw_fixed_defs)
  show "strict_prefix p (sw_CommandId_Marshal x) \<Longrightarrow> is_fail (id_read t p)"
    unfolding id_read_def sw_CommandId_Marshal_def Let_def
    by (erule with_bytes_truncated, simp, erule with_bytes_truncated_end) simp
qed

interpretation new_leader_codec: strict_codec MNewLeader_Marshal MNewLeader_Unmarshal wf_MNewLeader
proof
  fix x t :: MNewLeader and p s :: "byte list"
  show "wf_MNewLeader x \<Longrightarrow> MNewLeader_Unmarshal t (MNewLeader_Marshal x @ s) = Ok x s"
    unfolding MNewLeader_Unmarshal_def by (subst with_bytes_append) (simp_all add: sw_fixed_defs)
  show "strict_prefix p (MNewLeader_Marshal x) \<Longrightarrow> is_fail (MNewLeader_Unmarshal t p)"
    unfolding MNewLeader_Unmarshal_def by (erule with_bytes_truncated_end) (simp add: sw_fixed_defs)
qed

interpretation share_state_codec: strict_codec MShareState_Marshal MShareState_Unmarshal wf_MShareState
proof
  fix x t :: MShareState and p s :: "byte list"
  show "wf_MShareState x \<Longrightarrow> MShareState_Unmarshal t (MShareState_Marshal x @ s) = Ok x s"
    unfolding MShareState_Unmarshal_def by (subst with_bytes_append) (simp_all add: sw_fixed_defs)
  show "strict_prefix p (MShareState_Marshal x) \<Longrightarrow> is_fail (MShareState_Unmarshal t p)"
    unfolding MShareState_Unmarshal_def by (erule with_bytes_truncated_end) (simp add: sw_fixed_defs)
qed

interpretation light_sync_codec: strict_codec MLightSync_Marshal MLightSync_Unmarshal wf_MLightSync
proof
  fix x t :: MLightSync and p s :: "byte list"
  show "wf_MLightSync x \<Longrightarrow> MLightSync_Unmarshal t (MLightSync_Marshal x @ s) = Ok x s"
    unfolding MLightSync_Unmarshal_def by (subst with_bytes_append) (simp_all add: sw_fixed_defs)
  show "strict_prefix p (MLightSync_Marshal x) \<Longrightarrow> is_fail (MLightSync_Unmarshal t p)"
    unfolding MLightSync_Unmarshal_def by (erule with_bytes_truncated_end) (simp add: sw_fixed_defs)
qed

interpretation ping_codec: strict_codec MPing_Marshal MPing_Unmarshal wf_MPing
proof
  fix x t :: MPing and p s :: "byte list"
  show "wf_MPing x \<Longrightarrow> MPing_Unmarshal t (MPing_Marshal x @ s) = Ok x s"
    unfolding MPing_Unmarshal_def by (subst with_bytes_append) (simp_all add: sw_fixed_defs)
  show "strict_prefix p (MPing_Marshal x) \<Longrightarrow> is_fail (MPing_Unmarshal t p)"
    unfolding MPing_Unmarshal_def by (erule with_bytes_truncated_end) (simp add: sw_fixed_defs)
qed

interpretation ping_rep_codec: strict_codec MPingRep_Marshal MPingRep_Unmarshal wf_MPingRep
proof
  fix x t :: MPingRep and p s :: "byte list"
  show "wf_MPingRep x \<Longrightarrow> MPingRep_Unmarshal t (MPingRep_Marshal x @ s) = Ok x s"
    unfolding MPingRep_Unmarshal_def by (subst with_bytes_append) (simp_all add: sw_fixed_defs)
  show "strict_prefix p (MPingRep_Marshal x) \<Longrightarrow> is_fail (MPingRep_Unmarshal t p)"
    unfolding MPingRep_Unmarshal_def by (erule with_bytes_truncated_end) (simp add: sw_fixed_defs)
qed

interpretation new_leader_ack_codec:
  strict_codec MNewLeaderAck_Marshal MNewLeaderAck_Unmarshal wf_MNewLeaderAck
proof
  fix x t :: MNewLeaderAck and p s :: "byte list"
  show "wf_MNewLeaderAck x \<Longrightarrow> MNewLeaderAck_Unmarshal t (MNewLeaderAck_Marshal x @ s) = Ok x s"
    unfolding MNewLeaderAck_Unmarshal_def by (subst with_bytes_append) (simp_all add: sw_fixed_defs)
  show "strict_prefix p (MNewLeaderAck_Marshal x) \<Longrightarrow> is_fail (MNewLeaderAck_Unmarshal t p)"
    unfolding MNewLeaderAck_Unmarshal_def by (erule with_bytes_truncated_end) (simp add: sw_fixed_defs)
qed

lemma length_put_head [simp]: "length (put_head a b c) = 16"
  by (simp add: put_head_def)

lemma get_put_head [simp]:
  "is_i32 a \<Longrightarrow> get32 (put_head a b c) = a"
  "is_i32 b \<Longrightarrow> get32 (drop 4 (put_head a b c)) = b"
  "wf_id c \<Longrightarrow> get_head (put_head a b c) = c"
  by (simp_all add: put_head_def get_head_def wf_id_def)

interpretation light_slow_codec: strict_codec MLightSlowAck_Marshal MLightSlowAck_Unmarshal wf_MLightSlowAck
proof
  fix x t :: MLightSlowAck and p s :: "byte list"
  show "wf_MLightSlowAck x \<Longrightarrow> MLightSlowAck_Unmarshal t (MLightSlowAck_Marshal x @ s) = Ok x s"
    unfolding MLightSlowAck_Unmarshal_def MLightSlowAck_Marshal_def
    by (subst with_bytes_append) (simp_all add: wf_MLightSlowAck_def)
  show "strict_prefix p (MLightSlowAck_Marshal x) \<Longrightarrow> is_fail (MLightSlowAck_Unmarshal t p)"
    unfolding MLightSlowAck_Unmarshal_def by (erule with_bytes_truncated_end) (simp add: MLightSlowAck_Marshal_def)
qed

interpretation light_elem_codec: strict_codec MLightSlowAck_Marshal light_read wf_MLightSlowAck
proof
  fix x t :: MLightSlowAck and p s :: "byte list"
  have e: "MLightSlowAck_Marshal x =
      put32 (ls_Replica x) @ put32 (ls_Ballot x) @ sw_CommandId_Marshal (ls_CmdId x)"
    by (simp add: sw_fixed_defs)
  assume x: "wf_MLightSlowAck x"
  then show "light_read t (MLightSlowAck_Marshal x @ s) = Ok x s"
    unfolding e by (simp add: light_read_def wf_MLightSlowAck_def id_elem_codec.roundtrip)
  show "strict_prefix p (MLightSlowAck_Marshal x) \<Longrightarrow> is_fail (light_read t p)"
    using x unfolding e light_read_def Let_def
    by (elim with_bytes_truncated)
      (auto simp: wf_MLightSlowAck_def intro!: is_fail_and_then id_elem_codec.truncated)
qed

interpretation phase_codec: strict_codec put64 phase_read is_i64
proof
  fix x t :: int and p s :: "byte list"
  show "is_i64 x \<Longrightarrow> phase_read t (put64 x @ s) = Ok x s"
    by (simp add: phase_read_def)
  show "strict_prefix p (put64 x) \<Longrightarrow> is_fail (phase_read t p)"
    unfolding phase_read_def by (erule with_bytes_truncated_end) simp
qed

text \<open>Hashes, at once and byte by byte.\<close>

lemma SHash_Marshal_id: "wf_hash h \<Longrightarrow> SHash_Marshal h = h"
  unfolding SHash_Marshal_def wf_hash_def by (metis map_nth)

interpretation hash_codec: strict_codec SHash_Marshal SHash_Unmarshal wf_hash
proof
  fix x t :: SHash and p s :: "byte list"
  assume x: "wf_hash x"
  then show "SHash_Unmarshal t (SHash_Marshal x @ s) = Ok x s"
    unfolding SHash_Unmarshal_def SHash_Marshal_id [OF x]
    by (subst with_bytes_append) (simp_all add: wf_hash_def)
  show "strict_prefix p (SHash_Marshal x) \<Longrightarrow> is_fail (SHash_Unmarshal t p)"
    using x unfolding SHash_Unmarshal_def SHash_Marshal_id [OF x]
    by (elim with_bytes_truncated_end) (simp add: wf_hash_def)
qed

lemma list_update_take_drop:
  "i < length h \<Longrightarrow> take (Suc i) (h[i := b]) @ drop (Suc i) ys = take i h @ b # drop (Suc i) ys"
  by (simp add: take_Suc_conv_app_nth)

lemma hash_bytes_read_append:
  "i + n = length h \<Longrightarrow> length bs = n \<Longrightarrow> hash_bytes_read n i h (bs @ s) = Ok (take i h @ bs) s"
proof (induction n arbitrary: i h bs)
  case (Suc n)
  then obtain b bs' where bs: "bs = b # bs'" by (cases bs) auto
  have "with_bytes 1 h ([b] @ (bs' @ s)) (\<lambda>bs r. hash_bytes_read n (Suc i) (h[i := hd bs]) r) =
      hash_bytes_read n (Suc i) (h[i := b]) (bs' @ s)"
    by (subst with_bytes_append) simp_all
  with Suc.IH [of "Suc i" "h[i := b]" bs'] Suc.prems show ?case
    by (simp add: bs take_Suc_conv_app_nth)
qed simp

lemma hash_bytes_read_short: "length p < n \<Longrightarrow> is_fail (hash_bytes_read n i h p)"
proof (induction n arbitrary: i h p)
  case (Suc n)
  show ?case
  proof (cases p)
    case (Cons b p')
    have "with_bytes 1 h ([b] @ p') (\<lambda>bs r. hash_bytes_read n (Suc i) (h[i := hd bs]) r) =
        hash_bytes_read n (Suc i) (h[i := b]) p'"
      by (subst with_bytes_append) simp_all
    with Suc Cons show ?thesis by simp
  qed (simp add: with_bytes_short)
qed simp

text \<open>The elements of a slice are read into fresh structs, so the array has its 32 bytes.\<close>

lemma zero_hash_length [simp]: "length zero_hash = 32"
  by (simp add: zero_hash_def)

definition hash_read_zero :: "SHash \<Rightarrow> byte list \<Rightarrow> SHash outcome" where
  "hash_read_zero _ = hash_read zero_hash"

interpretation hash_elem_codec: strict_codec SHash_Marshal hash_read_zero wf_hash
proof
  fix x t :: SHash and p s :: "byte list"
  assume x: "wf_hash x"
  then show "hash_read_zero t (SHash_Marshal x @ s) = Ok x s"
    unfolding hash_read_zero_def hash_read_def SHash_Marshal_id [OF x]
    by (subst hash_bytes_read_append) (simp_all add: wf_hash_def)
  show "strict_prefix p (SHash_Marshal x) \<Longrightarrow> is_fail (hash_read_zero t p)"
    using x prefix_length_less [of p x] unfolding hash_read_zero_def hash_read_def SHash_Marshal_id [OF x]
    by (intro hash_bytes_read_short) (simp add: wf_hash_def)
qed

lemma read_each_hash_read:
  "read_each hash_read zero_hash n s = read_each hash_read_zero zero_hash n s"
  by (induction n arbitrary: s) (simp_all add: hash_read_zero_def cong: outcome.case_cong)

lemma get_ids_roundtrip:
  "wf_slice wf_id d \<Longrightarrow> get_ids t (put_slice sw_CommandId_Marshal (elems d) @ s) = Ok d s"
  by (auto simp: wf_slice_def id_elem_codec.nslice_roundtrip)

lemma get_hashes_roundtrip:
  "wf_slice wf_hash d \<Longrightarrow> get_hashes t (put_slice SHash_Marshal (elems d) @ s) = Ok d s"
  by (auto simp: wf_slice_def read_each_hash_read [abs_def] hash_elem_codec.nslice_roundtrip)

lemma get_ids_truncated:
  "wf_slice wf_id d \<Longrightarrow> strict_prefix p (put_slice sw_CommandId_Marshal (elems d)) \<Longrightarrow> is_fail (get_ids t p)"
  by (auto simp: wf_slice_def intro: id_elem_codec.nslice_truncated)

lemma get_hashes_truncated:
  "wf_slice wf_hash d \<Longrightarrow> strict_prefix p (put_slice SHash_Marshal (elems d)) \<Longrightarrow> is_fail (get_hashes t p)"
  by (auto simp: wf_slice_def read_each_hash_read [abs_def] intro: hash_elem_codec.nslice_truncated)

lemmas slice_codecs = get_ids_roundtrip get_hashes_roundtrip

lemmas get_ids_then = field_truncated [where um = "get_ids t" for t]
lemmas get_hashes_then = field_truncated [where um = "get_hashes t" for t]

text \<open>Messages with slices.\<close>

interpretation ack_codec: strict_codec Ack_Marshal Ack_Unmarshal wf_Ack
proof
  fix x t :: Ack and p s :: "byte list"
  assume wf: "wf_Ack x"
  show "Ack_Unmarshal t (Ack_Marshal x @ s) = Ok x s"
    using wf unfolding Ack_Unmarshal_def Ack_Marshal_def append_assoc [of _ _ s]
    by (subst with_bytes_append) (simp_all add: wf_Ack_def wf_id_def slice_codecs)
  assume p: "strict_prefix p (Ack_Marshal x)"
  show "is_fail (Ack_Unmarshal t p)"
    using p unfolding Ack_Marshal_def Ack_Unmarshal_def Let_def
    by (rule with_bytes_truncated, simp)
      (erule get_ids_then, use wf in \<open>auto simp: wf_Ack_def slice_codecs intro: get_ids_truncated
        elim!: get_hashes_then get_hashes_truncated with_bytes_truncated_end\<close>)
qed

interpretation fast_ack_codec: strict_codec MFastAck_Marshal MFastAck_Unmarshal wf_MFastAck
proof
  fix x t :: MFastAck and p s :: "byte list"
  assume wf: "wf_MFastAck x"
  show "MFastAck_Unmarshal t (MFastAck_Marshal x @ s) = Ok x s"
    using wf unfolding MFastAck_Unmarshal_def MFastAck_Marshal_def append_assoc [of _ _ s]
    by (subst with_bytes_append) (simp_all add: wf_MFastAck_def slice_codecs)
  assume p: "strict_prefix p (MFastAck_Marshal x)"
  show "is_fail (MFastAck_Unmarshal t p)"
    using p unfolding MFastAck_Marshal_def MFastAck_Unmarshal_def Let_def
    by (rule with_bytes_truncated, simp)
      (erule get_ids_then, use wf in \<open>auto simp: wf_MFastAck_def slice_codecs intro: get_ids_truncated
        elim!: get_hashes_then get_hashes_truncated with_bytes_truncated_end\<close>)
qed

interpretation fast_ack_client_codec:
  strict_codec MFastAckClient_Marshal MFastAckClient_Unmarshal wf_MFastAckClient
proof
  fix x t :: MFastAckClient and p s :: "byte list"
  assume wf: "wf_MFastAckClient x"
  show "MFastAckClient_Unmarshal t (MFastAckClient_Marshal x @ s) = Ok x s"
    using wf unfolding MFastAckClient_Unmarshal_def MFastAckClient_Marshal_def append_assoc [of _ _ s]
    by (subst with_bytes_append) (simp_all add: wf_MFastAckClient_def slice_codecs)
  assume p: "strict_prefix p (MFastAckClient_Marshal x)"
  show "is_fail (MFastAckClient_Unmarshal t p)"
    using p unfolding MFastAckClient_Marshal_def MFastAckClient_Unmarshal_def Let_def
    by (rule with_bytes_truncated, simp)
      (use wf in \<open>auto simp: wf_MFastAckClient_def intro!: is_fail_and_then intro: get_hashes_truncated\<close>)
qed

interpretation slow_ack_codec: strict_codec MSlowAck_Marshal MSlowAck_Unmarshal wf_MSlowAck
proof
  fix x t :: MSlowAck and p s :: "byte list"
  assume wf: "wf_MSlowAck x"
  show "MSlowAck_Unmarshal t (MSlowAck_Marshal x @ s) = Ok x s"
    using wf unfolding MSlowAck_Unmarshal_def MSlowAck_Marshal_def append_assoc [of _ _ s]
    by (subst with_bytes_append) (simp_all add: wf_MSlowAck_def slice_codecs)
  assume p: "strict_prefix p (MSlowAck_Marshal x)"
  show "is_fail (MSlowAck_Unmarshal t p)"
    using p unfolding MSlowAck_Marshal_def MSlowAck_Unmarshal_def Let_def
    by (rule with_bytes_truncated, simp)
      (erule get_ids_then, use wf in \<open>auto simp: wf_MSlowAck_def slice_codecs intro: get_ids_truncated
        intro!: is_fail_and_then elim!: get_hashes_truncated\<close>)
qed

interpretation sw_reply_codec: strict_codec MReply_Marshal MReply_Unmarshal wf_MReply
proof
  fix x t :: MReply and p s :: "byte list"
  assume wf: "wf_MReply x"
  show "MReply_Unmarshal t (MReply_Marshal x @ s) = Ok x s"
    using wf unfolding MReply_Unmarshal_def MReply_Marshal_def append_assoc [of _ _ s]
    by (subst with_bytes_append) (simp_all add: wf_MReply_def slice_codecs get_bytes_roundtrip)
  assume p: "strict_prefix p (MReply_Marshal x)"
  show "is_fail (MReply_Unmarshal t p)"
    using p unfolding MReply_Marshal_def MReply_Unmarshal_def Let_def
    by (rule with_bytes_truncated, simp)
      (erule get_hashes_then, use wf in \<open>auto simp: wf_MReply_def slice_codecs intro: get_hashes_truncated
        intro!: is_fail_and_then elim!: get_bytes_truncated [rotated]\<close>)
qed

interpretation accept_codec_sw: strict_codec MAccept_Marshal MAccept_Unmarshal wf_MAccept
proof
  fix x t :: MAccept and p s :: "byte list"
  assume wf: "wf_MAccept x"
  show "MAccept_Unmarshal t (MAccept_Marshal x @ s) = Ok x s"
    using wf unfolding MAccept_Unmarshal_def MAccept_Marshal_def append_assoc [of _ _ s]
    by (subst with_bytes_append) (simp_all add: wf_MAccept_def get_bytes_roundtrip)
  assume p: "strict_prefix p (MAccept_Marshal x)"
  show "is_fail (MAccept_Unmarshal t p)"
    using p unfolding MAccept_Marshal_def MAccept_Unmarshal_def Let_def
    by (rule with_bytes_truncated, simp)
      (use wf in \<open>auto simp: wf_MAccept_def intro!: is_fail_and_then elim!: get_bytes_truncated [rotated]\<close>)
qed

interpretation sdep_codec: strict_codec SDep_Marshal SDep_Unmarshal wf_SDep
proof
  fix x t :: SDep and p s :: "byte list"
  assume wf: "wf_SDep x"
  show "SDep_Unmarshal t (SDep_Marshal x @ s) = Ok x s"
    using wf by (simp add: SDep_Unmarshal_def SDep_Marshal_def wf_SDep_def slice_codecs)
  show "strict_prefix p (SDep_Marshal x) \<Longrightarrow> is_fail (SDep_Unmarshal t p)"
    using wf unfolding SDep_Unmarshal_def SDep_Marshal_def
    by (intro is_fail_and_then) (simp add: wf_SDep_def get_ids_truncated)
qed

interpretation collect_codec: strict_codec MCollect_Marshal MCollect_Unmarshal wf_MCollect
proof
  fix x t :: MCollect and p s :: "byte list"
  assume wf: "wf_MCollect x"
  show "MCollect_Unmarshal t (MCollect_Marshal x @ s) = Ok x s"
    using wf unfolding MCollect_Unmarshal_def MCollect_Marshal_def append_assoc [of _ _ s]
    by (subst with_bytes_append) (simp_all add: wf_MCollect_def id_elem_codec.slice_roundtrip)
  assume p: "strict_prefix p (MCollect_Marshal x)"
  show "is_fail (MCollect_Unmarshal t p)"
    using p unfolding MCollect_Marshal_def MCollect_Unmarshal_def Let_def
    by (rule with_bytes_truncated, simp)
      (use wf in \<open>auto simp: wf_MCollect_def intro!: is_fail_and_then intro: id_elem_codec.slice_truncated\<close>)
qed

interpretation opt_acks_codec: codec MOptAcks_Marshal MOptAcks_Unmarshal wf_MOptAcks
proof
  fix x t :: MOptAcks and s :: "byte list"
  show "wf_MOptAcks x \<Longrightarrow> MOptAcks_Unmarshal t (MOptAcks_Marshal x @ s) = Ok x s"
    unfolding MOptAcks_Unmarshal_def MOptAcks_Marshal_def append_assoc [of _ _ s]
    by (subst with_bytes_append) (simp_all add: wf_MOptAcks_def ack_codec.slice_lax_roundtrip)
qed

interpretation acks_codec: codec MAcks_Marshal MAcks_Unmarshal wf_MAcks
proof
  fix x t :: MAcks and s :: "byte list"
  show "wf_MAcks x \<Longrightarrow> MAcks_Unmarshal t (MAcks_Marshal x @ s) = Ok x s"
    by (simp add: MAcks_Unmarshal_def MAcks_Marshal_def wf_MAcks_def fast_ack_codec.slice_lax_roundtrip
        light_elem_codec.slice_roundtrip)
qed

interpretation new_leader_ack_n_codec: codec MNewLeaderAckN_Marshal MNewLeaderAckN_Unmarshal wf_MNewLeaderAckN
proof
  fix x t :: MNewLeaderAckN and s :: "byte list"
  show "wf_MNewLeaderAckN x \<Longrightarrow> MNewLeaderAckN_Unmarshal t (MNewLeaderAckN_Marshal x @ s) = Ok x s"
    unfolding MNewLeaderAckN_Unmarshal_def MNewLeaderAckN_Marshal_def append_assoc [of _ _ s]
    by (subst with_bytes_append)
      (simp_all add: wf_MNewLeaderAckN_def id_elem_codec.slice_roundtrip phase_codec.slice_roundtrip
        command_codec.slice_lax_roundtrip sdep_codec.slice_lax_roundtrip)
qed

subsection \<open>Comparing dependencies\<close>

lemma dep_loop_inv:
  "s = (set p1 - set p2, set p2 - set p1) \<Longrightarrow> distinct (p1 @ xs) \<Longrightarrow> distinct (p2 @ ys) \<Longrightarrow>
     dep_loop xs ys s = (set (p1 @ xs) - set (p2 @ ys), set (p2 @ ys) - set (p1 @ xs))"
proof (induction xs ys s arbitrary: p1 p2 rule: dep_loop.induct)
  case (1 c cs d ds s)
  have "dep_step c d s = (set (p1 @ [c]) - set (p2 @ [d]), set (p2 @ [d]) - set (p1 @ [c]))"
    using "1.prems" by (auto simp: dep_step_def dep_see_def)
  from "1.IH" [OF this] "1.prems" show ?case by simp
next
  case (2 c cs s)
  have "dep_see c s = (set (p1 @ [c]) - set p2, set p2 - set (p1 @ [c]))"
    using "2.prems" by (auto simp: dep_see_def)
  from "2.IH" [OF this] "2.prems" show ?case by simp
next
  case (3 d ds s)
  have "prod.swap (dep_see d (prod.swap s)) = (set p1 - set (p2 @ [d]), set (p2 @ [d]) - set p1)"
    using "3.prems" by (auto simp: dep_see_def)
  from "3.IH" [OF this] "3.prems" show ?case by simp
qed simp

lemma dep_loop_distinct:
  "distinct xs \<Longrightarrow> distinct ys \<Longrightarrow> dep_loop xs ys ({}, {}) = (set xs - set ys, set ys - set xs)"
  using dep_loop_inv [of _ "[]" "[]" xs ys] by simp

text \<open>What only one list holds is left over on its side, duplicates or not.\<close>

lemma dep_step_keeps:
  "x \<noteq> d \<Longrightarrow> x \<notin> snd s \<Longrightarrow>
     x \<notin> snd (dep_step c d s) \<and> (x \<in> fst s \<or> x = c \<longrightarrow> x \<in> fst (dep_step c d s))"
  "x \<noteq> c \<Longrightarrow> x \<notin> fst s \<Longrightarrow>
     x \<notin> fst (dep_step c d s) \<and> (x \<in> snd s \<or> x = d \<longrightarrow> x \<in> snd (dep_step c d s))"
  by (auto simp: dep_step_def dep_see_def split: prod.splits if_splits)

lemma dep_see_keeps:
  "x \<notin> snd s \<Longrightarrow> x \<notin> snd (dep_see c s) \<and> (x \<in> fst s \<or> x = c \<longrightarrow> x \<in> fst (dep_see c s))"
  "x \<noteq> c \<Longrightarrow> x \<notin> fst s \<Longrightarrow> x \<notin> fst (dep_see c s) \<and> (x \<in> snd s \<longrightarrow> x \<in> snd (dep_see c s))"
  by (auto simp: dep_see_def split: prod.splits if_splits)

lemma dep_loop_left:
  "x \<notin> set ys \<Longrightarrow> x \<notin> snd s \<Longrightarrow> x \<in> fst s \<or> x \<in> set xs \<Longrightarrow> x \<in> fst (dep_loop xs ys s)"
proof (induction xs ys s rule: dep_loop.induct)
  case (1 c cs d ds s)
  with dep_step_keeps(1) [of x d s c] show ?case by auto
next
  case (2 c cs s)
  with dep_see_keeps(1) [of x s c] show ?case by auto
next
  case (3 d ds s)
  with dep_see_keeps(2) [of x d "prod.swap s"] show ?case by auto
qed simp

lemma dep_loop_right:
  "x \<notin> set xs \<Longrightarrow> x \<notin> fst s \<Longrightarrow> x \<in> snd s \<or> x \<in> set ys \<Longrightarrow> x \<in> snd (dep_loop xs ys s)"
proof (induction xs ys s rule: dep_loop.induct)
  case (1 c cs d ds s)
  with dep_step_keeps(2) [of x c s d] show ?case by auto
next
  case (2 c cs s)
  with dep_see_keeps(2) [of x c s] show ?case by auto
next
  case (3 d ds s)
  with dep_see_keeps(1) [of x "prod.swap s" d] show ?case by auto
qed simp

lemma Dep_Equals_sound:
  assumes "Dep_Equals d1 d2"
  shows "length d1 = length d2 \<and> set d1 = set d2"
proof -
  obtain s1 s2 where l: "dep_loop d1 d2 ({}, {}) = (s1, s2)" by (cases "dep_loop d1 d2 ({}, {})")
  have "finite (fst s) \<Longrightarrow> finite (snd s) \<Longrightarrow>
      finite (fst (dep_loop xs ys s)) \<and> finite (snd (dep_loop xs ys s))" for xs ys s
    by (induction xs ys s rule: dep_loop.induct)
      (auto simp: dep_step_def dep_see_def split: prod.splits if_splits)
  from this [of "({}, {})" d1 d2] l have "finite s1" "finite s2" by simp_all
  from assms l have "length d1 = length d2 \<and> card s1 = card s2 \<and> card s1 = 0"
    unfolding Dep_Equals_def by (simp split: if_splits)
  then have "length d1 = length d2" "card s1 = 0" "card s2 = 0" by linarith+
  with \<open>finite s1\<close> \<open>finite s2\<close> have "s1 = {}" "s2 = {}" by simp_all
  with l \<open>length d1 = length d2\<close> dep_loop_left [of _ d2 "({}, {})" d1] dep_loop_right [of _ d1 "({}, {})" d2]
  show ?thesis by fastforce
qed

lemma EqualsAndDiff_Equals:
  "EqualsAndDiff d1 d2 = (Dep_Equals d1 d2, fst (dep_loop d1 d2 ({}, {})))"
  by (cases "dep_loop d1 d2 ({}, {})") (simp add: EqualsAndDiff_def Dep_Equals_def)

lemma Dep_Equals_refl [simp]: "Dep_Equals d d"
proof -
  have "dep_loop xs xs s = s" for xs :: "sw_CommandId list" and s
    by (induction xs) (simp_all add: dep_step_def)
  then show ?thesis by (simp add: Dep_Equals_def)
qed

subsection \<open>Properties\<close>

text \<open>Comparing dependency lists: whatever the lists are, lists found equal have the same length and
  the same commands, so the fast path never joins replicas that depend on different commands. On lists
  without duplicates the comparison is exact: it says whether both hold the same commands, in any order,
  and the difference \<open>EqualsAndDiff\<close> returns is the set of commands only the first list has.\<close>

theorem dependencies_compared:
  "(Dep_Equals d1 d2 \<longrightarrow> length d1 = length d2 \<and> set d1 = set d2) \<and>
   (distinct d1 \<and> distinct d2 \<longrightarrow>
      (Dep_Equals d1 d2 \<longleftrightarrow> set d1 = set d2) \<and>
      EqualsAndDiff d1 d2 = (set d1 = set d2, set d1 - set d2))"
proof (intro conjI impI)
  show "Dep_Equals d1 d2 \<Longrightarrow> length d1 = length d2"
    and "Dep_Equals d1 d2 \<Longrightarrow> set d1 = set d2"
    by (simp_all add: Dep_Equals_sound)
  assume "distinct d1 \<and> distinct d2"
  then have l: "dep_loop d1 d2 ({}, {}) = (set d1 - set d2, set d2 - set d1)"
    and len: "length d1 = card (set d1)" "length d2 = card (set d2)"
    by (simp_all add: dep_loop_distinct distinct_card)
  have e: "Dep_Equals d1 d2 \<longleftrightarrow> set d1 = set d2"
  proof
    assume "set d1 = set d2"
    with len have "length d1 = length d2" by simp
    with \<open>set d1 = set d2\<close> l show "Dep_Equals d1 d2" by (simp add: Dep_Equals_def)
  qed (simp add: Dep_Equals_sound)
  then show "Dep_Equals d1 d2 \<longleftrightarrow> set d1 = set d2" .
  show "EqualsAndDiff d1 d2 = (set d1 = set d2, set d1 - set d2)"
    unfolding EqualsAndDiff_Equals e l by simp
qed

theorem dependencies_compared_witness:
  "let a = zero_id; b = zero_id\<lparr>sw_SeqNum := 1\<rparr>
   in Dep_Equals [a, b] [b, a] \<and> EqualsAndDiff [a, b] [b, a] = (True, {}) \<and>
      Dep_Equals [a, a, b] [b, b, a]"
proof -
  let ?a = "zero_id" and ?b = "zero_id\<lparr>sw_SeqNum := 1\<rparr>"
  have "distinct [?a, ?b]" "distinct [?b, ?a]" by (simp_all add: zero_id_def)
  with dependencies_compared [of "[?a, ?b]" "[?b, ?a]"]
  have "Dep_Equals [?a, ?b] [?b, ?a] \<and> EqualsAndDiff [?a, ?b] [?b, ?a] = (True, {})" by auto
  moreover have "Dep_Equals [?a, ?a, ?b] [?b, ?b, ?a]"
    by (simp add: Dep_Equals_def dep_step_def dep_see_def zero_id_def)
  ultimately show ?thesis by (simp add: Let_def)
qed

text \<open>C20. The messages of SwiftPaxos survive the wire, with whatever follows them in the stream: an
  acknowledgement, a batch in either encoding, a reply, and the log of a recovering replica decode to
  themselves. Only the difference between no dependencies and an empty list is lost: a nil list arrives
  empty, which is why a batch writes the command itself as the dependency of a light acknowledgement.\<close>

theorem swift_wire_roundtrip:
  assumes "wf_MFastAck f" and "wf_MOptAcks oa" and "wf_MAcks as" and "wf_MReply rep" and "wf_MNewLeaderAckN n"
  shows "MFastAck_Unmarshal t1 (MFastAck_Marshal f @ s) = Ok f s \<and>
    MFastAck_Unmarshal t1 (MFastAck_Marshal (f\<lparr>fa_Dep := None\<rparr>) @ s) = Ok (f\<lparr>fa_Dep := Some []\<rparr>) s \<and>
    MOptAcks_Unmarshal t2 (MOptAcks_Marshal oa @ s) = Ok oa s \<and>
    MAcks_Unmarshal t3 (MAcks_Marshal as @ s) = Ok as s \<and>
    MReply_Unmarshal t4 (MReply_Marshal rep @ s) = Ok rep s \<and>
    MNewLeaderAckN_Unmarshal t5 (MNewLeaderAckN_Marshal n @ s) = Ok n s"
proof -
  have "MFastAck_Marshal (f\<lparr>fa_Dep := None\<rparr>) = MFastAck_Marshal (f\<lparr>fa_Dep := Some []\<rparr>)"
    by (simp add: MFastAck_Marshal_def)
  moreover have "wf_MFastAck (f\<lparr>fa_Dep := Some []\<rparr>)"
    using assms(1) by (simp add: wf_MFastAck_def wf_slice_def short_enough_def)
  ultimately show ?thesis
    using assms by (simp add: fast_ack_codec.roundtrip opt_acks_codec.roundtrip acks_codec.roundtrip
        sw_reply_codec.roundtrip new_leader_ack_n_codec.roundtrip)
qed

definition example_ack :: MFastAck where
  "example_ack = zero_FastAck\<lparr>fa_Dep := Some [zero_id], fa_Checksum := Some [zero_hash], fa_Seqnum := 4\<rparr>"

theorem swift_wire_roundtrip_witness:
  "MFastAck_Unmarshal zero_FastAck (MFastAck_Marshal example_ack @ []) = Ok example_ack []"
  using swift_wire_roundtrip [of example_ack "\<lparr>oa_Replica = 0, oa_Ballot = 0, Acks = []\<rparr>"
      "\<lparr>FastAcks = [example_ack], LightSlowAcks = [zero_LightSlowAck]\<rparr>"
      "\<lparr>mr_Replica = 0, mr_Ballot = 0, mr_CmdId = zero_id, mr_Checksum = Some [], mr_Rep = []\<rparr>"
      "\<lparr>nn_Replica = 0, nn_Ballot = 0, nn_Cballot = 0, nn_CmdIds = [zero_id], nn_Phases = [3], nn_Cmds = [],
        nn_Deps = [\<lparr>sd_Dep = Some []\<rparr>]\<rparr>" zero_FastAck "[]"]
  by (simp add: example_ack_def wf_MOptAcks_def wf_MAcks_def wf_MReply_def wf_MNewLeaderAckN_def
      wf_MFastAck_def wf_MLightSlowAck_def wf_SDep_def wf_slice_def wf_id_def wf_hash_def short_enough_def zero_FastAck_def
      zero_LightSlowAck_def zero_id_def is_i32_def is_i64_def)

text \<open>A stream that ends inside a SwiftPaxos message is reported as an error by the readers of
  single messages, but not by the reader of a batch: after its header and its count, a truncated batch
  is accepted, and the acknowledgements that did not arrive are those of the command \<open>(0, 0)\<close>, without
  dependencies.\<close>

theorem swift_truncation:
  assumes "wf_MFastAck f" and "strict_prefix p (MFastAck_Marshal f)"
    and "wf_MOptAcks oa" and "is_i64 (int n)"
  shows "is_fail (MFastAck_Unmarshal t p) \<and>
    MOptAcks_Unmarshal u (put32 (oa_Replica oa) @ put32 (oa_Ballot oa) @ PutVarint (int n)) =
      Ok (oa\<lparr>Acks := replicate n zero_Ack\<rparr>) []"
proof
  show "is_fail (MFastAck_Unmarshal t p)"
    using assms(1,2) by (rule fast_ack_codec.truncated)
  have e: "Ack_Unmarshal zero_Ack [] = Fail EOF zero_Ack []"
    unfolding Ack_Unmarshal_def by (simp add: with_bytes_short)
  have r: "read_each_lax Ack_Unmarshal zero_Ack n [] = Ok (replicate n zero_Ack) []" for n
    by (induction n) (simp_all add: e)
  have "with_bytes 8 u ((put32 (oa_Replica oa) @ put32 (oa_Ballot oa)) @ PutVarint (int n)) k =
      k (put32 (oa_Replica oa) @ put32 (oa_Ballot oa)) (PutVarint (int n))" for k :: "_ \<Rightarrow> _ \<Rightarrow> MOptAcks outcome"
    by (subst with_bytes_append) simp_all
  then show "MOptAcks_Unmarshal u (put32 (oa_Replica oa) @ put32 (oa_Ballot oa) @ PutVarint (int n)) =
      Ok (oa\<lparr>Acks := replicate n zero_Ack\<rparr>) []"
    using assms(3,4) get_slice_PutVarint [of n "read_each_lax Ack_Unmarshal zero_Ack" "Acks u" "[]"]
    unfolding MOptAcks_Unmarshal_def by (simp add: wf_MOptAcks_def r)
qed

theorem swift_truncation_witness:
  "is_fail (MFastAck_Unmarshal zero_FastAck [0])"
  using swift_truncation [of example_ack "[0]" "\<lparr>oa_Replica = 0, oa_Ballot = 0, Acks = []\<rparr>" 2 zero_FastAck]
  by (simp add: example_ack_def wf_MOptAcks_def MFastAck_Marshal_def put_head_def put32_def byte_of_def
      wf_MFastAck_def wf_slice_def wf_id_def wf_hash_def short_enough_def zero_FastAck_def
      zero_id_def is_i32_def is_i64_def numeral_eq_Suc)

end
