(* ===== verification/Swift_Hash.thy ===== *)
theory Swift_Hash
  imports Swift_Msgs
begin

section \<open>Hash logs\<close>

text \<open>
  The log of hashes a SwiftPaxos replica keeps for every key (\<open>src/swift/dpath.go\<close>). The leader chains
  the commands on a key by hashing; another replica knows the leader's hash up to the highest command the
  leader has told it about, and chains its own pending commands from there. Equal hashes stand for equal
  histories.

  \<^item> The pending commands are a doubly linked list. Nodes live in a heap, \<open>node_at\<close>, of which the addresses
    below \<open>fresh\<close> are allocated; a pointer is an address or nil.
  \<^item> \<open>SHA-256\<close> is the argument \<open>sha\<close> of the operations: no statement below assumes anything of it.
  \<^item> The loop of \<open>update\<close> follows pointers, so its model may not return (\<open>None\<close>).
  \<^item> \<open>alog\<close> is what the log means: the synced command and hash, and the pending commands, of which only the
    latest occurrence of a command id can still be removed. \<open>log_ok\<close> relates a log to it.
\<close>

record HashNode =
  hn_id :: sw_CommandId
  hn_next :: "nat option"
  hn_previous :: "nat option"

record UpdateEntry =
  ue_hash :: "SHash list"
  ue_seqnum :: int

record HashLog =
  synced :: int
  syncedHash :: SHash
  pendingHead :: "nat option"
  pendingTail :: "nat option"
  hl_hash :: SHash
  nodes :: "sw_CommandId \<rightharpoonup> nat"
  pendingUpd :: "sw_CommandId \<rightharpoonup> UpdateEntry"
  node_at :: "nat \<Rightarrow> HashNode"
  fresh :: nat

definition NewHashLog :: HashLog where
  "NewHashLog = \<lparr>synced = -1, syncedHash = zero_hash, pendingHead = None, pendingTail = None,
     hl_hash = zero_hash, nodes = Map.empty, pendingUpd = Map.empty,
     node_at = (\<lambda>_. \<lparr>hn_id = zero_id, hn_next = None, hn_previous = None\<rparr>), fresh = 0\<rparr>"

definition hash :: "(byte list \<Rightarrow> SHash) \<Rightarrow> SHash \<Rightarrow> sw_CommandId \<Rightarrow> SHash" where
  "hash sha initial c = sha (initial @ put32 (sw_ClientId c) @ put32 (sw_SeqNum c))"

subsection \<open>Operations\<close>

definition set_next :: "nat \<Rightarrow> nat option \<Rightarrow> HashLog \<Rightarrow> HashLog" where
  "set_next a n l = l\<lparr>node_at := (node_at l)(a := (node_at l a)\<lparr>hn_next := n\<rparr>)\<rparr>"

definition set_previous :: "nat \<Rightarrow> nat option \<Rightarrow> HashLog \<Rightarrow> HashLog" where
  "set_previous a p l = l\<lparr>node_at := (node_at l)(a := (node_at l a)\<lparr>hn_previous := p\<rparr>)\<rparr>"

partial_function (option) hash_walk ::
    "(byte list \<Rightarrow> SHash) \<Rightarrow> (nat \<Rightarrow> HashNode) \<Rightarrow> nat option \<Rightarrow> SHash \<Rightarrow> SHash option" where
  "hash_walk sha at n initial =
     (case n of
        None \<Rightarrow> Some initial
      | Some a \<Rightarrow> hash_walk sha at (hn_next (at a)) (hash sha initial (hn_id (at a))))"

declare hash_walk.simps [code]

definition unlink :: "sw_CommandId \<Rightarrow> nat \<Rightarrow> HashLog \<Rightarrow> HashLog" where
  "unlink c n l =
     (let previous = hn_previous (node_at l n);
          nxt = hn_next (node_at l n);
          l = (case previous of Some p \<Rightarrow> set_next p nxt l | None \<Rightarrow> l);
          l = (case nxt of Some x \<Rightarrow> set_previous x previous l | None \<Rightarrow> l);
          l = (if pendingHead l = Some n then l\<lparr>pendingHead := nxt\<rparr> else l);
          l = (if pendingTail l = Some n then l\<lparr>pendingTail := previous\<rparr> else l);
          l = set_next n None (set_previous n None l)
      in l\<lparr>nodes := (nodes l)(c := None)\<rparr>)"

definition log_update ::
    "(byte list \<Rightarrow> SHash) \<Rightarrow> sw_CommandId \<Rightarrow> int \<Rightarrow> SHash \<Rightarrow> bool \<Rightarrow> HashLog \<Rightarrow> HashLog option" where
  "log_update sha c s h save l =
     (let n = nodes l c
      in if n = None \<and> save
         then Some (l\<lparr>pendingUpd := (pendingUpd l)(c \<mapsto> \<lparr>ue_hash = [h], ue_seqnum = s\<rparr>)\<rparr>)
         else
           let l = (case n of Some a \<Rightarrow> unlink c a l | None \<Rightarrow> l)
           in if s \<le> synced l \<and> n = None then Some l
              else
                let l = (if synced l < s then l\<lparr>synced := s, syncedHash := h\<rparr> else l)
                in do {
                  initial \<leftarrow> hash_walk sha (node_at l) (pendingHead l) (syncedHash l);
                  Some (l\<lparr>hl_hash := initial\<rparr>)
                })"

definition Update :: "(byte list \<Rightarrow> SHash) \<Rightarrow> sw_CommandId \<Rightarrow> int \<Rightarrow> SHash \<Rightarrow> HashLog \<Rightarrow> HashLog option" where
  "Update sha c s h l = log_update sha c s h True l"

definition Append :: "(byte list \<Rightarrow> SHash) \<Rightarrow> sw_CommandId \<Rightarrow> HashLog \<Rightarrow> (SHash \<times> HashLog) option" where
  "Append sha c l =
     (case pendingUpd l c of
        Some upd \<Rightarrow> do {
          h \<leftarrow> slice_get (ue_hash upd) 0;
          l \<leftarrow> log_update sha c (ue_seqnum upd) h False (l\<lparr>pendingUpd := (pendingUpd l)(c := None)\<rparr>);
          Some (h, l)
        }
      | None \<Rightarrow>
          let a = fresh l;
              l = l\<lparr>node_at := (node_at l)(a := \<lparr>hn_id = c, hn_next = None, hn_previous = None\<rparr>),
                    fresh := Suc a, nodes := (nodes l)(c \<mapsto> a)\<rparr>
          in case pendingHead l of
               None \<Rightarrow>
                 let h = hash sha (syncedHash l) c
                 in Some (h, l\<lparr>pendingHead := Some a, hl_hash := h\<rparr>)
             | Some x \<Rightarrow>
                 let l = (case pendingTail l of
                            None \<Rightarrow> set_next x (Some a) (set_previous a (Some x) (l\<lparr>pendingTail := Some a\<rparr>))
                          | Some y \<Rightarrow> (set_previous a (Some y) (set_next y (Some a) l))\<lparr>pendingTail := Some a\<rparr>);
                     h = hash sha (hl_hash l) c
                 in Some (h, l\<lparr>hl_hash := h\<rparr>))"

definition SHashesEq :: "SHash list \<Rightarrow> SHash list \<Rightarrow> bool" where
  "SHashesEq hs1 hs2 \<longleftrightarrow> length hs1 = length hs2 \<and> list_all (\<lambda>h. list_ex (\<lambda>g. h = g) hs2) hs1"

subsection \<open>What a log means\<close>

record alog =
  al_synced :: int
  al_hash :: SHash
  al_pending :: "(sw_CommandId \<times> bool) list"
  al_upd :: "sw_CommandId \<rightharpoonup> int \<times> SHash"

definition a_new :: alog where
  "a_new = \<lparr>al_synced = -1, al_hash = zero_hash, al_pending = [], al_upd = Map.empty\<rparr>"

definition chain :: "(byte list \<Rightarrow> SHash) \<Rightarrow> SHash \<Rightarrow> sw_CommandId list \<Rightarrow> SHash" where
  "chain sha h cs = foldl (hash sha) h cs"

definition a_value :: "(byte list \<Rightarrow> SHash) \<Rightarrow> alog \<Rightarrow> SHash" where
  "a_value sha m = chain sha (al_hash m) (map fst (al_pending m))"

definition a_settle :: "sw_CommandId \<Rightarrow> int \<Rightarrow> SHash \<Rightarrow> alog \<Rightarrow> alog" where
  "a_settle c s h m =
     (let m = m\<lparr>al_pending := filter (\<lambda>e. e \<noteq> (c, True)) (al_pending m)\<rparr>
      in if al_synced m < s then m\<lparr>al_synced := s, al_hash := h\<rparr> else m)"

definition a_update :: "sw_CommandId \<Rightarrow> int \<Rightarrow> SHash \<Rightarrow> alog \<Rightarrow> alog" where
  "a_update c s h m =
     (if (c, True) \<in> set (al_pending m) then a_settle c s h m
      else m\<lparr>al_upd := (al_upd m)(c \<mapsto> (s, h))\<rparr>)"

definition a_append :: "(byte list \<Rightarrow> SHash) \<Rightarrow> sw_CommandId \<Rightarrow> alog \<Rightarrow> SHash \<times> alog" where
  "a_append sha c m =
     (case al_upd m c of
        Some (s, h) \<Rightarrow> (h, a_settle c s h (m\<lparr>al_upd := (al_upd m)(c := None)\<rparr>))
      | None \<Rightarrow>
          let m = m\<lparr>al_pending := map (\<lambda>(d, b). (d, b \<and> d \<noteq> c)) (al_pending m) @ [(c, True)]\<rparr>
          in (a_value sha m, m))"

text \<open>A segment of the list: the addresses \<open>as\<close>, entered from \<open>p\<close> and left to \<open>n\<close>.\<close>

fun first_of :: "nat list \<Rightarrow> nat option \<Rightarrow> nat option" where
  "first_of [] n = n"
| "first_of (a # as) n = Some a"

fun last_of :: "nat option \<Rightarrow> nat list \<Rightarrow> nat option" where
  "last_of p [] = p"
| "last_of p (a # as) = last_of (Some a) as"

fun seg :: "(nat \<Rightarrow> HashNode) \<Rightarrow> nat option \<Rightarrow> nat list \<Rightarrow> nat option \<Rightarrow> bool" where
  "seg at p [] n \<longleftrightarrow> True"
| "seg at p (a # as) n \<longleftrightarrow>
     hn_previous (at a) = p \<and> hn_next (at a) = first_of as n \<and> seg at (Some a) as n"

lemma first_of_append [simp]: "first_of (xs @ ys) n = first_of xs (first_of ys n)"
  by (cases xs) simp_all

lemma last_of_append [simp]: "last_of p (xs @ ys) = last_of (last_of p xs) ys"
  by (induction xs arbitrary: p) simp_all

lemma seg_append: "seg at p (xs @ ys) n \<longleftrightarrow> seg at p xs (first_of ys n) \<and> seg at (last_of p xs) ys n"
  by (induction xs arbitrary: p) auto

lemma seg_frame: "(\<And>a. a \<in> set as \<Longrightarrow> at' a = at a) \<Longrightarrow> seg at' p as n = seg at p as n"
  by (induction as arbitrary: p) auto

lemma hash_walk_seg:
  "seg at p as None \<Longrightarrow> hash_walk sha at (first_of as None) h = Some (chain sha h (map (hn_id \<circ> at) as))"
proof (induction as arbitrary: p h)
  case Nil
  then show ?case by (simp add: hash_walk.simps chain_def)
next
  case (Cons a as)
  have "hash_walk sha at (first_of as None) (hash sha h (hn_id (at a))) =
      Some (chain sha (hash sha h (hn_id (at a))) (map (hn_id \<circ> at) as))"
    using Cons.prems by (intro Cons.IH [of "Some a"]) simp
  with Cons.prems show ?case by (simp add: hash_walk.simps [of sha at "Some a"] chain_def comp_def)
qed

text \<open>Joining two segments.\<close>

definition put_next :: "nat option \<Rightarrow> nat option \<Rightarrow> (nat \<Rightarrow> HashNode) \<Rightarrow> nat \<Rightarrow> HashNode" where
  "put_next a n at = (case a of None \<Rightarrow> at | Some a \<Rightarrow> at(a := (at a)\<lparr>hn_next := n\<rparr>))"

definition put_previous :: "nat option \<Rightarrow> nat option \<Rightarrow> (nat \<Rightarrow> HashNode) \<Rightarrow> nat \<Rightarrow> HashNode" where
  "put_previous a p at = (case a of None \<Rightarrow> at | Some a \<Rightarrow> at(a := (at a)\<lparr>hn_previous := p\<rparr>))"

lemma put_id [simp]:
  "hn_id (put_next a n at x) = hn_id (at x)" "hn_id (put_previous a n at x) = hn_id (at x)"
  by (simp_all add: put_next_def put_previous_def split: option.split)

lemma seg_put_next:
  assumes "seg at None xs n" and "distinct xs"
  shows "seg (put_next (last_of None xs) m at) None xs m"
proof (cases xs rule: rev_cases)
  case (snoc ys z)
  have "seg (at(z := (at z)\<lparr>hn_next := m\<rparr>)) None ys (Some z) = seg at None ys (Some z)"
    using assms(2) snoc by (intro seg_frame) auto
  with assms(1) snoc show ?thesis by (simp add: put_next_def seg_append)
qed simp

lemma seg_put_previous:
  assumes "seg at p ys None" and "distinct ys"
  shows "seg (put_previous (first_of ys None) q at) q ys None"
proof (cases ys)
  case (Cons z zs)
  have "seg (at(z := (at z)\<lparr>hn_previous := q\<rparr>)) (Some z) zs None = seg at (Some z) zs None"
    using assms(2) Cons by (intro seg_frame) auto
  with assms(1) Cons show ?thesis by (simp add: put_previous_def)
qed simp

lemma last_of_in: "last_of None xs = Some z \<Longrightarrow> z \<in> set xs"
  by (cases xs rule: rev_cases) auto

lemma first_of_in: "first_of xs None = Some z \<Longrightarrow> z \<in> set xs"
  by (cases xs) auto

lemma seg_relink:
  assumes "seg at None xs n" and "seg at p ys None" and "distinct (xs @ ys)"
  shows "seg (put_previous (first_of ys None) (last_of None xs) (put_next (last_of None xs) (first_of ys None) at))
    None (xs @ ys) None"
    (is "seg ?at None _ _")
proof -
  let ?at1 = "put_next (last_of None xs) (first_of ys None) at"
  have d: "distinct xs" "distinct ys" "set xs \<inter> set ys = {}" using assms(3) by auto
  have "seg ?at None xs (first_of ys None) = seg ?at1 None xs (first_of ys None)"
    using d(3) first_of_in [of ys] by (intro seg_frame) (auto simp: put_previous_def split: option.split)
  moreover have "seg ?at1 None xs (first_of ys None)" by (rule seg_put_next [OF assms(1) d(1)])
  moreover have "seg ?at1 p ys None = seg at p ys None"
    using d(3) last_of_in [of xs] by (intro seg_frame) (auto simp: put_next_def split: option.split)
  then have "seg ?at (last_of None xs) ys None" using assms(2) d(2) by (intro seg_put_previous) simp
  ultimately show ?thesis by (simp add: seg_append)
qed

subsection \<open>The relation between a log and its meaning\<close>

definition log_list :: "HashLog \<Rightarrow> nat list \<Rightarrow> bool" where
  "log_list l as \<longleftrightarrow>
     seg (node_at l) None as None \<and> distinct as \<and> pendingHead l = first_of as None \<and>
     (pendingTail l = last_of None as \<or> length as = 1 \<and> pendingTail l = None) \<and>
     (\<forall>a \<in> set as. a < fresh l) \<and>
     (\<forall>c a. nodes l c = Some a \<longrightarrow> a \<in> set as \<and> hn_id (node_at l a) = c)"

definition pending_of :: "HashLog \<Rightarrow> nat list \<Rightarrow> (sw_CommandId \<times> bool) list" where
  "pending_of l as = map (\<lambda>a. (hn_id (node_at l a), nodes l (hn_id (node_at l a)) = Some a)) as"

definition log_ok :: "(byte list \<Rightarrow> SHash) \<Rightarrow> HashLog \<Rightarrow> alog \<Rightarrow> bool" where
  "log_ok sha l m \<longleftrightarrow>
     (\<exists>as. log_list l as \<and> al_pending m = pending_of l as) \<and>
     synced l = al_synced m \<and> syncedHash l = al_hash m \<and> hl_hash l = a_value sha m \<and>
     (\<forall>c. pendingUpd l c = map_option (\<lambda>(s, h). \<lparr>ue_hash = [h], ue_seqnum = s\<rparr>) (al_upd m c))"

lemma log_ok_new: "log_ok sha NewHashLog a_new"
  by (auto simp: log_ok_def log_list_def NewHashLog_def a_new_def pending_of_def a_value_def chain_def
      intro!: exI [of _ "[]"])

text \<open>Taking a node out of the list.\<close>

lemma unlink_node_at:
  "node_at (unlink c n l) =
     (let at = put_previous (hn_next (node_at l n)) (hn_previous (node_at l n))
                 (put_next (hn_previous (node_at l n)) (hn_next (node_at l n)) (node_at l))
      in at(n := (at n)\<lparr>hn_previous := None, hn_next := None\<rparr>))"
  by (cases "hn_previous (node_at l n)"; cases "hn_next (node_at l n)")
    (simp_all add: unlink_def set_next_def set_previous_def put_next_def put_previous_def Let_def)

lemma unlink_fields:
  "pendingHead (unlink c n l) = (if pendingHead l = Some n then hn_next (node_at l n) else pendingHead l)"
  "pendingTail (unlink c n l) = (if pendingTail l = Some n then hn_previous (node_at l n) else pendingTail l)"
  "nodes (unlink c n l) = (nodes l)(c := None)" "fresh (unlink c n l) = fresh l"
  "pendingUpd (unlink c n l) = pendingUpd l" "synced (unlink c n l) = synced l"
  "syncedHash (unlink c n l) = syncedHash l" "hl_hash (unlink c n l) = hl_hash l"
  by (simp_all add: unlink_def set_next_def set_previous_def Let_def split: option.split)

lemma seg_split:
  assumes "seg at None (xs @ a # ys) None"
  shows "seg at None xs (Some a)" "seg at (Some a) ys None"
    "hn_previous (at a) = last_of None xs" "hn_next (at a) = first_of ys None"
  using assms by (simp_all add: seg_append)

lemma unlink_id [simp]: "hn_id (node_at (unlink c n l) x) = hn_id (node_at l x)"
  by (simp add: unlink_node_at Let_def)

lemma unlink_list:
  assumes "log_list l (xs @ a # ys)" and "nodes l c = Some a"
  shows "log_list (unlink c a l) (xs @ ys)"
    "pending_of (unlink c a l) (xs @ ys) = filter (\<lambda>e. e \<noteq> (c, True)) (pending_of l (xs @ a # ys))"
proof -
  note l = assms(1) [unfolded log_list_def]
  have d: "distinct (xs @ a # ys)" and sg: "seg (node_at l) None (xs @ a # ys) None"
    and c: "hn_id (node_at l a) = c"
    using l assms(2) by blast+
  note s = seg_split [OF sg]
  let ?at = "put_previous (first_of ys None) (last_of None xs) (put_next (last_of None xs) (first_of ys None) (node_at l))"
  have "seg ?at None (xs @ ys) None"
    using s(1,2) d by (intro seg_relink) auto
  moreover have "seg (node_at (unlink c a l)) None (xs @ ys) None = seg ?at None (xs @ ys) None"
    using d by (intro seg_frame) (auto simp: unlink_node_at s Let_def)
  moreover have "pendingHead (unlink c a l) = first_of (xs @ ys) None"
    using l d by (cases xs) (auto simp: unlink_fields s)
  moreover have "pendingTail (unlink c a l) = last_of None (xs @ ys) \<or>
      length (xs @ ys) = 1 \<and> pendingTail (unlink c a l) = None"
  proof (cases ys rule: rev_cases)
    case Nil
    with l d last_of_in [of xs a] show ?thesis by (auto simp: unlink_fields s)
  next
    case (snoc zs z)
    with l d show ?thesis by (auto simp: unlink_fields s)
  qed
  moreover have "a' \<in> set (xs @ ys) \<and> hn_id (node_at l a') = c'"
    if "((nodes l)(c := None)) c' = Some a'" for c' a'
  proof -
    from that have "nodes l c' = Some a'" "c' \<noteq> c" by (auto split: if_splits)
    with l c show ?thesis by auto
  qed
  ultimately show "log_list (unlink c a l) (xs @ ys)"
    unfolding log_list_def using l d by (auto simp: unlink_fields)
  have "filter (\<lambda>e. e \<noteq> (c, True)) (pending_of l zs) = pending_of (unlink c a l) zs" if "a \<notin> set zs" for zs
    using that assms(2) by (induction zs) (auto simp: pending_of_def unlink_fields)
  with d c assms(2) show "pending_of (unlink c a l) (xs @ ys) =
      filter (\<lambda>e. e \<noteq> (c, True)) (pending_of l (xs @ a # ys))"
    by (simp add: pending_of_def)
qed

text \<open>Chaining from the synced hash after a change of the list.\<close>

lemma rehash:
  assumes "log_list l as"
  shows "hash_walk sha (node_at l) (pendingHead l) h = Some (chain sha h (map fst (pending_of l as)))"
  using assms hash_walk_seg [of "node_at l" None as sha h]
  by (simp add: log_list_def pending_of_def comp_def)

lemma log_list_cong:
  assumes "node_at l' = node_at l" "pendingHead l' = pendingHead l" "pendingTail l' = pendingTail l"
    "nodes l' = nodes l" "fresh l' = fresh l"
  shows "log_list l' as = log_list l as" "pending_of l' as = pending_of l as"
  by (simp_all add: log_list_def pending_of_def assms)

lemma pending_True:
  assumes "log_list l as"
  shows "(c, True) \<in> set (pending_of l as) \<longleftrightarrow> nodes l c \<noteq> None"
  using assms by (auto simp: log_list_def pending_of_def)

lemma settle_some:
  assumes l: "log_ok sha l m" and n: "nodes l c = Some a"
  obtains l' where "log_update sha c s h save l = Some l'" "log_ok sha l' (a_settle c s h m)"
proof -
  from l obtain as where as: "log_list l as" "al_pending m = pending_of l as" by (auto simp: log_ok_def)
  with n have "a \<in> set as" by (auto simp: log_list_def)
  then obtain xs ys where sp: "as = xs @ a # ys" by (auto simp: in_set_conv_decomp)
  note u = unlink_list [OF as(1) [unfolded sp] n]
  let ?l = "if synced l < s then unlink c a l\<lparr>synced := s, syncedHash := h\<rparr> else unlink c a l"
  have ll: "log_list ?l (xs @ ys)"
    "pending_of ?l (xs @ ys) = filter (\<lambda>e. e \<noteq> (c, True)) (al_pending m)"
    using u as(2) sp log_list_cong [of "unlink c a l\<lparr>synced := s, syncedHash := h\<rparr>" "unlink c a l"] by simp_all
  let ?h = "chain sha (syncedHash ?l) (map fst (pending_of ?l (xs @ ys)))"
  show ?thesis
  proof (rule that)
    show "log_update sha c s h save l = Some (?l\<lparr>hl_hash := ?h\<rparr>)"
      using n rehash [OF ll(1)] by (simp add: log_update_def unlink_fields Let_def del: fun_upd_apply)
    show "log_ok sha (?l\<lparr>hl_hash := ?h\<rparr>) (a_settle c s h m)"
      using l ll log_list_cong [of "?l\<lparr>hl_hash := ?h\<rparr>" ?l "xs @ ys"]
      by (auto simp: log_ok_def a_settle_def a_value_def unlink_fields Let_def intro!: exI [of _ "xs @ ys"])
  qed
qed

lemma settle_none:
  assumes l: "log_ok sha l m" and n: "nodes l c = None"
  obtains l' where "log_update sha c s h False l = Some l'" "log_ok sha l' (a_settle c s h m)"
proof -
  from l obtain as where as: "log_list l as" "al_pending m = pending_of l as" by (auto simp: log_ok_def)
  from as n pending_True [OF as(1), of c] have f: "filter (\<lambda>e. e \<noteq> (c, True)) (al_pending m) = al_pending m"
    by (auto simp: filter_id_conv)
  show ?thesis
  proof (cases "s \<le> synced l")
    case True
    with l n f have "log_update sha c s h False l = Some l" "log_ok sha l (a_settle c s h m)"
      by (simp_all add: log_update_def a_settle_def log_ok_def a_value_def Let_def)
    then show ?thesis by (rule that)
  next
    case False
    let ?l = "l\<lparr>synced := s, syncedHash := h\<rparr>"
    have ll: "log_list ?l as" "pending_of ?l as = al_pending m"
      using as log_list_cong [of ?l l] by simp_all
    let ?h = "chain sha h (map fst (pending_of ?l as))"
    show ?thesis
    proof (rule that)
      show "log_update sha c s h False l = Some (?l\<lparr>hl_hash := ?h\<rparr>)"
        using n False rehash [OF ll(1)] by (simp add: log_update_def Let_def)
      show "log_ok sha (?l\<lparr>hl_hash := ?h\<rparr>) (a_settle c s h m)"
        using l ll f False log_list_cong [of "?l\<lparr>hl_hash := ?h\<rparr>" ?l as]
        by (auto simp: log_ok_def a_settle_def a_value_def Let_def intro!: exI [of _ as])
    qed
  qed
qed

lemma Update_ok:
  assumes l: "log_ok sha l m"
  obtains l' where "Update sha c s h l = Some l'" "log_ok sha l' (a_update c s h m)"
proof (cases "nodes l c")
  case None
  from l None have "(c, True) \<notin> set (al_pending m)"
    by (auto simp: log_ok_def pending_True)
  with l None show ?thesis
    by (intro that [of "l\<lparr>pendingUpd := (pendingUpd l)(c \<mapsto> \<lparr>ue_hash = [h], ue_seqnum = s\<rparr>)\<rparr>"])
      (auto simp: Update_def log_update_def a_update_def log_ok_def a_value_def
        log_list_cong [of "l\<lparr>pendingUpd := (pendingUpd l)(c \<mapsto> \<lparr>ue_hash = [h], ue_seqnum = s\<rparr>)\<rparr>" l])
next
  case (Some a)
  from l Some have "(c, True) \<in> set (al_pending m)"
    by (auto simp: log_ok_def pending_True)
  with settle_some [OF l Some, of s h True] that show ?thesis
    by (auto simp: Update_def a_update_def)
qed

text \<open>A new node behind the last one.\<close>

definition log_push :: "sw_CommandId \<Rightarrow> HashLog \<Rightarrow> HashLog" where
  "log_push c l =
     (let a = fresh l;
          l' = l\<lparr>node_at := (node_at l)(a := \<lparr>hn_id = c, hn_next = None, hn_previous = None\<rparr>),
                 fresh := Suc a, nodes := (nodes l)(c \<mapsto> a)\<rparr>
      in case pendingHead l of
           None \<Rightarrow> l'\<lparr>pendingHead := Some a\<rparr>
         | Some x \<Rightarrow>
             let y = (case pendingTail l of None \<Rightarrow> x | Some y \<Rightarrow> y)
             in (set_previous a (Some y) (set_next y (Some a) l'))\<lparr>pendingTail := Some a\<rparr>)"

lemma Append_push:
  assumes "pendingUpd l c = None" and "\<And>x. pendingHead l = Some x \<Longrightarrow> x \<noteq> fresh l"
  shows "Append sha c l =
    (let h = hash sha (if pendingHead l = None then syncedHash l else hl_hash l) c
     in Some (h, (log_push c l)\<lparr>hl_hash := h\<rparr>))"
  using assms
  by (cases "pendingHead l"; cases "pendingTail l")
    (simp_all add: Append_def log_push_def set_next_def set_previous_def Let_def fun_upd_twist)

lemma push_list:
  assumes l: "log_list l as"
  shows "log_list (log_push c l) (as @ [fresh l])"
    "pending_of (log_push c l) (as @ [fresh l]) =
       map (\<lambda>(d, b). (d, b \<and> d \<noteq> c)) (pending_of l as) @ [(c, True)]"
proof -
  let ?a = "fresh l"
  let ?new = "(node_at l)(?a := \<lparr>hn_id = c, hn_next = None, hn_previous = None\<rparr>)"
  let ?at = "put_previous (Some ?a) (last_of None as) (put_next (last_of None as) (Some ?a) ?new)"
  have fr: "?a \<notin> set as" and d: "distinct as" using l by (auto simp: log_list_def)
  have y: "as \<noteq> [] \<Longrightarrow> (case pendingTail l of None \<Rightarrow> the (pendingHead l) | Some y \<Rightarrow> y) = last as \<and>
      last_of None as = Some (last as)"
    using l by (cases as rule: rev_cases) (auto simp: log_list_def length_Suc_conv split: option.split)
  have at: "node_at (log_push c l) = ?at"
  proof (cases as)
    case Nil
    with l show ?thesis
      by (auto simp: log_list_def log_push_def put_previous_def put_next_def Let_def fun_eq_iff)
  next
    case (Cons z zs)
    with l y show ?thesis
      by (simp add: log_list_def log_push_def put_previous_def put_next_def set_next_def set_previous_def Let_def
          split: option.splits)
  qed
  have rest: "nodes (log_push c l) = (nodes l)(c \<mapsto> ?a)" "fresh (log_push c l) = Suc ?a"
    "pendingHead (log_push c l) = first_of (as @ [?a]) None"
    "pendingTail (log_push c l) = last_of None (as @ [?a]) \<or>
       length (as @ [?a]) = 1 \<and> pendingTail (log_push c l) = None"
    using l by (cases as; auto simp: log_list_def log_push_def set_next_def set_previous_def Let_def)+
  have "seg ?new None as None = seg (node_at l) None as None"
    using fr by (intro seg_frame) auto
  with l have "seg ?new None as None" by (simp add: log_list_def)
  then have "seg ?at None (as @ [?a]) None"
    using seg_relink [of ?new as None None "[?a]"] fr d by simp
  moreover have ids: "hn_id (?at x) = (if x = ?a then c else hn_id (node_at l x))" for x by simp
  moreover have "a' \<in> set (as @ [?a]) \<and> hn_id (?at a') = c'"
    if "((nodes l)(c \<mapsto> ?a)) c' = Some a'" for c' a'
    using that l fr unfolding ids by (auto simp: log_list_def split: if_splits)
  ultimately show "log_list (log_push c l) (as @ [?a])"
    unfolding log_list_def at rest(1-3) using l d fr rest(3,4) by (auto simp: log_list_def)
  show "pending_of (log_push c l) (as @ [?a]) = map (\<lambda>(d, b). (d, b \<and> d \<noteq> c)) (pending_of l as) @ [(c, True)]"
    unfolding pending_of_def at rest(1) ids using fr by (auto simp: pending_of_def)
qed

lemma Append_ok:
  assumes l: "log_ok sha l m"
  obtains l' where "Append sha c l = Some (fst (a_append sha c m), l')" "log_ok sha l' (snd (a_append sha c m))"
proof (cases "al_upd m c")
  case (Some sh)
  obtain s h where sh: "sh = (s, h)" by (cases sh)
  let ?l = "l\<lparr>pendingUpd := (pendingUpd l)(c := None)\<rparr>" and ?m = "m\<lparr>al_upd := (al_upd m)(c := None)\<rparr>"
  have ok: "log_ok sha ?l ?m"
    using l log_list_cong [of ?l l] by (auto simp: log_ok_def a_value_def)
  obtain l' where "log_update sha c s h False ?l = Some l'" "log_ok sha l' (a_settle c s h ?m)"
  proof (cases "nodes ?l c")
    case None
    with that show ?thesis by (elim settle_none [OF ok])
  next
    case (Some a)
    with that show ?thesis by (elim settle_some [OF ok])
  qed
  moreover have "pendingUpd l c = Some \<lparr>ue_hash = [h], ue_seqnum = s\<rparr>"
    using l Some sh by (simp add: log_ok_def)
  ultimately show ?thesis
    using Some sh by (intro that [of l']) (simp_all add: Append_def a_append_def slice_get_def)
next
  case None
  from l obtain as where as: "log_list l as" "al_pending m = pending_of l as" by (auto simp: log_ok_def)
  let ?m = "m\<lparr>al_pending := map (\<lambda>(d, b). (d, b \<and> d \<noteq> c)) (al_pending m) @ [(c, True)]\<rparr>"
  let ?h = "hash sha (if pendingHead l = None then syncedHash l else hl_hash l) c"
  let ?l = "(log_push c l)\<lparr>hl_hash := ?h\<rparr>"
  have m: "a_append sha c m = (a_value sha ?m, ?m)" by (simp add: a_append_def None Let_def)
  have "pendingHead l \<noteq> Some (fresh l)"
    using as(1) first_of_in [of as "fresh l"] by (auto simp: log_list_def)
  moreover have "pendingUpd l c = None" using l None by (simp add: log_ok_def)
  ultimately have A: "Append sha c l = Some (?h, ?l)" by (subst Append_push) (auto simp: Let_def)
  have fst_map: "map fst (map (\<lambda>(d, b). (d, b \<and> d \<noteq> c)) xs) = map fst xs" for xs :: "(sw_CommandId \<times> bool) list"
    by (induction xs) auto
  have e: "pendingHead l = None \<longleftrightarrow> as = []" using as(1) by (cases as) (auto simp: log_list_def)
  have "a_value sha ?m = hash sha (a_value sha m) c"
    by (simp add: a_value_def chain_def fst_map del: map_map)
  moreover have "as = [] \<Longrightarrow> a_value sha m = al_hash m"
    using as(2) by (simp add: a_value_def chain_def pending_of_def)
  ultimately have h: "?h = a_value sha ?m"
    using l e by (auto simp: log_ok_def)
  have k: "synced (log_push c l) = synced l" "syncedHash (log_push c l) = syncedHash l"
    "pendingUpd (log_push c l) = pendingUpd l"
    by (simp_all add: log_push_def set_next_def set_previous_def Let_def split: option.split)
  have "log_ok sha ?l ?m"
    unfolding log_ok_def
  proof (intro conjI exI [of _ "as @ [fresh l]"])
    show "log_list ?l (as @ [fresh l])" "al_pending ?m = pending_of ?l (as @ [fresh l])"
      using push_list [OF as(1), of c] as(2) log_list_cong [of ?l "log_push c l"] by simp_all
  qed (use l h k in \<open>simp_all add: log_ok_def\<close>)
  with A m h show ?thesis by (intro that [of ?l]) simp_all
qed

subsection \<open>Runs\<close>

datatype log_event = L_Append sw_CommandId | L_Update sw_CommandId int SHash

text \<open>The hashes the appends return, and the log afterwards.\<close>

fun run_log ::
    "(byte list \<Rightarrow> SHash) \<Rightarrow> log_event list \<Rightarrow> HashLog \<Rightarrow> (SHash list \<times> HashLog) option" where
  "run_log sha [] l = Some ([], l)"
| "run_log sha (L_Append c # es) l =
     do { (h, l) \<leftarrow> Append sha c l; (hs, l) \<leftarrow> run_log sha es l; Some (h # hs, l) }"
| "run_log sha (L_Update c s h # es) l = do { l \<leftarrow> Update sha c s h l; run_log sha es l }"

fun run_alog :: "(byte list \<Rightarrow> SHash) \<Rightarrow> log_event list \<Rightarrow> alog \<Rightarrow> SHash list \<times> alog" where
  "run_alog sha [] m = ([], m)"
| "run_alog sha (L_Append c # es) m =
     (case a_append sha c m of (h, m) \<Rightarrow> apfst (Cons h) (run_alog sha es m))"
| "run_alog sha (L_Update c s h # es) m = run_alog sha es (a_update c s h m)"

lemma run_log_ok:
  "log_ok sha l m \<Longrightarrow>
     \<exists>l'. run_log sha es l = Some (fst (run_alog sha es m), l') \<and> log_ok sha l' (snd (run_alog sha es m))"
proof (induction es arbitrary: l m)
  case (Cons e es)
  show ?case
  proof (cases e)
    case (L_Append c)
    obtain l1 where "Append sha c l = Some (fst (a_append sha c m), l1)" "log_ok sha l1 (snd (a_append sha c m))"
      by (rule Append_ok [OF Cons.prems])
    with Cons.IH [of l1 "snd (a_append sha c m)"] L_Append show ?thesis
      by (auto simp: split_beta)
  next
    case (L_Update c s h)
    obtain l1 where "Update sha c s h l = Some l1" "log_ok sha l1 (a_update c s h m)"
      by (rule Update_ok [OF Cons.prems])
    with Cons.IH [of l1 "a_update c s h m"] L_Update show ?thesis by auto
  qed
qed simp

subsection \<open>Logs of a leader and of another replica\<close>

fun appended :: "log_event list \<Rightarrow> sw_CommandId list" where
  "appended [] = []"
| "appended (L_Append c # es) = c # appended es"
| "appended (L_Update _ _ _ # es) = appended es"

fun updated :: "log_event list \<Rightarrow> sw_CommandId list" where
  "updated [] = []"
| "updated (L_Append _ # es) = updated es"
| "updated (L_Update c _ _ # es) = c # updated es"

text \<open>The leader's commands up to the last one the replica has received and been told the hash of, and
  the commands it has received and not been told about.\<close>

definition known_prefix :: "sw_CommandId list \<Rightarrow> log_event list \<Rightarrow> sw_CommandId list" where
  "known_prefix cs es = rev (dropWhile (\<lambda>c. \<not> (c \<in> set (appended es) \<and> c \<in> set (updated es))) (rev cs))"

definition pending :: "log_event list \<Rightarrow> sw_CommandId list" where
  "pending es = filter (\<lambda>c. c \<notin> set (updated es)) (appended es)"

lemma appended_append [simp]: "appended (es @ fs) = appended es @ appended fs"
  by (induction es rule: appended.induct) simp_all

lemma updated_append [simp]: "updated (es @ fs) = updated es @ updated fs"
  by (induction es rule: updated.induct) simp_all

lemma run_alog_append:
  "run_alog sha (es @ fs) m =
     (fst (run_alog sha es m) @ fst (run_alog sha fs (snd (run_alog sha es m))),
      snd (run_alog sha fs (snd (run_alog sha es m))))"
proof (induction es arbitrary: m)
  case (Cons e es)
  then show ?case by (cases e) (simp_all add: split_beta)
qed simp

text \<open>The prefix of \<open>cs\<close> up to its last element in \<open>S\<close>.\<close>

definition last_in :: "sw_CommandId list \<Rightarrow> sw_CommandId set \<Rightarrow> sw_CommandId list" where
  "last_in cs S = rev (dropWhile (\<lambda>c. c \<notin> S) (rev cs))"

lemma known_prefix_last_in: "known_prefix cs es = last_in cs (set (appended es) \<inter> set (updated es))"
  by (simp add: known_prefix_def last_in_def)

lemma last_in_snoc: "last_in (cs @ [c]) S = (if c \<in> S then cs @ [c] else last_in cs S)"
  by (simp add: last_in_def)

lemma last_in_empty: "set cs \<inter> S = {} \<Longrightarrow> last_in cs S = []"
  by (auto simp: last_in_def)

lemma last_in_take:
  assumes "k < length cs" and "cs ! k \<in> S" and "\<And>j. j < length cs \<Longrightarrow> cs ! j \<in> S \<Longrightarrow> j \<le> k"
  shows "last_in cs S = take (Suc k) cs"
  using assms
proof (induction cs rule: rev_induct)
  case (snoc c cs)
  show ?case
  proof (cases "k = length cs")
    case False
    with snoc.prems have k: "k < length cs" by simp
    with snoc.prems(3) [of "length cs"] have "c \<notin> S" by auto
    moreover have "last_in cs S = take (Suc k) cs"
    proof (rule snoc.IH [OF k])
      show "cs ! k \<in> S" using snoc.prems(2) k by (simp add: nth_append)
      show "\<And>j. j < length cs \<Longrightarrow> cs ! j \<in> S \<Longrightarrow> j \<le> k"
        using snoc.prems(3) by (simp add: nth_append less_SucI)
    qed
    ultimately show ?thesis using k by (simp add: last_in_snoc)
  qed (use snoc.prems in \<open>simp add: last_in_snoc\<close>)
qed simp

text \<open>What a replica has been told is what the leader did: the \<open>k\<close>-th command has the sequence number
  \<open>sq k\<close> and the chain hash of the commands up to it.\<close>

definition told :: "(byte list \<Rightarrow> SHash) \<Rightarrow> sw_CommandId list \<Rightarrow> (nat \<Rightarrow> int) \<Rightarrow> nat \<Rightarrow> int \<times> SHash" where
  "told sha cs sq k = (sq k, chain sha zero_hash (take (Suc k) cs))"

definition truthful ::
    "(byte list \<Rightarrow> SHash) \<Rightarrow> sw_CommandId list \<Rightarrow> (nat \<Rightarrow> int) \<Rightarrow> sw_CommandId \<Rightarrow> int \<times> SHash \<Rightarrow> bool" where
  "truthful sha cs sq c sh \<longleftrightarrow> (\<exists>k < length cs. c = cs ! k \<and> sh = told sha cs sq k)"

text \<open>The synced command and hash after the commands \<open>S\<close> have been settled.\<close>

definition synced_to ::
    "(byte list \<Rightarrow> SHash) \<Rightarrow> sw_CommandId list \<Rightarrow> (nat \<Rightarrow> int) \<Rightarrow> sw_CommandId set \<Rightarrow> int \<times> SHash \<Rightarrow> bool" where
  "synced_to sha cs sq S sh \<longleftrightarrow>
     S \<subseteq> set cs \<and>
     (S = {} \<and> sh = (-1, zero_hash) \<or>
      (\<exists>k < length cs. cs ! k \<in> S \<and> sh = told sha cs sq k \<and> (\<forall>j < length cs. cs ! j \<in> S \<longrightarrow> j \<le> k)))"

lemma synced_to_chain:
  "synced_to sha cs sq S (s, h) \<Longrightarrow> h = chain sha zero_hash (last_in cs S)"
  by (auto simp: synced_to_def told_def last_in_empty last_in_take chain_def)

lemma synced_to_insert:
  assumes "synced_to sha cs sq S (s0, h0)" and "truthful sha cs sq c (s, h)" and "distinct cs"
    and mono: "\<And>i j. i < j \<Longrightarrow> j < length cs \<Longrightarrow> sq i < sq j" and pos: "\<And>i. i < length cs \<Longrightarrow> 0 \<le> sq i"
  shows "synced_to sha cs sq (Set.insert c S) (if s0 < s then (s, h) else (s0, h0))"
proof -
  from assms(2) obtain k where k: "k < length cs" "c = cs ! k" "(s, h) = told sha cs sq k"
    by (auto simp: truthful_def)
  have inj: "j < length cs \<Longrightarrow> cs ! j = c \<longleftrightarrow> j = k" for j
    using assms(3) k(1,2) by (simp add: nth_eq_iff_index_eq)
  from assms(1) consider "S = {}" "(s0, h0) = (-1, zero_hash)"
    | j where "j < length cs" "cs ! j \<in> S" "(s0, h0) = told sha cs sq j"
        "\<forall>i < length cs. cs ! i \<in> S \<longrightarrow> i \<le> j"
    by (auto simp: synced_to_def)
  then show ?thesis
  proof cases
    case 1
    with k pos [OF k(1)] inj show ?thesis
      by (auto simp: synced_to_def told_def intro!: exI [of _ k])
  next
    case 2
    have "s0 < s \<longleftrightarrow> j < k"
      using mono [of j k] mono [of k j] k(1,3) 2(1,3) by (cases j k rule: linorder_cases) (auto simp: told_def)
    moreover have "S \<subseteq> set cs" using assms(1) by (simp add: synced_to_def)
    moreover have "j < k \<Longrightarrow> synced_to sha cs sq (Set.insert c S) (s, h)"
      using k inj 2(4) \<open>S \<subseteq> set cs\<close> unfolding synced_to_def
      by (intro conjI disjI2 exI [of _ k]) (auto dest: order.strict_trans1)
    moreover have "\<not> j < k \<Longrightarrow> synced_to sha cs sq (Set.insert c S) (s0, h0)"
      using k inj 2 \<open>S \<subseteq> set cs\<close> unfolding synced_to_def
      by (intro conjI disjI2 exI [of _ j]) auto
    ultimately show ?thesis by auto
  qed
qed

definition follower_inv ::
    "(byte list \<Rightarrow> SHash) \<Rightarrow> sw_CommandId list \<Rightarrow> (nat \<Rightarrow> int) \<Rightarrow> log_event list \<Rightarrow> alog \<Rightarrow> bool" where
  "follower_inv sha cs sq es m \<longleftrightarrow>
     al_pending m = map (\<lambda>c. (c, True)) (pending es) \<and>
     (\<forall>c. c \<notin> set (appended es) \<longrightarrow> (al_upd m c = None \<longleftrightarrow> c \<notin> set (updated es))) \<and>
     (\<forall>c sh. c \<notin> set (appended es) \<longrightarrow> al_upd m c = Some sh \<longrightarrow> truthful sha cs sq c sh) \<and>
     synced_to sha cs sq (set (appended es) \<inter> set (updated es)) (al_synced m, al_hash m)"

lemma settle_fields:
  "al_pending (a_settle c s h m) = filter (\<lambda>e. e \<noteq> (c, True)) (al_pending m)"
  "al_upd (a_settle c s h m) = al_upd m"
  "(al_synced (a_settle c s h m), al_hash (a_settle c s h m)) =
     (if al_synced m < s then (s, h) else (al_synced m, al_hash m))"
  by (simp_all add: a_settle_def Let_def)

lemma filter_pending: "filter (\<lambda>e. e \<noteq> (c, True)) (map (\<lambda>c. (c, True)) xs) =
    map (\<lambda>c. (c, True)) (filter (\<lambda>d. d \<noteq> c) xs)"
  by (induction xs) auto

lemma follower_inv_append:
  assumes inv: "follower_inv sha cs sq es m" and c: "c \<notin> set (appended es)" and "distinct cs"
    and mono: "\<And>i j. i < j \<Longrightarrow> j < length cs \<Longrightarrow> sq i < sq j" and pos: "\<And>i. i < length cs \<Longrightarrow> 0 \<le> sq i"
  shows "follower_inv sha cs sq (es @ [L_Append c]) (snd (a_append sha c m))"
proof (cases "al_upd m c")
  case None
  with inv c have u: "c \<notin> set (updated es)" by (auto simp: follower_inv_def)
  have "map (\<lambda>(d, b). (d, b \<and> d \<noteq> c)) (map (\<lambda>c. (c, True)) (pending es)) = map (\<lambda>c. (c, True)) (pending es)"
    using c by (auto simp: pending_def)
  then have A: "snd (a_append sha c m) = m\<lparr>al_pending := map (\<lambda>c. (c, True)) (pending es @ [c])\<rparr>"
    using inv by (simp add: a_append_def None Let_def follower_inv_def del: map_map)
  show ?thesis
    unfolding A using inv c u by (auto simp: follower_inv_def pending_def)
next
  case (Some sh)
  obtain s h where sh: "sh = (s, h)" by (cases sh)
  from inv c Some sh have u: "c \<in> set (updated es)" and t: "truthful sha cs sq c (s, h)"
    by (auto simp: follower_inv_def)
  let ?m = "m\<lparr>al_upd := (al_upd m)(c := None)\<rparr>"
  have "synced_to sha cs sq (set (appended es) \<inter> set (updated es)) (al_synced ?m, al_hash ?m)"
    using inv by (simp add: follower_inv_def)
  from synced_to_insert [OF this t assms(3) mono pos]
  have "synced_to sha cs sq (set (appended (es @ [L_Append c])) \<inter> set (updated (es @ [L_Append c])))
      (al_synced (a_settle c s h ?m), al_hash (a_settle c s h ?m))"
    using u by (simp add: settle_fields(3) del: fun_upd_apply)
  moreover have "filter (\<lambda>d. d \<noteq> c) (pending es) = pending es" "pending (es @ [L_Append c]) = pending es"
    using c u by (auto simp: pending_def intro!: filter_cong)
  moreover have A: "snd (a_append sha c m) = a_settle c s h ?m" by (simp add: a_append_def Some sh)
  ultimately show ?thesis
    unfolding A using inv by (auto simp: follower_inv_def settle_fields(1,2) filter_pending)
qed

lemma follower_inv_update:
  assumes inv: "follower_inv sha cs sq es m" and t: "truthful sha cs sq c (s, h)" and "distinct cs"
    and mono: "\<And>i j. i < j \<Longrightarrow> j < length cs \<Longrightarrow> sq i < sq j" and pos: "\<And>i. i < length cs \<Longrightarrow> 0 \<le> sq i"
  shows "follower_inv sha cs sq (es @ [L_Update c s h]) (a_update c s h m)"
proof (cases "c \<in> set (pending es)")
  case True
  then have "(c, True) \<in> set (al_pending m)" and ca: "c \<in> set (appended es)"
    using inv by (auto simp: follower_inv_def pending_def)
  then have u: "a_update c s h m = a_settle c s h m" by (simp add: a_update_def)
  have "synced_to sha cs sq (set (appended es) \<inter> set (updated es)) (al_synced m, al_hash m)"
    using inv by (simp add: follower_inv_def)
  from synced_to_insert [OF this t assms(3) mono pos]
  have "synced_to sha cs sq (set (appended (es @ [L_Update c s h])) \<inter> set (updated (es @ [L_Update c s h])))
      (al_synced (a_settle c s h m), al_hash (a_settle c s h m))"
    using ca by (simp add: settle_fields(3))
  moreover have "pending (es @ [L_Update c s h]) = filter (\<lambda>d. d \<noteq> c) (pending es)"
    by (simp add: pending_def conj_commute)
  ultimately show ?thesis
    using inv ca unfolding u
    by (auto simp: follower_inv_def settle_fields(1,2) filter_pending)
next
  case False
  with inv have "(c, True) \<notin> set (al_pending m)" by (auto simp: follower_inv_def)
  then have u: "a_update c s h m = m\<lparr>al_upd := (al_upd m)(c \<mapsto> (s, h))\<rparr>" by (simp add: a_update_def)
  have "pending (es @ [L_Update c s h]) = pending es"
    using False by (auto simp: pending_def intro!: filter_cong)
  moreover have "set (appended es) \<inter> Set.insert c (set (updated es)) = set (appended es) \<inter> set (updated es)"
    using False by (auto simp: pending_def)
  ultimately show ?thesis
    using inv t unfolding u by (auto simp: follower_inv_def)
qed

lemma follower_inv_run:
  assumes "distinct cs" and "\<And>i j. i < j \<Longrightarrow> j < length cs \<Longrightarrow> sq i < sq j"
    and "\<And>i. i < length cs \<Longrightarrow> 0 \<le> sq i"
  shows "distinct (appended es) \<Longrightarrow> (\<And>c s h. L_Update c s h \<in> set es \<Longrightarrow> truthful sha cs sq c (s, h)) \<Longrightarrow>
     follower_inv sha cs sq es (snd (run_alog sha es a_new))"
proof (induction es rule: rev_induct)
  case Nil
  then show ?case by (simp add: follower_inv_def a_new_def pending_def synced_to_def)
next
  case (snoc e es)
  then have inv: "follower_inv sha cs sq es (snd (run_alog sha es a_new))" by simp
  show ?case
  proof (cases e)
    case (L_Append c)
    with snoc.prems(1) have "c \<notin> set (appended es)" by simp
    from follower_inv_append [OF inv this assms] L_Append show ?thesis
      by (simp add: run_alog_append split_beta)
  next
    case (L_Update c s h)
    with snoc.prems(2) have "truthful sha cs sq c (s, h)" by simp
    from follower_inv_update [OF inv this assms] L_Update show ?thesis
      by (simp add: run_alog_append)
  qed
qed

lemma leader_run:
  "distinct cs \<Longrightarrow>
     run_alog sha (map L_Append cs) a_new =
       (map (\<lambda>k. chain sha zero_hash (take (Suc k) cs)) [0..<length cs],
        a_new\<lparr>al_pending := map (\<lambda>c. (c, True)) cs\<rparr>)"
proof (induction cs rule: rev_induct)
  case Nil
  then show ?case by (simp add: a_new_def)
next
  case (snoc c cs)
  have "map (\<lambda>(d, b). (d, b \<and> d \<noteq> c)) (map (\<lambda>c. (c, True)) cs) = map (\<lambda>c. (c, True)) cs"
    using snoc.prems by auto
  with snoc show ?case
    by (simp add: run_alog_append a_append_def a_value_def a_new_def chain_def Let_def comp_def)
qed

lemma put32_inject: "is_i32 x \<Longrightarrow> is_i32 y \<Longrightarrow> put32 x = put32 y \<Longrightarrow> x = y"
  by (metis get32_put32_end)

text \<open>The inputs of the hash function in a chain.\<close>

definition hash_input :: "SHash \<Rightarrow> sw_CommandId \<Rightarrow> byte list" where
  "hash_input h c = h @ put32 (sw_ClientId c) @ put32 (sw_SeqNum c)"

fun hashed :: "(byte list \<Rightarrow> SHash) \<Rightarrow> SHash \<Rightarrow> sw_CommandId list \<Rightarrow> byte list set" where
  "hashed sha h [] = {}"
| "hashed sha h (c # cs) = Set.insert (hash_input h c) (hashed sha (hash sha h c) cs)"

lemma hashed_snoc: "hashed sha h (cs @ [c]) = Set.insert (hash_input (chain sha h cs) c) (hashed sha h cs)"
  by (induction cs arbitrary: h) (auto simp: chain_def)

lemma chain_snoc: "chain sha g (xs @ [c]) = sha (hash_input (chain sha g xs) c)"
  by (simp add: chain_def hash_def hash_input_def)

lemma hash_input_inject:
  assumes "hash_input g c = hash_input h d" and "wf_id c" and "wf_id d"
  shows "g = h \<and> c = d"
proof -
  from assms(1) have "g = h" "put32 (sw_ClientId c) = put32 (sw_ClientId d)" "put32 (sw_SeqNum c) = put32 (sw_SeqNum d)"
    by (simp_all add: hash_input_def)
  with assms(2,3) show ?thesis by (auto simp: wf_id_def intro!: sw_CommandId.equality dest: put32_inject)
qed

text \<open>A collision among the given inputs, or one of them that is mapped to the hash of the empty log.\<close>

definition collides :: "(byte list \<Rightarrow> SHash) \<Rightarrow> byte list set \<Rightarrow> bool" where
  "collides sha U \<longleftrightarrow> (\<exists>u \<in> U. \<exists>v \<in> U. u \<noteq> v \<and> sha u = sha v) \<or> (\<exists>u \<in> U. sha u = zero_hash)"

lemma collides_mono: "collides sha U \<Longrightarrow> U \<subseteq> W \<Longrightarrow> collides sha W"
  unfolding collides_def by blast

lemma chain_collision:
  "chain sha zero_hash xs = chain sha zero_hash ys \<Longrightarrow> list_all wf_id xs \<Longrightarrow> list_all wf_id ys \<Longrightarrow>
     xs = ys \<or> collides sha (hashed sha zero_hash xs \<union> hashed sha zero_hash ys)"
proof (induction xs arbitrary: ys rule: rev_induct)
  case Nil
  have e: "chain sha zero_hash [] = zero_hash" by (simp add: chain_def)
  show ?case
  proof (cases ys rule: rev_cases)
    case (snoc zs d)
    with Nil(1) e show ?thesis by (auto simp: chain_snoc hashed_snoc collides_def)
  qed simp
next
  case (snoc c xs)
  show ?case
  proof (cases ys rule: rev_cases)
    case Nil
    have "chain sha zero_hash [] = zero_hash" by (simp add: chain_def)
    with snoc.prems(1) Nil show ?thesis by (auto simp: chain_snoc hashed_snoc collides_def)
  next
    case (snoc zs d)
    show ?thesis
    proof (cases "hash_input (chain sha zero_hash xs) c = hash_input (chain sha zero_hash zs) d")
      case True
      with snoc.prems snoc have "chain sha zero_hash xs = chain sha zero_hash zs" "c = d"
        by (auto dest: hash_input_inject)
      with snoc.IH [of zs] snoc snoc.prems show ?thesis
        by (auto simp: hashed_snoc intro: collides_mono)
    next
      case False
      with snoc.prems(1) snoc show ?thesis by (auto simp: chain_snoc hashed_snoc collides_def)
    qed
  qed
qed

text \<open>The hash the last of a sequence of appends returns.\<close>

lemma run_alog_appends:
  "al_upd m = Map.empty \<Longrightarrow> cs \<noteq> [] \<Longrightarrow>
     last (fst (run_alog sha (map L_Append cs) m)) = chain sha (al_hash m) (map fst (al_pending m) @ cs)"
proof (induction cs arbitrary: m)
  case (Cons c cs)
  let ?m = "m\<lparr>al_pending := map (\<lambda>(d, b). (d, b \<and> d \<noteq> c)) (al_pending m) @ [(c, True)]\<rparr>"
  have A: "a_append sha c m = (a_value sha ?m, ?m)" using Cons.prems(1) by (simp add: a_append_def Let_def)
  have f: "fst \<circ> (\<lambda>(d, b). (d, b \<and> d \<noteq> c)) = fst" by (rule ext) (simp add: split_beta)
  then have ids: "map fst (al_pending ?m) = map fst (al_pending m) @ [c]" by simp
  have v: "a_value sha ?m = chain sha (al_hash m) (map fst (al_pending m) @ [c])" unfolding a_value_def ids by simp
  show ?case
  proof (cases "cs = []")
    case True
    then show ?thesis using v by (simp add: A)
  next
    case False
    moreover from this have "fst (run_alog sha (map L_Append cs) ?m) \<noteq> []"
      by (cases cs) (simp_all add: split_beta)
    ultimately show ?thesis using Cons.IH [of ?m] Cons.prems(1) f by (simp add: A split_beta)
  qed
qed simp

lemma run_log_appends:
  assumes "run_log sha (map L_Append cs) NewHashLog = Some (hs, l)" and "cs \<noteq> []"
  shows "last hs = chain sha zero_hash cs"
proof -
  from run_log_ok [OF log_ok_new, of sha "map L_Append cs"] assms(1)
  have "hs = fst (run_alog sha (map L_Append cs) a_new)" by auto
  then show ?thesis using run_alog_appends [of a_new cs sha] assms(2) by (simp add: a_new_def)
qed

lemma SHashesEq_iff: "SHashesEq hs1 hs2 \<longleftrightarrow> length hs1 = length hs2 \<and> set hs1 \<subseteq> set hs2"
  by (auto simp: SHashesEq_def list_all_iff list_ex_iff)

subsection \<open>Properties\<close>

text \<open>C15. The pointer structure implements the meaning of a log: whatever commands are appended to a fresh
  log and whatever updates it is told, in any order and with repetitions, every operation returns (the
  loop over the linked list ends, no index is out of range), the appends return the hashes of the abstract
  log, and the hash of the log is the chain over its pending commands from the synced hash.\<close>

theorem hash_log_refines:
  "\<exists>l. run_log sha es NewHashLog = Some (fst (run_alog sha es a_new), l) \<and>
     synced l = al_synced (snd (run_alog sha es a_new)) \<and>
     syncedHash l = al_hash (snd (run_alog sha es a_new)) \<and>
     hl_hash l = chain sha (syncedHash l) (map fst (al_pending (snd (run_alog sha es a_new))))"
  using run_log_ok [OF log_ok_new, of sha es] by (auto simp: log_ok_def a_value_def)

text \<open>C16. Logs of different replicas are comparable. The leader's checksums are the chain hashes of its
  commands on the key. A replica that receives commands in any order of its own, mixed with true updates
  about the leader's commands in any order, early ones and repeated ones included, ends with the chain
  hash of this history: the leader's commands up to the last one it has received and been told about,
  then its own commands it has not been told about, in the order it received them.\<close>

theorem hash_logs_agree:
  assumes "distinct cs" and "run_log sha (map L_Append cs) NewHashLog = Some (checksums, l0)"
    and "\<And>i j. i < j \<Longrightarrow> j < length cs \<Longrightarrow> sq i < sq j" and "\<And>i. i < length cs \<Longrightarrow> 0 \<le> sq i"
    and "\<And>c s h. L_Update c s h \<in> set es \<Longrightarrow> \<exists>k < length cs. c = cs ! k \<and> s = sq k \<and> h = checksums ! k"
    and "distinct (appended es)" and "run_log sha es NewHashLog = Some (hs, l)"
  shows "checksums = map (\<lambda>k. chain sha zero_hash (take (Suc k) cs)) [0..<length cs] \<and>
    hl_hash l = chain sha zero_hash (known_prefix cs es @ pending es)"
proof
  show *: "checksums = map (\<lambda>k. chain sha zero_hash (take (Suc k) cs)) [0..<length cs]"
    using run_log_ok [OF log_ok_new, of sha "map L_Append cs"] assms(2) leader_run [OF assms(1), of sha] by simp
  have "truthful sha cs sq c (s, h)" if "L_Update c s h \<in> set es" for c s h
    using assms(5) [OF that] by (auto simp: truthful_def told_def *)
  then have inv: "follower_inv sha cs sq es (snd (run_alog sha es a_new))"
    by (intro follower_inv_run [OF assms(1)] assms(3,4,6))
  then have "al_hash (snd (run_alog sha es a_new)) = chain sha zero_hash (known_prefix cs es)"
    unfolding known_prefix_last_in follower_inv_def by (intro synced_to_chain) (elim conjE)
  with inv run_log_ok [OF log_ok_new, of sha es] assms(7)
  show "hl_hash l = chain sha zero_hash (known_prefix cs es @ pending es)"
    by (auto simp: follower_inv_def log_ok_def a_value_def chain_def comp_def)
qed

definition sid :: "int \<Rightarrow> sw_CommandId" where
  "sid n = \<lparr>sw_ClientId = 0, sw_SeqNum = n\<rparr>"

theorem hash_logs_agree_witness:
  "let cs = [sid 1, sid 2];
       checksums = map (\<lambda>k. chain rev zero_hash (take (Suc k) cs)) [0..<length cs];
       es = [L_Update (sid 1) 4 (checksums ! 0), L_Append (sid 2), L_Append (sid 1)]
   in \<exists>hs l. run_log rev es NewHashLog = Some (hs, l) \<and> hl_hash l = chain rev zero_hash (known_prefix cs es @ pending es) \<and>
        known_prefix cs es @ pending es = cs"
proof -
  let ?cs = "[sid 1, sid 2]"
  let ?checksums = "map (\<lambda>k. chain rev zero_hash (take (Suc k) ?cs)) [0..<length ?cs]"
  let ?es = "[L_Update (sid 1) 4 (?checksums ! 0), L_Append (sid 2), L_Append (sid 1)]"
  have d: "distinct ?cs" by (simp add: sid_def)
  from run_log_ok [OF log_ok_new, of rev "map L_Append ?cs"] leader_run [OF d, of rev]
  obtain l0 where l0: "run_log rev (map L_Append ?cs) NewHashLog = Some (?checksums, l0)" by auto
  from run_log_ok [OF log_ok_new, of rev ?es] obtain hs l where l: "run_log rev ?es NewHashLog = Some (hs, l)" by blast
  have "hl_hash l = chain rev zero_hash (known_prefix ?cs ?es @ pending ?es)"
  proof (rule conjunct2 [OF hash_logs_agree [OF d l0 _ _ _ _ l, of "\<lambda>k. 4 + int k"]])
    show "\<exists>k < length ?cs. c = ?cs ! k \<and> s = 4 + int k \<and> h = ?checksums ! k" if "L_Update c s h \<in> set ?es" for c s h
      using that by (intro exI [of _ 0]) auto
    show "distinct (appended ?es)" by (simp add: sid_def)
  qed simp_all
  with l show ?thesis by (simp add: Let_def known_prefix_def pending_def sid_def)
qed

text \<open>C17. Equal checksums stand for equal histories: if two logs that append the commands of two
  non-empty sequences with well-formed ids return the same hash at the end, the sequences are equal, or
  among the inputs these two logs have hashed there are two different ones with the same hash, or one whose
  hash is that of the empty log.\<close>

theorem checksum_certifies_history:
  assumes "run_log sha (map L_Append cs) NewHashLog = Some (hs, l)"
    and "run_log sha (map L_Append ds) NewHashLog = Some (hs', l')"
    and "last hs = last hs'" and "cs \<noteq> []" and "ds \<noteq> []" and "list_all wf_id cs" and "list_all wf_id ds"
  shows "cs = ds \<or> collides sha (hashed sha zero_hash cs \<union> hashed sha zero_hash ds)"
  using chain_collision [of sha cs ds] run_log_appends assms by metis

theorem checksum_certifies_history_witness:
  "\<exists>hs l hs' l'. run_log (\<lambda>_. [1]) (map L_Append [sid 1]) NewHashLog = Some (hs, l) \<and>
     run_log (\<lambda>_. [1]) (map L_Append [sid 2]) NewHashLog = Some (hs', l') \<and> last hs = last hs' \<and>
     collides (\<lambda>_. [1]) (hashed (\<lambda>_. [1]) zero_hash [sid 1] \<union> hashed (\<lambda>_. [1]) zero_hash [sid 2])"
proof -
  obtain hs l where l: "run_log (\<lambda>_. [1]) (map L_Append [sid 1]) NewHashLog = Some (hs, l)"
    using run_log_ok [OF log_ok_new, of "\<lambda>_. [1]" "map L_Append [sid 1]"] by blast
  obtain hs' l' where l': "run_log (\<lambda>_. [1]) (map L_Append [sid 2]) NewHashLog = Some (hs', l')"
    using run_log_ok [OF log_ok_new, of "\<lambda>_. [1]" "map L_Append [sid 2]"] by blast
  have same: "last hs = last hs'"
    using run_log_appends [OF l] run_log_appends [OF l'] by (simp add: chain_def hash_def)
  have wf: "list_all wf_id [sid 1]" "list_all wf_id [sid 2]" by (simp_all add: wf_id_def sid_def is_i32_def)
  have "[sid 1] \<noteq> [sid 2]" by (simp add: sid_def)
  then have "collides (\<lambda>_. [1]) (hashed (\<lambda>_. [1]) zero_hash [sid 1] \<union> hashed (\<lambda>_. [1]) zero_hash [sid 2])"
    using checksum_certifies_history [OF l l' same _ _ wf] by simp
  with l l' same show ?thesis by blast
qed

text \<open>The comparison of checksums is one-sided: it says whether the lists have the same length and every
  hash of the first occurs in the second. So for a command on two keys, a replica that has not received
  a write the leader ordered before the command on the second key finds its checksums equal to the
  leader's in one direction of the comparison, and in the other direction only if two of the inputs that
  were hashed collide.\<close>

theorem checksums_compared_one_way:
  assumes "wf_id c" and "wf_id w"
  shows "(SHashesEq hs1 hs2 \<longleftrightarrow> length hs1 = length hs2 \<and> set hs1 \<subseteq> set hs2) \<and>
    (\<exists>h k1 k2 l l'.
       run_log sha [L_Append c] NewHashLog = Some ([h], l) \<and>
       run_log sha [L_Append w, L_Append c] NewHashLog = Some ([k1, k2], l') \<and>
       SHashesEq [h, h] [h, k2] \<and>
       (SHashesEq [h, k2] [h, h] \<longrightarrow> collides sha (hashed sha zero_hash [w, c] \<union> hashed sha zero_hash [c])))"
proof (intro conjI SHashesEq_iff)
  obtain h l where l: "run_log sha [L_Append c] NewHashLog = Some ([h], l)" "h = chain sha zero_hash [c]"
    using run_log_ok [OF log_ok_new, of sha "[L_Append c]"]
    by (auto simp: a_append_def a_new_def a_value_def Let_def)
  obtain k1 k2 l' where l': "run_log sha [L_Append w, L_Append c] NewHashLog = Some ([k1, k2], l')"
      "k2 = chain sha zero_hash [w, c]"
    using run_log_ok [OF log_ok_new, of sha "[L_Append w, L_Append c]"]
    by (auto simp: a_append_def a_new_def a_value_def Let_def)
  show "\<exists>h k1 k2 l l'.
       run_log sha [L_Append c] NewHashLog = Some ([h], l) \<and>
       run_log sha [L_Append w, L_Append c] NewHashLog = Some ([k1, k2], l') \<and>
       SHashesEq [h, h] [h, k2] \<and>
       (SHashesEq [h, k2] [h, h] \<longrightarrow> collides sha (hashed sha zero_hash [w, c] \<union> hashed sha zero_hash [c]))"
    using l l' chain_collision [of sha "[w, c]" "[c]"] assms
    by (intro exI [of _ h] exI [of _ k1] exI [of _ k2] exI [of _ l] exI [of _ l']) (auto simp: SHashesEq_iff)
qed

theorem checksums_compared_one_way_witness:
  "\<exists>h k1 k2 l l'.
     run_log rev [L_Append (sid 2)] NewHashLog = Some ([h], l) \<and>
     run_log rev [L_Append (sid 1), L_Append (sid 2)] NewHashLog = Some ([k1, k2], l') \<and>
     SHashesEq [h, h] [h, k2]"
proof -
  have "wf_id (sid 1)" "wf_id (sid 2)" by (simp_all add: wf_id_def sid_def is_i32_def)
  from checksums_compared_one_way [OF this(2,1), of "[]" "[]" rev] show ?thesis by blast
qed

end
