(* ===== verification/Swift_Keys.thy ===== *)
theory Swift_Keys
  imports Swift_Hash
begin

section \<open>Dependencies of a command\<close>

text \<open>
  How a SwiftPaxos replica finds the dependencies and the hashes of a command (\<open>src/swift/key.go\<close> and the
  end of \<open>src/swift/swift.go\<close>).

  \<^item> \<open>lightKeyInfo\<close> and \<open>fullKeyInfo\<close> are the two implementations of the interface \<open>keyInfo\<close>; the replica
    uses the first. The second keeps the last command of every client in a slice with an index per
    client; an index out of range is a panic (\<open>None\<close>).
  \<^item> \<open>sw_logs\<close> is the part of the replica's struct these operations work on; the replica's record extends
    it. The struct of a key is shared by pointer; here the maps are updated in place.
  \<^item> \<open>r.Fatal\<close> ends the process (\<open>None\<close>) if the logger is verbose, and does nothing otherwise. A slice of keys too long for the memory is not modelled: only a
    count that is negative as an \<open>int\<close> panics.
\<close>

subsection \<open>What is kept for a key\<close>

record lightKeyInfo =
  lastWrite :: "sw_CommandId list"
  lastCmd :: "sw_CommandId list"

definition newLightKeyInfo :: lightKeyInfo where
  "newLightKeyInfo = \<lparr>lastWrite = [], lastCmd = []\<rparr>"

definition light_add :: "command \<Rightarrow> sw_CommandId \<Rightarrow> lightKeyInfo \<Rightarrow> lightKeyInfo" where
  "light_add cmd c ki =
     (let ki = ki\<lparr>lastCmd := [c]\<rparr> in if Op cmd = PUT then ki\<lparr>lastWrite := [c]\<rparr> else ki)"

definition light_remove :: "sw_CommandId \<Rightarrow> lightKeyInfo \<Rightarrow> lightKeyInfo" where
  "light_remove c ki =
     (let ki = (if 0 < length (lastCmd ki) \<and> lastCmd ki ! 0 = c then ki\<lparr>lastCmd := []\<rparr> else ki)
      in if 0 < length (lastWrite ki) \<and> lastWrite ki ! 0 = c then ki\<lparr>lastWrite := []\<rparr> else ki)"

definition light_getConflictCmds :: "command \<Rightarrow> lightKeyInfo \<Rightarrow> sw_CommandId list" where
  "light_getConflictCmds cmd ki = (if Op cmd = GET then lastWrite ki else lastCmd ki)"

record fullKeyInfo =
  clientLastWrite :: "sw_CommandId list"
  clientLastCmd :: "sw_CommandId list"
  lastWriteIndex :: "int \<rightharpoonup> int"
  lastCmdIndex :: "int \<rightharpoonup> int"

definition newFullKeyInfo :: fullKeyInfo where
  "newFullKeyInfo = \<lparr>clientLastWrite = [], clientLastCmd = [], lastWriteIndex = Map.empty, lastCmdIndex = Map.empty\<rparr>"

text \<open>The two halves of \<open>add\<close> and of \<open>remove\<close> do the same to the two pairs of a slice and its index.\<close>

definition idx_add :: "sw_CommandId \<Rightarrow> sw_CommandId list \<times> (int \<rightharpoonup> int) \<Rightarrow> (sw_CommandId list \<times> (int \<rightharpoonup> int)) option" where
  "idx_add c si = (case si of (xs, idx) \<Rightarrow>
     (case idx (sw_ClientId c) of
        Some i \<Rightarrow> map_option (\<lambda>xs. (xs, idx)) (slice_set xs i c)
      | None \<Rightarrow> Some (xs @ [c], idx(sw_ClientId c \<mapsto> int (length xs)))))"

definition idx_remove :: "sw_CommandId \<Rightarrow> sw_CommandId list \<times> (int \<rightharpoonup> int) \<Rightarrow> (sw_CommandId list \<times> (int \<rightharpoonup> int)) option" where
  "idx_remove c si = (case si of (xs, idx) \<Rightarrow>
     (case idx (sw_ClientId c) of
        Some i \<Rightarrow> do {
          let lastIndex = int (length xs) - 1;
          lastId \<leftarrow> slice_get xs lastIndex;
          xs \<leftarrow> slice_set xs i lastId;
          Some (take (nat lastIndex) xs, idx(sw_ClientId lastId \<mapsto> i, sw_ClientId c := None))
        }
      | None \<Rightarrow> Some (xs, idx)))"

definition full_add :: "command \<Rightarrow> sw_CommandId \<Rightarrow> fullKeyInfo \<Rightarrow> fullKeyInfo option" where
  "full_add cmd c ki = do {
     (xs, idx) \<leftarrow> idx_add c (clientLastCmd ki, lastCmdIndex ki);
     let ki = ki\<lparr>clientLastCmd := xs, lastCmdIndex := idx\<rparr>;
     if Op cmd = PUT then do {
       (xs, idx) \<leftarrow> idx_add c (clientLastWrite ki, lastWriteIndex ki);
       Some (ki\<lparr>clientLastWrite := xs, lastWriteIndex := idx\<rparr>)
     } else Some ki
   }"

definition full_remove :: "command \<Rightarrow> sw_CommandId \<Rightarrow> fullKeyInfo \<Rightarrow> fullKeyInfo option" where
  "full_remove cmd c ki = do {
     (xs, idx) \<leftarrow> idx_remove c (clientLastCmd ki, lastCmdIndex ki);
     let ki = ki\<lparr>clientLastCmd := xs, lastCmdIndex := idx\<rparr>;
     if Op cmd = PUT then do {
       (xs, idx) \<leftarrow> idx_remove c (clientLastWrite ki, lastWriteIndex ki);
       Some (ki\<lparr>clientLastWrite := xs, lastWriteIndex := idx\<rparr>)
     } else Some ki
   }"

definition full_getConflictCmds :: "command \<Rightarrow> fullKeyInfo \<Rightarrow> sw_CommandId list" where
  "full_getConflictCmds cmd ki = (if Op cmd = GET then clientLastWrite ki else clientLastCmd ki)"

definition keysOf :: "command \<Rightarrow> key list option" where
  "keysOf cmd =
     (if Op cmd = SCAN then do {
        count \<leftarrow> scan_count cmd;
        if count < 0 then None else Some (map (\<lambda>i. i64 (K cmd + int i)) [0..<nat count])
      } else Some [K cmd])"

subsection \<open>Dependencies and hashes\<close>

record sw_logs =
  keys :: "key \<rightharpoonup> lightKeyInfo"
  hlog :: "key \<rightharpoonup> HashLog"
  pendingHashUpds :: "sw_CommandId \<rightharpoonup> UpdateEntry"
  sw_proposes :: "sw_CommandId \<rightharpoonup> GPropose"
  sw_verbose :: bool

definition the_log :: "key \<Rightarrow> 'a sw_logs_scheme \<Rightarrow> HashLog" where
  "the_log k r = (case hlog r k of Some l \<Rightarrow> l | None \<Rightarrow> NewHashLog)"

definition the_info :: "key \<Rightarrow> 'a sw_logs_scheme \<Rightarrow> lightKeyInfo" where
  "the_info k r = (case keys r k of Some ki \<Rightarrow> ki | None \<Rightarrow> newLightKeyInfo)"

text \<open>One round of the loop over the keys; the conflicting commands of a key that has no struct yet are
  none, as a new struct would say.\<close>

definition key_deps ::
    "(byte list \<Rightarrow> SHash) \<Rightarrow> command \<Rightarrow> sw_CommandId \<Rightarrow> key \<Rightarrow> 'a sw_logs_scheme \<Rightarrow>
     (sw_CommandId list \<times> SHash \<times> 'a sw_logs_scheme) option" where
  "key_deps sha cmd c k r = do {
     let cdep = (case keys r k of Some ki \<Rightarrow> light_getConflictCmds cmd ki | None \<Rightarrow> []);
     let r = r\<lparr>keys := (keys r)(k \<mapsto> light_add cmd c (the_info k r))\<rparr>;
     (h, l) \<leftarrow> Append sha c (the_log k r);
     Some (cdep, h, r\<lparr>hlog := (hlog r)(k \<mapsto> l)\<rparr>)
   }"

fun deps_loop ::
    "(byte list \<Rightarrow> SHash) \<Rightarrow> command \<Rightarrow> sw_CommandId \<Rightarrow> key list \<Rightarrow> 'a sw_logs_scheme \<Rightarrow>
     (sw_CommandId list \<times> SHash list \<times> 'a sw_logs_scheme) option" where
  "deps_loop sha cmd c [] r = Some ([], [], r)"
| "deps_loop sha cmd c (k # ks) r = do {
     (cdep, h, r) \<leftarrow> key_deps sha cmd c k r;
     (dep, hs, r) \<leftarrow> deps_loop sha cmd c ks r;
     Some (cdep @ dep, h # hs, r)
   }"

definition getDepAndHashes ::
    "(byte list \<Rightarrow> SHash) \<Rightarrow> command \<Rightarrow> sw_CommandId \<Rightarrow> 'a sw_logs_scheme \<Rightarrow>
     (sw_CommandId list \<times> SHash list \<times> 'a sw_logs_scheme) option" where
  "getDepAndHashes sha cmd c r = do { ks \<leftarrow> keysOf cmd; deps_loop sha cmd c ks r }"

fun update_loop ::
    "(byte list \<Rightarrow> SHash) \<Rightarrow> sw_CommandId \<Rightarrow> int \<Rightarrow> key list \<Rightarrow> SHash list \<Rightarrow> 'a sw_logs_scheme \<Rightarrow>
     'a sw_logs_scheme option" where
  "update_loop sha c s [] hs r = Some r"
| "update_loop sha c s (k # ks) [] r = None"
| "update_loop sha c s (k # ks) (h # hs) r = do {
     l \<leftarrow> Update sha c s h (the_log k r);
     update_loop sha c s ks hs (r\<lparr>hlog := (hlog r)(k \<mapsto> l)\<rparr>)
   }"

definition updateLogs ::
    "(byte list \<Rightarrow> SHash) \<Rightarrow> command \<Rightarrow> sw_CommandId \<Rightarrow> int \<Rightarrow> SHash list \<Rightarrow> 'a sw_logs_scheme \<Rightarrow>
     'a sw_logs_scheme option" where
  "updateLogs sha cmd c s hs r = do {
     ks \<leftarrow> keysOf cmd;
     if length ks \<noteq> length hs \<and> sw_verbose r then None else update_loop sha c s ks hs r
   }"

definition recordLeaderHash ::
    "(byte list \<Rightarrow> SHash) \<Rightarrow> sw_CommandId \<Rightarrow> int \<Rightarrow> SHash list \<Rightarrow> 'a sw_logs_scheme \<Rightarrow>
     'a sw_logs_scheme option" where
  "recordLeaderHash sha c s hs r =
     (case sw_proposes r c of
        None \<Rightarrow> Some (r\<lparr>pendingHashUpds := (pendingHashUpds r)(c \<mapsto> \<lparr>ue_hash = hs, ue_seqnum = s\<rparr>)\<rparr>)
      | Some p \<Rightarrow> updateLogs sha (p_Command (Propose p)) c s hs r)"

subsection \<open>Runs\<close>

text \<open>The dependencies of a sequence of commands, in the order a replica receives them.\<close>

definition new_logs :: sw_logs where
  "new_logs = \<lparr>keys = Map.empty, hlog = Map.empty, pendingHashUpds = Map.empty, sw_proposes = Map.empty, sw_verbose = True\<rparr>"

fun run_deps ::
    "(byte list \<Rightarrow> SHash) \<Rightarrow> (command \<times> sw_CommandId) list \<Rightarrow> 'a sw_logs_scheme \<Rightarrow>
     (sw_CommandId list list \<times> 'a sw_logs_scheme) option" where
  "run_deps sha [] r = Some ([], r)"
| "run_deps sha ((cmd, c) # cs) r = do {
     (dep, hs, r) \<leftarrow> getDepAndHashes sha cmd c r;
     (ds, r) \<leftarrow> run_deps sha cs r;
     Some (dep # ds, r)
   }"

fun depends :: "(command \<times> sw_CommandId) list \<Rightarrow> sw_CommandId list list \<Rightarrow> (sw_CommandId \<times> sw_CommandId) set" where
  "depends ((cmd, c) # cs) (dep # ds) = {c} \<times> set dep \<union> depends cs ds"
| "depends _ _ = {}"

subsection \<open>The keys of a command\<close>

lemma i64_shift_inj:
  assumes "is_i64 k" and "i64 (k + int i) = i64 (k + int j)" and "int i < 9223372036854775808"
    and "int j < 9223372036854775808"
  shows "i = j"
proof -
  have "(k + int i) mod 2 ^ 64 = (k + int j) mod 2 ^ 64"
    using assms(2) signed_take_bit_eq_iff_take_bit_eq [of 63 "k + int i" "k + int j"]
    by (simp add: i64_def take_bit_eq_mod)
  then have "(k + int i - k) mod 2 ^ 64 = (k + int j - k) mod 2 ^ 64" by (rule mod_diff_cong) simp
  with assms(3,4) show ?thesis by simp
qed

lemma keysOf_distinct:
  assumes "keysOf cmd = Some ks" and "is_i64 (K cmd)"
  shows "distinct ks"
proof (cases "Op cmd = SCAN")
  case True
  with assms(1) obtain n where n: "scan_count cmd = Some n" "\<not> n < 0" "ks = map (\<lambda>i. i64 (K cmd + int i)) [0..<nat n]"
    by (auto simp: keysOf_def split: if_splits Option.bind_splits)
  from is_i64_scan_count [OF n(1)] n(2) show ?thesis
    unfolding n(3) by (auto simp: distinct_map inj_on_def is_i64_def intro!: i64_shift_inj [OF assms(2)])
qed (use assms(1) in \<open>auto simp: keysOf_def\<close>)

subsection \<open>What the loop over the keys does\<close>

lemma key_deps_keys:
  assumes "key_deps sha cmd c k r = Some (cdep, h, r')"
  shows "keys r' = (keys r)(k \<mapsto> light_add cmd c (the_info k r))"
    "cdep = light_getConflictCmds cmd (the_info k r)"
  using assms
  by (auto simp: key_deps_def the_info_def newLightKeyInfo_def light_getConflictCmds_def Let_def
      split: option.splits if_splits Option.bind_splits)

lemma deps_loop_keys:
  "deps_loop sha cmd c ks r = Some (dep, hs, r') \<Longrightarrow> distinct ks \<Longrightarrow>
     (\<forall>k. keys r' k = (if k \<in> set ks then Some (light_add cmd c (the_info k r)) else keys r k)) \<and>
     set dep = (\<Union>k \<in> set ks. set (light_getConflictCmds cmd (the_info k r))) \<and> length hs = length ks"
proof (induction ks arbitrary: r dep hs)
  case (Cons k ks)
  from Cons.prems(1) obtain cdep h r1 dep1 hs1 where
    1: "key_deps sha cmd c k r = Some (cdep, h, r1)" "deps_loop sha cmd c ks r1 = Some (dep1, hs1, r')"
    and e: "dep = cdep @ dep1" "hs = h # hs1"
    by (auto simp: Option.bind_eq_Some_conv)
  note k = key_deps_keys [OF 1(1)]
  have same: "the_info k' r1 = the_info k' r" if "k' \<in> set ks" for k'
    using that Cons.prems(2) k(1) by (auto simp: the_info_def)
  from Cons.IH [OF 1(2)] Cons.prems(2) k e same show ?case by auto
qed simp

subsection \<open>Earlier writes are covered\<close>

text \<open>\<open>P\<close> is the set of keys written so far with the ids of the commands that wrote them, \<open>E\<close> the
  dependencies so far.\<close>

definition covers :: "(key \<times> sw_CommandId) set \<Rightarrow> (sw_CommandId \<times> sw_CommandId) set \<Rightarrow> 'a sw_logs_scheme \<Rightarrow> bool" where
  "covers P E r \<longleftrightarrow>
     (\<forall>(k, p) \<in> P. \<exists>w c. keys r k = Some \<lparr>lastWrite = [w], lastCmd = [c]\<rparr> \<and> (w, p) \<in> E\<^sup>* \<and> (c, p) \<in> E\<^sup>*)"

definition write_ids :: "command \<Rightarrow> sw_CommandId \<Rightarrow> (key \<times> sw_CommandId) set" where
  "write_ids cmd c = (if Op cmd = PUT then {(K cmd, c)} else {})"

lemma getDepAndHashes_covers:
  assumes "covers P E r" and "getDepAndHashes sha cmd c r = Some (dep, hs, r')" and "is_i64 (K cmd)"
  shows "covers (P \<union> write_ids cmd c) (E \<union> {c} \<times> set dep) r' \<and>
    (\<forall>(k, p) \<in> P. \<forall>ks. keysOf cmd = Some ks \<longrightarrow> k \<in> set ks \<longrightarrow> (c, p) \<in> (E \<union> {c} \<times> set dep)\<^sup>+)"
proof -
  let ?E = "E \<union> {c} \<times> set dep"
  from assms(2) obtain ks where ks: "keysOf cmd = Some ks" "deps_loop sha cmd c ks r = Some (dep, hs, r')"
    by (auto simp: getDepAndHashes_def Option.bind_eq_Some_conv)
  note d = deps_loop_keys [OF ks(2) keysOf_distinct [OF ks(1) assms(3)]]
  have mono: "E\<^sup>* \<subseteq> ?E\<^sup>*" by (rule rtrancl_mono) auto
  have reach: "(c, p) \<in> ?E\<^sup>+" if "(k, p) \<in> P" "k \<in> set ks" for k p
  proof -
    from assms(1) that(1) obtain w a where i: "keys r k = Some \<lparr>lastWrite = [w], lastCmd = [a]\<rparr>"
        "(w, p) \<in> E\<^sup>*" "(a, p) \<in> E\<^sup>*" by (fastforce simp: covers_def)
    moreover have "set (light_getConflictCmds cmd (the_info k r)) \<subseteq> set dep"
      using d that(2) by blast
    ultimately have "w \<in> set dep \<or> a \<in> set dep"
      by (auto simp: the_info_def light_getConflictCmds_def split: if_splits)
    with i mono show ?thesis by (blast intro: rtrancl_into_trancl2)
  qed
  have "\<exists>w a. keys r' k = Some \<lparr>lastWrite = [w], lastCmd = [a]\<rparr> \<and> (w, p) \<in> ?E\<^sup>* \<and> (a, p) \<in> ?E\<^sup>*"
    if kp: "(k, p) \<in> P \<union> write_ids cmd c" for k p
  proof (cases "(k, p) \<in> P")
    case True
    with assms(1) obtain w a where i: "keys r k = Some \<lparr>lastWrite = [w], lastCmd = [a]\<rparr>"
        "(w, p) \<in> E\<^sup>*" "(a, p) \<in> E\<^sup>*" by (fastforce simp: covers_def)
    show ?thesis
    proof (cases "k \<in> set ks")
      case in_ks: True
      with reach [OF True] have "(c, p) \<in> ?E\<^sup>*" by (simp add: trancl_into_rtrancl)
      with in_ks d i mono show ?thesis by (auto simp: the_info_def light_add_def Let_def)
    next
      case False
      with d i mono show ?thesis by auto
    qed
  next
    case False
    with kp have w: "Op cmd = PUT" "k = K cmd" "p = c" by (auto simp: write_ids_def split: if_splits)
    with ks(1) d have "keys r' k = Some \<lparr>lastWrite = [c], lastCmd = [c]\<rparr>"
      by (cases "the_info (K cmd) r") (auto simp: keysOf_def light_add_def Let_def)
    with w(3) show ?thesis by blast
  qed
  with reach ks(1) show ?thesis by (fastforce simp: covers_def)
qed

lemma covers_mono: "covers P E r \<Longrightarrow> E \<subseteq> E' \<Longrightarrow> covers P E' r"
  unfolding covers_def by (blast dest: rtrancl_mono)

fun all_writes :: "(command \<times> sw_CommandId) list \<Rightarrow> (key \<times> sw_CommandId) set" where
  "all_writes [] = {}"
| "all_writes ((cmd, c) # cs) = write_ids cmd c \<union> all_writes cs"

lemma run_deps_covers:
  "covers P E r \<Longrightarrow> run_deps sha cs r = Some (ds, r') \<Longrightarrow> \<forall>(cmd, c) \<in> set cs. is_i64 (K cmd) \<Longrightarrow>
     covers (P \<union> all_writes cs) (E \<union> depends cs ds) r'"
proof (induction sha cs r arbitrary: P E ds rule: run_deps.induct)
  case (2 sha cmd c cs r)
  from "2.prems"(2) obtain dep hs r1 ds1 where
    1: "getDepAndHashes sha cmd c r = Some (dep, hs, r1)" "run_deps sha cs r1 = Some (ds1, r')" "ds = dep # ds1"
    by (auto simp: Option.bind_eq_Some_conv)
  from getDepAndHashes_covers [OF "2.prems"(1) 1(1)] "2.prems"(3)
  have "covers (P \<union> write_ids cmd c) (E \<union> {c} \<times> set dep) r1" by simp
  from "2.IH" [OF 1(1) refl refl this 1(2)] "2.prems"(3) 1(3) show ?case
    by (simp add: Un_assoc)
qed simp

lemma run_deps_append:
  "run_deps sha (cs @ cs') r = Some (ds, r') \<Longrightarrow>
     \<exists>ds1 ds2 r1. run_deps sha cs r = Some (ds1, r1) \<and> run_deps sha cs' r1 = Some (ds2, r') \<and> ds = ds1 @ ds2 \<and>
       length ds1 = length cs"
proof (induction cs arbitrary: r ds)
  case (Cons a cs)
  obtain cmd c where a: "a = (cmd, c)" by (cases a)
  from Cons.prems obtain dep hs r1 ds1 where
    1: "getDepAndHashes sha cmd c r = Some (dep, hs, r1)" "run_deps sha (cs @ cs') r1 = Some (ds1, r')" "ds = dep # ds1"
    by (auto simp: a Option.bind_eq_Some_conv)
  from Cons.IH [OF 1(2)] 1 a show ?case by (auto simp: Option.bind_eq_Some_conv)
qed simp

lemma depends_append: "length ds = length cs \<Longrightarrow> depends (cs @ cs') (ds @ ds') = depends cs ds \<union> depends cs' ds'"
proof (induction cs arbitrary: ds)
  case (Cons a cs)
  then show ?case by (cases a; cases ds) auto
qed simp

lemma all_writes_member: "(cmd, c) \<in> set cs \<Longrightarrow> Op cmd = PUT \<Longrightarrow> (K cmd, c) \<in> all_writes cs"
  by (induction cs rule: all_writes.induct) (auto simp: write_ids_def)

subsection \<open>Properties\<close>

text \<open>C18. Writes are ordered before everything that comes after them: in any sequence of commands a replica
  receives, a command whose keys include the key of an earlier write depends on that write, directly or
  through other commands, although only the last command and the last write of a key are remembered.\<close>

theorem dependencies_cover_writes:
  assumes "run_deps sha cs new_logs = Some (ds, r)" and "\<forall>(cmd, c) \<in> set cs. is_i64 (K cmd)"
    and "i < j" and "j < length cs" and "cs ! i = (w, a)" and "cs ! j = (cmd, b)" and "Op w = PUT"
    and "keysOf cmd = Some ks" and "K w \<in> set ks"
  shows "(b, a) \<in> (depends cs ds)\<^sup>+"
proof -
  let ?xs = "take j cs" and ?zs = "drop (Suc j) cs"
  have cs: "cs = ?xs @ (cmd, b) # ?zs" using assms(4,6) by (metis id_take_nth_drop)
  with run_deps_append [of sha ?xs "(cmd, b) # ?zs" new_logs] assms(1) obtain ds1 ds2 r1 where
    1: "run_deps sha ?xs new_logs = Some (ds1, r1)" "run_deps sha ((cmd, b) # ?zs) r1 = Some (ds2, r)"
       "ds = ds1 @ ds2" "length ds1 = length ?xs" by auto
  from 1(2) obtain dep hs r2 ds3 where
    2: "getDepAndHashes sha cmd b r1 = Some (dep, hs, r2)" "ds2 = dep # ds3"
    by (auto simp: Option.bind_eq_Some_conv)
  have "\<forall>(cmd, c) \<in> set ?xs. is_i64 (K cmd)" using assms(2) set_take_subset by fast
  with run_deps_covers [OF _ 1(1), of "{}" "{}"]
  have cov: "covers (all_writes ?xs) (depends ?xs ds1) r1" by (simp add: covers_def)
  have "(w, a) \<in> set ?xs"
    using assms(3-5) by (metis length_take min.absorb4 nth_mem nth_take order.strict_implies_order)
  then have "(K w, a) \<in> all_writes ?xs" using assms(7) by (rule all_writes_member)
  moreover have "is_i64 (K cmd)" using assms(2,4,6) nth_mem by fastforce
  ultimately have "(b, a) \<in> (depends ?xs ds1 \<union> {b} \<times> set dep)\<^sup>+"
    using getDepAndHashes_covers [OF cov 2(1)] assms(8,9) by fast
  moreover have "depends ?xs ds1 \<union> {b} \<times> set dep \<subseteq> depends cs ds"
    using depends_append [OF 1(4), of "(cmd, b) # ?zs" ds2] cs 1(3) 2(2) by auto
  ultimately show ?thesis by (rule trancl_mono)
qed

definition the_write :: "command \<times> sw_CommandId" where
  "the_write = (\<lparr>Op = PUT, K = 7, V = [], CL = 0, Sid = 0\<rparr>, sid 1)"

definition the_read :: "int \<Rightarrow> command \<times> sw_CommandId" where
  "the_read n = (\<lparr>Op = GET, K = 7, V = [], CL = 0, Sid = 0\<rparr>, sid n)"

text \<open>A scan of the keys 6 and 7: its count is 1.\<close>

definition the_scan :: "command \<times> sw_CommandId" where
  "the_scan = (\<lparr>Op = SCAN, K = 6, V = [1, 0, 0, 0, 0, 0, 0, 0], CL = 0, Sid = 0\<rparr>, sid 2)"

theorem dependencies_cover_writes_witness:
  "(sid 3, sid 1) \<in> (depends [the_write, the_read 2, the_read 3] [[], [sid 1], [sid 1]])\<^sup>+"
proof -
  let ?cs = "[the_write, the_read 2, the_read 3]"
  have "map_option fst (run_deps rev ?cs new_logs) = Some [[], [sid 1], [sid 1]]" by code_simp
  then obtain r where r: "run_deps rev ?cs new_logs = Some ([[], [sid 1], [sid 1]], r)" by auto
  show ?thesis
    by (rule dependencies_cover_writes [OF r, of 0 2 "fst the_write" _ "fst (the_read 3)" _ "[7]"])
      (simp_all add: the_write_def the_read_def keysOf_def is_i64_def)
qed

text \<open>C19. Not every conflict becomes a dependency. Of two reads and a later write of the same key the
  first read stays unordered with the write, since only the last command on the key is remembered; and
  a scan does not depend on an earlier write of the last key of its range, which it reads, since the keys
  of a scan are counted one short.\<close>

theorem conflicts_without_dependency:
  "(\<exists>ds r. run_deps sha [the_read 1, the_read 2, (fst the_write, sid 3)] new_logs = Some (ds, r) \<and>
      Conflict (fst (the_read 1)) (fst the_write) = Some True \<and>
      (sid 3, sid 1) \<notin> (depends [the_read 1, the_read 2, (fst the_write, sid 3)] ds)\<^sup>+) \<and>
   (\<exists>ds r. run_deps sha [the_write, the_scan] new_logs = Some (ds, r) \<and>
      Conflict (fst the_write) (fst the_scan) = Some True \<and>
      (snd the_scan, snd the_write) \<notin> (depends [the_write, the_scan] ds)\<^sup>+)"
proof (intro conjI)
  have 1: "map_option fst (run_deps sha [the_read 1, the_read 2, (fst the_write, sid 3)] new_logs) = Some [[], [], [sid 2]]"
    by code_simp
  have 2: "map_option fst (run_deps sha [the_write, the_scan] new_logs) = Some [[], []]"
    by code_simp
  have "trans {(sid 3, sid 2)}" by (auto simp: trans_def sid_def)
  moreover have "Conflict (fst (the_read 1)) (fst the_write) = Some True" by code_simp
  ultimately show "\<exists>ds r. run_deps sha [the_read 1, the_read 2, (fst the_write, sid 3)] new_logs = Some (ds, r) \<and>
      Conflict (fst (the_read 1)) (fst the_write) = Some True \<and>
      (sid 3, sid 1) \<notin> (depends [the_read 1, the_read 2, (fst the_write, sid 3)] ds)\<^sup>+"
    using 1 by (auto simp: the_read_def sid_def trancl_id)
  have "Conflict (fst the_write) (fst the_scan) = Some True" by code_simp
  with 2 show "\<exists>ds r. run_deps sha [the_write, the_scan] new_logs = Some (ds, r) \<and>
      Conflict (fst the_write) (fst the_scan) = Some True \<and>
      (snd the_scan, snd the_write) \<notin> (depends [the_write, the_scan] ds)\<^sup>+"
    by (auto simp: the_write_def the_scan_def)
qed

end
