(* ===== verification/Swift.thy ===== *)
theory Swift
  imports Swift_Keys Msg_Set Hook
begin

section \<open>The SwiftPaxos replica\<close>

text \<open>
  The replica of \<open>src/swift/swift.go\<close> with its reply channel (\<open>src/swift/replychan.go\<close>) and its batcher
  (\<open>src/swift/batcher.go\<close>).

  \<^item> \<open>sw\<close> is the struct \<open>Replica\<close>. The concurrent maps are maps; their keys are the command ids the code
    prints as strings.
  \<^item> Descriptors are objects that the code shares by pointer: they live in a heap, \<open>desc_at\<close>, of which the
    addresses below \<open>n_descs\<close> are allocated. \<open>cmdDescs\<close> maps a command to the address of its descriptor,
    and the pool holds addresses. A \<open>sync.Pool\<close> may return any object it holds or a new one: what it
    returns at the \<open>n\<close>-th allocation is given by \<open>pool_choice\<close>, which nothing below depends on.
  \<^item> The deferred calls of \<open>afterPropagate\<close> all run the function of \<open>fastAckFromLeader\<close>, so the hook is the
    list of the messages they were made with (the pending functions of theory Hook).
  \<^item> What the replica sends is appended to \<open>s_out\<close>, and so are two entries without a counterpart in the
    code: \<open>Claimed\<close> when a command is put into \<open>delivered\<close>, with the dependencies it has, and \<open>Executed\<close>
    when it is executed.
  \<^item> \<open>deliver\<close> first marks a command as delivered and then executes it, and goroutines of other descriptors,
    or the event loop, may run in between. A handler is therefore a process \<open>sw_proc\<close>: it ends, or pauses in
    \<open>P_Gap\<close> with a state and the rest of its work, which is later applied to the state it then finds. In \<open>P_Join\<close>
    the event loop waits until no goroutine of a descriptor is at work. Apart from these pauses a round of
    the event loop, of a descriptor's goroutine, of the reply goroutine and of the batcher is one step each.
    Channels are queues without a bound; the goroutines that only send on a channel are
    elements of its queue, taken in any order. A handler on the event loop that waits for the reply
    goroutine runs the rounds it waits for.
  \<^item> Acknowledgements are new objects: the pool for them is used for pool levels above 1 only, which the
    model leaves out.
  \<^item> \<open>None\<close> and \<open>P_Panic\<close> are a panic, the end of the process, or a handler that never returns.
\<close>

subsection \<open>State\<close>

datatype sw_msg = S_Propose GPropose | S_FastAck MFastAck | S_LightSlowAck MLightSlowAck | S_Deliver | S_Slot int

record sw_desc =
  ds_phase :: int
  ds_cmd :: command
  ds_dep :: Dep
  ds_hs :: "SHash slice"
  ds_propose :: "GPropose option"
  ds_proposeDep :: Dep
  slowPathH :: "MFastAck MsgSet"
  fastPathH :: "MFastAck MsgSet"
  afterPropagate :: "MFastAck list"
  ds_msgs :: "sw_msg list"
  ds_active :: bool
  ds_slowPath :: bool
  ds_seq :: bool
  successors :: "sw_CommandId list"

record sw_static =
  sh_cmdId :: sw_CommandId
  sh_phase :: int
  sh_cmd :: command
  sh_dep :: Dep
  sh_slowPath :: bool

record replyArgs =
  ra_hs :: "SHash list"
  ra_val :: val
  ra_cmdId :: sw_CommandId
  ra_finish :: nat
  ra_propose :: GPropose

datatype sw_client_msg = C_FastAckClient MFastAckClient | C_LightSlowAck MLightSlowAck | C_Reply MReply | C_Accept MAccept

datatype sw_out =
    ToAll_Acks MAcks
  | ToAll_OptAcks MOptAcks
  | ToAll_NewLeader MNewLeader
  | ToAll_Sync MSync
  | To_NewLeaderAckN int MNewLeaderAckN
  | ToClient int sw_client_msg
  | Claimed sw_CommandId Dep
  | Executed sw_CommandId command

record sw = sw_logs +
  sId :: int
  sN :: int
  sExec :: bool
  sDreply :: bool
  s_ballot :: int
  s_cballot :: int
  s_status :: sw_status
  s_cmdDescs :: "sw_CommandId \<rightharpoonup> nat"
  s_delivered :: "sw_CommandId set"
  bat_fast :: "(MFastAck \<times> int option) list"
  bat_light :: "(MLightSlowAck \<times> int option) list"
  rep_args :: "replyArgs list"
  rep_alive :: bool
  s_seqnum :: int
  s_history :: "int \<Rightarrow> sw_static"
  s_historySize :: int
  s_qs :: QuorumSystem
  s_SQ :: quorum_i
  s_FQ :: quorum_i
  fixedMajority :: bool
  optExec :: bool
  fastRead :: bool
  s_deliverChan :: "sw_CommandId list"
  s_proposeChan :: "GPropose list"
  s_pool :: "nat list"
  s_poolLevel :: int
  s_routineCount :: int
  s_maxDescRoutines :: int
  s_recover :: "int list"
  newLeaderAckNs :: "MNewLeaderAckN MsgSet option"
  slowAddrs :: "string set"
  desc_at :: "nat \<Rightarrow> sw_desc"
  n_descs :: nat
  pool_choice :: "nat \<Rightarrow> nat option"
  n_allocs :: nat
  sState :: kv_state
  s_out :: "sw_out list"

definition upd_desc :: "nat \<Rightarrow> (sw_desc \<Rightarrow> sw_desc) \<Rightarrow> sw \<Rightarrow> sw" where
  "upd_desc a f r = r\<lparr>desc_at := (desc_at r)(a := f (desc_at r a))\<rparr>"

definition emit :: "sw_out \<Rightarrow> sw \<Rightarrow> sw" where
  "emit x r = r\<lparr>s_out := s_out r @ [x]\<rparr>"

definition leader :: "sw \<Rightarrow> int" where
  "leader r = Leader (s_ballot r) (sN r)"

text \<open>The callback of both collectors.\<close>

definition acceptFastAndSlowAck :: "MFastAck \<Rightarrow> MFastAck option \<Rightarrow> bool" where
  "acceptFastAndSlowAck fastAck lm =
     (case lm of
        None \<Rightarrow> True
      | Some leaderFastAck \<Rightarrow>
          fa_Dep fastAck = None \<or> Dep_Equals (elems (fa_Dep leaderFastAck)) (elems (fa_Dep fastAck)))"

definition zero_desc :: sw_desc where
  "zero_desc = \<lparr>ds_phase = SW_START, ds_cmd = zero_command, ds_dep = None, ds_hs = None, ds_propose = None,
     ds_proposeDep = None, slowPathH = NewMsgSet (NewMajorityOf 0) acceptFastAndSlowAck,
     fastPathH = NewMsgSet (NewMajorityOf 0) acceptFastAndSlowAck, afterPropagate = [], ds_msgs = [],
     ds_active = False, ds_slowPath = False, ds_seq = False, successors = []\<rparr>"

definition zero_static :: sw_static where
  "zero_static = \<lparr>sh_cmdId = zero_id, sh_phase = SW_START, sh_cmd = zero_command, sh_dep = None, sh_slowPath = False\<rparr>"

text \<open>\<open>New\<close>, with the quorum file as \<open>NewQuorumSystem\<close> has read it and whether it asks for three quarters.
  Without a quorum file the first ballot is 0. \<open>maxDesc\<close> is the variable \<open>MaxDescRoutines\<close>, which the
  configuration may set.\<close>

definition New_sw ::
    "int \<Rightarrow> nat \<Rightarrow> bool \<Rightarrow> bool \<Rightarrow> bool \<Rightarrow> int \<Rightarrow> quorum_file option \<Rightarrow> bool \<Rightarrow> string list \<Rightarrow> bool \<Rightarrow>
     (nat \<Rightarrow> nat option) \<Rightarrow> int \<Rightarrow> sw option" where
  "New_sw i n exec fastread optexec pl qfile threeQuarters slow verbose choice maxDesc = do {
     let qs = NewQuorumSystem (int n sdiv 2 + 1) n qfile;
     let b = (if BallotAt qs 0 = -1 then 0 else BallotAt qs 0);
     fq \<leftarrow> (if threeQuarters then Some (NewThreeQuartersOf (int n))
            else map_option Quorum (AQ (qs_sets qs) b));
     Some \<lparr>keys = Map.empty, hlog = Map.empty, pendingHashUpds = Map.empty, sw_proposes = Map.empty,
       sw_verbose = verbose, sId = i, sN = int n, sExec = exec, sDreply = True, s_ballot = b, s_cballot = b,
       s_status = SW_NORMAL, s_cmdDescs = Map.empty, s_delivered = {}, bat_fast = [], bat_light = [],
       rep_args = [], rep_alive = True, s_seqnum = 0, s_history = (\<lambda>_. zero_static), s_historySize = 0,
       s_qs = qs, s_SQ = NewMajorityOf (int n), s_FQ = fq, fixedMajority = (\<not> threeQuarters),
       optExec = optexec, fastRead = fastread, s_deliverChan = [], s_proposeChan = [], s_pool = [],
       s_poolLevel = pl, s_routineCount = 0, s_maxDescRoutines = maxDesc, s_recover = [], newLeaderAckNs = None, slowAddrs = set slow,
       desc_at = (\<lambda>_. zero_desc), n_descs = 0, pool_choice = choice, n_allocs = 0, sState = InitState, s_out = []\<rparr>
   }"

subsection \<open>Descriptors\<close>

text \<open>The address \<open>allocDesc\<close> returns.\<close>

definition allocDesc_sw :: "sw \<Rightarrow> nat \<times> sw" where
  "allocDesc_sw r =
     (let n = n_allocs r; r = r\<lparr>n_allocs := Suc n\<rparr>
      in case pool_choice r n of
           Some k \<Rightarrow>
             if 0 < s_poolLevel r \<and> k < length (s_pool r)
             then (s_pool r ! k, r\<lparr>s_pool := take k (s_pool r) @ drop (Suc k) (s_pool r)\<rparr>)
             else (n_descs r, r\<lparr>desc_at := (desc_at r)(n_descs r := zero_desc), n_descs := Suc (n_descs r)\<rparr>)
         | None \<Rightarrow> (n_descs r, r\<lparr>desc_at := (desc_at r)(n_descs r := zero_desc), n_descs := Suc (n_descs r)\<rparr>))"

definition freeDesc_sw :: "nat \<Rightarrow> sw \<Rightarrow> sw" where
  "freeDesc_sw a r = (if 0 < s_poolLevel r then r\<lparr>s_pool := a # s_pool r\<rparr> else r)"

definition newDesc_sw :: "sw \<Rightarrow> nat \<times> sw" where
  "newDesc_sw r =
     (let (a, r) = allocDesc_sw r
      in (a, upd_desc a (\<lambda>d. d\<lparr>ds_dep := None, ds_hs := None, ds_msgs := [], ds_active := True, ds_phase := SW_START,
             successors := [], ds_slowPath := False, ds_seq := (s_maxDescRoutines r \<le> s_routineCount r),
             ds_propose := None, ds_proposeDep := None, afterPropagate := [],
             slowPathH := ReinitMsgSet (Some (slowPathH d)) (s_SQ r) acceptFastAndSlowAck,
             fastPathH := ReinitMsgSet (Some (fastPathH d)) (s_FQ r) acceptFastAndSlowAck\<rparr>) r))"

text \<open>The callback of \<open>Upsert\<close>, its deferred part included: the descriptor of a command that has not been
  delivered.\<close>

definition upsert_sw :: "sw_CommandId \<Rightarrow> Dep \<Rightarrow> SHash slice \<Rightarrow> bool \<Rightarrow> sw \<Rightarrow> nat \<times> sw" where
  "upsert_sw c dep hs seq r =
     (let (a, r) =
        (case s_cmdDescs r c of
           Some a \<Rightarrow> (a, r)
         | None \<Rightarrow>
             let (a, r) = newDesc_sw r;
                 r = upd_desc a (\<lambda>d. d\<lparr>ds_seq := (seq \<or> ds_seq d)\<rparr>) r;
                 r = (if ds_seq (desc_at r a) then r else r\<lparr>s_routineCount := i64 (s_routineCount r + 1)\<rparr>)
             in (a, r\<lparr>s_cmdDescs := (s_cmdDescs r)(c \<mapsto> a)\<rparr>))
      in (a, if dep \<noteq> None \<and> ds_proposeDep (desc_at r a) = None
             then upd_desc a (\<lambda>d. d\<lparr>ds_proposeDep := dep, ds_hs := (if hs \<noteq> None then hs else ds_hs d)\<rparr>) r
             else r))"

text \<open>\<open>getCmdDesc\<close> without a message.\<close>

definition find_desc :: "sw_CommandId \<Rightarrow> sw \<Rightarrow> nat option \<times> sw" where
  "find_desc c r = (if c \<in> s_delivered r then (None, r) else apfst Some (upsert_sw c None None False r))"

subsection \<open>Replies\<close>

text \<open>One round of the goroutine of \<open>NewReplyChan\<close>.\<close>

definition rep_step :: "sw \<Rightarrow> sw" where
  "rep_step r =
     (case rep_args r of
        [] \<Rightarrow> r
      | x # xs \<Rightarrow>
          let r = r\<lparr>rep_args := xs\<rparr>;
              client = p_ClientId (Propose (ra_propose x));
              r = (if Proxy (ra_propose x) \<and> \<not> optExec r
                   then emit (ToClient client (C_Accept \<lparr>mc_Replica = sId r, mc_Ballot = s_ballot r,
                          mc_CmdId = ra_cmdId x, mc_Rep = ra_val x\<rparr>)) r
                   else if optExec r \<and> sId r = leader r
                   then emit (ToClient client (C_Reply \<lparr>mr_Replica = sId r, mr_Ballot = s_ballot r,
                          mr_CmdId = ra_cmdId x, mr_Checksum = Some (ra_hs x), mr_Rep = ra_val x\<rparr>)) r
                   else r);
              r = r\<lparr>s_historySize := s_historySize r smod sw_HISTORY_SIZE + 1\<rparr>
          in upd_desc (ra_finish x) (\<lambda>d. d\<lparr>ds_msgs := ds_msgs d @ [S_Slot (s_historySize r - 1)]\<rparr>) r)"

text \<open>The \<open>int\<close> case of \<open>handleMsg\<close>.\<close>

definition handle_slot :: "int \<Rightarrow> nat \<Rightarrow> sw_CommandId \<Rightarrow> sw \<Rightarrow> sw option" where
  "handle_slot k a c r =
     (if 0 \<le> k \<and> k < sw_HISTORY_SIZE
      then
        let d = desc_at r a;
            r = r\<lparr>s_history := (s_history r)(k := \<lparr>sh_cmdId = c, sh_phase = ds_phase d, sh_cmd = ds_cmd d,
                     sh_dep = ds_dep d, sh_slowPath = ds_slowPath d\<rparr>)\<rparr>;
            r = upd_desc a (\<lambda>d. d\<lparr>ds_active := False\<rparr>) r;
            r = r\<lparr>s_cmdDescs := (s_cmdDescs r)(c := None)\<rparr>
        in Some (freeDesc_sw a r)
      else None)"

fun next_slot :: "sw_msg list \<Rightarrow> (int \<times> sw_msg list) option" where
  "next_slot [] = None"
| "next_slot (S_Slot k # ms) = Some (k, ms)"
| "next_slot (m # ms) = next_slot ms"

text \<open>The event loop waits for the slot of the command it has just executed: the reply goroutine works
  off its queue, of which the command is the last element.\<close>

definition wait_slot :: "nat \<Rightarrow> sw_CommandId \<Rightarrow> sw \<Rightarrow> sw option" where
  "wait_slot a c r =
     (if \<not> rep_alive r then None
      else do {
        let r = (rep_step ^^ length (rep_args r)) r;
        (k, ms) \<leftarrow> next_slot (ds_msgs (desc_at r a));
        handle_slot k a c (upd_desc a (\<lambda>d. d\<lparr>ds_msgs := ms\<rparr>) r)
      })"

subsection \<open>Handlers that pause\<close>

datatype 'a sw_proc = P_Ret 'a | P_Panic | P_Gap sw "sw \<Rightarrow> 'a sw_proc" | P_Join sw "sw \<Rightarrow> 'a sw_proc"

primrec proc_then :: "'a sw_proc \<Rightarrow> ('a \<Rightarrow> 'b sw_proc) \<Rightarrow> 'b sw_proc" where
  "proc_then (P_Ret x) f = f x"
| "proc_then P_Panic f = P_Panic"
| "proc_then (P_Gap r k) f = P_Gap r (\<lambda>r. proc_then (k r) f)"
| "proc_then (P_Join r k) f = P_Join r (\<lambda>r. proc_then (k r) f)"

definition of_opt :: "'a option \<Rightarrow> 'a sw_proc" where
  "of_opt x = (case x of None \<Rightarrow> P_Panic | Some y \<Rightarrow> P_Ret y)"

lemma of_opt_simps [simp]: "of_opt None = P_Panic" "of_opt (Some y) = P_Ret y"
  by (simp_all add: of_opt_def)

subsection \<open>Delivery\<close>

text \<open>\<open>deliver\<close> from the call of \<open>Execute\<close> on.\<close>

definition execute_sw :: "nat \<Rightarrow> sw_CommandId \<Rightarrow> GPropose \<Rightarrow> sw \<Rightarrow> sw option" where
  "execute_sw a c p r = do {
     let d = desc_at r a;
     (v, st) \<leftarrow> Execute (ds_cmd d) (sState r);
     let r = emit (Executed c (ds_cmd d)) (r\<lparr>sState := st\<rparr>);
     let r = r\<lparr>s_deliverChan := s_deliverChan r @ successors d\<rparr>;
     if \<not> sDreply r then Some r
     else
       let r = r\<lparr>rep_args := rep_args r @
             [\<lparr>ra_hs = elems (ds_hs d), ra_val = v, ra_cmdId = c, ra_finish = a, ra_propose = p\<rparr>]\<rparr>
       in if ds_seq d then wait_slot a c r else Some r
   }"

definition deliver_sw :: "nat \<Rightarrow> sw_CommandId \<Rightarrow> sw \<Rightarrow> sw sw_proc" where
  "deliver_sw a c r =
     (let d = desc_at r a
      in case ds_propose d of
           None \<Rightarrow> P_Ret r
         | Some p \<Rightarrow>
             if c \<in> s_delivered r \<or> \<not> sExec r then P_Ret r
             else if ds_phase d \<noteq> SW_COMMIT \<and> (\<not> optExec r \<or> sId r \<noteq> leader r) then P_Ret r
             else if \<not> list_all (\<lambda>c'. c' \<in> s_delivered r) (elems (ds_dep d)) then P_Ret r
             else P_Gap (emit (Claimed c (ds_dep d)) (r\<lparr>s_delivered := Set.insert c (s_delivered r)\<rparr>))
                    (\<lambda>r. of_opt (execute_sw a c p r)))"

subsection \<open>Acknowledgements\<close>

text \<open>Registering a committed command with the commands it depends on.\<close>

fun register :: "sw_CommandId \<Rightarrow> sw_CommandId list \<Rightarrow> sw \<Rightarrow> sw" where
  "register c [] r = r"
| "register c (d # ds) r =
     (case find_desc d r of
        (None, r) \<Rightarrow> register c ds r
      | (Some a, r) \<Rightarrow> register c ds (upd_desc a (\<lambda>x. x\<lparr>successors := successors x @ [c]\<rparr>) r))"

text \<open>\<open>getFastAndSlowAcksHandler\<close>\<close>

definition acks_handler :: "nat \<Rightarrow> MFastAck option \<Rightarrow> sw \<Rightarrow> sw sw_proc" where
  "acks_handler a lm r =
     (case lm of
        None \<Rightarrow> P_Ret r
      | Some m \<Rightarrow>
          let r = upd_desc a (\<lambda>d. d\<lparr>ds_phase := SW_COMMIT\<rparr>) r
          in deliver_sw a (fa_CmdId m) (register (fa_CmdId m) (elems (ds_dep (desc_at r a))) r))"

fun acks_events :: "nat \<Rightarrow> MFastAck ms_event list \<Rightarrow> sw \<Rightarrow> sw sw_proc" where
  "acks_events a [] r = P_Ret r"
| "acks_events a (FreeMsg _ # es) r = acks_events a es r"
| "acks_events a (Handle lm _ # es) r = proc_then (acks_handler a lm r) (\<lambda>r. acks_events a es r)"

definition add_slow :: "nat \<Rightarrow> int \<Rightarrow> bool \<Rightarrow> MFastAck \<Rightarrow> sw \<Rightarrow> sw sw_proc" where
  "add_slow a rep isLeader m r =
     (let (ms, evs, _) = Add (slowPathH (desc_at r a)) rep isLeader m
      in acks_events a evs (upd_desc a (\<lambda>d. d\<lparr>slowPathH := ms\<rparr>) r))"

definition add_fast :: "nat \<Rightarrow> int \<Rightarrow> bool \<Rightarrow> MFastAck \<Rightarrow> sw \<Rightarrow> sw sw_proc" where
  "add_fast a rep isLeader m r =
     (let (ms, evs, _) = Add (fastPathH (desc_at r a)) rep isLeader m
      in acks_events a evs (upd_desc a (\<lambda>d. d\<lparr>fastPathH := ms\<rparr>) r))"

definition commonCaseFastAck :: "MFastAck \<Rightarrow> nat \<Rightarrow> sw \<Rightarrow> sw sw_proc" where
  "commonCaseFastAck m a r =
     (if s_status r \<noteq> SW_NORMAL \<or> s_ballot r \<noteq> fa_Ballot m then P_Ret r
      else
        let isLeader = (fa_Replica m = leader r)
        in if fa_Dep m = None
           then proc_then (add_slow a (fa_Replica m) isLeader m r) (\<lambda>r.
             if fa_CmdId m \<in> s_delivered r then P_Ret r
             else add_fast a (fa_Replica m) (fa_Replica m = leader r) m r)
           else add_fast a (fa_Replica m) isLeader m r)"

definition handleLightSlowAck :: "MLightSlowAck \<Rightarrow> nat \<Rightarrow> sw \<Rightarrow> sw sw_proc" where
  "handleLightSlowAck m a r =
     commonCaseFastAck (zero_FastAck\<lparr>fa_Replica := ls_Replica m, fa_Ballot := ls_Ballot m,
       fa_CmdId := ls_CmdId m, fa_Dep := None\<rparr>) a r"

subsection \<open>Sending through the batcher\<close>

definition SendFastAck :: "MFastAck \<Rightarrow> sw \<Rightarrow> sw" where
  "SendFastAck f r = r\<lparr>bat_fast := bat_fast r @ [(f, None)]\<rparr>"

definition SendLightSlowAck :: "MLightSlowAck \<Rightarrow> sw \<Rightarrow> sw" where
  "SendLightSlowAck s r = r\<lparr>bat_light := bat_light r @ [(s, None)]\<rparr>"

definition SendFastAckClient :: "MFastAck \<Rightarrow> int \<Rightarrow> sw \<Rightarrow> sw" where
  "SendFastAckClient f client r = r\<lparr>bat_fast := bat_fast r @ [(f, Some client)]\<rparr>"

definition SendLightSlowAckClient :: "MLightSlowAck \<Rightarrow> int \<Rightarrow> sw \<Rightarrow> sw" where
  "SendLightSlowAckClient s client r = r\<lparr>bat_light := bat_light r @ [(s, Some client)]\<rparr>"

subsection \<open>The acknowledgement of the leader\<close>

text \<open>The function \<open>fastAckFromLeader\<close> defers, its own deferred function included: what follows the two
  collectors, in three parts.\<close>

definition leader_ack_light :: "MFastAck \<Rightarrow> nat \<Rightarrow> bool \<Rightarrow> sw \<Rightarrow> sw sw_proc" where
  "leader_ack_light m a neq r =
     (let c = fa_CmdId m;
          light = \<lparr>ls_Replica = sId r, ls_Ballot = s_ballot r, ls_CmdId = c\<rparr>;
          delivered = (c \<in> s_delivered r);
          r = (if neq \<and> \<not> delivered then upd_desc a (\<lambda>d. d\<lparr>ds_dep := fa_Dep m\<rparr>) r else r);
          r = upd_desc a (\<lambda>d. d\<lparr>ds_slowPath := True\<rparr>) r;
          r = (if optExec r then SendLightSlowAckClient light (sw_ClientId c) r else SendLightSlowAck light r)
      in if delivered then P_Ret r else handleLightSlowAck light a r)"

definition leader_ack_defer :: "MFastAck \<Rightarrow> SHash slice \<Rightarrow> bool \<Rightarrow> sw \<Rightarrow> sw" where
  "leader_ack_defer m hs sendSlowAck r =
     (let c = fa_CmdId m; light = \<lparr>ls_Replica = sId r, ls_Ballot = s_ballot r, ls_CmdId = c\<rparr>
      in if leader r = sId r \<or> c \<in> s_delivered r then r
         else if \<not> sendSlowAck \<and> optExec r \<and> \<not> SHashesEq (elems hs) (elems (fa_Checksum m))
         then emit (ToClient (sw_ClientId c) (C_LightSlowAck light)) r
         else r)"

definition leader_ack_body :: "MFastAck \<Rightarrow> nat \<Rightarrow> sw \<Rightarrow> sw sw_proc" where
  "leader_ack_body m a r =
     (if s_status r \<noteq> SW_NORMAL \<or> s_ballot r \<noteq> fa_Ballot m then P_Ret r
      else
        let r = upd_desc a (\<lambda>d. d\<lparr>ds_phase := ACCEPT\<rparr>) r;
            hs = ds_hs (desc_at r a);
            neq = (\<not> Dep_Equals (elems (ds_dep (desc_at r a))) (elems (fa_Dep m)));
            sendSlowAck = (leader r \<noteq> sId r \<and> (Contains (s_SQ r) (sId r) \<or> Contains (s_FQ r) (sId r) \<and> neq))
        in proc_then (add_slow a (fa_Replica m) True m r) (\<lambda>r.
           proc_then (if fa_CmdId m \<in> s_delivered r then P_Ret r else add_fast a (fa_Replica m) True m r) (\<lambda>r.
           proc_then (if sendSlowAck then leader_ack_light m a neq r else P_Ret r) (\<lambda>r.
           P_Ret (leader_ack_defer m hs sendSlowAck r)))))"

fun run_deferred :: "MFastAck list \<Rightarrow> nat \<Rightarrow> sw \<Rightarrow> sw sw_proc" where
  "run_deferred [] a r = P_Ret r"
| "run_deferred (m # ms) a r = proc_then (leader_ack_body m a r) (\<lambda>r. run_deferred ms a r)"

text \<open>\<open>afterPropagate.Call\<close> and \<open>afterPropagate.Recall\<close>\<close>

definition fastAckFromLeader :: "MFastAck \<Rightarrow> nat \<Rightarrow> sw \<Rightarrow> sw sw_proc" where
  "fastAckFromLeader m a r =
     (if ds_propose (desc_at r a) \<noteq> None
      then proc_then (run_deferred (afterPropagate (desc_at r a) @ [m]) a r)
             (\<lambda>r. P_Ret (upd_desc a (\<lambda>d. d\<lparr>afterPropagate := []\<rparr>) r))
      else P_Ret (upd_desc a (\<lambda>d. d\<lparr>afterPropagate := afterPropagate d @ [m]\<rparr>) r))"

definition recall_sw :: "nat \<Rightarrow> sw \<Rightarrow> (bool \<times> sw) sw_proc" where
  "recall_sw a r =
     (if afterPropagate (desc_at r a) \<noteq> [] \<and> ds_propose (desc_at r a) \<noteq> None
      then proc_then (run_deferred (afterPropagate (desc_at r a)) a r)
             (\<lambda>r. P_Ret (True, upd_desc a (\<lambda>d. d\<lparr>afterPropagate := []\<rparr>) r))
      else P_Ret (False, r))"

definition handleFastAck :: "MFastAck \<Rightarrow> nat \<Rightarrow> sw \<Rightarrow> sw sw_proc" where
  "handleFastAck m a r =
     (if fa_Replica m = leader r then fastAckFromLeader m a r else commonCaseFastAck m a r)"

subsection \<open>Proposals\<close>

text \<open>\<open>handlePropose\<close> from the acknowledgement on.\<close>

definition propose_ack :: "GPropose \<Rightarrow> nat \<Rightarrow> sw_CommandId \<Rightarrow> sw \<Rightarrow> sw sw_proc" where
  "propose_ack p a c r =
     (let fastAck = \<lparr>fa_Replica = sId r, fa_Ballot = s_ballot r, fa_CmdId = c, fa_Dep = ds_dep (desc_at r a),
            fa_Checksum = ds_hs (desc_at r a), fa_Seqnum = (if sId r = leader r then s_seqnum r else 0)\<rparr>;
          r = (if sId r = leader r then r\<lparr>s_seqnum := i64 (s_seqnum r + 1)\<rparr> else r);
          isRead = (fastRead r \<and> Op (p_Command (Propose p)) \<noteq> PUT)
      in proc_then
           (if \<not> optExec r then P_Ret (SendFastAck (copyFastAck fastAck) r)
            else if sId r = leader r \<and> \<not> isRead \<or> isRead \<and> Proxy p
            then deliver_sw a c (SendFastAck (copyFastAck fastAck) r)
            else P_Ret (SendFastAckClient (copyFastAck fastAck) (p_ClientId (Propose p)) r))
           (\<lambda>r. handleFastAck fastAck a r))"

definition handlePropose_sw :: "GPropose \<Rightarrow> nat \<Rightarrow> sw_CommandId \<Rightarrow> sw \<Rightarrow> sw sw_proc" where
  "handlePropose_sw p a c r =
     (if s_status r \<noteq> SW_NORMAL \<or> ds_propose (desc_at r a) \<noteq> None then P_Ret r
      else
        let r = upd_desc a (\<lambda>d. d\<lparr>ds_propose := Some p, ds_cmd := p_Command (Propose p)\<rparr>) r
        in if \<not> Contains (s_FQ r) (sId r) then proc_then (recall_sw a r) (\<lambda>(_, r). P_Ret r)
           else
             proc_then (recall_sw a (upd_desc a (\<lambda>d. d\<lparr>ds_dep := ds_proposeDep d, ds_phase := PRE_ACCEPT\<rparr>) r)) (\<lambda>(called, r).
               if called \<and> ds_slowPath (desc_at r a) \<or> c \<in> s_delivered r then P_Ret r
               else if Addr p \<in> slowAddrs r \<and> sId r \<noteq> leader r then P_Ret r
               else propose_ack p a c r))"

fun handleMsg_sw :: "sw_msg \<Rightarrow> nat \<Rightarrow> sw_CommandId \<Rightarrow> sw \<Rightarrow> sw sw_proc" where
  "handleMsg_sw (S_Propose p) a c r = handlePropose_sw p a c r"
| "handleMsg_sw (S_FastAck m) a c r = (if fa_CmdId m = c then handleFastAck m a r else P_Ret r)"
| "handleMsg_sw (S_LightSlowAck m) a c r = (if ls_CmdId m = c then handleLightSlowAck m a r else P_Ret r)"
| "handleMsg_sw S_Deliver a c r = deliver_sw a c r"
| "handleMsg_sw (S_Slot k) a c r = of_opt (handle_slot k a c r)"

definition getCmdDescSeq ::
    "sw_CommandId \<Rightarrow> sw_msg \<Rightarrow> Dep \<Rightarrow> SHash slice \<Rightarrow> bool \<Rightarrow> sw \<Rightarrow> (nat option \<times> sw) sw_proc" where
  "getCmdDescSeq c msg dep hs seq r =
     (if c \<in> s_delivered r then P_Ret (None, r)
      else
        let (a, r) = upsert_sw c dep hs seq r
        in if ds_seq (desc_at r a) then proc_then (handleMsg_sw msg a c r) (\<lambda>r. P_Ret (Some a, r))
           else P_Ret (Some a, upd_desc a (\<lambda>d. d\<lparr>ds_msgs := ds_msgs d @ [msg]\<rparr>) r))"

definition getCmdDesc_sw :: "sw_CommandId \<Rightarrow> sw_msg \<Rightarrow> Dep \<Rightarrow> sw \<Rightarrow> (nat option \<times> sw) sw_proc" where
  "getCmdDesc_sw c msg dep r = getCmdDescSeq c msg dep None False r"

text \<open>One round of the goroutine of a descriptor.\<close>

definition handleDesc_sw :: "sw_CommandId \<Rightarrow> sw \<Rightarrow> sw sw_proc" where
  "handleDesc_sw c r =
     (case s_cmdDescs r c of
        None \<Rightarrow> P_Ret r
      | Some a \<Rightarrow>
          let d = desc_at r a
          in if ds_seq d \<or> \<not> ds_active d then P_Ret r
             else case ds_msgs d of
               [] \<Rightarrow> P_Ret r
             | m # ms \<Rightarrow>
                 proc_then (handleMsg_sw m a c (upd_desc a (\<lambda>d. d\<lparr>ds_msgs := ms\<rparr>) r)) (\<lambda>r.
                 P_Ret (case m of S_Slot _ \<Rightarrow> r\<lparr>s_routineCount := i64 (s_routineCount r - 1)\<rparr> | _ \<Rightarrow> r)))"

end
