(* ===== verification/Swift_Run.thy ===== *)
theory Swift_Run
  imports Swift
begin

section \<open>The batcher, recovery and the event loop of SwiftPaxos\<close>

text \<open>
  The batcher (\<open>src/swift/batcher.go\<close>), recovery (\<open>src/swift/recovery.go\<close>) and the event loop of the
  replica (the method \<open>run\<close> of \<open>src/swift/swift.go\<close>).

  \<^item> A round of the batcher empties both of its queues into one message to all replicas: in the short form
    \<open>MOptAcks\<close> if everything has the same ballot, else as \<open>MAcks\<close>. \<open>batch\<close> is what the round has built so
    far; the maps of messages for clients are association lists.
  \<^item> Recovery ranges over maps, in an order Go leaves open, and sorts command ids by a comparison that is
    not an order. The orders are the argument \<open>orders\<close> of the handlers; whether they enumerate the maps
    is a question for the statements.
  \<^item> While a replica recovers its event loop takes only the messages of recovery: \<open>sw_step\<close> asks for the
    status. The nested loop of \<open>handleNewLeader\<close> ends when the status is normal again.
  \<^item> \<open>swm\<close> is the replica together with the handlers that have paused: those of the goroutines of descriptors
    (\<open>m_go\<close>) and that of the event loop (\<open>m_loop\<close>), which takes nothing else meanwhile. \<open>sw_step\<close> is one event.
    \<open>BeTheLeader\<close> is called by the master, and what it puts on the channel \<open>recover\<close> starts a recovery.
\<close>

subsection \<open>The batcher\<close>

record batch =
  b_ballot :: int
  b_acks :: "Ack list"
  b_is :: "sw_CommandId \<rightharpoonup> nat"
  b_fast :: "(sw_CommandId \<times> MFastAckClient) list"
  b_slow :: "(sw_CommandId \<times> MLightSlowAck) list"

definition alist_put :: "'k \<Rightarrow> 'v \<Rightarrow> ('k \<times> 'v) list \<Rightarrow> ('k \<times> 'v) list" where
  "alist_put k v xs = filter (\<lambda>(k', _). k' \<noteq> k) xs @ [(k, v)]"

definition alist_delete :: "'k \<Rightarrow> ('k \<times> 'v) list \<Rightarrow> ('k \<times> 'v) list" where
  "alist_delete k xs = filter (\<lambda>(k', _). k' \<noteq> k) xs"

definition ack_of :: "MFastAck \<Rightarrow> Ack" where
  "ack_of f = \<lparr>ak_CmdId = fa_CmdId f, ak_Dep = fa_Dep f, ak_Checksum = fa_Checksum f, ak_Seqnum = fa_Seqnum f\<rparr>"

definition light_ack_of :: "MLightSlowAck \<Rightarrow> Ack" where
  "light_ack_of s = \<lparr>ak_CmdId = ls_CmdId s, ak_Dep = NilDepOfCmdId (ls_CmdId s), ak_Checksum = Some [], ak_Seqnum = 0\<rparr>"

definition fast_client_of :: "MFastAck \<Rightarrow> MFastAckClient" where
  "fast_client_of f = \<lparr>fc_Replica = fa_Replica f, fc_Ballot = fa_Ballot f, fc_CmdId = fa_CmdId f, fc_Checksum = fa_Checksum f\<rparr>"

definition add_ack :: "sw_CommandId \<Rightarrow> Ack \<Rightarrow> batch \<Rightarrow> batch" where
  "add_ack c x b = b\<lparr>b_is := (b_is b)(c \<mapsto> length (b_acks b)), b_acks := b_acks b @ [x]\<rparr>"

text \<open>The loops of the first case: fast acknowledgements first.\<close>

definition fast_first_f :: "MFastAck \<times> int option \<Rightarrow> batch \<Rightarrow> batch" where
  "fast_first_f op b = (case op of (f, client) \<Rightarrow>
     let b = (if b_ballot b = fa_Ballot f then add_ack (fa_CmdId f) (ack_of f) b else b\<lparr>b_ballot := -1\<rparr>)
     in if client \<noteq> None then b\<lparr>b_fast := alist_put (fa_CmdId f) (fast_client_of f) (b_fast b)\<rparr> else b)"

definition fast_first_s :: "MLightSlowAck \<times> int option \<Rightarrow> batch \<Rightarrow> batch" where
  "fast_first_s op b = (case op of (s, client) \<Rightarrow>
     let b = (if b_ballot b = ls_Ballot s
              then (case b_is b (ls_CmdId s) of
                      Some i \<Rightarrow> b\<lparr>b_acks := (b_acks b)[i := (b_acks b ! i)\<lparr>ak_Dep := NilDepOfCmdId (ls_CmdId s), ak_Checksum := Some []\<rparr>]\<rparr>
                    | None \<Rightarrow> add_ack (ls_CmdId s) (light_ack_of s) b)
              else b\<lparr>b_ballot := -1\<rparr>)
     in if client \<noteq> None
        then b\<lparr>b_fast := alist_delete (ls_CmdId s) (b_fast b), b_slow := alist_put (ls_CmdId s) s (b_slow b)\<rparr>
        else b)"

text \<open>The loops of the second case: light acknowledgements first.\<close>

definition slow_first_s :: "MLightSlowAck \<times> int option \<Rightarrow> batch \<Rightarrow> batch" where
  "slow_first_s op b = (case op of (s, client) \<Rightarrow>
     let b = (if b_ballot b = ls_Ballot s then add_ack (ls_CmdId s) (light_ack_of s) b else b\<lparr>b_ballot := -1\<rparr>)
     in if client \<noteq> None then b\<lparr>b_slow := alist_put (ls_CmdId s) s (b_slow b)\<rparr> else b)"

definition slow_first_f :: "MFastAck \<times> int option \<Rightarrow> batch \<Rightarrow> batch" where
  "slow_first_f op b = (case op of (f, client) \<Rightarrow>
     let b = (if b_ballot b = fa_Ballot f
              then (if b_is b (fa_CmdId f) = None then add_ack (fa_CmdId f) (ack_of f) b else b)
              else b\<lparr>b_ballot := -1\<rparr>)
     in if client \<noteq> None \<and> fa_CmdId f \<notin> fst ` set (b_slow b)
        then b\<lparr>b_fast := alist_put (fa_CmdId f) (fast_client_of f) (b_fast b)\<rparr> else b)"

definition new_batch :: "int \<Rightarrow> sw_CommandId \<Rightarrow> Ack \<Rightarrow> batch" where
  "new_batch ballot c x = \<lparr>b_ballot = ballot, b_acks = [x], b_is = [c \<mapsto> 0], b_fast = [], b_slow = []\<rparr>"

definition batch_out :: "int \<Rightarrow> MAcks \<Rightarrow> int \<Rightarrow> batch \<Rightarrow> sw_out list" where
  "batch_out i acks ballot b =
     map (\<lambda>(c, f). ToClient (sw_ClientId (fc_CmdId f)) (C_FastAckClient f)) (b_fast b) @
     map (\<lambda>(c, s). ToClient (sw_ClientId (ls_CmdId s)) (C_LightSlowAck s)) (b_slow b) @
     [if b_ballot b \<noteq> -1 then ToAll_OptAcks \<lparr>oa_Replica = i, oa_Ballot = ballot, Acks = b_acks b\<rparr>
      else ToAll_Acks acks]"

definition batch_fast_first :: "sw \<Rightarrow> sw" where
  "batch_fast_first r =
     (case bat_fast r of
        [] \<Rightarrow> r
      | (f, client) # fs \<Rightarrow>
          let b = new_batch (fa_Ballot f) (fa_CmdId f) (ack_of f);
              b = (if client \<noteq> None then b\<lparr>b_fast := [(fa_CmdId f, fast_client_of f)]\<rparr> else b);
              b = fold fast_first_s (bat_light r) (fold fast_first_f fs b);
              acks = \<lparr>FastAcks = map fst (bat_fast r), LightSlowAcks = map fst (bat_light r)\<rparr>
          in r\<lparr>bat_fast := [], bat_light := [], s_out := s_out r @ batch_out (sId r) acks (fa_Ballot f) b\<rparr>)"

definition batch_slow_first :: "sw \<Rightarrow> sw" where
  "batch_slow_first r =
     (case bat_light r of
        [] \<Rightarrow> r
      | (s, client) # ss \<Rightarrow>
          let b = new_batch (ls_Ballot s) (ls_CmdId s) (light_ack_of s);
              b = (if client \<noteq> None then b\<lparr>b_slow := [(ls_CmdId s, s)]\<rparr> else b);
              b = fold slow_first_f (bat_fast r) (fold slow_first_s ss b);
              acks = \<lparr>FastAcks = map fst (bat_fast r), LightSlowAcks = map fst (bat_light r)\<rparr>
          in r\<lparr>bat_fast := [], bat_light := [], s_out := s_out r @ batch_out (sId r) acks (ls_Ballot s) b\<rparr>)"

subsection \<open>Recovery\<close>

text \<open>The orders in which maps are visited: the descriptors, the proposals, the chosen acknowledgements and
  the commands of a synchronisation, after they have been sorted. A goroutine that \<open>handleSync\<close> starts for
  a command sends the value of the loop variable it shares with the other rounds: \<open>o_late\<close> says which
  command it finds there, the one it was started for or a later one.\<close>

record orders =
  o_descs :: "sw_CommandId list"
  o_proposes :: "sw_CommandId list"
  o_acks :: "MNewLeaderAckN list \<Rightarrow> MNewLeaderAckN list"
  o_sorted :: "sw_CommandId list"
  o_late :: "sw_CommandId \<Rightarrow> sw_CommandId"

definition stop_replies :: "sw \<Rightarrow> sw option" where
  "stop_replies r = (if rep_alive r then Some (r\<lparr>rep_alive := False\<rparr>) else None)"

definition stopDescs :: "orders \<Rightarrow> sw \<Rightarrow> sw" where
  "stopDescs os r =
     fold (\<lambda>c r. case s_cmdDescs r c of
              None \<Rightarrow> r
            | Some a \<Rightarrow> if ds_active (desc_at r a) \<and> \<not> ds_seq (desc_at r a)
                        then upd_desc a (\<lambda>d. d\<lparr>ds_active := False\<rparr>) r else r) (o_descs os) r"

definition propose_id :: "GPropose \<Rightarrow> sw_CommandId" where
  "propose_id p = \<lparr>sw_ClientId = p_ClientId (Propose p), sw_SeqNum = p_CommandId (Propose p)\<rparr>"

text \<open>The two loops of \<open>fillNewLeaderAckN\<close>; the four slices grow together.\<close>

definition fill_descs :: "orders \<Rightarrow> sw \<Rightarrow> (sw_CommandId \<times> int \<times> command \<times> Dep) list" where
  "fill_descs os r =
     fold (\<lambda>c xs. case s_cmdDescs r c of
              None \<Rightarrow> xs
            | Some a \<Rightarrow>
                let d = desc_at r a
                in case ds_propose d of
                     None \<Rightarrow> xs
                   | Some p \<Rightarrow>
                       if propose_id p \<in> fst ` set xs then xs
                       else xs @ [(propose_id p, ds_phase d, ds_cmd d, ds_dep d)])
       (o_descs os) []"

definition fill_proposes ::
    "orders \<Rightarrow> sw \<Rightarrow> (sw_CommandId \<times> int \<times> command \<times> Dep) list \<Rightarrow> (sw_CommandId \<times> int \<times> command \<times> Dep) list" where
  "fill_proposes os r xs =
     xs @ map (\<lambda>c. (c, ACCEPT, NOOP ! 0, Some []))
       (filter (\<lambda>c. c \<notin> fst ` set xs \<and> c \<notin> s_delivered r) (o_proposes os))"

definition fillNewLeaderAckN :: "orders \<Rightarrow> MNewLeaderAckN \<Rightarrow> sw \<Rightarrow> MNewLeaderAckN" where
  "fillNewLeaderAckN os m r =
     (let xs = fill_proposes os r (fill_descs os r)
      in m\<lparr>nn_CmdIds := map fst xs, nn_Phases := map (fst \<circ> snd) xs, nn_Cmds := map (fst \<circ> snd \<circ> snd) xs,
           nn_Deps := map (SDep.make \<circ> snd \<circ> snd \<circ> snd) xs\<rparr>)"

definition resync :: "MSync \<Rightarrow> sw_CommandId \<Rightarrow> sw \<Rightarrow> sw" where
  "resync msg c r =
     (case s_cmdDescs r c of
        None \<Rightarrow> r
      | Some a \<Rightarrow>
          let r = (case ds_propose (desc_at r a) of
                     None \<Rightarrow> r
                   | Some p \<Rightarrow> if ms_Phases msg (propose_id p) = None
                              then r\<lparr>s_proposeChan := s_proposeChan r @ [p]\<rparr> else r)
          in freeDesc_sw a (upd_desc a (\<lambda>d. d\<lparr>ds_msgs := []\<rparr>) r))"

text \<open>What is called when \<open>handleSync\<close> returns.\<close>

datatype deferred = Defer_FastAck MFastAck nat | Defer_LightSlowAck MLightSlowAck nat

fun run_defers :: "deferred list \<Rightarrow> sw \<Rightarrow> sw sw_proc" where
  "run_defers [] r = P_Ret r"
| "run_defers (Defer_FastAck m a # ds) r = proc_then (handleFastAck m a r) (\<lambda>r. run_defers ds r)"
| "run_defers (Defer_LightSlowAck m a # ds) r = proc_then (handleLightSlowAck m a r) (\<lambda>r. run_defers ds r)"

fun sync_deps :: "sw_CommandId \<Rightarrow> sw_CommandId list \<Rightarrow> sw \<Rightarrow> sw" where
  "sync_deps c [] r = r"
| "sync_deps c (d # ds) r =
     (let (a, r) = find_desc d r;
          r = (case a of Some a \<Rightarrow> upd_desc a (\<lambda>x. x\<lparr>successors := successors x @ [c]\<rparr>) r | None \<Rightarrow> r)
      in sync_deps c ds (r\<lparr>s_deliverChan := s_deliverChan r @ [d]\<rparr>))"

text \<open>One round of the loop over the sorted command ids: the descriptor of a command that has not been
  delivered, and the answer to its proposal.\<close>

definition sync_dep :: "MSync \<Rightarrow> sw_CommandId \<Rightarrow> Dep" where
  "sync_dep msg c = (case ms_Deps msg c of Some d \<Rightarrow> d | None \<Rightarrow> None)"

definition sync_desc :: "orders \<Rightarrow> MSync \<Rightarrow> sw_CommandId \<Rightarrow> nat \<Rightarrow> sw \<Rightarrow> sw" where
  "sync_desc os msg c a r =
     (let phase = (case ms_Phases msg c of Some p \<Rightarrow> p | None \<Rightarrow> 0);
          cmd = (case ms_Cmds msg c of Some x \<Rightarrow> x | None \<Rightarrow> zero_command);
          r = upd_desc a (\<lambda>d. d\<lparr>ds_phase := phase, ds_cmd := cmd, ds_dep := sync_dep msg c,
                                ds_proposeDep := sync_dep msg c\<rparr>) r;
          r = sync_deps c (elems (sync_dep msg c)) r;
          r = r\<lparr>s_deliverChan := s_deliverChan r @ [o_late os c]\<rparr>
      in if ds_phase (desc_at r a) \<noteq> SW_COMMIT \<and> ds_phase (desc_at r a) \<noteq> ACCEPT
         then upd_desc a (\<lambda>d. d\<lparr>ds_phase := ACCEPT\<rparr>) r else r)"

definition sync_answer :: "MSync \<Rightarrow> sw_CommandId \<Rightarrow> nat option \<Rightarrow> sw \<Rightarrow> sw \<times> deferred list" where
  "sync_answer msg c desc r =
     (case sw_proposes r c of
        None \<Rightarrow> (r, [])
      | Some p \<Rightarrow>
          let r = (case desc of Some a \<Rightarrow> upd_desc a (\<lambda>d. d\<lparr>ds_propose := Some p\<rparr>) r | None \<Rightarrow> r)
          in if \<not> Contains (s_SQ r) (sId r) then (r, [])
             else if sId r = leader r
             then
               let fastAck = zero_FastAck\<lparr>fa_Replica := sId r, fa_Ballot := s_ballot r, fa_CmdId := c,
                     fa_Dep := (if sync_dep msg c = None then NilDepOfCmdId c else sync_dep msg c)\<rparr>;
                   r = SendFastAck (copyFastAck fastAck) r
               in (emit (ToClient (p_ClientId (Propose p)) (C_Reply \<lparr>mr_Replica = sId r, mr_Ballot = s_ballot r,
                     mr_CmdId = c, mr_Checksum = None, mr_Rep = []\<rparr>)) r,
                   case desc of Some a \<Rightarrow> [Defer_FastAck fastAck a] | None \<Rightarrow> [])
             else
               let light = \<lparr>ls_Replica = sId r, ls_Ballot = s_ballot r, ls_CmdId = c\<rparr>
               in (SendLightSlowAckClient light (p_ClientId (Propose p)) r,
                   case desc of Some a \<Rightarrow> [Defer_LightSlowAck light a] | None \<Rightarrow> []))"

definition sync_cmd :: "orders \<Rightarrow> MSync \<Rightarrow> sw_CommandId \<Rightarrow> sw \<Rightarrow> sw \<times> deferred list" where
  "sync_cmd os msg c r =
     (let (desc, r) = find_desc c r;
          r = (case desc of None \<Rightarrow> r | Some a \<Rightarrow> sync_desc os msg c a r)
      in sync_answer msg c desc r)"

fun sync_cmds :: "orders \<Rightarrow> MSync \<Rightarrow> sw_CommandId list \<Rightarrow> sw \<Rightarrow> sw \<times> deferred list" where
  "sync_cmds os msg [] r = (r, [])"
| "sync_cmds os msg (c # cs) r =
     (let (r, ds) = sync_cmd os msg c r; (r, ds') = sync_cmds os msg cs r in (r, ds @ ds'))"

definition sync_rest :: "orders \<Rightarrow> MSync \<Rightarrow> sw \<Rightarrow> sw sw_proc" where
  "sync_rest os msg r =
     (let r = fold (resync msg) (o_descs os) r;
          r = r\<lparr>keys := Map.empty, s_routineCount := 0, s_cmdDescs := Map.empty, s_status := SW_NORMAL,
                  s_ballot := ms_Ballot msg, s_cballot := ms_Ballot msg\<rparr>
      in proc_then
           (if fixedMajority r
            then of_opt (map_option (\<lambda>q. r\<lparr>s_FQ := Quorum q\<rparr>) (AQ (qs_sets (s_qs r)) (s_ballot r))) else P_Ret r)
           (\<lambda>r.
             let r = r\<lparr>rep_args := [], rep_alive := True, s_historySize := 0\<rparr>;
                 (r, defers) = sync_cmds os msg (o_sorted os) r;
                 r = fold (\<lambda>c r. case sw_proposes r c of
                         None \<Rightarrow> r
                       | Some p \<Rightarrow>
                           if ms_Phases msg c \<noteq> None then r
                           else emit (ToClient (p_ClientId (Propose p)) (C_Accept \<lparr>mc_Replica = sId r,
                                  mc_Ballot = s_ballot r, mc_CmdId = c, mc_Rep = []\<rparr>)) r) (o_proposes os) r
             in run_defers (rev defers) r))"

definition handleSync :: "orders \<Rightarrow> MSync \<Rightarrow> sw \<Rightarrow> sw sw_proc" where
  "handleSync os msg r =
     (if ms_Ballot msg < s_ballot r \<or> s_ballot r = ms_Ballot msg \<and> s_status r = SW_NORMAL then P_Ret r
      else if s_status r = SW_NORMAL
      then proc_then (of_opt (stop_replies r)) (\<lambda>r. P_Join r (\<lambda>r. sync_rest os msg (stopDescs os r)))
      else sync_rest os msg r)"

text \<open>The acknowledgements of the highest ballot, and the state they lead to.\<close>

text \<open>The set \<open>U\<close> is nil at first, and adding to a nil map is a panic.\<close>

fun newest_loop :: "int \<Rightarrow> MNewLeaderAckN list option \<Rightarrow> MNewLeaderAckN list \<Rightarrow> MNewLeaderAckN list option" where
  "newest_loop maxCbal U [] = Some (case U of Some xs \<Rightarrow> xs | None \<Rightarrow> [])"
| "newest_loop maxCbal U (m # ms) =
     (if maxCbal < nn_Cballot m then newest_loop (nn_Cballot m) (Some [m]) ms
      else if maxCbal = nn_Cballot m
      then (case U of Some xs \<Rightarrow> newest_loop maxCbal (Some (xs @ [m])) ms | None \<Rightarrow> None)
      else newest_loop maxCbal U ms)"

definition newest :: "MNewLeaderAckN list \<Rightarrow> MNewLeaderAckN list option" where
  "newest replies = newest_loop (-1) None replies"

fun merge_ack ::
    "nat \<Rightarrow> int list \<Rightarrow> MNewLeaderAckN \<Rightarrow> (sw_CommandId \<rightharpoonup> int) \<times> (sw_CommandId \<rightharpoonup> command) \<times> (sw_CommandId \<rightharpoonup> Dep) \<Rightarrow>
     ((sw_CommandId \<rightharpoonup> int) \<times> (sw_CommandId \<rightharpoonup> command) \<times> (sw_CommandId \<rightharpoonup> Dep)) option" where
  "merge_ack i [] m s = Some s"
| "merge_ack i (phase # ps) m (phases, cmds, deps) =
     (if phase = SW_COMMIT \<or> phase = ACCEPT
      then do {
        c \<leftarrow> slice_get (nn_CmdIds m) (int i);
        cmd \<leftarrow> slice_get (nn_Cmds m) (int i);
        d \<leftarrow> slice_get (nn_Deps m) (int i);
        merge_ack (Suc i) ps m (phases(c \<mapsto> phase), cmds(c \<mapsto> cmd), deps(c \<mapsto> sd_Dep d))
      }
      else merge_ack (Suc i) ps m (phases, cmds, deps))"

fun merge_acks ::
    "MNewLeaderAckN list \<Rightarrow> (sw_CommandId \<rightharpoonup> int) \<times> (sw_CommandId \<rightharpoonup> command) \<times> (sw_CommandId \<rightharpoonup> Dep) \<Rightarrow>
     ((sw_CommandId \<rightharpoonup> int) \<times> (sw_CommandId \<rightharpoonup> command) \<times> (sw_CommandId \<rightharpoonup> Dep)) option" where
  "merge_acks [] s = Some s"
| "merge_acks (m # ms) s = do { s \<leftarrow> merge_ack 0 (nn_Phases m) m s; merge_acks ms s }"

definition handleNewLeaderAckNs :: "orders \<Rightarrow> MNewLeaderAckN list \<Rightarrow> sw \<Rightarrow> sw sw_proc" where
  "handleNewLeaderAckNs os replies r =
     proc_then (of_opt (newest replies)) (\<lambda>U.
     proc_then (of_opt (merge_acks (o_acks os U) (Map.empty, Map.empty, Map.empty))) (\<lambda>(phases, cmds, deps).
       let sync = \<lparr>ms_Replica = sId r, ms_Ballot = s_ballot r, ms_Phases = phases, ms_Cmds = cmds, ms_Deps = deps\<rparr>
       in handleSync os sync (emit (ToAll_Sync sync) r)))"

fun new_leader_events :: "orders \<Rightarrow> MNewLeaderAckN ms_event list \<Rightarrow> sw \<Rightarrow> sw sw_proc" where
  "new_leader_events os [] r = P_Ret r"
| "new_leader_events os (FreeMsg _ # es) r = new_leader_events os es r"
| "new_leader_events os (Handle _ replies # es) r =
     proc_then (handleNewLeaderAckNs os replies r) (\<lambda>r. new_leader_events os es r)"

definition handleNewLeaderAckN :: "orders \<Rightarrow> MNewLeaderAckN \<Rightarrow> sw \<Rightarrow> sw sw_proc" where
  "handleNewLeaderAckN os msg r =
     (if s_status r \<noteq> SW_RECOVERING \<or> s_ballot r \<noteq> nn_Ballot msg then P_Ret r
      else case newLeaderAckNs r of
             None \<Rightarrow> P_Panic
           | Some ms \<Rightarrow>
               let (ms, evs, _) = Add ms (nn_Replica msg) False msg
               in new_leader_events os evs (r\<lparr>newLeaderAckNs := Some ms\<rparr>))"

definition answer_new_leader :: "orders \<Rightarrow> MNewLeader \<Rightarrow> sw \<Rightarrow> sw sw_proc" where
  "answer_new_leader os msg r =
     (let ack = fillNewLeaderAckN os \<lparr>nn_Replica = sId r, nn_Ballot = s_ballot r, nn_Cballot = s_cballot r,
                  nn_CmdIds = [], nn_Phases = [], nn_Cmds = [], nn_Deps = []\<rparr> r
      in if nl_Replica msg \<noteq> sId r then P_Ret (emit (To_NewLeaderAckN (nl_Replica msg) ack) r)
         else handleNewLeaderAckN os ack r)"

definition handleNewLeader :: "orders \<Rightarrow> MNewLeader \<Rightarrow> sw \<Rightarrow> sw sw_proc" where
  "handleNewLeader os msg r =
     (if nl_Ballot msg \<le> s_ballot r then P_Ret r
      else proc_then (of_opt (stop_replies (r\<lparr>s_status := SW_RECOVERING, s_ballot := nl_Ballot msg\<rparr>))) (\<lambda>r.
           P_Join r (\<lambda>r. answer_new_leader os msg (stopDescs os r))))"

definition reinitNewLeaderAckNs :: "sw \<Rightarrow> sw" where
  "reinitNewLeaderAckNs r =
     r\<lparr>newLeaderAckNs := Some (ReinitMsgSet (newLeaderAckNs r) (NewMajorityOf (sN r)) (\<lambda>_ _. True))\<rparr>"

text \<open>The ballot a new leader asks for: the loop looks for a ballot whose active quorum is alive, and may not
  end.\<close>

definition quorum_alive :: "(int \<Rightarrow> bool) \<Rightarrow> int \<Rightarrow> sw \<Rightarrow> bool option" where
  "quorum_alive alive b r =
     map_option (\<lambda>q. \<forall>rid \<in> q. rid = sId r \<or> alive rid) (AQ (qs_sets (s_qs r)) b)"

partial_function (option) alive_loop :: "(int \<Rightarrow> bool) \<Rightarrow> sw \<Rightarrow> int \<Rightarrow> int option" where
  "alive_loop alive r b =
     (case quorum_alive alive b r of
        None \<Rightarrow> None
      | Some ok \<Rightarrow> if ok then Some b else alive_loop alive r (NextBallotOf (sId r) b (sN r)))"

declare alive_loop.simps [code]

definition new_ballot :: "int \<Rightarrow> (int \<Rightarrow> bool) \<Rightarrow> sw \<Rightarrow> int option" where
  "new_ballot newBallot alive r = do {
     b \<leftarrow> (if newBallot \<noteq> -1
           then if s_ballot r < newBallot then Some newBallot
                else SameHigher (qs_sets (s_qs r)) newBallot (s_ballot r)
           else Some (NextBallotOf (sId r) (s_ballot r) (sN r)));
     if fixedMajority r then alive_loop alive r b else Some b
   }"

definition on_recover :: "orders \<Rightarrow> int \<Rightarrow> (int \<Rightarrow> bool) \<Rightarrow> sw \<Rightarrow> sw sw_proc" where
  "on_recover os newBallot alive r =
     proc_then (of_opt (new_ballot newBallot alive r)) (\<lambda>b.
       let newLeader = \<lparr>nl_Replica = sId r, nl_Ballot = b\<rparr>
       in handleNewLeader os newLeader (reinitNewLeaderAckNs (emit (ToAll_NewLeader newLeader) r)))"

definition BeTheLeader_sw :: "sw \<Rightarrow> BeTheLeaderReply \<times> int option" where
  "BeTheLeader_sw r =
     (let b = BallotAt (s_qs r) 1;
          (l, recover) = (if s_delivered r \<noteq> {} then (sId r, Some b) else (leader r, None));
          nxt = Leader b (sN r)
      in (\<lparr>btl_Leader = (if l = 0 then -2 else l), btl_NextLeader = (if nxt = 0 then -2 else nxt)\<rparr>, recover))"

subsection \<open>The event loop\<close>

definition fatal :: "sw \<Rightarrow> sw option" where
  "fatal r = (if sw_verbose r then None else Some r)"

definition on_propose_sw :: "(byte list \<Rightarrow> SHash) \<Rightarrow> GPropose \<Rightarrow> sw \<Rightarrow> sw sw_proc" where
  "on_propose_sw sha p r =
     (let c = propose_id p; r = r\<lparr>sw_proposes := (sw_proposes r)(c \<mapsto> p)\<rparr>
      in proc_then (of_opt (getDepAndHashes sha (p_Command (Propose p)) c r)) (\<lambda>(dep, hs, r).
         proc_then (case pendingHashUpds r c of
             Some upd \<Rightarrow>
               if leader r \<noteq> sId r
               then of_opt (recordLeaderHash sha c (ue_seqnum upd) (ue_hash upd) (r\<lparr>pendingHashUpds := (pendingHashUpds r)(c := None)\<rparr>))
               else P_Ret r
           | None \<Rightarrow> P_Ret r) (\<lambda>r.
         proc_then (getCmdDescSeq c (S_Propose p) (Some dep) (Some hs) (leader r = sId r) r) (\<lambda>(desc, r).
         if desc = None then of_opt (fatal r) else P_Ret r))))"

definition on_fastAck :: "(byte list \<Rightarrow> SHash) \<Rightarrow> MFastAck \<Rightarrow> sw \<Rightarrow> sw sw_proc" where
  "on_fastAck sha f r =
     proc_then (if fa_Replica f = leader r \<and> leader r \<noteq> sId r
           then of_opt (recordLeaderHash sha (fa_CmdId f) (fa_Seqnum f) (elems (fa_Checksum f)) r) else P_Ret r) (\<lambda>r.
     proc_then (getCmdDescSeq (fa_CmdId f) (S_FastAck f) None None (leader r = sId r) r) (\<lambda>(_, r). P_Ret r))"

definition on_lightSlowAck :: "MLightSlowAck \<Rightarrow> sw \<Rightarrow> sw sw_proc" where
  "on_lightSlowAck s r = proc_then (getCmdDesc_sw (ls_CmdId s) (S_LightSlowAck s) None r) (\<lambda>(_, r). P_Ret r)"

fun on_each :: "('m \<Rightarrow> sw \<Rightarrow> sw sw_proc) \<Rightarrow> 'm list \<Rightarrow> sw \<Rightarrow> sw sw_proc" where
  "on_each f [] r = P_Ret r"
| "on_each f (m # ms) r = proc_then (f m r) (\<lambda>r. on_each f ms r)"

definition on_acks :: "(byte list \<Rightarrow> SHash) \<Rightarrow> MAcks \<Rightarrow> sw \<Rightarrow> sw sw_proc" where
  "on_acks sha m r =
     proc_then (on_each (\<lambda>f. on_fastAck sha (copyFastAck f)) (FastAcks m) r) (\<lambda>r.
     on_each on_lightSlowAck (LightSlowAcks m) r)"

definition opt_ack :: "MOptAcks \<Rightarrow> Ack \<Rightarrow> MFastAck" where
  "opt_ack m x =
     \<lparr>fa_Replica = oa_Replica m, fa_Ballot = oa_Ballot m, fa_CmdId = ak_CmdId x,
      fa_Dep = (if IsNilDepOfCmdId (ak_CmdId x) (ak_Dep x) then None else ak_Dep x),
      fa_Checksum = ak_Checksum x, fa_Seqnum = ak_Seqnum x\<rparr>"

definition on_optAcks :: "(byte list \<Rightarrow> SHash) \<Rightarrow> MOptAcks \<Rightarrow> sw \<Rightarrow> sw sw_proc" where
  "on_optAcks sha m r = on_each (\<lambda>x. on_fastAck sha (opt_ack m x)) (Acks m) r"

definition on_deliver :: "nat \<Rightarrow> sw \<Rightarrow> sw sw_proc" where
  "on_deliver k r =
     proc_then (getCmdDesc_sw (s_deliverChan r ! k) S_Deliver None
         (r\<lparr>s_deliverChan := take k (s_deliverChan r) @ drop (Suc k) (s_deliverChan r)\<rparr>)) (\<lambda>(_, r). P_Ret r)"

definition on_repropose :: "(byte list \<Rightarrow> SHash) \<Rightarrow> nat \<Rightarrow> sw \<Rightarrow> sw sw_proc" where
  "on_repropose sha k r =
     on_propose_sw sha (s_proposeChan r ! k)
       (r\<lparr>s_proposeChan := take k (s_proposeChan r) @ drop (Suc k) (s_proposeChan r)\<rparr>)"

datatype sw_event =
    E_Propose GPropose
  | E_Repropose nat
  | E_Deliver nat
  | E_FastAck MFastAck
  | E_LightSlowAck MLightSlowAck
  | E_Acks MAcks
  | E_OptAcks MOptAcks
  | E_NewLeader orders MNewLeader
  | E_NewLeaderAckN orders MNewLeaderAckN
  | E_Sync orders MSync
  | E_BeTheLeader
  | E_Recover orders "int \<Rightarrow> bool"
  | E_Loop
  | E_Desc sw_CommandId
  | E_Resume sw_CommandId
  | E_Reply
  | E_BatchFast
  | E_BatchSlow

record swm =
  m_sw :: sw
  m_go :: "(sw_CommandId \<times> (sw \<Rightarrow> sw sw_proc)) list"
  m_loop :: "(bool \<times> (sw \<Rightarrow> sw sw_proc)) option"

text \<open>The event loop and the goroutine of a descriptor run to their next pause. Only the event loop waits for
  goroutines, so \<open>P_Join\<close> does not occur in the latter.\<close>

fun loop_pause :: "sw sw_proc \<Rightarrow> swm \<Rightarrow> swm option" where
  "loop_pause (P_Ret r) m = Some (m\<lparr>m_sw := r, m_loop := None\<rparr>)"
| "loop_pause P_Panic m = None"
| "loop_pause (P_Gap r k) m = Some (m\<lparr>m_sw := r, m_loop := Some (False, k)\<rparr>)"
| "loop_pause (P_Join r k) m = Some (m\<lparr>m_sw := r, m_loop := Some (True, k)\<rparr>)"

fun go_pause :: "sw_CommandId \<Rightarrow> sw sw_proc \<Rightarrow> swm \<Rightarrow> swm option" where
  "go_pause c (P_Ret r) m = Some (m\<lparr>m_sw := r\<rparr>)"
| "go_pause c P_Panic m = None"
| "go_pause c (P_Gap r k) m = Some (m\<lparr>m_sw := r, m_go := (c, k) # m_go m\<rparr>)"
| "go_pause c (P_Join r k) m = None"

definition sw_idle :: "sw \<Rightarrow> swm" where
  "sw_idle r = \<lparr>m_sw = r, m_go = [], m_loop = None\<rparr>"

definition when_normal :: "(sw \<Rightarrow> sw sw_proc) \<Rightarrow> sw \<Rightarrow> sw sw_proc" where
  "when_normal f r = (if s_status r = SW_NORMAL then f r else P_Ret r)"

text \<open>What the event loop does on an event.\<close>

fun loop_handler :: "(byte list \<Rightarrow> SHash) \<Rightarrow> sw_event \<Rightarrow> (sw \<Rightarrow> sw sw_proc) option" where
  "loop_handler sha (E_Propose p) = Some (when_normal (on_propose_sw sha p))"
| "loop_handler sha (E_Repropose k) =
     Some (when_normal (\<lambda>r. if k < length (s_proposeChan r) then on_repropose sha k r else P_Ret r))"
| "loop_handler sha (E_Deliver k) =
     Some (when_normal (\<lambda>r. if k < length (s_deliverChan r) then on_deliver k r else P_Ret r))"
| "loop_handler sha (E_FastAck f) = Some (when_normal (on_fastAck sha f))"
| "loop_handler sha (E_LightSlowAck s) = Some (when_normal (on_lightSlowAck s))"
| "loop_handler sha (E_Acks m) = Some (when_normal (on_acks sha m))"
| "loop_handler sha (E_OptAcks m) = Some (when_normal (on_optAcks sha m))"
| "loop_handler sha (E_NewLeader os m) = Some (handleNewLeader os m)"
| "loop_handler sha (E_NewLeaderAckN os m) =
     Some (\<lambda>r. if s_status r = SW_RECOVERING then handleNewLeaderAckN os m r else P_Ret r)"
| "loop_handler sha (E_Sync os m) = Some (handleSync os m)"
| "loop_handler sha (E_Recover os alive) =
     Some (when_normal (\<lambda>r. case s_recover r of [] \<Rightarrow> P_Ret r | b # bs \<Rightarrow> on_recover os b alive (r\<lparr>s_recover := bs\<rparr>)))"
| "loop_handler sha ev = None"

fun other_step :: "sw_event \<Rightarrow> swm \<Rightarrow> swm option" where
  "other_step E_BeTheLeader m =
     Some (case snd (BeTheLeader_sw (m_sw m)) of None \<Rightarrow> m
           | Some b \<Rightarrow> m\<lparr>m_sw := (m_sw m)\<lparr>s_recover := s_recover (m_sw m) @ [b]\<rparr>\<rparr>)"
| "other_step E_Loop m =
     (case m_loop m of
        None \<Rightarrow> Some m
      | Some (join, k) \<Rightarrow> if join \<and> m_go m \<noteq> [] then Some m else loop_pause (k (m_sw m)) m)"
| "other_step (E_Desc c) m = (if map_of (m_go m) c \<noteq> None then Some m else go_pause c (handleDesc_sw c (m_sw m)) m)"
| "other_step (E_Resume c) m =
     (case map_of (m_go m) c of
        None \<Rightarrow> Some m
      | Some k \<Rightarrow> go_pause c (k (m_sw m)) (m\<lparr>m_go := filter (\<lambda>x. fst x \<noteq> c) (m_go m)\<rparr>))"
| "other_step E_Reply m = Some (if rep_alive (m_sw m) then m\<lparr>m_sw := rep_step (m_sw m)\<rparr> else m)"
| "other_step E_BatchFast m = Some (m\<lparr>m_sw := batch_fast_first (m_sw m)\<rparr>)"
| "other_step E_BatchSlow m = Some (m\<lparr>m_sw := batch_slow_first (m_sw m)\<rparr>)"
| "other_step ev m = Some m"

definition sw_step :: "(byte list \<Rightarrow> SHash) \<Rightarrow> sw_event \<Rightarrow> swm \<Rightarrow> swm option" where
  "sw_step sha ev m =
     (case loop_handler sha ev of
        Some f \<Rightarrow> if m_loop m = None then loop_pause (f (m_sw m)) m else Some m
      | None \<Rightarrow> other_step ev m)"

fun run_sw :: "(byte list \<Rightarrow> SHash) \<Rightarrow> sw_event list \<Rightarrow> swm \<Rightarrow> swm option" where
  "run_sw sha [] m = Some m"
| "run_sw sha (e # es) m = do { m \<leftarrow> sw_step sha e m; run_sw sha es m }"

end
