(* ===== verification/Swift_Props.thy ===== *)
theory Swift_Props
  imports Swift_Run
begin

section \<open>Execution in SwiftPaxos\<close>

text \<open>
  What a single SwiftPaxos replica guarantees in any execution, recovery included.

  \<^item> \<open>core\<close> is the part of the state execution works on: the delivered commands, the store, the commands
    marked as delivered in this order with their dependencies (\<open>claims\<close>), and the commands executed
    (\<open>execs\<close>). Only \<open>deliver_sw\<close> changes it.
  \<^item> \<open>sw_ok Z E\<close> is the invariant, where \<open>E\<close> are the commands whose handlers have paused between the mark and
    the execution. With \<open>Z\<close> there is at most one of them at any time.
  \<^item> \<open>safe Z E\<close> says of a handler that it keeps the invariant up to its end, its own pauses included, whatever the
    other handlers do in its pauses as long as they keep it too: they leave the command it has marked to it.
    It is proved for every handler in turn.
\<close>

fun claims :: "sw_out list \<Rightarrow> (sw_CommandId \<times> Dep) list" where
  "claims [] = []"
| "claims (Claimed c dep # xs) = (c, dep) # claims xs"
| "claims (_ # xs) = claims xs"

fun execs :: "sw_out list \<Rightarrow> (sw_CommandId \<times> command) list" where
  "execs [] = []"
| "execs (Executed c cmd # xs) = (c, cmd) # execs xs"
| "execs (_ # xs) = execs xs"

lemma claims_append [simp]: "claims (xs @ ys) = claims xs @ claims ys"
  by (induction xs rule: claims.induct) simp_all

lemma execs_append [simp]: "execs (xs @ ys) = execs xs @ execs ys"
  by (induction xs rule: execs.induct) simp_all

type_synonym sw_core = "sw_CommandId set \<times> kv_state \<times> (sw_CommandId \<times> Dep) list \<times> (sw_CommandId \<times> command) list"

definition core :: "sw \<Rightarrow> sw_core" where
  "core r = (s_delivered r, sState r, claims (s_out r), execs (s_out r))"

definition claims_ordered :: "(sw_CommandId \<times> Dep) list \<Rightarrow> bool" where
  "claims_ordered cl \<longleftrightarrow> distinct (map fst cl) \<and>
     (\<forall>i < length cl. set (elems (snd (cl ! i))) \<subseteq> fst ` set (take i cl))"

definition sw_ok :: "bool \<Rightarrow> sw_CommandId set \<Rightarrow> sw_core \<Rightarrow> bool" where
  "sw_ok Z E x = (case x of (del, st, cl, tr) \<Rightarrow>
     claims_ordered cl \<and> del = fst ` set cl \<and>
     distinct (map fst tr) \<and> fst ` set tr \<union> E = del \<and> fst ` set tr \<inter> E = {} \<and>
     (\<exists>vs. exec_cmds (map snd tr) InitState = Some (vs, st)) \<and>
     (Z \<longrightarrow> (\<exists>ps. length ps \<le> 1 \<and> set ps = E \<and> map fst cl = map fst tr @ ps)))"

lemma core_upd [simp]: "core (upd_desc a f r) = core r"
  by (simp add: core_def upd_desc_def)

lemma core_emit [simp]:
  "core (emit (ToClient c m) r) = core r" "core (emit (ToAll_NewLeader nl) r) = core r"
  "core (emit (ToAll_Sync y) r) = core r" "core (emit (To_NewLeaderAckN i n) r) = core r"
  by (simp_all add: core_def emit_def)

lemma core_fields [simp]:
  "core (r\<lparr>s_cmdDescs := x1\<rparr>) = core r" "core (r\<lparr>s_pool := x2\<rparr>) = core r" "core (r\<lparr>n_allocs := x3\<rparr>) = core r"
  "core (r\<lparr>desc_at := x4\<rparr>) = core r" "core (r\<lparr>n_descs := x5\<rparr>) = core r" "core (r\<lparr>s_routineCount := x6\<rparr>) = core r"
  "core (r\<lparr>rep_args := x7\<rparr>) = core r" "core (r\<lparr>s_historySize := x8\<rparr>) = core r" "core (r\<lparr>s_history := x9\<rparr>) = core r"
  "core (r\<lparr>s_deliverChan := y1\<rparr>) = core r" "core (r\<lparr>s_proposeChan := y2\<rparr>) = core r" "core (r\<lparr>bat_fast := y3\<rparr>) = core r"
  "core (r\<lparr>bat_light := y4\<rparr>) = core r" "core (r\<lparr>s_seqnum := y5\<rparr>) = core r" "core (r\<lparr>rep_alive := y6\<rparr>) = core r"
  "core (r\<lparr>s_status := y7\<rparr>) = core r" "core (r\<lparr>s_ballot := y8\<rparr>) = core r" "core (r\<lparr>s_cballot := y9\<rparr>) = core r"
  "core (r\<lparr>s_FQ := z1\<rparr>) = core r" "core (r\<lparr>keys := z2\<rparr>) = core r" "core (r\<lparr>hlog := z3\<rparr>) = core r"
  "core (r\<lparr>pendingHashUpds := z4\<rparr>) = core r" "core (r\<lparr>sw_proposes := z5\<rparr>) = core r"
  "core (r\<lparr>newLeaderAckNs := z6\<rparr>) = core r" "core (r\<lparr>s_recover := z7\<rparr>) = core r"
  by (simp_all add: core_def)

lemma core_alloc: "core (snd (allocDesc_sw r)) = core r"
  by (simp add: allocDesc_sw_def Let_def split: option.split)

lemma core_newDesc: "core (snd (newDesc_sw r)) = core r"
  using core_alloc [of r] by (simp add: newDesc_sw_def split_beta)

lemma core_upsert: "core (snd (upsert_sw c dep hs seq r)) = core r"
  using core_newDesc [of r] by (simp add: upsert_sw_def split_beta Let_def split: option.split)

lemma core_find: "core (snd (find_desc c r)) = core r"
  using core_upsert by (simp add: find_desc_def)

lemma core_rep: "core (rep_step r) = core r"
  by (simp add: rep_step_def Let_def split: list.split)

lemma core_rep_pow: "core ((rep_step ^^ n) r) = core r"
  by (induction n) (simp_all add: core_rep)

lemma core_free [simp]: "core (freeDesc_sw a r) = core r"
  by (simp add: freeDesc_sw_def)

lemma core_slot: "handle_slot k a c r = Some r' \<Longrightarrow> core r' = core r"
  by (auto simp: handle_slot_def Let_def split: if_splits)

lemma core_wait: "wait_slot a c r = Some r' \<Longrightarrow> core r' = core r"
  by (auto simp: wait_slot_def core_rep_pow Let_def split: if_splits Option.bind_splits prod.splits dest!: core_slot)

lemma core_register: "core (register c ds r) = core r"
proof (induction c ds r rule: register.induct)
  case (2 c d ds r)
  have "core (snd (find_desc d r)) = core r" by (rule core_find)
  with 2 show ?case by (auto split: prod.splits option.splits)
qed simp

subsection \<open>Handlers and what runs in their pauses\<close>

primrec safe :: "'a sw_proc \<Rightarrow> bool \<Rightarrow> ('a \<Rightarrow> sw) \<Rightarrow> sw_CommandId set \<Rightarrow> bool" where
  "safe (P_Ret x) = (\<lambda>Z g E. sw_ok Z E (core (g x)))"
| "safe P_Panic = (\<lambda>Z g E. True)"
| "safe (P_Gap r k) = (\<lambda>Z g E. (Z \<longrightarrow> E = {}) \<longrightarrow>
     (\<exists>c. c \<notin> E \<and> sw_ok Z (Set.insert c E) (core r) \<and>
        (\<forall>E' r'. c \<notin> E' \<longrightarrow> sw_ok Z (Set.insert c E') (core r') \<longrightarrow> safe (k r') Z g E')))"
| "safe (P_Join r k) = (\<lambda>Z g E. sw_ok Z E (core r) \<and>
     (\<forall>E' r'. sw_ok Z E' (core r') \<longrightarrow> safe (k r') Z g E'))"

abbreviation safe_sw :: "bool \<Rightarrow> sw_CommandId set \<Rightarrow> sw sw_proc \<Rightarrow> bool" where
  "safe_sw Z E p \<equiv> safe p Z (\<lambda>r. r) E"

lemma safe_bind:
  "safe p Z g E \<Longrightarrow> (\<And>x E. sw_ok Z E (core (g x)) \<Longrightarrow> safe (f x) Z h E) \<Longrightarrow> safe (proc_then p f) Z h E"
proof (induction p arbitrary: E)
  case (P_Gap r k)
  show ?case
  proof (simp only: proc_then.simps safe.simps, intro impI)
    assume "Z \<longrightarrow> E = {}"
    with P_Gap.prems(1) obtain c where c: "c \<notin> E" "sw_ok Z (Set.insert c E) (core r)"
      "\<forall>E' r'. c \<notin> E' \<longrightarrow> sw_ok Z (Set.insert c E') (core r') \<longrightarrow> safe (k r') Z g E'" by auto
    then show "\<exists>c. c \<notin> E \<and> sw_ok Z (Set.insert c E) (core r) \<and>
        (\<forall>E' r'. c \<notin> E' \<longrightarrow> sw_ok Z (Set.insert c E') (core r') \<longrightarrow> safe (proc_then (k r') f) Z h E')"
      using P_Gap.IH P_Gap.prems(2) by blast
  qed
next
  case (P_Join r k)
  then show ?case by auto
qed simp_all

lemma safe_of_opt: "(\<And>y. x = Some y \<Longrightarrow> sw_ok Z E (core (g y))) \<Longrightarrow> safe (of_opt x) Z g E"
  by (cases x) simp_all

lemma sw_ok_claim:
  assumes "sw_ok Z E (del, st, cl, tr)" and "c \<notin> del" and "set (elems dep) \<subseteq> del" and "Z \<longrightarrow> E = {}"
  shows "c \<notin> E" and "sw_ok Z (Set.insert c E) (Set.insert c del, st, cl @ [(c, dep)], tr)"
proof -
  show "c \<notin> E" using assms(1,2) by (auto simp: sw_ok_def)
  have "claims_ordered (cl @ [(c, dep)])"
    using assms(1-3) by (auto simp: sw_ok_def claims_ordered_def nth_append less_Suc_eq)
  moreover have "Z \<longrightarrow> (\<exists>ps. length ps \<le> 1 \<and> set ps = Set.insert c E \<and> map fst (cl @ [(c, dep)]) = map fst tr @ ps)"
    using assms(1,4) by (auto simp: sw_ok_def intro!: exI [of _ "[c]"])
  ultimately show "sw_ok Z (Set.insert c E) (Set.insert c del, st, cl @ [(c, dep)], tr)"
    using assms(1,2) by (auto simp: sw_ok_def)
qed

lemma sw_ok_execute:
  assumes ok: "sw_ok Z (Set.insert c E) (del, st, cl, tr)" and new: "c \<notin> E" and ex: "Execute cmd st = Some (v, st')"
  shows "sw_ok Z E (del, st', cl, tr @ [(c, cmd)])"
proof -
  have "Z \<longrightarrow> (\<exists>ps. length ps \<le> 1 \<and> set ps = E \<and> map fst cl = map fst (tr @ [(c, cmd)]) @ ps)"
  proof
    assume Z
    then obtain ps where ps: "length ps \<le> 1" "set ps = Set.insert c E" "map fst cl = map fst tr @ ps"
      using ok by (auto simp: sw_ok_def)
    then have "ps = [c]" "E = {}" using new by (cases ps; auto)+
    then show "\<exists>ps. length ps \<le> 1 \<and> set ps = E \<and> map fst cl = map fst (tr @ [(c, cmd)]) @ ps" using ps(3) by auto
  qed
  then show ?thesis using ok new ex by (auto simp: sw_ok_def exec_cmds_append)
qed

lemma execute_sw_core:
  assumes "execute_sw a c p r = Some r'"
  shows "\<exists>v st cmd. Execute cmd (sState r) = Some (v, st) \<and> core r' = (s_delivered r, st, claims (s_out r), execs (s_out r) @ [(c, cmd)])"
  using assms by (fastforce simp: execute_sw_def Let_def emit_def core_def [of "sw.s_out_update _ _"]
      split: if_splits Option.bind_splits prod.splits dest!: core_wait)

lemma deliver_safe:
  assumes "sw_ok Z E (core r)"
  shows "safe_sw Z E (deliver_sw a c r)"
proof -
  let ?d = "desc_at r a"
  show ?thesis
  proof (cases "\<exists>p. ds_propose ?d = Some p \<and> c \<notin> s_delivered r \<and> list_all (\<lambda>c'. c' \<in> s_delivered r) (elems (ds_dep ?d)) \<and>
      deliver_sw a c r = P_Gap (emit (Claimed c (ds_dep ?d)) (r\<lparr>s_delivered := Set.insert c (s_delivered r)\<rparr>))
        (\<lambda>r. of_opt (execute_sw a c p r))")
    case False
    then have "deliver_sw a c r = P_Ret r" by (auto simp: deliver_sw_def Let_def split: option.splits if_splits)
    with assms show ?thesis by simp
  next
    case True
    then obtain p where d: "c \<notin> s_delivered r" "set (elems (ds_dep ?d)) \<subseteq> s_delivered r" and
      eq: "deliver_sw a c r = P_Gap (emit (Claimed c (ds_dep ?d)) (r\<lparr>s_delivered := Set.insert c (s_delivered r)\<rparr>))
        (\<lambda>r. of_opt (execute_sw a c p r))" by (auto simp: list_all_iff)
    show ?thesis
      unfolding eq safe.simps
    proof (intro impI exI [of _ c] conjI allI)
      assume Z: "Z \<longrightarrow> E = {}"
      note claim = sw_ok_claim [OF assms [unfolded core_def] d Z]
      show "c \<notin> E" by (rule claim(1))
      show "sw_ok Z (Set.insert c E) (core (emit (Claimed c (ds_dep ?d)) (r\<lparr>s_delivered := Set.insert c (s_delivered r)\<rparr>)))"
        using claim(2) by (simp add: core_def emit_def)
      fix E' r' assume c: "c \<notin> E'" and ok: "sw_ok Z (Set.insert c E') (core r')"
      show "safe (of_opt (execute_sw a c p r')) Z (\<lambda>r. r) E'"
      proof (rule safe_of_opt)
        fix r2 assume "execute_sw a c p r' = Some r2"
        from execute_sw_core [OF this] ok c show "sw_ok Z E' (core r2)"
          by (auto simp: core_def [of r'] intro: sw_ok_execute)
      qed
    qed
  qed
qed

lemma acks_handler_safe: "sw_ok Z E (core r) \<Longrightarrow> safe_sw Z E (acks_handler a lm r)"
  by (cases lm) (simp_all add: acks_handler_def Let_def core_register deliver_safe)

lemma acks_events_safe: "sw_ok Z E (core r) \<Longrightarrow> safe_sw Z E (acks_events a es r)"
  by (induction a es r arbitrary: E rule: acks_events.induct) (auto intro!: safe_bind acks_handler_safe)

lemma add_slow_safe: "sw_ok Z E (core r) \<Longrightarrow> safe_sw Z E (add_slow a rep l m r)"
  by (simp add: add_slow_def split_beta Let_def acks_events_safe)

lemma add_fast_safe: "sw_ok Z E (core r) \<Longrightarrow> safe_sw Z E (add_fast a rep l m r)"
  by (simp add: add_fast_def split_beta Let_def acks_events_safe)

lemma commonCase_safe: "sw_ok Z E (core r) \<Longrightarrow> safe_sw Z E (commonCaseFastAck m a r)"
  by (auto simp: commonCaseFastAck_def Let_def intro!: safe_bind add_slow_safe add_fast_safe)

lemma light_safe: "sw_ok Z E (core r) \<Longrightarrow> safe_sw Z E (handleLightSlowAck m a r)"
  unfolding handleLightSlowAck_def by (rule commonCase_safe)

lemma core_batcher [simp]:
  "core (SendFastAck f r) = core r" "core (SendLightSlowAck s r) = core r"
  "core (SendFastAckClient f k r) = core r" "core (SendLightSlowAckClient s k r) = core r"
  by (simp_all add: SendFastAck_def SendLightSlowAck_def SendFastAckClient_def SendLightSlowAckClient_def)

lemma leader_ack_light_safe: "sw_ok Z E (core r) \<Longrightarrow> safe_sw Z E (leader_ack_light m a neq r)"
  by (simp add: leader_ack_light_def Let_def light_safe)

lemma leader_ack_defer_core: "core (leader_ack_defer m hs b r) = core r"
  by (simp add: leader_ack_defer_def Let_def)

lemma leader_ack_body_safe:
  assumes "sw_ok Z E (core r)"
  shows "safe_sw Z E (leader_ack_body m a r)"
proof (cases "s_status r \<noteq> SW_NORMAL \<or> s_ballot r \<noteq> fa_Ballot m")
  case True
  with assms show ?thesis by (simp add: leader_ack_body_def)
next
  case False
  then have e: "(s_status r \<noteq> SW_NORMAL \<or> s_ballot r \<noteq> fa_Ballot m) = False" by simp
  show ?thesis
    unfolding leader_ack_body_def e if_False Let_def
    by (rule safe_bind, rule add_slow_safe, simp add: assms, rule safe_bind [where g = "\<lambda>r. r"], simp add: add_fast_safe,
        rule safe_bind [where g = "\<lambda>r. r"], simp add: leader_ack_light_safe, simp add: leader_ack_defer_core)
qed

lemma run_deferred_safe: "sw_ok Z E (core r) \<Longrightarrow> safe_sw Z E (run_deferred ms a r)"
  by (induction ms a r arbitrary: E rule: run_deferred.induct) (auto intro!: safe_bind leader_ack_body_safe)

lemma fastAckFromLeader_safe: "sw_ok Z E (core r) \<Longrightarrow> safe_sw Z E (fastAckFromLeader m a r)"
  by (auto simp: fastAckFromLeader_def intro!: safe_bind run_deferred_safe)

lemma recall_safe: "sw_ok Z E (core r) \<Longrightarrow> safe (recall_sw a r) Z snd E"
  by (auto simp: recall_sw_def intro!: safe_bind run_deferred_safe)

lemma handleFastAck_safe: "sw_ok Z E (core r) \<Longrightarrow> safe_sw Z E (handleFastAck m a r)"
  by (simp add: handleFastAck_def fastAckFromLeader_safe commonCase_safe)

lemma core_seqnum [simp]: "core (if b then r\<lparr>s_seqnum := k\<rparr> else r) = core r"
  by simp

lemma propose_ack_safe: "sw_ok Z E (core r) \<Longrightarrow> safe_sw Z E (propose_ack p a c r)"
  unfolding propose_ack_def Let_def
  by (rule safe_bind [where g = "\<lambda>r. r"]) (simp_all add: deliver_safe handleFastAck_safe)

lemma handlePropose_safe: "sw_ok Z E (core r) \<Longrightarrow> safe_sw Z E (handlePropose_sw p a c r)"
  unfolding handlePropose_sw_def Let_def
  by (auto intro!: safe_bind [where g = snd] recall_safe propose_ack_safe split: prod.split)

lemma handleMsg_safe: "sw_ok Z E (core r) \<Longrightarrow> safe_sw Z E (handleMsg_sw m a c r)"
  by (cases m) (auto simp: handlePropose_safe handleFastAck_safe light_safe deliver_safe intro!: safe_of_opt dest: core_slot)

lemma getCmdDescSeq_safe: "sw_ok Z E (core r) \<Longrightarrow> safe (getCmdDescSeq c msg dep hs seq r) Z snd E"
  using core_upsert [of c dep hs seq r]
  by (auto simp: getCmdDescSeq_def split_beta Let_def intro!: safe_bind handleMsg_safe)

lemma handleDesc_safe:
  assumes "sw_ok Z E (core r)"
  shows "safe_sw Z E (handleDesc_sw c r)"
proof -
  have same: "core (case m of S_Slot _ \<Rightarrow> r\<lparr>s_routineCount := i64 (s_routineCount r - 1)\<rparr> | _ \<Rightarrow> r) = core r" for m r
    by (cases m) simp_all
  show ?thesis
    using assms by (auto simp: handleDesc_sw_def Let_def same split: option.split list.split intro!: safe_bind handleMsg_safe)
qed

subsection \<open>The batcher and recovery\<close>

lemma to_clients_history [simp]:
  "claims (map (\<lambda>(c, f). ToClient (k f) (m f)) xs) = []" "execs (map (\<lambda>(c, f). ToClient (k f) (m f)) xs) = []"
  by (induction xs) auto

lemma core_batch: "core (batch_fast_first r) = core r" "core (batch_slow_first r) = core r"
proof -
  have e: "claims (batch_out i acks n b) = [] \<and> execs (batch_out i acks n b) = []" for i acks n b
    by (simp add: batch_out_def)
  show "core (batch_fast_first r) = core r" "core (batch_slow_first r) = core r"
    by (simp_all add: batch_fast_first_def batch_slow_first_def core_def e Let_def split: list.split prod.split)
qed

lemma core_fold: "(\<And>x r. core (f x r) = core r) \<Longrightarrow> core (fold f xs r) = core r"
  by (induction xs arbitrary: r) simp_all

lemma core_stopDescs: "core (stopDescs os r) = core r"
  unfolding stopDescs_def by (rule core_fold) (simp split: option.split)

lemma core_resync: "core (resync msg c r) = core r"
  by (simp add: resync_def Let_def split: option.split)

lemma core_sync_deps: "core (sync_deps c ds r) = core r"
proof (induction c ds r rule: sync_deps.induct)
  case (2 c d ds r)
  have "core (snd (find_desc d r)) = core r" by (rule core_find)
  with 2 show ?case by (auto simp: Let_def split: prod.splits option.splits)
qed simp

lemma core_sync_desc: "core (sync_desc os msg c a r) = core r"
  by (simp add: sync_desc_def Let_def core_sync_deps)

lemma core_sync_answer: "core (fst (sync_answer msg c desc r)) = core r"
  by (simp add: sync_answer_def Let_def split: option.split)

lemma core_sync_cmd: "core (fst (sync_cmd os msg c r)) = core r"
  using core_find [of c r]
  by (simp add: sync_cmd_def split_beta core_sync_answer core_sync_desc split: option.split)

lemma core_sync_cmds: "core (fst (sync_cmds os msg cs r)) = core r"
proof (induction cs arbitrary: r)
  case (Cons c cs)
  with core_sync_cmd [of os msg c r] show ?case by (simp add: split_beta)
qed simp

lemma run_defers_safe: "sw_ok Z E (core r) \<Longrightarrow> safe_sw Z E (run_defers ds r)"
  by (induction ds r arbitrary: E rule: run_defers.induct) (auto intro!: safe_bind handleFastAck_safe light_safe)

lemma stop_replies_core: "stop_replies r = Some r' \<Longrightarrow> core r' = core r"
  by (auto simp: stop_replies_def split: if_splits)

lemma sync_rest_safe:
  assumes "sw_ok Z E (core r)"
  shows "safe_sw Z E (sync_rest os msg r)"
proof -
  have 1: "core (fold (resync msg) (o_descs os) r) = core r" by (rule core_fold) (rule core_resync)
  have 2: "core (fold (\<lambda>c r. case sw_proposes r c of None \<Rightarrow> r | Some p \<Rightarrow>
             if ms_Phases msg c \<noteq> None then r
             else emit (ToClient (p_ClientId (Propose p)) (C_Accept \<lparr>mc_Replica = sId r, mc_Ballot = s_ballot r,
               mc_CmdId = c, mc_Rep = []\<rparr>)) r) cs r) = core r" for cs r
    by (rule core_fold) (simp split: option.split)
  show ?thesis
    unfolding sync_rest_def Let_def
    by (rule safe_bind [where g = "\<lambda>r. r"])
      (use assms 1 in \<open>auto simp: 2 core_sync_cmds split_beta intro!: safe_of_opt run_defers_safe\<close>)
qed

lemma handleSync_safe: "sw_ok Z E (core r) \<Longrightarrow> safe_sw Z E (handleSync os msg r)"
  unfolding handleSync_def
  by (auto simp: core_stopDescs stop_replies_core intro!: safe_bind [where g = "\<lambda>r. r"] safe_of_opt sync_rest_safe)

lemma handleNewLeaderAckNs_safe: "sw_ok Z E (core r) \<Longrightarrow> safe_sw Z E (handleNewLeaderAckNs os replies r)"
  by (cases "newest replies"; cases "merge_acks (o_acks os (the (newest replies))) (Map.empty, Map.empty, Map.empty)")
    (auto simp: handleNewLeaderAckNs_def Let_def intro!: handleSync_safe)

lemma new_leader_events_safe: "sw_ok Z E (core r) \<Longrightarrow> safe_sw Z E (new_leader_events os es r)"
  by (induction os es r arbitrary: E rule: new_leader_events.induct) (auto intro!: safe_bind handleNewLeaderAckNs_safe)

lemma handleNewLeaderAckN_safe: "sw_ok Z E (core r) \<Longrightarrow> safe_sw Z E (handleNewLeaderAckN os msg r)"
  by (auto simp: handleNewLeaderAckN_def split_beta Let_def new_leader_events_safe split: option.split)

lemma handleNewLeader_safe: "sw_ok Z E (core r) \<Longrightarrow> safe_sw Z E (handleNewLeader os msg r)"
  unfolding handleNewLeader_def
  by (auto simp: core_stopDescs answer_new_leader_def Let_def handleNewLeaderAckN_safe dest!: stop_replies_core
      intro!: safe_bind [where g = "\<lambda>r. r"] safe_of_opt)

lemma on_recover_safe: "sw_ok Z E (core r) \<Longrightarrow> safe_sw Z E (on_recover os b alive r)"
  by (cases "new_ballot b alive r") (simp_all add: on_recover_def Let_def reinitNewLeaderAckNs_def handleNewLeader_safe)

lemma deps_core:
  "key_deps sha cmd c k r = Some (cdep, h, r') \<Longrightarrow> core r' = core r"
  "deps_loop sha cmd c ks r = Some (dep, hs, r') \<Longrightarrow> core r' = core r"
  "getDepAndHashes sha cmd c r = Some (dep, hs, r') \<Longrightarrow> core r' = core r"
proof -
  show 1: "key_deps sha cmd c k r = Some (cdep, h, r') \<Longrightarrow> core r' = core r" for k cdep h r r'
    by (auto simp: key_deps_def Let_def split: Option.bind_splits prod.splits)
  show 2: "deps_loop sha cmd c ks r = Some (dep, hs, r') \<Longrightarrow> core r' = core r" for ks dep hs r
    by (induction ks arbitrary: r dep hs) (auto simp: Option.bind_eq_Some_conv dest: 1)
  show "getDepAndHashes sha cmd c r = Some (dep, hs, r') \<Longrightarrow> core r' = core r"
    by (auto simp: getDepAndHashes_def Option.bind_eq_Some_conv dest: 2)
qed

lemma recordLeaderHash_core: "recordLeaderHash sha c s hs r = Some r' \<Longrightarrow> core r' = core r"
proof -
  have "update_loop sha c s ks hs r = Some r' \<Longrightarrow> core r' = core r" for ks hs r
    by (induction sha c s ks hs r rule: update_loop.induct) (auto simp: Option.bind_eq_Some_conv)
  then show "recordLeaderHash sha c s hs r = Some r' \<Longrightarrow> core r' = core r"
    by (auto simp: recordLeaderHash_def updateLogs_def Option.bind_eq_Some_conv split: option.splits if_splits)
qed

lemma on_propose_safe:
  assumes "sw_ok Z E (core r)"
  shows "safe_sw Z E (on_propose_sw sha p r)"
  unfolding on_propose_sw_def Let_def
proof (rule safe_bind [where g = "\<lambda>x. snd (snd x)"], rule safe_of_opt)
  fix y assume "getDepAndHashes sha (p_Command (Propose p)) (propose_id p) (r\<lparr>sw_proposes := (sw_proposes r)(propose_id p \<mapsto> p)\<rparr>) = Some y"
  then show "sw_ok Z E (core (snd (snd y)))" using assms by (cases y) (simp add: deps_core(3))
next
  fix x :: "sw_CommandId list \<times> SHash list \<times> sw" and E assume x: "sw_ok Z E (core (snd (snd x)))"
  obtain dep hs r1 where x1: "x = (dep, hs, r1)" by (metis prod_cases3)
  show "safe_sw Z E (case x of (dep, hs, r) \<Rightarrow>
     proc_then (case pendingHashUpds r (propose_id p) of
         None \<Rightarrow> P_Ret r
       | Some upd \<Rightarrow> if leader r \<noteq> sId r
           then of_opt (recordLeaderHash sha (propose_id p) (ue_seqnum upd) (ue_hash upd) (r\<lparr>pendingHashUpds := (pendingHashUpds r)(propose_id p := None)\<rparr>))
           else P_Ret r) (\<lambda>r.
     proc_then (getCmdDescSeq (propose_id p) (S_Propose p) (Some dep) (Some hs) (leader r = sId r) r) (\<lambda>(desc, r).
     if desc = None then of_opt (fatal r) else P_Ret r)))"
    unfolding x1 prod.case
    by (rule safe_bind [where g = "\<lambda>r. r"])
      (use x x1 in \<open>auto split: option.split simp: fatal_def intro!: safe_of_opt safe_bind [where g = snd] getCmdDescSeq_safe
          dest!: recordLeaderHash_core\<close>)
qed

lemma on_fastAck_safe: "sw_ok Z E (core r) \<Longrightarrow> safe_sw Z E (on_fastAck sha f r)"
  unfolding on_fastAck_def
  by (rule safe_bind [where g = "\<lambda>r. r"])
    (auto intro!: safe_of_opt safe_bind [where g = snd] getCmdDescSeq_safe dest!: recordLeaderHash_core)

lemma on_light_safe: "sw_ok Z E (core r) \<Longrightarrow> safe_sw Z E (on_lightSlowAck m r)"
  by (auto simp: on_lightSlowAck_def getCmdDesc_sw_def intro!: safe_bind [where g = snd] getCmdDescSeq_safe)

lemma on_each_safe:
  "(\<And>m r E. sw_ok Z E (core r) \<Longrightarrow> safe_sw Z E (f m r)) \<Longrightarrow> sw_ok Z E (core r) \<Longrightarrow> safe_sw Z E (on_each f ms r)"
  by (induction ms arbitrary: r E) (auto intro!: safe_bind)

lemma on_acks_safe: "sw_ok Z E (core r) \<Longrightarrow> safe_sw Z E (on_acks sha m r)"
  by (auto simp: on_acks_def intro!: safe_bind on_each_safe on_fastAck_safe on_light_safe)

lemma on_optAcks_safe: "sw_ok Z E (core r) \<Longrightarrow> safe_sw Z E (on_optAcks sha m r)"
  by (auto simp: on_optAcks_def intro!: on_each_safe on_fastAck_safe)

lemma on_deliver_safe: "sw_ok Z E (core r) \<Longrightarrow> safe_sw Z E (on_deliver k r)"
  by (auto simp: on_deliver_def getCmdDesc_sw_def intro!: safe_bind [where g = snd] getCmdDescSeq_safe)

lemma on_repropose_safe: "sw_ok Z E (core r) \<Longrightarrow> safe_sw Z E (on_repropose sha k r)"
  by (simp add: on_repropose_def on_propose_safe)

lemma loop_handler_safe:
  "loop_handler sha ev = Some f \<Longrightarrow> sw_ok Z E (core r) \<Longrightarrow> safe_sw Z E (f r)"
  by (cases ev) (auto simp: when_normal_def on_propose_safe on_fastAck_safe on_light_safe on_acks_safe on_optAcks_safe
      on_deliver_safe on_repropose_safe handleNewLeader_safe handleNewLeaderAckN_safe handleSync_safe on_recover_safe
      split: list.split)

subsection \<open>The replica with its paused handlers\<close>

definition resumes :: "bool \<Rightarrow> sw_CommandId \<Rightarrow> (sw \<Rightarrow> sw sw_proc) \<Rightarrow> bool" where
  "resumes Z p k \<longleftrightarrow> (\<forall>E r. p \<notin> E \<longrightarrow> sw_ok Z (Set.insert p E) (core r) \<longrightarrow> safe_sw Z E (k r))"

definition joins :: "bool \<Rightarrow> (sw \<Rightarrow> sw sw_proc) \<Rightarrow> bool" where
  "joins Z k \<longleftrightarrow> (\<forall>E r. sw_ok Z E (core r) \<longrightarrow> safe_sw Z E (k r))"

definition go_ok :: "bool \<Rightarrow> (sw_CommandId \<Rightarrow> sw_CommandId) \<Rightarrow> swm \<Rightarrow> bool" where
  "go_ok Z P m \<longleftrightarrow> distinct (map fst (m_go m)) \<and> (\<forall>(c, k) \<in> set (m_go m). resumes Z (P c) k)"

definition loop_ok :: "bool \<Rightarrow> sw_CommandId list \<Rightarrow> swm \<Rightarrow> bool" where
  "loop_ok Z l m \<longleftrightarrow>
     (case m_loop m of
        None \<Rightarrow> l = []
      | Some (False, k) \<Rightarrow> \<exists>p. l = [p] \<and> resumes Z p k
      | Some (True, k) \<Rightarrow> l = [] \<and> joins Z k)"

definition mach_ok :: "bool \<Rightarrow> swm \<Rightarrow> bool" where
  "mach_ok Z m \<longleftrightarrow>
     (\<exists>P l. go_ok Z P m \<and> loop_ok Z l m \<and> distinct (map (P \<circ> fst) (m_go m) @ l) \<and>
        sw_ok Z (set (map (P \<circ> fst) (m_go m) @ l)) (core (m_sw m)))"

text \<open>The number of commands marked as delivered whose execution is still to come.\<close>

definition paused :: "swm \<Rightarrow> nat" where
  "paused m = length (m_go m) + (case m_loop m of Some (False, _) \<Rightarrow> 1 | _ \<Rightarrow> 0)"

lemma loop_ok_paused: "loop_ok Z l m \<Longrightarrow> paused m = length (m_go m) + length l"
  by (auto simp: loop_ok_def paused_def split: option.splits prod.splits bool.splits)

lemma loop_pause_ok:
  assumes p: "safe_sw Z (set (map (P \<circ> fst) (m_go m))) p" and go: "go_ok Z P m"
    and d: "distinct (map (P \<circ> fst) (m_go m))" and h: "loop_pause p m = Some m'" and one_by_one: "Z \<longrightarrow> paused m' \<le> 1"
  shows "mach_ok Z m'"
proof (cases p)
  case (P_Ret r)
  then have m': "m' = m\<lparr>m_sw := r, m_loop := None\<rparr>" using h by simp
  show ?thesis
    unfolding mach_ok_def by (intro exI [of _ P] exI [of _ "[]"]) (use p go d P_Ret in \<open>simp add: m' go_ok_def loop_ok_def\<close>)
next
  case (P_Gap r k)
  then have m': "m' = m\<lparr>m_sw := r, m_loop := Some (False, k)\<rparr>" using h by simp
  have "Z \<longrightarrow> set (map (P \<circ> fst) (m_go m)) = {}" using one_by_one by (simp add: m' paused_def)
  then obtain c where c: "c \<notin> set (map (P \<circ> fst) (m_go m))" "sw_ok Z (Set.insert c (set (map (P \<circ> fst) (m_go m)))) (core r)"
    "resumes Z c k" using p P_Gap unfolding resumes_def by auto
  show ?thesis
    unfolding mach_ok_def by (intro exI [of _ P] exI [of _ "[c]"]) (use c go d in \<open>simp add: m' go_ok_def loop_ok_def\<close>)
next
  case (P_Join r k)
  then have m': "m' = m\<lparr>m_sw := r, m_loop := Some (True, k)\<rparr>" using h by simp
  have "sw_ok Z (set (map (P \<circ> fst) (m_go m))) (core r)" "joins Z k" using p P_Join by (simp_all add: joins_def)
  then show ?thesis
    unfolding mach_ok_def by (intro exI [of _ P] exI [of _ "[]"]) (use go d in \<open>simp add: m' go_ok_def loop_ok_def\<close>)
qed (use h in simp)

lemma go_pause_ok:
  assumes p: "safe_sw Z (set (map (P \<circ> fst) (m_go m) @ l)) p" and go: "go_ok Z P m" and loop: "loop_ok Z l m"
    and d: "distinct (map (P \<circ> fst) (m_go m) @ l)" and c: "c \<notin> fst ` set (m_go m)" and h: "go_pause c p m = Some m'"
    and one_by_one: "Z \<longrightarrow> paused m' \<le> 1"
  shows "mach_ok Z m'"
proof (cases p)
  case (P_Ret r)
  then have m': "m' = m\<lparr>m_sw := r\<rparr>" using h by simp
  show ?thesis
    unfolding mach_ok_def by (intro exI [of _ P] exI [of _ l]) (use p go loop d P_Ret in \<open>simp add: m' go_ok_def loop_ok_def\<close>)
next
  case (P_Gap r k)
  then have m': "m' = m\<lparr>m_sw := r, m_go := (c, k) # m_go m\<rparr>" using h by simp
  have "loop_ok Z l m'" using loop by (simp add: m' loop_ok_def)
  then have "Z \<longrightarrow> set (map (P \<circ> fst) (m_go m) @ l) = {}" using one_by_one loop_ok_paused by (force simp: m')
  then obtain q where q: "q \<notin> set (map (P \<circ> fst) (m_go m) @ l)"
    "sw_ok Z (Set.insert q (set (map (P \<circ> fst) (m_go m) @ l))) (core r)" "resumes Z q k"
    using p P_Gap unfolding resumes_def by auto
  have same: "map (P(c := q) \<circ> fst) (m_go m) = map (P \<circ> fst) (m_go m)" using c by (auto simp: image_iff)
  have "go_ok Z (P(c := q)) m'"
    using go q(3) c by (auto simp: go_ok_def m' image_iff split: prod.splits)
  moreover have "map (P(c := q) \<circ> fst) (m_go m') = q # map (P \<circ> fst) (m_go m)" using same by (simp add: m')
  moreover have "m_sw m' = r" by (simp add: m')
  ultimately show ?thesis
    unfolding mach_ok_def using \<open>loop_ok Z l m'\<close> q d by (intro exI [of _ "P(c := q)"] exI [of _ l]) auto
qed (use h in simp_all)

lemma mach_same_core:
  assumes "mach_ok Z m" and "core (m_sw m') = core (m_sw m)" and "m_go m' = m_go m" and "m_loop m' = m_loop m"
  shows "mach_ok Z m'"
  using assms by (simp add: mach_ok_def go_ok_def loop_ok_def)

lemma other_step_ok:
  assumes ok: "mach_ok Z m" and h: "other_step ev m = Some m'" and one_by_one: "Z \<longrightarrow> paused m' \<le> 1"
  shows "mach_ok Z m'"
proof -
  from ok obtain P l where go: "go_ok Z P m" and loop: "loop_ok Z l m" and d: "distinct (map (P \<circ> fst) (m_go m) @ l)"
    and core: "sw_ok Z (set (map (P \<circ> fst) (m_go m) @ l)) (core (m_sw m))" unfolding mach_ok_def by blast
  show ?thesis
  proof (cases ev)
    case E_BeTheLeader
    then show ?thesis using h by (intro mach_same_core [OF ok]) (auto split: option.splits)
  next
    case E_Loop
    show ?thesis
    proof (cases "m_loop m")
      case None
      then show ?thesis using h E_Loop ok by simp
    next
      case (Some jk)
      then obtain j k where jk: "m_loop m = Some (j, k)" by (cases jk) auto
      show ?thesis
      proof (cases "j \<and> m_go m \<noteq> []")
        case True
        then show ?thesis using h E_Loop ok jk by simp
      next
        case False
        then have "(if j \<and> m_go m \<noteq> [] then Some m else loop_pause (k (m_sw m)) m) = loop_pause (k (m_sw m)) m" by (rule if_not_P)
        then have run: "loop_pause (k (m_sw m)) m = Some m'" using h E_Loop jk by (simp del: de_Morgan_conj)
        have "safe_sw Z (set (map (P \<circ> fst) (m_go m))) (k (m_sw m))"
        proof (cases j)
          case True
          then have "l = []" "joins Z k" using loop jk by (simp_all add: loop_ok_def)
          then show ?thesis using core by (simp add: joins_def)
        next
          case False
          then obtain p where p: "l = [p]" "resumes Z p k" using loop jk by (auto simp: loop_ok_def)
          then have "p \<notin> set (map (P \<circ> fst) (m_go m))" using d by auto
          then show ?thesis using p core unfolding resumes_def by auto
        qed
        from loop_pause_ok [OF this go _ run one_by_one] d show ?thesis by simp
      qed
    qed
  next
    case (E_Desc c)
    show ?thesis
    proof (cases "map_of (m_go m) c")
      case None
      then have "c \<notin> fst ` set (m_go m)" by (simp add: map_of_eq_None_iff)
      moreover have "go_pause c (handleDesc_sw c (m_sw m)) m = Some m'" using h E_Desc None by simp
      ultimately show ?thesis using go_pause_ok [OF handleDesc_safe [OF core] go loop d _ _ one_by_one] by blast
    next
      case (Some k)
      then show ?thesis using h E_Desc ok by simp
    qed
  next
    case (E_Resume c)
    show ?thesis
    proof (cases "map_of (m_go m) c")
      case None
      then show ?thesis using h E_Resume ok by simp
    next
      case (Some k)
      then obtain xs ys where split: "m_go m = xs @ (c, k) # ys" by (auto dest!: map_of_SomeD in_set_conv_decomp [THEN iffD1])
      have c: "c \<notin> fst ` set xs" "c \<notin> fst ` set ys" using go by (auto simp: go_ok_def split)
      define m1 where "m1 = m\<lparr>m_go := xs @ ys\<rparr>"
      have "filter (\<lambda>x. fst x \<noteq> c) xs = xs" "filter (\<lambda>x. fst x \<noteq> c) ys = ys" using c by (auto intro!: filter_True)
      then have "filter (\<lambda>x. fst x \<noteq> c) (m_go m) = xs @ ys" by (simp add: split)
      then have run: "go_pause c (k (m_sw m)) m1 = Some m'" using h E_Resume Some by (simp add: m1_def)
      have go1: "go_ok Z P m1" and loop1: "loop_ok Z l m1" and "resumes Z (P c) k"
        using go loop by (auto simp: go_ok_def loop_ok_def m1_def split)
      moreover have d1: "distinct (map (P \<circ> fst) (m_go m1) @ l)" and "P c \<notin> set (map (P \<circ> fst) (m_go m1) @ l)"
        and "Set.insert (P c) (set (map (P \<circ> fst) (m_go m1) @ l)) = set (map (P \<circ> fst) (m_go m) @ l)"
        using d by (auto simp: m1_def split)
      ultimately have "safe_sw Z (set (map (P \<circ> fst) (m_go m1) @ l)) (k (m_sw m))"
        using core unfolding resumes_def by metis
      moreover have "c \<notin> fst ` set (m_go m1)" using c by (auto simp: m1_def)
      ultimately show ?thesis using go_pause_ok [OF _ go1 loop1 d1 _ run one_by_one] by blast
    qed
  qed (use h in \<open>auto intro!: mach_same_core [OF ok] simp: core_rep core_batch split: if_splits\<close>)
qed

lemma sw_step_ok:
  assumes ok: "mach_ok Z m" and h: "sw_step sha ev m = Some m'" and one_by_one: "Z \<longrightarrow> paused m' \<le> 1"
  shows "mach_ok Z m'"
proof (cases "loop_handler sha ev")
  case None
  then show ?thesis using other_step_ok [OF ok _ one_by_one] h by (simp add: sw_step_def)
next
  case (Some f)
  show ?thesis
  proof (cases "m_loop m = None")
    case True
    from ok obtain P l where go: "go_ok Z P m" and loop: "loop_ok Z l m" and d: "distinct (map (P \<circ> fst) (m_go m) @ l)"
      and core: "sw_ok Z (set (map (P \<circ> fst) (m_go m) @ l)) (core (m_sw m))" unfolding mach_ok_def by blast
    have "l = []" using loop True by (simp add: loop_ok_def)
    with core have "safe_sw Z (set (map (P \<circ> fst) (m_go m))) (f (m_sw m))" using loop_handler_safe [OF Some] by simp
    from loop_pause_ok [OF this go _ _ one_by_one] d h Some True show ?thesis by (simp add: sw_step_def)
  next
    case False
    then show ?thesis using h Some ok by (simp add: sw_step_def if_not_P del: not_None_eq)
  qed
qed

text \<open>Runs in which at most one command is between its mark and its execution at a time.\<close>

fun one_by_one :: "(byte list \<Rightarrow> SHash) \<Rightarrow> sw_event list \<Rightarrow> swm \<Rightarrow> bool" where
  "one_by_one sha [] m = True"
| "one_by_one sha (e # es) m = (case sw_step sha e m of None \<Rightarrow> True | Some m' \<Rightarrow> paused m' \<le> 1 \<and> one_by_one sha es m')"

lemma run_sw_ok:
  "mach_ok Z m \<Longrightarrow> run_sw sha es m = Some m' \<Longrightarrow> (Z \<longrightarrow> one_by_one sha es m) \<Longrightarrow> mach_ok Z m'"
proof (induction es arbitrary: m)
  case (Cons e es)
  then obtain m1 where m1: "sw_step sha e m = Some m1" "run_sw sha es m1 = Some m'" by (auto split: Option.bind_splits)
  then have "Z \<longrightarrow> paused m1 \<le> 1 \<and> one_by_one sha es m1" using Cons.prems(3) by simp
  then show ?case using Cons.IH m1 sw_step_ok [OF Cons.prems(1) m1(1)] by blast
qed simp

lemma New_sw_ok: "New_sw i n exec fr oe pl qf tq slow verb ch md = Some r \<Longrightarrow> mach_ok Z (sw_idle r)"
proof -
  assume "New_sw i n exec fr oe pl qf tq slow verb ch md = Some r"
  then have "sw_ok Z {} (core r)"
    by (auto simp: New_sw_def core_def sw_ok_def claims_ordered_def Let_def Option.bind_eq_Some_conv)
  then show ?thesis unfolding mach_ok_def sw_idle_def by (auto simp: go_ok_def loop_ok_def)
qed

lemma mach_ok_core:
  assumes "mach_ok Z m"
  shows "\<exists>E. sw_ok Z E (core (m_sw m)) \<and> card E = paused m"
proof -
  from assms obtain P l where loop: "loop_ok Z l m" and d: "distinct (map (P \<circ> fst) (m_go m) @ l)"
    and core: "sw_ok Z (set (map (P \<circ> fst) (m_go m) @ l)) (core (m_sw m))" unfolding mach_ok_def by blast
  have "card (set (map (P \<circ> fst) (m_go m) @ l)) = paused m"
    using distinct_card [OF d] loop_ok_paused [OF loop] by simp
  then show ?thesis using core by blast
qed

subsection \<open>The order of execution\<close>

definition ex_put :: "int \<Rightarrow> GPropose" where
  "ex_put n = \<lparr>Propose = \<lparr>p_CommandId = n, p_ClientId = 3,
     p_Command = \<lparr>Op = PUT, K = 7, V = [word_of_int n], CL = 0, Sid = 0\<rparr>, p_Timestamp = 0\<rparr>, Proxy = False, Addr = ''''\<rparr>"

definition ex_id :: "int \<Rightarrow> sw_CommandId" where
  "ex_id n = \<lparr>sw_ClientId = 3, sw_SeqNum = n\<rparr>"

definition ex_new :: "int \<Rightarrow> bool \<Rightarrow> sw option" where
  "ex_new i optexec = New_sw i 3 True False optexec 0 None False [] True (\<lambda>_. None) sw_MaxDescRoutines"

definition ex_run :: "(byte list \<Rightarrow> SHash) \<Rightarrow> int \<Rightarrow> bool \<Rightarrow> sw_event list \<Rightarrow> sw option" where
  "ex_run sha i optexec es = do { r \<leftarrow> ex_new i optexec; m \<leftarrow> run_sw sha es (sw_idle r); Some (m_sw m) }"

lemma delivered_after_dependencies:
  assumes "New_sw i n exec fr oe pl qf tq slow verb choice maxDesc = Some r0"
    and "run_sw sha es (sw_idle r0) = Some m" and "r = m_sw m"
  shows "distinct (map fst (claims (s_out r))) \<and> s_delivered r = fst ` set (claims (s_out r)) \<and>
    (\<forall>j < length (claims (s_out r)).
       set (elems (snd (claims (s_out r) ! j))) \<subseteq> fst ` set (take j (claims (s_out r)))) \<and>
    distinct (map fst (execs (s_out r))) \<and> fst ` set (execs (s_out r)) \<subseteq> s_delivered r \<and>
    card (s_delivered r - fst ` set (execs (s_out r))) = paused m \<and>
    (\<exists>vs. exec_cmds (map snd (execs (s_out r))) InitState = Some (vs, sState r))"
proof -
  from mach_ok_core [OF run_sw_ok [OF New_sw_ok [OF assms(1), of False] assms(2)]] obtain E where
    ok: "sw_ok False E (core r)" and card: "card E = paused m" by (auto simp: assms(3))
  have "s_delivered r - fst ` set (execs (s_out r)) = E \<and> fst ` set (execs (s_out r)) \<subseteq> s_delivered r"
    using ok unfolding sw_ok_def core_def by blast
  with ok card show ?thesis unfolding sw_ok_def core_def claims_ordered_def by simp
qed

lemma one_by_one_execution:
  assumes "New_sw i n exec fr oe pl qf tq slow verb choice maxDesc = Some r0"
    and "run_sw sha es (sw_idle r0) = Some m" and "r = m_sw m" and "one_by_one sha es (sw_idle r0)"
  shows "map fst (execs (s_out r)) = take (length (execs (s_out r))) (map fst (claims (s_out r))) \<and>
    length (claims (s_out r)) = length (execs (s_out r)) + paused m \<and>
    (\<forall>j < length (execs (s_out r)).
       set (elems (snd (claims (s_out r) ! j))) \<subseteq> fst ` set (take j (execs (s_out r))))"
proof -
  from mach_ok_core [OF run_sw_ok [OF New_sw_ok [OF assms(1), of True] assms(2)]] assms(4) obtain E where
    ok: "sw_ok True E (core r)" and card: "card E = paused m" by (auto simp: assms(3))
  from ok obtain ps where ps: "length ps \<le> 1" "set ps = E" "map fst (claims (s_out r)) = map fst (execs (s_out r)) @ ps"
    by (auto simp: sw_ok_def core_def)
  have "length ps = paused m" using ps(1,2) card by (cases ps) auto
  then have len: "length (claims (s_out r)) = length (execs (s_out r)) + paused m"
    using arg_cong [OF ps(3), of length] by simp
  moreover have "\<forall>j < length (execs (s_out r)). set (elems (snd (claims (s_out r) ! j))) \<subseteq> fst ` set (take j (execs (s_out r)))"
  proof (intro allI impI)
    fix j assume j: "j < length (execs (s_out r))"
    then have "set (elems (snd (claims (s_out r) ! j))) \<subseteq> fst ` set (take j (claims (s_out r)))"
      using ok len by (simp add: sw_ok_def core_def claims_ordered_def)
    moreover have "fst ` set (take j (claims (s_out r))) = fst ` set (take j (execs (s_out r)))"
      using arg_cong [OF ps(3), of "\<lambda>xs. set (take j xs)"] j by (simp add: take_map)
    ultimately show "set (elems (snd (claims (s_out r) ! j))) \<subseteq> fst ` set (take j (execs (s_out r)))"
      by simp
  qed
  moreover have "map fst (execs (s_out r)) = take (length (execs (s_out r))) (map fst (claims (s_out r)))"
    by (simp add: ps(3))
  ultimately show ?thesis by blast
qed

text \<open>C9. Whatever messages a replica receives and in whatever order, recovery included, and however the
  goroutines of its descriptors interleave: it marks no command as delivered twice, and it marks a command
  only after all the commands recorded as its dependencies have been marked. It executes no command twice
  and only marked ones, the marked commands that are not executed are as many as the handlers that have
  paused between the two steps, and its store is the result of executing the executed commands in this
  order from the empty store. If in the run no two commands are between their mark and their execution at
  the same time, it executes the commands in the order in which it marks them, and each of them after all
  the commands recorded as its dependencies.\<close>

theorem executed_after_dependencies:
  assumes "New_sw i n exec fr oe pl qf tq slow verb choice maxDesc = Some r0"
    and "run_sw sha es (sw_idle r0) = Some m" and "r = m_sw m"
  shows "distinct (map fst (claims (s_out r))) \<and> s_delivered r = fst ` set (claims (s_out r)) \<and>
    (\<forall>j < length (claims (s_out r)).
       set (elems (snd (claims (s_out r) ! j))) \<subseteq> fst ` set (take j (claims (s_out r)))) \<and>
    distinct (map fst (execs (s_out r))) \<and> fst ` set (execs (s_out r)) \<subseteq> s_delivered r \<and>
    card (s_delivered r - fst ` set (execs (s_out r))) = paused m \<and>
    (\<exists>vs. exec_cmds (map snd (execs (s_out r))) InitState = Some (vs, sState r)) \<and>
    (one_by_one sha es (sw_idle r0) \<longrightarrow>
       map fst (execs (s_out r)) = take (length (execs (s_out r))) (map fst (claims (s_out r))) \<and>
       length (claims (s_out r)) = length (execs (s_out r)) + paused m \<and>
       (\<forall>j < length (execs (s_out r)).
          set (elems (snd (claims (s_out r) ! j))) \<subseteq> fst ` set (take j (execs (s_out r)))))"
  using delivered_after_dependencies [OF assms] impI [OF one_by_one_execution [OF assms]] by (elim conjE, intro conjI) assumption+

theorem executed_after_dependencies_witness:
  "\<exists>r0 m. ex_new 0 True = Some r0 \<and>
     run_sw rev [E_Propose (ex_put 1), E_Loop, E_Propose (ex_put 2)] (sw_idle r0) = Some m \<and>
     one_by_one rev [E_Propose (ex_put 1), E_Loop, E_Propose (ex_put 2)] (sw_idle r0) \<and>
     map fst (claims (s_out (m_sw m))) = [ex_id 1, ex_id 2] \<and>
     map fst (execs (s_out (m_sw m))) = take 1 (map fst (claims (s_out (m_sw m)))) \<and>
     card (s_delivered (m_sw m) - fst ` set (execs (s_out (m_sw m)))) = 1"
proof -
  let ?es = "[E_Propose (ex_put 1), E_Loop, E_Propose (ex_put 2)]"
  let ?m = "Option.bind (ex_new 0 True) (\<lambda>r. map_option (\<lambda>m. (m, one_by_one rev ?es (sw_idle r))) (run_sw rev ?es (sw_idle r)))"
  have "map_option (\<lambda>(m, c). (map fst (claims (s_out (m_sw m))), length (execs (s_out (m_sw m))), paused m, c)) ?m
      = Some ([ex_id 1, ex_id 2], 1, 1, True)" by code_simp
  then obtain r0 m where r0: "ex_new 0 True = Some r0" and m: "run_sw rev ?es (sw_idle r0) = Some m"
    and one_by_one: "one_by_one rev ?es (sw_idle r0)" and v: "map fst (claims (s_out (m_sw m))) = [ex_id 1, ex_id 2]"
      "length (execs (s_out (m_sw m))) = 1" "paused m = 1"
    by (auto simp: Option.bind_eq_Some_conv map_option_eq_Some)
  note props = executed_after_dependencies [OF r0 [unfolded ex_new_def] m refl, unfolded v(2,3)]
  from props have "card (s_delivered (m_sw m) - fst ` set (execs (s_out (m_sw m)))) = 1" by (elim conjE) assumption
  moreover from props have "one_by_one rev ?es (sw_idle r0) \<longrightarrow>
      map fst (execs (s_out (m_sw m))) = take 1 (map fst (claims (s_out (m_sw m))))" by simp
  then have "map fst (execs (s_out (m_sw m))) = take 1 (map fst (claims (s_out (m_sw m))))" using one_by_one by (rule mp)
  ultimately show ?thesis by (intro exI [of _ r0] exI [of _ m] conjI r0 m one_by_one v(1))
qed

subsection \<open>A replica that commits before it has the dependencies\<close>

definition ex_acks :: "(byte list \<Rightarrow> SHash) \<Rightarrow> int \<Rightarrow> int \<Rightarrow> MOptAcks" where
  "ex_acks sha i s =
     \<lparr>oa_Replica = i, oa_Ballot = 0,
      Acks = [\<lparr>ak_CmdId = ex_id 1, ak_Dep = Some [], ak_Checksum = Some [chain sha zero_hash [ex_id 1]], ak_Seqnum = 0\<rparr>,
              \<lparr>ak_CmdId = ex_id 2, ak_Dep = Some [ex_id 1], ak_Checksum = Some [chain sha zero_hash [ex_id 1, ex_id 2]], ak_Seqnum = s\<rparr>]\<rparr>"

fun sent_opt :: "sw_out list \<Rightarrow> MOptAcks list" where
  "sent_opt [] = []"
| "sent_opt (ToAll_OptAcks m # xs) = m # sent_opt xs"
| "sent_opt (_ # xs) = sent_opt xs"

text \<open>What the leader 0 and replica 1 do in the runs below.\<close>

definition ex_leader :: "(byte list \<Rightarrow> SHash) \<Rightarrow> sw_event list" where
  "ex_leader sha = [E_Propose (ex_put 1), E_Propose (ex_put 2), E_BatchFast, E_OptAcks (ex_acks sha 1 0), E_Loop, E_Loop]"

definition ex_follower :: "sw_event list" where
  "ex_follower = [E_Propose (ex_put 1), E_Propose (ex_put 2), E_Desc (ex_id 1), E_Desc (ex_id 2), E_BatchFast]"

lemma ex_leader_run:
  "map_option (\<lambda>r. (sent_opt (s_out r), map fst (execs (s_out r)), Store (sState r) 7)) (ex_run sha 0 False (ex_leader sha))
     = Some ([ex_acks sha 0 1], [ex_id 1, ex_id 2], Some [2])"
  by code_simp

text \<open>C11. Replicas diverge without any failure. Two writes of one key reach the leader 0 and replica 1
  in the same order, and both say that the second depends on the first. Replica 2, which is not in the fast
  quorum, receives the second write and the acknowledgements of the others, the leader's last: with the
  leader's acknowledgement the quorum is complete, and the command is committed and executed with the
  dependencies replica 2 had recorded itself, which are none. The leader's dependencies are stored only
  afterwards. Replica 2 executes the first write when it arrives, and the stores differ for good. No
  goroutine pauses here before another one runs.\<close>

theorem late_dependencies_diverge:
  "\<exists>r0 r1 r2.
     ex_run sha 0 False [E_Propose (ex_put 1), E_Propose (ex_put 2), E_BatchFast, E_OptAcks (ex_acks sha 1 0), E_Loop, E_Loop] = Some r0 \<and>
     ex_run sha 1 False [E_Propose (ex_put 1), E_Propose (ex_put 2), E_Desc (ex_id 1), E_Desc (ex_id 2), E_BatchFast] = Some r1 \<and>
     ex_run sha 2 False [E_Propose (ex_put 2), E_OptAcks (ex_acks sha 1 0), E_OptAcks (ex_acks sha 0 1),
       E_Desc (ex_id 2), E_Desc (ex_id 2), E_Desc (ex_id 2), E_Resume (ex_id 2),
       E_Propose (ex_put 1), E_Desc (ex_id 1), E_Desc (ex_id 1), E_Desc (ex_id 1), E_Resume (ex_id 1)] = Some r2 \<and>
     sent_opt (s_out r0) = [ex_acks sha 0 1] \<and> sent_opt (s_out r1) = [ex_acks sha 1 0] \<and>
     map fst (execs (s_out r0)) = [ex_id 1, ex_id 2] \<and> map fst (execs (s_out r2)) = [ex_id 2, ex_id 1] \<and>
     Store (sState r0) 7 = Some [2] \<and> Store (sState r2) 7 = Some [1]"
proof -
  let ?v = "\<lambda>r. (sent_opt (s_out r), map fst (execs (s_out r)), Store (sState r) 7)"
  have "map_option ?v (ex_run sha 1 False [E_Propose (ex_put 1), E_Propose (ex_put 2), E_Desc (ex_id 1), E_Desc (ex_id 2), E_BatchFast])
      = Some ([ex_acks sha 1 0], [], None)"
    by code_simp
  moreover have "map_option ?v (ex_run sha 2 False [E_Propose (ex_put 2), E_OptAcks (ex_acks sha 1 0), E_OptAcks (ex_acks sha 0 1),
       E_Desc (ex_id 2), E_Desc (ex_id 2), E_Desc (ex_id 2), E_Resume (ex_id 2),
       E_Propose (ex_put 1), E_Desc (ex_id 1), E_Desc (ex_id 1), E_Desc (ex_id 1), E_Resume (ex_id 1)])
      = Some ([], [ex_id 2, ex_id 1], Some [1])"
    by code_simp
  ultimately show ?thesis using ex_leader_run [of sha] by (auto simp: map_option_eq_Some ex_leader_def)
qed

text \<open>C10. A follower executes a command before its dependency. The mark of delivery and the execution are
  two steps of a goroutine, and the goroutine of another command sees the mark: replica 1 has committed two
  writes of a key, the second of which depends on the first. The goroutine of the first has marked its
  command when the goroutine of the second runs, finds the mark, marks its own command and executes it. The
  first write is executed after it, and the store differs from the leader's for good.\<close>

theorem swift_execution_race:
  "\<exists>r0 r1.
     ex_run sha 0 False (ex_leader sha) = Some r0 \<and>
     ex_run sha 1 False (ex_follower @ [E_OptAcks (ex_acks sha 0 1), E_Desc (ex_id 1), E_Desc (ex_id 2),
       E_Resume (ex_id 2), E_Resume (ex_id 1)]) = Some r1 \<and>
     sent_opt (s_out r0) = [ex_acks sha 0 1] \<and> sent_opt (s_out r1) = [ex_acks sha 1 0] \<and>
     claims (s_out r1) = [(ex_id 1, Some []), (ex_id 2, Some [ex_id 1])] \<and>
     map fst (execs (s_out r0)) = [ex_id 1, ex_id 2] \<and> map fst (execs (s_out r1)) = [ex_id 2, ex_id 1] \<and>
     Store (sState r0) 7 = Some [2] \<and> Store (sState r1) 7 = Some [1]"
proof -
  have "map_option (\<lambda>r. (sent_opt (s_out r), claims (s_out r), map fst (execs (s_out r)), Store (sState r) 7))
      (ex_run sha 1 False (ex_follower @ [E_OptAcks (ex_acks sha 0 1), E_Desc (ex_id 1), E_Desc (ex_id 2),
         E_Resume (ex_id 2), E_Resume (ex_id 1)]))
      = Some ([ex_acks sha 1 0], [(ex_id 1, Some []), (ex_id 2, Some [ex_id 1])], [ex_id 2, ex_id 1], Some [1])"
    by code_simp
  then show ?thesis using ex_leader_run [of sha] by (auto simp: map_option_eq_Some)
qed

end
