(* ===== verification/Swift_Client.thy ===== *)
theory Swift_Client
  imports Swift_Run
begin

section \<open>The SwiftPaxos client\<close>

text \<open>
  The client of \<open>src/swift/client.go\<close>, which decides on its own when a command is committed: from the
  reply of the leader and the acknowledgements the other replicas send it.

  \<^item> \<open>swc\<close> is the struct \<open>Client\<close>. \<open>swc_Reply\<close> is what it has sent on the channel \<open>Reply\<close> of its
    \<open>BufferClient\<close>, values with sequence numbers.
  \<^item> The callback \<open>accept\<close> of its collectors also counts slow paths: \<open>accept_calls\<close> lists the calls one
    \<open>Add\<close> makes.
  \<^item> A round of \<open>handleMsgs\<close> is one step; it handles any message that has arrived.
\<close>

subsection \<open>State\<close>

record swc =
  swc_val :: val
  swc_ballot :: int
  swc_delivered :: "sw_CommandId set"
  swc_SQ :: quorum_i
  swc_FQ :: quorum_i
  swc_slowPathH :: "sw_CommandId \<rightharpoonup> MFastAck MsgSet"
  swc_fastPathH :: "sw_CommandId \<rightharpoonup> MFastAck MsgSet"
  swc_slowPaths :: int
  swc_alreadySlow :: "sw_CommandId set"
  swc_Reply :: "(val \<times> int) list"

definition NewClient_sw :: "int \<Rightarrow> swc" where
  "NewClient_sw repNum =
     \<lparr>swc_val = [], swc_ballot = -1, swc_delivered = {}, swc_SQ = NewMajorityOf repNum,
      swc_FQ = NewMajorityOf repNum, swc_slowPathH = Map.empty, swc_fastPathH = Map.empty,
      swc_slowPaths = 0, swc_alreadySlow = {}, swc_Reply = []\<rparr>"

text \<open>The result of \<open>accept\<close>.\<close>

definition accept_checksum :: "MFastAck \<Rightarrow> MFastAck option \<Rightarrow> bool" where
  "accept_checksum m lm =
     (case lm of None \<Rightarrow> True | Some leaderFastAck \<Rightarrow> SHashesEq (elems (fa_Checksum leaderFastAck)) (elems (fa_Checksum m)))"

definition initMsgSets :: "sw_CommandId \<Rightarrow> swc \<Rightarrow> swc" where
  "initMsgSets cId c =
     (let initSlow = (swc_slowPathH c cId = None);
          initFast = (swc_fastPathH c cId = None);
          c = (if initSlow
               then c\<lparr>swc_slowPathH := (swc_slowPathH c)(cId \<mapsto> ReinitMsgSet None (swc_SQ c) accept_checksum)\<rparr> else c)
      in if initFast
         then c\<lparr>swc_fastPathH := (swc_fastPathH c)(cId \<mapsto> ReinitMsgSet None (swc_FQ c) accept_checksum)\<rparr> else c)"

definition count_slow :: "sw_CommandId \<Rightarrow> swc \<Rightarrow> swc" where
  "count_slow cId c =
     (if cId \<in> swc_alreadySlow c then c
      else c\<lparr>swc_slowPaths := i64 (swc_slowPaths c + 1), swc_alreadySlow := Set.insert cId (swc_alreadySlow c)\<rparr>)"

text \<open>The calls of \<open>accept\<close> with a message of the leader.\<close>

definition accept_calls :: "MFastAck MsgSet \<Rightarrow> int \<Rightarrow> bool \<Rightarrow> MFastAck \<Rightarrow> (MFastAck \<times> MFastAck) list" where
  "accept_calls ms repId isLeader m =
     (if \<not> Contains (q ms) repId \<or> leaderMsg ms \<noteq> None \<and> repId \<in> fst ` set (msgs ms) then []
      else if isLeader then map (\<lambda>(_, fmsg). (fmsg, m)) (msgs ms)
      else case leaderMsg ms of None \<Rightarrow> [] | Some lm \<Rightarrow> [(m, lm)])"

definition count_calls :: "(MFastAck \<times> MFastAck) list \<Rightarrow> swc \<Rightarrow> swc" where
  "count_calls calls c =
     fold (\<lambda>(m, lm) c. if Dep_Equals (elems (fa_Dep m)) (elems (fa_Dep lm)) then c else count_slow (fa_CmdId m) c) calls c"

subsection \<open>Handlers\<close>

definition RegisterReply :: "val \<Rightarrow> int \<Rightarrow> swc \<Rightarrow> swc" where
  "RegisterReply v seqnum c = c\<lparr>swc_Reply := swc_Reply c @ [(v, seqnum)]\<rparr>"

definition handleFastAndSlowAcks :: "MFastAck option \<Rightarrow> swc \<Rightarrow> swc" where
  "handleFastAndSlowAcks lm c =
     (case lm of
        None \<Rightarrow> c
      | Some m \<Rightarrow>
          if fa_CmdId m \<in> swc_delivered c then c
          else RegisterReply (swc_val c) (sw_SeqNum (fa_CmdId m))
                 (c\<lparr>swc_delivered := Set.insert (fa_CmdId m) (swc_delivered c)\<rparr>))"

fun client_events :: "MFastAck ms_event list \<Rightarrow> swc \<Rightarrow> swc" where
  "client_events [] c = c"
| "client_events (FreeMsg _ # es) c = client_events es c"
| "client_events (Handle lm _ # es) c = client_events es (handleFastAndSlowAcks lm c)"

text \<open>\<open>Add\<close> on a collector of a command; without one the call would be on a nil pointer.\<close>

definition client_add_fast :: "sw_CommandId \<Rightarrow> int \<Rightarrow> bool \<Rightarrow> MFastAck \<Rightarrow> swc \<Rightarrow> swc option" where
  "client_add_fast cId rep isLeader m c =
     (case swc_fastPathH c cId of
        None \<Rightarrow> None
      | Some ms \<Rightarrow>
          let (ms', evs, _) = Add ms rep isLeader m
          in Some (client_events evs
               (count_calls (accept_calls ms rep isLeader m) (c\<lparr>swc_fastPathH := (swc_fastPathH c)(cId \<mapsto> ms')\<rparr>))))"

definition client_add_slow :: "sw_CommandId \<Rightarrow> int \<Rightarrow> bool \<Rightarrow> MFastAck \<Rightarrow> swc \<Rightarrow> swc option" where
  "client_add_slow cId rep isLeader m c =
     (case swc_slowPathH c cId of
        None \<Rightarrow> None
      | Some ms \<Rightarrow>
          let (ms', evs, _) = Add ms rep isLeader m
          in Some (client_events evs
               (count_calls (accept_calls ms rep isLeader m) (c\<lparr>swc_slowPathH := (swc_slowPathH c)(cId \<mapsto> ms')\<rparr>))))"

definition client_handleFastAck :: "MFastAck \<Rightarrow> bool \<Rightarrow> swc \<Rightarrow> swc option" where
  "client_handleFastAck f fromLeader c =
     (if swc_ballot c \<noteq> -1 \<and> fa_Ballot f < swc_ballot c then Some c
      else
        let c = c\<lparr>swc_ballot := fa_Ballot f\<rparr>
        in if fa_CmdId f \<in> swc_delivered c then Some c
           else client_add_fast (fa_CmdId f) (fa_Replica f) fromLeader f (initMsgSets (fa_CmdId f) c))"

text \<open>The second half of three handlers: the message, without its checksum, on the slow path.\<close>

definition add_slow_copy :: "MFastAck \<Rightarrow> bool \<Rightarrow> swc \<Rightarrow> swc option" where
  "add_slow_copy f isLeader c =
     (if fa_CmdId f \<in> swc_delivered c then Some c
      else client_add_slow (fa_CmdId f) (fa_Replica f) isLeader ((copyFastAck f)\<lparr>fa_Checksum := None\<rparr>)
             (initMsgSets (fa_CmdId f) c))"

definition client_handleLightSlowAck :: "MLightSlowAck \<Rightarrow> swc \<Rightarrow> swc option" where
  "client_handleLightSlowAck ls c =
     (if ls_CmdId ls \<in> swc_delivered c then Some c
      else
        let f = zero_FastAck\<lparr>fa_Replica := ls_Replica ls, fa_Ballot := ls_Ballot ls, fa_CmdId := ls_CmdId ls\<rparr>
        in do { c \<leftarrow> client_handleFastAck f False (count_slow (ls_CmdId ls) c); add_slow_copy f False c })"

definition client_handleReply :: "MReply \<Rightarrow> swc \<Rightarrow> swc option" where
  "client_handleReply r c =
     (if mr_CmdId r \<in> swc_delivered c then Some c
      else
        let f = zero_FastAck\<lparr>fa_Replica := mr_Replica r, fa_Ballot := mr_Ballot r, fa_CmdId := mr_CmdId r,
                  fa_Checksum := mr_Checksum r\<rparr>
        in do { c \<leftarrow> client_handleFastAck f True (c\<lparr>swc_val := mr_Rep r\<rparr>); add_slow_copy f True c })"

definition client_handleAccept :: "MAccept \<Rightarrow> swc \<Rightarrow> swc" where
  "client_handleAccept a c =
     (if mc_CmdId a \<in> swc_delivered c then c
      else RegisterReply (mc_Rep a) (sw_SeqNum (mc_CmdId a))
             (c\<lparr>swc_val := mc_Rep a, swc_delivered := Set.insert (mc_CmdId a) (swc_delivered c)\<rparr>))"

definition client_handleAck :: "MOptAcks \<Rightarrow> Ack \<Rightarrow> swc \<Rightarrow> swc option" where
  "client_handleAck m x c =
     (if ak_CmdId x \<in> swc_delivered c then Some c
      else
        let nil = IsNilDepOfCmdId (ak_CmdId x) (ak_Dep x);
            f = zero_FastAck\<lparr>fa_Replica := oa_Replica m, fa_Ballot := oa_Ballot m, fa_CmdId := ak_CmdId x,
                  fa_Checksum := (if nil then None else ak_Checksum x)\<rparr>
        in do {
          c \<leftarrow> client_handleFastAck f False (if nil then count_slow (ak_CmdId x) c else c);
          if fa_Checksum f = None then add_slow_copy f False c else Some c
        })"

subsection \<open>The loop\<close>

datatype swc_event =
    CE_Reply MReply
  | CE_Accept MAccept
  | CE_FastAck MFastAck
  | CE_FastAckClient MFastAckClient
  | CE_LightSlowAck MLightSlowAck
  | CE_Acks MAcks
  | CE_OptAcks MOptAcks

fun client_each :: "('m \<Rightarrow> swc \<Rightarrow> swc option) \<Rightarrow> 'm list \<Rightarrow> swc \<Rightarrow> swc option" where
  "client_each f [] c = Some c"
| "client_each f (m # ms) c = do { c \<leftarrow> f m c; client_each f ms c }"

fun client_step :: "swc_event \<Rightarrow> swc \<Rightarrow> swc option" where
  "client_step (CE_Reply r) c = client_handleReply r c"
| "client_step (CE_Accept a) c = Some (client_handleAccept a c)"
| "client_step (CE_FastAck f) c = client_handleFastAck f False c"
| "client_step (CE_FastAckClient f) c =
     client_handleFastAck (zero_FastAck\<lparr>fa_Replica := fc_Replica f, fa_Ballot := fc_Ballot f, fa_CmdId := fc_CmdId f,
       fa_Checksum := fc_Checksum f\<rparr>) False c"
| "client_step (CE_LightSlowAck s) c = client_handleLightSlowAck s c"
| "client_step (CE_Acks m) c = do {
     c \<leftarrow> client_each (\<lambda>f. client_handleFastAck (copyFastAck f) False) (FastAcks m) c;
     client_each client_handleLightSlowAck (LightSlowAcks m) c
   }"
| "client_step (CE_OptAcks m) c = client_each (client_handleAck m) (Acks m) c"

fun client_run :: "swc_event list \<Rightarrow> swc \<Rightarrow> swc option" where
  "client_run [] c = Some c"
| "client_run (e # es) c = do { c \<leftarrow> client_step e c; client_run es c }"

definition client_of :: "sw_client_msg \<Rightarrow> swc_event" where
  "client_of m = (case m of C_FastAckClient f \<Rightarrow> CE_FastAckClient f | C_LightSlowAck s \<Rightarrow> CE_LightSlowAck s
     | C_Reply r \<Rightarrow> CE_Reply r | C_Accept a \<Rightarrow> CE_Accept a)"

subsection \<open>Invariant\<close>

text \<open>What an event hands to the collectors: replica, whether it speaks as the leader, and message.\<close>

definition ack_and_copy :: "bool \<Rightarrow> MFastAck \<Rightarrow> (int \<times> bool \<times> MFastAck) list" where
  "ack_and_copy l f = [(fa_Replica f, l, f), (fa_Replica f, l, (copyFastAck f)\<lparr>fa_Checksum := None\<rparr>)]"

definition light_as_fast :: "MLightSlowAck \<Rightarrow> MFastAck" where
  "light_as_fast ls = zero_FastAck\<lparr>fa_Replica := ls_Replica ls, fa_Ballot := ls_Ballot ls, fa_CmdId := ls_CmdId ls\<rparr>"

definition opt_as_fast :: "MOptAcks \<Rightarrow> Ack \<Rightarrow> MFastAck" where
  "opt_as_fast m x = zero_FastAck\<lparr>fa_Replica := oa_Replica m, fa_Ballot := oa_Ballot m, fa_CmdId := ak_CmdId x,
     fa_Checksum := (if IsNilDepOfCmdId (ak_CmdId x) (ak_Dep x) then None else ak_Checksum x)\<rparr>"

definition reply_as_fast :: "MReply \<Rightarrow> MFastAck" where
  "reply_as_fast r = zero_FastAck\<lparr>fa_Replica := mr_Replica r, fa_Ballot := mr_Ballot r, fa_CmdId := mr_CmdId r,
     fa_Checksum := mr_Checksum r\<rparr>"

fun client_acks :: "swc_event \<Rightarrow> (int \<times> bool \<times> MFastAck) set" where
  "client_acks (CE_Reply r) = set (ack_and_copy True (reply_as_fast r))"
| "client_acks (CE_Accept a) = {}"
| "client_acks (CE_FastAck f) = {(fa_Replica f, False, f)}"
| "client_acks (CE_FastAckClient f) =
     {(fc_Replica f, False, zero_FastAck\<lparr>fa_Replica := fc_Replica f, fa_Ballot := fc_Ballot f, fa_CmdId := fc_CmdId f,
       fa_Checksum := fc_Checksum f\<rparr>)}"
| "client_acks (CE_LightSlowAck s) = set (ack_and_copy False (light_as_fast s))"
| "client_acks (CE_Acks m) =
     (\<lambda>f. (fa_Replica f, False, copyFastAck f)) ` set (FastAcks m) \<union>
     (\<Union>s \<in> set (LightSlowAcks m). set (ack_and_copy False (light_as_fast s)))"
| "client_acks (CE_OptAcks m) = (\<Union>x \<in> set (Acks m). set (ack_and_copy False (opt_as_fast m x)))"

definition acks_for :: "sw_CommandId \<Rightarrow> swc_event list \<Rightarrow> (int \<times> bool \<times> MFastAck) set" where
  "acks_for cId es = {(rep, l, m) \<in> (\<Union>e \<in> set es. client_acks e). fa_CmdId m = cId}"

definition accepted :: "swc_event list \<Rightarrow> sw_CommandId set" where
  "accepted es = {mc_CmdId a | a. CE_Accept a \<in> set es}"

definition decided :: "int \<Rightarrow> swc_event list \<Rightarrow> sw_CommandId \<Rightarrow> bool" where
  "decided n es cId \<longleftrightarrow>
     (\<exists>lm l. certified (NewMajorityOf n) accept_checksum (acks_for cId es) (Some lm) l)"

definition set_ok :: "int \<Rightarrow> swc_event list \<Rightarrow> sw_CommandId \<Rightarrow> MFastAck MsgSet \<Rightarrow> bool" where
  "set_ok n es cId ms \<longleftrightarrow>
     q ms = NewMajorityOf n \<and> accept ms = accept_checksum \<and> msg_set_inv (acks_for cId es) ms"

definition swc_inv :: "int \<Rightarrow> swc_event list \<Rightarrow> swc \<Rightarrow> bool" where
  "swc_inv n es c \<longleftrightarrow>
     swc_SQ c = NewMajorityOf n \<and> swc_FQ c = NewMajorityOf n \<and>
     (\<forall>cId ms. swc_slowPathH c cId = Some ms \<longrightarrow> set_ok n es cId ms) \<and>
     (\<forall>cId ms. swc_fastPathH c cId = Some ms \<longrightarrow> set_ok n es cId ms) \<and>
     (\<forall>cId \<in> swc_delivered c. cId \<in> accepted es \<or> decided n es cId) \<and>
     (\<exists>ids. distinct ids \<and> set ids = swc_delivered c \<and> map snd (swc_Reply c) = map sw_SeqNum ids)"

lemma swc_inv_new: "swc_inv n es (NewClient_sw n)"
  by (auto simp: swc_inv_def NewClient_sw_def)

lemma set_ok_new: "set_ok n es cId (ReinitMsgSet None (NewMajorityOf n) accept_checksum)"
  by (simp add: set_ok_def ReinitMsgSet_def NewMsgSet_def msg_set_inv_def)

lemma swc_inv_init [simp]: "swc_inv n es c \<Longrightarrow> swc_inv n es (initMsgSets cId c)"
  by (simp add: initMsgSets_def Let_def swc_inv_def set_ok_new)

lemma initMsgSets_sets:
  "swc_fastPathH (initMsgSets cId c) cId \<noteq> None" "swc_slowPathH (initMsgSets cId c) cId \<noteq> None"
  by (auto simp: initMsgSets_def Let_def)

lemma swc_inv_counters [simp]:
  "swc_inv n es (c\<lparr>swc_slowPaths := k, swc_alreadySlow := S\<rparr>) = swc_inv n es c"
  by (simp add: swc_inv_def)

lemma swc_inv_count_slow: "swc_inv n es (count_slow cId c) = swc_inv n es c"
  by (simp add: count_slow_def)

lemma swc_inv_count_calls: "swc_inv n es (count_calls cs c) = swc_inv n es c"
  unfolding count_calls_def
proof (induction cs arbitrary: c)
  case (Cons x cs)
  then show ?case by (cases x) (simp add: swc_inv_count_slow)
qed simp

lemma swc_inv_deliver:
  assumes "swc_inv n es c" and "cId \<in> accepted es \<or> decided n es cId" and "cId \<notin> swc_delivered c"
  shows "swc_inv n es (RegisterReply v (sw_SeqNum cId) (c\<lparr>swc_delivered := Set.insert cId (swc_delivered c)\<rparr>))"
proof -
  from assms(1) obtain ids where ids: "distinct ids" "set ids = swc_delivered c"
      "map snd (swc_Reply c) = map sw_SeqNum ids" by (auto simp: swc_inv_def)
  then have "distinct (ids @ [cId]) \<and> set (ids @ [cId]) = Set.insert cId (swc_delivered c) \<and>
      map snd (swc_Reply c @ [(v, sw_SeqNum cId)]) = map sw_SeqNum (ids @ [cId])"
    using assms(3) by simp
  then have "\<exists>ids. distinct ids \<and> set ids = Set.insert cId (swc_delivered c) \<and>
      map snd (swc_Reply c @ [(v, sw_SeqNum cId)]) = map sw_SeqNum ids" by blast
  with assms(1,2) show ?thesis unfolding swc_inv_def RegisterReply_def by simp
qed

lemma swc_inv_events:
  assumes "swc_inv n es c" and "\<And>m l. Handle (Some m) l \<in> set evs \<Longrightarrow> decided n es (fa_CmdId m)"
  shows "swc_inv n es (client_events evs c)"
  using assms
proof (induction evs c rule: client_events.induct)
  case (3 lm l evs c)
  have "swc_inv n es (handleFastAndSlowAcks lm c)"
    using "3.prems" by (auto simp: handleFastAndSlowAcks_def split: option.split intro!: swc_inv_deliver)
  then have "swc_inv n es (client_events evs (handleFastAndSlowAcks lm c))"
    by (rule "3.IH") (use "3.prems"(2) in auto)
  then show ?case by simp
qed simp_all

text \<open>A call of \<open>Add\<close> with a message that has arrived keeps the collector in order, and what it hands to
  the handler is decided.\<close>

lemma add_ok:
  assumes "set_ok n es cId ms" and "(rep, l, m) \<in> acks_for cId es" and "Add ms rep l m = (ms', evs, added)"
  shows "set_ok n es cId ms'"
    and "Handle (Some lm) ls \<in> set evs \<Longrightarrow> decided n es (fa_CmdId lm)"
proof -
  from assms(1) have ok: "q ms = NewMajorityOf n" "accept ms = accept_checksum" "msg_set_inv (acks_for cId es) ms"
    by (simp_all add: set_ok_def)
  from Add_inv [OF ok(3) assms(3)] assms(2) have inv: "msg_set_inv (acks_for cId es) ms'"
    by (simp add: insert_absorb)
  then show "set_ok n es cId ms'" using Add_parameters [OF assms(3)] ok by (simp add: set_ok_def)
  assume "Handle (Some lm) ls \<in> set evs"
  from Add_handles [OF assms(3) this] certified_of_inv [OF inv] Add_parameters [OF assms(3)] ok
  have "certified (NewMajorityOf n) accept_checksum (acks_for cId es) (Some lm) ls" by auto
  moreover from this have "fa_CmdId lm = cId" by (auto simp: certified_def acks_for_def)
  ultimately show "decided n es (fa_CmdId lm)" by (auto simp: decided_def)
qed

lemma client_add_inv:
  assumes "swc_inv n es c" and "(rep, l, m) \<in> acks_for cId es"
  shows "swc_fastPathH c cId \<noteq> None \<Longrightarrow> \<exists>c'. client_add_fast cId rep l m c = Some c' \<and> swc_inv n es c'"
    and "swc_slowPathH c cId \<noteq> None \<Longrightarrow> \<exists>c'. client_add_slow cId rep l m c = Some c' \<and> swc_inv n es c'"
proof -
  assume "swc_fastPathH c cId \<noteq> None"
  then obtain ms where ms: "swc_fastPathH c cId = Some ms" by blast
  obtain ms' evs added where A: "Add ms rep l m = (ms', evs, added)" by (cases "Add ms rep l m")
  from assms(1) ms have "set_ok n es cId ms" by (simp add: swc_inv_def)
  note ok = add_ok [OF this assms(2) A]
  have "swc_inv n es (c\<lparr>swc_fastPathH := (swc_fastPathH c)(cId \<mapsto> ms')\<rparr>)"
    using assms(1) ok(1) by (simp add: swc_inv_def)
  with ms A ok(2) show "\<exists>c'. client_add_fast cId rep l m c = Some c' \<and> swc_inv n es c'"
    by (simp add: client_add_fast_def swc_inv_count_calls swc_inv_events)
next
  assume "swc_slowPathH c cId \<noteq> None"
  then obtain ms where ms: "swc_slowPathH c cId = Some ms" by blast
  obtain ms' evs added where A: "Add ms rep l m = (ms', evs, added)" by (cases "Add ms rep l m")
  from assms(1) ms have "set_ok n es cId ms" by (simp add: swc_inv_def)
  note ok = add_ok [OF this assms(2) A]
  have "swc_inv n es (c\<lparr>swc_slowPathH := (swc_slowPathH c)(cId \<mapsto> ms')\<rparr>)"
    using assms(1) ok(1) by (simp add: swc_inv_def)
  with ms A ok(2) show "\<exists>c'. client_add_slow cId rep l m c = Some c' \<and> swc_inv n es c'"
    by (simp add: client_add_slow_def swc_inv_count_calls swc_inv_events)
qed

lemma client_handleFastAck_inv:
  assumes "swc_inv n es c" and "(fa_Replica f, l, f) \<in> acks_for (fa_CmdId f) es"
  shows "\<exists>c'. client_handleFastAck f l c = Some c' \<and> swc_inv n es c'"
proof -
  have "swc_inv n es (c\<lparr>swc_ballot := fa_Ballot f\<rparr>)" using assms(1) by (simp add: swc_inv_def)
  with assms show ?thesis
    using client_add_inv(1) [OF swc_inv_init assms(2) initMsgSets_sets(1)]
    by (simp add: client_handleFastAck_def Let_def)
qed

lemma add_slow_copy_inv:
  assumes "swc_inv n es c" and "(fa_Replica f, l, (copyFastAck f)\<lparr>fa_Checksum := None\<rparr>) \<in> acks_for (fa_CmdId f) es"
  shows "\<exists>c'. add_slow_copy f l c = Some c' \<and> swc_inv n es c'"
  using assms client_add_inv(2) [OF swc_inv_init assms(2) initMsgSets_sets(2)]
  by (simp add: add_slow_copy_def)

lemma ack_and_copy_inv:
  assumes "swc_inv n es c" and "set (ack_and_copy l f) \<subseteq> (\<Union>e \<in> set es. client_acks e)"
  shows "\<exists>c'. Option.bind (client_handleFastAck f l c) (add_slow_copy f l) = Some c' \<and> swc_inv n es c'"
proof -
  from assms(2) have a: "(fa_Replica f, l, f) \<in> acks_for (fa_CmdId f) es"
      "(fa_Replica f, l, (copyFastAck f)\<lparr>fa_Checksum := None\<rparr>) \<in> acks_for (fa_CmdId f) es"
    by (auto simp: ack_and_copy_def acks_for_def copyFastAck_def)
  from client_handleFastAck_inv [OF assms(1) a(1)] add_slow_copy_inv [OF _ a(2)] show ?thesis by fastforce
qed

lemma light_inv:
  assumes "swc_inv n es c" and "set (ack_and_copy False (light_as_fast s)) \<subseteq> (\<Union>e \<in> set es. client_acks e)"
  shows "\<exists>c'. client_handleLightSlowAck s c = Some c' \<and> swc_inv n es c'"
  using assms ack_and_copy_inv [of n es "count_slow (ls_CmdId s) c" False "light_as_fast s"]
  by (simp add: client_handleLightSlowAck_def light_as_fast_def swc_inv_count_slow Let_def)

lemma reply_inv:
  assumes "swc_inv n es c" and "set (ack_and_copy True (reply_as_fast r)) \<subseteq> (\<Union>e \<in> set es. client_acks e)"
  shows "\<exists>c'. client_handleReply r c = Some c' \<and> swc_inv n es c'"
proof -
  have "swc_inv n es (c\<lparr>swc_val := mr_Rep r\<rparr>)" using assms(1) by (simp add: swc_inv_def)
  from ack_and_copy_inv [OF this assms(2)] assms(1) show ?thesis
    by (simp add: client_handleReply_def reply_as_fast_def Let_def)
qed

lemma opt_inv:
  assumes "swc_inv n es c" and "set (ack_and_copy False (opt_as_fast m x)) \<subseteq> (\<Union>e \<in> set es. client_acks e)"
  shows "\<exists>c'. client_handleAck m x c = Some c' \<and> swc_inv n es c'"
proof -
  let ?c = "if IsNilDepOfCmdId (ak_CmdId x) (ak_Dep x) then count_slow (ak_CmdId x) c else c"
  have i: "swc_inv n es ?c" using assms(1) by (simp add: swc_inv_count_slow)
  from assms(2) have a: "(fa_Replica (opt_as_fast m x), False, opt_as_fast m x) \<in> acks_for (fa_CmdId (opt_as_fast m x)) es"
    by (auto simp: ack_and_copy_def acks_for_def)
  from ack_and_copy_inv [OF i assms(2)] client_handleFastAck_inv [OF i a] assms(1) show ?thesis
    by (auto simp: client_handleAck_def opt_as_fast_def Let_def)
qed

lemma client_each_inv:
  assumes "\<And>m c. m \<in> set ms \<Longrightarrow> swc_inv n es c \<Longrightarrow> \<exists>c'. f m c = Some c' \<and> swc_inv n es c'" and "swc_inv n es c"
  shows "\<exists>c'. client_each f ms c = Some c' \<and> swc_inv n es c'"
  using assms
proof (induction ms arbitrary: c)
  case (Cons m ms)
  from Cons.prems obtain c1 where "f m c = Some c1" "swc_inv n es c1" by fastforce
  with Cons show ?case by simp
qed simp

lemma client_step_inv:
  assumes "swc_inv n es c" and "e \<in> set es"
  shows "\<exists>c'. client_step e c = Some c' \<and> swc_inv n es c'"
proof -
  have sub: "client_acks e \<subseteq> (\<Union>e \<in> set es. client_acks e)" using assms(2) by blast
  show ?thesis
  proof (cases e)
    case (CE_Reply r)
    with sub assms(1) show ?thesis using reply_inv by simp
  next
    case (CE_Accept a)
    then have "mc_CmdId a \<in> accepted es" using assms(2) by (auto simp: accepted_def)
    moreover have "swc_inv n es (c\<lparr>swc_val := mc_Rep a\<rparr>)" using assms(1) by (simp add: swc_inv_def)
    ultimately show ?thesis
      using swc_inv_deliver [of n es "c\<lparr>swc_val := mc_Rep a\<rparr>" "mc_CmdId a" "mc_Rep a"] assms(1) CE_Accept
      by (simp add: client_handleAccept_def)
  next
    case (CE_FastAck f)
    with sub assms(1) show ?thesis
      using client_handleFastAck_inv [of n es c f False] by (simp add: acks_for_def)
  next
    case (CE_FastAckClient f)
    with sub assms(1) show ?thesis
      using client_handleFastAck_inv [of n es c "zero_FastAck\<lparr>fa_Replica := fc_Replica f, fa_Ballot := fc_Ballot f,
        fa_CmdId := fc_CmdId f, fa_Checksum := fc_Checksum f\<rparr>" False] by (simp add: acks_for_def)
  next
    case (CE_LightSlowAck s)
    with sub assms(1) show ?thesis using light_inv by simp
  next
    case (CE_Acks m)
    have "\<exists>c'. client_each (\<lambda>f. client_handleFastAck (copyFastAck f) False) (FastAcks m) c = Some c' \<and> swc_inv n es c'"
    proof (rule client_each_inv [OF _ assms(1)])
      fix f c assume "f \<in> set (FastAcks m)" and "swc_inv n es c"
      with sub CE_Acks show "\<exists>c'. client_handleFastAck (copyFastAck f) False c = Some c' \<and> swc_inv n es c'"
        by (intro client_handleFastAck_inv) (auto simp: acks_for_def copyFastAck_def)
    qed
    then obtain c1 where c1: "client_each (\<lambda>f. client_handleFastAck (copyFastAck f) False) (FastAcks m) c = Some c1"
      "swc_inv n es c1" by blast
    have "\<exists>c'. client_each client_handleLightSlowAck (LightSlowAcks m) c1 = Some c' \<and> swc_inv n es c'"
    proof (rule client_each_inv [OF _ c1(2)])
      fix s c assume "s \<in> set (LightSlowAcks m)" and "swc_inv n es c"
      with sub CE_Acks show "\<exists>c'. client_handleLightSlowAck s c = Some c' \<and> swc_inv n es c'"
        by (intro light_inv) auto
    qed
    with c1 CE_Acks show ?thesis by simp
  next
    case (CE_OptAcks m)
    have "\<exists>c'. client_each (client_handleAck m) (Acks m) c = Some c' \<and> swc_inv n es c'"
    proof (rule client_each_inv [OF _ assms(1)])
      fix x c assume "x \<in> set (Acks m)" and "swc_inv n es c"
      with sub CE_OptAcks show "\<exists>c'. client_handleAck m x c = Some c' \<and> swc_inv n es c'"
        by (intro opt_inv) auto
    qed
    with CE_OptAcks show ?thesis by simp
  qed
qed

lemma client_run_inv:
  "swc_inv n es c \<Longrightarrow> set es' \<subseteq> set es \<Longrightarrow> \<exists>c'. client_run es' c = Some c' \<and> swc_inv n es c'"
proof (induction es' arbitrary: c)
  case (Cons e es')
  then obtain c1 where "client_step e c = Some c1" "swc_inv n es c1" using client_step_inv [of n es c e] by auto
  with Cons show ?case by simp
qed simp

subsection \<open>Properties\<close>

lemma decided_majority:
  assumes "0 \<le> n" and "decided n es cId"
  shows "\<exists>l lm reps. (l, True, lm) \<in> acks_for cId es \<and> distinct reps \<and> n div 2 \<le> int (length reps) \<and>
     (\<forall>r \<in> set reps. \<exists>m. (r, False, m) \<in> acks_for cId es \<and>
        SHashesEq (elems (fa_Checksum lm)) (elems (fa_Checksum m))) \<and>
     (l \<notin> set reps \<longrightarrow> n < 2 * int (card (Set.insert l (set reps))))"
proof -
  from assms(2) obtain lm ms where "certified (NewMajorityOf n) accept_checksum (acks_for cId es) (Some lm) ms"
    by (auto simp: decided_def)
  then obtain l reps where acc: "\<forall>m \<in> set ms. accept_checksum m (Some lm)" and len: "length reps = length ms" and
    d: "distinct reps" and frm: "\<forall>i < length ms. (reps ! i, False, ms ! i) \<in> acks_for cId es" and
    size: "Size (NewMajorityOf n) - 1 \<le> int (length reps)" and l: "(l, True, lm) \<in> acks_for cId es"
    by (auto simp: certified_def)
  have n: "n div 2 \<le> int (length reps)" using size assms(1) by (cases "n = 0") (simp_all add: NewMajorityOf_def signed_divide_int_def)
  have "\<exists>m. (r, False, m) \<in> acks_for cId es \<and> SHashesEq (elems (fa_Checksum lm)) (elems (fa_Checksum m))"
    if "r \<in> set reps" for r
  proof -
    from that obtain i where "i < length ms" "reps ! i = r" using len by (auto simp: in_set_conv_nth)
    then show ?thesis using frm acc by (auto simp: accept_checksum_def intro!: exI [of _ "ms ! i"])
  qed
  moreover have "l \<notin> set reps \<longrightarrow> n < 2 * int (card (Set.insert l (set reps)))"
    using n d by (auto simp: distinct_card)
  ultimately show ?thesis using l d n by (intro exI [of _ l] exI [of _ lm] exI [of _ reps]) simp
qed

text \<open>C14. What the client reports has been decided: it never panics, it reports a command at most once, and
  for each command it reports it has a replica's word that the command was accepted, or an answer of the
  leader and acknowledgements of \<open>n div 2\<close> different replicas, each with a checksum that passes the
  comparison with the leader's. If the replica that answered as the leader is none of these, they are a
  majority of the \<open>n\<close> replicas together with it. The collector does not keep the two apart: a replica that
  sends an acknowledgement and answers as the leader is counted twice.\<close>

theorem client_reports_decided:
  assumes "0 \<le> n"
  shows "\<exists>c ids. client_run es (NewClient_sw n) = Some c \<and> distinct ids \<and>
     map snd (swc_Reply c) = map sw_SeqNum ids \<and>
     (\<forall>cId \<in> set ids. cId \<in> accepted es \<or>
        (\<exists>l lm reps. (l, True, lm) \<in> acks_for cId es \<and> distinct reps \<and> n div 2 \<le> int (length reps) \<and>
           (\<forall>r \<in> set reps. \<exists>m. (r, False, m) \<in> acks_for cId es \<and>
              SHashesEq (elems (fa_Checksum lm)) (elems (fa_Checksum m))) \<and>
           (l \<notin> set reps \<longrightarrow> n < 2 * int (card (Set.insert l (set reps))))))"
proof -
  from client_run_inv [OF swc_inv_new [of n es] subset_refl] obtain c where
    c: "client_run es (NewClient_sw n) = Some c" "swc_inv n es c" by blast
  then obtain ids where ids: "distinct ids" "set ids = swc_delivered c" "map snd (swc_Reply c) = map sw_SeqNum ids"
    by (auto simp: swc_inv_def)
  have "\<forall>cId \<in> set ids. cId \<in> accepted es \<or> decided n es cId" using c(2) ids(2) by (simp add: swc_inv_def)
  then show ?thesis
    by (intro exI [of _ c] exI [of _ ids] conjI c(1) ids(1,3) ballI) (use decided_majority [OF assms] in blast)
qed

definition ex_reply :: "int \<Rightarrow> val \<Rightarrow> MReply" where
  "ex_reply s v = \<lparr>mr_Replica = 0, mr_Ballot = 0, mr_CmdId = \<lparr>sw_ClientId = 3, sw_SeqNum = s\<rparr>,
     mr_Checksum = Some [zero_hash], mr_Rep = v\<rparr>"

definition ex_fast :: "int \<Rightarrow> int \<Rightarrow> MFastAckClient" where
  "ex_fast i s = \<lparr>fc_Replica = i, fc_Ballot = 0, fc_CmdId = \<lparr>sw_ClientId = 3, sw_SeqNum = s\<rparr>,
     fc_Checksum = Some [zero_hash]\<rparr>"

theorem client_reports_decided_witness:
  "\<exists>c l lm reps. client_run [CE_FastAckClient (ex_fast 1 5), CE_Reply (ex_reply 5 [7])] (NewClient_sw 3) = Some c \<and>
     swc_Reply c = [([7], 5)] \<and> distinct (reps :: int list) \<and> 1 \<le> length reps \<and>
     (l, True, lm) \<in> acks_for \<lparr>sw_ClientId = 3, sw_SeqNum = 5\<rparr> [CE_FastAckClient (ex_fast 1 5), CE_Reply (ex_reply 5 [7])] \<and>
     (\<forall>r \<in> set reps. \<exists>m. (r, False, m) \<in> acks_for \<lparr>sw_ClientId = 3, sw_SeqNum = 5\<rparr>
        [CE_FastAckClient (ex_fast 1 5), CE_Reply (ex_reply 5 [7])])"
proof -
  let ?es = "[CE_FastAckClient (ex_fast 1 5), CE_Reply (ex_reply 5 [7])]" and ?id = "\<lparr>sw_ClientId = 3, sw_SeqNum = 5\<rparr>"
  have run: "map_option swc_Reply (client_run ?es (NewClient_sw 3)) = Some [([7], 5)]"
    by code_simp
  have none: "accepted ?es = {}" by (simp add: accepted_def)
  have "0 \<le> (3 :: int)" by simp
  from client_reports_decided [OF this, of ?es] show ?thesis
  proof (elim exE conjE)
    fix c ids assume c: "client_run ?es (NewClient_sw 3) = Some c" and ids: "map snd (swc_Reply c) = map sw_SeqNum ids"
      and all: "\<forall>cId \<in> set ids. cId \<in> accepted ?es \<or>
        (\<exists>l lm reps. (l, True, lm) \<in> acks_for cId ?es \<and> distinct reps \<and> 3 div 2 \<le> int (length reps) \<and>
           (\<forall>r \<in> set reps. \<exists>m. (r, False, m) \<in> acks_for cId ?es \<and>
              SHashesEq (elems (fa_Checksum lm)) (elems (fa_Checksum m))) \<and>
           (l \<notin> set reps \<longrightarrow> 3 < 2 * int (card (Set.insert l (set reps)))))"
    have reply: "swc_Reply c = [([7], 5)]" using run c by simp
    then obtain k where "ids = [k]" using ids by (cases ids) auto
    with bspec [OF all, of k] none have "\<exists>l lm reps. (l, True, lm) \<in> acks_for k ?es \<and> distinct reps \<and> 3 div 2 \<le> int (length reps) \<and>
      (\<forall>r \<in> set reps. \<exists>m. (r, False, m) \<in> acks_for k ?es)" by (simp only: list.set insertCI empty_iff simp_thms) blast
    then obtain l lm reps where cert: "(l, True, lm) \<in> acks_for k ?es" "distinct reps" "3 div 2 \<le> int (length reps)"
      "\<forall>r \<in> set reps. \<exists>m. (r, False, m) \<in> acks_for k ?es" by blast
    from cert(1) have "k = ?id"
      by (auto simp: acks_for_def ack_and_copy_def reply_as_fast_def copyFastAck_def ex_reply_def ex_fast_def)
    with c reply cert show ?thesis by (intro exI [of _ c] exI [of _ l] exI [of _ lm] exI [of _ reps]) simp
  qed
qed

end
