(* ===== verification/Swift_Recovery.thy ===== *)
theory Swift_Recovery
  imports Swift_Props Swift_Client
begin

section \<open>Recovery in SwiftPaxos\<close>

text \<open>
  What recovery does to commands in flight. The scenarios run the replicas and the client against each
  other: \<open>to_clients\<close>, \<open>sent_new_leader\<close>, \<open>sent_new_leader_ack\<close> and \<open>sent_sync\<close> are the messages a
  replica has sent.
\<close>

fun to_clients :: "sw_out list \<Rightarrow> sw_client_msg list" where
  "to_clients [] = []"
| "to_clients (ToClient _ m # xs) = m # to_clients xs"
| "to_clients (_ # xs) = to_clients xs"

fun sent_new_leader :: "sw_out list \<Rightarrow> MNewLeader list" where
  "sent_new_leader [] = []"
| "sent_new_leader (ToAll_NewLeader m # xs) = m # sent_new_leader xs"
| "sent_new_leader (_ # xs) = sent_new_leader xs"

fun sent_new_leader_ack :: "sw_out list \<Rightarrow> (int \<times> MNewLeaderAckN) list" where
  "sent_new_leader_ack [] = []"
| "sent_new_leader_ack (To_NewLeaderAckN i m # xs) = (i, m) # sent_new_leader_ack xs"
| "sent_new_leader_ack (_ # xs) = sent_new_leader_ack xs"

fun sent_sync :: "sw_out list \<Rightarrow> MSync list" where
  "sent_sync [] = []"
| "sent_sync (ToAll_Sync m # xs) = m # sent_sync xs"
| "sent_sync (_ # xs) = sent_sync xs"

definition ex_get :: "int \<Rightarrow> GPropose" where
  "ex_get n = (ex_put n)\<lparr>Propose := (Propose (ex_put n))\<lparr>p_Command := \<lparr>Op = GET, K = 7, V = [], CL = 0, Sid = 0\<rparr>\<rparr>\<rparr>"

text \<open>Orders in which the descriptors \<open>cs\<close> and the proposals \<open>ps\<close> may be visited when the synchronisation is
  empty.\<close>

definition ex_orders :: "sw_CommandId list \<Rightarrow> sw_CommandId list \<Rightarrow> orders" where
  "ex_orders cs ps = \<lparr>o_descs = cs, o_proposes = ps, o_acks = (\<lambda>xs. xs), o_sorted = [], o_late = (\<lambda>c. c)\<rparr>"

subsection \<open>A write that was acknowledged is lost\<close>

text \<open>The leader 0 executes a write, tells the others, executes a second write and fails. Replicas 1 and 2
  deliver the first write, and receive the second one from the client.\<close>

definition ex_old_leader :: "sw_event list" where
  "ex_old_leader = [E_Propose (ex_put 1), E_Loop, E_Reply, E_BatchFast, E_Propose (ex_put 2), E_Loop, E_Reply]"

definition ex_survivor :: "MOptAcks \<Rightarrow> sw_event list" where
  "ex_survivor x =
     [E_Propose (ex_put 1), E_Desc (ex_id 1), E_BatchFast, E_OptAcks x, E_Desc (ex_id 1), E_Resume (ex_id 1), E_Reply,
      E_Desc (ex_id 1), E_Propose (ex_put 2), E_Desc (ex_id 2), E_BatchFast]"

definition ex_before_sync :: orders where
  "ex_before_sync = ex_orders [ex_id 2] [ex_id 1, ex_id 2]"

definition ex_new_leader :: "MOptAcks \<Rightarrow> MNewLeaderAckN \<Rightarrow> sw_event list" where
  "ex_new_leader x a = ex_survivor x @
     [E_BeTheLeader, E_Recover ex_before_sync (\<lambda>i. i = 2), E_Loop, E_NewLeaderAckN ex_before_sync a]"

definition ex_voter :: "MOptAcks \<Rightarrow> MNewLeader \<Rightarrow> MSync \<Rightarrow> sw_event list" where
  "ex_voter x m s = ex_survivor x @ [E_NewLeader ex_before_sync m, E_Loop, E_Sync ex_before_sync s]"

text \<open>Afterwards both receive a read of the key.\<close>

definition ex_after :: "sw_event list" where
  "ex_after = [E_Propose (ex_get 3), E_Loop, E_Desc (ex_id 3), E_Reply, E_BatchFast]"

text \<open>C12. A write that the client has reported is lost. The leader 0 executes two writes and answers, replica
  1 acknowledges both on the fast path, and with these messages the client reports them. The leader's
  acknowledgement of the first write reaches the others, which deliver it; replica 0 fails before it has
  sent that of the second one. The master makes replica 1 the leader, with the vote of replica 2. It
  knows the second write in the phase PRE_ACCEPT only, which recovery does not consider, so the
  synchronisation it sends is empty. The read the client now sends is executed without the second write, and
  the client reports the value of the first.\<close>

theorem acknowledged_write_lost:
  "\<exists>r0 r1 r2 x m a s c c'.
     ex_run sha 0 True ex_old_leader = Some r0 \<and>
     ex_run sha 1 True (ex_new_leader x a @ ex_after) = Some r1 \<and>
     ex_run sha 2 True (ex_voter x m s @ ex_after) = Some r2 \<and>
     sent_opt (s_out r0) = [x] \<and>
     sent_new_leader (s_out r1) = [m] \<and> sent_new_leader_ack (s_out r2) = [(1, a)] \<and> sent_sync (s_out r1) = [s] \<and>
     Store (sState r0) 7 = Some [2] \<and> Store (sState r1) 7 = Some [1] \<and> Store (sState r2) 7 = Some [1] \<and>
     client_run (map client_of (to_clients (s_out r0) @ take 2 (to_clients (s_out r1)))) (NewClient_sw 3) = Some c \<and>
     swc_Reply c = [([], 1), ([], 2)] \<and>
     client_run (map client_of (drop 2 (to_clients (s_out r1)) @ to_clients (s_out r2))) c = Some c' \<and>
     swc_Reply c' = [([], 1), ([], 2), ([1], 3)]"
proof -
  let ?h = "\<lambda>n. chain sha zero_hash (map ex_id [1..n])"
  let ?x = "\<lparr>oa_Replica = 0, oa_Ballot = 0,
      Acks = [\<lparr>ak_CmdId = ex_id 1, ak_Dep = Some [], ak_Checksum = Some [?h 1], ak_Seqnum = 0\<rparr>]\<rparr>"
  let ?m = "\<lparr>nl_Replica = 1, nl_Ballot = 4\<rparr>"
  let ?a = "\<lparr>nn_Replica = 2, nn_Ballot = 4, nn_Cballot = 0, nn_CmdIds = [ex_id 2], nn_Phases = [SW_START],
    nn_Cmds = [p_Command (Propose (ex_put 2))], nn_Deps = [\<lparr>sd_Dep = None\<rparr>]\<rparr>"
  let ?accept = "\<lambda>i n. C_Accept \<lparr>mc_Replica = i, mc_Ballot = 4, mc_CmdId = ex_id n, mc_Rep = []\<rparr>"
  let ?reply = "\<lambda>i b n v. C_Reply \<lparr>mr_Replica = i, mr_Ballot = b, mr_CmdId = ex_id n, mr_Checksum = Some [?h n], mr_Rep = v\<rparr>"
  let ?fast = "\<lambda>i b n. C_FastAckClient \<lparr>fc_Replica = i, fc_Ballot = b, fc_CmdId = ex_id n, fc_Checksum = Some [?h n]\<rparr>"
  let ?light = "\<lambda>i. C_LightSlowAck \<lparr>ls_Replica = i, ls_Ballot = 0, ls_CmdId = ex_id 1\<rparr>"
  let ?to1 = "[?fast 1 0 1, ?fast 1 0 2, ?light 1, ?accept 1 1, ?accept 1 2, ?reply 1 4 3 [1]]"
  let ?to2 = "[?accept 2 1, ?accept 2 2, ?fast 2 4 3, ?light 2]"
  have "map_option (\<lambda>r. (to_clients (s_out r), sent_opt (s_out r), Store (sState r) 7)) (ex_run sha 0 True ex_old_leader)
      = Some ([?reply 0 0 1 [], ?reply 0 0 2 []], [?x], Some [2])"
    by code_simp
  then obtain r0 where r0: "ex_run sha 0 True ex_old_leader = Some r0" "sent_opt (s_out r0) = [?x]"
    "to_clients (s_out r0) = [?reply 0 0 1 [], ?reply 0 0 2 []]" "Store (sState r0) 7 = Some [2]" by auto
  have "map_option (\<lambda>r. (to_clients (s_out r), sent_new_leader (s_out r), length (sent_sync (s_out r)), Store (sState r) 7))
      (ex_run sha 1 True (ex_new_leader ?x ?a @ ex_after)) = Some (?to1, [?m], 1, Some [1])"
    by code_simp
  then obtain r1 s where r1: "ex_run sha 1 True (ex_new_leader ?x ?a @ ex_after) = Some r1" "to_clients (s_out r1) = ?to1"
    "sent_new_leader (s_out r1) = [?m]" "sent_sync (s_out r1) = [s]" "Store (sState r1) 7 = Some [1]"
    by (auto simp: length_Suc_conv)
  have "(case ex_run sha 1 True (ex_new_leader ?x ?a @ ex_after) of None \<Rightarrow> None
      | Some r1 \<Rightarrow> map_option (\<lambda>r. (to_clients (s_out r), sent_new_leader_ack (s_out r), Store (sState r) 7))
          (ex_run sha 2 True (ex_voter ?x ?m (hd (sent_sync (s_out r1))) @ ex_after))) = Some (?to2, [(1, ?a)], Some [1])"
    by code_simp
  with r1(1,4) obtain r2 where r2: "ex_run sha 2 True (ex_voter ?x ?m s @ ex_after) = Some r2"
    "to_clients (s_out r2) = ?to2" "sent_new_leader_ack (s_out r2) = [(1, ?a)]" "Store (sState r2) 7 = Some [1]" by auto
  let ?first = "map client_of ([?reply 0 0 1 [], ?reply 0 0 2 []] @ take 2 ?to1)"
  have "map_option swc_Reply (client_run ?first (NewClient_sw 3)) = Some [([], 1), ([], 2)]"
    by code_simp
  then obtain c where c: "client_run ?first (NewClient_sw 3) = Some c" "swc_Reply c = [([], 1), ([], 2)]" by auto
  have "(case client_run ?first (NewClient_sw 3) of None \<Rightarrow> None
      | Some c \<Rightarrow> map_option swc_Reply (client_run (map client_of (drop 2 ?to1 @ ?to2)) c)) =
      Some [([], 1), ([], 2), ([1], 3)]"
    by code_simp
  with c(1) obtain c' where c': "client_run (map client_of (drop 2 ?to1 @ ?to2)) c = Some c'"
    "swc_Reply c' = [([], 1), ([], 2), ([1], 3)]" by auto
  show ?thesis
    by (intro exI [of _ r0] exI [of _ r1] exI [of _ r2] exI [of _ ?x] exI [of _ ?m] exI [of _ ?a] exI [of _ s]
        exI [of _ c] exI [of _ c'] conjI r0(1,2,4) r1(1,3-) r2(1,3-) c(2) c'(2))
      (use c(1) c'(1) in \<open>simp_all only: r0(3) r1(2) r2(2)\<close>)
qed

subsection \<open>Followers panic after a recovery\<close>

lemma recordLeaderHash_nil:
  assumes "sw_proposes r c = Some p" and "keysOf (p_Command (Propose p)) = Some (k # ks)"
  shows "recordLeaderHash sha c s [] r = None"
  using assms by (simp add: recordLeaderHash_def updateLogs_def)

lemma on_fastAck_without_checksum:
  assumes "sw_proposes r (fa_CmdId f) = Some p" and "keysOf (p_Command (Propose p)) = Some (k # ks)"
    and "fa_Replica f = leader r" and "leader r \<noteq> sId r" and "elems (fa_Checksum f) = []"
  shows "on_fastAck sha f r = P_Panic"
  using assms by (simp add: on_fastAck_def recordLeaderHash_nil)

text \<open>C13. After a recovery the new leader acknowledges again every command of the synchronisation whose proposal
  it has. This acknowledgement has no checksum, and a follower that has the proposal of a command on at
  least one key does not survive it, in whichever form the batcher sends it: it looks up the leader's
  checksum of the first key.\<close>

theorem resent_acknowledgement_panics:
  assumes "sw_proposes l c = Some p" and "Contains (s_SQ l) (sId l)" and "sId l = leader l"
    and "sw_proposes r c = Some p'" and "keysOf (p_Command (Propose p')) = Some (k # ks)"
    and "s_status r = SW_NORMAL" and "leader r = sId l" and "sId r \<noteq> sId l"
    and "m_sw m = r" and "m_loop m = None"
  shows "\<exists>f. bat_fast (fst (sync_answer msg c desc l)) = bat_fast l @ [(f, None)] \<and>
    sw_step sha (E_Acks \<lparr>FastAcks = f # fs, LightSlowAcks = ls\<rparr>) m = None \<and>
    sw_step sha (E_OptAcks \<lparr>oa_Replica = sId l, oa_Ballot = b, Acks = ack_of f # xs\<rparr>) m = None"
proof -
  let ?f = "copyFastAck (zero_FastAck\<lparr>fa_Replica := sId l, fa_Ballot := s_ballot l, fa_CmdId := c,
    fa_Dep := (if sync_dep msg c = None then NilDepOfCmdId c else sync_dep msg c)\<rparr>)"
  have "bat_fast (fst (sync_answer msg c desc l)) = bat_fast l @ [(?f, None)]"
    using assms(1-3) by (cases desc) (simp_all add: sync_answer_def SendFastAck_def emit_def upd_desc_def leader_def Let_def)
  moreover have "on_fastAck sha (copyFastAck ?f) r = P_Panic"
    using assms(4-8) by (intro on_fastAck_without_checksum) (auto simp: copyFastAck_def zero_FastAck_def)
  moreover have "on_fastAck sha (opt_ack \<lparr>oa_Replica = sId l, oa_Ballot = b, Acks = ack_of ?f # xs\<rparr> (ack_of ?f)) r = P_Panic"
    using assms(4-8)
    by (intro on_fastAck_without_checksum) (auto simp: opt_ack_def ack_of_def copyFastAck_def zero_FastAck_def)
  ultimately show ?thesis using assms(6,9,10)
    by (intro exI [of _ ?f]) (simp add: on_acks_def on_optAcks_def sw_step_def when_normal_def)
qed

definition ex_sync :: MSync where
  "ex_sync = \<lparr>ms_Replica = 0, ms_Ballot = 3, ms_Phases = [ex_id 1 \<mapsto> ACCEPT],
     ms_Cmds = [ex_id 1 \<mapsto> p_Command (Propose (ex_put 1))], ms_Deps = [ex_id 1 \<mapsto> Some []]\<rparr>"

theorem resent_acknowledgement_panics_witness:
  "\<exists>l r f. ex_run rev 0 True [E_Propose (ex_put 1)] = Some l \<and> ex_run rev 1 True [E_Propose (ex_put 1)] = Some r \<and>
     bat_fast (fst (sync_answer ex_sync (ex_id 1) None l)) = bat_fast l @ [(f, None)] \<and>
     sw_step rev (E_Acks \<lparr>FastAcks = [f], LightSlowAcks = []\<rparr>) (sw_idle r) = None"
proof -
  let ?v = "\<lambda>r. (sw_proposes r (ex_id 1), Contains (s_SQ r) (sId r), sId r, leader r, s_status r)"
  have "map_option ?v (ex_run rev 0 True [E_Propose (ex_put 1)]) = Some (Some (ex_put 1), True, 0, 0, SW_NORMAL)"
    by code_simp
  then obtain l where l: "ex_run rev 0 True [E_Propose (ex_put 1)] = Some l" "?v l = (Some (ex_put 1), True, 0, 0, SW_NORMAL)"
    by (auto simp: map_option_eq_Some)
  have "map_option ?v (ex_run rev 1 True [E_Propose (ex_put 1)]) = Some (Some (ex_put 1), True, 1, 0, SW_NORMAL)"
    by code_simp
  then obtain r where r: "ex_run rev 1 True [E_Propose (ex_put 1)] = Some r" "?v r = (Some (ex_put 1), True, 1, 0, SW_NORMAL)"
    by (auto simp: map_option_eq_Some)
  have "keysOf (p_Command (Propose (ex_put 1))) = Some [7]" by code_simp
  then obtain f where "bat_fast (fst (sync_answer ex_sync (ex_id 1) None l)) = bat_fast l @ [(f, None)]"
    "sw_step rev (E_Acks \<lparr>FastAcks = [f], LightSlowAcks = []\<rparr>) (sw_idle r) = None"
    using resent_acknowledgement_panics [of l "ex_id 1" "ex_put 1" r "ex_put 1" 7 "[]" "sw_idle r" ex_sync None rev "[]" "[]" 0 "[]"]
      l(2) r(2) by (auto simp: sw_idle_def)
  with l(1) r(1) show ?thesis by blast
qed

end
