(* ===== verification/EP_Msgs.thy ===== *)
theory EP_Msgs
  imports Defs Pool
begin

section \<open>The messages of EPaxos\<close>

text \<open>
  The message structs of \<open>src/epaxos/defs.go\<close> and their encodings (\<open>src/epaxos/defsmarsh.go\<close>).

  \<^item> Slices may be nil and are options of lists; a reader always makes a slice. The status is an \<open>int8\<close>.
  \<^item> The readers drop the errors of the commands they contain (\<open>read_each_lax\<close>) and report those of the
    other fields.
  \<^item> A \<open>PreAcceptReply\<close> whose dependencies are empty and whose committed dependencies are not is read
    past its end.
  \<^item> \<open>PrepareReply\<close> does not send the field \<open>VBallot\<close>: it does not survive the wire.
\<close>

subsection \<open>Messages\<close>

record ep_Prepare =
  ep_LeaderId :: int
  ep_Replica :: int
  ep_Instance :: int
  ep_Ballot :: int

record ep_PrepareReply =
  er_AcceptorId :: int
  er_Replica :: int
  er_Instance :: int
  er_Ballot :: int
  er_VBallot :: int
  er_Status :: int
  er_Command :: "command slice"
  er_Seq :: int
  er_Deps :: "int slice"

record ep_PreAccept =
  ea_LeaderId :: int
  ea_Replica :: int
  ea_Instance :: int
  ea_Ballot :: int
  ea_Command :: "command slice"
  ea_Seq :: int
  ea_Deps :: "int slice"

record ep_PreAcceptReply =
  eb_Replica :: int
  eb_Instance :: int
  eb_Ballot :: int
  eb_VBallot :: int
  eb_Seq :: int
  eb_Deps :: "int slice"
  eb_CommittedDeps :: "int slice"
  eb_Status :: int

record ep_PreAcceptOK =
  eo_Instance :: int

record ep_Accept =
  ec_LeaderId :: int
  ec_Replica :: int
  ec_Instance :: int
  ec_Ballot :: int
  ec_Seq :: int
  ec_Deps :: "int slice"

record ep_AcceptReply =
  ed_Replica :: int
  ed_Instance :: int
  ed_Ballot :: int

record ep_Commit =
  em_LeaderId :: int
  em_Replica :: int
  em_Instance :: int
  em_Ballot :: int
  em_Command :: "command slice"
  em_Seq :: int
  em_Deps :: "int slice"

record ep_TryPreAccept =
  et_LeaderId :: int
  et_Replica :: int
  et_Instance :: int
  et_Ballot :: int
  et_Command :: "command slice"
  et_Seq :: int
  et_Deps :: "int slice"

record ep_TryPreAcceptReply =
  eu_AcceptorId :: int
  eu_Replica :: int
  eu_Instance :: int
  eu_Ballot :: int
  eu_VBallot :: int
  eu_ConflictReplica :: int
  eu_ConflictInstance :: int
  eu_ConflictStatus :: int

subsection \<open>Encoding\<close>

definition put8 :: "int \<Rightarrow> byte list" where
  "put8 x = [word_of_int x]"

definition get8 :: "byte list \<Rightarrow> int" where
  "get8 bs = sint (hd bs)"

definition is_i8 :: "int \<Rightarrow> bool" where
  "is_i8 x \<longleftrightarrow> - 128 \<le> x \<and> x < 128"

definition dep_read :: "int \<Rightarrow> byte list \<Rightarrow> int outcome" where
  "dep_read t s = with_bytes 4 t s (\<lambda>bs r. Ok (get32 bs) r)"

text \<open>The second loop of \<open>PreAcceptReply.Unmarshal\<close> reads into the buffer the first one has cut to four
  bytes. If the first loop made no round the buffer still has 21 bytes, and a round takes as many of them
  as have arrived: here, the bytes of the stream.\<close>

definition dep_read_long :: "int \<Rightarrow> byte list \<Rightarrow> int outcome" where
  "dep_read_long t s = with_bytes 4 t s (\<lambda>bs r. Ok (get32 bs) (drop 17 r))"

definition ep_Prepare_Marshal :: "ep_Prepare \<Rightarrow> byte list" where
  "ep_Prepare_Marshal t =
     (put32 (ep_LeaderId t) @ put32 (ep_Replica t) @ put32 (ep_Instance t) @
      put32 (ep_Ballot t))"

definition ep_Prepare_Unmarshal :: "ep_Prepare \<Rightarrow> byte list \<Rightarrow> ep_Prepare outcome" where
  "ep_Prepare_Unmarshal t s =
     with_bytes 16 t s (\<lambda>bs r.
       Ok (t\<lparr>ep_LeaderId := get32 bs, ep_Replica := get32 (drop 4 bs),
          ep_Instance := get32 (drop 8 bs), ep_Ballot := get32 (drop 12 bs)\<rparr>) r)"

definition ep_PrepareReply_Marshal :: "ep_PrepareReply \<Rightarrow> byte list" where
  "ep_PrepareReply_Marshal t =
     (put32 (er_AcceptorId t) @ put32 (er_Replica t) @ put32 (er_Instance t) @
      put32 (er_Ballot t) @ put8 (er_Status t)) @
     put_slice Command_Marshal (elems (er_Command t)) @ put32 (er_Seq t) @ put_slice put32 (elems (er_Deps t))"

definition ep_PrepareReply_Unmarshal :: "ep_PrepareReply \<Rightarrow> byte list \<Rightarrow> ep_PrepareReply outcome" where
  "ep_PrepareReply_Unmarshal t s =
     with_bytes 17 t s (\<lambda>bs r.
       let t = t\<lparr>er_AcceptorId := get32 bs, er_Replica := get32 (drop 4 bs),
          er_Instance := get32 (drop 8 bs), er_Ballot := get32 (drop 12 bs),
          er_Status := get8 (drop 16 bs)\<rparr>
       in and_then (\<lambda>x. t\<lparr>er_Command := x\<rparr>) (get_nslice (read_each_lax Command_Unmarshal zero_command) (er_Command t) r) (\<lambda>t r.
          with_bytes 4 t r (\<lambda>bs r. let t = t\<lparr>er_Seq := get32 bs\<rparr> in
          and_then (\<lambda>x. t\<lparr>er_Deps := x\<rparr>) (get_nslice (read_each dep_read 0) (er_Deps t) r) Ok)))"

definition ep_PreAccept_Marshal :: "ep_PreAccept \<Rightarrow> byte list" where
  "ep_PreAccept_Marshal t =
     (put32 (ea_LeaderId t) @ put32 (ea_Replica t) @ put32 (ea_Instance t) @
      put32 (ea_Ballot t)) @
     put_slice Command_Marshal (elems (ea_Command t)) @ put32 (ea_Seq t) @ put_slice put32 (elems (ea_Deps t))"

definition ep_PreAccept_Unmarshal :: "ep_PreAccept \<Rightarrow> byte list \<Rightarrow> ep_PreAccept outcome" where
  "ep_PreAccept_Unmarshal t s =
     with_bytes 16 t s (\<lambda>bs r.
       let t = t\<lparr>ea_LeaderId := get32 bs, ea_Replica := get32 (drop 4 bs),
          ea_Instance := get32 (drop 8 bs), ea_Ballot := get32 (drop 12 bs)\<rparr>
       in and_then (\<lambda>x. t\<lparr>ea_Command := x\<rparr>) (get_nslice (read_each_lax Command_Unmarshal zero_command) (ea_Command t) r) (\<lambda>t r.
          with_bytes 4 t r (\<lambda>bs r. let t = t\<lparr>ea_Seq := get32 bs\<rparr> in
          and_then (\<lambda>x. t\<lparr>ea_Deps := x\<rparr>) (get_nslice (read_each dep_read 0) (ea_Deps t) r) Ok)))"

definition ep_PreAcceptReply_Marshal :: "ep_PreAcceptReply \<Rightarrow> byte list" where
  "ep_PreAcceptReply_Marshal t =
     (put32 (eb_Replica t) @ put32 (eb_Instance t) @ put32 (eb_Ballot t) @
      put32 (eb_VBallot t) @ put32 (eb_Seq t) @ put8 (eb_Status t)) @ put_slice put32 (elems (eb_Deps t)) @ put_slice put32 (elems (eb_CommittedDeps t))"

definition ep_PreAcceptReply_Unmarshal :: "ep_PreAcceptReply \<Rightarrow> byte list \<Rightarrow> ep_PreAcceptReply outcome" where
  "ep_PreAcceptReply_Unmarshal t s =
     with_bytes 21 t s (\<lambda>bs r.
       let t = t\<lparr>eb_Replica := get32 bs, eb_Instance := get32 (drop 4 bs),
          eb_Ballot := get32 (drop 8 bs), eb_VBallot := get32 (drop 12 bs),
          eb_Seq := get32 (drop 16 bs), eb_Status := get8 (drop 20 bs)\<rparr>
       in and_then (\<lambda>x. t\<lparr>eb_Deps := x\<rparr>) (get_nslice (read_each dep_read 0) (eb_Deps t) r) (\<lambda>t r.
          and_then (\<lambda>x. t\<lparr>eb_CommittedDeps := x\<rparr>) (get_nslice (read_each (if elems (eb_Deps t) = [] then dep_read_long else dep_read) 0) (eb_CommittedDeps t) r) Ok))"

definition ep_PreAcceptOK_Marshal :: "ep_PreAcceptOK \<Rightarrow> byte list" where
  "ep_PreAcceptOK_Marshal t =
     (put32 (eo_Instance t))"

definition ep_PreAcceptOK_Unmarshal :: "ep_PreAcceptOK \<Rightarrow> byte list \<Rightarrow> ep_PreAcceptOK outcome" where
  "ep_PreAcceptOK_Unmarshal t s =
     with_bytes 4 t s (\<lambda>bs r.
       Ok (t\<lparr>eo_Instance := get32 bs\<rparr>) r)"

definition ep_Accept_Marshal :: "ep_Accept \<Rightarrow> byte list" where
  "ep_Accept_Marshal t =
     (put32 (ec_LeaderId t) @ put32 (ec_Replica t) @ put32 (ec_Instance t) @
      put32 (ec_Ballot t) @ put32 (ec_Seq t)) @ put_slice put32 (elems (ec_Deps t))"

definition ep_Accept_Unmarshal :: "ep_Accept \<Rightarrow> byte list \<Rightarrow> ep_Accept outcome" where
  "ep_Accept_Unmarshal t s =
     with_bytes 20 t s (\<lambda>bs r.
       let t = t\<lparr>ec_LeaderId := get32 bs, ec_Replica := get32 (drop 4 bs),
          ec_Instance := get32 (drop 8 bs), ec_Ballot := get32 (drop 12 bs),
          ec_Seq := get32 (drop 16 bs)\<rparr>
       in and_then (\<lambda>x. t\<lparr>ec_Deps := x\<rparr>) (get_nslice (read_each dep_read 0) (ec_Deps t) r) Ok)"

definition ep_AcceptReply_Marshal :: "ep_AcceptReply \<Rightarrow> byte list" where
  "ep_AcceptReply_Marshal t =
     (put32 (ed_Replica t) @ put32 (ed_Instance t) @ put32 (ed_Ballot t))"

definition ep_AcceptReply_Unmarshal :: "ep_AcceptReply \<Rightarrow> byte list \<Rightarrow> ep_AcceptReply outcome" where
  "ep_AcceptReply_Unmarshal t s =
     with_bytes 12 t s (\<lambda>bs r.
       Ok (t\<lparr>ed_Replica := get32 bs, ed_Instance := get32 (drop 4 bs),
          ed_Ballot := get32 (drop 8 bs)\<rparr>) r)"

definition ep_Commit_Marshal :: "ep_Commit \<Rightarrow> byte list" where
  "ep_Commit_Marshal t =
     (put32 (em_LeaderId t) @ put32 (em_Replica t) @ put32 (em_Instance t) @
      put32 (em_Ballot t)) @
     put_slice Command_Marshal (elems (em_Command t)) @ put32 (em_Seq t) @ put_slice put32 (elems (em_Deps t))"

definition ep_Commit_Unmarshal :: "ep_Commit \<Rightarrow> byte list \<Rightarrow> ep_Commit outcome" where
  "ep_Commit_Unmarshal t s =
     with_bytes 16 t s (\<lambda>bs r.
       let t = t\<lparr>em_LeaderId := get32 bs, em_Replica := get32 (drop 4 bs),
          em_Instance := get32 (drop 8 bs), em_Ballot := get32 (drop 12 bs)\<rparr>
       in and_then (\<lambda>x. t\<lparr>em_Command := x\<rparr>) (get_nslice (read_each_lax Command_Unmarshal zero_command) (em_Command t) r) (\<lambda>t r.
          with_bytes 4 t r (\<lambda>bs r. let t = t\<lparr>em_Seq := get32 bs\<rparr> in
          and_then (\<lambda>x. t\<lparr>em_Deps := x\<rparr>) (get_nslice (read_each dep_read 0) (em_Deps t) r) Ok)))"

definition ep_TryPreAccept_Marshal :: "ep_TryPreAccept \<Rightarrow> byte list" where
  "ep_TryPreAccept_Marshal t =
     (put32 (et_LeaderId t) @ put32 (et_Replica t) @ put32 (et_Instance t) @
      put32 (et_Ballot t)) @
     put_slice Command_Marshal (elems (et_Command t)) @ put32 (et_Seq t) @ put_slice put32 (elems (et_Deps t))"

definition ep_TryPreAccept_Unmarshal :: "ep_TryPreAccept \<Rightarrow> byte list \<Rightarrow> ep_TryPreAccept outcome" where
  "ep_TryPreAccept_Unmarshal t s =
     with_bytes 16 t s (\<lambda>bs r.
       let t = t\<lparr>et_LeaderId := get32 bs, et_Replica := get32 (drop 4 bs),
          et_Instance := get32 (drop 8 bs), et_Ballot := get32 (drop 12 bs)\<rparr>
       in and_then (\<lambda>x. t\<lparr>et_Command := x\<rparr>) (get_nslice (read_each_lax Command_Unmarshal zero_command) (et_Command t) r) (\<lambda>t r.
          with_bytes 4 t r (\<lambda>bs r. let t = t\<lparr>et_Seq := get32 bs\<rparr> in
          and_then (\<lambda>x. t\<lparr>et_Deps := x\<rparr>) (get_nslice (read_each dep_read 0) (et_Deps t) r) Ok)))"

definition ep_TryPreAcceptReply_Marshal :: "ep_TryPreAcceptReply \<Rightarrow> byte list" where
  "ep_TryPreAcceptReply_Marshal t =
     (put32 (eu_AcceptorId t) @ put32 (eu_Replica t) @ put32 (eu_Instance t) @
      put32 (eu_Ballot t) @ put32 (eu_VBallot t) @ put32 (eu_ConflictReplica t) @
      put32 (eu_ConflictInstance t) @ put8 (eu_ConflictStatus t))"

definition ep_TryPreAcceptReply_Unmarshal :: "ep_TryPreAcceptReply \<Rightarrow> byte list \<Rightarrow> ep_TryPreAcceptReply outcome" where
  "ep_TryPreAcceptReply_Unmarshal t s =
     with_bytes 29 t s (\<lambda>bs r.
       Ok (t\<lparr>eu_AcceptorId := get32 bs, eu_Replica := get32 (drop 4 bs),
          eu_Instance := get32 (drop 8 bs), eu_Ballot := get32 (drop 12 bs),
          eu_VBallot := get32 (drop 16 bs), eu_ConflictReplica := get32 (drop 20 bs),
          eu_ConflictInstance := get32 (drop 24 bs), eu_ConflictStatus := get8 (drop 28 bs)\<rparr>) r)"

subsection \<open>Object caches\<close>

definition zero_ep_Prepare :: ep_Prepare where
  "zero_ep_Prepare = \<lparr>ep_LeaderId = 0, ep_Replica = 0, ep_Instance = 0, ep_Ballot = 0\<rparr>"

definition ep_PrepareCache_Get :: "ep_Prepare list \<Rightarrow> ep_Prepare \<times> ep_Prepare list" where
  "ep_PrepareCache_Get = cache_Get zero_ep_Prepare"

definition zero_ep_PrepareReply :: ep_PrepareReply where
  "zero_ep_PrepareReply = \<lparr>er_AcceptorId = 0, er_Replica = 0, er_Instance = 0, er_Ballot = 0, er_VBallot = 0, er_Status = 0, er_Command = None, er_Seq = 0, er_Deps = None\<rparr>"

definition ep_PrepareReplyCache_Get :: "ep_PrepareReply list \<Rightarrow> ep_PrepareReply \<times> ep_PrepareReply list" where
  "ep_PrepareReplyCache_Get = cache_Get zero_ep_PrepareReply"

definition zero_ep_PreAccept :: ep_PreAccept where
  "zero_ep_PreAccept = \<lparr>ea_LeaderId = 0, ea_Replica = 0, ea_Instance = 0, ea_Ballot = 0, ea_Command = None, ea_Seq = 0, ea_Deps = None\<rparr>"

definition ep_PreAcceptCache_Get :: "ep_PreAccept list \<Rightarrow> ep_PreAccept \<times> ep_PreAccept list" where
  "ep_PreAcceptCache_Get = cache_Get zero_ep_PreAccept"

definition zero_ep_PreAcceptReply :: ep_PreAcceptReply where
  "zero_ep_PreAcceptReply = \<lparr>eb_Replica = 0, eb_Instance = 0, eb_Ballot = 0, eb_VBallot = 0, eb_Seq = 0, eb_Deps = None, eb_CommittedDeps = None, eb_Status = 0\<rparr>"

definition ep_PreAcceptReplyCache_Get :: "ep_PreAcceptReply list \<Rightarrow> ep_PreAcceptReply \<times> ep_PreAcceptReply list" where
  "ep_PreAcceptReplyCache_Get = cache_Get zero_ep_PreAcceptReply"

definition zero_ep_PreAcceptOK :: ep_PreAcceptOK where
  "zero_ep_PreAcceptOK = \<lparr>eo_Instance = 0\<rparr>"

definition ep_PreAcceptOKCache_Get :: "ep_PreAcceptOK list \<Rightarrow> ep_PreAcceptOK \<times> ep_PreAcceptOK list" where
  "ep_PreAcceptOKCache_Get = cache_Get zero_ep_PreAcceptOK"

definition zero_ep_Accept :: ep_Accept where
  "zero_ep_Accept = \<lparr>ec_LeaderId = 0, ec_Replica = 0, ec_Instance = 0, ec_Ballot = 0, ec_Seq = 0, ec_Deps = None\<rparr>"

definition ep_AcceptCache_Get :: "ep_Accept list \<Rightarrow> ep_Accept \<times> ep_Accept list" where
  "ep_AcceptCache_Get = cache_Get zero_ep_Accept"

definition zero_ep_AcceptReply :: ep_AcceptReply where
  "zero_ep_AcceptReply = \<lparr>ed_Replica = 0, ed_Instance = 0, ed_Ballot = 0\<rparr>"

definition ep_AcceptReplyCache_Get :: "ep_AcceptReply list \<Rightarrow> ep_AcceptReply \<times> ep_AcceptReply list" where
  "ep_AcceptReplyCache_Get = cache_Get zero_ep_AcceptReply"

definition zero_ep_Commit :: ep_Commit where
  "zero_ep_Commit = \<lparr>em_LeaderId = 0, em_Replica = 0, em_Instance = 0, em_Ballot = 0, em_Command = None, em_Seq = 0, em_Deps = None\<rparr>"

definition ep_CommitCache_Get :: "ep_Commit list \<Rightarrow> ep_Commit \<times> ep_Commit list" where
  "ep_CommitCache_Get = cache_Get zero_ep_Commit"

definition zero_ep_TryPreAccept :: ep_TryPreAccept where
  "zero_ep_TryPreAccept = \<lparr>et_LeaderId = 0, et_Replica = 0, et_Instance = 0, et_Ballot = 0, et_Command = None, et_Seq = 0, et_Deps = None\<rparr>"

definition ep_TryPreAcceptCache_Get :: "ep_TryPreAccept list \<Rightarrow> ep_TryPreAccept \<times> ep_TryPreAccept list" where
  "ep_TryPreAcceptCache_Get = cache_Get zero_ep_TryPreAccept"

definition zero_ep_TryPreAcceptReply :: ep_TryPreAcceptReply where
  "zero_ep_TryPreAcceptReply = \<lparr>eu_AcceptorId = 0, eu_Replica = 0, eu_Instance = 0, eu_Ballot = 0, eu_VBallot = 0, eu_ConflictReplica = 0, eu_ConflictInstance = 0, eu_ConflictStatus = 0\<rparr>"

definition ep_TryPreAcceptReplyCache_Get :: "ep_TryPreAcceptReply list \<Rightarrow> ep_TryPreAcceptReply \<times> ep_TryPreAcceptReply list" where
  "ep_TryPreAcceptReplyCache_Get = cache_Get zero_ep_TryPreAcceptReply"

datatype ep_sized = ZE_Prepare | ZE_PrepareReply | ZE_PreAccept | ZE_PreAcceptReply | ZE_PreAcceptOK | ZE_Accept
  | ZE_AcceptReply | ZE_Commit | ZE_TryPreAccept | ZE_TryPreAcceptReply

text \<open>\<open>BinarySize\<close>, which says three bytes less than \<open>TryPreAcceptReply\<close> takes and one more than
  \<open>AcceptReply\<close>.\<close>

fun ep_BinarySize :: "ep_sized \<Rightarrow> nat option" where
  "ep_BinarySize ZE_Prepare = Some 16"
| "ep_BinarySize ZE_AcceptReply = Some 13"
| "ep_BinarySize ZE_PreAcceptOK = Some 4"
| "ep_BinarySize ZE_TryPreAcceptReply = Some 26"
| "ep_BinarySize _ = None"

subsection \<open>The codecs\<close>

definition wf_ep_cmds :: "command slice \<Rightarrow> bool" where
  "wf_ep_cmds xs \<longleftrightarrow> xs \<noteq> None \<and> short_enough (elems xs) \<and> list_all wf_command (elems xs)"

definition wf_deps :: "int slice \<Rightarrow> bool" where
  "wf_deps xs \<longleftrightarrow> xs \<noteq> None \<and> short_enough (elems xs) \<and> list_all is_i32 (elems xs)"

definition wf_ep_Prepare :: "ep_Prepare \<Rightarrow> bool" where
  "wf_ep_Prepare t \<longleftrightarrow>
     is_i32 (ep_LeaderId t) \<and> is_i32 (ep_Replica t) \<and> is_i32 (ep_Instance t) \<and>
     is_i32 (ep_Ballot t)"

definition wf_ep_PrepareReply :: "ep_PrepareReply \<Rightarrow> bool" where
  "wf_ep_PrepareReply t \<longleftrightarrow>
     is_i32 (er_AcceptorId t) \<and> is_i32 (er_Replica t) \<and> is_i32 (er_Instance t) \<and>
     is_i32 (er_Ballot t) \<and> is_i8 (er_Status t) \<and> wf_ep_cmds (er_Command t) \<and>
     is_i32 (er_Seq t) \<and> wf_deps (er_Deps t)"

definition wf_ep_PreAccept :: "ep_PreAccept \<Rightarrow> bool" where
  "wf_ep_PreAccept t \<longleftrightarrow>
     is_i32 (ea_LeaderId t) \<and> is_i32 (ea_Replica t) \<and> is_i32 (ea_Instance t) \<and>
     is_i32 (ea_Ballot t) \<and> wf_ep_cmds (ea_Command t) \<and> is_i32 (ea_Seq t) \<and>
     wf_deps (ea_Deps t)"

definition wf_ep_PreAcceptReply :: "ep_PreAcceptReply \<Rightarrow> bool" where
  "wf_ep_PreAcceptReply t \<longleftrightarrow>
     is_i32 (eb_Replica t) \<and> is_i32 (eb_Instance t) \<and> is_i32 (eb_Ballot t) \<and>
     is_i32 (eb_VBallot t) \<and> is_i32 (eb_Seq t) \<and> wf_deps (eb_Deps t) \<and>
     wf_deps (eb_CommittedDeps t) \<and> is_i8 (eb_Status t) \<and>
     (elems (eb_Deps t) \<noteq> [] \<or> elems (eb_CommittedDeps t) = [])"

definition wf_ep_PreAcceptOK :: "ep_PreAcceptOK \<Rightarrow> bool" where
  "wf_ep_PreAcceptOK t \<longleftrightarrow>
     is_i32 (eo_Instance t)"

definition wf_ep_Accept :: "ep_Accept \<Rightarrow> bool" where
  "wf_ep_Accept t \<longleftrightarrow>
     is_i32 (ec_LeaderId t) \<and> is_i32 (ec_Replica t) \<and> is_i32 (ec_Instance t) \<and>
     is_i32 (ec_Ballot t) \<and> is_i32 (ec_Seq t) \<and> wf_deps (ec_Deps t)"

definition wf_ep_AcceptReply :: "ep_AcceptReply \<Rightarrow> bool" where
  "wf_ep_AcceptReply t \<longleftrightarrow>
     is_i32 (ed_Replica t) \<and> is_i32 (ed_Instance t) \<and> is_i32 (ed_Ballot t)"

definition wf_ep_Commit :: "ep_Commit \<Rightarrow> bool" where
  "wf_ep_Commit t \<longleftrightarrow>
     is_i32 (em_LeaderId t) \<and> is_i32 (em_Replica t) \<and> is_i32 (em_Instance t) \<and>
     is_i32 (em_Ballot t) \<and> wf_ep_cmds (em_Command t) \<and> is_i32 (em_Seq t) \<and>
     wf_deps (em_Deps t)"

definition wf_ep_TryPreAccept :: "ep_TryPreAccept \<Rightarrow> bool" where
  "wf_ep_TryPreAccept t \<longleftrightarrow>
     is_i32 (et_LeaderId t) \<and> is_i32 (et_Replica t) \<and> is_i32 (et_Instance t) \<and>
     is_i32 (et_Ballot t) \<and> wf_ep_cmds (et_Command t) \<and> is_i32 (et_Seq t) \<and>
     wf_deps (et_Deps t)"

definition wf_ep_TryPreAcceptReply :: "ep_TryPreAcceptReply \<Rightarrow> bool" where
  "wf_ep_TryPreAcceptReply t \<longleftrightarrow>
     is_i32 (eu_AcceptorId t) \<and> is_i32 (eu_Replica t) \<and> is_i32 (eu_Instance t) \<and>
     is_i32 (eu_Ballot t) \<and> is_i32 (eu_VBallot t) \<and> is_i32 (eu_ConflictReplica t) \<and>
     is_i32 (eu_ConflictInstance t) \<and> is_i8 (eu_ConflictStatus t)"

lemma get8_put8 [simp]: "is_i8 x \<Longrightarrow> get8 (put8 x) = x"
  unfolding is_i8_def get8_def put8_def
  by (simp add: signed_take_bit_int_eq_self signed_of_int)

lemma get8_put8_append [simp]: "get8 (put8 x @ s) = get8 (put8 x)"
  by (simp add: get8_def put8_def)

lemma length_put8 [simp]: "length (put8 x) = 1"
  by (simp add: put8_def)

interpretation dep_elem_codec: strict_codec put32 dep_read is_i32
proof
  fix x t :: int and p s :: "byte list"
  show "is_i32 x \<Longrightarrow> dep_read t (put32 x @ s) = Ok x s"
    by (simp add: dep_read_def)
  show "strict_prefix p (put32 x) \<Longrightarrow> is_fail (dep_read t p)"
    unfolding dep_read_def by (erule with_bytes_truncated_end) simp
qed

lemma get_deps [simp]:
  "wf_deps xs \<Longrightarrow> get_nslice (read_each dep_read 0) t (put_slice put32 (elems xs) @ s) = Ok xs s"
  by (cases xs) (auto simp: wf_deps_def dep_elem_codec.nslice_roundtrip)

lemma get_deps_end [simp]:
  "wf_deps xs \<Longrightarrow> get_nslice (read_each dep_read 0) t (put_slice put32 (elems xs)) = Ok xs []"
  using get_deps [of xs t "[]"] by simp


lemma get_none [simp]: "get_nslice (read_each um z) t (put_slice put32 [] @ s) = Ok (Some []) s"
  by (simp add: put_slice_def get_nslice_def)

lemma get_cmds [simp]:
  "wf_ep_cmds xs \<Longrightarrow>
     get_nslice (read_each_lax Command_Unmarshal zero_command) t (put_slice Command_Marshal (elems xs) @ s) = Ok xs s"
  by (cases xs) (auto simp: wf_ep_cmds_def intro!: get_nslice_get_slice command_codec.slice_lax_roundtrip)

interpretation ep_prepare_codec: strict_codec ep_Prepare_Marshal ep_Prepare_Unmarshal wf_ep_Prepare
proof
  fix x t :: ep_Prepare and p s :: "byte list"
  show "wf_ep_Prepare x \<Longrightarrow> ep_Prepare_Unmarshal t (ep_Prepare_Marshal x @ s) = Ok x s"
    unfolding ep_Prepare_Unmarshal_def ep_Prepare_Marshal_def by (subst with_bytes_append) (simp_all add: wf_ep_Prepare_def)
  show "wf_ep_Prepare x \<Longrightarrow> strict_prefix p (ep_Prepare_Marshal x) \<Longrightarrow> is_fail (ep_Prepare_Unmarshal t p)"
    unfolding ep_Prepare_Unmarshal_def ep_Prepare_Marshal_def by (erule with_bytes_truncated_end) simp
qed

interpretation ep_preaccept_codec: codec ep_PreAccept_Marshal ep_PreAccept_Unmarshal wf_ep_PreAccept
proof
  fix x t :: ep_PreAccept and s :: "byte list"
  show "wf_ep_PreAccept x \<Longrightarrow> ep_PreAccept_Unmarshal t (ep_PreAccept_Marshal x @ s) = Ok x s"
    unfolding ep_PreAccept_Unmarshal_def ep_PreAccept_Marshal_def append_assoc [of _ _ s]
    by (subst with_bytes_append) (simp_all add: wf_ep_PreAccept_def)
qed

lemma wf_deps_empty: "wf_deps xs \<Longrightarrow> elems xs = [] \<Longrightarrow> xs = Some []"
  by (cases xs) (simp_all add: wf_deps_def)

interpretation ep_preacceptreply_codec: codec ep_PreAcceptReply_Marshal ep_PreAcceptReply_Unmarshal wf_ep_PreAcceptReply
proof
  fix x t :: ep_PreAcceptReply and s :: "byte list"
  assume wf: "wf_ep_PreAcceptReply x"
  then have "elems (eb_Deps x) = [] \<longrightarrow> eb_CommittedDeps x = Some []"
    by (auto simp: wf_ep_PreAcceptReply_def dest: wf_deps_empty)
  with wf show "ep_PreAcceptReply_Unmarshal t (ep_PreAcceptReply_Marshal x @ s) = Ok x s"
    unfolding ep_PreAcceptReply_Unmarshal_def ep_PreAcceptReply_Marshal_def append_assoc [of _ _ s]
    by (subst with_bytes_append) (auto simp: wf_ep_PreAcceptReply_def)
qed

interpretation ep_preacceptok_codec: strict_codec ep_PreAcceptOK_Marshal ep_PreAcceptOK_Unmarshal wf_ep_PreAcceptOK
proof
  fix x t :: ep_PreAcceptOK and p s :: "byte list"
  show "wf_ep_PreAcceptOK x \<Longrightarrow> ep_PreAcceptOK_Unmarshal t (ep_PreAcceptOK_Marshal x @ s) = Ok x s"
    unfolding ep_PreAcceptOK_Unmarshal_def ep_PreAcceptOK_Marshal_def by (subst with_bytes_append) (simp_all add: wf_ep_PreAcceptOK_def)
  show "wf_ep_PreAcceptOK x \<Longrightarrow> strict_prefix p (ep_PreAcceptOK_Marshal x) \<Longrightarrow> is_fail (ep_PreAcceptOK_Unmarshal t p)"
    unfolding ep_PreAcceptOK_Unmarshal_def ep_PreAcceptOK_Marshal_def by (erule with_bytes_truncated_end) simp
qed

interpretation ep_accept_codec: codec ep_Accept_Marshal ep_Accept_Unmarshal wf_ep_Accept
proof
  fix x t :: ep_Accept and s :: "byte list"
  show "wf_ep_Accept x \<Longrightarrow> ep_Accept_Unmarshal t (ep_Accept_Marshal x @ s) = Ok x s"
    unfolding ep_Accept_Unmarshal_def ep_Accept_Marshal_def append_assoc [of _ _ s]
    by (subst with_bytes_append) (simp_all add: wf_ep_Accept_def)
qed

interpretation ep_acceptreply_codec: strict_codec ep_AcceptReply_Marshal ep_AcceptReply_Unmarshal wf_ep_AcceptReply
proof
  fix x t :: ep_AcceptReply and p s :: "byte list"
  show "wf_ep_AcceptReply x \<Longrightarrow> ep_AcceptReply_Unmarshal t (ep_AcceptReply_Marshal x @ s) = Ok x s"
    unfolding ep_AcceptReply_Unmarshal_def ep_AcceptReply_Marshal_def by (subst with_bytes_append) (simp_all add: wf_ep_AcceptReply_def)
  show "wf_ep_AcceptReply x \<Longrightarrow> strict_prefix p (ep_AcceptReply_Marshal x) \<Longrightarrow> is_fail (ep_AcceptReply_Unmarshal t p)"
    unfolding ep_AcceptReply_Unmarshal_def ep_AcceptReply_Marshal_def by (erule with_bytes_truncated_end) simp
qed

interpretation ep_commit_codec: codec ep_Commit_Marshal ep_Commit_Unmarshal wf_ep_Commit
proof
  fix x t :: ep_Commit and s :: "byte list"
  show "wf_ep_Commit x \<Longrightarrow> ep_Commit_Unmarshal t (ep_Commit_Marshal x @ s) = Ok x s"
    unfolding ep_Commit_Unmarshal_def ep_Commit_Marshal_def append_assoc [of _ _ s]
    by (subst with_bytes_append) (simp_all add: wf_ep_Commit_def)
qed

interpretation ep_trypreaccept_codec: codec ep_TryPreAccept_Marshal ep_TryPreAccept_Unmarshal wf_ep_TryPreAccept
proof
  fix x t :: ep_TryPreAccept and s :: "byte list"
  show "wf_ep_TryPreAccept x \<Longrightarrow> ep_TryPreAccept_Unmarshal t (ep_TryPreAccept_Marshal x @ s) = Ok x s"
    unfolding ep_TryPreAccept_Unmarshal_def ep_TryPreAccept_Marshal_def append_assoc [of _ _ s]
    by (subst with_bytes_append) (simp_all add: wf_ep_TryPreAccept_def)
qed

interpretation ep_trypreacceptreply_codec: strict_codec ep_TryPreAcceptReply_Marshal ep_TryPreAcceptReply_Unmarshal wf_ep_TryPreAcceptReply
proof
  fix x t :: ep_TryPreAcceptReply and p s :: "byte list"
  show "wf_ep_TryPreAcceptReply x \<Longrightarrow> ep_TryPreAcceptReply_Unmarshal t (ep_TryPreAcceptReply_Marshal x @ s) = Ok x s"
    unfolding ep_TryPreAcceptReply_Unmarshal_def ep_TryPreAcceptReply_Marshal_def by (subst with_bytes_append) (simp_all add: wf_ep_TryPreAcceptReply_def)
  show "wf_ep_TryPreAcceptReply x \<Longrightarrow> strict_prefix p (ep_TryPreAcceptReply_Marshal x) \<Longrightarrow> is_fail (ep_TryPreAcceptReply_Unmarshal t p)"
    unfolding ep_TryPreAcceptReply_Unmarshal_def ep_TryPreAcceptReply_Marshal_def by (erule with_bytes_truncated_end) simp
qed

lemma prepare_reply_roundtrip:
  "wf_ep_PrepareReply x \<Longrightarrow>
     ep_PrepareReply_Unmarshal t (ep_PrepareReply_Marshal x @ s) = Ok (x\<lparr>er_VBallot := er_VBallot t\<rparr>) s"
  unfolding ep_PrepareReply_Unmarshal_def ep_PrepareReply_Marshal_def append_assoc [of _ _ s]
  by (subst with_bytes_append) (simp_all add: wf_ep_PrepareReply_def)

end
