(* ===== verification/EPaxos.thy ===== *)
theory EPaxos
  imports EP_Msgs Quorum "HOL-Library.AList"
begin

section \<open>The EPaxos replica\<close>

text \<open>
  The replica of \<open>src/epaxos/epaxos.go\<close> and \<open>src/epaxos/common.go\<close>; its executor is in \<open>EP_Exec\<close>.

  \<^item> \<open>ep\<close> is the struct \<open>Replica\<close>. \<open>InstanceSpace\<close>, an array of arrays of pointers, is an association
    list from the slots in use to their instances; \<open>slot_get\<close> and \<open>slot_put\<close> check the bounds of the
    arrays. An instance and its bookkeeping belong to one slot, so the code's pointers to them are updates
    of the slot.
  \<^item> The slices of dependencies are shared: an instance, its bookkeeping and the replies a recovery has
    collected may name one array, and \<open>updateAttributes\<close> and \<open>mergeAttributes\<close> write into it. They are
    addresses (\<open>slice_ref\<close>) of the store \<open>e_Heap\<close>. A message carries the values: it is encoded when it is
    sent. The slice of a message that arrives is allocated by its reader, here when the handler starts.
  \<^item> A handler returns the new state and what it sends, or \<open>None\<close> for a panic. The broadcasts recover from
    panics. The clock is read by \<open>NewInstance\<close> only; its value is an argument.
  \<^item> The counters of \<open>Stats\<close> and what is printed are left out.
\<close>

subsection \<open>Constants and structs\<close>

abbreviation (input) S_NONE :: int where "S_NONE \<equiv> 0"
abbreviation (input) S_PREACCEPTED :: int where "S_PREACCEPTED \<equiv> 1"
abbreviation (input) S_PREACCEPTED_EQ :: int where "S_PREACCEPTED_EQ \<equiv> 2"
abbreviation (input) S_ACCEPTED :: int where "S_ACCEPTED \<equiv> 3"
abbreviation (input) S_COMMITTED :: int where "S_COMMITTED \<equiv> 4"
abbreviation (input) S_EXECUTED :: int where "S_EXECUTED \<equiv> 5"

definition MAX_INSTANCE :: int where
  "MAX_INSTANCE = 10 * 1024 * 1024"

type_synonym slice_ref = "nat option"
type_synonym inst_id = "int \<times> int"

record ep_pair =
  Last :: int
  LastWrite :: int

record ep_lb =
  k_ClientProposals :: "GPropose slice"
  k_Ballot :: int
  k_AllEqual :: bool
  k_PreAcceptOKs :: int
  k_AcceptOKs :: int
  k_Nacks :: int
  k_OriginalDeps :: slice_ref
  k_CommittedDeps :: "int list"
  k_PrepareReplies :: "(ep_PrepareReply \<times> slice_ref) list"
  k_Preparing :: bool
  k_TryingToPreAccept :: bool
  k_PossibleQuorum :: "bool list"
  k_TpaReps :: int
  k_TpaAccepted :: bool
  k_LastTriedBallot :: int
  k_Cmds :: "command slice"
  k_Status :: int
  k_Seq :: int
  k_Deps :: slice_ref
  k_LeaderResponded :: bool

record ep_inst =
  x_Cmds :: "command slice"
  x_Bal :: int
  x_Vbal :: int
  x_Status :: int
  x_Seq :: int
  x_Deps :: slice_ref
  x_Lb :: "ep_lb option"
  x_Index :: int
  x_Lowlink :: int
  x_ProposeTime :: int

record ep =
  e_Id :: int
  e_N :: int
  e_Thrifty :: bool
  e_LRead :: bool
  e_Dreply :: bool
  e_Durable :: bool
  e_Exec :: bool
  e_Alive :: "bool list"
  e_PeerOrder :: "int list"
  e_State :: kv_state
  e_StableStore :: "byte list"
  e_Heap :: "int list list"
  e_InstanceSpace :: "(inst_id \<times> ep_inst) list"
  e_crtInstance :: "int list"
  e_CommittedUpTo :: "int list"
  e_ExecedUpTo :: "int list"
  e_conflicts :: "(key \<rightharpoonup> ep_pair) list"
  e_maxSeqPerKey :: "key \<rightharpoonup> int"
  e_maxSeq :: int
  e_ProposeChan :: "GPropose list"
  e_instancesToRecover :: "inst_id list"
  e_IsLeader :: bool
  e_maxRecvBallot :: int
  e_batchWait :: int
  e_onOff :: bool
  e_transconf :: bool
  e_deferMap :: "64 word \<rightharpoonup> 64 word"
  e_problemInstance :: "int list"
  e_timeout :: "int list"

datatype ep_msg = E_Prepare ep_Prepare | E_PreAccept ep_PreAccept | E_Accept ep_Accept | E_Commit ep_Commit
  | E_PrepareReply ep_PrepareReply | E_PreAcceptReply ep_PreAcceptReply | E_AcceptReply ep_AcceptReply
  | E_TryPreAccept ep_TryPreAccept | E_TryPreAcceptReply ep_TryPreAcceptReply

datatype ep_out = EP_Send int ep_msg | EP_Reply GPropose ProposeReplyTS

type_synonym ep_result = "(ep \<times> ep_out list) option"

subsection \<open>Slices of dependencies\<close>

definition ref_vals :: "ep \<Rightarrow> slice_ref \<Rightarrow> int list" where
  "ref_vals r d = (case d of None \<Rightarrow> [] | Some a \<Rightarrow> e_Heap r ! a)"

definition ref_slice :: "ep \<Rightarrow> slice_ref \<Rightarrow> int slice" where
  "ref_slice r d = map_option (\<lambda>a. e_Heap r ! a) d"

definition ref_put :: "slice_ref \<Rightarrow> int list \<Rightarrow> ep \<Rightarrow> ep" where
  "ref_put d xs r = (case d of None \<Rightarrow> r | Some a \<Rightarrow> r\<lparr>e_Heap := (e_Heap r)[a := xs]\<rparr>)"

definition ref_new :: "int slice \<Rightarrow> ep \<Rightarrow> slice_ref \<times> ep" where
  "ref_new xs r =
     (case xs of None \<Rightarrow> (None, r) | Some ys \<Rightarrow> (Some (length (e_Heap r)), r\<lparr>e_Heap := e_Heap r @ [ys]\<rparr>))"

definition newNilDeps :: "ep \<Rightarrow> int list" where
  "newNilDeps r = replicate (nat (e_N r)) (- 1)"

subsection \<open>The instance space\<close>

text \<open>\<open>r.InstanceSpace[q][i]\<close>: reading a slot, dereferencing it, writing it.\<close>

definition in_space :: "ep \<Rightarrow> int \<Rightarrow> int \<Rightarrow> bool" where
  "in_space r q i \<longleftrightarrow> 0 \<le> q \<and> q < e_N r \<and> 0 \<le> i \<and> i < MAX_INSTANCE"

definition slot_get :: "ep \<Rightarrow> int \<Rightarrow> int \<Rightarrow> ep_inst option option" where
  "slot_get r q i = (if in_space r q i then Some (map_of (e_InstanceSpace r) (q, i)) else None)"

definition slot_ptr :: "ep \<Rightarrow> int \<Rightarrow> int \<Rightarrow> ep_inst option" where
  "slot_ptr r q i = do { x \<leftarrow> slot_get r q i; x }"

definition slot_put :: "int \<Rightarrow> int \<Rightarrow> ep_inst \<Rightarrow> ep \<Rightarrow> ep option" where
  "slot_put q i x r =
     (if in_space r q i then Some (r\<lparr>e_InstanceSpace := AList.update (q, i) x (e_InstanceSpace r)\<rparr>) else None)"

definition NewInstance :: "command slice \<Rightarrow> int \<Rightarrow> int \<Rightarrow> int \<Rightarrow> int \<Rightarrow> slice_ref \<Rightarrow> int \<Rightarrow> ep_inst" where
  "NewInstance cmds cballot lballot status seq deps now =
     \<lparr>x_Cmds = cmds, x_Bal = cballot, x_Vbal = lballot, x_Status = status, x_Seq = seq, x_Deps = deps, x_Lb = None,
      x_Index = 0, x_Lowlink = 0, x_ProposeTime = now\<rparr>"

definition newInstanceDefault :: "int \<Rightarrow> ep_inst" where
  "newInstanceDefault now = NewInstance None (- 1) (- 1) S_NONE (- 1) None now"

definition newLeaderBookkeeping ::
    "GPropose slice \<Rightarrow> slice_ref \<Rightarrow> int list \<Rightarrow> slice_ref \<Rightarrow> int \<Rightarrow> command slice \<Rightarrow> int \<Rightarrow> int \<Rightarrow> ep \<Rightarrow> ep_lb" where
  "newLeaderBookkeeping p originalDeps committedDeps deps lastTriedBallot cmds status seq r =
     \<lparr>k_ClientProposals = p, k_Ballot = - 1, k_AllEqual = True, k_PreAcceptOKs = 0, k_AcceptOKs = 0, k_Nacks = 0,
      k_OriginalDeps = originalDeps, k_CommittedDeps = committedDeps, k_PrepareReplies = [], k_Preparing = True,
      k_TryingToPreAccept = False, k_PossibleQuorum = replicate (nat (e_N r)) False, k_TpaReps = 0,
      k_TpaAccepted = False, k_LastTriedBallot = lastTriedBallot, k_Cmds = cmds, k_Status = status, k_Seq = seq,
      k_Deps = deps, k_LeaderResponded = False\<rparr>"

definition newLeaderBookkeepingDefault :: "ep \<Rightarrow> ep_lb \<times> ep" where
  "newLeaderBookkeepingDefault r =
     (let (od, r) = ref_new (Some (newNilDeps r)) r;
          (d, r) = ref_new (Some (newNilDeps r)) r
      in (newLeaderBookkeeping None od (newNilDeps r) d 0 None S_NONE (- 1) r, r))"

text \<open>The instance a message is about, created when the slot is empty.\<close>

definition ep_touch :: "int \<Rightarrow> int \<Rightarrow> int \<Rightarrow> ep \<Rightarrow> (ep_inst \<times> ep) option" where
  "ep_touch now q i r = do {
     slot \<leftarrow> slot_get r q i;
     (case slot of
        Some x \<Rightarrow> Some (x, r)
      | None \<Rightarrow> do {
          let x = newInstanceDefault now;
          r \<leftarrow> slot_put q i x r;
          Some (x, r)
        })
   }"

subsection \<open>Starting\<close>

definition New_epaxos :: "int \<Rightarrow> nat \<Rightarrow> bool \<Rightarrow> bool \<Rightarrow> int \<Rightarrow> bool \<Rightarrow> ep" where
  "New_epaxos i n exec durable batchWait transconf =
     \<lparr>e_Id = i, e_N = int n, e_Thrifty = True, e_LRead = False, e_Dreply = True, e_Durable = durable, e_Exec = exec,
      e_Alive = replicate n False, e_PeerOrder = map (\<lambda>k. (i + 1 + int k) smod int n) [0..<n],
      e_State = InitState, e_StableStore = [], e_Heap = [], e_InstanceSpace = [],
      e_crtInstance = replicate n (- 1), e_CommittedUpTo = replicate n (- 1), e_ExecedUpTo = replicate n (- 1),
      e_conflicts = replicate n Map.empty, e_maxSeqPerKey = Map.empty, e_maxSeq = 0, e_ProposeChan = [],
      e_instancesToRecover = [], e_IsLeader = False, e_maxRecvBallot = - 1, e_batchWait = batchWait, e_onOff = True,
      e_transconf = transconf, e_deferMap = Map.empty, e_problemInstance = replicate n (- 1),
      e_timeout = replicate n 0\<rparr>"

definition BeTheLeader_epaxos :: "ep \<Rightarrow> ep" where
  "BeTheLeader_epaxos r = r\<lparr>e_IsLeader := True\<rparr>"

subsection \<open>Stable storage\<close>

text \<open>The ballot is overwritten by the ballot of the last vote before anything is written.\<close>

definition ep_recordInstanceMetadata :: "ep_inst \<Rightarrow> ep \<Rightarrow> ep option" where
  "ep_recordInstanceMetadata x r =
     (if \<not> e_Durable r then Some r
      else
        let deps = ref_vals r (x_Deps x)
        in if e_N r < int (length deps) then None
           else Some (r\<lparr>e_StableStore := e_StableStore r @ put32 (x_Vbal x) @ put8 (x_Status x) @ put32 (x_Seq x) @
                  concat (map put32 deps) @ replicate (4 * (nat (e_N r) - length deps)) 0\<rparr>))"

text \<open>\<open>recordInstanceMetadata\<close> of a slot, which may be empty.\<close>

definition record_slot :: "int \<Rightarrow> int \<Rightarrow> ep \<Rightarrow> ep option" where
  "record_slot q i r = do {
     slot \<leftarrow> slot_get r q i;
     if e_Durable r then do { x \<leftarrow> slot; ep_recordInstanceMetadata x r } else Some r
   }"

definition ep_recordCommands :: "command slice \<Rightarrow> ep \<Rightarrow> ep" where
  "ep_recordCommands cs r =
     (if e_Durable r then r\<lparr>e_StableStore := e_StableStore r @ concat (map Command_Marshal (elems cs))\<rparr> else r)"

subsection \<open>Ballots\<close>

definition IsInitialBallot :: "int \<Rightarrow> int \<Rightarrow> bool" where
  "IsInitialBallot ballot replica \<longleftrightarrow> ballot = replica"

text \<open>The loop of \<open>MakeBallot\<close>; it may run for ever.\<close>

partial_function (option) MakeBallot_loop :: "int \<Rightarrow> int \<Rightarrow> int \<Rightarrow> int option" where
  "MakeBallot_loop n m b = (if b < m then MakeBallot_loop n m (i32 (b + n)) else Some b)"

declare MakeBallot_loop.simps [code]

definition MakeBallot :: "int \<Rightarrow> int \<Rightarrow> int \<Rightarrow> int \<Rightarrow> bool \<Rightarrow> int option" where
  "MakeBallot replicaId ownerReplica n maxRecvBallot isLeader =
     (let b = (if replicaId \<noteq> ownerReplica then i32 (replicaId + i32 n) else replicaId)
      in if isLeader then MakeBallot_loop (i32 n) maxRecvBallot b else Some b)"

definition ep_makeBallot :: "int \<Rightarrow> int \<Rightarrow> ep \<Rightarrow> ep option" where
  "ep_makeBallot q i r = do {
     x \<leftarrow> slot_ptr r q i;
     b \<leftarrow> MakeBallot (e_Id r) q (e_N r) (e_maxRecvBallot r) (e_IsLeader r);
     l \<leftarrow> x_Lb x;
     slot_put q i (x\<lparr>x_Lb := Some (l\<lparr>k_LastTriedBallot := b\<rparr>)\<rparr>) r
   }"

definition ep_see_ballot :: "int \<Rightarrow> ep \<Rightarrow> ep" where
  "ep_see_ballot b r = (if e_maxRecvBallot r < b then r\<lparr>e_maxRecvBallot := b\<rparr> else r)"

definition ep_see_instance :: "int \<Rightarrow> int \<Rightarrow> ep \<Rightarrow> ep option" where
  "ep_see_instance q i r = do {
     c \<leftarrow> slice_get (e_crtInstance r) q;
     if c < i then do { cs \<leftarrow> slice_set (e_crtInstance r) q i; Some (r\<lparr>e_crtInstance := cs\<rparr>) } else Some r
   }"

subsection \<open>Broadcasts\<close>

definition ep_send :: "int \<Rightarrow> ep_msg \<Rightarrow> ep \<Rightarrow> ep_out list option" where
  "ep_send p m r = (if 0 \<le> p \<and> p < e_N r then Some [EP_Send p m] else None)"

text \<open>The loop over the order of preference: a peer that does not exist is a panic, which ends it.\<close>

fun ep_peers :: "bool list \<Rightarrow> int \<Rightarrow> int \<Rightarrow> int list \<Rightarrow> int list" where
  "ep_peers alive n sent [] = []"
| "ep_peers alive n sent (p # ps) =
     (case slice_get alive p of
        None \<Rightarrow> []
      | Some a \<Rightarrow>
          if \<not> a then ep_peers alive n sent ps
          else p # (if n \<le> sent + 1 then [] else ep_peers alive n (sent + 1) ps))"

definition ep_bcast :: "int \<Rightarrow> ep_msg \<Rightarrow> ep \<Rightarrow> ep_out list" where
  "ep_bcast n m r =
     map (\<lambda>p. EP_Send p m) (ep_peers (e_Alive r) n 0 (take (nat (e_N r - 1)) (e_PeerOrder r)))"

text \<open>The broadcasts to the replicas in the order of their numbers.\<close>

definition alive_in :: "int list \<Rightarrow> ep \<Rightarrow> int list" where
  "alive_in qs r = filter (\<lambda>q. slice_get (e_Alive r) q = Some True) qs"

definition ep_bcastPrepare :: "int \<Rightarrow> int \<Rightarrow> ep \<Rightarrow> ep_out list" where
  "ep_bcastPrepare q i r =
     (case do { x \<leftarrow> slot_ptr r q i; x_Lb x } of
        None \<Rightarrow> []
      | Some l \<Rightarrow>
          map (\<lambda>p. EP_Send p (E_Prepare \<lparr>ep_LeaderId = e_Id r, ep_Replica = q, ep_Instance = i,
                  ep_Ballot = k_LastTriedBallot l\<rparr>))
            (alive_in (map (\<lambda>k. (e_Id r + k) smod e_N r) [1..e_N r - 1]) r))"

definition ep_bcastPreAccept :: "int \<Rightarrow> int \<Rightarrow> ep \<Rightarrow> ep_out list" where
  "ep_bcastPreAccept q i r =
     (case do { x \<leftarrow> slot_ptr r q i; x_Lb x } of
        None \<Rightarrow> []
      | Some l \<Rightarrow>
          ep_bcast (if e_Thrifty r then FastQuorumSize (e_N r) - 1 else e_N r - 1)
            (E_PreAccept \<lparr>ea_LeaderId = e_Id r, ea_Replica = q, ea_Instance = i, ea_Ballot = k_LastTriedBallot l,
               ea_Command = k_Cmds l, ea_Seq = k_Seq l, ea_Deps = ref_slice r (k_Deps l)\<rparr>) r)"

definition ep_bcastTryPreAccept :: "int \<Rightarrow> int \<Rightarrow> ep \<Rightarrow> ep_out list" where
  "ep_bcastTryPreAccept q i r =
     (case do { x \<leftarrow> slot_ptr r q i; x_Lb x } of
        None \<Rightarrow> []
      | Some l \<Rightarrow>
          map (\<lambda>p. EP_Send p (E_TryPreAccept \<lparr>et_LeaderId = e_Id r, et_Replica = q, et_Instance = i,
                  et_Ballot = k_LastTriedBallot l, et_Command = k_Cmds l, et_Seq = k_Seq l,
                  et_Deps = ref_slice r (k_Deps l)\<rparr>))
            (alive_in (filter (\<lambda>p. p \<noteq> e_Id r) [0..e_N r - 1]) r))"

definition ep_bcastAccept :: "int \<Rightarrow> int \<Rightarrow> ep \<Rightarrow> ep_out list" where
  "ep_bcastAccept q i r =
     (case do { x \<leftarrow> slot_ptr r q i; x_Lb x } of
        None \<Rightarrow> []
      | Some l \<Rightarrow>
          ep_bcast (if e_Thrifty r then e_N r sdiv 2 else e_N r - 1)
            (E_Accept \<lparr>ec_LeaderId = e_Id r, ec_Replica = q, ec_Instance = i, ec_Ballot = k_LastTriedBallot l,
               ec_Seq = k_Seq l, ec_Deps = ref_slice r (k_Deps l)\<rparr>) r)"

definition ep_bcastCommit :: "int \<Rightarrow> int \<Rightarrow> ep \<Rightarrow> ep_out list" where
  "ep_bcastCommit q i r =
     (case do { x \<leftarrow> slot_ptr r q i; x_Lb x } of
        None \<Rightarrow> []
      | Some l \<Rightarrow>
          ep_bcast (e_N r)
            (E_Commit \<lparr>em_LeaderId = e_Id r, em_Replica = q, em_Instance = i, em_Ballot = k_Ballot l,
               em_Command = k_Cmds l, em_Seq = k_Seq l, em_Deps = ref_slice r (k_Deps l)\<rparr>) r)"

subsection \<open>Conflicts and attributes\<close>

text \<open>The loop of \<open>updateCommitted\<close>, which reads the slots of a row until one is not committed; it runs
  past the end of the row if all are (a panic).\<close>

partial_function (option) committed_loop :: "ep \<Rightarrow> int \<Rightarrow> int \<Rightarrow> int option" where
  "committed_loop r q c =
     Option.bind (slot_get r q (i32 (c + 1))) (\<lambda>slot.
       case slot of
         None \<Rightarrow> Some c
       | Some x \<Rightarrow>
           if x_Status x = S_COMMITTED \<or> x_Status x = S_EXECUTED then committed_loop r q (i32 (c + 1)) else Some c)"

declare committed_loop.simps [code]

definition updateCommitted :: "int \<Rightarrow> ep \<Rightarrow> ep option" where
  "updateCommitted q r = do {
     c \<leftarrow> slice_get (e_CommittedUpTo r) q;
     c \<leftarrow> committed_loop r q c;
     cs \<leftarrow> slice_set (e_CommittedUpTo r) q c;
     Some (r\<lparr>e_CommittedUpTo := cs\<rparr>)
   }"

definition note_conflict :: "command \<Rightarrow> int \<Rightarrow> (key \<rightharpoonup> ep_pair) \<Rightarrow> (key \<rightharpoonup> ep_pair)" where
  "note_conflict c i m =
     (case m (K c) of
        Some d \<Rightarrow>
          m(K c \<mapsto> \<lparr>Last = (if Last d < i then i else Last d),
                   LastWrite = (if LastWrite d < i \<and> Op c \<noteq> GET then i else LastWrite d)\<rparr>)
      | None \<Rightarrow> m(K c \<mapsto> \<lparr>Last = i, LastWrite = (if Op c \<noteq> GET then i else - 1)\<rparr>))"

definition note_seq :: "command \<Rightarrow> int \<Rightarrow> (key \<rightharpoonup> int) \<Rightarrow> (key \<rightharpoonup> int)" where
  "note_seq c seq m =
     (case m (K c) of Some s \<Rightarrow> (if s < seq then m(K c \<mapsto> seq) else m) | None \<Rightarrow> m(K c \<mapsto> seq))"

fun updateConflicts :: "command list \<Rightarrow> int \<Rightarrow> int \<Rightarrow> int \<Rightarrow> ep \<Rightarrow> ep option" where
  "updateConflicts [] q i seq r = Some r"
| "updateConflicts (c # cs) q i seq r = do {
     m \<leftarrow> slice_get (e_conflicts r) q;
     ms \<leftarrow> slice_set (e_conflicts r) q (note_conflict c i m);
     updateConflicts cs q i seq
       (r\<lparr>e_conflicts := ms, e_maxSeqPerKey := note_seq c seq (e_maxSeqPerKey r)\<rparr>)
   }"

text \<open>\<open>updateAttributes\<close>, on the values of the slice it is given. The first loop stops, for a row, at the
  first command that raises its dependency.\<close>

fun attr_row :: "ep \<Rightarrow> int \<Rightarrow> (key \<rightharpoonup> ep_pair) \<Rightarrow> command list \<Rightarrow> int \<Rightarrow> int list \<Rightarrow> (int \<times> int list \<times> bool) option" where
  "attr_row r q m [] seq deps = Some (seq, deps, False)"
| "attr_row r q m (c # cs) seq deps =
     (case m (K c) of
        None \<Rightarrow> attr_row r q m cs seq deps
      | Some p \<Rightarrow> do {
          let d = (if Op c \<noteq> GET then Last p else LastWrite p);
          d0 \<leftarrow> slice_get deps q;
          if d0 < d then do {
            deps \<leftarrow> slice_set deps q d;
            x \<leftarrow> slot_ptr r q d;
            Some (if seq \<le> x_Seq x then i32 (x_Seq x + 1) else seq, deps, True)
          }
          else attr_row r q m cs seq deps
        })"

fun attr_rows :: "ep \<Rightarrow> int \<Rightarrow> command list \<Rightarrow> int list \<Rightarrow> int \<Rightarrow> int list \<Rightarrow> bool \<Rightarrow>
    (int \<times> int list \<times> bool) option" where
  "attr_rows r owner cs [] seq deps changed = Some (seq, deps, changed)"
| "attr_rows r owner cs (q # qs) seq deps changed =
     (if e_Id r \<noteq> owner \<and> q = owner then attr_rows r owner cs qs seq deps changed
      else do {
        m \<leftarrow> slice_get (e_conflicts r) q;
        (seq, deps, ch) \<leftarrow> attr_row r q m cs seq deps;
        attr_rows r owner cs qs seq deps (changed \<or> ch)
      })"

fun attr_seqs :: "(key \<rightharpoonup> int) \<Rightarrow> command list \<Rightarrow> int \<Rightarrow> bool \<Rightarrow> int \<times> bool" where
  "attr_seqs m [] seq changed = (seq, changed)"
| "attr_seqs m (c # cs) seq changed =
     (case m (K c) of
        Some s \<Rightarrow> if seq \<le> s then attr_seqs m cs (i32 (s + 1)) True else attr_seqs m cs seq changed
      | None \<Rightarrow> attr_seqs m cs seq changed)"

definition attributes :: "command list \<Rightarrow> int \<Rightarrow> int list \<Rightarrow> int \<Rightarrow> ep \<Rightarrow> (int \<times> int list \<times> bool) option" where
  "attributes cs seq deps owner r = do {
     (seq, deps, changed) \<leftarrow> attr_rows r owner cs [0..e_N r - 1] seq deps False;
     let (seq, changed) = attr_seqs (e_maxSeqPerKey r) cs seq changed;
     Some (seq, deps, changed)
   }"

text \<open>The call on a slice: what the code writes goes into the array the slice names.\<close>

definition updateAttributes :: "command list \<Rightarrow> int \<Rightarrow> slice_ref \<Rightarrow> int \<Rightarrow> ep \<Rightarrow> (int \<times> bool \<times> ep) option" where
  "updateAttributes cs seq d owner r = do {
     (seq, deps, changed) \<leftarrow> attributes cs seq (ref_vals r d) owner r;
     Some (seq, changed, ref_put d deps r)
   }"

fun merge_rows :: "int \<Rightarrow> int list \<Rightarrow> int list \<Rightarrow> int list \<Rightarrow> bool \<Rightarrow> (int list \<times> bool) option" where
  "merge_rows own [] deps1 deps2 equal = Some (deps1, equal)"
| "merge_rows own (q # qs) deps1 deps2 equal =
     (if q = own then merge_rows own qs deps1 deps2 equal
      else do {
        d1 \<leftarrow> slice_get deps1 q;
        d2 \<leftarrow> slice_get deps2 q;
        if d1 \<noteq> d2
        then do {
          deps1 \<leftarrow> (if d1 < d2 then slice_set deps1 q d2 else Some deps1);
          merge_rows own qs deps1 deps2 False
        }
        else merge_rows own qs deps1 deps2 equal
      })"

definition mergeAttributes :: "int \<Rightarrow> slice_ref \<Rightarrow> int \<Rightarrow> slice_ref \<Rightarrow> ep \<Rightarrow> (int \<times> bool \<times> ep) option" where
  "mergeAttributes seq1 d1 seq2 d2 r = do {
     (deps, equal) \<leftarrow> merge_rows (e_Id r) [0..e_N r - 1] (ref_vals r d1) (ref_vals r d2) (seq1 = seq2);
     Some (if seq1 < seq2 then seq2 else seq1, equal, ref_put d1 deps r)
   }"

fun depsEqual :: "int list \<Rightarrow> int list \<Rightarrow> bool option" where
  "depsEqual [] ds = Some True"
| "depsEqual (a # as) [] = None"
| "depsEqual (a # as) (b # bs) = (if a \<noteq> b then Some False else depsEqual as bs)"

subsection \<open>Proposing\<close>

definition startPhase1 :: "int \<Rightarrow> command slice \<Rightarrow> int \<Rightarrow> int \<Rightarrow> int \<Rightarrow> GPropose slice \<Rightarrow> ep \<Rightarrow> ep_result" where
  "startPhase1 now cmds q i ballot proposals r = do {
     let (d, r) = ref_new (Some (newNilDeps r)) r;
     (seq, _, r) \<leftarrow> updateAttributes (elems cmds) 0 d q r;
     let x = NewInstance cmds ballot ballot S_PREACCEPTED seq d now;
     let l = newLeaderBookkeeping proposals d (newNilDeps r) d ballot cmds S_PREACCEPTED (- 1) r;
     r \<leftarrow> slot_put q i (x\<lparr>x_Lb := Some l\<rparr>) r;
     r \<leftarrow> updateConflicts (elems cmds) q i seq r;
     let r = (if e_maxSeq r \<le> seq then r\<lparr>e_maxSeq := seq\<rparr> else r);
     r \<leftarrow> record_slot (e_Id r) i r;
     let r = ep_recordCommands cmds r;
     Some (r, ep_bcastPreAccept q i r)
   }"

definition ep_handlePropose :: "int \<Rightarrow> GPropose \<Rightarrow> ep \<Rightarrow> ep_result" where
  "ep_handlePropose now p r = do {
     c \<leftarrow> slice_get (e_crtInstance r) (e_Id r);
     cs \<leftarrow> slice_set (e_crtInstance r) (e_Id r) (i32 (c + 1));
     startPhase1 now (Some [p_Command (Propose p)]) (e_Id r) (i32 (c + 1)) (e_Id r) (Some [p]) (r\<lparr>e_crtInstance := cs\<rparr>)
   }"

subsection \<open>Pre-accepting\<close>

definition ep_handlePreAccept :: "int \<Rightarrow> ep_PreAccept \<Rightarrow> ep \<Rightarrow> ep_result" where
  "ep_handlePreAccept now m r = do {
     let (d, r) = ref_new (ea_Deps m) r;
     _ \<leftarrow> slot_get r (ea_Replica m) (ea_Instance m);
     let r = (if e_maxSeq r \<le> ea_Seq m then r\<lparr>e_maxSeq := i32 (ea_Seq m + 1)\<rparr> else r);
     let r = ep_see_ballot (ea_Ballot m) r;
     r \<leftarrow> ep_see_instance (ea_Replica m) (ea_Instance m) r;
     (x, r) \<leftarrow> ep_touch now (ea_Replica m) (ea_Instance m) r;
     if ea_Ballot m < x_Bal x then Some (r, [])
     else do {
       let x = x\<lparr>x_Bal := ea_Ballot m\<rparr>;
       r \<leftarrow> slot_put (ea_Replica m) (ea_Instance m) x r;
       (x, r) \<leftarrow> (if S_ACCEPTED \<le> x_Status x
         then if x_Cmds x = None
           then do {
             y \<leftarrow> slot_ptr r (ea_LeaderId m) (ea_Instance m);
             r \<leftarrow> slot_put (ea_LeaderId m) (ea_Instance m) (y\<lparr>x_Cmds := ea_Command m\<rparr>) r;
             r \<leftarrow> updateConflicts (elems (ea_Command m)) (ea_Replica m) (ea_Instance m) (ea_Seq m) r;
             Some (x, ep_recordCommands (ea_Command m) r)
           }
           else Some (x, r)
         else do {
           (seq, changed, r) \<leftarrow> updateAttributes (elems (ea_Command m)) (ea_Seq m) d (ea_Replica m) r;
           let x = x\<lparr>x_Cmds := ea_Command m, x_Seq := seq, x_Deps := d, x_Bal := ea_Ballot m,
                     x_Vbal := ea_Ballot m,
                     x_Status := (if changed then S_PREACCEPTED else S_PREACCEPTED_EQ)\<rparr>;
           r \<leftarrow> slot_put (ea_Replica m) (ea_Instance m) x r;
           r \<leftarrow> updateConflicts (elems (ea_Command m)) (ea_Replica m) (ea_Instance m) (ea_Seq m) r;
           r \<leftarrow> ep_recordInstanceMetadata x r;
           Some (x, ep_recordCommands (ea_Command m) r)
         });
       outs \<leftarrow> ep_send (ea_LeaderId m) (E_PreAcceptReply \<lparr>eb_Replica = ea_Replica m, eb_Instance = ea_Instance m,
                 eb_Ballot = x_Bal x, eb_VBallot = x_Vbal x, eb_Seq = x_Seq x, eb_Deps = ref_slice r (x_Deps x),
                 eb_CommittedDeps = Some (e_CommittedUpTo r), eb_Status = x_Status x\<rparr>) r;
       Some (r, outs)
     }
   }"

text \<open>A vote against the ballot of the leader; a majority of them makes it start another one.\<close>

definition ep_nack :: "int \<Rightarrow> int \<Rightarrow> ep_inst \<Rightarrow> ep_lb \<Rightarrow> ep \<Rightarrow> ep_result" where
  "ep_nack q i x l r = do {
     let l = l\<lparr>k_Nacks := k_Nacks l + 1\<rparr>;
     r \<leftarrow> slot_put q i (x\<lparr>x_Lb := Some l\<rparr>) r;
     if e_N r sdiv 2 < k_Nacks l + 1 \<and> e_IsLeader r
     then do { r \<leftarrow> ep_makeBallot q i r; Some (r, ep_bcastPrepare q i r) }
     else Some (r, [])
   }"

definition ep_replies :: "GPropose slice \<Rightarrow> ep \<Rightarrow> ep_out list" where
  "ep_replies ps r =
     (if e_Dreply r then []
      else map (\<lambda>p. EP_Reply p \<lparr>OK = TRUE, CommandId = p_CommandId (Propose p), Value = NIL,
                  Timestamp = p_Timestamp (Propose p), LeaderId = 0, LogIndex = 0\<rparr>) (elems ps))"

text \<open>The committed dependencies a reply reports, merged into those the leader knows; they are asked for
  in clusters of more than seven replicas.\<close>

fun committed_rows :: "int list \<Rightarrow> int list \<Rightarrow> int list \<Rightarrow> int list \<Rightarrow> int list \<Rightarrow> bool \<Rightarrow> (int list \<times> bool) option" where
  "committed_rows [] cd reported upTo deps ok = Some (cd, ok)"
| "committed_rows (q # qs) cd reported upTo deps ok = do {
     a \<leftarrow> slice_get cd q;
     b \<leftarrow> slice_get reported q;
     u \<leftarrow> slice_get upTo q;
     d \<leftarrow> slice_get deps q;
     let a = max (max a b) u;
     cd \<leftarrow> slice_set cd q a;
     committed_rows qs cd reported upTo deps (ok \<and> d \<le> a)
   }"

definition ep_committed_deps :: "int slice \<Rightarrow> slice_ref \<Rightarrow> ep_lb \<Rightarrow> ep \<Rightarrow> (ep_lb \<times> bool) option" where
  "ep_committed_deps reported deps l r =
     (if 7 < e_N r
      then do {
        (cd, ok) \<leftarrow> committed_rows [0..e_N r - 1] (k_CommittedDeps l) (elems reported) (e_CommittedUpTo r)
                      (ref_vals r deps) True;
        Some (l\<lparr>k_CommittedDeps := cd\<rparr>, ok)
      }
      else Some (l, True))"

text \<open>The attributes of the bookkeeping, taken over by the instance.\<close>

definition adopt :: "ep_lb \<Rightarrow> ep_inst \<Rightarrow> ep_inst" where
  "adopt l x = x\<lparr>x_Status := k_Status l, x_Bal := k_Ballot l, x_Cmds := k_Cmds l, x_Deps := k_Deps l,
                 x_Seq := k_Seq l, x_Lb := Some l\<rparr>"

definition ep_handlePreAcceptReply :: "ep_PreAcceptReply \<Rightarrow> ep \<Rightarrow> ep_result" where
  "ep_handlePreAcceptReply m r = do {
     let (d, r) = ref_new (eb_Deps m) r;
     x \<leftarrow> slot_ptr r (eb_Replica m) (eb_Instance m);
     let r = ep_see_ballot (eb_Ballot m) r;
     l \<leftarrow> x_Lb x;
     if eb_Ballot m < k_LastTriedBallot l then Some (r, [])
     else if k_LastTriedBallot l < eb_Ballot m then ep_nack (eb_Replica m) (eb_Instance m) x l r
     else if k_Status l \<noteq> S_PREACCEPTED \<and> k_Status l \<noteq> S_PREACCEPTED_EQ then Some (r, [])
     else do {
       let l = l\<lparr>k_PreAcceptOKs := k_PreAcceptOKs l + 1\<rparr>;
       let l = (if k_Ballot l < eb_VBallot m
                then l\<lparr>k_Ballot := eb_VBallot m, k_Seq := eb_Seq m, k_Deps := d, k_Status := eb_Status m\<rparr> else l);
       let isInitBallot = IsInitialBallot (k_LastTriedBallot l) (eb_Replica m);
       (seq, allEqual, r) \<leftarrow> mergeAttributes (k_Seq l) (k_Deps l) (eb_Seq m) d r;
       let l = (if e_N r \<le> 3 \<and> e_Thrifty r then l else l\<lparr>k_AllEqual := k_AllEqual l \<and> allEqual\<rparr>);
       (l, allCommitted) \<leftarrow> ep_committed_deps (eb_CommittedDeps m) (x_Deps x) l r;
       let l = (if k_Status l \<le> S_PREACCEPTED_EQ then l\<lparr>k_Seq := seq\<rparr> else l);
       let precondition = (k_AllEqual l \<and> allCommitted \<and> isInitBallot);
       if FastQuorumSize (e_N r) - 1 \<le> k_PreAcceptOKs l \<and> precondition
       then do {
         let l = l\<lparr>k_Status := S_COMMITTED\<rparr>;
         let x = adopt l x;
         r \<leftarrow> slot_put (eb_Replica m) (eb_Instance m) x r;
         r \<leftarrow> ep_recordInstanceMetadata x r;
         r \<leftarrow> updateCommitted (eb_Replica m) r;
         Some (r, ep_replies (k_ClientProposals l) r @ ep_bcastCommit (eb_Replica m) (eb_Instance m) r)
       }
       else if FastQuorumSize (e_N r) - 1 \<le> k_PreAcceptOKs l
       then do {
         let l = l\<lparr>k_Status := S_ACCEPTED\<rparr>;
         let x = adopt l x;
         r \<leftarrow> slot_put (eb_Replica m) (eb_Instance m) x r;
         r \<leftarrow> ep_recordInstanceMetadata x r;
         Some (r, ep_bcastAccept (eb_Replica m) (eb_Instance m) r)
       }
       else do { r \<leftarrow> slot_put (eb_Replica m) (eb_Instance m) (x\<lparr>x_Lb := Some l\<rparr>) r; Some (r, []) }
     }
   }"

subsection \<open>Accepting and committing\<close>

text \<open>\<open>handleAccept\<close> leaves the status of the instance as it was.\<close>

definition ep_handleAccept :: "int \<Rightarrow> ep_Accept \<Rightarrow> ep \<Rightarrow> ep_result" where
  "ep_handleAccept now m r = do {
     let (d, r) = ref_new (ec_Deps m) r;
     _ \<leftarrow> slot_get r (ec_Replica m) (ec_Instance m);
     let r = ep_see_ballot (ec_Ballot m) r;
     r \<leftarrow> ep_see_instance (ec_Replica m) (ec_Instance m) r;
     (x, r) \<leftarrow> ep_touch now (ec_Replica m) (ec_Instance m) r;
     (x, r) \<leftarrow> (if ec_Ballot m < x_Bal x then Some (x, r)
       else if S_COMMITTED \<le> x_Status x then Some (x, r)
       else do {
         let x = x\<lparr>x_Deps := d, x_Seq := ec_Seq m, x_Bal := ec_Ballot m, x_Vbal := ec_Ballot m\<rparr>;
         r \<leftarrow> slot_put (ec_Replica m) (ec_Instance m) x r;
         r \<leftarrow> ep_recordInstanceMetadata x r;
         Some (x, r)
       });
     outs \<leftarrow> ep_send (ec_LeaderId m) (E_AcceptReply \<lparr>ed_Replica = ec_Replica m, ed_Instance = ec_Instance m,
               ed_Ballot = x_Bal x\<rparr>) r;
     Some (r, outs)
   }"

text \<open>The branch of \<open>handleAcceptReply\<close> for higher ballots follows a test that returns on every ballot but
  the one last tried; it is kept as it is written.\<close>

definition ep_handleAcceptReply :: "ep_AcceptReply \<Rightarrow> ep \<Rightarrow> ep_result" where
  "ep_handleAcceptReply m r = do {
     x \<leftarrow> slot_ptr r (ed_Replica m) (ed_Instance m);
     let r = ep_see_ballot (ed_Ballot m) r;
     l \<leftarrow> x_Lb x;
     if k_Status l \<noteq> S_ACCEPTED then Some (r, [])
     else if k_LastTriedBallot l \<noteq> ed_Ballot m then Some (r, [])
     else if k_LastTriedBallot l < ed_Ballot m then ep_nack (ed_Replica m) (ed_Instance m) x l r
     else do {
       let l = l\<lparr>k_AcceptOKs := k_AcceptOKs l + 1\<rparr>;
       if e_N r sdiv 2 < k_AcceptOKs l + 1
       then do {
         let l = l\<lparr>k_Status := S_COMMITTED\<rparr>;
         let x = x\<lparr>x_Status := S_COMMITTED, x_Lb := Some l\<rparr>;
         r \<leftarrow> slot_put (ed_Replica m) (ed_Instance m) x r;
         r \<leftarrow> updateCommitted (ed_Replica m) r;
         r \<leftarrow> ep_recordInstanceMetadata x r;
         Some (r, ep_replies (k_ClientProposals l) r @ ep_bcastCommit (ed_Replica m) (ed_Instance m) r)
       }
       else do { r \<leftarrow> slot_put (ed_Replica m) (ed_Instance m) (x\<lparr>x_Lb := Some l\<rparr>) r; Some (r, []) }
     }
   }"

definition ep_repropose :: "ep_Commit \<Rightarrow> ep_inst \<Rightarrow> ep \<Rightarrow> (ep_inst \<times> ep) option" where
  "ep_repropose m x r =
     (if em_Replica m \<noteq> e_Id r then Some (x, r)
      else case elems (em_Command m) of
        [c] \<Rightarrow>
          if Op c \<noteq> NONE then Some (x, r)
          else do {
            l \<leftarrow> x_Lb x;
            (case k_ClientProposals l of
               None \<Rightarrow> Some (x, r)
             | Some ps \<Rightarrow>
                 Some (x\<lparr>x_Lb := Some (l\<lparr>k_ClientProposals := None\<rparr>)\<rparr>, r\<lparr>e_ProposeChan := e_ProposeChan r @ ps\<rparr>))
          }
      | _ \<Rightarrow> Some (x, r))"

definition ep_handleCommit :: "int \<Rightarrow> ep_Commit \<Rightarrow> ep \<Rightarrow> ep_result" where
  "ep_handleCommit now m r = do {
     let (d, r) = ref_new (em_Deps m) r;
     _ \<leftarrow> slot_get r (em_Replica m) (em_Instance m);
     r \<leftarrow> ep_see_instance (em_Replica m) (em_Instance m) r;
     let r = ep_see_ballot (em_Ballot m) r;
     (x, r) \<leftarrow> ep_touch now (em_Replica m) (em_Instance m) r;
     if S_COMMITTED \<le> x_Status x then Some (r, [])
     else if em_Ballot m < x_Bal x then Some (r, [])
     else do {
       (x, r) \<leftarrow> ep_repropose m x r;
       let x = x\<lparr>x_Bal := em_Ballot m, x_Vbal := em_Ballot m, x_Cmds := em_Command m, x_Seq := em_Seq m,
                 x_Deps := d, x_Status := S_COMMITTED\<rparr>;
       r \<leftarrow> slot_put (em_Replica m) (em_Instance m) x r;
       r \<leftarrow> updateConflicts (elems (em_Command m)) (em_Replica m) (em_Instance m) (em_Seq m) r;
       r \<leftarrow> updateCommitted (em_Replica m) r;
       r \<leftarrow> ep_recordInstanceMetadata x r;
       Some (ep_recordCommands (em_Command m) r, [])
     }
   }"

subsection \<open>Recovery\<close>

definition startRecoveryForInstance :: "int \<Rightarrow> int \<Rightarrow> int \<Rightarrow> ep \<Rightarrow> ep_result" where
  "startRecoveryForInstance now q i r = do {
     slot \<leftarrow> slot_get r q i;
     (x, r) \<leftarrow> ep_touch now q i r;
     if slot \<noteq> None \<and> S_COMMITTED \<le> x_Status x \<and> x_Cmds x \<noteq> None then Some (r, [])
     else do {
       let proposals = Option.bind (x_Lb x) k_ClientProposals;
       let (l, r) = newLeaderBookkeepingDefault r;
       let l = l\<lparr>k_ClientProposals := proposals, k_Ballot := x_Vbal x, k_Seq := x_Seq x, k_Cmds := x_Cmds x,
                 k_Deps := x_Deps x, k_Status := x_Status x\<rparr>;
       r \<leftarrow> slot_put q i (x\<lparr>x_Lb := Some l\<rparr>) r;
       r \<leftarrow> ep_makeBallot q i r;
       x \<leftarrow> slot_ptr r q i;
       l \<leftarrow> x_Lb x;
       let x = x\<lparr>x_Bal := k_LastTriedBallot l, x_Vbal := k_LastTriedBallot l\<rparr>;
       let preply = \<lparr>er_AcceptorId = e_Id r, er_Replica = q, er_Instance = i, er_Ballot = x_Bal x,
                      er_VBallot = x_Vbal x, er_Status = x_Status x, er_Command = x_Cmds x, er_Seq = x_Seq x,
                      er_Deps = ref_slice r (x_Deps x)\<rparr>;
       let l = l\<lparr>k_PrepareReplies := k_PrepareReplies l @ [(preply, x_Deps x)], k_LeaderResponded := (e_Id r = q)\<rparr>;
       r \<leftarrow> slot_put q i (x\<lparr>x_Lb := Some l\<rparr>) r;
       Some (r, ep_bcastPrepare q i r)
     }
   }"

definition ep_handlePrepare :: "int \<Rightarrow> ep_Prepare \<Rightarrow> ep \<Rightarrow> ep_result" where
  "ep_handlePrepare now m r = do {
     _ \<leftarrow> slot_get r (ep_Replica m) (ep_Instance m);
     let r = ep_see_ballot (ep_Ballot m) r;
     (x, r) \<leftarrow> ep_touch now (ep_Replica m) (ep_Instance m) r;
     let x = (if x_Bal x < ep_Ballot m then x\<lparr>x_Bal := ep_Ballot m\<rparr> else x);
     r \<leftarrow> slot_put (ep_Replica m) (ep_Instance m) x r;
     outs \<leftarrow> ep_send (ep_LeaderId m) (E_PrepareReply \<lparr>er_AcceptorId = e_Id r, er_Replica = ep_Replica m,
               er_Instance = ep_Instance m, er_Ballot = x_Bal x, er_VBallot = x_Vbal x, er_Status = x_Status x,
               er_Command = x_Cmds x, er_Seq = x_Seq x, er_Deps = ref_slice r (x_Deps x)\<rparr>) r;
     Some (r, outs)
   }"

text \<open>The first loop over the replies takes over what the replies with the highest ballot report, the last
  of them winning, and counts those that have pre-accepted.\<close>

fun scan_replies :: "(ep_PrepareReply \<times> slice_ref) list \<Rightarrow> ep_lb \<Rightarrow> int \<Rightarrow> ep_lb \<times> int" where
  "scan_replies [] l n = (l, n)"
| "scan_replies ((e, d) # es) l n =
     (let l = (if k_Ballot l \<le> er_VBallot e
               then l\<lparr>k_Ballot := er_VBallot e, k_Cmds := er_Command e, k_Seq := er_Seq e, k_Deps := d,
                      k_Status := er_Status e\<rparr> else l);
          l = (if er_AcceptorId e = er_Replica e then l\<lparr>k_LeaderResponded := True\<rparr> else l)
      in scan_replies es l
           (if er_Status e = S_PREACCEPTED_EQ \<or> er_Status e = S_PREACCEPTED then n + 1 else n))"

text \<open>The second loop compares them; what it merges stays in the array of the bookkeeping.\<close>

fun replies_equal :: "(ep_PrepareReply \<times> slice_ref) list \<Rightarrow> ep_lb \<Rightarrow> ep \<Rightarrow> (bool \<times> ep) option" where
  "replies_equal [] l r = Some (True, r)"
| "replies_equal ((e, d) # es) l r =
     (if er_VBallot e = k_Ballot l \<and> S_PREACCEPTED \<le> er_Status e
      then do {
        (_, eq, r) \<leftarrow> mergeAttributes (k_Seq l) (k_Deps l) (er_Seq e) d r;
        if eq then replies_equal es l r else Some (False, r)
      }
      else replies_equal es l r)"

text \<open>The choice of the case; the fourth is guarded by the condition of the third.\<close>

definition recovery_case :: "ep_lb \<Rightarrow> int \<Rightarrow> ep \<Rightarrow> (int \<times> ep) option" where
  "recovery_case l preAcceptCount r =
     (if S_COMMITTED \<le> k_Status l then Some (1, r)
      else if k_Status l = S_ACCEPTED then Some (2, r)
      else if k_Status l = S_PREACCEPTED \<or> k_Status l = S_PREACCEPTED_EQ
      then do {
        (allEqual, r) \<leftarrow> replies_equal (k_PrepareReplies l) l r;
        let quorum = SlowQuorumSize (e_N r) - 1;
        if quorum \<le> preAcceptCount \<and> \<not> k_LeaderResponded l \<and> allEqual then Some (3, r)
        else if quorum \<le> preAcceptCount \<and> \<not> k_LeaderResponded l \<and> allEqual then Some (4, r)
        else if 0 < preAcceptCount \<and> (k_LeaderResponded l \<or> \<not> allEqual \<or> preAcceptCount < quorum)
        then Some (5, r)
        else None
      }
      else if k_Status l = S_NONE then Some (6, r)
      else None)"

definition ep_handlePrepareReply :: "int \<Rightarrow> ep_PrepareReply \<Rightarrow> ep \<Rightarrow> ep_result" where
  "ep_handlePrepareReply now m r = do {
     let (d, r) = ref_new (er_Deps m) r;
     x \<leftarrow> slot_ptr r (er_Replica m) (er_Instance m);
     let r = ep_see_ballot (er_Ballot m) r;
     (case x_Lb x of
        None \<Rightarrow> Some (r, [])
      | Some l \<Rightarrow>
          if \<not> k_Preparing l then Some (r, [])
          else if er_Ballot m \<noteq> k_LastTriedBallot l
          then do {
            r \<leftarrow> slot_put (er_Replica m) (er_Instance m) (x\<lparr>x_Lb := Some (l\<lparr>k_Nacks := k_Nacks l + 1\<rparr>)\<rparr>) r;
            Some (r, [])
          }
          else do {
            let l = l\<lparr>k_PrepareReplies := k_PrepareReplies l @ [(m, d)]\<rparr>;
            if int (length (k_PrepareReplies l)) < SlowQuorumSize (e_N r)
            then do { r \<leftarrow> slot_put (er_Replica m) (er_Instance m) (x\<lparr>x_Lb := Some l\<rparr>) r; Some (r, []) }
            else do {
              let (l, n) = scan_replies (k_PrepareReplies l) (l\<lparr>k_Preparing := False\<rparr>) 0;
              (subCase, r) \<leftarrow> recovery_case l n r;
              let x = x\<lparr>x_Cmds := k_Cmds l, x_Bal := k_LastTriedBallot l, x_Vbal := k_LastTriedBallot l,
                        x_Seq := k_Seq l, x_Deps := k_Deps l, x_Status := k_Status l, x_Lb := Some l\<rparr>;
              if subCase = 1
              then do { r \<leftarrow> slot_put (er_Replica m) (er_Instance m) x r; Some (r, []) }
              else if subCase = 2 \<or> subCase = 3
              then do {
                r \<leftarrow> slot_put (er_Replica m) (er_Instance m)
                  (x\<lparr>x_Status := S_ACCEPTED, x_Lb := Some (l\<lparr>k_Status := S_ACCEPTED\<rparr>)\<rparr>) r;
                Some (r, ep_bcastAccept (er_Replica m) (er_Instance m) r)
              }
              else if subCase = 4
              then do {
                r \<leftarrow> slot_put (er_Replica m) (er_Instance m) (x\<lparr>x_Lb := Some (l\<lparr>k_TryingToPreAccept := True\<rparr>)\<rparr>) r;
                Some (r, ep_bcastTryPreAccept (er_Replica m) (er_Instance m) r)
              }
              else do {
                r \<leftarrow> slot_put (er_Replica m) (er_Instance m) x r;
                startPhase1 now (if k_Cmds l \<noteq> None then k_Cmds l else Some NOOP) (er_Replica m) (er_Instance m)
                  (k_LastTriedBallot l) (k_ClientProposals l) r
              }
            }
          })
   }"

subsection \<open>Trying to pre-accept\<close>

text \<open>The inner loop of \<open>findPreAcceptConflicts\<close> over the instances of row \<open>q\<close>.\<close>

fun conflict_scan ::
    "ep \<Rightarrow> command list \<Rightarrow> int \<Rightarrow> int \<Rightarrow> int \<Rightarrow> int list \<Rightarrow> int \<Rightarrow> int list \<Rightarrow> int option option" where
  "conflict_scan r cs owner inst seq deps q [] = Some None"
| "conflict_scan r cs owner inst seq deps q (i # is) =
     (if i = - 1 then conflict_scan r cs owner inst seq deps q is
      else if owner = q \<and> inst = i then Some None
      else do {
        d \<leftarrow> slice_get deps q;
        if i = d then conflict_scan r cs owner inst seq deps q is
        else do {
          slot \<leftarrow> slot_get r q i;
          (case slot of
             None \<Rightarrow> conflict_scan r cs owner inst seq deps q is
           | Some y \<Rightarrow>
               if elems (x_Cmds y) = [] then conflict_scan r cs owner inst seq deps q is
               else do {
                 back \<leftarrow> slice_get (ref_vals r (x_Deps y)) owner;
                 if inst \<le> back then conflict_scan r cs owner inst seq deps q is
                 else do {
                   c \<leftarrow> (if e_LRead r then Some True else ConflictBatch (elems (x_Cmds y)) cs);
                   if c \<and> (d < i \<or> i < d \<and> seq \<le> x_Seq y \<and> (q \<noteq> owner \<or> S_PREACCEPTED_EQ < x_Status y))
                   then Some (Some i)
                   else conflict_scan r cs owner inst seq deps q is
                 }
               })
        }
      })"

fun conflict_rows ::
    "ep \<Rightarrow> command list \<Rightarrow> int \<Rightarrow> int \<Rightarrow> int \<Rightarrow> int list \<Rightarrow> int list \<Rightarrow> (bool \<times> int \<times> int) option" where
  "conflict_rows r cs owner inst seq deps [] = Some (False, - 1, - 1)"
| "conflict_rows r cs owner inst seq deps (q # qs) = do {
     from \<leftarrow> slice_get (e_ExecedUpTo r) q;
     upTo \<leftarrow> slice_get (e_crtInstance r) q;
     found \<leftarrow> conflict_scan r cs owner inst seq deps q [from..upTo];
     (case found of
        Some i \<Rightarrow> Some (True, q, i)
      | None \<Rightarrow> conflict_rows r cs owner inst seq deps qs)
   }"

definition findPreAcceptConflicts ::
    "command list \<Rightarrow> int \<Rightarrow> int \<Rightarrow> int \<Rightarrow> int list \<Rightarrow> ep \<Rightarrow> (bool \<times> int \<times> int) option" where
  "findPreAcceptConflicts cs owner inst seq deps r = do {
     slot \<leftarrow> slot_get r owner inst;
     early \<leftarrow> (case slot of
       Some x \<Rightarrow>
         if elems (x_Cmds x) = [] then Some None
         else if S_ACCEPTED \<le> x_Status x then Some (Some True)
         else if x_Seq x = seq
         then do { eq \<leftarrow> depsEqual (ref_vals r (x_Deps x)) deps; Some (if eq then Some False else None) }
         else Some None
     | None \<Rightarrow> Some None);
     (case early of
        Some c \<Rightarrow> Some (c, owner, inst)
      | None \<Rightarrow> conflict_rows r cs owner inst seq deps [0..e_N r - 1])
   }"

definition ep_handleTryPreAccept :: "int \<Rightarrow> ep_TryPreAccept \<Rightarrow> ep \<Rightarrow> ep_result" where
  "ep_handleTryPreAccept now m r = do {
     let (d, r) = ref_new (et_Deps m) r;
     (x, r) \<leftarrow> ep_touch now (et_Replica m) (et_Instance m) r;
     if et_Ballot m < x_Bal x then Some (r, [])
     else do {
       let x = x\<lparr>x_Bal := et_Ballot m\<rparr>;
       r \<leftarrow> slot_put (et_Replica m) (et_Instance m) x r;
       (x, r, confRep, confInst) \<leftarrow> (if x_Status x = S_NONE
         then do {
           (conflict, cr, ci) \<leftarrow> findPreAcceptConflicts (elems (et_Command m)) (et_Replica m) (et_Instance m)
                                   (et_Seq m) (elems (et_Deps m)) r;
           if conflict then Some (x, r, cr, ci)
           else do {
             r \<leftarrow> ep_see_instance (et_Replica m) (et_Instance m) r;
             let x = x\<lparr>x_Cmds := et_Command m, x_Seq := et_Seq m, x_Deps := d, x_Status := S_PREACCEPTED\<rparr>;
             r \<leftarrow> slot_put (et_Replica m) (et_Instance m) x r;
             Some (x, r, 0, 0)
           }
         }
         else Some (x, r, 0, 0));
       outs \<leftarrow> ep_send (et_LeaderId m) (E_TryPreAcceptReply \<lparr>eu_AcceptorId = e_Id r, eu_Replica = et_Replica m,
                 eu_Instance = et_Instance m, eu_Ballot = x_Bal x, eu_VBallot = x_Vbal x,
                 eu_ConflictReplica = confRep, eu_ConflictInstance = confInst, eu_ConflictStatus = S_NONE\<rparr>) r;
       Some (r, outs)
     }
   }"

text \<open>The map of deferred instances. The conversion of an \<open>int32\<close> to \<open>uint64\<close> extends its sign.\<close>

definition defer_key :: "int \<Rightarrow> int \<Rightarrow> 64 word" where
  "defer_key q i = or (push_bit 32 (word_of_int q)) (word_of_int i)"

definition updateDeferred :: "int \<Rightarrow> int \<Rightarrow> int \<Rightarrow> int \<Rightarrow> ep \<Rightarrow> ep" where
  "updateDeferred dr di q i r = r\<lparr>e_deferMap := (e_deferMap r)(defer_key q i \<mapsto> defer_key dr di)\<rparr>"

definition deferredByInstance :: "int \<Rightarrow> int \<Rightarrow> ep \<Rightarrow> bool \<times> int \<times> int" where
  "deferredByInstance q i r =
     (case e_deferMap r (defer_key q i) of
        None \<Rightarrow> (False, 0, 0)
      | Some d \<Rightarrow> (True, i32 (uint (drop_bit 32 d)), i32 (uint d)))"

text \<open>The loop that counts the replicas out of the quorum looks at the one that answered, every time.\<close>

definition not_in_quorum :: "int \<Rightarrow> ep_lb \<Rightarrow> ep \<Rightarrow> int option" where
  "not_in_quorum a l r =
     (if e_N r \<le> 0 then Some 0
      else do { p \<leftarrow> slice_get (k_PossibleQuorum l) a; Some (if p then 0 else e_N r) })"

definition ep_handleTryPreAcceptReply :: "int \<Rightarrow> ep_TryPreAcceptReply \<Rightarrow> ep \<Rightarrow> ep_result" where
  "ep_handleTryPreAcceptReply now m r = do {
     let q = eu_Replica m;
     let i = eu_Instance m;
     let r = ep_see_ballot (eu_Ballot m) r;
     (x, r) \<leftarrow> ep_touch now q i r;
     (case x_Lb x of
        None \<Rightarrow> Some (r, [])
      | Some l \<Rightarrow>
          if \<not> k_TryingToPreAccept l then Some (r, [])
          else if eu_Ballot m \<noteq> k_LastTriedBallot l then Some (r, [])
          else do {
            let l = l\<lparr>k_TpaReps := k_TpaReps l + 1\<rparr>;
            let agreed = (eu_VBallot m = k_LastTriedBallot l);
            let l = (if agreed then l\<lparr>k_PreAcceptOKs := k_PreAcceptOKs l + 1\<rparr> else l);
            if agreed \<and> e_N r sdiv 2 \<le> k_PreAcceptOKs l
            then do {
              let l = l\<lparr>k_Status := S_ACCEPTED, k_TryingToPreAccept := False, k_AcceptOKs := 0\<rparr>;
              r \<leftarrow> slot_put q i (x\<lparr>x_Cmds := k_Cmds l, x_Seq := k_Seq l, x_Deps := k_Deps l, x_Status := k_Status l,
                     x_Vbal := k_LastTriedBallot l, x_Bal := k_LastTriedBallot l, x_Lb := Some l\<rparr>) r;
              Some (r, ep_bcastAccept q i r)
            }
            else do {
              l \<leftarrow> (if agreed then Some l
                   else do {
                     pq \<leftarrow> slice_set (k_PossibleQuorum l) (eu_AcceptorId m) False;
                     pq \<leftarrow> slice_set pq (eu_ConflictReplica m) False;
                     Some (l\<lparr>k_Nacks := k_Nacks l + 1, k_PossibleQuorum := pq\<rparr>)
                   });
              let l = l\<lparr>k_TpaAccepted := k_TpaAccepted l \<or> S_ACCEPTED \<le> eu_ConflictStatus m\<rparr>;
              if SlowQuorumSize (e_N r) - 1 \<le> k_TpaReps l \<and> k_TpaAccepted l
              then do {
                let l = l\<lparr>k_TryingToPreAccept := False\<rparr>;
                r \<leftarrow> slot_put q i (x\<lparr>x_Lb := Some l\<rparr>) r;
                startPhase1 now (k_Cmds l) q i (k_LastTriedBallot l) (k_ClientProposals l) r
              }
              else do {
                out \<leftarrow> not_in_quorum (eu_AcceptorId m) l r;
                let (present, dq, di) = deferredByInstance q i r;
                again \<leftarrow> (if out = e_N r sdiv 2 \<and> present then slice_get (k_PossibleQuorum l) dq else Some False);
                if again
                then do {
                  r \<leftarrow> slot_put q i (x\<lparr>x_Lb := Some (l\<lparr>k_TryingToPreAccept := False\<rparr>)\<rparr>) r;
                  r \<leftarrow> ep_makeBallot q i r;
                  l \<leftarrow> do { x \<leftarrow> slot_ptr r q i; x_Lb x };
                  startPhase1 now (k_Cmds l) q i (k_LastTriedBallot l) (k_ClientProposals l) r
                }
                else if e_N r sdiv 2 \<le> k_TpaReps l
                then do {
                  let r = updateDeferred q i (eu_ConflictReplica m) (eu_ConflictInstance m) r;
                  r \<leftarrow> slot_put q i (x\<lparr>x_Lb := Some (l\<lparr>k_TryingToPreAccept := False\<rparr>)\<rparr>) r;
                  Some (r, [])
                }
                else do { r \<leftarrow> slot_put q i (x\<lparr>x_Lb := Some l\<rparr>) r; Some (r, []) }
              }
            }
          })
   }"

end
