(* ===== verification/EP_Exec.thy ===== *)
theory EP_Exec
  imports EPaxos
begin

section \<open>The EPaxos executor\<close>

text \<open>
  \<open>src/epaxos/exec.go\<close> and \<open>executeCommands\<close> of \<open>src/epaxos/epaxos.go\<close>: Tarjan's algorithm over the
  instances that are committed and not executed, which executes every strongly connected component of the
  graph of dependencies when it has found it.

  \<^item> A dependency \<open>d\<close> on row \<open>q\<close> stands for all instances of the row up to \<open>d\<close>.
  \<^item> The executor is a goroutine beside the event loop; a call of \<open>executeCommand\<close> is one step here.
  \<^item> \<open>ex\<close> holds what the goroutine keeps: the stack, the next index, the replies to clients. \<open>ex_done\<close> is
    the history of the components executed, which the code does not keep.
  \<^item> The recursion takes fuel. \<open>findSCC\<close> gives it one more than there are instances, and every call puts an
    instance on the stack that was not there.
  \<^item> \<open>sort.Sort\<close> is an insertion sort on up to twelve elements, and not stable beyond; the model inserts.
    It matters for two instances of a row with equal sequence numbers and equal times of creation only.
\<close>

record ex =
  ex_r :: ep
  ex_stack :: "inst_id list"
  ex_index :: int
  ex_outs :: "ep_out list"
  ex_done :: "inst_id list list"

definition on_slot :: "inst_id \<Rightarrow> (ep_inst \<Rightarrow> ep_inst) \<Rightarrow> ep \<Rightarrow> ep option" where
  "on_slot v f r = do { x \<leftarrow> slot_ptr r (fst v) (snd v); slot_put (fst v) (snd v) (f x) r }"

definition ex_slot :: "inst_id \<Rightarrow> (ep_inst \<Rightarrow> ep_inst) \<Rightarrow> ex \<Rightarrow> ex option" where
  "ex_slot v f st = do { r \<leftarrow> on_slot v f (ex_r st); Some (st\<lparr>ex_r := r\<rparr>) }"

definition ex_node :: "inst_id \<Rightarrow> ex \<Rightarrow> ep_inst option" where
  "ex_node v st = slot_ptr (ex_r st) (fst v) (snd v)"

subsection \<open>The order of a component\<close>

definition node_less :: "inst_id \<times> ep_inst \<Rightarrow> inst_id \<times> ep_inst \<Rightarrow> bool" where
  "node_less a b \<longleftrightarrow>
     x_Seq (snd a) < x_Seq (snd b) \<or>
     (x_Seq (snd a) = x_Seq (snd b) \<and> fst (fst a) < fst (fst b)) \<or>
     (x_Seq (snd a) = x_Seq (snd b) \<and> fst (fst a) = fst (fst b) \<and> x_ProposeTime (snd a) < x_ProposeTime (snd b))"

fun node_insert :: "inst_id \<times> ep_inst \<Rightarrow> (inst_id \<times> ep_inst) list \<Rightarrow> (inst_id \<times> ep_inst) list" where
  "node_insert a [] = [a]"
| "node_insert a (b # bs) = (if node_less a b then a # b # bs else b # node_insert a bs)"

definition SortInstances :: "(inst_id \<times> ep_inst) list \<Rightarrow> (inst_id \<times> ep_inst) list" where
  "SortInstances xs = fold node_insert xs []"

fun nodes_of :: "inst_id list \<Rightarrow> ex \<Rightarrow> (inst_id \<times> ep_inst) list option" where
  "nodes_of [] st = Some []"
| "nodes_of (v # vs) st = do { x \<leftarrow> ex_node v st; xs \<leftarrow> nodes_of vs st; Some ((v, x) # xs) }"

subsection \<open>Executing a component\<close>

definition should_respond :: "ep_inst \<Rightarrow> nat \<Rightarrow> ep \<Rightarrow> GPropose option" where
  "should_respond x idx r =
     (if \<not> e_Dreply r then None
      else do { l \<leftarrow> x_Lb x; ps \<leftarrow> k_ClientProposals l; if idx < length ps then Some (ps ! idx) else None })"

definition exec_command :: "ep_inst \<Rightarrow> nat \<Rightarrow> command \<Rightarrow> ex \<Rightarrow> ex option" where
  "exec_command x idx c st =
     (if Op c = NONE then Some st
      else case should_respond x idx (ex_r st) of
        Some p \<Rightarrow> do {
          (v, s) \<leftarrow> Execute c (e_State (ex_r st));
          Some (st\<lparr>ex_r := (ex_r st)\<lparr>e_State := s\<rparr>,
                   ex_outs := ex_outs st @ [EP_Reply p \<lparr>OK = TRUE, CommandId = p_CommandId (Propose p), Value = v,
                     Timestamp = p_Timestamp (Propose p), LeaderId = 0, LogIndex = 0\<rparr>]\<rparr>)
        }
      | None \<Rightarrow>
          if Op c = PUT
          then do { (_, s) \<leftarrow> Execute c (e_State (ex_r st)); Some (st\<lparr>ex_r := (ex_r st)\<lparr>e_State := s\<rparr>\<rparr>) }
          else Some st)"

fun exec_commands :: "ep_inst \<Rightarrow> nat \<Rightarrow> command list \<Rightarrow> ex \<Rightarrow> ex option" where
  "exec_commands x idx [] st = Some st"
| "exec_commands x idx (c # cs) st = do { st \<leftarrow> exec_command x idx c st; exec_commands x (Suc idx) cs st }"

fun exec_batch :: "(inst_id \<times> ep_inst) list \<Rightarrow> ex \<Rightarrow> ex option" where
  "exec_batch [] st = Some st"
| "exec_batch ((w, x) # ws) st = do {
     st \<leftarrow> exec_commands x 0 (elems (x_Cmds x)) st;
     st \<leftarrow> ex_slot w (\<lambda>x. x\<lparr>x_Status := S_EXECUTED\<rparr>) st;
     exec_batch ws st
   }"

subsection \<open>Tarjan's algorithm\<close>

text \<open>With \<open>transconf\<close> the code compares the commands and goes on whatever the outcome; a malformed range
  makes the comparison panic.\<close>

fun transconf_row :: "command \<Rightarrow> command list \<Rightarrow> unit option" where
  "transconf_row a [] = Some ()"
| "transconf_row a (b # bs) = do { _ \<leftarrow> Conflict a b; transconf_row a bs }"

fun transconf_check :: "command list \<Rightarrow> command list \<Rightarrow> unit option" where
  "transconf_check [] bs = Some ()"
| "transconf_check (a # as) bs = do { _ \<leftarrow> transconf_row a bs; transconf_check as bs }"

definition lower_link :: "inst_id \<Rightarrow> int \<Rightarrow> ex \<Rightarrow> ex option" where
  "lower_link v k st = ex_slot v (\<lambda>x. if k < x_Lowlink x then x\<lparr>x_Lowlink := k\<rparr> else x) st"

definition inStack :: "inst_id \<Rightarrow> ex \<Rightarrow> bool" where
  "inStack w st \<longleftrightarrow> w \<in> set (ex_stack st)"

text \<open>The loops of \<open>strongconnect\<close> over a row, and over the rows; \<open>sc\<close> is the recursive call.\<close>

fun sc_row :: "(inst_id \<Rightarrow> ex \<Rightarrow> (bool \<times> ex) option) \<Rightarrow> inst_id \<Rightarrow> int \<Rightarrow> int list \<Rightarrow> ex \<Rightarrow> (bool \<times> ex) option" where
  "sc_row sc v q [] st = Some (True, st)"
| "sc_row sc v q (i # is) st = do {
     slot \<leftarrow> slot_get (ex_r st) q i;
     (case slot of
        None \<Rightarrow> Some (False, st)
      | Some y \<Rightarrow>
          if x_Cmds y = None then Some (False, st)
          else do {
            x \<leftarrow> ex_node v st;
            _ \<leftarrow> (if e_transconf (ex_r st) then transconf_check (elems (x_Cmds x)) (elems (x_Cmds y)) else Some ());
            if x_Status y = S_EXECUTED then sc_row sc v q is st
            else if x_Status y \<noteq> S_COMMITTED then Some (False, st)
            else if x_Index y = 0
            then do {
              (ok, st) \<leftarrow> sc (q, i) st;
              if \<not> ok then Some (False, st)
              else do {
                w \<leftarrow> ex_node (q, i) st;
                st \<leftarrow> lower_link v (x_Lowlink w) st;
                sc_row sc v q is st
              }
            }
            else if inStack (q, i) st
            then do { st \<leftarrow> lower_link v (x_Index y) st; sc_row sc v q is st }
            else sc_row sc v q is st
          })
   }"

fun sc_rows :: "(inst_id \<Rightarrow> ex \<Rightarrow> (bool \<times> ex) option) \<Rightarrow> inst_id \<Rightarrow> int list \<Rightarrow> ex \<Rightarrow> (bool \<times> ex) option" where
  "sc_rows sc v [] st = Some (True, st)"
| "sc_rows sc v (q # qs) st = do {
     x \<leftarrow> ex_node v st;
     inst \<leftarrow> slice_get (ref_vals (ex_r st) (x_Deps x)) q;
     from \<leftarrow> slice_get (e_ExecedUpTo (ex_r st)) q;
     (ok, st) \<leftarrow> sc_row sc v q [from + 1..inst] st;
     if ok then sc_rows sc v qs st else Some (False, st)
   }"

text \<open>The component on top of the stack is executed and cut off.\<close>

definition pop_component :: "nat \<Rightarrow> ex \<Rightarrow> ex option" where
  "pop_component l st = do {
     ws \<leftarrow> nodes_of (drop l (ex_stack st)) st;
     let ws = SortInstances ws;
     st \<leftarrow> exec_batch ws st;
     Some (st\<lparr>ex_stack := take l (ex_stack st), ex_done := ex_done st @ [map fst ws]\<rparr>)
   }"

fun strongconnect :: "nat \<Rightarrow> inst_id \<Rightarrow> ex \<Rightarrow> (bool \<times> ex) option" where
  "strongconnect 0 v st = None"
| "strongconnect (Suc fuel) v st = do {
     st \<leftarrow> ex_slot v (\<lambda>x. x\<lparr>x_Index := ex_index st, x_Lowlink := ex_index st\<rparr>) st;
     let l = length (ex_stack st);
     let st = st\<lparr>ex_index := ex_index st + 1, ex_stack := ex_stack st @ [v]\<rparr>;
     x \<leftarrow> ex_node v st;
     if x_Cmds x = None then Some (False, st)
     else do {
       (ok, st) \<leftarrow> sc_rows (strongconnect fuel) v [0..e_N (ex_r st) - 1] st;
       if \<not> ok then Some (False, st)
       else do {
         x \<leftarrow> ex_node v st;
         if x_Lowlink x = x_Index x
         then do { st \<leftarrow> pop_component l st; Some (True, st) }
         else Some (True, st)
       }
     }
   }"

fun reset_indexes :: "inst_id list \<Rightarrow> ep \<Rightarrow> ep option" where
  "reset_indexes [] r = Some r"
| "reset_indexes (v # vs) r = do { r \<leftarrow> on_slot v (\<lambda>x. x\<lparr>x_Index := 0\<rparr>) r; reset_indexes vs r }"

definition ex_start :: "ep \<Rightarrow> ex" where
  "ex_start r = \<lparr>ex_r = r, ex_stack = [], ex_index = 1, ex_outs = [], ex_done = []\<rparr>"

definition findSCC :: "inst_id \<Rightarrow> ep \<Rightarrow> (bool \<times> ex) option" where
  "findSCC root r = do {
     (ret, st) \<leftarrow> strongconnect (Suc (length (e_InstanceSpace r))) root (ex_start r);
     r \<leftarrow> reset_indexes (ex_stack st) (ex_r st);
     Some (ret, st\<lparr>ex_r := r\<rparr>)
   }"

definition executeCommand :: "int \<Rightarrow> int \<Rightarrow> ep \<Rightarrow> (bool \<times> ep \<times> ep_out list) option" where
  "executeCommand q i r = do {
     slot \<leftarrow> slot_get r q i;
     (case slot of
        None \<Rightarrow> Some (False, r, [])
      | Some x \<Rightarrow>
          if x_Status x = S_EXECUTED then Some (True, r, [])
          else if x_Status x \<noteq> S_COMMITTED then Some (False, r, [])
          else do { (ret, st) \<leftarrow> findSCC (q, i) r; Some (ret, ex_r st, ex_outs st) })
   }"

subsection \<open>A pass of the executor\<close>

text \<open>The time in nanoseconds an instance is waited for, and the time the executor sleeps.\<close>

definition EP_GRACE_PERIOD :: int where
  "EP_GRACE_PERIOD = 10 * 10 ^ 9"

definition EP_SLEEP_TIME :: int where
  "EP_SLEEP_TIME = 10 ^ 6"

definition advance_executed :: "int \<Rightarrow> int \<Rightarrow> ep \<Rightarrow> ep option" where
  "advance_executed q i r = do {
     e \<leftarrow> slice_get (e_ExecedUpTo r) q;
     if i = e + 1 then do { es \<leftarrow> slice_set (e_ExecedUpTo r) q i; Some (r\<lparr>e_ExecedUpTo := es\<rparr>) } else Some r
   }"

definition note_problem :: "int \<Rightarrow> int \<Rightarrow> ep \<Rightarrow> ep option" where
  "note_problem q i r = do {
     p \<leftarrow> slice_get (e_problemInstance r) q;
     t \<leftarrow> slice_get (e_timeout r) q;
     if i = p
     then do {
       let t = t + EP_SLEEP_TIME;
       if EP_GRACE_PERIOD \<le> t
       then do {
         c \<leftarrow> slice_get (e_crtInstance r) q;
         ts \<leftarrow> slice_set (e_timeout r) q 0;
         Some (r\<lparr>e_instancesToRecover := e_instancesToRecover r @ map (Pair q) [p..c], e_timeout := ts\<rparr>)
       }
       else do { ts \<leftarrow> slice_set (e_timeout r) q t; Some (r\<lparr>e_timeout := ts\<rparr>) }
     }
     else do {
       ps \<leftarrow> slice_set (e_problemInstance r) q i;
       ts \<leftarrow> slice_set (e_timeout r) q 0;
       Some (r\<lparr>e_problemInstance := ps, e_timeout := ts\<rparr>)
     }
   }"

fun exec_row :: "int \<Rightarrow> int list \<Rightarrow> ep \<Rightarrow> ep_result" where
  "exec_row q [] r = Some (r, [])"
| "exec_row q (i # is) r = do {
     slot \<leftarrow> slot_get r q i;
     if (case slot of Some x \<Rightarrow> x_Status x = S_EXECUTED | None \<Rightarrow> False)
     then do { r \<leftarrow> advance_executed q i r; exec_row q is r }
     else if (case slot of Some x \<Rightarrow> x_Status x < S_COMMITTED \<or> x_Cmds x = None | None \<Rightarrow> True)
     then do { r \<leftarrow> note_problem q i r; Some (r, []) }
     else do {
       (ok, r, outs) \<leftarrow> executeCommand q i r;
       r \<leftarrow> (if ok then advance_executed q i r else Some r);
       (r, outs') \<leftarrow> exec_row q is r;
       Some (r, outs @ outs')
     }
   }"

fun exec_rows :: "int list \<Rightarrow> ep \<Rightarrow> ep_result" where
  "exec_rows [] r = Some (r, [])"
| "exec_rows (q # qs) r = do {
     e \<leftarrow> slice_get (e_ExecedUpTo r) q;
     c \<leftarrow> slice_get (e_crtInstance r) q;
     (r, outs) \<leftarrow> exec_row q [e + 1..c] r;
     (r, outs') \<leftarrow> exec_rows qs r;
     Some (r, outs @ outs')
   }"

definition ep_executeCommands :: "ep \<Rightarrow> ep_result" where
  "ep_executeCommands r = exec_rows [0..e_N r - 1] r"

end
