(* ===== verification/EP_Tarjan.thy ===== *)
theory EP_Tarjan
  imports EP_Exec "HOL-Library.Multiset"
begin

section \<open>The executor of EPaxos runs components in the order of their dependencies\<close>

text \<open>
  The graph of an executor pass is that of the dependencies its instances had at the start (\<open>dep_rel\<close>).
  \<open>sc_inv\<close> is the invariant of the search, \<open>sc_post\<close> what a call of \<open>strongconnect\<close> leaves, \<open>loop_inv\<close> what
  holds between two dependencies of an instance. The pass executes strongly connected components, each
  after all it depends on.
\<close>

declare split_paired_All [simp del] split_paired_Ex [simp del] update_conv' [simp]

subsection \<open>Instances and the graph\<close>

abbreviation inst_of :: "ep \<Rightarrow> inst_id \<Rightarrow> ep_inst option" where
  "inst_of r v \<equiv> map_of (e_InstanceSpace r) v"

definition idx :: "ep \<Rightarrow> inst_id \<Rightarrow> int" where
  "idx r v = (case inst_of r v of Some x \<Rightarrow> x_Index x | None \<Rightarrow> 0)"

definition low :: "ep \<Rightarrow> inst_id \<Rightarrow> int" where
  "low r v = (case inst_of r v of Some x \<Rightarrow> x_Lowlink x | None \<Rightarrow> 0)"

definition executed :: "ep \<Rightarrow> inst_id set" where
  "executed r = {v. \<exists>x. inst_of r v = Some x \<and> x_Status x = S_EXECUTED}"

definition committed :: "ep \<Rightarrow> inst_id \<Rightarrow> bool" where
  "committed r v \<longleftrightarrow> (\<exists>x. inst_of r v = Some x \<and> x_Status x = S_COMMITTED)"

definition cmds_of :: "ep \<Rightarrow> inst_id \<Rightarrow> command list" where
  "cmds_of r v = (case inst_of r v of Some x \<Rightarrow> elems (x_Cmds x) | None \<Rightarrow> [])"

text \<open>The instances \<open>v\<close> depends on, beyond those the executor has passed.\<close>

definition deps_on :: "ep \<Rightarrow> inst_id \<Rightarrow> inst_id set" where
  "deps_on r v =
     {(q, i) | q i x d e. inst_of r v = Some x \<and> 0 \<le> q \<and> q < e_N r \<and> slice_get (ref_vals r (x_Deps x)) q = Some d \<and>
        slice_get (e_ExecedUpTo r) q = Some e \<and> e < i \<and> i \<le> d}"

definition dep_rel :: "ep \<Rightarrow> inst_id rel" where
  "dep_rel r = {(v, w). w \<in> deps_on r v}"

subsection \<open>What the executor changes\<close>

definition same_inst :: "ep_inst \<Rightarrow> ep_inst \<Rightarrow> bool" where
  "same_inst x y \<longleftrightarrow>
     x_Cmds y = x_Cmds x \<and> x_Bal y = x_Bal x \<and> x_Vbal y = x_Vbal x \<and> x_Seq y = x_Seq x \<and> x_Deps y = x_Deps x \<and>
     x_Lb y = x_Lb x \<and> x_ProposeTime y = x_ProposeTime x \<and>
     (x_Status y = x_Status x \<or> x_Status x = S_COMMITTED \<and> x_Status y = S_EXECUTED)"

definition exec_frame :: "ep \<Rightarrow> ep \<Rightarrow> bool" where
  "exec_frame r r' \<longleftrightarrow> (\<exists>sp s. r' = r\<lparr>e_InstanceSpace := sp, e_State := s\<rparr>) \<and>
     (\<forall>v. rel_option same_inst (inst_of r v) (inst_of r' v))"

lemma same_inst_refl [simp]: "same_inst x x"
  by (simp add: same_inst_def)

lemma same_inst_trans: "same_inst x y \<Longrightarrow> same_inst y z \<Longrightarrow> same_inst x z"
  by (auto simp: same_inst_def)

lemmas same_inst_fields = same_inst_def [THEN iffD1, THEN conjunct1]
  same_inst_def [THEN iffD1, THEN conjunct2, THEN conjunct2, THEN conjunct2, THEN conjunct1]
  same_inst_def [THEN iffD1, THEN conjunct2, THEN conjunct2, THEN conjunct2, THEN conjunct2, THEN conjunct1]

lemma exec_frame_refl [simp]: "exec_frame r r"
  unfolding exec_frame_def
  by (rule conjI, rule exI [of _ "e_InstanceSpace r"], rule exI [of _ "e_State r"], simp)
    (simp add: option.rel_refl)

lemma exec_frame_trans:
  assumes "exec_frame r r'" and "exec_frame r' r''"
  shows "exec_frame r r''"
proof -
  have "rel_option same_inst (inst_of r v) (inst_of r'' v)" for v
    using assms by (auto simp: exec_frame_def option_rel_Some1 option_rel_Some2 elim!: option.rel_cases
        dest!: spec [of _ v] intro: same_inst_trans)
  moreover from assms obtain sp s where "r'' = r\<lparr>e_InstanceSpace := sp, e_State := s\<rparr>"
    unfolding exec_frame_def by force
  ultimately show ?thesis unfolding exec_frame_def by blast
qed

lemma exec_frame_env:
  assumes "exec_frame r r'"
  shows "e_N r' = e_N r" and "e_Heap r' = e_Heap r" and "e_ExecedUpTo r' = e_ExecedUpTo r" and "e_Id r' = e_Id r"
    and "e_transconf r' = e_transconf r" and "e_Dreply r' = e_Dreply r" and "e_crtInstance r' = e_crtInstance r"
    and "ref_vals r' d = ref_vals r d"
  using assms by (cases d; auto simp: exec_frame_def ref_vals_def)+

lemma exec_frame_inst:
  assumes "exec_frame r r'"
  shows "inst_of r v = Some x \<Longrightarrow> \<exists>y. inst_of r' v = Some y \<and> same_inst x y"
    and "inst_of r' v = Some y \<Longrightarrow> \<exists>x. inst_of r v = Some x \<and> same_inst x y"
    and "inst_of r v = None \<longleftrightarrow> inst_of r' v = None"
  using assms by (auto simp: exec_frame_def option_rel_Some1 option_rel_Some2 dest!: spec [of _ v])

lemma exec_frame_cases:
  assumes "exec_frame r r'"
  obtains "inst_of r v = None" and "inst_of r' v = None"
  | x y where "inst_of r v = Some x" and "inst_of r' v = Some y" and "same_inst x y"
  using assms by (cases "inst_of r v") (auto dest: exec_frame_inst simp: exec_frame_inst(3))

lemma exec_frame_deps:
  assumes "exec_frame r r'"
  shows "deps_on r' v = deps_on r v"
  using assms
  by (cases rule: exec_frame_cases [where v = v]) (simp_all add: deps_on_def same_inst_def exec_frame_env [OF assms])

lemma exec_frame_cmds:
  assumes "exec_frame r r'"
  shows "cmds_of r' v = cmds_of r v"
  using assms by (cases rule: exec_frame_cases [where v = v]) (simp_all add: cmds_of_def same_inst_def)

lemma exec_frame_executed: "exec_frame r r' \<Longrightarrow> executed r \<subseteq> executed r'"
  unfolding executed_def by (auto simp: same_inst_def dest!: exec_frame_inst(1))

subsection \<open>Writing a slot\<close>

lemma env_updates [simp]:
  "ref_vals (r\<lparr>e_State := s\<rparr>) = ref_vals r" "ref_vals (r\<lparr>e_InstanceSpace := sp\<rparr>) = ref_vals r"
  "ref_vals (r\<lparr>e_ExecedUpTo := es\<rparr>) = ref_vals r"
  "in_space (r\<lparr>e_State := s\<rparr>) = in_space r" "in_space (r\<lparr>e_InstanceSpace := sp\<rparr>) = in_space r"
  by (auto simp: fun_eq_iff ref_vals_def in_space_def split: option.splits)

lemma on_slot_Some:
  "on_slot v f r = Some r' \<longleftrightarrow>
     in_space r (fst v) (snd v) \<and>
     (\<exists>x. inst_of r v = Some x \<and> r' = r\<lparr>e_InstanceSpace := AList.update v (f x) (e_InstanceSpace r)\<rparr>)"
  by (cases v) (auto simp: on_slot_def slot_ptr_def slot_get_def slot_put_def Option.bind_eq_Some_conv split: if_splits)

lemma on_slot_inst:
  assumes "on_slot v f r = Some r'"
  shows "inst_of r' w = (if w = v then map_option f (inst_of r v) else inst_of r w)"
  using assms by (auto simp: on_slot_Some)

lemma on_slot_frame:
  assumes "on_slot v f r = Some r'" and "\<And>x. inst_of r v = Some x \<Longrightarrow> same_inst x (f x)"
  shows "exec_frame r r'"
proof -
  from assms(1) obtain x where x: "inst_of r v = Some x"
    and r': "r' = r\<lparr>e_InstanceSpace := AList.update v (f x) (e_InstanceSpace r)\<rparr>"
    by (auto simp: on_slot_Some)
  have "rel_option same_inst (inst_of r w) (inst_of r' w)" for w
    using x assms(2) [OF x] by (cases "inst_of r w") (auto simp: r' update_conv')
  moreover have "r' = r\<lparr>e_InstanceSpace := AList.update v (f x) (e_InstanceSpace r), e_State := e_State r\<rparr>"
    by (simp add: r')
  ultimately show ?thesis unfolding exec_frame_def by blast
qed

lemma slot_get_Some: "slot_get r q i = Some s \<longleftrightarrow> in_space r q i \<and> s = inst_of r (q, i)"
  by (auto simp: slot_get_def)

lemma ex_node_Some: "ex_node v st = Some x \<longleftrightarrow> in_space (ex_r st) (fst v) (snd v) \<and> inst_of (ex_r st) v = Some x"
  by (cases v) (auto simp: ex_node_def slot_ptr_def slot_get_def)

lemma ex_slot_Some:
  "ex_slot v f st = Some st' \<longleftrightarrow> (\<exists>r. on_slot v f (ex_r st) = Some r \<and> st' = st\<lparr>ex_r := r\<rparr>)"
  by (auto simp: ex_slot_def Option.bind_eq_Some_conv)

subsection \<open>The order of a component\<close>

lemma node_less_asym: "node_less a b \<Longrightarrow> \<not> node_less b a"
  by (auto simp: node_less_def)

lemma node_less_trans: "node_less a b \<Longrightarrow> node_less b c \<Longrightarrow> node_less a c"
  by (auto simp: node_less_def)

lemma mset_node_insert [simp]: "mset (node_insert a xs) = add_mset a (mset xs)"
  by (induction xs) auto

lemma sorted_node_insert:
  "sorted_wrt (\<lambda>a b. \<not> node_less b a) xs \<Longrightarrow> sorted_wrt (\<lambda>a b. \<not> node_less b a) (node_insert a xs)"
proof (induction xs)
  case (Cons b bs)
  have "set (node_insert a bs) = insert a (set bs)"
    by (metis mset_node_insert set_mset_add_mset_insert set_mset_mset)
  with Cons show ?case
    by (auto dest: node_less_asym node_less_trans)
qed simp

lemma SortInstances_sorted:
  "mset (SortInstances xs) = mset xs" "sorted_wrt (\<lambda>a b. \<not> node_less b a) (SortInstances xs)"
proof -
  have "mset (fold node_insert xs ys) = mset xs + mset ys" for ys
    by (induction xs arbitrary: ys) auto
  then show "mset (SortInstances xs) = mset xs" by (simp add: SortInstances_def)
  have "sorted_wrt (\<lambda>a b. \<not> node_less b a) ys \<Longrightarrow> sorted_wrt (\<lambda>a b. \<not> node_less b a) (fold node_insert xs ys)" for ys
    by (induction xs arbitrary: ys) (simp_all add: sorted_node_insert)
  then show "sorted_wrt (\<lambda>a b. \<not> node_less b a) (SortInstances xs)" by (simp add: SortInstances_def)
qed

lemma nodes_of_Some:
  "nodes_of vs st = Some xs \<Longrightarrow> map fst xs = vs \<and> (\<forall>(v, x)\<in>set xs. inst_of (ex_r st) v = Some x)"
  by (induction vs arbitrary: xs) (auto simp: Option.bind_eq_Some_conv ex_node_Some)

subsection \<open>Executing a component\<close>

definition ep_put :: "command \<Rightarrow> kv_state \<Rightarrow> kv_state" where
  "ep_put c s = (if Op c = PUT then s\<lparr>Store := (Store s)(K c \<mapsto> V c)\<rparr> else s)"

lemma Execute_ep_put: "Execute c s = Some (v, s') \<Longrightarrow> s' = ep_put c s"
  by (auto simp: Execute_def ep_put_def Option.bind_eq_Some_conv split: if_splits)

lemma exec_command_put:
  "exec_command x k c st = Some st' \<Longrightarrow>
     \<exists>outs. st' = st\<lparr>ex_r := (ex_r st)\<lparr>e_State := ep_put c (e_State (ex_r st))\<rparr>, ex_outs := outs\<rparr>"
  unfolding exec_command_def
  by (auto simp: Option.bind_eq_Some_conv ep_put_def split: if_splits option.splits dest!: Execute_ep_put)
    (auto intro: exI [of _ "ex_outs st"])

lemma exec_commands_put:
  "exec_commands x k cs st = Some st' \<Longrightarrow>
     \<exists>outs. st' = st\<lparr>ex_r := (ex_r st)\<lparr>e_State := fold ep_put cs (e_State (ex_r st))\<rparr>, ex_outs := outs\<rparr>"
proof (induction cs arbitrary: k st)
  case Nil
  then show ?case by (auto intro: exI [of _ "ex_outs st"])
next
  case (Cons c cs)
  then obtain st1 where 1: "exec_command x k c st = Some st1" and 2: "exec_commands x (Suc k) cs st1 = Some st'"
    by (auto simp: Option.bind_eq_Some_conv)
  from exec_command_put [OF 1] Cons.IH [OF 2] show ?case by auto
qed

lemma exec_batch_effect:
  "exec_batch ws st = Some st' \<Longrightarrow>
     \<exists>sp outs. st' = st\<lparr>ex_r := (ex_r st)\<lparr>e_InstanceSpace := sp,
         e_State := fold ep_put (concat (map (\<lambda>w. elems (x_Cmds (snd w))) ws)) (e_State (ex_r st))\<rparr>, ex_outs := outs\<rparr> \<and>
       (\<forall>v. map_of sp v = (if v \<in> fst ` set ws then map_option (\<lambda>x. x\<lparr>x_Status := S_EXECUTED\<rparr>) (inst_of (ex_r st) v)
                           else inst_of (ex_r st) v))"
proof (induction ws arbitrary: st)
  case Nil
  then show ?case by (auto intro!: exI [of _ "e_InstanceSpace (ex_r st)"] exI [of _ "ex_outs st"])
next
  case (Cons w ws)
  obtain v x where w: "w = (v, x)" by (cases w)
  with Cons.prems obtain st1 st2 where 1: "exec_commands x 0 (elems (x_Cmds x)) st = Some st1"
    and 2: "ex_slot v (\<lambda>x. x\<lparr>x_Status := S_EXECUTED\<rparr>) st1 = Some st2" and 3: "exec_batch ws st2 = Some st'"
    by (auto simp: Option.bind_eq_Some_conv)
  from exec_commands_put [OF 1] obtain outs where
    st1: "st1 = st\<lparr>ex_r := (ex_r st)\<lparr>e_State := fold ep_put (elems (x_Cmds x)) (e_State (ex_r st))\<rparr>, ex_outs := outs\<rparr>"
    by blast
  from 2 obtain y where y: "inst_of (ex_r st1) v = Some y"
    and "st2 = st1\<lparr>ex_r := (ex_r st1)\<lparr>e_InstanceSpace := AList.update v (y\<lparr>x_Status := S_EXECUTED\<rparr>) (e_InstanceSpace (ex_r st1))\<rparr>\<rparr>"
    by (auto simp: ex_slot_Some on_slot_Some)
  then have y: "inst_of (ex_r st) v = Some y" and st2: "st2 = st\<lparr>ex_r := (ex_r st)\<lparr>e_State := fold ep_put (elems (x_Cmds x)) (e_State (ex_r st)),
       e_InstanceSpace := AList.update v (y\<lparr>x_Status := S_EXECUTED\<rparr>) (e_InstanceSpace (ex_r st))\<rparr>, ex_outs := outs\<rparr>"
    by (simp_all add: st1)
  from Cons.IH [OF 3] obtain sp outs' where st': "st' = st2\<lparr>ex_r := (ex_r st2)\<lparr>e_InstanceSpace := sp,
         e_State := fold ep_put (concat (map (\<lambda>w. elems (x_Cmds (snd w))) ws)) (e_State (ex_r st2))\<rparr>, ex_outs := outs'\<rparr>"
    and sp: "\<forall>v. map_of sp v = (if v \<in> fst ` set ws then map_option (\<lambda>x. x\<lparr>x_Status := S_EXECUTED\<rparr>) (inst_of (ex_r st2) v)
                           else inst_of (ex_r st2) v)"
    by blast
  show ?case
    by (rule exI [of _ sp], rule exI [of _ outs'], rule conjI) (use sp y in \<open>auto simp: st' st2 w\<close>)
qed

subsection \<open>The invariant of the search\<close>

text \<open>A component may be executed when everything it depends on is executed or in the component.\<close>

definition scc_batch_ok :: "ep \<Rightarrow> inst_id set \<Rightarrow> inst_id list \<Rightarrow> bool" where
  "scc_batch_ok r E B \<longleftrightarrow>
     distinct B \<and> set B \<inter> E = {} \<and>
     (\<forall>v\<in>set B. committed r v \<and> deps_on r v \<subseteq> E \<union> set B) \<and>
     (\<forall>a\<in>set B. \<forall>b\<in>set B. (a, b) \<in> (dep_rel r)\<^sup>*) \<and>
     sorted_wrt (\<lambda>a b. \<not> node_less (b, the (inst_of r b)) (a, the (inst_of r a))) B"

fun scc_batches_ok :: "ep \<Rightarrow> inst_id set \<Rightarrow> inst_id list list \<Rightarrow> bool" where
  "scc_batches_ok r E [] \<longleftrightarrow> True"
| "scc_batches_ok r E (B # Bs) \<longleftrightarrow> scc_batch_ok r E B \<and> scc_batches_ok r (E \<union> set B) Bs"

definition deps_closed :: "ep \<Rightarrow> inst_id set \<Rightarrow> bool" where
  "deps_closed r E \<longleftrightarrow> (\<forall>v\<in>E. deps_on r v \<subseteq> E)"

lemma scc_batches_ok_snoc:
  "scc_batches_ok r E (Bs @ [B]) \<longleftrightarrow> scc_batches_ok r E Bs \<and> scc_batch_ok r (E \<union> set (concat Bs)) B"
  by (induction Bs arbitrary: E) (auto simp: Un_assoc)

lemma scc_batches_ok_closed: "scc_batches_ok r E Bs \<Longrightarrow> deps_closed r E \<Longrightarrow> deps_closed r (E \<union> set (concat Bs))"
proof (induction Bs arbitrary: E)
  case (Cons B Bs)
  then have "deps_closed r (E \<union> set B)"
    by (auto simp: deps_closed_def scc_batch_ok_def)
  with Cons.IH [of "E \<union> set B"] Cons.prems show ?case by (simp add: Un_assoc)
qed simp

definition sc_inv :: "ep \<Rightarrow> ex \<Rightarrow> bool" where
  "sc_inv r0 st \<longleftrightarrow>
     exec_frame r0 (ex_r st) \<and> distinct (ex_stack st) \<and>
     sorted_wrt (\<lambda>a b. idx (ex_r st) a < idx (ex_r st) b) (ex_stack st) \<and>
     (\<forall>v\<in>set (ex_stack st). committed (ex_r st) v \<and> 0 < idx (ex_r st) v \<and> idx (ex_r st) v < ex_index st) \<and>
     (\<forall>v. idx (ex_r st) v \<noteq> 0 \<longrightarrow> v \<in> set (ex_stack st) \<or> v \<in> executed (ex_r st)) \<and> 0 < ex_index st \<and>
     deps_closed r0 (executed r0) \<and> executed (ex_r st) = executed r0 \<union> set (concat (ex_done st)) \<and>
     scc_batches_ok r0 (executed r0) (ex_done st) \<and>
     e_State (ex_r st) = fold ep_put (concat (map (cmds_of r0) (concat (ex_done st)))) (e_State r0)"

lemma sc_inv_closed:
  "sc_inv r0 st \<Longrightarrow> v \<in> executed (ex_r st) \<Longrightarrow> deps_on r0 v \<subseteq> executed (ex_r st)"
  using scc_batches_ok_closed [of r0 "executed r0" "ex_done st"] by (auto simp: sc_inv_def deps_closed_def)

text \<open>What the instances above the call's own tell about the stack below.\<close>

definition linked :: "ep \<Rightarrow> inst_id list \<Rightarrow> inst_id list \<Rightarrow> inst_id list \<Rightarrow> inst_id \<Rightarrow> ex \<Rightarrow> bool" where
  "linked r0 S S' T v st \<longleftrightarrow>
     (\<forall>u\<in>set T. deps_on r0 u \<subseteq> executed (ex_r st) \<union> set (ex_stack st) \<and>
        (\<forall>w\<in>deps_on r0 u \<inter> set S. low (ex_r st) v \<le> idx (ex_r st) w) \<and>
        (v, u) \<in> (dep_rel r0)\<^sup>* \<and> (\<exists>w\<in>set S'. (u, w) \<in> (dep_rel r0)\<^sup>*))"

definition low_seen :: "ep \<Rightarrow> inst_id list \<Rightarrow> inst_id \<Rightarrow> ex \<Rightarrow> bool" where
  "low_seen r0 S v st \<longleftrightarrow> (\<exists>w\<in>set S. idx (ex_r st) w = low (ex_r st) v \<and> (v, w) \<in> (dep_rel r0)\<^sup>*)"

definition keeps_below :: "inst_id list \<Rightarrow> ex \<Rightarrow> ex \<Rightarrow> bool" where
  "keeps_below S st st' \<longleftrightarrow> exec_frame (ex_r st) (ex_r st') \<and>
     (\<forall>u\<in>set S. idx (ex_r st') u = idx (ex_r st) u \<and> low (ex_r st') u = low (ex_r st) u)"

definition sc_post :: "ep \<Rightarrow> inst_id \<Rightarrow> ex \<Rightarrow> ex \<Rightarrow> bool" where
  "sc_post r0 v st st' \<longleftrightarrow>
     sc_inv r0 st' \<and> idx (ex_r st') v = ex_index st \<and> keeps_below (ex_stack st) st st' \<and>
     (\<exists>T. ex_stack st' = ex_stack st @ T \<and>
        (if T = [] then v \<in> executed (ex_r st') \<and> low (ex_r st') v = idx (ex_r st') v
         else v \<in> set T \<and> low (ex_r st') v < idx (ex_r st') v \<and> low_seen r0 (ex_stack st) v st' \<and>
           linked r0 (ex_stack st) (ex_stack st) T v st'))"

definition sc_spec :: "ep \<Rightarrow> (inst_id \<Rightarrow> ex \<Rightarrow> (bool \<times> ex) option) \<Rightarrow> bool" where
  "sc_spec r0 sc \<longleftrightarrow>
     (\<forall>v st ok st'. sc v st = Some (ok, st') \<longrightarrow> sc_inv r0 st \<longrightarrow> committed (ex_r st) v \<longrightarrow> idx (ex_r st) v = 0 \<longrightarrow>
        sc_inv r0 st' \<and> (ok \<longrightarrow> sc_post r0 v st st'))"

definition loop_inv :: "ep \<Rightarrow> inst_id list \<Rightarrow> inst_id \<Rightarrow> inst_id set \<Rightarrow> ex \<Rightarrow> ex \<Rightarrow> bool" where
  "loop_inv r0 S v D st0 st \<longleftrightarrow>
     sc_inv r0 st \<and> keeps_below S st0 st \<and> idx (ex_r st) v = idx (ex_r st0) v \<and> low (ex_r st) v \<le> idx (ex_r st) v \<and>
     D \<subseteq> executed (ex_r st) \<union> set (ex_stack st) \<and> (\<forall>w\<in>D \<inter> set S. low (ex_r st) v \<le> idx (ex_r st) w) \<and>
     (low (ex_r st) v < idx (ex_r st) v \<longrightarrow> low_seen r0 S v st) \<and>
     (\<exists>T. ex_stack st = S @ v # T \<and> linked r0 S (S @ [v]) T v st)"

lemma lower_link_effect:
  assumes "lower_link v k st = Some st'"
  shows "\<exists>r'. st' = st\<lparr>ex_r := r'\<rparr> \<and> exec_frame (ex_r st) r' \<and> idx r' = idx (ex_r st) \<and>
    executed r' = executed (ex_r st) \<and> committed r' = committed (ex_r st) \<and> e_State r' = e_State (ex_r st) \<and>
    low r' = (low (ex_r st))(v := min (low (ex_r st) v) k)"
proof -
  from assms obtain r' where r': "on_slot v (\<lambda>x. if k < x_Lowlink x then x\<lparr>x_Lowlink := k\<rparr> else x) (ex_r st) = Some r'"
    and st': "st' = st\<lparr>ex_r := r'\<rparr>"
    by (auto simp: lower_link_def ex_slot_Some)
  note inst = on_slot_inst [OF r']
  obtain x where x: "inst_of (ex_r st) v = Some x" using r' by (auto simp: on_slot_Some)
  have "exec_frame (ex_r st) r'"
    by (rule on_slot_frame [OF r']) (simp add: same_inst_def)
  moreover have "idx r' = idx (ex_r st)" "committed r' = committed (ex_r st)"
    "low r' = (low (ex_r st))(v := min (low (ex_r st) v) k)"
    using x by (auto simp: fun_eq_iff idx_def committed_def low_def inst split: option.splits)
  moreover have "executed r' = executed (ex_r st)"
    using x by (auto simp: executed_def inst split: if_splits)
  moreover have "e_State r' = e_State (ex_r st)" using r' by (auto simp: on_slot_Some)
  ultimately show ?thesis using st' by blast
qed

lemma sc_inv_lower:
  "sc_inv r0 st \<Longrightarrow> lower_link v k st = Some st' \<Longrightarrow> sc_inv r0 st'"
  by (frule lower_link_effect) (auto simp: sc_inv_def intro: exec_frame_trans)

lemma keeps_below_trans:
  "keeps_below S st st1 \<Longrightarrow> keeps_below S' st1 st2 \<Longrightarrow> set S \<subseteq> set S' \<Longrightarrow> keeps_below S st st2"
  by (auto simp: keeps_below_def intro: exec_frame_trans)

lemma linked_mono:
  assumes "linked r0 S S' T v st" and "executed (ex_r st) \<union> set (ex_stack st) \<subseteq> executed (ex_r st') \<union> set (ex_stack st')"
    and "\<And>w. w \<in> set S \<Longrightarrow> idx (ex_r st') w = idx (ex_r st) w" and "low (ex_r st') v \<le> low (ex_r st) v"
  shows "linked r0 S S' T v st'"
  unfolding linked_def
proof
  fix u assume "u \<in> set T"
  with assms(1) have u: "deps_on r0 u \<subseteq> executed (ex_r st) \<union> set (ex_stack st)"
    "\<forall>w\<in>deps_on r0 u \<inter> set S. low (ex_r st) v \<le> idx (ex_r st) w"
    "(v, u) \<in> (dep_rel r0)\<^sup>*" "\<exists>w\<in>set S'. (u, w) \<in> (dep_rel r0)\<^sup>*"
    unfolding linked_def by blast+
  from u(1) assms(2) have "deps_on r0 u \<subseteq> executed (ex_r st') \<union> set (ex_stack st')" by blast
  moreover from u(2) assms(3,4) have "\<forall>w\<in>deps_on r0 u \<inter> set S. low (ex_r st') v \<le> idx (ex_r st') w"
    by (metis IntE order_trans)
  ultimately show "deps_on r0 u \<subseteq> executed (ex_r st') \<union> set (ex_stack st') \<and>
        (\<forall>w\<in>deps_on r0 u \<inter> set S. low (ex_r st') v \<le> idx (ex_r st') w) \<and>
        (v, u) \<in> (dep_rel r0)\<^sup>* \<and> (\<exists>w\<in>set S'. (u, w) \<in> (dep_rel r0)\<^sup>*)"
    using u(3,4) by blast
qed

text \<open>The instances of a finished call join those above the caller.\<close>

lemma linked_child:
  assumes child: "linked r0 S' S' Tw w st1" and S': "S' = S @ v # T" and old: "linked r0 S (S @ [v]) T v st1"
    and edge: "(v, w) \<in> dep_rel r0" and low: "low (ex_r st1) v \<le> low (ex_r st1) w"
  shows "linked r0 S (S @ [v]) (T @ Tw) v st1"
  unfolding linked_def
proof
  fix u assume "u \<in> set (T @ Tw)"
  then consider "u \<in> set T" | "u \<in> set Tw" by auto
  then show "deps_on r0 u \<subseteq> executed (ex_r st1) \<union> set (ex_stack st1) \<and>
        (\<forall>w\<in>deps_on r0 u \<inter> set S. low (ex_r st1) v \<le> idx (ex_r st1) w) \<and>
        (v, u) \<in> (dep_rel r0)\<^sup>* \<and> (\<exists>w\<in>set (S @ [v]). (u, w) \<in> (dep_rel r0)\<^sup>*)"
  proof cases
    case 1
    with old show ?thesis unfolding linked_def by blast
  next
    case 2
    with child have u: "deps_on r0 u \<subseteq> executed (ex_r st1) \<union> set (ex_stack st1)"
      "\<forall>x\<in>deps_on r0 u \<inter> set S'. low (ex_r st1) w \<le> idx (ex_r st1) x"
      "(w, u) \<in> (dep_rel r0)\<^sup>*" "\<exists>x\<in>set S'. (u, x) \<in> (dep_rel r0)\<^sup>*"
      unfolding linked_def by blast+
    from u(2) low have "\<forall>x\<in>deps_on r0 u \<inter> set S. low (ex_r st1) v \<le> idx (ex_r st1) x"
      by (force simp: S')
    moreover from edge u(3) have "(v, u) \<in> (dep_rel r0)\<^sup>*" by (rule converse_rtrancl_into_rtrancl)
    moreover from u(4) obtain x where x: "x \<in> set S'" "(u, x) \<in> (dep_rel r0)\<^sup>*" by blast
    have "\<exists>x\<in>set (S @ [v]). (u, x) \<in> (dep_rel r0)\<^sup>*"
    proof (cases "x \<in> set T")
      case True
      with old obtain y where "y \<in> set (S @ [v])" "(x, y) \<in> (dep_rel r0)\<^sup>*" unfolding linked_def by blast
      with x(2) show ?thesis by (meson rtrancl_trans)
    next
      case False
      with x show ?thesis by (auto simp: S')
    qed
    ultimately show ?thesis using u(1) by blast
  qed
qed

lemma stack_below:
  assumes "sc_inv r0 st" and "ex_stack st = S @ v # T" and "w \<in> set (ex_stack st)"
    and "idx (ex_r st) w < idx (ex_r st) v"
  shows "w \<in> set S"
  using assms by (auto simp: sc_inv_def sorted_wrt_append)

lemma loop_child:
  assumes inv: "loop_inv r0 S v D st0 st" and edge: "(v, w) \<in> dep_rel r0" and w0: "idx (ex_r st) w = 0"
    and post: "sc_post r0 w st st1" and low: "lower_link v (low (ex_r st1) w) st1 = Some st2"
  shows "loop_inv r0 S v (insert w D) st0 st2"
proof -
  from inv obtain T where T: "ex_stack st = S @ v # T" and linkT: "linked r0 S (S @ [v]) T v st"
    and sc: "sc_inv r0 st" and keep0: "keeps_below S st0 st" and idxv: "idx (ex_r st) v = idx (ex_r st0) v"
    and lowv: "low (ex_r st) v \<le> idx (ex_r st) v" and D: "D \<subseteq> executed (ex_r st) \<union> set (ex_stack st)"
    and Dlow: "\<forall>w\<in>D \<inter> set S. low (ex_r st) v \<le> idx (ex_r st) w"
    and seen: "low (ex_r st) v < idx (ex_r st) v \<longrightarrow> low_seen r0 S v st"
    unfolding loop_inv_def by blast
  from post obtain Tw where Tw: "ex_stack st1 = ex_stack st @ Tw" and sc1: "sc_inv r0 st1"
    and idxw: "idx (ex_r st1) w = ex_index st" and keep1: "keeps_below (ex_stack st) st st1"
    and res: "if Tw = [] then w \<in> executed (ex_r st1) \<and> low (ex_r st1) w = idx (ex_r st1) w
         else w \<in> set Tw \<and> low (ex_r st1) w < idx (ex_r st1) w \<and> low_seen r0 (ex_stack st) w st1 \<and>
           linked r0 (ex_stack st) (ex_stack st) Tw w st1"
    unfolding sc_post_def by blast
  from lower_link_effect [OF low] obtain r' where st2: "st2 = st1\<lparr>ex_r := r'\<rparr>" and fr: "exec_frame (ex_r st1) r'"
    and same: "idx r' = idx (ex_r st1)" "executed r' = executed (ex_r st1)"
    and low2: "low r' = (low (ex_r st1))(v := min (low (ex_r st1) v) (low (ex_r st1) w))"
    by blast
  have vS: "v \<notin> set S" and v_on: "v \<in> set (ex_stack st)" and dist: "distinct (ex_stack st)"
    using sc by (auto simp: sc_inv_def T)
  have w_off: "w \<notin> set (ex_stack st)" using sc w0 by (auto simp: sc_inv_def)
  then have wv: "w \<noteq> v" using v_on by auto
  have mono: "executed (ex_r st) \<subseteq> executed (ex_r st1)"
    using keep1 unfolding keeps_below_def by (blast dest: exec_frame_executed)
  have same1: "idx (ex_r st1) u = idx (ex_r st) u" "low (ex_r st1) u = low (ex_r st) u" if "u \<in> set (ex_stack st)" for u
    using keep1 that by (auto simp: keeps_below_def)
  have S_on: "set S \<subseteq> set (ex_stack st)" by (auto simp: T)
  have idx2: "idx (ex_r st2) u = idx (ex_r st) u" if "u \<in> set (ex_stack st)" for u
    using same1 that by (simp add: st2 same)
  have lowv2: "low (ex_r st2) v = min (low (ex_r st) v) (low (ex_r st1) w)"
    using same1 [OF v_on] by (simp add: st2 low2)
  have mono2: "executed (ex_r st) \<union> set (ex_stack st) \<subseteq> executed (ex_r st2) \<union> set (ex_stack st2)"
    using mono by (auto simp: st2 same Tw)
  have sc2: "sc_inv r0 st2" by (rule sc_inv_lower [OF sc1 low])
  have keep2: "keeps_below S st0 st2"
  proof (rule keeps_below_trans [OF keep0 _ order_refl])
    have "low (ex_r st2) u = low (ex_r st) u" if "u \<in> set S" for u
      using that vS same1(2) [of u] S_on by (auto simp: st2 low2)
    moreover have "exec_frame (ex_r st) (ex_r st2)"
      using keep1 fr by (auto simp: keeps_below_def st2 intro: exec_frame_trans)
    ultimately show "keeps_below S st st2"
      using idx2 S_on by (auto simp: keeps_below_def)
  qed
  have w_in: "w \<in> executed (ex_r st2) \<union> set (ex_stack st2)"
    using res by (auto simp: st2 same Tw split: if_splits)
  have D2: "insert w D \<subseteq> executed (ex_r st2) \<union> set (ex_stack st2)"
    using D mono2 w_in by blast
  have Dlow2: "\<forall>x\<in>insert w D \<inter> set S. low (ex_r st2) v \<le> idx (ex_r st2) x"
  proof
    fix x assume x: "x \<in> insert w D \<inter> set S"
    then have "x \<in> D \<inter> set S" "x \<in> set (ex_stack st)" using w_off S_on by blast+
    with Dlow have "low (ex_r st) v \<le> idx (ex_r st) x" "idx (ex_r st2) x = idx (ex_r st) x"
      by (blast, simp add: idx2)
    then show "low (ex_r st2) v \<le> idx (ex_r st2) x" by (simp add: lowv2 min.coboundedI1)
  qed
  have seen2: "low_seen r0 S v st2" if less: "low (ex_r st2) v < idx (ex_r st2) v"
  proof (cases "low (ex_r st1) w < low (ex_r st) v")
    case True
    have "idx (ex_r st) v < idx (ex_r st1) w"
      using sc v_on by (auto simp: sc_inv_def idxw)
    with True lowv res have "low_seen r0 (ex_stack st) w st1" by (auto split: if_splits)
    then obtain x where x: "x \<in> set (ex_stack st)" "idx (ex_r st1) x = low (ex_r st1) w" "(w, x) \<in> (dep_rel r0)\<^sup>*"
      unfolding low_seen_def by blast
    with True lowv same1 have "idx (ex_r st) x < idx (ex_r st) v" by simp
    with stack_below [OF sc T x(1)] have "x \<in> set S" by simp
    moreover have "(v, x) \<in> (dep_rel r0)\<^sup>*" using edge x(3) by (rule converse_rtrancl_into_rtrancl)
    moreover have "idx (ex_r st2) x = low (ex_r st2) v" using x(2) True by (simp add: lowv2 idx2 [OF x(1)] same1(1) [OF x(1)] min_def)
    ultimately show ?thesis unfolding low_seen_def by blast
  next
    case False
    then have eq: "low (ex_r st2) v = low (ex_r st) v" by (simp add: lowv2)
    with less idx2 [OF v_on] seen obtain x where "x \<in> set S" "idx (ex_r st) x = low (ex_r st) v" "(v, x) \<in> (dep_rel r0)\<^sup>*"
      by (auto simp: low_seen_def)
    with eq idx2 S_on show ?thesis unfolding low_seen_def by (metis subsetD)
  qed
  have "linked r0 S (S @ [v]) T v st2"
    using linkT mono2 by (rule linked_mono) (use idx2 S_on in \<open>auto simp: lowv2\<close>)
  moreover have "linked r0 S (S @ [v]) (T @ Tw) v st2" if "Tw \<noteq> []"
  proof (rule linked_child [OF _ T calculation edge])
    have "low (ex_r st2) w = low (ex_r st1) w" using wv by (simp add: st2 low2)
    then show "linked r0 (ex_stack st) (ex_stack st) Tw w st2"
      using that res by (intro linked_mono [of r0 "ex_stack st" "ex_stack st" Tw w st1 st2]) (auto simp: st2 same)
    show "low (ex_r st2) v \<le> low (ex_r st2) w" using wv by (simp add: st2 low2)
  qed
  ultimately have linked2: "linked r0 S (S @ [v]) (T @ Tw) v st2" by (cases "Tw = []") auto
  have idxv2: "idx (ex_r st2) v = idx (ex_r st) v" by (rule idx2 [OF v_on])
  have stack2: "ex_stack st2 = S @ v # T @ Tw" by (simp add: st2 Tw T)
  show ?thesis
    unfolding loop_inv_def
    using sc2 keep2 idxv2 idxv lowv lowv2 D2 Dlow2 seen2 linked2 stack2 by auto
qed

lemma loop_seen:
  assumes inv: "loop_inv r0 S v D st0 st" and edge: "(v, w) \<in> dep_rel r0" and w: "w \<in> set (ex_stack st)"
    and low: "lower_link v (idx (ex_r st) w) st = Some st2"
  shows "loop_inv r0 S v (insert w D) st0 st2"
proof -
  from inv obtain T where T: "ex_stack st = S @ v # T" and linkT: "linked r0 S (S @ [v]) T v st"
    and sc: "sc_inv r0 st" and keep0: "keeps_below S st0 st" and idxv: "idx (ex_r st) v = idx (ex_r st0) v"
    and lowv: "low (ex_r st) v \<le> idx (ex_r st) v" and D: "D \<subseteq> executed (ex_r st) \<union> set (ex_stack st)"
    and Dlow: "\<forall>w\<in>D \<inter> set S. low (ex_r st) v \<le> idx (ex_r st) w"
    and seen: "low (ex_r st) v < idx (ex_r st) v \<longrightarrow> low_seen r0 S v st"
    unfolding loop_inv_def by blast
  from lower_link_effect [OF low] obtain r' where st2: "st2 = st\<lparr>ex_r := r'\<rparr>" and fr: "exec_frame (ex_r st) r'"
    and same: "idx r' = idx (ex_r st)" "executed r' = executed (ex_r st)"
    and low2: "low r' = (low (ex_r st))(v := min (low (ex_r st) v) (idx (ex_r st) w))"
    by blast
  have vS: "v \<notin> set S" using sc by (auto simp: sc_inv_def T)
  have keep2: "keeps_below S st0 st2"
    using keep0 by (rule keeps_below_trans [OF _ _ order_refl])
      (use fr vS in \<open>auto simp: keeps_below_def st2 same low2\<close>)
  have seen2: "low_seen r0 S v st2" if less: "low (ex_r st2) v < idx (ex_r st2) v"
  proof (cases "idx (ex_r st) w < low (ex_r st) v")
    case True
    with lowv stack_below [OF sc T w] have "w \<in> set S" by simp
    moreover have "idx (ex_r st2) w = low (ex_r st2) v" using True by (simp add: st2 same low2)
    ultimately show ?thesis using edge unfolding low_seen_def by blast
  next
    case False
    with less seen show ?thesis by (auto simp: low_seen_def st2 same low2)
  qed
  have "linked r0 S (S @ [v]) T v st2"
    using linkT by (rule linked_mono) (auto simp: st2 same low2)
  with T D w Dlow lowv show ?thesis
    unfolding loop_inv_def using sc_inv_lower [OF sc low] keep2 idxv seen2
    by (auto simp: st2 same low2 intro: min.coboundedI1)
qed

lemma stack_not_executed: "sc_inv r0 st \<Longrightarrow> w \<in> set (ex_stack st) \<Longrightarrow> w \<notin> executed (ex_r st)"
  unfolding sc_inv_def committed_def executed_def by fastforce

lemma loop_executed:
  assumes inv: "loop_inv r0 S v D st0 st" and w: "w \<in> executed (ex_r st)"
  shows "loop_inv r0 S v (insert w D) st0 st"
proof -
  from inv obtain T where "sc_inv r0 st" "ex_stack st = S @ v # T" unfolding loop_inv_def by blast
  with w stack_not_executed [of r0 st w] have "w \<notin> set S" by auto
  with inv w show ?thesis unfolding loop_inv_def by auto
qed

text \<open>The loops.\<close>

lemma sc_row_ok:
  assumes "sc_spec r0 sc" and "sc_row sc v q is st = Some (ok, st')" and "loop_inv r0 S v D st0 st"
    and "\<forall>i\<in>set is. (q, i) \<in> deps_on r0 v"
  shows "if ok then loop_inv r0 S v (D \<union> Pair q ` set is) st0 st' else sc_inv r0 st'"
  using assms(2-)
proof (induction "is" arbitrary: st D)
  case Nil
  then show ?case by auto
next
  case (Cons i "is")
  have edge: "(v, (q, i)) \<in> dep_rel r0" using Cons.prems(3) by (simp add: dep_rel_def)
  have sc: "sc_inv r0 st" using Cons.prems(2) by (simp add: loop_inv_def)
  have rest: "\<forall>i\<in>set is. (q, i) \<in> deps_on r0 v" using Cons.prems(3) by simp
  have step: "if ok then loop_inv r0 S v (D \<union> Pair q ` set (i # is)) st0 st' else sc_inv r0 st'"
    if "loop_inv r0 S v (insert (q, i) D) st0 st2" "sc_row sc v q is st2 = Some (ok, st')" for st2
    using Cons.IH [OF that(2,1) rest] by (cases ok) simp_all
  show ?case
  proof (cases "inst_of (ex_r st) (q, i)")
    case None
    with Cons.prems(1) sc show ?thesis by (auto simp: Option.bind_eq_Some_conv slot_get_Some)
  next
    case (Some y)
    consider (nil) "x_Cmds y = None" | (old) "x_Cmds y \<noteq> None" "x_Status y = S_EXECUTED"
      | (other) "x_Cmds y \<noteq> None" "x_Status y \<noteq> S_EXECUTED" "x_Status y \<noteq> S_COMMITTED"
      | (white) "x_Cmds y \<noteq> None" "x_Status y = S_COMMITTED" "x_Index y = 0"
      | (grey) "x_Cmds y \<noteq> None" "x_Status y = S_COMMITTED" "x_Index y \<noteq> 0"
      by blast
    then show ?thesis
    proof cases
      case nil
      with Cons.prems(1) Some sc show ?thesis by (auto simp: Option.bind_eq_Some_conv slot_get_Some)
    next
      case old
      with Some have "(q, i) \<in> executed (ex_r st)" by (simp add: executed_def)
      from step [OF loop_executed [OF Cons.prems(2) this]] old Cons.prems(1) Some show ?thesis
        by (auto simp: Option.bind_eq_Some_conv slot_get_Some)
    next
      case other
      with Cons.prems(1) Some sc show ?thesis by (auto simp: Option.bind_eq_Some_conv slot_get_Some)
    next
      case white
      with Cons.prems(1) Some obtain ok1 st1 where call: "sc (q, i) st = Some (ok1, st1)"
        and cont: "if ok1 then \<exists>x st2. ex_node (q, i) st1 = Some x \<and> lower_link v (x_Lowlink x) st1 = Some st2 \<and>
            sc_row sc v q is st2 = Some (ok, st') else \<not> ok \<and> st' = st1"
        by (auto simp: Option.bind_eq_Some_conv slot_get_Some split: if_splits)
      have pre: "committed (ex_r st) (q, i)" "idx (ex_r st) (q, i) = 0"
        using white Some by (simp_all add: committed_def idx_def)
      from assms(1) call sc pre have post: "sc_inv r0 st1" "ok1 \<Longrightarrow> sc_post r0 (q, i) st st1"
        unfolding sc_spec_def by blast+
      show ?thesis
      proof (cases ok1)
        case True
        with cont obtain x st2 where x: "ex_node (q, i) st1 = Some x" and low: "lower_link v (x_Lowlink x) st1 = Some st2"
          and more: "sc_row sc v q is st2 = Some (ok, st')" by auto
        from x have "x_Lowlink x = low (ex_r st1) (q, i)" by (simp add: ex_node_Some low_def)
        with low loop_child [OF Cons.prems(2) edge pre(2) post(2) [OF True]] step [OF _ more] show ?thesis by simp
      next
        case False
        with cont post show ?thesis by simp
      qed
    next
      case grey
      with Some have "idx (ex_r st) (q, i) \<noteq> 0" "(q, i) \<notin> executed (ex_r st)"
        by (simp_all add: idx_def executed_def)
      with sc have on: "(q, i) \<in> set (ex_stack st)" unfolding sc_inv_def by blast
      with grey Cons.prems(1) Some obtain st2 where low: "lower_link v (x_Index y) st = Some st2"
        and more: "sc_row sc v q is st2 = Some (ok, st')"
        by (auto simp: Option.bind_eq_Some_conv slot_get_Some inStack_def)
      have "x_Index y = idx (ex_r st) (q, i)" using Some by (simp add: idx_def)
      with low loop_seen [OF Cons.prems(2) edge on] step [OF _ more] show ?thesis by simp
    qed
  qed
qed

lemma sc_rows_ok:
  assumes "sc_spec r0 sc" and "sc_rows sc v qs st = Some (ok, st')" and "loop_inv r0 S v D st0 st"
    and "\<forall>q\<in>set qs. 0 \<le> q \<and> q < e_N r0"
  shows "if ok then loop_inv r0 S v (D \<union> {w \<in> deps_on r0 v. fst w \<in> set qs}) st0 st' else sc_inv r0 st'"
  using assms(2-)
proof (induction qs arbitrary: st D)
  case Nil
  then show ?case by auto
next
  case (Cons q qs)
  from Cons.prems(1) obtain x d e ok1 st1 where x: "ex_node v st = Some x"
    and d: "slice_get (ref_vals (ex_r st) (x_Deps x)) q = Some d"
    and e: "slice_get (e_ExecedUpTo (ex_r st)) q = Some e"
    and row: "sc_row sc v q [e + 1..d] st = Some (ok1, st1)"
    and cont: "if ok1 then sc_rows sc v qs st1 = Some (ok, st') else \<not> ok \<and> st' = st1"
    by (auto simp: Option.bind_eq_Some_conv split: if_splits)
  have fr: "exec_frame r0 (ex_r st)" using Cons.prems(2) by (simp add: loop_inv_def sc_inv_def)
  from x have inst: "inst_of (ex_r st) v = Some x" by (simp add: ex_node_Some)
  have q: "0 \<le> q" "q < e_N r0" using Cons.prems(3) by simp_all
  obtain x0 where "inst_of r0 v = Some x0" "x_Deps x0 = x_Deps x"
    using exec_frame_inst(2) [OF fr inst] by (auto simp: same_inst_def)
  then have row_deps: "{w \<in> deps_on r0 v. fst w = q} = Pair q ` set [e + 1..d]"
    using d e q by (auto simp: deps_on_def exec_frame_env [OF fr])
  then have "\<forall>i\<in>set [e + 1..d]. (q, i) \<in> deps_on r0 v" by blast
  from sc_row_ok [OF assms(1) row Cons.prems(2) this] row_deps
  have res: "if ok1 then loop_inv r0 S v (D \<union> {w \<in> deps_on r0 v. fst w = q}) st0 st1 else sc_inv r0 st1"
    by (simp only: row_deps)
  have split: "{w \<in> deps_on r0 v. fst w \<in> set (q # qs)} =
      {w \<in> deps_on r0 v. fst w = q} \<union> {w \<in> deps_on r0 v. fst w \<in> set qs}" by auto
  show ?case
  proof (cases ok1)
    case True
    with cont res have "sc_rows sc v qs st1 = Some (ok, st')"
      "loop_inv r0 S v (D \<union> {w \<in> deps_on r0 v. fst w = q}) st0 st1" by simp_all
    moreover have "\<forall>q\<in>set qs. 0 \<le> q \<and> q < e_N r0" using Cons.prems(3) by simp
    ultimately show ?thesis using Cons.IH by (simp only: split Un_assoc [symmetric])
  next
    case False
    with cont res show ?thesis by simp
  qed
qed

subsection \<open>The component on top of the stack\<close>

lemma fst_in_pairs: "map fst xs = vs \<Longrightarrow> fst ` set xs = set vs"
  by (metis set_map)

lemma pop_effect:
  assumes "pop_component (length S) st = Some st'" and "ex_stack st = S @ C"
  shows "\<exists>B. mset B = mset C \<and> ex_stack st' = S \<and> ex_done st' = ex_done st @ [B] \<and> ex_index st' = ex_index st \<and>
    (\<exists>sp. ex_r st' = (ex_r st)\<lparr>e_InstanceSpace := sp,
        e_State := fold ep_put (concat (map (cmds_of (ex_r st)) B)) (e_State (ex_r st))\<rparr>) \<and>
    (\<forall>v. inst_of (ex_r st') v = (if v \<in> set C then map_option (\<lambda>x. x\<lparr>x_Status := S_EXECUTED\<rparr>) (inst_of (ex_r st) v)
        else inst_of (ex_r st) v)) \<and>
    sorted_wrt (\<lambda>a b. \<not> node_less (b, the (inst_of (ex_r st) b)) (a, the (inst_of (ex_r st) a))) B"
proof -
  from assms obtain ws st1 where ws: "nodes_of C st = Some ws" and batch: "exec_batch (SortInstances ws) st = Some st1"
    and st': "st' = st1\<lparr>ex_stack := take (length S) (ex_stack st1), ex_done := ex_done st1 @ [map fst (SortInstances ws)]\<rparr>"
    by (auto simp: pop_component_def Let_def Option.bind_eq_Some_conv)
  from nodes_of_Some [OF ws] have fst_ws: "map fst ws = C" and inst_ws: "\<forall>(v, x)\<in>set ws. inst_of (ex_r st) v = Some x"
    by blast+
  let ?B = "map fst (SortInstances ws)"
  note sort = SortInstances_sorted [of ws]
  have mset_B: "mset ?B = mset C" using sort(1) fst_ws by (metis mset_map)
  have set_sorted: "set (SortInstances ws) = set ws" using sort(1) by (metis set_mset_mset)
  from exec_batch_effect [OF batch] obtain sp outs where st1: "st1 = st\<lparr>ex_r := (ex_r st)\<lparr>e_InstanceSpace := sp,
         e_State := fold ep_put (concat (map (\<lambda>w. elems (x_Cmds (snd w))) (SortInstances ws))) (e_State (ex_r st))\<rparr>, ex_outs := outs\<rparr>"
    and sp: "\<forall>v. map_of sp v = (if v \<in> fst ` set ws then map_option (\<lambda>x. x\<lparr>x_Status := S_EXECUTED\<rparr>) (inst_of (ex_r st) v)
                           else inst_of (ex_r st) v)"
    by (auto simp: set_sorted)
  have cmds: "map (\<lambda>w. elems (x_Cmds (snd w))) (SortInstances ws) = map (cmds_of (ex_r st)) ?B"
    using inst_ws set_sorted by (auto simp: cmds_of_def split: prod.splits)
  have sorted: "sorted_wrt (\<lambda>a b. \<not> node_less (b, the (inst_of (ex_r st) b)) (a, the (inst_of (ex_r st) a))) ?B"
    unfolding sorted_wrt_map
    using sort(2)
  proof (rule sorted_wrt_mono_rel [rotated])
    fix a b assume ab: "a \<in> set (SortInstances ws)" "b \<in> set (SortInstances ws)" and less: "\<not> node_less b a"
    have "(fst c, the (inst_of (ex_r st) (fst c))) = c" if "c \<in> set (SortInstances ws)" for c
      using inst_ws that by (cases c) (auto simp: set_sorted)
    with ab less show "\<not> node_less (fst b, the (inst_of (ex_r st) (fst b))) (fst a, the (inst_of (ex_r st) (fst a)))"
      by simp
  qed
  show ?thesis
    by (rule exI [of _ ?B])
      (use mset_B sorted sp assms(2) in \<open>auto simp: st' st1 cmds fst_in_pairs [OF fst_ws]\<close>)
qed

lemma frame_node_less:
  assumes "exec_frame r r'" and "inst_of r a \<noteq> None" and "inst_of r b \<noteq> None"
  shows "node_less (a, the (inst_of r' a)) (b, the (inst_of r' b)) \<longleftrightarrow>
    node_less (a, the (inst_of r a)) (b, the (inst_of r b))"
proof -
  from assms obtain x y where "inst_of r a = Some x" "inst_of r b = Some y" by auto
  moreover from this assms(1) obtain x' y' where "inst_of r' a = Some x'" "same_inst x x'" "inst_of r' b = Some y'" "same_inst y y'"
    by (meson exec_frame_inst(1))
  ultimately show ?thesis by (simp add: node_less_def same_inst_def)
qed

lemma frame_committed: "exec_frame r r' \<Longrightarrow> committed r' v \<Longrightarrow> committed r v"
  by (auto simp: committed_def same_inst_def dest: exec_frame_inst(2))

lemma closed_reach:
  assumes "(a, b) \<in> (dep_rel r)\<^sup>*" and "deps_closed r E" and "a \<in> E"
  shows "b \<in> E"
  using assms by (induction) (auto simp: deps_closed_def dep_rel_def)

text \<open>When the lowest link of an instance is its own index, what lies above it on the stack is a component
  whose dependencies are executed or in it.\<close>

lemma stack_component_ok:
  assumes inv: "loop_inv r0 S v (deps_on r0 v) st0 st" and low: "low (ex_r st) v = idx (ex_r st) v"
    and T: "ex_stack st = S @ v # T" and link: "linked r0 S (S @ [v]) T v st"
  shows "\<forall>u\<in>set (v # T). deps_on r0 u \<subseteq> executed (ex_r st) \<union> set (v # T)"
    and "\<forall>a\<in>set (v # T). \<forall>b\<in>set (v # T). (a, b) \<in> (dep_rel r0)\<^sup>*"
proof -
  have sc: "sc_inv r0 st" using inv by (simp add: loop_inv_def)
  have above: "idx (ex_r st) w < low (ex_r st) v" if "w \<in> set S" for w
    using sc that by (auto simp: sc_inv_def T sorted_wrt_append low)
  have deps: "deps_on r0 u \<subseteq> executed (ex_r st) \<union> set (S @ v # T)"
    "\<forall>w\<in>deps_on r0 u \<inter> set S. low (ex_r st) v \<le> idx (ex_r st) w" if "u \<in> set (v # T)" for u
    using that inv link unfolding loop_inv_def linked_def T by auto
  show closed: "\<forall>u\<in>set (v # T). deps_on r0 u \<subseteq> executed (ex_r st) \<union> set (v # T)"
  proof (intro ballI subsetI)
    fix u w assume u: "u \<in> set (v # T)" and w: "w \<in> deps_on r0 u"
    with deps(2) [OF u] above [of w] have "w \<notin> set S" by (meson IntI leD)
    with deps(1) [OF u] w show "w \<in> executed (ex_r st) \<union> set (v # T)" by auto
  qed
  let ?E = "executed (ex_r st) \<union> set (v # T)"
  have closedE: "deps_closed r0 ?E"
    unfolding deps_closed_def
  proof
    fix u assume "u \<in> ?E"
    then show "deps_on r0 u \<subseteq> ?E" using closed sc_inv_closed [OF sc, of u] by blast
  qed
  have off: "w \<notin> ?E" if "w \<in> set S" for w
    using stack_not_executed [OF sc, of w] sc that by (auto simp: T sc_inv_def)
  have to_v: "(a, v) \<in> (dep_rel r0)\<^sup>*" if a: "a \<in> set (v # T)" for a
  proof (cases "a = v")
    case False
    with a have "a \<in> set T" by simp
    with link obtain w where w: "w \<in> set (S @ [v])" "(a, w) \<in> (dep_rel r0)\<^sup>*"
      unfolding linked_def by blast
    from closed_reach [OF w(2) closedE] a have "w \<in> ?E" by blast
    with off [of w] w(1) have "w = v" by (cases "w \<in> set S") simp_all
    with w show ?thesis by simp
  qed simp
  have from_v: "(v, b) \<in> (dep_rel r0)\<^sup>*" if "b \<in> set (v # T)" for b
    using that link unfolding linked_def by auto
  show "\<forall>a\<in>set (v # T). \<forall>b\<in>set (v # T). (a, b) \<in> (dep_rel r0)\<^sup>*"
    using to_v from_v by (meson rtrancl_trans)
qed

lemma pop_ok:
  assumes inv: "loop_inv r0 S v (deps_on r0 v) st0 st" and low: "low (ex_r st) v = idx (ex_r st) v"
    and T: "ex_stack st = S @ v # T" and link: "linked r0 S (S @ [v]) T v st"
    and pop: "pop_component (length S) st = Some st'"
  shows "sc_inv r0 st' \<and> ex_stack st' = S \<and> v \<in> executed (ex_r st') \<and> exec_frame (ex_r st) (ex_r st') \<and>
    idx (ex_r st') = idx (ex_r st) \<and> low (ex_r st') = low (ex_r st)"
proof -
  have sc: "sc_inv r0 st" using inv by (simp add: loop_inv_def)
  have fr: "exec_frame r0 (ex_r st)" using sc by (simp add: sc_inv_def)
  note comp = stack_component_ok [OF inv low T link]
  let ?C = "v # T"
  from pop_effect [OF pop T] obtain B sp where B: "mset B = mset ?C" and stack': "ex_stack st' = S"
    and done': "ex_done st' = ex_done st @ [B]" and index': "ex_index st' = ex_index st"
    and r': "ex_r st' = (ex_r st)\<lparr>e_InstanceSpace := sp,
        e_State := fold ep_put (concat (map (cmds_of (ex_r st)) B)) (e_State (ex_r st))\<rparr>"
    and inst': "\<forall>v. inst_of (ex_r st') v = (if v \<in> set ?C then map_option (\<lambda>x. x\<lparr>x_Status := S_EXECUTED\<rparr>) (inst_of (ex_r st) v)
        else inst_of (ex_r st) v)"
    and sorted: "sorted_wrt (\<lambda>a b. \<not> node_less (b, the (inst_of (ex_r st) b)) (a, the (inst_of (ex_r st) a))) B"
    by blast
  have set_B: "set B = set ?C" using B by (metis set_mset_mset)
  have com: "committed (ex_r st) u" if "u \<in> set (ex_stack st)" for u using sc that by (simp add: sc_inv_def)
  have comC: "committed (ex_r st) u" if "u \<in> set ?C" for u
    by (rule com) (use that in \<open>auto simp: T\<close>)
  have distC: "distinct ?C" using sc by (simp add: sc_inv_def T)
  have instC: "\<exists>x. inst_of (ex_r st) u = Some x \<and> x_Status x = S_COMMITTED" if "u \<in> set ?C" for u
    using comC [OF that] by (simp add: committed_def)
  have fr': "exec_frame (ex_r st) (ex_r st')"
  proof -
    have "rel_option same_inst (inst_of (ex_r st) u) (inst_of (ex_r st') u)" for u
      using inst' instC [of u] by (cases "u \<in> set ?C") (auto simp: same_inst_def option.rel_refl)
    with r' show ?thesis unfolding exec_frame_def by blast
  qed
  have idx': "idx (ex_r st') = idx (ex_r st)" "low (ex_r st') = low (ex_r st)"
    using inst' by (auto simp: fun_eq_iff idx_def low_def split: option.splits)
  have com': "committed (ex_r st') u" if "u \<in> set S" for u
    using com [of u] inst' that sc by (auto simp: committed_def T sc_inv_def)
  have exe': "executed (ex_r st') = executed (ex_r st) \<union> set ?C"
  proof (rule set_eqI)
    fix u
    show "u \<in> executed (ex_r st') \<longleftrightarrow> u \<in> executed (ex_r st) \<union> set ?C"
      using inst' [rule_format, of u] instC [of u] by (cases "u \<in> set ?C") (auto simp: executed_def)
  qed
  have disj: "set ?C \<inter> executed (ex_r st) = {}"
    using stack_not_executed [OF sc] by (auto simp: T)
  have "scc_batch_ok r0 (executed (ex_r st)) B"
    unfolding scc_batch_ok_def
  proof (intro conjI)
    show "distinct B" using B distC by (metis mset_eq_imp_distinct_iff)
    show "set B \<inter> executed (ex_r st) = {}" using disj set_B by simp
    show "\<forall>v\<in>set B. committed r0 v \<and> deps_on r0 v \<subseteq> executed (ex_r st) \<union> set B"
      using comp(1) comC frame_committed [OF fr] set_B by simp
    show "\<forall>a\<in>set B. \<forall>b\<in>set B. (a, b) \<in> (dep_rel r0)\<^sup>*" using comp(2) set_B by simp
    show "sorted_wrt (\<lambda>a b. \<not> node_less (b, the (inst_of r0 b)) (a, the (inst_of r0 a))) B"
      using sorted
    proof (rule sorted_wrt_mono_rel [rotated])
      fix a b assume ab: "a \<in> set B" "b \<in> set B"
        and less: "\<not> node_less (b, the (inst_of (ex_r st) b)) (a, the (inst_of (ex_r st) a))"
      have "inst_of r0 a \<noteq> None" "inst_of r0 b \<noteq> None"
        using instC [of a] instC [of b] ab exec_frame_inst(3) [OF fr, of a] exec_frame_inst(3) [OF fr, of b]
        unfolding set_B by force+
      from frame_node_less [OF fr this(2,1)] less
      show "\<not> node_less (b, the (inst_of r0 b)) (a, the (inst_of r0 a))" by simp
    qed
  qed
  note batch = this
  have cmds: "map (cmds_of (ex_r st)) B = map (cmds_of r0) B"
    by (simp add: exec_frame_cmds [OF fr])
  have dist: "distinct S" and idx_S: "sorted_wrt (\<lambda>a b. idx (ex_r st) a < idx (ex_r st) b) S"
    using sc by (simp_all add: sc_inv_def T sorted_wrt_append)
  have S_ok: "\<forall>u\<in>set S. 0 < idx (ex_r st) u \<and> idx (ex_r st) u < ex_index st"
    using sc by (simp add: sc_inv_def T)
  have grey: "\<forall>u. idx (ex_r st) u \<noteq> 0 \<longrightarrow> u \<in> set S \<or> u \<in> executed (ex_r st')"
    using sc unfolding sc_inv_def T exe' by (metis UnCI Un_iff set_append)
  have exe: "executed (ex_r st) = executed r0 \<union> set (concat (ex_done st))" and pos: "0 < ex_index st"
    and closed0: "deps_closed r0 (executed r0)" and batches: "scc_batches_ok r0 (executed r0) (ex_done st)"
    and state: "e_State (ex_r st) = fold ep_put (concat (map (cmds_of r0) (concat (ex_done st)))) (e_State r0)"
    using sc by (simp_all add: sc_inv_def)
  have "sc_inv r0 st'"
    unfolding sc_inv_def stack' done' index' idx' scc_batches_ok_snoc
    using dist idx_S S_ok com' grey pos closed0 batches batch exec_frame_trans [OF fr fr']
    by (simp add: exe' exe set_B Un_assoc) (simp add: r' state cmds)
  then show ?thesis using stack' exe' fr' idx' by auto
qed

subsection \<open>The search\<close>

lemma push_ok:
  assumes sc: "sc_inv r0 st" and com: "committed (ex_r st) v" and white: "idx (ex_r st) v = 0"
    and slot: "ex_slot v (\<lambda>x. x\<lparr>x_Index := ex_index st, x_Lowlink := ex_index st\<rparr>) st = Some st1"
    and st2: "st2 = st1\<lparr>ex_index := ex_index st1 + 1, ex_stack := ex_stack st1 @ [v]\<rparr>"
  shows "loop_inv r0 (ex_stack st) v {} st2 st2 \<and> keeps_below (ex_stack st) st st2 \<and>
    idx (ex_r st2) v = ex_index st \<and> ex_stack st1 = ex_stack st"
proof -
  from slot obtain r1 where r1: "on_slot v (\<lambda>x. x\<lparr>x_Index := ex_index st, x_Lowlink := ex_index st\<rparr>) (ex_r st) = Some r1"
    and st1: "st1 = st\<lparr>ex_r := r1\<rparr>" by (auto simp: ex_slot_Some)
  note inst = on_slot_inst [OF r1]
  from com obtain x where x: "inst_of (ex_r st) v = Some x" "x_Status x = S_COMMITTED" by (auto simp: committed_def)
  have fr: "exec_frame (ex_r st) r1" by (rule on_slot_frame [OF r1]) (simp add: same_inst_def)
  have idx1: "idx r1 = (idx (ex_r st))(v := ex_index st)" and low1: "low r1 = (low (ex_r st))(v := ex_index st)"
    and com1: "committed r1 = committed (ex_r st)"
    using x by (auto simp: fun_eq_iff idx_def low_def committed_def inst split: option.splits)
  have exe1: "executed r1 = executed (ex_r st)" using x by (auto simp: executed_def inst split: if_splits)
  have state1: "e_State r1 = e_State (ex_r st)" using r1 by (auto simp: on_slot_Some)
  have off: "v \<notin> set (ex_stack st)" using sc white by (auto simp: sc_inv_def)
  have S_idx: "\<forall>u\<in>set (ex_stack st). 0 < idx (ex_r st) u \<and> idx (ex_r st) u < ex_index st \<and> u \<noteq> v"
    using sc off by (auto simp: sc_inv_def)
  have sorted: "sorted_wrt (\<lambda>a b. idx r1 a < idx r1 b) (ex_stack st @ [v])"
  proof -
    have "sorted_wrt (\<lambda>a b. idx r1 a < idx r1 b) (ex_stack st)"
      by (rule sorted_wrt_mono_rel [of _ "\<lambda>a b. idx (ex_r st) a < idx (ex_r st) b"])
        (use sc S_idx in \<open>auto simp: idx1 sc_inv_def\<close>)
    with S_idx show ?thesis by (auto simp: sorted_wrt_append idx1)
  qed
  have "sc_inv r0 st2"
    unfolding sc_inv_def
  proof (intro conjI)
    show "exec_frame r0 (ex_r st2)" using sc fr by (auto simp: sc_inv_def st2 st1 intro: exec_frame_trans)
    show "distinct (ex_stack st2)" using sc off by (simp add: sc_inv_def st2 st1)
    show "sorted_wrt (\<lambda>a b. idx (ex_r st2) a < idx (ex_r st2) b) (ex_stack st2)" using sorted by (simp add: st2 st1)
    show "\<forall>u\<in>set (ex_stack st2). committed (ex_r st2) u \<and> 0 < idx (ex_r st2) u \<and> idx (ex_r st2) u < ex_index st2"
    proof
      fix u assume "u \<in> set (ex_stack st2)"
      then consider "u = v" | "u \<in> set (ex_stack st)" by (auto simp: st2 st1)
      then show "committed (ex_r st2) u \<and> 0 < idx (ex_r st2) u \<and> idx (ex_r st2) u < ex_index st2"
        using sc com S_idx by cases (auto simp: st2 st1 com1 idx1 sc_inv_def)
    qed
    show "\<forall>u. idx (ex_r st2) u \<noteq> 0 \<longrightarrow> u \<in> set (ex_stack st2) \<or> u \<in> executed (ex_r st2)"
      using sc unfolding sc_inv_def st2 st1 by (auto simp: idx1 exe1)
    show "0 < ex_index st2" using sc by (simp add: sc_inv_def st2 st1)
    show "deps_closed r0 (executed r0)" "scc_batches_ok r0 (executed r0) (ex_done st2)"
      "executed (ex_r st2) = executed r0 \<union> set (concat (ex_done st2))"
      "e_State (ex_r st2) = fold ep_put (concat (map (cmds_of r0) (concat (ex_done st2)))) (e_State r0)"
      using sc by (simp_all add: sc_inv_def st2 st1 exe1 state1)
  qed
  moreover have "keeps_below (ex_stack st) st st2"
    using fr S_idx by (auto simp: keeps_below_def st2 st1 idx1 low1)
  moreover have "keeps_below (ex_stack st) st2 st2" by (simp add: keeps_below_def)
  ultimately show ?thesis
    by (auto simp: loop_inv_def st2 st1 idx1 low1 linked_def)
qed

definition pushed :: "inst_id \<Rightarrow> ex \<Rightarrow> ex" where
  "pushed v st1 = st1\<lparr>ex_index := ex_index st1 + 1, ex_stack := ex_stack st1 @ [v]\<rparr>"

lemma strongconnect_cases:
  assumes "strongconnect (Suc fuel) v st = Some (ok, st')"
  obtains st1 where "ex_slot v (\<lambda>x. x\<lparr>x_Index := ex_index st, x_Lowlink := ex_index st\<rparr>) st = Some st1"
      and "\<not> ok" and "st' = pushed v st1"
  | st1 st3 where "ex_slot v (\<lambda>x. x\<lparr>x_Index := ex_index st, x_Lowlink := ex_index st\<rparr>) st = Some st1"
      and "sc_rows (strongconnect fuel) v [0..e_N (ex_r (pushed v st1)) - 1] (pushed v st1) = Some (False, st3)"
      and "\<not> ok" and "st' = st3"
  | st1 st3 y where "ex_slot v (\<lambda>x. x\<lparr>x_Index := ex_index st, x_Lowlink := ex_index st\<rparr>) st = Some st1"
      and "sc_rows (strongconnect fuel) v [0..e_N (ex_r (pushed v st1)) - 1] (pushed v st1) = Some (True, st3)"
      and "ex_node v st3 = Some y" and ok
      and "if x_Lowlink y = x_Index y then pop_component (length (ex_stack st1)) st3 = Some st' else st' = st3"
proof -
  from assms obtain st1 where slot: "ex_slot v (\<lambda>x. x\<lparr>x_Index := ex_index st, x_Lowlink := ex_index st\<rparr>) st = Some st1"
    by (auto simp: Option.bind_eq_Some_conv)
  have len: "length (ex_stack st1) = length (ex_stack st)" using slot by (auto simp: ex_slot_Some)
  from assms slot obtain x where x: "ex_node v (pushed v st1) = Some x"
    by (auto simp: Option.bind_eq_Some_conv Let_def pushed_def)
  show thesis
  proof (cases "x_Cmds x = None")
    case True
    with assms slot x that(1) show thesis by (simp add: Let_def pushed_def)
  next
    case False
    with assms slot x obtain ok3 st3 where
      rows: "sc_rows (strongconnect fuel) v [0..e_N (ex_r (pushed v st1)) - 1] (pushed v st1) = Some (ok3, st3)"
      by (auto simp: Let_def pushed_def Option.bind_eq_Some_conv)
    show thesis
    proof (cases ok3)
      case True
      with assms slot x False rows obtain y where y: "ex_node v st3 = Some y"
        by (auto simp: Let_def pushed_def Option.bind_eq_Some_conv)
      with True assms slot x False rows len that(3) show thesis
        by (auto simp: Let_def pushed_def Option.bind_eq_Some_conv split: if_splits)
    next
      case False
      with assms slot x \<open>x_Cmds x \<noteq> None\<close> rows that(2) show thesis by (auto simp: Let_def pushed_def)
    qed
  qed
qed

lemma component_end_ok:
  assumes inv3: "loop_inv r0 S v (deps_on r0 v) st2 st3" and keep: "keeps_below S st st2" and S: "S = ex_stack st"
    and idx2: "idx (ex_r st2) v = ex_index st" and y: "ex_node v st3 = Some y"
    and fin: "if x_Lowlink y = x_Index y then pop_component (length S) st3 = Some st' else st' = st3"
  shows "sc_post r0 v st st'"
proof -
  from inv3 obtain T where T: "ex_stack st3 = S @ v # T" and link: "linked r0 S (S @ [v]) T v st3"
    and sc3: "sc_inv r0 st3" and keep3: "keeps_below S st2 st3" and idx3: "idx (ex_r st3) v = idx (ex_r st2) v"
    and low3: "low (ex_r st3) v \<le> idx (ex_r st3) v"
    and deps3: "deps_on r0 v \<subseteq> executed (ex_r st3) \<union> set (ex_stack st3)"
    and seen3: "low (ex_r st3) v < idx (ex_r st3) v \<longrightarrow> low_seen r0 S v st3"
    and dlow3: "\<forall>w\<in>deps_on r0 v \<inter> set S. low (ex_r st3) v \<le> idx (ex_r st3) w"
    unfolding loop_inv_def by blast
  have keep_all: "keeps_below S st st3" by (rule keeps_below_trans [OF keep keep3 order_refl])
  from y have y_low: "low (ex_r st3) v = x_Lowlink y" "idx (ex_r st3) v = x_Index y"
    by (simp_all add: ex_node_Some low_def idx_def)
  show ?thesis
  proof (cases "x_Lowlink y = x_Index y")
    case True
    with fin have pop: "pop_component (length S) st3 = Some st'" by simp
    from True y_low have eq: "low (ex_r st3) v = idx (ex_r st3) v" by simp
    note res = pop_ok [OF inv3 eq T link pop]
    have "keeps_below S st st'"
      using keep_all res by (auto simp: keeps_below_def intro: exec_frame_trans)
    with res eq idx3 idx2 show ?thesis by (simp add: sc_post_def S)
  next
    case False
    with low3 y_low have less: "low (ex_r st3) v < idx (ex_r st3) v" by simp
    with seen3 have seen: "low_seen r0 S v st3" by simp
    then obtain w where w: "w \<in> set S" "(v, w) \<in> (dep_rel r0)\<^sup>*" unfolding low_seen_def by blast
    have "linked r0 S S (v # T) v st3"
      unfolding linked_def
    proof
      fix u assume "u \<in> set (v # T)"
      then consider "u = v" | "u \<in> set T" by auto
      then show "deps_on r0 u \<subseteq> executed (ex_r st3) \<union> set (ex_stack st3) \<and>
        (\<forall>w\<in>deps_on r0 u \<inter> set S. low (ex_r st3) v \<le> idx (ex_r st3) w) \<and>
        (v, u) \<in> (dep_rel r0)\<^sup>* \<and> (\<exists>w\<in>set S. (u, w) \<in> (dep_rel r0)\<^sup>*)"
      proof cases
        case 1
        with deps3 dlow3 w show ?thesis by blast
      next
        case 2
        with link obtain z where z: "z \<in> set (S @ [v])" "(u, z) \<in> (dep_rel r0)\<^sup>*"
          unfolding linked_def by blast
        have "\<exists>w\<in>set S. (u, w) \<in> (dep_rel r0)\<^sup>*"
        proof (cases "z = v")
          case True
          with z w show ?thesis by (meson rtrancl_trans)
        next
          case False
          with z(1) have "z \<in> set S" by simp
          with z(2) show ?thesis by blast
        qed
        with 2 link show ?thesis unfolding linked_def by blast
      qed
    qed
    with False fin sc3 keep_all idx3 idx2 less seen T show ?thesis by (simp add: sc_post_def S)
  qed
qed

lemma strongconnect_ok: "sc_spec r0 (strongconnect fuel)"
proof (induction fuel)
  case 0
  then show ?case by (simp add: sc_spec_def)
next
  case (Suc fuel)
  have "sc_inv r0 st' \<and> (ok \<longrightarrow> sc_post r0 v st st')"
    if run: "strongconnect (Suc fuel) v st = Some (ok, st')" and sc: "sc_inv r0 st"
      and com: "committed (ex_r st) v" and white: "idx (ex_r st) v = 0" for v st ok st'
  proof -
    let ?slot = "\<lambda>st1. ex_slot v (\<lambda>x. x\<lparr>x_Index := ex_index st, x_Lowlink := ex_index st\<rparr>) st = Some st1"
    have push: "loop_inv r0 (ex_stack st) v {} (pushed v st1) (pushed v st1)" "keeps_below (ex_stack st) st (pushed v st1)"
      "idx (ex_r (pushed v st1)) v = ex_index st" "ex_stack st1 = ex_stack st" if "?slot st1" for st1
      using push_ok [OF sc com white that refl] unfolding pushed_def by blast+
    have rows: "if ok3 then loop_inv r0 (ex_stack st) v (deps_on r0 v) (pushed v st1) st3 else sc_inv r0 st3"
      if slot: "?slot st1"
        and "sc_rows (strongconnect fuel) v [0..e_N (ex_r (pushed v st1)) - 1] (pushed v st1) = Some (ok3, st3)"
      for st1 st3 ok3
    proof -
      have fr: "exec_frame r0 (ex_r (pushed v st1))" using push(1) [OF slot] by (simp add: loop_inv_def sc_inv_def)
      have all: "{w \<in> deps_on r0 v. fst w \<in> set [0..e_N (ex_r (pushed v st1)) - 1]} = deps_on r0 v"
        by (auto simp: deps_on_def exec_frame_env [OF fr])
      have "\<forall>q\<in>set [0..e_N (ex_r (pushed v st1)) - 1]. 0 \<le> q \<and> q < e_N r0" by (auto simp: exec_frame_env [OF fr])
      from sc_rows_ok [OF Suc.IH that(2) push(1) [OF slot] this] show ?thesis by (simp only: all Un_empty_left)
    qed
    from run show ?thesis
    proof (cases rule: strongconnect_cases)
      case (1 st1)
      with push(1) show ?thesis by (simp add: loop_inv_def)
    next
      case (2 st1 st3)
      with rows [OF 2(1,2)] show ?thesis by simp
    next
      case (3 st1 st3 y)
      from rows [OF 3(1,2)] have inv3: "loop_inv r0 (ex_stack st) v (deps_on r0 v) (pushed v st1) st3" by simp
      have "if x_Lowlink y = x_Index y then pop_component (length (ex_stack st)) st3 = Some st' else st' = st3"
        using 3(5) push(4) [OF 3(1)] by (simp only:)
      from component_end_ok [OF inv3 push(2) [OF 3(1)] refl push(3) [OF 3(1)] 3(3) this] have "sc_post r0 v st st'" .
      then show ?thesis by (simp add: sc_post_def)
    qed
  qed
  then show ?case unfolding sc_spec_def by blast
qed

subsection \<open>A call and a pass of the executor\<close>

text \<open>All instances an instance depends on, and what holds between two calls: what has been executed is closed
  under dependencies, the rows are executed up to where the executor has passed them, and no index is left
  on an instance that is still to be executed.\<close>

definition all_deps :: "ep \<Rightarrow> inst_id \<Rightarrow> inst_id set" where
  "all_deps r v =
     {(q, i) | q i x d. inst_of r v = Some x \<and> 0 \<le> q \<and> q < e_N r \<and> slice_get (ref_vals r (x_Deps x)) q = Some d \<and>
        0 \<le> i \<and> i \<le> d}"

definition exec_ready :: "ep \<Rightarrow> bool" where
  "exec_ready r \<longleftrightarrow>
     (\<forall>v\<in>executed r. all_deps r v \<subseteq> executed r) \<and>
     (\<forall>q. 0 \<le> q \<and> q < e_N r \<longrightarrow> (\<exists>e. slice_get (e_ExecedUpTo r) q = Some e \<and> - 1 \<le> e \<and>
        (\<forall>i. 0 \<le> i \<and> i \<le> e \<longrightarrow> (q, i) \<in> executed r))) \<and>
     (\<forall>v. idx r v \<noteq> 0 \<longrightarrow> v \<in> executed r)"

lemma deps_on_all: "exec_ready r \<Longrightarrow> deps_on r v \<subseteq> all_deps r v"
  unfolding exec_ready_def deps_on_def all_deps_def by fastforce

lemma all_deps_on: "exec_ready r \<Longrightarrow> all_deps r v \<subseteq> deps_on r v \<union> executed r"
proof
  fix w assume r: "exec_ready r" and w: "w \<in> all_deps r v"
  then obtain q i x d where qi: "w = (q, i)" "inst_of r v = Some x" "0 \<le> q" "q < e_N r"
    "slice_get (ref_vals r (x_Deps x)) q = Some d" "0 \<le> i" "i \<le> d"
    unfolding all_deps_def by blast
  with r obtain e where "slice_get (e_ExecedUpTo r) q = Some e" "\<forall>i. 0 \<le> i \<and> i \<le> e \<longrightarrow> (q, i) \<in> executed r"
    unfolding exec_ready_def by blast
  with qi show "w \<in> deps_on r v \<union> executed r" by (cases "i \<le> e") (auto simp: deps_on_def)
qed

lemma exec_frame_all_deps:
  assumes "exec_frame r r'"
  shows "all_deps r' v = all_deps r v"
  using assms
  by (cases rule: exec_frame_cases [where v = v]) (simp_all add: all_deps_def same_inst_def exec_frame_env [OF assms])

lemma reset_effect:
  "reset_indexes vs r = Some r' \<Longrightarrow>
     exec_frame r r' \<and> executed r' = executed r \<and> e_State r' = e_State r \<and>
     idx r' = (\<lambda>v. if v \<in> set vs then 0 else idx r v)"
proof (induction vs arbitrary: r)
  case (Cons v vs)
  then obtain r1 where r1: "on_slot v (\<lambda>x. x\<lparr>x_Index := 0\<rparr>) r = Some r1" and rest: "reset_indexes vs r1 = Some r'"
    by (auto simp: Option.bind_eq_Some_conv)
  note inst = on_slot_inst [OF r1]
  have "exec_frame r r1" by (rule on_slot_frame [OF r1]) (simp add: same_inst_def)
  moreover have "executed r1 = executed r"
    by (rule set_eqI) (simp add: executed_def inst, auto)
  moreover have "idx r1 = (idx r)(v := 0)"
    by (auto simp: fun_eq_iff idx_def inst split: option.splits)
  moreover have "e_State r1 = e_State r" using r1 by (auto simp: on_slot_Some)
  ultimately show ?case using Cons.IH [OF rest] by (auto simp: fun_eq_iff intro: exec_frame_trans)
qed simp

text \<open>A successful or failed search: it executes components whose dependencies are executed, in order.\<close>

lemma findSCC_components:
  assumes ready: "exec_ready r" and com: "committed r v" and run: "findSCC v r = Some (ok, st)"
  shows "scc_batches_ok r (executed r) (ex_done st)"
    and "executed (ex_r st) = executed r \<union> set (concat (ex_done st))"
    and "e_State (ex_r st) = fold ep_put (concat (map (cmds_of r) (concat (ex_done st)))) (e_State r)"
    and "exec_frame r (ex_r st)" and "exec_ready (ex_r st)" and "ok \<Longrightarrow> v \<in> executed (ex_r st)"
proof -
  from run obtain st1 r1 where sc: "strongconnect (Suc (length (e_InstanceSpace r))) v (ex_start r) = Some (ok, st1)"
    and reset: "reset_indexes (ex_stack st1) (ex_r st1) = Some r1" and st: "st = st1\<lparr>ex_r := r1\<rparr>"
    by (auto simp: findSCC_def Option.bind_eq_Some_conv)
  have closed: "deps_closed r (executed r)"
    unfolding deps_closed_def
  proof
    fix u assume "u \<in> executed r"
    then have "all_deps r u \<subseteq> executed r" using ready by (simp add: exec_ready_def)
    with deps_on_all [OF ready, of u] show "deps_on r u \<subseteq> executed r" by blast
  qed
  have start: "sc_inv r (ex_start r)"
    using ready closed by (simp add: sc_inv_def ex_start_def exec_ready_def)
  have white: "idx r v = 0"
  proof -
    have "v \<notin> executed r" using com by (auto simp: committed_def executed_def)
    with ready show ?thesis by (auto simp: exec_ready_def)
  qed
  have inv1: "sc_inv r st1" and post1: "ok \<Longrightarrow> sc_post r v (ex_start r) st1"
    using strongconnect_ok [unfolded sc_spec_def, rule_format, OF sc start] com white
    by (auto simp: ex_start_def)
  note eff = reset_effect [OF reset]
  show "scc_batches_ok r (executed r) (ex_done st)" using inv1 by (simp add: sc_inv_def st)
  show exe: "executed (ex_r st) = executed r \<union> set (concat (ex_done st))" using inv1 eff by (simp add: sc_inv_def st)
  show "e_State (ex_r st) = fold ep_put (concat (map (cmds_of r) (concat (ex_done st)))) (e_State r)"
    using inv1 eff by (simp add: sc_inv_def st)
  show fr: "exec_frame r (ex_r st)" using inv1 eff by (auto simp: sc_inv_def st intro: exec_frame_trans)
  show "v \<in> executed (ex_r st)" if ok
    using post1 [OF that] eff by (auto simp: sc_post_def st ex_start_def low_seen_def split: if_splits)
  show "exec_ready (ex_r st)"
    unfolding exec_ready_def
  proof (intro conjI ballI allI impI)
    fix u assume u: "u \<in> executed (ex_r st)"
    then have "deps_on r u \<subseteq> executed (ex_r st)"
      using sc_inv_closed [OF inv1, of u] eff by (simp add: st)
    with all_deps_on [OF ready, of u] show "all_deps (ex_r st) u \<subseteq> executed (ex_r st)"
      unfolding exec_frame_all_deps [OF fr] using exe by blast
  next
    fix q assume "0 \<le> q \<and> q < e_N (ex_r st)"
    with ready obtain e where "slice_get (e_ExecedUpTo r) q = Some e" "- 1 \<le> e"
      "\<forall>i. 0 \<le> i \<and> i \<le> e \<longrightarrow> (q, i) \<in> executed r"
      unfolding exec_ready_def by (auto simp: exec_frame_env [OF fr])
    with exe show "\<exists>e. slice_get (e_ExecedUpTo (ex_r st)) q = Some e \<and> - 1 \<le> e \<and>
        (\<forall>i. 0 \<le> i \<and> i \<le> e \<longrightarrow> (q, i) \<in> executed (ex_r st))"
      by (simp add: exec_frame_env [OF fr])
  next
    fix u assume u: "idx (ex_r st) u \<noteq> 0"
    have on: "idx (ex_r st1) u \<noteq> 0 \<longrightarrow> u \<in> set (ex_stack st1) \<or> u \<in> executed (ex_r st1)"
      using inv1 unfolding sc_inv_def by blast
    from u eff have "idx (ex_r st1) u \<noteq> 0" "u \<notin> set (ex_stack st1)" by (auto simp: st split: if_splits)
    with on eff show "u \<in> executed (ex_r st)" by (simp add: st)
  qed
qed

subsection \<open>The search ends\<close>

text \<open>Instances within the arrays, with a dependency on every row, and commands that execution returns from.\<close>

definition exec_wf :: "ep \<Rightarrow> bool" where
  "exec_wf r \<longleftrightarrow>
     (\<forall>v x. inst_of r v = Some x \<longrightarrow> in_space r (fst v) (snd v) \<and> list_all scan_in_range (elems (x_Cmds x)) \<and>
        (x_Status x = S_COMMITTED \<longrightarrow> (\<forall>q. 0 \<le> q \<and> q < e_N r \<longrightarrow>
           (\<exists>d. slice_get (ref_vals r (x_Deps x)) q = Some d \<and> d < MAX_INSTANCE)))) \<and>
     (\<forall>q. 0 \<le> q \<and> q < e_N r \<longrightarrow> (\<exists>e. slice_get (e_ExecedUpTo r) q = Some e \<and> - 1 \<le> e))"

text \<open>Everything an instance depends on, directly or not, is committed.\<close>

definition all_committed :: "ep \<Rightarrow> inst_id \<Rightarrow> bool" where
  "all_committed r v \<longleftrightarrow>
     (\<forall>w. (v, w) \<in> (dep_rel r)\<^sup>* \<longrightarrow> (\<exists>x. inst_of r w = Some x \<and> x_Cmds x \<noteq> None \<and>
        (x_Status x = S_COMMITTED \<or> x_Status x = S_EXECUTED)))"

definition white :: "ep \<Rightarrow> inst_id set" where
  "white r = {v. inst_of r v \<noteq> None \<and> idx r v = 0}"

lemma exec_wf_deps:
  "exec_wf r \<Longrightarrow> inst_of r v = Some x \<Longrightarrow> x_Status x = S_COMMITTED \<Longrightarrow> 0 \<le> q \<Longrightarrow> q < e_N r \<Longrightarrow>
     \<exists>d. slice_get (ref_vals r (x_Deps x)) q = Some d \<and> d < MAX_INSTANCE"
  by (simp add: exec_wf_def)

lemma exec_wf_upTo: "exec_wf r \<Longrightarrow> 0 \<le> q \<Longrightarrow> q < e_N r \<Longrightarrow> \<exists>e. slice_get (e_ExecedUpTo r) q = Some e \<and> - 1 \<le> e"
  by (simp add: exec_wf_def)

lemma finite_white: "finite (white r)"
  by (rule finite_subset [of _ "dom (map_of (e_InstanceSpace r))"]) (auto simp: white_def finite_dom_map_of)

lemma card_white: "card (white r) \<le> length (e_InstanceSpace r)"
proof -
  have "white r \<subseteq> set (map fst (e_InstanceSpace r))"
    by (auto simp: white_def dest!: map_of_SomeD) (metis fst_conv image_eqI)
  from card_mono [OF _ this] card_length [of "map fst (e_InstanceSpace r)"] show ?thesis by simp
qed

lemma exec_frame_wf:
  assumes "exec_frame r r'" and "exec_wf r"
  shows "exec_wf r'"
proof -
  have same: "in_space r' q i = in_space r q i" for q i by (simp add: in_space_def exec_frame_env [OF assms(1)])
  have insts: "in_space r' (fst v) (snd v) \<and> list_all scan_in_range (elems (x_Cmds y)) \<and>
      (x_Status y = S_COMMITTED \<longrightarrow> (\<forall>q. 0 \<le> q \<and> q < e_N r' \<longrightarrow>
           (\<exists>d. slice_get (ref_vals r' (x_Deps y)) q = Some d \<and> d < MAX_INSTANCE)))"
    if "inst_of r' v = Some y" for v y
  proof -
    from exec_frame_inst(2) [OF assms(1) that] obtain x where "inst_of r v = Some x" "same_inst x y" by blast
    with assms(2) show ?thesis by (auto simp: exec_wf_def same exec_frame_env [OF assms(1)] same_inst_def)
  qed
  with assms(2) show ?thesis unfolding exec_wf_def by (simp add: exec_frame_env [OF assms(1)])
qed

lemma on_slot_total:
  assumes "exec_wf r" and "inst_of r v = Some x"
  shows "\<exists>r'. on_slot v f r = Some r'"
  using assms by (auto simp: on_slot_Some exec_wf_def)

lemma ex_node_total: "exec_wf (ex_r st) \<Longrightarrow> inst_of (ex_r st) v = Some x \<Longrightarrow> ex_node v st = Some x"
  by (auto simp: ex_node_Some exec_wf_def)

lemma transconf_total:
  assumes "list_all scan_in_range as" and "list_all scan_in_range bs"
  shows "transconf_check as bs = Some ()"
proof -
  have "transconf_row a bs = Some ()" if "scan_in_range a" for a
    using assms(2) that
    by (induction bs) (auto simp: Conflict_def scan_in_range_def Option.bind_eq_Some_conv split: option.splits)
  then show ?thesis using assms(1) by (induction as) auto
qed

lemma exec_commands_total: "list_all scan_in_range cs \<Longrightarrow> exec_commands x k cs st \<noteq> None"
proof (induction cs arbitrary: k st)
  case (Cons c cs)
  then obtain v s where "Execute c (e_State (ex_r st)) = Some (v, s)"
    using Execute_returns [of c "e_State (ex_r st)"] by auto
  then have "exec_command x k c st \<noteq> None"
    by (auto simp: exec_command_def split: option.splits)
  with Cons show ?case by (auto simp: Option.bind_eq_Some_conv)
qed simp

lemma exec_batch_total:
  "exec_wf (ex_r st) \<Longrightarrow> \<forall>(v, x)\<in>set ws. (\<exists>y. inst_of (ex_r st) v = Some y) \<and> list_all scan_in_range (elems (x_Cmds x)) \<Longrightarrow>
     exec_batch ws st \<noteq> None"
proof (induction ws arbitrary: st)
  case (Cons w ws)
  obtain v x where w: "w = (v, x)" by (cases w)
  from Cons.prems obtain y where y: "inst_of (ex_r st) v = Some y" and cs: "list_all scan_in_range (elems (x_Cmds x))"
    by (auto simp: w)
  from exec_commands_total [OF cs, of x 0 st] obtain st1 where 1: "exec_commands x 0 (elems (x_Cmds x)) st = Some st1" by auto
  from exec_commands_put [OF 1] obtain outs where
    st1: "st1 = st\<lparr>ex_r := (ex_r st)\<lparr>e_State := fold ep_put (elems (x_Cmds x)) (e_State (ex_r st))\<rparr>, ex_outs := outs\<rparr>"
    by blast
  have wf1: "exec_wf (ex_r st1)" using Cons.prems(1) by (simp add: st1 exec_wf_def)
  from on_slot_total [OF wf1, of v y] y obtain r2
    where r2: "on_slot v (\<lambda>x. x\<lparr>x_Status := S_EXECUTED\<rparr>) (ex_r st1) = Some r2" by (auto simp: st1)
  note inst2 = on_slot_inst [OF r2]
  have wf2: "exec_wf r2"
  proof -
    from r2 have "e_N r2 = e_N (ex_r st1)" "e_ExecedUpTo r2 = e_ExecedUpTo (ex_r st1)" "ref_vals r2 = ref_vals (ex_r st1)"
      "in_space r2 = in_space (ex_r st1)"
      by (auto simp: on_slot_Some)
    with wf1 inst2 show ?thesis unfolding exec_wf_def by (auto split: if_splits)
  qed
  have "\<forall>(v', x)\<in>set ws. (\<exists>y. inst_of r2 v' = Some y) \<and> list_all scan_in_range (elems (x_Cmds x))"
    using Cons.prems(2) y by (auto simp: inst2 st1)
  with Cons.IH [of "st1\<lparr>ex_r := r2\<rparr>"] wf2 1 r2 show ?case by (simp add: w ex_slot_def)
qed simp

lemma nodes_of_total:
  "exec_wf (ex_r st) \<Longrightarrow> \<forall>v\<in>set vs. inst_of (ex_r st) v \<noteq> None \<Longrightarrow> nodes_of vs st \<noteq> None"
  by (induction vs) (auto dest: ex_node_total)

lemma pop_total:
  assumes wf: "exec_wf (ex_r st)" and insts: "\<forall>v\<in>set (ex_stack st). inst_of (ex_r st) v \<noteq> None"
  shows "pop_component l st \<noteq> None"
proof -
  have "\<forall>v\<in>set (drop l (ex_stack st)). inst_of (ex_r st) v \<noteq> None" using insts by (auto dest: in_set_dropD)
  from nodes_of_total [OF wf this] obtain ws where ws: "nodes_of (drop l (ex_stack st)) st = Some ws" by auto
  from nodes_of_Some [OF ws] have "\<forall>(v, x)\<in>set ws. inst_of (ex_r st) v = Some x" by blast
  moreover have "set (SortInstances ws) = set ws" by (metis SortInstances_sorted(1) set_mset_mset)
  ultimately have "\<forall>(v, x)\<in>set (SortInstances ws). (\<exists>y. inst_of (ex_r st) v = Some y) \<and> list_all scan_in_range (elems (x_Cmds x))"
    using wf by (auto simp: exec_wf_def)
  from exec_batch_total [OF wf this] ws show ?thesis by (auto simp: pop_component_def)
qed

definition sc_total :: "ep \<Rightarrow> nat \<Rightarrow> (inst_id \<Rightarrow> ex \<Rightarrow> (bool \<times> ex) option) \<Rightarrow> bool" where
  "sc_total r0 n sc \<longleftrightarrow>
     (\<forall>v st. sc_inv r0 st \<longrightarrow> committed (ex_r st) v \<longrightarrow> idx (ex_r st) v = 0 \<longrightarrow> card (white (ex_r st)) \<le> n \<longrightarrow>
        (\<exists>ok st'. sc v st = Some (ok, st') \<and> white (ex_r st') \<subseteq> white (ex_r st) \<and> (all_committed r0 v \<longrightarrow> ok)))"

lemma all_committed_step: "all_committed r v \<Longrightarrow> w \<in> deps_on r v \<Longrightarrow> all_committed r w"
proof -
  assume v: "all_committed r v" and w: "w \<in> deps_on r v"
  have "(v, w) \<in> dep_rel r" using w by (simp add: dep_rel_def)
  from converse_rtrancl_into_rtrancl [OF this] v show "all_committed r w" unfolding all_committed_def by blast
qed

lemma white_lower:
  assumes "lower_link v k st = Some st'"
  shows "white (ex_r st') = white (ex_r st)"
proof -
  from lower_link_effect [OF assms] obtain r' where "st' = st\<lparr>ex_r := r'\<rparr>" "exec_frame (ex_r st) r'" "idx r' = idx (ex_r st)"
    by blast
  then show ?thesis by (simp add: white_def exec_frame_inst(3) [of "ex_r st" r'])
qed

lemma sc_row_total:
  assumes spec: "sc_spec r0 sc" and total: "sc_total r0 n sc" and wf: "exec_wf r0"
    and "loop_inv r0 S v D st0 st" and "\<forall>i\<in>set is. (q, i) \<in> deps_on r0 v" and "card (white (ex_r st)) \<le> n"
  shows "\<exists>ok st'. sc_row sc v q is st = Some (ok, st') \<and> white (ex_r st') \<subseteq> white (ex_r st) \<and> (all_committed r0 v \<longrightarrow> ok)"
  using assms(4-)
proof (induction "is" arbitrary: st D)
  case Nil
  then show ?case by auto
next
  case (Cons i "is")
  let ?w = "(q, i)"
  have dep: "?w \<in> deps_on r0 v" and rest: "\<forall>i\<in>set is. (q, i) \<in> deps_on r0 v" using Cons.prems(2) by simp_all
  have edge: "(v, ?w) \<in> dep_rel r0" using dep by (simp add: dep_rel_def)
  have sc: "sc_inv r0 st" and v_on: "v \<in> set (ex_stack st)" using Cons.prems(1) by (auto simp: loop_inv_def)
  have fr: "exec_frame r0 (ex_r st)" using sc by (simp add: sc_inv_def)
  have wf': "exec_wf (ex_r st)" by (rule exec_frame_wf [OF fr wf])
  from sc v_on obtain x where x: "inst_of (ex_r st) v = Some x" by (auto simp: sc_inv_def committed_def)
  have node_v: "ex_node v st = Some x" by (rule ex_node_total [OF wf' x])
  have space: "in_space (ex_r st) q i"
  proof -
    from dep obtain x0 d e where x0: "inst_of r0 v = Some x0" and q: "0 \<le> q" "q < e_N r0"
      and d: "slice_get (ref_vals r0 (x_Deps x0)) q = Some d" and e: "slice_get (e_ExecedUpTo r0) q = Some e" "e < i" "i \<le> d"
      unfolding deps_on_def by blast
    have "x_Status x0 = S_COMMITTED"
      using frame_committed [OF fr, of v] sc v_on x0 by (auto simp: sc_inv_def committed_def)
    with wf x0 q d have "d < MAX_INSTANCE" unfolding exec_wf_def by fastforce
    moreover from wf q e(1) have "- 1 \<le> e" unfolding exec_wf_def by force
    ultimately show ?thesis using q e by (simp add: in_space_def exec_frame_env [OF fr])
  qed
  have lower: "\<exists>st2. lower_link v k st1 = Some st2" if "sc_inv r0 st1" "v \<in> set (ex_stack st1)" for k st1
  proof -
    have fr1: "exec_frame r0 (ex_r st1)" using that by (simp add: sc_inv_def)
    from that obtain y where "inst_of (ex_r st1) v = Some y" by (auto simp: sc_inv_def committed_def)
    from on_slot_total [OF exec_frame_wf [OF fr1 wf] this] show ?thesis
      by (auto simp: lower_link_def ex_slot_Some)
  qed
  have IH: "\<exists>ok st'. sc_row sc v q is st2 = Some (ok, st') \<and> white (ex_r st') \<subseteq> white (ex_r st) \<and> (all_committed r0 v \<longrightarrow> ok)"
    if "loop_inv r0 S v (insert ?w D) st0 st2" "white (ex_r st2) \<subseteq> white (ex_r st)" for st2
    using Cons.IH [OF that(1) rest] card_mono [OF finite_white that(2)] Cons.prems(3) that(2) by fastforce
  show ?case
  proof (cases "inst_of (ex_r st) ?w")
    case None
    have "\<not> all_committed r0 v"
      using None exec_frame_inst(3) [OF fr, of ?w] edge unfolding all_committed_def by (metis option.distinct(1) r_into_rtrancl)
    with None space show ?thesis by (auto simp: slot_get_def)
  next
    case (Some y)
    have trans: "transconf_check (elems (x_Cmds x)) (elems (x_Cmds y)) = Some ()"
      using wf' x Some by (auto simp: exec_wf_def intro!: transconf_total)
    have good: "x_Cmds y \<noteq> None \<and> (x_Status y = S_COMMITTED \<or> x_Status y = S_EXECUTED)" if "all_committed r0 v"
    proof -
      from that edge obtain z where "inst_of r0 ?w = Some z" "x_Cmds z \<noteq> None" "x_Status z = S_COMMITTED \<or> x_Status z = S_EXECUTED"
        unfolding all_committed_def by blast
      with exec_frame_inst(1) [OF fr, of ?w z] Some show ?thesis by (auto simp: same_inst_def)
    qed
    consider (bad) "x_Cmds y = None \<or> x_Status y \<noteq> S_EXECUTED \<and> x_Status y \<noteq> S_COMMITTED"
      | (old) cs where "x_Cmds y = Some cs" "x_Status y = S_EXECUTED"
      | (fresh) cs where "x_Cmds y = Some cs" "x_Status y = S_COMMITTED" "x_Index y = 0"
      | (grey) cs where "x_Cmds y = Some cs" "x_Status y = S_COMMITTED" "x_Index y \<noteq> 0"
      by (cases "x_Cmds y"; cases "x_Status y = S_EXECUTED"; cases "x_Status y = S_COMMITTED"; cases "x_Index y = 0") simp_all
    then show ?thesis
    proof cases
      case bad
      then have "sc_row sc v q (i # is) st = Some (False, st)"
        using Some space node_v trans by (cases "x_Cmds y = None") (simp_all add: slot_get_def)
      moreover from bad good have "\<not> all_committed r0 v" by blast
      ultimately show ?thesis by blast
    next
      case old
      with Some have "?w \<in> executed (ex_r st)" by (simp add: executed_def)
      note this = IH [OF loop_executed [OF Cons.prems(1) this] subset_refl]
      moreover have "sc_row sc v q (i # is) st = sc_row sc v q is st"
        using old Some space node_v trans by (simp add: slot_get_def)
      ultimately show ?thesis by (simp only:)
    next
      case fresh
      have pre: "committed (ex_r st) ?w" "idx (ex_r st) ?w = 0"
        using fresh Some by (simp_all add: committed_def idx_def)
      from total sc pre Cons.prems(3) obtain ok1 st1 where call: "sc ?w st = Some (ok1, st1)"
        and white1: "white (ex_r st1) \<subseteq> white (ex_r st)" and ok1: "all_committed r0 ?w \<longrightarrow> ok1"
        unfolding sc_total_def by blast
      from spec call sc pre have post: "sc_inv r0 st1" "ok1 \<Longrightarrow> sc_post r0 ?w st st1"
        unfolding sc_spec_def by blast+
      show ?thesis
      proof (cases ok1)
        case False
        with ok1 all_committed_step [OF _ dep] have "\<not> all_committed r0 v" by blast
        moreover have "sc_row sc v q (i # is) st = Some (False, st1)"
          using False call fresh Some space node_v trans by (simp add: slot_get_def)
        ultimately show ?thesis using white1 by blast
      next
        case True
        with post(2) have v1: "v \<in> set (ex_stack st1)" using v_on by (auto simp: sc_post_def)
        from lower [OF post(1) v1] obtain st2 where low: "lower_link v (low (ex_r st1) ?w) st1 = Some st2" by blast
        have fr1: "exec_frame r0 (ex_r st1)" using post(1) by (simp add: sc_inv_def)
        obtain z where z: "inst_of (ex_r st1) ?w = Some z"
          using exec_frame_inst(3) [OF fr, of ?w] exec_frame_inst(3) [OF fr1, of ?w] Some by auto
        then have "x_Lowlink z = low (ex_r st1) ?w" by (simp add: low_def)
        moreover have "ex_node ?w st1 = Some z" by (rule ex_node_total [OF exec_frame_wf [OF fr1 wf] z])
        ultimately have "sc_row sc v q (i # is) st = sc_row sc v q is st2"
          using True low call fresh Some space node_v trans by (simp add: slot_get_def)
        moreover have "white (ex_r st2) \<subseteq> white (ex_r st)" using white_lower [OF low] white1 by simp
        note IH [OF loop_child [OF Cons.prems(1) edge pre(2) post(2) [OF True] low] this]
        ultimately show ?thesis by (simp only:)
      qed
    next
      case grey
      with Some have "idx (ex_r st) ?w \<noteq> 0" "?w \<notin> executed (ex_r st)"
        by (simp_all add: idx_def executed_def)
      with sc have on: "?w \<in> set (ex_stack st)" unfolding sc_inv_def by blast
      from lower [OF sc v_on] obtain st2 where low: "lower_link v (idx (ex_r st) ?w) st = Some st2" by blast
      have "x_Index y = idx (ex_r st) ?w" using Some by (simp add: idx_def)
      then have "sc_row sc v q (i # is) st = sc_row sc v q is st2"
        using low grey Some space node_v trans on by (simp add: slot_get_def inStack_def)
      moreover have "white (ex_r st2) \<subseteq> white (ex_r st)" using white_lower [OF low] by simp
      note IH [OF loop_seen [OF Cons.prems(1) edge on low] this]
      ultimately show ?thesis by (simp only:)
    qed
  qed
qed

lemma sc_rows_total:
  assumes spec: "sc_spec r0 sc" and total: "sc_total r0 n sc" and wf: "exec_wf r0"
    and "loop_inv r0 S v D st0 st" and "\<forall>q\<in>set qs. 0 \<le> q \<and> q < e_N r0" and "card (white (ex_r st)) \<le> n"
  shows "\<exists>ok st'. sc_rows sc v qs st = Some (ok, st') \<and> white (ex_r st') \<subseteq> white (ex_r st) \<and> (all_committed r0 v \<longrightarrow> ok)"
  using assms(4-)
proof (induction qs arbitrary: st D)
  case Nil
  then show ?case by auto
next
  case (Cons q qs)
  have sc: "sc_inv r0 st" and v_on: "v \<in> set (ex_stack st)" using Cons.prems(1) by (auto simp: loop_inv_def)
  have fr: "exec_frame r0 (ex_r st)" using sc by (simp add: sc_inv_def)
  have q: "0 \<le> q" "q < e_N r0" using Cons.prems(2) by simp_all
  from sc v_on obtain x where x: "inst_of (ex_r st) v = Some x" "x_Status x = S_COMMITTED"
    by (auto simp: sc_inv_def committed_def)
  from exec_wf_deps [OF exec_frame_wf [OF fr wf] x q(1)] q(2)
  obtain d where d: "slice_get (ref_vals (ex_r st) (x_Deps x)) q = Some d"
    by (auto simp: exec_frame_env [OF fr])
  from exec_wf_upTo [OF wf q] obtain e where e: "slice_get (e_ExecedUpTo (ex_r st)) q = Some e"
    by (auto simp: exec_frame_env [OF fr])
  obtain x0 where "inst_of r0 v = Some x0" "x_Deps x0 = x_Deps x"
    using exec_frame_inst(2) [OF fr x(1)] by (auto simp: same_inst_def)
  then have deps: "\<forall>i\<in>set [e + 1..d]. (q, i) \<in> deps_on r0 v"
    using d e q by (auto simp: deps_on_def exec_frame_env [OF fr])
  from sc_row_total [OF spec total wf Cons.prems(1) deps Cons.prems(3)]
  obtain ok1 st1 where row: "sc_row sc v q [e + 1..d] st = Some (ok1, st1)"
    and white1: "white (ex_r st1) \<subseteq> white (ex_r st)" and ok1: "all_committed r0 v \<longrightarrow> ok1" by blast
  have node: "ex_node v st = Some x" by (rule ex_node_total [OF exec_frame_wf [OF fr wf] x(1)])
  show ?case
  proof (cases ok1)
    case False
    with ok1 white1 row node d e show ?thesis by auto
  next
    case True
    with sc_row_ok [OF spec row Cons.prems(1) deps] have inv1: "loop_inv r0 S v (D \<union> Pair q ` set [e + 1..d]) st0 st1"
      by (simp only: if_True)
    have "card (white (ex_r st1)) \<le> n" using card_mono [OF finite_white white1] Cons.prems(3) by simp
    from Cons.IH [OF inv1 _ this] Cons.prems(2) white1 True row node d e show ?thesis by fastforce
  qed
qed

declare strongconnect.simps(2) [simp del]

lemma strongconnect_total:
  assumes wf: "exec_wf r0"
  shows "sc_total r0 n (strongconnect (Suc n))"
proof (induction n)
  case 0
  have False if "committed (ex_r st) v" "idx (ex_r st) v = 0" "card (white (ex_r st)) = 0" for st v
  proof -
    from that have "v \<in> white (ex_r st)" by (auto simp: white_def committed_def)
    with that finite_white show False by auto
  qed
  then show ?case unfolding sc_total_def by (metis le_zero_eq)
next
  case (Suc n)
  have "\<exists>ok st'. strongconnect (Suc (Suc n)) v st = Some (ok, st') \<and> white (ex_r st') \<subseteq> white (ex_r st) \<and> (all_committed r0 v \<longrightarrow> ok)"
    if sc: "sc_inv r0 st" and com: "committed (ex_r st) v" and idx0: "idx (ex_r st) v = 0"
      and card: "card (white (ex_r st)) \<le> Suc n" for v st
  proof -
    have fr: "exec_frame r0 (ex_r st)" using sc by (simp add: sc_inv_def)
    have wf': "exec_wf (ex_r st)" by (rule exec_frame_wf [OF fr wf])
    from com obtain x where x: "inst_of (ex_r st) v = Some x" by (auto simp: committed_def)
    from on_slot_total [OF wf' x] obtain st1
      where slot: "ex_slot v (\<lambda>x. x\<lparr>x_Index := ex_index st, x_Lowlink := ex_index st\<rparr>) st = Some st1"
      using ex_slot_Some by blast
    note push = push_ok [OF sc com idx0 slot pushed_def]
    let ?p = "pushed v st1"
    have inv: "loop_inv r0 (ex_stack st) v {} ?p ?p" and stack1: "ex_stack st1 = ex_stack st"
      and idx_p: "idx (ex_r ?p) v = ex_index st" using push by blast+
    have sc_p: "sc_inv r0 ?p" using inv unfolding loop_inv_def by blast
    then have frp: "exec_frame r0 (ex_r ?p)" unfolding sc_inv_def by blast
    from slot have inst_p: "inst_of (ex_r ?p) w = (if w = v then map_option (\<lambda>x. x\<lparr>x_Index := ex_index st, x_Lowlink := ex_index st\<rparr>) (inst_of (ex_r st) v)
        else inst_of (ex_r st) w)" for w
      using on_slot_inst [of v _ "ex_r st" _ w] by (auto simp: ex_slot_Some pushed_def)
    have pos: "0 < ex_index st" using sc by (simp add: sc_inv_def)
    have white_p: "white (ex_r ?p) \<subseteq> white (ex_r st) - {v}"
      using pos by (auto simp: white_def idx_def inst_p split: option.splits if_splits)
    have "v \<in> white (ex_r st)" using x idx0 by (simp add: white_def)
    then have "card (white (ex_r st) - {v}) = card (white (ex_r st)) - 1" by (rule card_Diff_singleton)
    moreover have "card (white (ex_r ?p)) \<le> card (white (ex_r st) - {v})"
      using finite_white white_p by (intro card_mono) simp_all
    ultimately have card_p: "card (white (ex_r ?p)) \<le> n" using card by linarith
    obtain y where y: "inst_of (ex_r ?p) v = Some y" "x_Cmds y = x_Cmds x" using x by (simp add: inst_p)
    have node: "ex_node v ?p = Some y" by (rule ex_node_total [OF exec_frame_wf [OF frp wf] y(1)])
    show ?thesis
    proof (cases "x_Cmds y")
      case None
      note True = this
      obtain x0 where "inst_of r0 v = Some x0" "x_Cmds x0 = None"
        using exec_frame_inst(2) [OF fr x] True y by (auto simp: same_inst_def)
      then have "\<not> all_committed r0 v" unfolding all_committed_def by (metis option.sel rtrancl.rtrancl_refl)
      moreover have "strongconnect (Suc (Suc n)) v st = Some (False, ?p)"
        using True slot node by (simp add: strongconnect.simps(2) [of "Suc n"] Let_def pushed_def)
      ultimately show ?thesis using white_p by blast
    next
      case (Some cs)
      have qs: "\<forall>q\<in>set [0..e_N (ex_r ?p) - 1]. 0 \<le> q \<and> q < e_N r0" by (auto simp: exec_frame_env [OF frp])
      from sc_rows_total [OF strongconnect_ok Suc.IH wf inv qs card_p]
      obtain ok3 st3 where rows: "sc_rows (strongconnect (Suc n)) v [0..e_N (ex_r ?p) - 1] ?p = Some (ok3, st3)"
        and white3: "white (ex_r st3) \<subseteq> white (ex_r ?p)" and ok3: "all_committed r0 v \<longrightarrow> ok3" by blast
      show ?thesis
      proof (cases ok3)
        case False
        then have "strongconnect (Suc (Suc n)) v st = Some (False, st3)"
          using Some slot node rows by (simp add: strongconnect.simps(2) [of "Suc n"] Let_def pushed_def [symmetric])
        with False ok3 white3 white_p show ?thesis by blast
      next
        case True
        with sc_rows_ok [OF strongconnect_ok rows inv qs] have inv3: "loop_inv r0 (ex_stack st) v
          ({} \<union> {w \<in> deps_on r0 v. fst w \<in> set [0..e_N (ex_r ?p) - 1]}) ?p st3" by (simp only: if_True)
        then have sc3: "sc_inv r0 st3" and v3: "v \<in> set (ex_stack st3)" by (auto simp: loop_inv_def)
        have wf3: "exec_wf (ex_r st3)" using sc3 exec_frame_wf [OF _ wf] by (simp add: sc_inv_def)
        have insts: "\<forall>u\<in>set (ex_stack st3). inst_of (ex_r st3) u \<noteq> None"
          using sc3 unfolding sc_inv_def committed_def by blast
        from insts v3 obtain z where z: "inst_of (ex_r st3) v = Some z" by auto
        have node3: "ex_node v st3 = Some z" by (rule ex_node_total [OF wf3 z])
        show ?thesis
        proof (cases "x_Lowlink z = x_Index z")
          case False
          then have "strongconnect (Suc (Suc n)) v st = Some (True, st3)"
            using True Some slot node rows node3
            by (simp add: strongconnect.simps(2) [of "Suc n"] Let_def pushed_def [symmetric])
          with white3 white_p show ?thesis by blast
        next
          case low: True
          from pop_total [OF wf3 insts] obtain st4 where pop: "pop_component (length (ex_stack st1)) st3 = Some st4" by auto
          obtain C where "ex_stack st3 = ex_stack st @ C" using inv3 by (auto simp: loop_inv_def)
          from pop_effect [OF pop [unfolded stack1] this]
          have inst4: "\<forall>u. inst_of (ex_r st4) u = (if u \<in> set C then map_option (\<lambda>x. x\<lparr>x_Status := S_EXECUTED\<rparr>) (inst_of (ex_r st3) u)
            else inst_of (ex_r st3) u)" by blast
          have "u \<in> white (ex_r st4) \<longleftrightarrow> u \<in> white (ex_r st3)" for u
            using inst4 [rule_format, of u] by (cases "inst_of (ex_r st3) u") (auto simp: white_def idx_def)
          then have "white (ex_r st4) = white (ex_r st3)" by blast
          moreover have "strongconnect (Suc (Suc n)) v st = Some (True, st4)"
            using low True Some slot node rows node3 pop
            by (simp add: strongconnect.simps(2) [of "Suc n"] Let_def pushed_def [symmetric])
          ultimately show ?thesis using white3 white_p by blast
        qed
      qed
    qed
  qed
  then show ?case unfolding sc_total_def by blast
qed

text \<open>A call returns, and executes an instance all of whose dependencies are committed.\<close>

lemma findSCC_total:
  assumes wf: "exec_wf r" and ready: "exec_ready r" and com: "committed r v"
  shows "\<exists>ok st. findSCC v r = Some (ok, st) \<and> (all_committed r v \<longrightarrow> ok)"
proof -
  have closed: "deps_closed r (executed r)"
    using ready deps_on_all [OF ready] unfolding deps_closed_def exec_ready_def by blast
  have start: "sc_inv r (ex_start r)"
    using ready closed by (simp add: sc_inv_def ex_start_def exec_ready_def)
  have idx0: "idx r v = 0"
    using ready com by (auto simp: exec_ready_def committed_def executed_def)
  have "\<exists>ok st. strongconnect (Suc (length (e_InstanceSpace r))) v (ex_start r) = Some (ok, st) \<and>
      white (ex_r st) \<subseteq> white (ex_r (ex_start r)) \<and> (all_committed r v \<longrightarrow> ok)"
    using strongconnect_total [OF wf, unfolded sc_total_def, rule_format, OF start, of v "length (e_InstanceSpace r)"]
      com idx0 card_white [of r] by (simp add: ex_start_def)
  then obtain ok st where run: "strongconnect (Suc (length (e_InstanceSpace r))) v (ex_start r) = Some (ok, st)"
    and ok: "all_committed r v \<longrightarrow> ok"
    by blast
  have inv: "sc_inv r st"
    using strongconnect_ok [unfolded sc_spec_def, rule_format, OF run start] com idx0 by (simp add: ex_start_def)
  have "exec_wf r1 \<Longrightarrow> \<forall>u\<in>set vs. inst_of r1 u \<noteq> None \<Longrightarrow> reset_indexes vs r1 \<noteq> None" for vs r1
  proof (induction vs arbitrary: r1)
    case (Cons u vs)
    then obtain y where y: "inst_of r1 u = Some y" by auto
    from on_slot_total [OF Cons.prems(1) y] obtain r2 where r2: "on_slot u (\<lambda>x. x\<lparr>x_Index := 0\<rparr>) r1 = Some r2" by blast
    have "exec_frame r1 r2" by (rule on_slot_frame [OF r2]) (simp add: same_inst_def)
    from exec_frame_wf [OF this Cons.prems(1)] Cons.IH [of r2] Cons.prems(2) r2 on_slot_inst [OF r2]
    show ?case by auto
  qed simp
  moreover have "exec_wf (ex_r st)" using inv exec_frame_wf [OF _ wf] by (simp add: sc_inv_def)
  moreover have "\<forall>u\<in>set (ex_stack st). inst_of (ex_r st) u \<noteq> None"
    using inv unfolding sc_inv_def committed_def by blast
  ultimately obtain r1 where "reset_indexes (ex_stack st) (ex_r st) = Some r1" by blast
  with run ok show ?thesis by (simp add: findSCC_def)
qed

end
