(* ===== verification/EP_Exec_Props.thy ===== *)
theory EP_Exec_Props
  imports EP_Tarjan
begin

section \<open>What a pass of the EPaxos executor does\<close>

text \<open>
  A pass of the executor runs over the rows and calls \<open>executeCommand\<close> for the instances it has not passed.
  \<open>pass_post\<close> states what it leaves, and composes: the components executed, in an order in which each comes
  after all that it depends on, the store after their writes, and \<open>exec_ready\<close>, from which the next pass
  starts.
\<close>

subsection \<open>A pass of the executor\<close>

text \<open>A component, in terms of all dependencies: the executor may pass further instances in between.\<close>

definition component_ok :: "ep \<Rightarrow> inst_id set \<Rightarrow> inst_id list \<Rightarrow> bool" where
  "component_ok r E B \<longleftrightarrow>
     distinct B \<and> set B \<inter> E = {} \<and>
     (\<forall>v\<in>set B. committed r v \<and> all_deps r v \<subseteq> E \<union> set B) \<and>
     (\<forall>a\<in>set B. \<forall>b\<in>set B. (a, b) \<in> {(v, w). w \<in> all_deps r v}\<^sup>*) \<and>
     sorted_wrt (\<lambda>a b. \<not> node_less (b, the (inst_of r b)) (a, the (inst_of r a))) B"

fun components_ok :: "ep \<Rightarrow> inst_id set \<Rightarrow> inst_id list list \<Rightarrow> bool" where
  "components_ok r E [] \<longleftrightarrow> True"
| "components_ok r E (B # Bs) \<longleftrightarrow> component_ok r E B \<and> components_ok r (E \<union> set B) Bs"

lemma components_ok_append:
  "components_ok r E (As @ Bs) \<longleftrightarrow> components_ok r E As \<and> components_ok r (E \<union> set (concat As)) Bs"
  by (induction As arbitrary: E) (auto simp: Un_assoc)

lemma batches_components:
  "scc_batches_ok r E Bs \<Longrightarrow> exec_ready r \<Longrightarrow> executed r \<subseteq> E \<Longrightarrow> components_ok r E Bs"
proof (induction Bs arbitrary: E)
  case (Cons B Bs)
  have "dep_rel r \<subseteq> {(v, w). w \<in> all_deps r v}" using deps_on_all [OF Cons.prems(2)] by (auto simp: dep_rel_def)
  then have mono: "(dep_rel r)\<^sup>* \<subseteq> {(v, w). w \<in> all_deps r v}\<^sup>*" by (rule rtrancl_mono)
  have deps: "all_deps r v \<subseteq> E \<union> set B" if "v \<in> set B" for v
  proof -
    have "deps_on r v \<subseteq> E \<union> set B" using Cons.prems(1) that by (simp add: scc_batch_ok_def)
    with all_deps_on [OF Cons.prems(2), of v] Cons.prems(3) show ?thesis by blast
  qed
  have "scc_batch_ok r E B" using Cons.prems(1) by simp
  then have "component_ok r E B" using mono deps unfolding scc_batch_ok_def component_ok_def by blast
  with Cons show ?case by auto
qed simp

definition pass_frame :: "ep \<Rightarrow> ep \<Rightarrow> bool" where
  "pass_frame r r' \<longleftrightarrow> e_N r' = e_N r \<and> e_Heap r' = e_Heap r \<and> e_crtInstance r' = e_crtInstance r \<and>
     (\<forall>v. rel_option same_inst (inst_of r v) (inst_of r' v))"

lemma pass_frame_refl [simp]: "pass_frame r r"
  by (simp add: pass_frame_def option.rel_refl)

lemma exec_frame_pass: "exec_frame r r' \<Longrightarrow> pass_frame r r'"
  by (auto simp: exec_frame_def pass_frame_def)

lemma pass_frame_trans:
  assumes "pass_frame r r'" and "pass_frame r' r''"
  shows "pass_frame r r''"
proof -
  have "rel_option same_inst (inst_of r v) (inst_of r'' v)" for v
    using assms unfolding pass_frame_def
    by (auto simp: option_rel_Some1 option_rel_Some2 elim!: option.rel_cases dest!: spec [of _ v] intro: same_inst_trans)
  with assms show ?thesis unfolding pass_frame_def by simp
qed

lemma pass_frame_cases:
  assumes "pass_frame r r'"
  obtains "inst_of r v = None" and "inst_of r' v = None"
  | x y where "inst_of r v = Some x" and "inst_of r' v = Some y" and "same_inst x y"
proof -
  have "rel_option same_inst (inst_of r v) (inst_of r' v)" using assms by (simp add: pass_frame_def)
  with that show thesis by (cases "inst_of r v"; cases "inst_of r' v") auto
qed

lemma pass_frame_deps:
  assumes "pass_frame r r'"
  shows "all_deps r' v = all_deps r v" and "cmds_of r' v = cmds_of r v" and "committed r' v \<Longrightarrow> committed r v"
proof -
  have "e_N r' = e_N r" "ref_vals r' = ref_vals r"
    using assms by (auto simp: pass_frame_def fun_eq_iff ref_vals_def split: option.splits)
  with assms show "all_deps r' v = all_deps r v" "cmds_of r' v = cmds_of r v" "committed r' v \<Longrightarrow> committed r v"
    by (cases rule: pass_frame_cases [where v = v]; auto simp: all_deps_def cmds_of_def committed_def same_inst_def)+
qed

lemma pass_frame_less:
  assumes "pass_frame r r'" and "committed r a" and "committed r b"
  shows "node_less (a, the (inst_of r' a)) (b, the (inst_of r' b)) \<longleftrightarrow>
    node_less (a, the (inst_of r a)) (b, the (inst_of r b))"
  using assms(2,3)
  by (cases rule: pass_frame_cases [OF assms(1), where v = a];
      cases rule: pass_frame_cases [OF assms(1), where v = b])
    (auto simp: node_less_def same_inst_def committed_def)

lemma pass_frame_component:
  assumes "pass_frame r r'" and "component_ok r' E B"
  shows "component_ok r E B"
proof -
  note fr = pass_frame_deps [OF assms(1)]
  have com: "committed r v" if "v \<in> set B" for v using assms(2) fr(3) that by (simp add: component_ok_def)
  have "sorted_wrt (\<lambda>a b. \<not> node_less (b, the (inst_of r' b)) (a, the (inst_of r' a))) B"
    using assms(2) by (simp add: component_ok_def)
  then have "sorted_wrt (\<lambda>a b. \<not> node_less (b, the (inst_of r b)) (a, the (inst_of r a))) B"
    by (rule sorted_wrt_mono_rel [rotated]) (use pass_frame_less [OF assms(1)] com in blast)
  with assms(2) com show ?thesis by (simp add: component_ok_def fr(1))
qed

lemma pass_frame_components: "pass_frame r r' \<Longrightarrow> components_ok r' E Bs \<Longrightarrow> components_ok r E Bs"
  by (induction Bs arbitrary: E) (auto dest: pass_frame_component)

definition pass_post :: "ep \<Rightarrow> ep \<Rightarrow> bool" where
  "pass_post r r' \<longleftrightarrow> pass_frame r r' \<and> exec_ready r' \<and>
     (\<exists>Bs. components_ok r (executed r) Bs \<and> executed r' = executed r \<union> set (concat Bs) \<and>
        e_State r' = fold ep_put (concat (map (cmds_of r) (concat Bs))) (e_State r))"

lemma pass_post_same:
  "exec_ready r' \<Longrightarrow> e_N r' = e_N r \<Longrightarrow> e_Heap r' = e_Heap r \<Longrightarrow> e_InstanceSpace r' = e_InstanceSpace r \<Longrightarrow>
     e_State r' = e_State r \<Longrightarrow> e_crtInstance r' = e_crtInstance r \<Longrightarrow> pass_post r r'"
  unfolding pass_post_def
  by (auto simp: pass_frame_def option.rel_refl executed_def intro!: exI [of _ "[]"])

lemma pass_post_trans:
  assumes "pass_post r r1" and "pass_post r1 r2"
  shows "pass_post r r2"
proof -
  from assms obtain As Bs where fr: "pass_frame r r1" "pass_frame r1 r2" and ready: "exec_ready r2"
    and A: "components_ok r (executed r) As" "executed r1 = executed r \<union> set (concat As)"
      "e_State r1 = fold ep_put (concat (map (cmds_of r) (concat As))) (e_State r)"
    and B: "components_ok r1 (executed r1) Bs" "executed r2 = executed r1 \<union> set (concat Bs)"
      "e_State r2 = fold ep_put (concat (map (cmds_of r1) (concat Bs))) (e_State r1)"
    unfolding pass_post_def by blast
  have "components_ok r (executed r) (As @ Bs)"
    using A pass_frame_components [OF fr(1) B(1)] by (simp add: components_ok_append)
  moreover have "cmds_of r1 = cmds_of r" using pass_frame_deps(2) [OF fr(1)] by (simp add: fun_eq_iff)
  then have "e_State r2 = fold ep_put (concat (map (cmds_of r) (concat (As @ Bs)))) (e_State r)"
    using A B by simp
  ultimately show ?thesis
    unfolding pass_post_def using pass_frame_trans [OF fr] ready A B
    by (intro conjI exI [of _ "As @ Bs"]) auto
qed

lemma executeCommand_post:
  assumes ready: "exec_ready r" and run: "executeCommand q i r = Some (ok, r', outs)"
  shows "pass_post r r' \<and> (ok \<longrightarrow> (q, i) \<in> executed r')"
proof -
  from run have space: "in_space r q i" by (auto simp: executeCommand_def Option.bind_eq_Some_conv slot_get_Some)
  consider (none) "inst_of r (q, i) = None" | (old) x where "inst_of r (q, i) = Some x" "x_Status x = S_EXECUTED"
    | (com) x where "inst_of r (q, i) = Some x" "x_Status x = S_COMMITTED"
    | (other) x where "inst_of r (q, i) = Some x" "x_Status x \<noteq> S_EXECUTED" "x_Status x \<noteq> S_COMMITTED"
    by (cases "inst_of r (q, i)") auto
  then show ?thesis
  proof cases
    case com
    with run space obtain st where scc: "findSCC (q, i) r = Some (ok, st)" and r': "r' = ex_r st"
      by (auto simp: executeCommand_def slot_get_def Option.bind_eq_Some_conv)
    have "committed r (q, i)" using com by (simp add: committed_def)
    note res = findSCC_components [OF ready this scc]
    from batches_components [OF res(1) ready subset_refl] res show ?thesis
      unfolding pass_post_def r' by (blast intro: exec_frame_pass)
  qed (use run space ready in \<open>auto simp: executeCommand_def slot_get_def executed_def intro: pass_post_same\<close>)
qed

lemma advance_post:
  assumes ready: "exec_ready r" and exe: "(q, i) \<in> executed r" and run: "advance_executed q i r = Some r'"
  shows "pass_post r r'"
proof -
  from run obtain e where e: "slice_get (e_ExecedUpTo r) q = Some e"
    by (cases "slice_get (e_ExecedUpTo r) q") (simp_all add: advance_executed_def)
  with run have cont: "if i = e + 1 then \<exists>es. slice_set (e_ExecedUpTo r) q i = Some es \<and> r' = r\<lparr>e_ExecedUpTo := es\<rparr> else r' = r"
    by (cases "i = e + 1"; cases "slice_set (e_ExecedUpTo r) q i") (simp_all add: advance_executed_def)
  show ?thesis
  proof (cases "i = e + 1")
    case False
    with cont ready show ?thesis by (auto intro: pass_post_same)
  next
    case True
    with cont obtain es where es: "slice_set (e_ExecedUpTo r) q i = Some es" and r': "r' = r\<lparr>e_ExecedUpTo := es\<rparr>" by auto
    have same: "executed r' = executed r" "idx r' = idx r" "all_deps r' = all_deps r" "e_N r' = e_N r"
      by (simp_all add: r' executed_def idx_def all_deps_def fun_eq_iff)
    have rows: "\<exists>e. slice_get es p = Some e \<and> - 1 \<le> e \<and> (\<forall>j. 0 \<le> j \<and> j \<le> e \<longrightarrow> (p, j) \<in> executed r)"
      if p: "0 \<le> p" "p < e_N r" for p
    proof -
      from ready p obtain f where f: "slice_get (e_ExecedUpTo r) p = Some f" "- 1 \<le> f"
        "\<forall>j. 0 \<le> j \<and> j \<le> f \<longrightarrow> (p, j) \<in> executed r" unfolding exec_ready_def by blast
      show ?thesis
      proof (cases "p = q")
        case False
        with f slice_get_set_other [OF es, of p] show ?thesis by auto
      next
        case eq: True
        have "(p, j) \<in> executed r" if "0 \<le> j" "j \<le> i" for j
          using that f e eq True exe by (cases "j = i") auto
        with slice_get_set_same [OF es] eq f e True show ?thesis by auto
      qed
    qed
    have "exec_ready r'"
      using ready rows unfolding exec_ready_def same by (simp add: r')
    then show ?thesis by (rule pass_post_same) (simp_all add: r')
  qed
qed

lemma ready_cong:
  assumes "e_N r' = e_N r" and "e_Heap r' = e_Heap r" and "e_InstanceSpace r' = e_InstanceSpace r"
    and "e_ExecedUpTo r' = e_ExecedUpTo r"
  shows "exec_ready r' \<longleftrightarrow> exec_ready r"
proof -
  have "executed r' = executed r" "idx r' = idx r" "ref_vals r' = ref_vals r"
    using assms by (auto simp: executed_def idx_def fun_eq_iff ref_vals_def split: option.splits)
  moreover from this have "all_deps r' = all_deps r" using assms by (simp add: all_deps_def fun_eq_iff)
  ultimately show ?thesis using assms by (simp add: exec_ready_def)
qed

lemma note_problem_post:
  assumes "exec_ready r" and "note_problem q i r = Some r'"
  shows "pass_post r r'"
proof -
  have same: "e_N r' = e_N r" "e_Heap r' = e_Heap r" "e_InstanceSpace r' = e_InstanceSpace r"
    "e_ExecedUpTo r' = e_ExecedUpTo r" "e_State r' = e_State r" "e_crtInstance r' = e_crtInstance r"
    using assms(2) unfolding note_problem_def Let_def
    by (auto split: Option.bind_split_asm if_split_asm)
  from ready_cong [OF same(1-4)] assms(1) same show ?thesis by (intro pass_post_same) simp_all
qed

subsection \<open>The rows\<close>

lemma exec_row_post:
  "exec_ready r \<Longrightarrow> exec_row q is r = Some (r', outs) \<Longrightarrow> pass_post r r'"
proof (induction "is" arbitrary: r outs)
  case Nil
  then show ?case by (simp add: pass_post_same)
next
  case (Cons i "is")
  from Cons.prems(2) obtain slot where slot: "slot_get r q i = Some slot"
    by (cases "slot_get r q i") simp_all
  then have sl: "slot = inst_of r (q, i)" by (simp add: slot_get_Some)
  consider (exe) x where "slot = Some x" "x_Status x = S_EXECUTED"
    | (wait) "case slot of Some x \<Rightarrow> x_Status x < S_COMMITTED \<or> x_Cmds x = None | None \<Rightarrow> True"
        "\<not> (case slot of Some x \<Rightarrow> x_Status x = S_EXECUTED | None \<Rightarrow> False)"
    | (run) "\<not> (case slot of Some x \<Rightarrow> x_Status x < S_COMMITTED \<or> x_Cmds x = None | None \<Rightarrow> True)"
        "\<not> (case slot of Some x \<Rightarrow> x_Status x = S_EXECUTED | None \<Rightarrow> False)"
    by (cases slot) auto
  then show ?case
  proof cases
    case exe
    with Cons.prems(2) slot obtain r1 where r1: "advance_executed q i r = Some r1" and rest: "exec_row q is r1 = Some (r', outs)"
      by (cases "advance_executed q i r") simp_all
    have "(q, i) \<in> executed r" using exe sl by (auto simp: executed_def)
    note step = advance_post [OF Cons.prems(1) this r1]
    then have "exec_ready r1" by (simp add: pass_post_def)
    from pass_post_trans [OF step Cons.IH [OF this rest]] show ?thesis .
  next
    case wait
    with Cons.prems(2) slot obtain r1 where "note_problem q i r = Some r1" "r' = r1"
      by (cases "note_problem q i r") simp_all
    with note_problem_post [OF Cons.prems(1)] show ?thesis by blast
  next
    case run
    with Cons.prems(2) slot obtain ok r1 outs1 where
      cmd: "executeCommand q i r = Some (ok, r1, outs1)"
      and cont: "do { r2 \<leftarrow> (if ok then advance_executed q i r1 else Some r1); (r3, outs3) \<leftarrow> exec_row q is r2; Some (r3, outs1 @ outs3) }
        = Some (r', outs)"
      by (cases "executeCommand q i r") auto
    from cont obtain r2 outs3 where r2: "(if ok then advance_executed q i r1 else Some r1) = Some r2"
      and rest: "exec_row q is r2 = Some (r', outs3)"
      by (cases "if ok then advance_executed q i r1 else Some r1"; cases "exec_row q is (the (if ok then advance_executed q i r1 else Some r1))") auto
    from executeCommand_post [OF Cons.prems(1) cmd] have step1: "pass_post r r1" and ok: "ok \<Longrightarrow> (q, i) \<in> executed r1"
      by auto
    then have ready1: "exec_ready r1" by (simp add: pass_post_def)
    have step2: "pass_post r1 r2"
    proof (cases ok)
      case True
      with r2 advance_post [OF ready1 ok] show ?thesis by simp
    qed (use r2 ready1 in \<open>simp add: pass_post_same\<close>)
    then have "exec_ready r2" by (simp add: pass_post_def)
    from pass_post_trans [OF pass_post_trans [OF step1 step2] Cons.IH [OF this rest]] show ?thesis .
  qed
qed

lemma exec_rows_post:
  "exec_ready r \<Longrightarrow> exec_rows qs r = Some (r', outs) \<Longrightarrow> pass_post r r'"
proof (induction qs arbitrary: r outs)
  case Nil
  then show ?case by (simp add: pass_post_same)
next
  case (Cons q qs)
  from Cons.prems(2) obtain e c where e: "slice_get (e_ExecedUpTo r) q = Some e" and c: "slice_get (e_crtInstance r) q = Some c"
    by (cases "slice_get (e_ExecedUpTo r) q"; cases "slice_get (e_crtInstance r) q") simp_all
  with Cons.prems(2) obtain r1 outs1 where row: "exec_row q [e + 1..c] r = Some (r1, outs1)"
    by (cases "exec_row q [e + 1..c] r") auto
  with Cons.prems(2) e c obtain outs2 where rest: "exec_rows qs r1 = Some (r', outs2)"
    by (cases "exec_rows qs r1") auto
  note step = exec_row_post [OF Cons.prems(1) row]
  then have "exec_ready r1" by (simp add: pass_post_def)
  from pass_post_trans [OF step Cons.IH [OF this rest]] show ?case .
qed

text \<open>C5. A pass of the executor that returns has executed strongly connected components of committed instances,
  one after the other: each depends, by all dependencies of its instances, on itself and on what was executed
  before it, and is sorted by sequence number and row. Nothing else was executed, nothing twice, the store is
  the old one after the writes of these instances in this order, and the next pass finds what this one did.\<close>

theorem executor_runs_components:
  assumes "exec_ready r" and "ep_executeCommands r = Some (r', outs)"
  shows "\<exists>Bs. components_ok r (executed r) Bs \<and> executed r' = executed r \<union> set (concat Bs) \<and>
    e_State r' = fold ep_put (concat (map (cmds_of r) (concat Bs))) (e_State r) \<and> exec_ready r'"
  using exec_rows_post [OF assms(1) assms(2) [unfolded ep_executeCommands_def]] unfolding pass_post_def by blast

subsection \<open>Everything known is committed\<close>

text \<open>Every instance up to the last of its row is committed or executed, with commands, and depends on
  instances within the rows.\<close>

definition known_committed :: "ep \<Rightarrow> bool" where
  "known_committed r \<longleftrightarrow>
     (\<forall>q. 0 \<le> q \<and> q < e_N r \<longrightarrow> (\<exists>c. slice_get (e_crtInstance r) q = Some c \<and>
        (\<forall>i. 0 \<le> i \<and> i \<le> c \<longrightarrow> (\<exists>x. inst_of r (q, i) = Some x \<and> x_Cmds x \<noteq> None \<and>
           (x_Status x = S_COMMITTED \<or> x_Status x = S_EXECUTED))) \<and>
        (\<forall>v x d. inst_of r v = Some x \<and> slice_get (ref_vals r (x_Deps x)) q = Some d \<longrightarrow> d \<le> c)))"

lemma pass_frame_known:
  assumes fr: "pass_frame r r'" and known: "known_committed r"
  shows "known_committed r'"
  unfolding known_committed_def
proof (intro allI impI)
  have env: "e_N r' = e_N r" "e_crtInstance r' = e_crtInstance r" "ref_vals r' = ref_vals r"
    using fr by (auto simp: pass_frame_def fun_eq_iff ref_vals_def split: option.splits)
  fix q assume "0 \<le> q \<and> q < e_N r'"
  with known env obtain c where c: "slice_get (e_crtInstance r) q = Some c"
    and inst: "\<And>i. 0 \<le> i \<Longrightarrow> i \<le> c \<Longrightarrow> \<exists>x. inst_of r (q, i) = Some x \<and> x_Cmds x \<noteq> None \<and>
      (x_Status x = S_COMMITTED \<or> x_Status x = S_EXECUTED)"
    and deps: "\<And>v x d. inst_of r v = Some x \<Longrightarrow> slice_get (ref_vals r (x_Deps x)) q = Some d \<Longrightarrow> d \<le> c"
    unfolding known_committed_def by metis
  have "\<exists>x. inst_of r' (q, i) = Some x \<and> x_Cmds x \<noteq> None \<and> (x_Status x = S_COMMITTED \<or> x_Status x = S_EXECUTED)"
    if "0 \<le> i" "i \<le> c" for i
    using inst [OF that] by (cases rule: pass_frame_cases [OF fr, where v = "(q, i)"]) (auto simp: same_inst_def)
  moreover have "d \<le> c" if "inst_of r' v = Some y" "slice_get (ref_vals r (x_Deps y)) q = Some d" for v y d
    using that deps [of v _ d] by (cases rule: pass_frame_cases [OF fr, where v = v]) (auto simp: same_inst_def)
  ultimately show "\<exists>c. slice_get (e_crtInstance r') q = Some c \<and>
        (\<forall>i. 0 \<le> i \<and> i \<le> c \<longrightarrow> (\<exists>x. inst_of r' (q, i) = Some x \<and> x_Cmds x \<noteq> None \<and>
           (x_Status x = S_COMMITTED \<or> x_Status x = S_EXECUTED))) \<and>
        (\<forall>v x d. inst_of r' v = Some x \<and> slice_get (ref_vals r' (x_Deps x)) q = Some d \<longrightarrow> d \<le> c)"
    unfolding env using c by blast
qed

lemma known_all_committed:
  assumes known: "known_committed r" and wf: "exec_wf r" and v: "inst_of r v = Some x" "x_Cmds x \<noteq> None"
    "x_Status x = S_COMMITTED \<or> x_Status x = S_EXECUTED"
  shows "all_committed r v"
proof -
  have "\<exists>x. inst_of r w = Some x \<and> x_Cmds x \<noteq> None \<and> (x_Status x = S_COMMITTED \<or> x_Status x = S_EXECUTED)"
    if "(v, w) \<in> (dep_rel r)\<^sup>*" for w
    using that
  proof (induction rule: rtrancl_induct)
    case base
    then show ?case using v by blast
  next
    case (step u w)
    then have "w \<in> deps_on r u" by (simp add: dep_rel_def)
    then obtain q i y d e where w: "w = (q, i)" and y: "inst_of r u = Some y" "0 \<le> q" "q < e_N r"
      "slice_get (ref_vals r (x_Deps y)) q = Some d" "slice_get (e_ExecedUpTo r) q = Some e" "e < i" "i \<le> d"
      unfolding deps_on_def by blast
    from wf y have "- 1 \<le> e" unfolding exec_wf_def by force
    with y have "0 \<le> i" by simp
    moreover from known y obtain c where "slice_get (e_crtInstance r) q = Some c" "d \<le> c"
      "\<forall>i. 0 \<le> i \<and> i \<le> c \<longrightarrow> (\<exists>x. inst_of r (q, i) = Some x \<and> x_Cmds x \<noteq> None \<and>
           (x_Status x = S_COMMITTED \<or> x_Status x = S_EXECUTED))"
      unfolding known_committed_def by metis
    ultimately show ?case using y w by (meson order_trans)
  qed
  then show ?thesis unfolding all_committed_def by blast
qed

lemma executeCommand_total:
  assumes wf: "exec_wf r" and ready: "exec_ready r" and known: "known_committed r"
    and x: "inst_of r (q, i) = Some x" "x_Cmds x \<noteq> None" "x_Status x = S_COMMITTED \<or> x_Status x = S_EXECUTED"
  shows "\<exists>r' outs. executeCommand q i r = Some (True, r', outs) \<and> exec_wf r'"
proof -
  have "in_space r q i" using wf x(1) by (force simp: exec_wf_def)
  then have slot: "slot_get r q i = Some (Some x)" using x(1) by (simp add: slot_get_Some)
  from x(3) show ?thesis
  proof
    assume s: "x_Status x = S_COMMITTED"
    have com: "committed r (q, i)" using x(1) s by (auto simp: committed_def)
    from findSCC_total [OF wf ready this] known_all_committed [OF known wf x]
    obtain st where scc: "findSCC (q, i) r = Some (True, st)" by auto
    from findSCC_components(4) [OF ready com scc] wf have "exec_wf (ex_r st)" by (rule exec_frame_wf)
    with slot s scc show ?thesis by (simp add: executeCommand_def)
  qed (use slot wf in \<open>simp add: executeCommand_def\<close>)
qed

lemma advance_total:
  assumes wf: "exec_wf r" and q: "0 \<le> q" "q < e_N r"
  shows "\<exists>r'. advance_executed q i r = Some r' \<and> exec_wf r'"
proof -
  from wf q obtain e where e: "slice_get (e_ExecedUpTo r) q = Some e" "- 1 \<le> e" unfolding exec_wf_def by blast
  show ?thesis
  proof (cases "i = e + 1")
    case True
    from e(1) obtain es where es: "slice_set (e_ExecedUpTo r) q i = Some es"
      by (auto simp: slice_get_def slice_set_def split: if_splits)
    have "\<exists>f. slice_get es p = Some f \<and> - 1 \<le> f" if "0 \<le> p" "p < e_N r" for p
    proof (cases "p = q")
      case True
      with slice_get_set_same [OF es] e \<open>i = e + 1\<close> show ?thesis by auto
    next
      case False
      with that wf slice_get_set_other [OF es, of p] show ?thesis by (simp add: exec_wf_def)
    qed
    then have "exec_wf (r\<lparr>e_ExecedUpTo := es\<rparr>)"
      using wf unfolding exec_wf_def by (simp add: in_space_def ref_vals_def)
    with e es True show ?thesis by (simp add: advance_executed_def)
  qed (use e wf in \<open>simp add: advance_executed_def\<close>)
qed

definition pass_inv :: "ep \<Rightarrow> bool" where
  "pass_inv r \<longleftrightarrow> exec_wf r \<and> exec_ready r \<and> known_committed r"

lemma pass_post_inv: "pass_post r r' \<Longrightarrow> pass_inv r \<Longrightarrow> exec_wf r' \<Longrightarrow> pass_inv r'"
  unfolding pass_inv_def pass_post_def using pass_frame_known by blast

lemma pass_post_keeps: "pass_post r r' \<Longrightarrow> e_N r' = e_N r \<and> e_crtInstance r' = e_crtInstance r \<and> executed r \<subseteq> executed r'"
  by (auto simp: pass_post_def pass_frame_def)

lemma exec_row_step_total:
  assumes inv: "pass_inv r" and q: "0 \<le> q" "q < e_N r" and c: "slice_get (e_crtInstance r) q = Some c"
    and i: "0 \<le> i" "i \<le> c"
  shows "\<exists>r1 outs1. (\<forall>is. exec_row q (i # is) r =
      do { (r2, outs2) \<leftarrow> exec_row q is r1; Some (r2, outs1 @ outs2) }) \<and>
    pass_post r r1 \<and> exec_wf r1 \<and> (q, i) \<in> executed r1"
proof -
  have wf: "exec_wf r" and ready: "exec_ready r" and known: "known_committed r" using inv by (simp_all add: pass_inv_def)
  from known q c i obtain x where x: "inst_of r (q, i) = Some x" "x_Cmds x \<noteq> None"
    "x_Status x = S_COMMITTED \<or> x_Status x = S_EXECUTED"
    unfolding known_committed_def by (metis option.inject)
  have "in_space r q i" using wf x(1) by (force simp: exec_wf_def)
  then have slot: "slot_get r q i = Some (Some x)" using x(1) by (simp add: slot_get_Some)
  from x(3) show ?thesis
  proof
    assume s: "x_Status x = S_EXECUTED"
    from advance_total [OF wf q] obtain r1 where r1: "advance_executed q i r = Some r1" "exec_wf r1" by blast
    have exe: "(q, i) \<in> executed r" using x(1) s by (auto simp: executed_def)
    note post = advance_post [OF ready exe r1(1)]
    with exe pass_post_keeps have "(q, i) \<in> executed r1" by blast
    moreover have "exec_row q (i # is) r = do { (r2, outs2) \<leftarrow> exec_row q is r1; Some (r2, [] @ outs2) }" for "is"
      using slot s r1 by (cases "exec_row q is r1") auto
    ultimately show ?thesis using post r1(2) by blast
  next
    assume s: "x_Status x = S_COMMITTED"
    from executeCommand_total [OF wf ready known x] obtain r1 outs1 where
      cmd: "executeCommand q i r = Some (True, r1, outs1)" and wf1: "exec_wf r1" by blast
    from executeCommand_post [OF ready cmd] have post: "pass_post r r1" and exe: "(q, i) \<in> executed r1" by auto
    from q pass_post_keeps [OF post] have "q < e_N r1" by simp
    from advance_total [OF wf1 q(1) this] obtain r2 where r2: "advance_executed q i r1 = Some r2" "exec_wf r2" by blast
    have "exec_ready r1" using post by (simp add: pass_post_def)
    note post2 = advance_post [OF this exe r2(1)]
    with exe pass_post_keeps have "(q, i) \<in> executed r2" by blast
    moreover have "exec_row q (i # is) r = do { (r3, outs3) \<leftarrow> exec_row q is r2; Some (r3, outs1 @ outs3) }" for "is"
      using slot s x(2) cmd r2(1) by (cases "exec_row q is r2") auto
    ultimately show ?thesis using pass_post_trans [OF post post2] r2(2) by blast
  qed
qed

lemma exec_row_total:
  assumes "pass_inv r" and "0 \<le> q" "q < e_N r" and "slice_get (e_crtInstance r) q = Some c"
    and "\<forall>i\<in>set is. 0 \<le> i \<and> i \<le> c"
  shows "\<exists>r' outs. exec_row q is r = Some (r', outs) \<and> pass_post r r' \<and> exec_wf r' \<and> (\<forall>i\<in>set is. (q, i) \<in> executed r')"
  using assms
proof (induction "is" arbitrary: r)
  case Nil
  then show ?case by (simp add: pass_inv_def pass_post_same)
next
  case (Cons i "is")
  then have "0 \<le> i" "i \<le> c" by simp_all
  from exec_row_step_total [OF Cons.prems(1-4) this] obtain r1 outs1 where
    eq: "exec_row q (i # is) r = do { (r2, outs2) \<leftarrow> exec_row q is r1; Some (r2, outs1 @ outs2) }"
    and post: "pass_post r r1" and wf1: "exec_wf r1" and exe: "(q, i) \<in> executed r1"
    by blast
  note keeps = pass_post_keeps [OF post]
  from Cons.IH [OF pass_post_inv [OF post Cons.prems(1) wf1] Cons.prems(2)] Cons.prems keeps
  obtain r2 outs2 where rest: "exec_row q is r1 = Some (r2, outs2)" "pass_post r1 r2" "exec_wf r2"
    "\<forall>i\<in>set is. (q, i) \<in> executed r2"
    by auto
  from rest(2) pass_post_keeps exe have "(q, i) \<in> executed r2" by blast
  with rest eq pass_post_trans [OF post rest(2)] show ?case by simp
qed

lemma exec_rows_total:
  assumes "pass_inv r" and "\<forall>q\<in>set qs. 0 \<le> q \<and> q < e_N r"
  shows "\<exists>r' outs. exec_rows qs r = Some (r', outs) \<and> pass_post r r' \<and>
    (\<forall>q\<in>set qs. \<forall>c i. slice_get (e_crtInstance r) q = Some c \<longrightarrow> 0 \<le> i \<longrightarrow> i \<le> c \<longrightarrow> (q, i) \<in> executed r')"
  using assms
proof (induction qs arbitrary: r)
  case Nil
  then show ?case by (simp add: pass_inv_def pass_post_same)
next
  case (Cons q qs)
  then have q: "0 \<le> q" "q < e_N r" by simp_all
  have ready: "exec_ready r" and known: "known_committed r" using Cons.prems(1) by (simp_all add: pass_inv_def)
  from ready q obtain e where e: "slice_get (e_ExecedUpTo r) q = Some e" "- 1 \<le> e"
    and up: "\<forall>i. 0 \<le> i \<and> i \<le> e \<longrightarrow> (q, i) \<in> executed r" unfolding exec_ready_def by blast
  from known q obtain c where c: "slice_get (e_crtInstance r) q = Some c" unfolding known_committed_def by blast
  have "\<forall>i\<in>set [e + 1..c]. 0 \<le> i \<and> i \<le> c" using e by auto
  from exec_row_total [OF Cons.prems(1) q c this] obtain r1 outs1 where
    row: "exec_row q [e + 1..c] r = Some (r1, outs1)" and post: "pass_post r r1" and wf1: "exec_wf r1"
    and exe: "\<forall>i\<in>set [e + 1..c]. (q, i) \<in> executed r1"
    by blast
  note keeps = pass_post_keeps [OF post]
  have all: "(q, i) \<in> executed r1" if "0 \<le> i" "i \<le> c" for i
    using that up exe keeps by (cases "i \<le> e") auto
  from Cons.IH [OF pass_post_inv [OF post Cons.prems(1) wf1]] Cons.prems(2) keeps
  obtain r2 outs2 where rest: "exec_rows qs r1 = Some (r2, outs2)" "pass_post r1 r2"
    "\<forall>q\<in>set qs. \<forall>c i. slice_get (e_crtInstance r) q = Some c \<longrightarrow> 0 \<le> i \<longrightarrow> i \<le> c \<longrightarrow> (q, i) \<in> executed r2"
    by auto
  from rest(2) pass_post_keeps have "executed r1 \<subseteq> executed r2" by blast
  with all c rest(3) have "\<forall>p\<in>set (q # qs). \<forall>c i. slice_get (e_crtInstance r) p = Some c \<longrightarrow> 0 \<le> i \<longrightarrow> i \<le> c \<longrightarrow> (p, i) \<in> executed r2"
    by auto
  with e c row rest pass_post_trans [OF post rest(2)] show ?case by simp
qed

text \<open>C6. The executor returns, and when every instance up to the last of each row is committed and depends on
  no later ones, one pass executes them all, however the dependencies are tangled: the recursion of the search
  ends, no array is read out of its bounds and no command is left behind.\<close>

theorem executor_catches_up:
  assumes "exec_wf r" and "exec_ready r" and "known_committed r"
  shows "\<exists>r' outs. ep_executeCommands r = Some (r', outs) \<and> exec_ready r' \<and>
    (\<forall>q c i. 0 \<le> q \<and> q < e_N r \<and> slice_get (e_crtInstance r) q = Some c \<and> 0 \<le> i \<and> i \<le> c \<longrightarrow> (q, i) \<in> executed r')"
proof -
  have "pass_inv r" using assms by (simp add: pass_inv_def)
  from exec_rows_total [OF this, of "[0..e_N r - 1]"] obtain r' outs where
    "exec_rows [0..e_N r - 1] r = Some (r', outs)" "pass_post r r'"
    "\<forall>q\<in>set [0..e_N r - 1]. \<forall>c i. slice_get (e_crtInstance r) q = Some c \<longrightarrow> 0 \<le> i \<longrightarrow> i \<le> c \<longrightarrow> (q, i) \<in> executed r'"
    by auto
  then show ?thesis by (auto simp: ep_executeCommands_def pass_post_def)
qed

subsection \<open>An example\<close>

definition demo_inst :: "val \<Rightarrow> int \<Rightarrow> nat \<Rightarrow> ep_inst" where
  "demo_inst v s d = NewInstance (Some [\<lparr>Op = PUT, K = 5, V = v, CL = 0, Sid = 0\<rparr>]) 0 0 S_COMMITTED s (Some d) 0"

text \<open>Two committed commands on a key, each among the dependencies of the other.\<close>

definition demo_ep :: ep where
  "demo_ep = (New_epaxos 2 3 True False 0 False)\<lparr>e_Heap := [[- 1, 0, - 1], [0, - 1, - 1]],
     e_InstanceSpace := [((0, 0), demo_inst [8] 2 0), ((1, 0), demo_inst [9] 1 1)], e_crtInstance := [0, 0, - 1]\<rparr>"

lemma demo_fields:
  "e_N demo_ep = 3" "e_ExecedUpTo demo_ep = [- 1, - 1, - 1]" "e_crtInstance demo_ep = [0, 0, - 1]"
  "e_Heap demo_ep = [[- 1, 0, - 1], [0, - 1, - 1]]"
  "e_InstanceSpace demo_ep = [((0, 0), demo_inst [8] 2 0), ((1, 0), demo_inst [9] 1 1)]"
  by (simp_all add: demo_ep_def New_epaxos_def numeral_3_eq_3)

lemma demo_facts:
  shows "inst_of demo_ep v = (if v = (0, 0) then Some (demo_inst [8] 2 0) else if v = (1, 0) then Some (demo_inst [9] 1 1) else None)"
    and "0 \<le> q \<and> q < e_N demo_ep \<longleftrightarrow> q = 0 \<or> q = 1 \<or> q = 2"
    and "slice_get (e_ExecedUpTo demo_ep) q = (if 0 \<le> q \<and> q < 3 then Some (- 1) else None)"
    and "slice_get (e_crtInstance demo_ep) q = (if q = 0 \<or> q = 1 then Some 0 else if q = 2 then Some (- 1) else None)"
    and "ref_vals demo_ep (Some 0) = [- 1, 0, - 1]" and "ref_vals demo_ep (Some (Suc 0)) = [0, - 1, - 1]"
  by (auto simp: demo_fields slice_get_def ref_vals_def nth_Cons' split: if_splits)

lemma demo_ready: "exec_wf demo_ep \<and> exec_ready demo_ep \<and> known_committed demo_ep"
proof (intro conjI)
  have exe: "executed demo_ep = {}" by (auto simp: executed_def demo_facts demo_inst_def NewInstance_def split: if_splits)
  have idx: "idx demo_ep v = 0" for v by (simp add: idx_def demo_facts demo_inst_def NewInstance_def)
  show "exec_ready demo_ep"
    unfolding exec_ready_def demo_facts(2) exe idx by (auto simp: demo_facts(3))
  show "exec_wf demo_ep"
    unfolding exec_wf_def demo_facts(2)
    by (auto simp: demo_facts demo_fields demo_inst_def NewInstance_def in_space_def MAX_INSTANCE_def slice_get_def nth_Cons'
        scan_in_range_def split: if_splits)
  show "known_committed demo_ep"
    unfolding known_committed_def demo_facts(2)
    by (auto simp: demo_facts demo_fields demo_inst_def NewInstance_def slice_get_def nth_Cons' split: if_splits)
qed

theorem executor_catches_up_witness:
  "\<exists>r' outs. ep_executeCommands demo_ep = Some (r', outs) \<and> exec_ready r' \<and> (0, 0) \<in> executed r' \<and> (1, 0) \<in> executed r'"
proof -
  from executor_catches_up [of demo_ep] demo_ready [THEN conjunct1] demo_ready [THEN conjunct2, THEN conjunct1]
    demo_ready [THEN conjunct2, THEN conjunct2] obtain r' outs where
    run: "ep_executeCommands demo_ep = Some (r', outs)" "exec_ready r'" and
    all: "\<And>q i. (0 \<le> q \<and> q < e_N demo_ep) \<and> slice_get (e_crtInstance demo_ep) q = Some 0 \<and> 0 \<le> i \<and> i \<le> 0 \<Longrightarrow>
      (q, i) \<in> executed r'"
    by blast
  have "(0, 0) \<in> executed r'" "(1, 0) \<in> executed r'" by (rule all; simp add: demo_fields slice_get_def)+
  with run show ?thesis by blast
qed

lemma demo_run:
  "map_option (\<lambda>(r, outs). (Store (e_State r) 5, length outs)) (ep_executeCommands demo_ep) = Some (Some [8], 0)"
  by code_simp

theorem executor_runs_components_witness:
  "\<exists>r' outs Bs. ep_executeCommands demo_ep = Some (r', outs) \<and> Store (e_State r') 5 = Some [8] \<and>
     components_ok demo_ep (executed demo_ep) Bs \<and> executed r' = executed demo_ep \<union> set (concat Bs) \<and>
     e_State r' = fold ep_put (concat (map (cmds_of demo_ep) (concat Bs))) (e_State demo_ep)"
proof -
  from demo_run obtain r' outs where run: "ep_executeCommands demo_ep = Some (r', outs)" "Store (e_State r') 5 = Some [8]"
    by (cases "ep_executeCommands demo_ep") auto
  from demo_ready executor_runs_components [OF _ run(1)] run show ?thesis by blast
qed

end
