(* ===== verification/EP_Net.thy ===== *)
theory EP_Net
  imports EP_Exec
begin

section \<open>The EPaxos event loop and a cluster of replicas\<close>

text \<open>
  The select loop \<open>run\<close> of \<open>src/epaxos/epaxos.go\<close> and replicas that run it over a network that may delay
  messages.

  \<^item> \<open>ep_step\<close> is one case of the loop, a pass of the executor, or an action of the environment. Reading the
    clock is the argument of the event. Beacons are messages of the base replica and not modelled here.
  \<^item> A message is encoded when it is sent and decoded when it is received (\<open>ep_wire\<close>).
\<close>

subsection \<open>Events\<close>

datatype ep_event = Ep_Propose int | Ep_FastClock | Ep_Msg int ep_msg | Ep_Recover int | Ep_Execute
  | Ep_Enqueue GPropose | Ep_BeTheLeader | Ep_Peers "bool list" "int list"

definition BatchingEnabled :: "ep \<Rightarrow> bool" where
  "BatchingEnabled r \<longleftrightarrow> 0 < e_batchWait r"

fun ep_handle :: "int \<Rightarrow> ep_msg \<Rightarrow> ep \<Rightarrow> ep_result" where
  "ep_handle now (E_Prepare m) r = ep_handlePrepare now m r"
| "ep_handle now (E_PreAccept m) r = ep_handlePreAccept now m r"
| "ep_handle now (E_Accept m) r = ep_handleAccept now m r"
| "ep_handle now (E_Commit m) r = ep_handleCommit now m r"
| "ep_handle now (E_PrepareReply m) r = ep_handlePrepareReply now m r"
| "ep_handle now (E_PreAcceptReply m) r = ep_handlePreAcceptReply m r"
| "ep_handle now (E_AcceptReply m) r = ep_handleAcceptReply m r"
| "ep_handle now (E_TryPreAccept m) r = ep_handleTryPreAccept now m r"
| "ep_handle now (E_TryPreAcceptReply m) r = ep_handleTryPreAcceptReply now m r"

fun ep_step :: "ep_event \<Rightarrow> ep \<Rightarrow> ep_result" where
  "ep_step (Ep_Propose now) r =
     (if \<not> e_onOff r then Some (r, [])
      else case e_ProposeChan r of
        [] \<Rightarrow> Some (r, [])
      | p # ps \<Rightarrow> do {
          (r, outs) \<leftarrow> ep_handlePropose now p (r\<lparr>e_ProposeChan := ps\<rparr>);
          Some (if BatchingEnabled r then r\<lparr>e_onOff := False\<rparr> else r, outs)
        })"
| "ep_step Ep_FastClock r = Some (if BatchingEnabled r then r\<lparr>e_onOff := True\<rparr> else r, [])"
| "ep_step (Ep_Msg now m) r = ep_handle now m r"
| "ep_step (Ep_Recover now) r =
     (case e_instancesToRecover r of
        [] \<Rightarrow> Some (r, [])
      | (q, i) # is \<Rightarrow> startRecoveryForInstance now q i (r\<lparr>e_instancesToRecover := is\<rparr>))"
| "ep_step Ep_Execute r = (if e_Exec r then ep_executeCommands r else Some (r, []))"
| "ep_step (Ep_Enqueue p) r = Some (r\<lparr>e_ProposeChan := e_ProposeChan r @ [p]\<rparr>, [])"
| "ep_step Ep_BeTheLeader r = Some (BeTheLeader_epaxos r, [])"
| "ep_step (Ep_Peers alive order) r = Some (r\<lparr>e_Alive := alive, e_PeerOrder := order\<rparr>, [])"

text \<open>\<open>stopAdapting\<close> sorts the order of the peers by their latencies: a selection sort of all but the last.
  \<open>sel_min\<close> is the inner loop.\<close>

fun sel_min :: "(int \<Rightarrow> 'a::linorder) \<Rightarrow> int list \<Rightarrow> nat \<Rightarrow> nat list \<Rightarrow> nat" where
  "sel_min ewma order mn [] = mn"
| "sel_min ewma order mn (j # js) = sel_min ewma order (if ewma (order ! j) < ewma (order ! mn) then j else mn) js"

fun sel_rounds :: "(int \<Rightarrow> 'a::linorder) \<Rightarrow> nat \<Rightarrow> int list \<Rightarrow> nat list \<Rightarrow> int list" where
  "sel_rounds ewma n order [] = order"
| "sel_rounds ewma n order (i # is) =
     (let mn = sel_min ewma order i [i + 1..<n - 1]
      in sel_rounds ewma n (order[i := order ! mn, mn := order ! i]) is)"

definition stopAdapting :: "(int \<Rightarrow> 'a::linorder) \<Rightarrow> ep \<Rightarrow> ep" where
  "stopAdapting ewma r =
     r\<lparr>e_PeerOrder := sel_rounds ewma (nat (e_N r)) (e_PeerOrder r) [0..<nat (e_N r) - 1]\<rparr>"

subsection \<open>The wire\<close>

definition received :: "('m \<Rightarrow> ep_msg) \<Rightarrow> 'm outcome \<Rightarrow> ep_msg option" where
  "received f o1 = (case o1 of Ok m _ \<Rightarrow> Some (f m) | _ \<Rightarrow> None)"

fun ep_wire :: "ep_msg \<Rightarrow> ep_msg option" where
  "ep_wire (E_Prepare m) = received E_Prepare (ep_Prepare_Unmarshal zero_ep_Prepare (ep_Prepare_Marshal m))"
| "ep_wire (E_PreAccept m) = received E_PreAccept (ep_PreAccept_Unmarshal zero_ep_PreAccept (ep_PreAccept_Marshal m))"
| "ep_wire (E_Accept m) = received E_Accept (ep_Accept_Unmarshal zero_ep_Accept (ep_Accept_Marshal m))"
| "ep_wire (E_Commit m) = received E_Commit (ep_Commit_Unmarshal zero_ep_Commit (ep_Commit_Marshal m))"
| "ep_wire (E_PrepareReply m) =
     received E_PrepareReply (ep_PrepareReply_Unmarshal zero_ep_PrepareReply (ep_PrepareReply_Marshal m))"
| "ep_wire (E_PreAcceptReply m) =
     received E_PreAcceptReply (ep_PreAcceptReply_Unmarshal zero_ep_PreAcceptReply (ep_PreAcceptReply_Marshal m))"
| "ep_wire (E_AcceptReply m) =
     received E_AcceptReply (ep_AcceptReply_Unmarshal zero_ep_AcceptReply (ep_AcceptReply_Marshal m))"
| "ep_wire (E_TryPreAccept m) =
     received E_TryPreAccept (ep_TryPreAccept_Unmarshal zero_ep_TryPreAccept (ep_TryPreAccept_Marshal m))"
| "ep_wire (E_TryPreAcceptReply m) = received E_TryPreAcceptReply
     (ep_TryPreAcceptReply_Unmarshal zero_ep_TryPreAcceptReply (ep_TryPreAcceptReply_Marshal m))"

fun wf_ep_msg :: "ep_msg \<Rightarrow> bool" where
  "wf_ep_msg (E_Prepare m) = wf_ep_Prepare m"
| "wf_ep_msg (E_PreAccept m) = wf_ep_PreAccept m"
| "wf_ep_msg (E_Accept m) = wf_ep_Accept m"
| "wf_ep_msg (E_Commit m) = wf_ep_Commit m"
| "wf_ep_msg (E_PrepareReply m) = wf_ep_PrepareReply m"
| "wf_ep_msg (E_PreAcceptReply m) = wf_ep_PreAcceptReply m"
| "wf_ep_msg (E_AcceptReply m) = wf_ep_AcceptReply m"
| "wf_ep_msg (E_TryPreAccept m) = wf_ep_TryPreAccept m"
| "wf_ep_msg (E_TryPreAcceptReply m) = wf_ep_TryPreAcceptReply m"

text \<open>What a message has lost when it arrives: the ballot of the last vote of a \<open>PrepareReply\<close>.\<close>

fun ep_survives :: "ep_msg \<Rightarrow> ep_msg" where
  "ep_survives (E_PrepareReply m) = E_PrepareReply (m\<lparr>er_VBallot := 0\<rparr>)"
| "ep_survives m = m"

lemmas ep_codecs = ep_prepare_codec.roundtrip ep_preaccept_codec.roundtrip ep_accept_codec.roundtrip
  ep_commit_codec.roundtrip ep_preacceptreply_codec.roundtrip ep_acceptreply_codec.roundtrip
  ep_trypreaccept_codec.roundtrip ep_trypreacceptreply_codec.roundtrip prepare_reply_roundtrip

lemma ep_wire_eq: "wf_ep_msg m \<Longrightarrow> ep_wire m = Some (ep_survives m)"
  by (cases m) (use ep_codecs [where s = "[]"] in \<open>simp_all add: received_def zero_ep_PrepareReply_def\<close>)

text \<open>A slice that is nil arrives as an empty one: the encoding has no nil, and the readers allocate.\<close>

definition filled :: "'a slice \<Rightarrow> 'a slice" where
  "filled xs = Some (elems xs)"


lemma elems_filled [simp]: "elems (filled xs) = elems xs"
  by (simp add: filled_def)







lemma wf_value_code [code]: "wf_value v \<longleftrightarrow> int (length v) < 65536"
  by (simp add: wf_value_def)

definition ep_decoded :: "ep_msg \<Rightarrow> ep_msg option" where
  "ep_decoded m = ep_wire m"

lemma ep_decoded_code [code]: "ep_decoded m = (if wf_ep_msg m then Some (ep_survives m) else ep_wire m)"
  by (simp add: ep_decoded_def ep_wire_eq)

subsection \<open>The cluster\<close>

record ep_net =
  en_nodes :: "int \<Rightarrow> ep"
  en_wire :: "(int \<times> ep_msg) list"
  en_replies :: "(int \<times> ProposeReplyTS) list"

fun ep_sends :: "ep_out list \<Rightarrow> (int \<times> ep_msg) list" where
  "ep_sends [] = []"
| "ep_sends (EP_Send d m # outs) = (d, m) # ep_sends outs"
| "ep_sends (EP_Reply _ _ # outs) = ep_sends outs"

fun ep_answers :: "int \<Rightarrow> ep_out list \<Rightarrow> (int \<times> ProposeReplyTS) list" where
  "ep_answers i [] = []"
| "ep_answers i (EP_Send d m # outs) = ep_answers i outs"
| "ep_answers i (EP_Reply _ a # outs) = (i, a) # ep_answers i outs"

text \<open>The receiver's event for a message on the wire, and one event at one replica.\<close>

datatype ep_action = Do ep_event | Deliver int ep_msg

definition ep_net_do :: "int \<Rightarrow> ep_action \<Rightarrow> ep_net \<Rightarrow> ep_net option" where
  "ep_net_do i a s = do {
     (ev, w) \<leftarrow> (case a of
        Do (Ep_Msg _ _) \<Rightarrow> None
      | Do ev \<Rightarrow> Some (ev, en_wire s)
      | Deliver now m \<Rightarrow>
          if (i, m) \<in> set (en_wire s)
          then do { m' \<leftarrow> ep_decoded m; Some (Ep_Msg now m', remove1 (i, m) (en_wire s)) }
          else None);
     (r, outs) \<leftarrow> ep_step ev (en_nodes s i);
     Some \<lparr>en_nodes = (en_nodes s)(i := r), en_wire = w @ ep_sends outs, en_replies = en_replies s @ ep_answers i outs\<rparr>
   }"

text \<open>A cluster of \<open>n\<close> connected replicas that execute commands and answer after execution.\<close>

definition ep_net_init :: "nat \<Rightarrow> ep_net" where
  "ep_net_init n =
     \<lparr>en_nodes = (\<lambda>i. (New_epaxos i n True False 0 False)\<lparr>e_Alive := map (\<lambda>j. int j \<noteq> i) [0..<n]\<rparr>), en_wire = [], en_replies = []\<rparr>"

inductive ep_reach :: "nat \<Rightarrow> ep_net \<Rightarrow> bool" for n where
  init: "ep_reach n (ep_net_init n)"
| step: "ep_reach n s \<Longrightarrow> 0 \<le> i \<Longrightarrow> i < int n \<Longrightarrow> ep_net_do i a s = Some s' \<Longrightarrow> ep_reach n s'"

text \<open>A run as a list of events and of the messages to deliver: the \<open>k\<close>-th of those on their way to the
  replica.\<close>

datatype ep_script = Act ep_event | Take nat

definition ep_action_of :: "int \<Rightarrow> ep_script \<Rightarrow> ep_net \<Rightarrow> ep_action option" where
  "ep_action_of i a s = (case a of
     Act ev \<Rightarrow> Some (Do ev)
   | Take k \<Rightarrow> (case drop k (filter (\<lambda>m. fst m = i) (en_wire s)) of [] \<Rightarrow> None | m # _ \<Rightarrow> Some (Deliver 0 (snd m))))"

fun ep_net_run :: "nat \<Rightarrow> (int \<times> ep_script) list \<Rightarrow> ep_net \<Rightarrow> ep_net option" where
  "ep_net_run n [] s = Some s"
| "ep_net_run n ((i, a) # as) s =
     (if 0 \<le> i \<and> i < int n
      then do { a \<leftarrow> ep_action_of i a s; s \<leftarrow> ep_net_do i a s; ep_net_run n as s }
      else None)"

lemma ep_net_run_reach: "ep_reach n s \<Longrightarrow> ep_net_run n as s = Some s' \<Longrightarrow> ep_reach n s'"
proof (induction "as" arbitrary: s)
  case (Cons x "as")
  obtain i a where x: "x = (i, a)" by (cases x)
  with Cons.prems(2) have i: "0 \<le> i" "i < int n" by (simp_all split: if_splits)
  with Cons.prems(2) x obtain b where b: "ep_action_of i a s = Some b"
    by (cases "ep_action_of i a s") simp_all
  with Cons.prems(2) x i obtain s1 where s1: "ep_net_do i b s = Some s1" "ep_net_run n as s1 = Some s'"
    by (cases "ep_net_do i b s") simp_all
  from Cons.IH [OF ep_reach.step [OF Cons.prems(1) i s1(1)] s1(2)] show ?case .
qed simp

subsection \<open>Recovery forgets dependencies\<close>

text \<open>A replica that waits for the first instances of rows 0 and 2, and the passes of its executor until it
  has waited for nearly ten seconds.\<close>

definition ep_waiting :: "ep \<Rightarrow> bool" where
  "ep_waiting r \<longleftrightarrow> e_N r = 3 \<and> e_Exec r \<and> e_ExecedUpTo r = [- 1, - 1, - 1] \<and> e_crtInstance r = [0, - 1, 0] \<and>
     e_problemInstance r = [0, - 1, 0] \<and> e_timeout r = [0, 0, 0] \<and>
     list_all (\<lambda>v. case map_of (e_InstanceSpace r) v of None \<Rightarrow> True | Some x \<Rightarrow> x_Status x < S_COMMITTED) [(0, 0), (2, 0)]"

definition ep_waited :: "nat \<Rightarrow> ep \<Rightarrow> ep" where
  "ep_waited k r = r\<lparr>e_timeout := [int k * EP_SLEEP_TIME, 0, int k * EP_SLEEP_TIME]\<rparr>"

lemma exec_row_waits:
  assumes "slot_get r q i = Some slot" and "case slot of None \<Rightarrow> True | Some x \<Rightarrow> x_Status x < S_COMMITTED"
    and "slice_get (e_problemInstance r) q = Some i" and "slice_get (e_timeout r) q = Some t"
    and "t + EP_SLEEP_TIME < EP_GRACE_PERIOD" and "slice_set (e_timeout r) q (t + EP_SLEEP_TIME) = Some ts"
  shows "exec_row q (i # is) r = Some (r\<lparr>e_timeout := ts\<rparr>, [])"
  using assms by (cases slot) (simp_all add: note_problem_def Let_def)

lemma ep_waits_step:
  assumes wait: "ep_waiting r" and k: "k < 9999"
  shows "ep_executeCommands (ep_waited k r) = Some (ep_waited (Suc k) r, [])"
proof -
  have rows: "[0..2] = [0, 1, 2 :: int]" "[0..0] = [0 :: int]" "[0..- 1] = ([] :: int list)"
    by (simp_all add: upto.simps)
  let ?t = "int k * EP_SLEEP_TIME" and ?t' = "int (Suc k) * EP_SLEEP_TIME"
  let ?mid = "r\<lparr>e_timeout := [?t', 0, ?t]\<rparr>"
  have t: "?t + EP_SLEEP_TIME = ?t'" "?t' < EP_GRACE_PERIOD"
    using k by (simp_all add: EP_SLEEP_TIME_def EP_GRACE_PERIOD_def)
  have slot: "slot_get (ep_waited k r) 0 0 = Some (map_of (e_InstanceSpace r) (0, 0))"
    "slot_get ?mid 2 0 = Some (map_of (e_InstanceSpace r) (2, 0))"
    using wait by (simp_all add: slot_get_def in_space_def ep_waited_def ep_waiting_def MAX_INSTANCE_def)
  have "exec_row 0 [0] (ep_waited k r) = Some (?mid, [])"
    using exec_row_waits [OF slot(1), of ?t "[?t', 0, ?t]" "[]"] wait t
    by (simp add: ep_waiting_def ep_waited_def slice_get_def slice_set_def split: option.splits)
  moreover have "exec_row 2 [0] ?mid = Some (ep_waited (Suc k) r, [])"
    using exec_row_waits [OF slot(2), of ?t "[?t', 0, ?t']" "[]"] wait t
    by (simp add: ep_waiting_def ep_waited_def slice_get_def slice_set_def split: option.splits)
  ultimately show ?thesis
    using wait by (simp add: ep_executeCommands_def ep_waiting_def rows ep_waited_def slice_get_def)
qed

definition ep_net_waited :: "int \<Rightarrow> nat \<Rightarrow> ep_net \<Rightarrow> ep_net" where
  "ep_net_waited i k s = s\<lparr>en_nodes := (en_nodes s)(i := ep_waited k (en_nodes s i))\<rparr>"

lemma ep_net_waits:
  assumes reach: "ep_reach n s" and wait: "ep_waiting (en_nodes s i)" and i: "0 \<le> i" "i < int n"
  shows "k \<le> 9999 \<Longrightarrow> ep_reach n (ep_net_waited i k s)"
proof (induction k)
  case 0
  have "ep_waited 0 (en_nodes s i) = en_nodes s i"
    using wait by (simp add: ep_waited_def ep_waiting_def)
  then have "ep_net_waited i 0 s = s" by (simp add: ep_net_waited_def)
  with reach show ?case by simp
next
  case (Suc k)
  have "ep_executeCommands (ep_waited k (en_nodes s i)) = Some (ep_waited (Suc k) (en_nodes s i), [])"
    using ep_waits_step [OF wait] Suc.prems by simp
  moreover have "e_Exec (ep_waited k (en_nodes s i))" using wait by (simp add: ep_waited_def ep_waiting_def)
  ultimately have "ep_net_do i (Do Ep_Execute) (ep_net_waited i k s) = Some (ep_net_waited i (Suc k) s)"
    by (simp add: ep_net_do_def ep_net_waited_def)
  with ep_reach.step [OF _ i] Suc show ?case by simp
qed

definition ep_write :: "int \<Rightarrow> int \<Rightarrow> val \<Rightarrow> (int \<times> ep_script) list" where
  "ep_write i c v =
     [(i, Act (Ep_Enqueue \<lparr>Propose = \<lparr>p_CommandId = c, p_ClientId = c,
         p_Command = \<lparr>Op = PUT, K = 5, V = v, CL = 0, Sid = 0\<rparr>, p_Timestamp = 0\<rparr>, Proxy = False, Addr = []\<rparr>)),
      (i, Act (Ep_Propose 0))]"

text \<open>Replicas 0 and 2 lead a write of one key each. Both are committed, each with the other among its
  dependencies, executed, and the clients answered. Replica 1, whose closest peer is replica 0, has
  pre-accepted both and hears nothing from replica 2 any more.\<close>

definition ep_two_writes :: "ep_net option" where
  "ep_two_writes = ep_net_run 3
     ((1, Act (Ep_Peers [True, False, True] [0, 2])) # ep_write 2 0 [7] @ ep_write 0 1 [9] @
      [(1, Take 0), (1, Take 0), (0, Take 0), (2, Take 0), (2, Take 0), (2, Take 0), (0, Take 0), (0, Take 0),
       (0, Take 0), (2, Take 0), (0, Act Ep_Execute), (2, Act Ep_Execute), (1, Act Ep_Execute)]) (ep_net_init 3)"

text \<open>After ten seconds it puts both up for recovery, hears of the commitment of the write of replica 0, and
  recovers the other with its own dependencies, which replica 0 acknowledges.\<close>

definition ep_recovery :: "(int \<times> ep_script) list" where
  "ep_recovery =
     [(1, Act Ep_Execute), (1, Take 1), (1, Act (Ep_Recover 0)), (1, Act (Ep_Recover 0)), (0, Take 0), (1, Take 1),
      (0, Take 0), (1, Take 1), (1, Act Ep_Execute)]"

definition ep_recovered :: "ep_net option" where
  "ep_recovered = do {
     s \<leftarrow> ep_two_writes;
     if ep_waiting (en_nodes s 1) then ep_net_run 3 ep_recovery (ep_net_waited 1 9999 s) else None
   }"

definition ep_view :: "int \<Rightarrow> ep_net \<Rightarrow> (inst_id \<times> int \<times> command list) list" where
  "ep_view i s = map (\<lambda>(v, x). (v, x_Status x, elems (x_Cmds x))) (e_InstanceSpace (en_nodes s i))"

lemma ep_recovered_run:
  "case ep_recovered of None \<Rightarrow> False
   | Some s \<Rightarrow>
       ep_view 0 s = [((0, 0), S_EXECUTED, [\<lparr>Op = PUT, K = 5, V = [9], CL = 0, Sid = 0\<rparr>]),
         ((2, 0), S_EXECUTED, [\<lparr>Op = PUT, K = 5, V = [7], CL = 0, Sid = 0\<rparr>])] \<and>
       ep_view 1 s = [((2, 0), S_EXECUTED, [\<lparr>Op = PUT, K = 5, V = [7], CL = 0, Sid = 0\<rparr>]),
         ((0, 0), S_EXECUTED, [\<lparr>Op = PUT, K = 5, V = [9], CL = 0, Sid = 0\<rparr>])] \<and>
       Store (e_State (en_nodes s 0)) 5 = Some [7] \<and> Store (e_State (en_nodes s 1)) 5 = Some [9] \<and>
       map fst (en_replies s) = [0, 2]"
  by code_simp

lemma ep_view_two:
  "ep_view i s = [(v, a, cs), (w, b, ds)] \<Longrightarrow>
     \<exists>x y. e_InstanceSpace (en_nodes s i) = [(v, x), (w, y)] \<and> x_Status x = a \<and> elems (x_Cmds x) = cs \<and>
       x_Status y = b \<and> elems (x_Cmds y) = ds"
  by (auto simp: ep_view_def map_eq_Cons_conv)

lemma ep_recovered_reach:
  assumes "ep_recovered = Some s"
  shows "ep_reach 3 s"
proof -
  from assms obtain s1 where s1: "ep_two_writes = Some s1"
    by (cases ep_two_writes) (simp_all add: ep_recovered_def)
  from assms have wait: "ep_waiting (en_nodes s1 1)" and run: "ep_net_run 3 ep_recovery (ep_net_waited 1 9999 s1) = Some s"
    by (simp_all add: ep_recovered_def s1 split: if_split_asm)
  from s1 have "ep_reach 3 s1"
    unfolding ep_two_writes_def by (rule ep_net_run_reach [OF ep_reach.init])
  from ep_net_waits [OF this wait, of 9999] have "ep_reach 3 (ep_net_waited 1 9999 s1)" by simp
  from ep_net_run_reach [OF this run] show ?thesis .
qed

text \<open>C7. Recovery breaks EPaxos: there is an execution of three replicas, in which no message is lost, none
  overtakes another of its sender and no replica fails, that leaves replicas 0 and 1 with the same two writes of a key executed, both
  clients answered, and different stores. A recovering replica takes its own ballot, the one it has just
  chosen, for that of a vote, and the ballots the others report for theirs are 0 when they arrive; so it
  commits the dependencies it knows itself in place of those that were committed.\<close>

theorem epaxos_recovery_diverges:
  "\<exists>s x y x' y'. ep_reach 3 s \<and>
     map_of (e_InstanceSpace (en_nodes s 0)) (0, 0) = Some y \<and> map_of (e_InstanceSpace (en_nodes s 0)) (2, 0) = Some x \<and>
     map_of (e_InstanceSpace (en_nodes s 1)) (0, 0) = Some y' \<and> map_of (e_InstanceSpace (en_nodes s 1)) (2, 0) = Some x' \<and>
     x_Status x = S_EXECUTED \<and> x_Status y = S_EXECUTED \<and> x_Status x' = S_EXECUTED \<and> x_Status y' = S_EXECUTED \<and>
     elems (x_Cmds x) = elems (x_Cmds x') \<and> elems (x_Cmds y) = elems (x_Cmds y') \<and>
     map fst (en_replies s) = [0, 2] \<and>
     Store (e_State (en_nodes s 0)) 5 = Some [7] \<and> Store (e_State (en_nodes s 1)) 5 = Some [9]"
proof -
  from ep_recovered_run obtain s where s: "ep_recovered = Some s" by (cases ep_recovered) simp_all
  note run = ep_recovered_run [unfolded s option.case]
  from ep_view_two [OF run [THEN conjunct1]] obtain y x where
    "e_InstanceSpace (en_nodes s 0) = [((0, 0), y), ((2, 0), x)]"
    "x_Status y = S_EXECUTED" "elems (x_Cmds y) = [\<lparr>Op = PUT, K = 5, V = [9], CL = 0, Sid = 0\<rparr>]"
    "x_Status x = S_EXECUTED" "elems (x_Cmds x) = [\<lparr>Op = PUT, K = 5, V = [7], CL = 0, Sid = 0\<rparr>]"
    by blast
  moreover from ep_view_two [OF run [THEN conjunct2, THEN conjunct1]] obtain x' y' where
    "e_InstanceSpace (en_nodes s 1) = [((2, 0), x'), ((0, 0), y')]"
    "x_Status y' = S_EXECUTED" "elems (x_Cmds y') = [\<lparr>Op = PUT, K = 5, V = [9], CL = 0, Sid = 0\<rparr>]"
    "x_Status x' = S_EXECUTED" "elems (x_Cmds x') = [\<lparr>Op = PUT, K = 5, V = [7], CL = 0, Sid = 0\<rparr>]"
    by blast
  ultimately show ?thesis
    using ep_recovered_reach [OF s] run
    by (intro exI [of _ s] exI [of _ x] exI [of _ y] exI [of _ x'] exI [of _ y']) simp
qed

end
