(* ===== verification/Spec2Isabelle.thy ===== *)
theory Spec2Isabelle
  imports Prelude Wire State Hook Rpc_Table Pool Quorum Msg_Set Defs Latency Replica Raft_Msgs Raft_Wire Raft Raft_Props
    Raft_Net Raft_Stable Paxos_Msgs Paxos Paxos_Props Paxos_Net N2_Msgs N2Paxos N2_Props N2_Net
    Swift_Msgs Swift_Hash Swift_Keys Swift Swift_Run Swift_Props Swift_Client Swift_Recovery
    EP_Msgs EPaxos EP_Exec EP_Tarjan EP_Exec_Props EP_Net
begin

text \<open>
  A verification library for swiftpaxos, a Go implementation of several state machine replication
  protocols (\<open>src/\<close>).

  \<^bold>\<open>The program.\<close> A replica process consists of a protocol (Raft in \<open>src/raft\<close>, Multi-Paxos in
  \<open>src/paxos\<close>, and others) on top of a shared base (\<open>src/replica\<close>). The base keeps the TCP connections
  to the other replicas and to the clients. A listener per connection reads message codes, looks them up
  in the RPC table (\<open>src/rpc\<close>), decodes the message and puts it on the channel of its type, after an
  emulated network delay. The event loop of the protocol takes messages, proposals and timer ticks from
  its channels, one at a time, and sends messages through the base. Committed commands are executed
  on the key-value store of \<open>src/state\<close>.

  \<^bold>\<open>Conventions.\<close> A Go integer is a HOL \<open>int\<close>; where it can overflow the wrap-around is written with
  \<open>i32\<close> or \<open>i64\<close> (theory Prelude). Bytes are \<open>8 word\<close>. A panic is \<open>None\<close> in the option monad; slices
  are lists whose accesses \<open>slice_get\<close> and \<open>slice_set\<close> check the bounds. A nil map entry, pointer or
  slice is \<open>None\<close> of an option where the code tells it from an empty one. Handlers are functions from a
  record of the replica's state to the new record and the list of what was sent. Mutexes protect single
  handlers in the code and do not appear in the model.

  \<^bold>\<open>Theories and what they model.\<close>

  \<^item> Prelude, Wire: integers, slices, the outcomes \<open>Ok\<close>, \<open>Fail\<close> and \<open>Panic\<close> of a reader, little-endian
    integers, varints and slices on the wire. The locales \<open>codec\<close> (a marshalled value is read back) and
    \<open>strict_codec\<close> (and every proper prefix is refused) are the interface of all message types; each
    message type interprets one of them.
  \<^item> State (\<open>state/state.go\<close>): commands, the store, \<open>Execute\<close>, \<open>ComputeResult\<close>, \<open>Conflict\<close>. Commands
    that do not conflict commute; the speculative result is that of execution; execution diverges only
    for two kinds of malformed scans.
  \<^item> Hook (\<open>hook/cond.go\<close>): calls deferred until a condition holds; \<open>OptCondF\<close> is equivalent to \<open>CondF\<close>.
  \<^item> Rpc_Table (\<open>rpc/rpc.go\<close>), Pool: codes of message types, caches of message objects.
  \<^item> Quorum (\<open>replica/quorum.go\<close> and the quorum sizes and ballots of \<open>replica/replica.go\<close>): enumeration
    of quorums, active quorums by ballot. The locale \<open>quorum_system\<close> states that quorums intersect.
  \<^item> Msg_Set (\<open>replica/mset.go\<close>): the collector of replies.
  \<^item> Defs (\<open>replica/defs/defs.go\<close>): client and base messages and their encoding.
  \<^item> Latency (\<open>replica/defs/latency.go\<close>): delays and the queue that delays proposals. The queue is in
    order; it is complete when proposals are written in the order of their ids, and not otherwise.
  \<^item> Replica (\<open>replica/replica.go\<close>, \<open>replica/sender.go\<close>): record \<open>base\<close>. Sending to peers and clients,
    the bounded client channels, the order of preference of the peers, the framing of both listeners,
    the sender goroutine. A flush is an input of the model: it succeeds or breaks after some bytes. The
    locale \<open>rpc_messages\<close> states what a protocol's messages need for its traffic to arrive.
  \<^item> Raft_Msgs, Raft (\<open>raft/defs.go\<close>, \<open>raft/raft.go\<close>): messages, record \<open>raft\<close>, every handler,
    and \<open>run_step\<close>, one round of the event loop. Raft_Wire interprets \<open>rpc_messages\<close> for Raft.
    Raft_Props proves the invariant of one replica (it never panics), monotonic terms and votes, and the
    functional behaviour of replication, commitment and execution. Raft_Net composes replicas with a
    network that loses, delays and reorders messages, and proves election safety where votes
    are timely, together with an execution that breaks it where they are not. Raft_Stable proves log
    matching, majority storage of committed entries and the refinement of one state machine in
    executions without election time-outs.
  \<^item> Paxos_Msgs, Paxos (\<open>paxos/defs.go\<close>, \<open>paxos/paxos.go\<close>): messages, record \<open>paxos\<close>, every handler,
    execution, and \<open>run_paxos\<close>, one event. Paxos_Props proves that the ballot loop ends, that acceptors
    keep their promises, that execution is in order, and when a refusal makes the leader panic.
    Paxos_Net composes replicas and shows that agreement fails when the leader changes.

  \<^item> N2_Msgs, N2Paxos (\<open>n2paxos/defs.go\<close>, \<open>n2paxos/n2paxos.go\<close>, \<open>n2paxos/batcher.go\<close>): messages, record
    \<open>n2\<close>, the descriptors of the slots with their goroutines, channels and pool, the batcher, and
    \<open>run_n2\<close>, one event. It uses the collector of Msg_Set and the quorums of Quorum. N2_Props proves the
    invariant of one replica, and N2_Net that a cluster refines one state machine when deliveries do not
    overlap, that followers wait for a majority, and two executions in which the leader does not wait
    and in which commands are executed out of order.
  \<^item> Swift_Msgs (\<open>swift/defs.go\<close>): the messages of SwiftPaxos, their encodings, and the comparison of
    dependencies. A slice that may be nil is an option of a list.
  \<^item> Swift_Hash (\<open>swift/dpath.go\<close>): the log of hashes of a key with its doubly linked list, in an explicit
    heap of nodes. It refines an abstract log; followers compute the leader's hashes, and equal hashes
    stand for equal histories. The hash function is a parameter.
  \<^item> Swift_Keys (\<open>swift/key.go\<close> and the bookkeeping of \<open>swift/swift.go\<close>): record \<open>sw_logs\<close>. Dependencies
    cover all earlier writes, and two kinds of conflicts they do not cover.
  \<^item> Swift, Swift_Run (\<open>swift/swift.go\<close>, \<open>swift/replychan.go\<close>, \<open>swift/batcher.go\<close>,
    \<open>swift/recovery.go\<close>): record \<open>sw\<close>, descriptors in a heap with their goroutines and pool, every handler,
    the batcher, recovery, and \<open>sw_step\<close>, one event. Swift_Props proves that execution respects the recorded
    dependencies, whatever happens, and that these may differ between replicas.
  \<^item> Swift_Client (\<open>swift/client.go\<close>): record \<open>swc\<close>, every handler. What the client reports is certified by
    a quorum. Swift_Recovery runs replicas and client against each other and shows what recovery loses.
  \<^item> EP_Msgs (\<open>epaxos/defs.go\<close>, \<open>epaxos/defsmarsh.go\<close>): the messages of EPaxos. EPaxos
    (\<open>epaxos/epaxos.go\<close>, \<open>epaxos/common.go\<close>): record \<open>ep\<close>, the instances, the slices of dependencies in an
    explicit store since they are shared, every handler. EP_Exec (\<open>epaxos/exec.go\<close>): Tarjan's algorithm
    and the passes of the executor. EP_Tarjan proves the search correct and EP_Exec_Props the passes:
    strongly connected components are executed in the order of their dependencies, and everything is
    executed once all known instances are committed. EP_Net adds \<open>ep_step\<close>, one event, runs replicas
    against each other, their messages encoded and decoded, and shows what recovery forgets.

  \<^bold>\<open>Bounds and termination.\<close> Fuel and partial functions occur only where the code loops on data it does
  not control: \<open>ballot_loop\<close>, \<open>alive_loop\<close>, \<open>hash_walk\<close> and the scan of \<open>Execute\<close> return \<open>None\<close> when they do not end, and the theorems on
  them say when they do. \<open>findSCC\<close> gives the search one unit of fuel more than there are instances; every
  call puts an instance on the stack that had no index, so it is enough (\<open>strongconnect_total\<close>). Theorems that need numbers not to overflow state the bound (numbers of
  replicas below \<open>2 ^ 31\<close>, ballots that leave room for one more round, logs below \<open>2 ^ 31\<close> entries).
  Channels are unbounded queues, except the client channel of the base, whose bound is the subject of a
  theorem.

  \<^bold>\<open>What is not modelled.\<close> Dialling and accepting connections, the master (\<open>src/master\<close>) and the
  clients' load generation are network I/O and randomness; reading configuration, quorum and latency
  files is text parsing of files; log output. Of SwiftPaxos, the gob encoding of \<open>MSync\<close> belongs to the
  standard library and the pool of acknowledgements is off (pool levels up to 1). The protocol CURP and
  the variants are not modelled yet; they use the base, the quorums, the collectors and the
  deferred calls modelled here.
\<close>

end
